(* ===== verification/Prelude.thy ===== *)
theory Prelude
  imports Main "HOL-Library.Word" "HOL-Library.Signed_Division" "HOL-Library.Monad_Syntax"
begin

text \<open>
  Shared vocabulary of the development: how Go's results are written here, the named
  collections the component proofs draw on, and the generic lemmas on options, lists and
  maps that several components need.

  A Go function that may not return normally (a run-time panic, an endless loop) has an
  \<open>option\<close> result, with \<open>None\<close> for "no normal return"; its steps are chained with
  \<open>Option.bind\<close>. A Go \<open>error\<close> result is a value of type \<open>'e option\<close>, with \<open>None\<close> for nil.
  A Go string is a list of bytes, one \<open>char\<close> each.
\<close>

section \<open>Collections\<close>

named_theorems json_parse \<open>how the JSON scanner reads the text an encoder wrote\<close>
named_theorems frame_simps \<open>fields that an operation leaves unchanged\<close>

section \<open>Types shared by the components\<close>

type_synonym env = "string \<Rightarrow> string"      \<comment> \<open>os.Getenv: the empty string when a name is not set\<close>
type_synonym int64 = "64 word"

section \<open>Options\<close>

lemma bind_Some_iff [simp]:
  "(Option.bind m f = Some y) = (\<exists>x. m = Some x \<and> f x = Some y)"
  by (cases m) auto

lemma map_option_Some_iff [simp]:
  "(map_option f m = Some y) = (\<exists>x. m = Some x \<and> f x = y)"
  by (cases m) auto

section \<open>Lists\<close>

lemma takeWhile_append_stop [simp]:
  "\<forall>x\<in>set xs. P x \<Longrightarrow> ys = [] \<or> \<not> P (hd ys) \<Longrightarrow> takeWhile P (xs @ ys) = xs"
  by (cases ys) (auto simp: takeWhile_append)

lemma dropWhile_append_stop [simp]:
  "\<forall>x\<in>set xs. P x \<Longrightarrow> ys = [] \<or> \<not> P (hd ys) \<Longrightarrow> dropWhile P (xs @ ys) = ys"
  by (cases ys) (auto simp: dropWhile_append)

lemma dropWhile_hd_stop [simp]: "xs = [] \<or> \<not> P (hd xs) \<Longrightarrow> dropWhile P xs = xs"
  by (cases xs) auto

lemma length_dropWhile_less_Suc [simp]: "length (dropWhile P xs) < Suc (length xs)"
  by (simp add: less_Suc_eq_le length_dropWhile_le)

section \<open>Maps keyed by a field of their values\<close>

text \<open>
  The metadata tables of a client are maps from an id to a struct that holds the same id.
\<close>

definition keyed_by :: "('v \<Rightarrow> 'k) \<Rightarrow> ('k \<rightharpoonup> 'v) \<Rightarrow> bool" where
  "keyed_by key m \<longleftrightarrow> (\<forall>k v. m k = Some v \<longrightarrow> key v = k)"

lemma keyed_by_empty [simp]: "keyed_by key Map.empty"
  by (simp add: keyed_by_def)

lemma keyed_by_insert [simp, intro]: "keyed_by key m \<Longrightarrow> key v = k \<Longrightarrow> keyed_by key (m(k \<mapsto> v))"
  by (simp add: keyed_by_def)

lemma keyed_byD: "keyed_by key m \<Longrightarrow> m k = Some v \<Longrightarrow> key v = k"
  by (simp add: keyed_by_def)

text \<open>Filling a map from a list, as the loops over the lists of rtm.start do.\<close>

fun insert_all :: "('v \<Rightarrow> 'k) \<Rightarrow> 'v list \<Rightarrow> ('k \<rightharpoonup> 'v) \<Rightarrow> ('k \<rightharpoonup> 'v)" where
  "insert_all key [] m = m"
| "insert_all key (v # vs) m = insert_all key vs (m(key v \<mapsto> v))"

lemma insert_all_keyed [intro]: "keyed_by key m \<Longrightarrow> keyed_by key (insert_all key vs m)"
  by (induction vs arbitrary: m) auto

text \<open>The last entry of the list with the key wins; a key not in the list keeps its value.\<close>

lemma insert_all_lookup:
  "insert_all key vs m k =
     (case filter (\<lambda>v. key v = k) vs of [] \<Rightarrow> m k | ws \<Rightarrow> Some (last ws))"
proof (induction vs arbitrary: m)
  case (Cons v vs)
  then show ?case by (cases "filter (\<lambda>v. key v = k) vs") auto
qed simp

lemma insert_all_dom: "dom (insert_all key vs m) = dom m \<union> key ` set vs"
  by (induction vs arbitrary: m) auto

text \<open>An update out of range changes nothing, so only the index that is read has to be within the list.\<close>

lemma nth_update_any: "j < length xs \<Longrightarrow> xs[i := x] ! j = (if i = j then x else xs ! j)"
  by (cases "i = j") simp_all

end
