(* ===== verification/GoLib.thy ===== *)
theory GoLib
  imports Prelude
begin

text \<open>
  Strings of Go's standard library as byte lists: \<open>strings.Trim\<close>, \<open>fmt.Sprintf("%d", n)\<close>,
  \<open>strconv.Atoi\<close> and \<open>strconv.ParseInt(s, 10, 64)\<close> as of Go 1.7, the version that .travis.yml
  builds with, with the round trip of a printed number.
\<close>

section \<open>Bytes\<close>

definition byte :: "char \<Rightarrow> nat" where
  "byte c = of_char c"

definition chr :: "nat \<Rightarrow> char" where
  "chr n = char_of n"

lemma byte_less [simp]: "byte c < 256"
  using nat_of_char_less_256 [of c] by (simp add: byte_def)

lemma chr_byte [simp]: "chr (byte c) = c"
  by (simp add: byte_def chr_def)

lemma byte_chr [simp]: "n < 256 \<Longrightarrow> byte (chr n) = n"
  by (simp add: byte_def chr_def)

lemma byte_eq_iff: "byte c = byte d \<longleftrightarrow> c = d"
  by (simp add: byte_def)

lemma byte_Char [simp]:
  "byte (Char b0 b1 b2 b3 b4 b5 b6 b7) =
     horner_sum of_bool 2 [b0, b1, b2, b3, b4, b5, b6, b7]"
  by (simp add: byte_def)

definition is_digit :: "char \<Rightarrow> bool" where
  "is_digit c \<longleftrightarrow> 48 \<le> byte c \<and> byte c \<le> 57"

definition digit_val :: "char \<Rightarrow> nat" where
  "digit_val c = byte c - 48"

section \<open>Strings\<close>

text \<open>\<open>strings.Trim(s, cutset)\<close> removes leading and trailing bytes of the cutset.\<close>

definition trim :: "char list \<Rightarrow> string \<Rightarrow> string" where
  "trim cs s = rev (dropWhile (\<lambda>c. c \<in> set cs) (rev (dropWhile (\<lambda>c. c \<in> set cs) s)))"

lemma trim_none:
  assumes "s = [] \<or> hd s \<notin> set cs" and "s = [] \<or> last s \<notin> set cs"
  shows "trim cs s = s"
  using assms by (auto simp: trim_def hd_rev)

lemma trim_quoted:
  assumes "\<forall>c\<in>set s. c \<noteq> q"
  shows "trim [q] (q # s @ [q]) = s"
proof -
  have "dropWhile (\<lambda>c. c = q) (s @ [q]) = (if s = [] then [] else s @ [q])"
    using assms by (cases s) auto
  moreover have "dropWhile (\<lambda>c. c = q) (rev s) = rev s"
    using assms by (cases "rev s") (auto dest: arg_cong [of _ _ set])
  ultimately show ?thesis by (auto simp: trim_def)
qed

section \<open>Decimal numbers\<close>

fun show_nat :: "nat \<Rightarrow> string" where
  "show_nat n = (if n < 10 then [chr (48 + n)] else show_nat (n div 10) @ [chr (48 + n mod 10)])"

declare show_nat.simps [simp del]

definition show_int :: "int \<Rightarrow> string" where
  "show_int i = (if i < 0 then CHR ''-'' # show_nat (nat (- i)) else show_nat (nat i))"

definition val_digits :: "string \<Rightarrow> nat" where
  "val_digits s = foldl (\<lambda>a c. 10 * a + digit_val c) 0 s"

lemma is_digit_chr [simp]: "n < 10 \<Longrightarrow> is_digit (chr (48 + n))"
  by (simp add: is_digit_def)

lemma digit_val_chr [simp]: "n < 10 \<Longrightarrow> digit_val (chr (48 + n)) = n"
  by (simp add: digit_val_def)

lemma show_nat_digits: "\<forall>c\<in>set (show_nat n). is_digit c"
proof (induction n rule: show_nat.induct)
  case (1 n)
  then show ?case by (subst show_nat.simps) auto
qed

lemma show_nat_nonempty [simp]: "show_nat n \<noteq> []"
  by (subst show_nat.simps) simp

lemma val_show_nat [simp]: "val_digits (show_nat n) = n"
proof (induction n rule: show_nat.induct)
  case (1 n)
  then show ?case
    by (subst show_nat.simps) (auto simp: val_digits_def)
qed

lemma show_nat_inject [simp]: "show_nat m = show_nat n \<longleftrightarrow> m = n"
  by (metis val_show_nat)

text \<open>No leading zero, so the text is a JSON number.\<close>

lemma show_nat_hd_nonzero: "0 < n \<Longrightarrow> hd (show_nat n) \<noteq> CHR ''0''"
proof (induction n rule: show_nat.induct)
  case (1 n)
  show ?case
  proof (cases "n < 10")
    case True
    have "byte (chr (48 + n)) \<noteq> byte (CHR ''0'')"
      using True 1(2) by simp
    then have "chr (48 + n) \<noteq> CHR ''0''" by metis
    with True show ?thesis by (subst show_nat.simps) simp
  next
    case False
    with "1.IH" have "hd (show_nat (n div 10)) \<noteq> CHR ''0''" by simp
    with False show ?thesis by (subst show_nat.simps) (simp add: hd_append)
  qed
qed

lemma minus_not_digit [simp]: "\<not> is_digit CHR ''-''"
  by (simp add: is_digit_def)

lemma show_int_inject [simp]: "show_int i = show_int j \<longleftrightarrow> i = j"
proof
  assume eq: "show_int i = show_int j"
  have hd: "hd (show_nat n) \<noteq> CHR ''-''" for n
    using show_nat_digits [of n] minus_not_digit by (metis list.set_sel(1) show_nat_nonempty)
  show "i = j"
    using eq hd by (auto simp: show_int_def split: if_splits)
      (metis list.sel(1))+
qed simp

text \<open>
  \<open>strconv.ParseInt(s, 10, 64)\<close>, which \<open>strconv.Atoi\<close> is on a 64-bit machine: an optional
  sign, then at least one digit, nothing else, and a value that fits 64 bits.
\<close>

definition int64_min :: int where "int64_min = - (2 ^ 63)"
definition int64_max :: int where "int64_max = 2 ^ 63 - 1"

definition unsigned_digits :: "string \<Rightarrow> nat option" where
  "unsigned_digits s = (if s \<noteq> [] \<and> list_all is_digit s then Some (val_digits s) else None)"

definition fits_int64 :: "int \<Rightarrow> int option" where
  "fits_int64 i = (if int64_min \<le> i \<and> i \<le> int64_max then Some i else None)"

definition parse_int64 :: "string \<Rightarrow> int option" where
  "parse_int64 s =
     (case s of
        [] \<Rightarrow> None
      | c # r \<Rightarrow>
          if c = CHR ''-'' then Option.bind (unsigned_digits r) (\<lambda>n. fits_int64 (- int n))
          else if c = CHR ''+'' then Option.bind (unsigned_digits r) (\<lambda>n. fits_int64 (int n))
          else Option.bind (unsigned_digits s) (\<lambda>n. fits_int64 (int n)))"

lemma plus_not_digit [simp]: "\<not> is_digit CHR ''+''"
  by (simp add: is_digit_def)

lemma unsigned_digits_show_nat [simp]: "unsigned_digits (show_nat n) = Some n"
  using show_nat_digits by (simp add: unsigned_digits_def list_all_iff)

lemma parse_int64_digits:
  assumes "s \<noteq> []" and "\<forall>c\<in>set s. is_digit c"
  shows "parse_int64 s = fits_int64 (int (val_digits s))"
proof -
  obtain c r where s: "s = c # r" using assms(1) by (cases s) auto
  have "c \<noteq> CHR ''-''" and "c \<noteq> CHR ''+''"
    using assms(2) s by auto
  then show ?thesis
    using assms s by (simp add: parse_int64_def unsigned_digits_def list_all_iff)
qed

lemma parse_int64_show_int:
  assumes "int64_min \<le> i" and "i \<le> int64_max"
  shows "parse_int64 (show_int i) = Some i"
proof (cases "i < 0")
  case True
  then show ?thesis
    using assms by (simp add: show_int_def parse_int64_def fits_int64_def)
next
  case False
  then show ?thesis
    using assms parse_int64_digits [OF show_nat_nonempty show_nat_digits, of "nat i"]
    by (simp add: show_int_def fits_int64_def)
qed

lemma parse_int64_range: "parse_int64 s = Some i \<Longrightarrow> int64_min \<le> i \<and> i \<le> int64_max"
  by (auto simp: parse_int64_def fits_int64_def split: list.splits if_splits)

end
