(* ===== verification/Utf8.thy ===== *)
theory Utf8
  imports GoLib
begin

text \<open>
  Go's \<open>unicode/utf8\<close>: DecodeRuneInString, EncodeRune and ValidString, on byte strings. The
  JSON encoder and decoder of the standard library walk a string with them.
\<close>

section \<open>Decoding and encoding one rune\<close>

definition RuneError :: nat where "RuneError = 65533"

definition cont :: "char \<Rightarrow> bool" where
  "cont c \<longleftrightarrow> 128 \<le> byte c \<and> byte c \<le> 191"

definition decode_rune :: "string \<Rightarrow> nat \<times> nat" where
  "decode_rune s =
     (case s of
        [] \<Rightarrow> (RuneError, 0)
      | c0 # r \<Rightarrow>
         let b0 = byte c0 in
         if b0 < 128 then (b0, 1)
         else if 194 \<le> b0 \<and> b0 \<le> 223 then
           (case r of
              c1 # _ \<Rightarrow> if cont c1 then ((b0 - 192) * 64 + (byte c1 - 128), 2) else (RuneError, 1)
            | _ \<Rightarrow> (RuneError, 1))
         else if 224 \<le> b0 \<and> b0 \<le> 239 then
           (case r of
              c1 # c2 # _ \<Rightarrow>
                if cont c1 \<and> cont c2 \<and> (b0 = 224 \<longrightarrow> 160 \<le> byte c1) \<and> (b0 = 237 \<longrightarrow> byte c1 \<le> 159)
                then (((b0 - 224) * 64 + (byte c1 - 128)) * 64 + (byte c2 - 128), 3)
                else (RuneError, 1)
            | _ \<Rightarrow> (RuneError, 1))
         else if 240 \<le> b0 \<and> b0 \<le> 244 then
           (case r of
              c1 # c2 # c3 # _ \<Rightarrow>
                if cont c1 \<and> cont c2 \<and> cont c3
                   \<and> (b0 = 240 \<longrightarrow> 144 \<le> byte c1) \<and> (b0 = 244 \<longrightarrow> byte c1 \<le> 143)
                then ((((b0 - 240) * 64 + (byte c1 - 128)) * 64 + (byte c2 - 128)) * 64
                       + (byte c3 - 128), 4)
                else (RuneError, 1)
            | _ \<Rightarrow> (RuneError, 1))
         else (RuneError, 1))"

definition is_surrogate :: "nat \<Rightarrow> bool" where
  "is_surrogate r \<longleftrightarrow> 55296 \<le> r \<and> r < 57344"

definition encode_rune :: "nat \<Rightarrow> string" where
  "encode_rune r0 =
     (if r0 < 128 then [chr r0]
      else if r0 < 2048 then [chr (192 + r0 div 64), chr (128 + r0 mod 64)]
      else
        let r = (if 1114111 < r0 \<or> is_surrogate r0 then RuneError else r0) in
        if r < 65536 then
          [chr (224 + r div 4096), chr (128 + r div 64 mod 64), chr (128 + r mod 64)]
        else
          [chr (240 + r div 262144), chr (128 + r div 4096 mod 64),
           chr (128 + r div 64 mod 64), chr (128 + r mod 64)])"

text \<open>A width of one byte with \<open>RuneError\<close> is how Go reports a malformed sequence.\<close>

abbreviation bad_rune :: "string \<Rightarrow> bool" where
  "bad_rune s \<equiv> decode_rune s = (RuneError, 1)"

lemma decode_rune_ascii [simp]: "byte c < 128 \<Longrightarrow> decode_rune (c # r) = (byte c, 1)"
  by (simp add: decode_rune_def)

lemma decode_rune_width_pos: "s \<noteq> [] \<Longrightarrow> 1 \<le> snd (decode_rune s)"
  by (auto simp: decode_rune_def Let_def split: list.splits)

lemma decode_rune_width: "(r, n) = decode_rune s \<Longrightarrow> s \<noteq> [] \<Longrightarrow> 0 < n"
  using decode_rune_width_pos [of s] by (metis One_nat_def Suc_le_lessD snd_conv)

lemma drop_rune_less: "s \<noteq> [] \<Longrightarrow> length (drop (snd (decode_rune s)) s) < length s"
  using decode_rune_width_pos [of s] by (cases s) auto

lemma base64_digits [simp]:
  fixes x d :: nat
  assumes "d < 64"
  shows "(x * 64 + d) div 64 = x" and "(x * 64 + d) mod 64 = d"
  using assms by simp_all

lemma div_4096: "n div 4096 = n div 64 div (64 :: nat)"
  by (simp add: div_mult2_eq [symmetric])

lemma div_262144: "n div 262144 = n div 64 div 64 div (64 :: nat)"
  by (simp add: div_mult2_eq [symmetric])

lemma encode_rune_2:
  assumes "2 \<le> a" "a < 32" "b < 64"
  shows "encode_rune (a * 64 + b) = [chr (192 + a), chr (128 + b)]"
proof -
  have "\<not> a * 64 + b < 128" "a * 64 + b < 2048"
    using assms by linarith+
  then show ?thesis using assms by (simp add: encode_rune_def)
qed

lemma encode_rune_3:
  assumes "a < 16" "b < 64" "c < 64" and lo: "a = 0 \<longrightarrow> 32 \<le> b" and hi: "a = 13 \<longrightarrow> b < 32"
  shows "encode_rune ((a * 64 + b) * 64 + c) = [chr (224 + a), chr (128 + b), chr (128 + c)]"
proof -
  let ?r = "(a * 64 + b) * 64 + c"
  have "2048 \<le> ?r" using lo by (cases a) auto
  then have le: "\<not> ?r < 128" "\<not> ?r < 2048"
    by linarith+
  have "?r \<le> (15 * 64 + 63) * 64 + 63"
    by (intro add_mono mult_mono) (use assms in auto)
  then have lt: "?r < 65536"
    by (rule le_less_trans) simp
  have "a \<le> 12 \<or> a = 13 \<or> 14 \<le> a" by linarith
  then have "\<not> (1114111 < ?r \<or> is_surrogate ?r)"
    using assms unfolding is_surrogate_def by auto
  with le lt show ?thesis
    using assms(1-3) unfolding encode_rune_def Let_def div_4096
    by (simp del: distrib_right_numeral)
qed

lemma encode_rune_4:
  assumes "a \<le> 4" "b < 64" "c < 64" "d < 64" and lo: "a = 0 \<longrightarrow> 16 \<le> b" and hi: "a = 4 \<longrightarrow> b < 16"
  shows "encode_rune (((a * 64 + b) * 64 + c) * 64 + d)
    = [chr (240 + a), chr (128 + b), chr (128 + c), chr (128 + d)]"
proof -
  let ?r = "((a * 64 + b) * 64 + c) * 64 + d"
  have "65536 \<le> ?r" using lo by (cases a) auto
  then have le: "\<not> ?r < 128" "\<not> ?r < 2048" "\<not> ?r < 65536"
    by linarith+
  have "a \<le> 3 \<or> a = 4" using assms by linarith
  then have "\<not> (1114111 < ?r \<or> is_surrogate ?r)"
    using assms le(3) unfolding is_surrogate_def by auto
  with le show ?thesis
    using assms(1-4) unfolding encode_rune_def Let_def div_4096 div_262144
    by (simp del: distrib_right_numeral)
qed

lemma cont_val [simp]: "cont c \<Longrightarrow> byte c - 128 < 64" "cont c \<Longrightarrow> chr (128 + (byte c - 128)) = c"
  by (auto simp: cont_def)

lemma chr_shift [simp]: "k \<le> byte c \<Longrightarrow> chr (k + (byte c - k)) = c"
  by simp

text \<open>
  A well-formed sequence is read the same whatever follows it, and encoding the rune gives
  the bytes back.
\<close>

lemma decode_rune_split:
  assumes "s \<noteq> []" and "\<not> bad_rune s"
  obtains (one) c0 t where "s = c0 # t" "byte c0 < 128"
  | (two) c0 c1 t where "s = c0 # c1 # t" "194 \<le> byte c0" "byte c0 \<le> 223" "cont c1"
  | (three) c0 c1 c2 t where "s = c0 # c1 # c2 # t" "224 \<le> byte c0" "byte c0 \<le> 239" "cont c1" "cont c2"
      "byte c0 = 224 \<longrightarrow> 160 \<le> byte c1" "byte c0 = 237 \<longrightarrow> byte c1 \<le> 159"
  | (four) c0 c1 c2 c3 t where "s = c0 # c1 # c2 # c3 # t" "240 \<le> byte c0" "byte c0 \<le> 244"
      "cont c1" "cont c2" "cont c3"
      "byte c0 = 240 \<longrightarrow> 144 \<le> byte c1" "byte c0 = 244 \<longrightarrow> byte c1 \<le> 143"
proof -
  obtain c0 s' where s: "s = c0 # s'" using assms(1) by (cases s) auto
  show ?thesis
    using assms(2) that unfolding s decode_rune_def Let_def
    by (simp split: list.splits if_splits; metis)
qed

lemma decode_rune_wf:
  assumes "s \<noteq> []" and "\<not> bad_rune s" and "decode_rune s = (r, n)"
  shows "n \<le> length s \<and> 1 \<le> n \<and> encode_rune r = take n s \<and> decode_rune (take n s @ t) = (r, n)"
  using assms(1,2)
proof (cases rule: decode_rune_split)
  case (one c0 t')
  then show ?thesis using assms(3) by (auto simp: encode_rune_def)
next
  case (two c0 c1 t')
  have "encode_rune ((byte c0 - 192) * 64 + (byte c1 - 128))
      = [chr (192 + (byte c0 - 192)), chr (128 + (byte c1 - 128))]"
    by (rule encode_rune_2) (use two in auto)
  with two show ?thesis using assms(3) by (auto simp: decode_rune_def)
next
  case (three c0 c1 c2 t')
  have "encode_rune (((byte c0 - 224) * 64 + (byte c1 - 128)) * 64 + (byte c2 - 128))
      = [chr (224 + (byte c0 - 224)), chr (128 + (byte c1 - 128)), chr (128 + (byte c2 - 128))]"
    by (rule encode_rune_3) (use three in \<open>auto simp: cont_def\<close>)
  with three show ?thesis using assms(3) by (auto simp: decode_rune_def)
next
  case (four c0 c1 c2 c3 t')
  have "encode_rune ((((byte c0 - 240) * 64 + (byte c1 - 128)) * 64 + (byte c2 - 128)) * 64
        + (byte c3 - 128))
      = [chr (240 + (byte c0 - 240)), chr (128 + (byte c1 - 128)), chr (128 + (byte c2 - 128)),
         chr (128 + (byte c3 - 128))]"
    by (rule encode_rune_4) (use four in \<open>auto simp: cont_def\<close>)
  with four show ?thesis using assms(3) by (auto simp: decode_rune_def)
qed

section \<open>Valid strings\<close>

function valid_utf8 :: "string \<Rightarrow> bool" where
  "valid_utf8 s =
     (if s = [] then True
      else if bad_rune s then False
      else valid_utf8 (drop (snd (decode_rune s)) s))"
  by pat_completeness auto
termination
  by (relation "measure length") (auto simp: drop_rune_less simp del: length_drop)

declare valid_utf8.simps [simp del]

lemma valid_utf8_Nil [simp]: "valid_utf8 []"
  by (subst valid_utf8.simps) simp

lemma valid_utf8_ascii_Cons [simp]: "byte c < 128 \<Longrightarrow> valid_utf8 (c # s) = valid_utf8 s"
  by (subst valid_utf8.simps) (simp add: RuneError_def)

lemma valid_utf8_ascii: "\<forall>c\<in>set s. byte c < 128 \<Longrightarrow> valid_utf8 s"
  by (induction s) auto

end
