(* ===== verification/Json.thy ===== *)
theory Json
  imports Utf8 "HOL-Library.Sublist"
begin

text \<open>
  \<open>encoding/json\<close> of Go 1.7 as far as the program uses it: the syntax check and the splitting
  of a text into values (scanner.go), string literals (encode.go \<open>string\<close>, decode.go
  \<open>unquoteBytes\<close>), and the values with the raw text they were read from, which is what a
  \<open>json.RawMessage\<close> field keeps.
\<close>

section \<open>Values\<close>

text \<open>
  Numbers and string bodies are kept as written; an array or object keeps its whole text in
  its first argument, so the text of every value can be given back.
\<close>

datatype jval =
    JNull
  | JBool bool
  | JNum string
  | JStr string
  | JArr string "jval list"
  | JObj string "(string \<times> jval) list"

abbreviation (input) dquote :: char where "dquote \<equiv> CHR 0x22"
abbreviation (input) bslash :: char where "bslash \<equiv> CHR 0x5C"

fun raw_text :: "jval \<Rightarrow> string" where
  "raw_text JNull = ''null''"
| "raw_text (JBool b) = (if b then ''true'' else ''false'')"
| "raw_text (JNum s) = s"
| "raw_text (JStr s) = dquote # s @ [dquote]"
| "raw_text (JArr s vs) = s"
| "raw_text (JObj s kvs) = s"

section \<open>The scanner\<close>

definition is_ws :: "char \<Rightarrow> bool" where
  "is_ws c \<longleftrightarrow> c = CHR '' '' \<or> c = CHR 0x09 \<or> c = CHR 0x0A \<or> c = CHR 0x0D"

definition skip_ws :: "string \<Rightarrow> string" where
  "skip_ws s = dropWhile is_ws s"

definition is_hex :: "char \<Rightarrow> bool" where
  "is_hex c \<longleftrightarrow> is_digit c \<or> 65 \<le> byte c \<and> byte c \<le> 70 \<or> 97 \<le> byte c \<and> byte c \<le> 102"

definition hex_val :: "char \<Rightarrow> nat" where
  "hex_val c = (if is_digit c then byte c - 48 else if byte c < 97 then byte c - 55 else byte c - 87)"

definition is_escape :: "char \<Rightarrow> bool" where
  "is_escape c \<longleftrightarrow> c \<in> {CHR ''b'', CHR ''f'', CHR ''n'', CHR ''r'', CHR ''t'', bslash, CHR ''/'', dquote}"

text \<open>Every scanning function gives the text it accepted and the rest of the input.\<close>

definition prepend :: "'a list \<Rightarrow> ('a list \<times> 'b) option \<Rightarrow> ('a list \<times> 'b) option" where
  "prepend p m = (case m of None \<Rightarrow> None | Some (t, r) \<Rightarrow> Some (p @ t, r))"

lemma prepend_simps [simp]:
  "prepend p None = None"
  "prepend p (Some (t, r)) = Some (p @ t, r)"
  "prepend [] m = m"
  "prepend p (prepend q m) = prepend (p @ q) m"
  by (auto simp: prepend_def split: option.splits)

lemma prepend_Some_iff [simp]:
  "(prepend p m = Some (t, r)) = (\<exists>t'. m = Some (t', r) \<and> t = p @ t')"
  by (auto simp: prepend_def split: option.splits)

lemma prepend_None_iff [simp]: "(prepend p m = None) = (m = None)"
  by (auto simp: prepend_def split: option.splits)

text \<open>One escape sequence, after its backslash.\<close>

definition scan_escape :: "string \<Rightarrow> (string \<times> string) option" where
  "scan_escape s =
     (case s of
        [] \<Rightarrow> None
      | e # s' \<Rightarrow>
          if is_escape e then Some ([e], s')
          else if e = CHR ''u'' then
            (case s' of
               h1 # h2 # h3 # h4 # s'' \<Rightarrow>
                 if is_hex h1 \<and> is_hex h2 \<and> is_hex h3 \<and> is_hex h4
                 then Some ([e, h1, h2, h3, h4], s'') else None
             | _ \<Rightarrow> None)
          else None)"

lemma scan_escape_split: "scan_escape s = Some (t, r) \<Longrightarrow> s = t @ r \<and> t \<noteq> []"
  by (auto simp: scan_escape_def split: list.splits if_splits)

text \<open>
  The body of a string literal, after the opening quote, up to the closing one: no control
  characters, and only the escapes of the grammar.
\<close>

function scan_string :: "string \<Rightarrow> (string \<times> string) option" where
  "scan_string [] = None"
| "scan_string (c # s) =
     (if c = dquote then Some ([], s)
      else if c = bslash then
        (case scan_escape s of
           None \<Rightarrow> None
         | Some (e, s') \<Rightarrow> prepend (c # e) (scan_string s'))
      else if byte c < 32 then None
      else prepend [c] (scan_string s))"
  by pat_completeness auto
termination
  by (relation "measure length") (auto dest: scan_escape_split)

text \<open>A number, in the three parts of the grammar: integer, fraction, exponent.\<close>

definition scan_int :: "string \<Rightarrow> (string \<times> string) option" where
  "scan_int s =
     (case s of
        [] \<Rightarrow> None
      | c # r \<Rightarrow>
          if c = CHR ''0'' then Some ([c], r)
          else if is_digit c then Some (takeWhile is_digit s, dropWhile is_digit s)
          else None)"

definition scan_digits1 :: "string \<Rightarrow> (string \<times> string) option" where
  "scan_digits1 s =
     (if s \<noteq> [] \<and> is_digit (hd s) then Some (takeWhile is_digit s, dropWhile is_digit s) else None)"

definition scan_frac :: "string \<Rightarrow> (string \<times> string) option" where
  "scan_frac s =
     (case s of
        c # r \<Rightarrow> if c = CHR ''.'' then prepend [c] (scan_digits1 r) else Some ([], s)
      | [] \<Rightarrow> Some ([], s))"

definition scan_exp :: "string \<Rightarrow> (string \<times> string) option" where
  "scan_exp s =
     (case s of
        e # r \<Rightarrow>
          if e = CHR ''e'' \<or> e = CHR ''E'' then
            (case r of
               c # r' \<Rightarrow>
                 if c = CHR ''+'' \<or> c = CHR ''-''
                 then prepend [e, c] (scan_digits1 r')
                 else prepend [e] (scan_digits1 r)
             | [] \<Rightarrow> None)
          else Some ([], s)
      | [] \<Rightarrow> Some ([], s))"

definition scan_unsigned :: "string \<Rightarrow> (string \<times> string) option" where
  "scan_unsigned s =
     do { (i, s1) \<leftarrow> scan_int s;
          (f, s2) \<leftarrow> scan_frac s1;
          (e, s3) \<leftarrow> scan_exp s2;
          Some (i @ f @ e, s3) }"

definition scan_number :: "string \<Rightarrow> (string \<times> string) option" where
  "scan_number s =
     (case s of
        c # r \<Rightarrow>
          if c = CHR ''-'' then prepend [c] (scan_unsigned r) else scan_unsigned s
      | [] \<Rightarrow> None)"

definition scan_lit :: "string \<Rightarrow> 'a \<Rightarrow> string \<Rightarrow> ('a \<times> string) option" where
  "scan_lit lit v s =
     (if take (length lit) s = lit then Some (v, drop (length lit) s) else None)"

definition consumed :: "string \<Rightarrow> string \<Rightarrow> string" where
  "consumed s rest = take (length s - length rest) s"

text \<open>
  A value, with the white space before it already skipped. The fuel counts the nesting and the
  elements; \<open>parse_fuel\<close> below shows that anything above twice the length of the text is enough.
\<close>

fun parse_value :: "nat \<Rightarrow> string \<Rightarrow> (jval \<times> string) option"
  and parse_elems :: "nat \<Rightarrow> string \<Rightarrow> (jval list \<times> string) option"
  and parse_members :: "nat \<Rightarrow> string \<Rightarrow> ((string \<times> jval) list \<times> string) option" where
  "parse_value 0 s = None"
| "parse_value (Suc n) s =
     (case s of
        [] \<Rightarrow> None
      | c # r \<Rightarrow>
          if c = CHR ''{'' then
            (let r' = skip_ws r in
             if r' \<noteq> [] \<and> hd r' = CHR ''}'' then Some (JObj (consumed s (tl r')) [], tl r')
             else map_option (\<lambda>(kvs, rest). (JObj (consumed s rest) kvs, rest)) (parse_members n r'))
          else if c = CHR ''['' then
            (let r' = skip_ws r in
             if r' \<noteq> [] \<and> hd r' = CHR '']'' then Some (JArr (consumed s (tl r')) [], tl r')
             else map_option (\<lambda>(vs, rest). (JArr (consumed s rest) vs, rest)) (parse_elems n r'))
          else if c = dquote then map_option (apfst JStr) (scan_string r)
          else if c = CHR ''t'' then scan_lit ''true'' (JBool True) s
          else if c = CHR ''f'' then scan_lit ''false'' (JBool False) s
          else if c = CHR ''n'' then scan_lit ''null'' JNull s
          else map_option (apfst JNum) (scan_number s))"
| "parse_elems 0 s = None"
| "parse_elems (Suc n) s =
     (case parse_value n s of
        None \<Rightarrow> None
      | Some (v, r) \<Rightarrow>
          (case skip_ws r of
             [] \<Rightarrow> None
           | c # r' \<Rightarrow>
               if c = CHR '']'' then Some ([v], r')
               else if c = CHR '','' then prepend [v] (parse_elems n (skip_ws r'))
               else None))"
| "parse_members 0 s = None"
| "parse_members (Suc n) s =
     (case s of
        [] \<Rightarrow> None
      | q # r \<Rightarrow>
          if q \<noteq> dquote then None else
          (case scan_string r of
             None \<Rightarrow> None
           | Some (k, r1) \<Rightarrow>
               (case skip_ws r1 of
                  [] \<Rightarrow> None
                | d # r2 \<Rightarrow>
                    if d \<noteq> CHR '':'' then None else
                    (case parse_value n (skip_ws r2) of
                       None \<Rightarrow> None
                     | Some (v, r3) \<Rightarrow>
                         (case skip_ws r3 of
                            [] \<Rightarrow> None
                          | c # r4 \<Rightarrow>
                              if c = CHR ''}'' then Some ([(k, v)], r4)
                              else if c = CHR '','' then
                                prepend [(k, v)] (parse_members n (skip_ws r4))
                              else None)))))"

text \<open>A whole text: one value, with white space around it and nothing else.\<close>

definition parse_json :: "string \<Rightarrow> jval option" where
  "parse_json s =
     (case parse_value (Suc (2 * length s)) (skip_ws s) of
        Some (v, r) \<Rightarrow> if skip_ws r = [] then Some v else None
      | None \<Rightarrow> None)"

section \<open>What the scanner consumes\<close>

lemma skip_ws_suffix: obtains p where "s = p @ skip_ws s"
  by (metis skip_ws_def takeWhile_dropWhile_id)

lemma length_skip_ws [simp]: "length (skip_ws s) \<le> length s"
  by (simp add: skip_ws_def length_dropWhile_le)

lemma scan_string_split: "scan_string s = Some (b, r) \<Longrightarrow> s = b @ dquote # r"
proof (induction s arbitrary: b rule: scan_string.induct)
  case (2 c s)
  then show ?case
    by (auto split: if_splits option.splits dest!: scan_escape_split)
qed simp

lemma scan_digits1_split: "scan_digits1 s = Some (t, r) \<Longrightarrow> s = t @ r"
  by (auto simp: scan_digits1_def split: if_splits)

lemma scan_int_split: "scan_int s = Some (t, r) \<Longrightarrow> s = t @ r \<and> t \<noteq> []"
  by (auto simp: scan_int_def split: list.splits if_splits)

lemma scan_frac_split: "scan_frac s = Some (t, r) \<Longrightarrow> s = t @ r"
  by (auto simp: scan_frac_def dest: scan_digits1_split split: list.splits if_splits)

lemma scan_exp_split: "scan_exp s = Some (t, r) \<Longrightarrow> s = t @ r"
  by (auto simp: scan_exp_def dest: scan_digits1_split split: list.splits if_splits)

lemma scan_unsigned_split: "scan_unsigned s = Some (t, r) \<Longrightarrow> s = t @ r \<and> t \<noteq> []"
  by (auto simp: scan_unsigned_def dest!: scan_int_split scan_frac_split scan_exp_split)

lemma scan_number_split: "scan_number s = Some (t, r) \<Longrightarrow> s = t @ r \<and> t \<noteq> []"
  by (auto simp: scan_number_def dest!: scan_unsigned_split split: list.splits if_splits)

lemma scan_lit_split: "scan_lit l v s = Some (w, r) \<Longrightarrow> s = l @ r \<and> w = v"
  by (auto simp: scan_lit_def split: if_splits) (metis append_take_drop_id)

lemma consumed_suffix: "suffix r s \<Longrightarrow> consumed s r @ r = s"
  by (auto simp: consumed_def suffix_def)

lemma consumed_nonempty: "suffix r s \<Longrightarrow> r \<noteq> s \<Longrightarrow> consumed s r \<noteq> []"
  using consumed_suffix by fastforce

lemma suffix_skip_ws: "suffix (skip_ws s) s"
  by (simp add: skip_ws_def suffix_dropWhile)

lemma suffix_ConsD2: "suffix (c # r) s \<Longrightarrow> suffix r s"
  by (rule suffix_ConsD)

lemma suffix_length_less: "suffix r s \<Longrightarrow> r \<noteq> s \<Longrightarrow> length r < length s"
  by (auto simp: suffix_def)

lemma not_suffix_self_Cons: "suffix r s \<Longrightarrow> r \<noteq> c # s"
  by (auto dest: suffix_length_le)

text \<open>What is left after the token \<open>c\<close> that follows white space is a shorter suffix.\<close>

lemma skip_ws_Cons_suffix:
  assumes "skip_ws s = c # t"
  shows "suffix t s \<and> length t < length s"
proof
  show "suffix t s" using assms suffix_skip_ws [of s] by (metis suffix_ConsD)
  show "length t < length s" using assms length_skip_ws [of s] by simp
qed

lemma suffix_skip_ws_trans: "suffix r (skip_ws t) \<Longrightarrow> suffix t s \<Longrightarrow> suffix r s"
  by (meson suffix_order.trans suffix_skip_ws)

text \<open>
  The text of a value is exactly the part of the input the scanner consumed, so a RawMessage
  holds the bytes of its value.
\<close>

lemma composite_consumes:
  assumes "suffix rest s"
  shows "consumed (c # s) rest @ rest = c # s" and "consumed (c # s) rest \<noteq> []"
  using assms consumed_suffix [of rest "c # s"] consumed_nonempty [of rest "c # s"]
  by (auto simp: not_suffix_self_Cons suffix_Cons)

lemma parse_consumes:
  "parse_value n s = Some (v, r) \<Longrightarrow> raw_text v @ r = s \<and> raw_text v \<noteq> []"
  "parse_elems n s = Some (vs, r) \<Longrightarrow> suffix r s"
  "parse_members n s = Some (kvs, r) \<Longrightarrow> suffix r s"
proof (induction n s and n s and n s arbitrary: v r and vs r and kvs r
    rule: parse_value_parse_elems_parse_members.induct)
  case (2 n s)
  obtain c s' where s: "s = c # s'" using "2.prems" by (cases s) auto
  have closed: "skip_ws s' \<noteq> [] \<Longrightarrow> suffix (tl (skip_ws s')) s'"
    using suffix_skip_ws [of s'] by (metis suffix_order.trans suffix_tl)
  have nested: "suffix r' s'" if "suffix r' (skip_ws s')" for r'
    using that suffix_skip_ws by (rule suffix_order.trans)
  consider
      (lit) "c \<noteq> CHR ''{''" "c \<noteq> CHR ''[''"
    | (empty) "skip_ws s' \<noteq> []" "r = tl (skip_ws s')" "raw_text v = consumed s r"
    | (obj) kvs where "c = CHR ''{''" "\<not> (skip_ws s' \<noteq> [] \<and> hd (skip_ws s') = CHR ''}'')"
        "parse_members n (skip_ws s') = Some (kvs, r)" "raw_text v = consumed s r"
    | (arr) vs where "c = CHR ''[''" "\<not> (skip_ws s' \<noteq> [] \<and> hd (skip_ws s') = CHR '']'')"
        "parse_elems n (skip_ws s') = Some (vs, r)" "raw_text v = consumed s r"
    using "2.prems" s by (cases "c = CHR ''{''"; cases "c = CHR ''[''") (auto simp: Let_def split: if_splits)
  then show ?case
  proof cases
    case lit
    then show ?thesis
      using "2.prems" s
      by (auto split: if_splits dest!: scan_string_split scan_number_split scan_lit_split)
  next
    case empty
    then show ?thesis using closed s by (simp add: composite_consumes)
  next
    case (obj kvs)
    with "2.IH"(1) [OF s _ refl] show ?thesis
      using nested s by (simp add: composite_consumes)
  next
    case (arr vs)
    with "2.IH"(2) [OF s _ _ refl] show ?thesis
      using nested s by (simp add: composite_consumes)
  qed
next
  case (4 n s)
  from "4.prems" obtain v r1 where v: "parse_value n s = Some (v, r1)"
    by (auto split: option.splits)
  with "4.IH"(1) [OF v] have "suffix r1 s" by (auto simp: suffix_def)
  moreover from "4.prems" v obtain c r2 where c: "skip_ws r1 = c # r2"
    by (auto split: list.splits)
  ultimately have "suffix r2 s"
    by (meson skip_ws_Cons_suffix suffix_order.trans)
  then show ?case
    using "4.prems" v c "4.IH"(2) [OF v refl c]
    by (auto split: if_splits intro: suffix_skip_ws_trans)
next
  case (6 n s)
  from "6.prems" obtain r0 where r0: "s = dquote # r0"
    by (auto split: list.splits if_splits)
  from "6.prems" r0 obtain k r1 where k: "scan_string r0 = Some (k, r1)"
    by (auto split: option.splits)
  from "6.prems" r0 k obtain r2 where r2: "skip_ws r1 = CHR '':'' # r2"
    by (auto split: list.splits if_splits)
  from "6.prems" r0 k r2 obtain v r3 where v: "parse_value n (skip_ws r2) = Some (v, r3)"
    by (auto split: option.splits)
  from "6.prems" r0 k r2 v obtain c r4 where c: "skip_ws r3 = c # r4"
    by (auto split: list.splits)
  have "suffix r1 s" using scan_string_split [OF k] r0 by (auto simp: suffix_def)
  then have "suffix r2 s" using skip_ws_Cons_suffix [OF r2] by (meson suffix_order.trans)
  moreover have "suffix r3 (skip_ws r2)"
    using "6.IH"(1) [OF r0 _ k refl r2 _ v] by (metis suffixI)
  ultimately have "suffix r4 s"
    using skip_ws_Cons_suffix [OF c] by (meson suffix_order.trans suffix_skip_ws)
  then show ?case
    using "6.prems" r0 k r2 v c "6.IH"(2) [OF r0 _ k refl r2 _ v refl c]
    by (auto split: if_splits intro: suffix_skip_ws_trans)
qed simp_all

lemma parse_value_shorter: "parse_value n s = Some (v, r) \<Longrightarrow> length r < length s"
  using parse_consumes(1) [of n s v r] by fastforce

lemma parse_value_obj:
  "parse_value (Suc n) (CHR ''{'' # s) =
     (if skip_ws s \<noteq> [] \<and> hd (skip_ws s) = CHR ''}''
      then Some (JObj (consumed (CHR ''{'' # s) (tl (skip_ws s))) [], tl (skip_ws s))
      else map_option (\<lambda>(kvs, rest). (JObj (consumed (CHR ''{'' # s) rest) kvs, rest))
             (parse_members n (skip_ws s)))"
  by (simp add: Let_def)

lemma parse_value_arr:
  "parse_value (Suc n) (CHR ''['' # s) =
     (if skip_ws s \<noteq> [] \<and> hd (skip_ws s) = CHR '']''
      then Some (JArr (consumed (CHR ''['' # s) (tl (skip_ws s))) [], tl (skip_ws s))
      else map_option (\<lambda>(vs, rest). (JArr (consumed (CHR ''['' # s) rest) vs, rest))
             (parse_elems n (skip_ws s)))"
  by (simp add: Let_def)

lemma parse_value_scalar:
  "c \<noteq> CHR ''{'' \<Longrightarrow> c \<noteq> CHR ''['' \<Longrightarrow>
     parse_value (Suc n) (c # s) = parse_value (Suc m) (c # s)"
  by simp

text \<open>Fuel above twice the length of the text never changes the result.\<close>

lemma parse_fuel:
  "2 * length s < n \<Longrightarrow> 2 * length s < m \<Longrightarrow> parse_value n s = parse_value m s"
  "2 * length s + 1 < n \<Longrightarrow> 2 * length s + 1 < m \<Longrightarrow> parse_elems n s = parse_elems m s"
  "2 * length s + 1 < n \<Longrightarrow> 2 * length s + 1 < m \<Longrightarrow> parse_members n s = parse_members m s"
proof (induction n s and n s and n s arbitrary: m and m and m
    rule: parse_value_parse_elems_parse_members.induct)
  case (2 n s)
  from "2.prems" obtain m' where m: "m = Suc m'" by (cases m) auto
  show ?case
  proof (cases s)
    case (Cons c s')
    have "2 * length (skip_ws s') + 1 < n" "2 * length (skip_ws s') + 1 < m'"
      using "2.prems" m Cons length_skip_ws [of s'] by (simp_all del: length_skip_ws)
    then have IH:
      "c = CHR ''{'' \<Longrightarrow> \<not> (skip_ws s' \<noteq> [] \<and> hd (skip_ws s') = CHR ''}'') \<Longrightarrow>
         parse_members n (skip_ws s') = parse_members m' (skip_ws s')"
      "c = CHR ''['' \<Longrightarrow> \<not> (skip_ws s' \<noteq> [] \<and> hd (skip_ws s') = CHR '']'') \<Longrightarrow>
         parse_elems n (skip_ws s') = parse_elems m' (skip_ws s')"
      using "2.IH"(1) [OF Cons _ refl, of m'] "2.IH"(2) [OF Cons _ _ refl, of m'] by simp_all
    consider "c = CHR ''{''" | "c = CHR ''[''" | "c \<noteq> CHR ''{''" "c \<noteq> CHR ''[''" by blast
    then show ?thesis
    proof cases
      case 1
      then show ?thesis unfolding m Cons 1 parse_value_obj
        by (intro if_cong refl) (rule arg_cong [where f = "map_option _"], rule IH(1) [OF 1])
    next
      case 2
      then show ?thesis unfolding m Cons 2 parse_value_arr
        by (intro if_cong refl) (rule arg_cong [where f = "map_option _"], rule IH(2) [OF 2])
    next
      case 3
      then show ?thesis unfolding m Cons by (rule parse_value_scalar)
    qed
  qed (simp add: m)
next
  case (4 n s)
  from "4.prems" obtain m' where m: "m = Suc m'" by (cases m) auto
  have v: "parse_value n s = parse_value m' s" using "4.IH"(1) [of m'] "4.prems" m by simp
  have rest: "parse_elems n (skip_ws r') = parse_elems m' (skip_ws r')"
    if p: "parse_value n s = Some (v, r)" and c: "skip_ws r = CHR '','' # r'" for v r r'
  proof -
    have "length (skip_ws r') + 1 < length s"
      using parse_value_shorter [OF p] skip_ws_Cons_suffix [OF c] length_skip_ws [of r']
      by linarith
    then show ?thesis
      using "4.IH"(2) [OF p refl c, of m'] "4.prems" m by simp
  qed
  show ?case
  proof (cases "parse_value n s")
    case (Some p)
    then obtain w r where pn: "parse_value n s = Some (w, r)" by (cases p) simp
    then have pm: "parse_value m' s = Some (w, r)" using v by simp
    show ?thesis
    proof (cases "skip_ws r")
      case (Cons c r')
      show ?thesis
        unfolding m using pn pm Cons rest [OF pn, of r'] by (cases "c = CHR '',''") simp_all
    qed (simp add: m pn pm)
  qed (use m v in simp)
next
  case (6 n s)
  from "6.prems" obtain m' where m: "m = Suc m'" by (cases m) auto
  have v: "parse_value n (skip_ws r2) = parse_value m' (skip_ws r2)"
    if s: "s = dquote # r" and k: "scan_string r = Some (k, r1)" and d: "skip_ws r1 = CHR '':'' # r2"
    for r k r1 r2
  proof -
    have "length (skip_ws r2) + 2 < length s"
      using scan_string_split [OF k] skip_ws_Cons_suffix [OF d] length_skip_ws [of r2] s
      by (simp del: length_skip_ws)
    then show ?thesis
      using "6.IH"(1) [OF s _ k refl d, of m'] "6.prems" m by simp
  qed
  have rest: "parse_members n (skip_ws r4) = parse_members m' (skip_ws r4)"
    if s: "s = dquote # r" and k: "scan_string r = Some (k, r1)" and d: "skip_ws r1 = CHR '':'' # r2"
      and p: "parse_value n (skip_ws r2) = Some (w, r3)" and c: "skip_ws r3 = CHR '','' # r4"
    for r k r1 r2 w r3 r4
  proof -
    have "length (skip_ws r4) + 2 < length s"
      using scan_string_split [OF k] skip_ws_Cons_suffix [OF d] length_skip_ws [of r2] s
        parse_value_shorter [OF p] skip_ws_Cons_suffix [OF c] length_skip_ws [of r4]
      by (simp del: length_skip_ws)
    then show ?thesis
      using "6.IH"(2) [OF s _ k refl d _ p refl c, of m'] "6.prems" m by simp
  qed
  show ?case
  proof (cases "\<exists>r k r1 r2. s = dquote # r \<and> scan_string r = Some (k, r1) \<and> skip_ws r1 = CHR '':'' # r2")
    case True
    then obtain r k r1 r2 where s: "s = dquote # r" and k: "scan_string r = Some (k, r1)"
        and d: "skip_ws r1 = CHR '':'' # r2" by blast
    note v = v [OF s k d] and rest = rest [OF s k d]
    show ?thesis
    proof (cases "parse_value n (skip_ws r2)")
      case (Some p)
      then obtain w r3 where pn: "parse_value n (skip_ws r2) = Some (w, r3)" by (cases p) simp
      then have pm: "parse_value m' (skip_ws r2) = Some (w, r3)" using v by simp
      show ?thesis
      proof (cases "skip_ws r3")
        case (Cons c r4)
        show ?thesis
          unfolding m using s k d pn pm Cons rest [OF pn, of r4]
          by (cases "c = CHR '',''") simp_all
      qed (simp add: m s k d pn pm)
    qed (use m s k d v in simp)
  next
    case False
    then show ?thesis unfolding m by (auto split: list.splits option.splits)
  qed
qed simp_all

end
