(* ===== verification/JsonText.thy ===== *)
theory JsonText
  imports Json
begin

text \<open>
  String literals of \<open>encoding/json\<close>: what \<open>json.Marshal\<close> writes for a Go string (encode.go
  \<open>encodeState.string\<close> with HTML escaping on, the default) and what \<open>json.Unmarshal\<close> reads back
  (decode.go \<open>unquoteBytes\<close>), with the round trip for valid UTF-8. Then the texts of structs
  and lists, and the lemmas that say how the scanner reads them.
\<close>

section \<open>Writing a string\<close>

definition hex_digit :: "nat \<Rightarrow> char" where
  "hex_digit n = (if n < 10 then chr (48 + n) else chr (87 + n))"

definition safe_byte :: "char \<Rightarrow> bool" where
  "safe_byte c \<longleftrightarrow> 32 \<le> byte c \<and> c \<noteq> dquote \<and> c \<noteq> bslash \<and> c \<noteq> CHR ''<'' \<and> c \<noteq> CHR ''>'' \<and> c \<noteq> CHR ''&''"

definition escape_byte :: "char \<Rightarrow> string" where
  "escape_byte c =
     (if safe_byte c then [c]
      else if c = dquote \<or> c = bslash then [bslash, c]
      else if c = CHR 0x0A then [bslash, CHR ''n'']
      else if c = CHR 0x0D then [bslash, CHR ''r'']
      else if c = CHR 0x09 then [bslash, CHR ''t'']
      else [bslash, CHR ''u'', CHR ''0'', CHR ''0'', hex_digit (byte c div 16), hex_digit (byte c mod 16)])"

function enc_body :: "string \<Rightarrow> string" where
  "enc_body [] = []"
| "enc_body (c # s) =
     (if byte c < 128 then escape_byte c @ enc_body s
      else
        let (r, n) = decode_rune (c # s) in
        if r = RuneError \<and> n = 1 then bslash # ''ufffd'' @ enc_body s
        else if r = 8232 \<or> r = 8233 then bslash # ''u202'' @ [hex_digit (r mod 16)] @ enc_body (drop n (c # s))
        else take n (c # s) @ enc_body (drop n (c # s)))"
  by pat_completeness auto
termination
  by (relation "measure length") (auto dest: decode_rune_width)

definition quote_string :: "string \<Rightarrow> string" where
  "quote_string s = dquote # enc_body s @ [dquote]"

section \<open>Reading a string\<close>

definition hex4 :: "string \<Rightarrow> nat option" where
  "hex4 s =
     (case s of
        b # u # h1 # h2 # h3 # h4 # _ \<Rightarrow>
          if b = bslash \<and> u = CHR ''u'' \<and> is_hex h1 \<and> is_hex h2 \<and> is_hex h3 \<and> is_hex h4
          then Some (((hex_val h1 * 16 + hex_val h2) * 16 + hex_val h3) * 16 + hex_val h4)
          else None
      | _ \<Rightarrow> None)"

text \<open>\<open>utf16.DecodeRune\<close> on a surrogate pair.\<close>

definition surrogate_pair :: "nat \<Rightarrow> nat option \<Rightarrow> nat option" where
  "surrogate_pair r1 m =
     (case m of
        Some r2 \<Rightarrow>
          if 55296 \<le> r1 \<and> r1 < 56320 \<and> 56320 \<le> r2 \<and> r2 < 57344
          then Some ((r1 - 55296) * 1024 + (r2 - 56320) + 65536) else None
      | None \<Rightarrow> None)"

definition escape_val :: "char \<Rightarrow> char" where
  "escape_val e =
     (if e = CHR ''b'' then CHR 0x08 else if e = CHR ''f'' then CHR 0x0C
      else if e = CHR ''n'' then CHR 0x0A else if e = CHR ''r'' then CHR 0x0D
      else if e = CHR ''t'' then CHR 0x09 else e)"

text \<open>
  The scanner has accepted the body, so a backslash is followed by a whole escape; the
  remaining cases, which \<open>unquoteBytes\<close> reports as not ok, give the text read so far.
\<close>

function unquote :: "string \<Rightarrow> string" where
  "unquote [] = []"
| "unquote (c # s) =
     (if c = bslash then
        (case hex4 (c # s) of
           Some r \<Rightarrow>
             if is_surrogate r then
               (case surrogate_pair r (hex4 (drop 6 (c # s))) of
                  Some r' \<Rightarrow> encode_rune r' @ unquote (drop 12 (c # s))
                | None \<Rightarrow> encode_rune RuneError @ unquote (drop 6 (c # s)))
             else encode_rune r @ unquote (drop 6 (c # s))
         | None \<Rightarrow> (case s of [] \<Rightarrow> [] | e # s' \<Rightarrow> escape_val e # unquote s'))
      else if byte c < 128 then c # unquote s
      else
        let (r, n) = decode_rune (c # s) in
        encode_rune r @ unquote (drop n (c # s)))"
  by pat_completeness auto
termination
  by (relation "measure length") (auto dest: decode_rune_width)

section \<open>The round trip of strings\<close>

declare enc_body.simps(2) [simp del] unquote.simps(2) [simp del] scan_string.simps(2) [simp del]

lemma scan_plain: "32 \<le> byte c \<Longrightarrow> c \<noteq> dquote \<Longrightarrow> c \<noteq> bslash \<Longrightarrow>
    scan_string (c # s) = prepend [c] (scan_string s)"
  by (simp add: scan_string.simps(2))

lemma scan_escaped: "scan_escape s = Some (e, s') \<Longrightarrow>
    scan_string (bslash # s) = prepend (bslash # e) (scan_string s')"
  by (simp add: scan_string.simps(2))

lemma byte_le_127_cases [simp]: "byte c div 16 < 16"
  using byte_less [of c] by linarith

lemma hex_digit_hex [simp]: "n < 16 \<Longrightarrow> is_hex (hex_digit n)"
  by (auto simp: is_hex_def hex_digit_def is_digit_def)

lemma hex_val_hex_digit [simp]: "n < 16 \<Longrightarrow> hex_val (hex_digit n) = n"
  by (auto simp: hex_val_def hex_digit_def is_digit_def)

lemma is_hex_zero [simp]: "is_hex CHR ''0''"
  by (simp add: is_hex_def is_digit_def)

lemma escape_byte_cases:
  obtains (safe) "safe_byte c" "escape_byte c = [c]"
  | (short) e where "is_escape e" "escape_val e = c" "c \<noteq> bslash \<or> e = bslash" "escape_byte c = [bslash, e]"
  | (unicode) h l where "h < 16" "l < 16" "escape_byte c = [bslash, CHR ''u'', CHR ''0'', CHR ''0'', hex_digit h, hex_digit l]"
      "byte c = 16 * h + l"
proof -
  consider "safe_byte c" | "\<not> safe_byte c" "c = dquote \<or> c = bslash" | "c = CHR 0x0A" | "c = CHR 0x0D"
    | "c = CHR 0x09" | "\<not> safe_byte c" "c \<noteq> dquote" "c \<noteq> bslash" "c \<noteq> CHR 0x0A" "c \<noteq> CHR 0x0D" "c \<noteq> CHR 0x09"
    by blast
  then show thesis
  proof cases
    case 1
    then show ?thesis by (intro safe) (simp_all add: escape_byte_def)
  next
    case 2
    then show ?thesis by (intro short [of c]) (auto simp: escape_byte_def is_escape_def escape_val_def)
  next
    case 3
    then show ?thesis by (intro short [of "CHR ''n''"])
      (auto simp: escape_byte_def is_escape_def escape_val_def safe_byte_def)
  next
    case 4
    then show ?thesis by (intro short [of "CHR ''r''"])
      (auto simp: escape_byte_def is_escape_def escape_val_def safe_byte_def)
  next
    case 5
    then show ?thesis by (intro short [of "CHR ''t''"])
      (auto simp: escape_byte_def is_escape_def escape_val_def safe_byte_def)
  next
    case 6
    then show ?thesis
      by (intro unicode [of "byte c div 16" "byte c mod 16"]) (simp_all add: escape_byte_def)
  qed
qed

lemma scan_escape_byte:
  "scan_string (escape_byte c @ s) = prepend (escape_byte c) (scan_string s)"
proof (cases c rule: escape_byte_cases)
  case safe
  then show ?thesis by (simp add: scan_plain safe_byte_def)
next
  case (short e)
  then have "scan_escape (e # s) = Some ([e], s)" by (simp add: scan_escape_def)
  with short show ?thesis by (simp add: scan_escaped)
next
  case (unicode h l)
  let ?e = "[CHR ''u'', CHR ''0'', CHR ''0'', hex_digit h, hex_digit l]"
  have "scan_escape (?e @ s) = Some (?e, s)"
    using unicode by (simp add: scan_escape_def is_escape_def)
  with unicode show ?thesis by (simp add: scan_escaped)
qed

lemma unquote_escape_byte:
  "byte c < 128 \<Longrightarrow> unquote (escape_byte c @ s) = c # unquote s"
proof (cases c rule: escape_byte_cases)
  case safe
  assume "byte c < 128"
  with safe show ?thesis by (simp add: unquote.simps(2) safe_byte_def)
next
  case (short e)
  then have "hex4 (bslash # e # s) = None" by (auto simp: hex4_def is_escape_def split: list.splits)
  with short show ?thesis by (simp add: unquote.simps(2))
next
  case (unicode h l)
  assume "byte c < 128"
  then have "hex4 (escape_byte c @ s) = Some (byte c)" "\<not> is_surrogate (byte c)"
    using unicode hex_val_hex_digit [of 0]
    by (auto simp: hex4_def hex_val_def [of "CHR ''0''"] is_digit_def is_surrogate_def)
  moreover have "encode_rune (byte c) = [c]" using \<open>byte c < 128\<close> by (simp add: encode_rune_def)
  ultimately show ?thesis using unicode by (simp add: unquote.simps(2))
qed

text \<open>The bytes of a rune outside ASCII are not special to the scanner.\<close>

lemma scan_high_bytes:
  "\<forall>c\<in>set p. 128 \<le> byte c \<Longrightarrow> scan_string (p @ s) = prepend p (scan_string s)"
proof (induction p)
  case (Cons c p)
  then have "c \<noteq> dquote" "c \<noteq> bslash" by auto
  with Cons show ?case by (simp add: scan_plain)
qed simp

lemma decode_rune_high:
  assumes "128 \<le> byte c" and "\<not> bad_rune (c # s)" and "decode_rune (c # s) = (r, n)"
  shows "\<forall>d\<in>set (take n (c # s)). 128 \<le> byte d"
  using list.simps(3) [of c s] assms(2)
  by (cases rule: decode_rune_split) (use assms in \<open>auto simp: decode_rune_def cont_def\<close>)

lemma enc_body_rune:
  assumes "128 \<le> byte c" and "\<not> bad_rune (c # s)" and d: "decode_rune (c # s) = (r, n)"
    and "r \<noteq> 8232" and "r \<noteq> 8233"
  shows "enc_body (c # s) = take n (c # s) @ enc_body (drop n (c # s))"
  using assms by (simp add: enc_body.simps(2))

lemma enc_body_separator:
  assumes "128 \<le> byte c" and "decode_rune (c # s) = (r, n)" and "r = 8232 \<or> r = 8233"
  shows "enc_body (c # s) = bslash # ''u202'' @ [hex_digit (r mod 16)] @ enc_body (drop n (c # s))"
  using assms by (auto simp: enc_body.simps(2) RuneError_def)

lemma enc_body_bad:
  assumes "128 \<le> byte c" and "bad_rune (c # s)"
  shows "enc_body (c # s) = bslash # ''ufffd'' @ enc_body s"
  using assms by (simp add: enc_body.simps(2))

text \<open>Whatever the string, the scanner reads the literal that Marshal wrote, to its end.\<close>

lemma scan_hex_escape:
  "is_hex h1 \<Longrightarrow> is_hex h2 \<Longrightarrow> is_hex h3 \<Longrightarrow> is_hex h4 \<Longrightarrow>
     scan_string (bslash # CHR ''u'' # h1 # h2 # h3 # h4 # s)
       = prepend [bslash, CHR ''u'', h1, h2, h3, h4] (scan_string s)"
  by (simp add: scan_escaped scan_escape_def is_escape_def)

lemma scan_enc_body: "scan_string (enc_body s @ dquote # rest) = Some (enc_body s, rest)"
proof (induction s rule: enc_body.induct)
  case 1
  then show ?case by (simp add: scan_string.simps(2))
next
  case (2 c s)
  obtain r n where d: "decode_rune (c # s) = (r, n)" by fastforce
  consider (ascii) "byte c < 128" | (bad) "128 \<le> byte c" "bad_rune (c # s)"
    | (sep) "128 \<le> byte c" "\<not> bad_rune (c # s)" "r = 8232 \<or> r = 8233"
    | (rune) "128 \<le> byte c" "\<not> bad_rune (c # s)" "r \<noteq> 8232" "r \<noteq> 8233"
    by linarith
  then show ?case
  proof cases
    case ascii
    with "2.IH"(1) show ?thesis by (simp add: enc_body.simps(2) scan_escape_byte)
  next
    case bad
    with "2.IH"(2) d show ?thesis
      by (simp add: enc_body_bad scan_hex_escape is_hex_def is_digit_def)
  next
    case sep
    then have "is_hex (hex_digit (r mod 16))" by simp
    with sep "2.IH"(3) [of "(r, n)" r n] d show ?thesis
      by (auto simp: enc_body_separator [OF sep(1) d] scan_hex_escape is_hex_def is_digit_def)
  next
    case rune
    have "\<forall>d\<in>set (take n (c # s)). 128 \<le> byte d"
      using rune(1,2) d by (rule decode_rune_high)
    with rune "2.IH"(4) [of "(r, n)" r n] d show ?thesis
      by (auto simp: enc_body_rune [OF rune(1,2) d rune(3,4)] scan_high_bytes)
  qed
qed

text \<open>A string of valid UTF-8 comes back as it was.\<close>

lemma encode_separators:
  "encode_rune 8232 = [chr 226, chr 128, chr 168]" "encode_rune 8233 = [chr 226, chr 128, chr 169]"
  by (simp_all add: encode_rune_def is_surrogate_def)

lemma unquote_rune:
  assumes "128 \<le> byte c" and "decode_rune (c # s) = (r, n)"
  shows "unquote (c # s) = encode_rune r @ unquote (drop n (c # s))"
  using assms by (auto simp: unquote.simps(2))

lemma unquote_enc_body: "valid_utf8 s \<Longrightarrow> unquote (enc_body s) = s"
proof (induction s rule: enc_body.induct)
  case (2 c s)
  obtain r n where d: "decode_rune (c # s) = (r, n)" by fastforce
  show ?case
  proof (cases "byte c < 128")
    case True
    with 2 show ?thesis by (simp add: enc_body.simps(2) unquote_escape_byte)
  next
    case False
    then have high: "128 \<le> byte c" by simp
    have ok: "\<not> bad_rune (c # s)" and valid: "valid_utf8 (drop n (c # s))"
      using "2.prems" d valid_utf8.simps [of "c # s"] by (auto split: if_splits)
    have wf: "n \<le> length (c # s)" "0 < n" "encode_rune r = take n (c # s)"
        "\<And>t. decode_rune (take n (c # s) @ t) = (r, n)"
      using decode_rune_wf [OF _ ok d] decode_rune_width [OF d [symmetric]] by auto
    show ?thesis
    proof (cases "r = 8232 \<or> r = 8233")
      case True
      then have IH: "unquote (enc_body (drop n (c # s))) = drop n (c # s)"
        using "2.IH"(3) [of "(r, n)" r n] d ok valid high by auto
      have "hex4 (bslash # ''u202'' @ hex_digit (r mod 16) # t) = Some r" "\<not> is_surrogate r" for t
        using True by (auto simp: hex4_def is_surrogate_def hex_val_def is_hex_def is_digit_def hex_digit_def)
      then have "unquote (enc_body (c # s)) = encode_rune r @ unquote (enc_body (drop n (c # s)))"
        by (simp add: enc_body_separator [OF high d True] unquote.simps(2))
      then show ?thesis using IH wf(3) by simp
    next
      case False
      then have IH: "unquote (enc_body (drop n (c # s))) = drop n (c # s)"
        using "2.IH"(4) [of "(r, n)" r n] d ok valid high by auto
      have len: "length (take n (c # s)) = n" using wf(1) by simp
      obtain m where n: "n = Suc m" using wf(2) by (cases n) auto
      have "unquote (take n (c # s) @ enc_body (drop n (c # s)))
          = encode_rune r @ unquote (drop n (take n (c # s) @ enc_body (drop n (c # s))))"
        using unquote_rune [of c "take m s @ enc_body (drop n (c # s))" r n] wf(4) high n by simp
      then show ?thesis
        using enc_body_rune [OF high ok d] False IH wf(3) len by simp
    qed
  qed
qed simp

lemma quote_string_length: "length (quote_string s) = length (enc_body s) + 2"
  by (simp add: quote_string_def)

end
