(* ===== verification/JsonCodec.thy ===== *)
theory JsonCodec
  imports JsonText
begin

text \<open>
  \<open>json.Marshal\<close> and \<open>json.Unmarshal\<close> for the Go types the program uses: strings, booleans,
  int64, slices, maps with string keys, \<open>json.RawMessage\<close> and structs. A decoder takes the
  value and what the target holds already, as \<open>Unmarshal\<close> does, and says whether an
  UnmarshalTypeError was recorded; decoding goes on after such an error. The locale
  \<open>json_codec\<close> is the contract of an encoder and a decoder of one type.
\<close>

section \<open>Encoders\<close>

fun commas :: "string list \<Rightarrow> string" where
  "commas [] = []"
| "commas [t] = t"
| "commas (t # u # ts) = t @ CHR '','' # commas (u # ts)"

definition enc_array :: "string list \<Rightarrow> string" where
  "enc_array ts = CHR ''['' # commas ts @ [CHR '']'']"

definition enc_member :: "string \<times> string \<Rightarrow> string" where
  "enc_member f = (case f of (k, t) \<Rightarrow> quote_string k @ CHR '':'' # t)"

text \<open>The fields of a struct in their order, with their already encoded values.\<close>

definition enc_object :: "(string \<times> string) list \<Rightarrow> string" where
  "enc_object fs = CHR ''{'' # commas (map enc_member fs) @ [CHR ''}'']"

definition enc_bool :: "bool \<Rightarrow> string" where
  "enc_bool b = (if b then ''true'' else ''false'')"

text \<open>A nil slice is null, an empty one is [].\<close>

definition enc_slice :: "('a \<Rightarrow> string) \<Rightarrow> 'a list option \<Rightarrow> string" where
  "enc_slice enc xs = (case xs of None \<Rightarrow> ''null'' | Some ys \<Rightarrow> enc_array (map enc ys))"

section \<open>Decoders\<close>

type_synonym 'a dec = "jval \<Rightarrow> 'a \<Rightarrow> 'a \<times> bool"

definition dec_string :: "string dec" where
  "dec_string v a = (case v of JStr b \<Rightarrow> (unquote b, False) | JNull \<Rightarrow> (a, False) | _ \<Rightarrow> (a, True))"

definition dec_bool :: "bool dec" where
  "dec_bool v a = (case v of JBool b \<Rightarrow> (b, False) | JNull \<Rightarrow> (a, False) | _ \<Rightarrow> (a, True))"

definition dec_int64 :: "int dec" where
  "dec_int64 v a =
     (case v of
        JNum s \<Rightarrow> (case parse_int64 s of Some i \<Rightarrow> (i, False) | None \<Rightarrow> (a, True))
      | JNull \<Rightarrow> (a, False)
      | _ \<Rightarrow> (a, True))"

text \<open>\<open>RawMessage.UnmarshalJSON\<close> keeps the bytes of the value, also of null.\<close>

definition dec_raw :: "string dec" where
  "dec_raw v a = (raw_text v, False)"

text \<open>The elements of a slice are decoded over the elements it has, then over zero values.\<close>

fun dec_elems :: "'a dec \<Rightarrow> 'a \<Rightarrow> jval list \<Rightarrow> 'a list \<Rightarrow> 'a list \<times> bool" where
  "dec_elems dec zero [] olds = ([], False)"
| "dec_elems dec zero (v # vs) olds =
     (let (a, e) = dec v (case olds of [] \<Rightarrow> zero | old # _ \<Rightarrow> old);
          (as, es) = dec_elems dec zero vs (tl olds)
      in (a # as, e \<or> es))"

definition dec_slice :: "'a dec \<Rightarrow> 'a \<Rightarrow> 'a list option dec" where
  "dec_slice dec zero v old =
     (case v of
        JArr _ vs \<Rightarrow> apfst Some (dec_elems dec zero vs (case old of None \<Rightarrow> [] | Some xs \<Rightarrow> xs))
      | JNull \<Rightarrow> (None, False)
      | _ \<Rightarrow> (old, True))"

text \<open>A map keeps its entries; every entry of the object is decoded over a zero value.\<close>

fun dec_entries :: "'a dec \<Rightarrow> 'a \<Rightarrow> (string \<times> jval) list \<Rightarrow> (string \<rightharpoonup> 'a) \<Rightarrow> (string \<rightharpoonup> 'a) \<times> bool" where
  "dec_entries dec zero [] m = (m, False)"
| "dec_entries dec zero ((k, v) # kvs) m =
     (let (a, e) = dec v zero; (m', es) = dec_entries dec zero kvs (m(unquote k \<mapsto> a))
      in (m', e \<or> es))"

definition dec_map :: "'a dec \<Rightarrow> 'a \<Rightarrow> (string \<rightharpoonup> 'a) option dec" where
  "dec_map dec zero v old =
     (case v of
        JObj _ kvs \<Rightarrow> apfst Some (dec_entries dec zero kvs (case old of None \<Rightarrow> Map.empty | Some m \<Rightarrow> m))
      | JNull \<Rightarrow> (None, False)
      | _ \<Rightarrow> (old, True))"

text \<open>
  The field of a struct for a key: the one with exactly that name, else the first that
  matches without regard to case (fold.go \<open>equalFoldRight\<close>, where s also matches the long s
  and k the Kelvin sign).
\<close>

definition upper :: "char \<Rightarrow> nat" where
  "upper c = (let b = byte c in if odd (b div 32) then b - 32 else b)"

fun equal_fold :: "string \<Rightarrow> string \<Rightarrow> bool" where
  "equal_fold [] t = (t = [])"
| "equal_fold (sb # s) [] = False"
| "equal_fold (sb # s) (tb # t) =
     (if byte tb < 128 then
        (sb = tb \<or> 65 \<le> upper sb \<and> upper sb \<le> 90 \<and> upper sb = upper tb) \<and> equal_fold s t
      else
        let (r, n) = decode_rune (tb # t) in
        (upper sb = 83 \<and> r = 383 \<or> upper sb = 75 \<and> r = 8490) \<and> equal_fold s (drop n (tb # t)))"

type_synonym 'a fields = "(string \<times> 'a dec) list"

fun first_fold :: "'a fields \<Rightarrow> string \<Rightarrow> 'a dec option" where
  "first_fold [] key = None"
| "first_fold ((name, d) # fs) key = (if equal_fold name key then Some d else first_fold fs key)"

definition find_field :: "'a fields \<Rightarrow> string \<Rightarrow> 'a dec option" where
  "find_field fs key = (case map_of fs key of Some d \<Rightarrow> Some d | None \<Rightarrow> first_fold fs key)"

fun dec_members :: "'a fields \<Rightarrow> (string \<times> jval) list \<Rightarrow> 'a \<Rightarrow> 'a \<times> bool" where
  "dec_members fs [] a = (a, False)"
| "dec_members fs ((k, v) # kvs) a =
     (case find_field fs (unquote k) of
        None \<Rightarrow> dec_members fs kvs a
      | Some d \<Rightarrow>
          (let (a', e) = d v a; (a'', es) = dec_members fs kvs a' in (a'', e \<or> es)))"

definition dec_struct :: "'a fields \<Rightarrow> 'a dec" where
  "dec_struct fs v a =
     (case v of JObj _ kvs \<Rightarrow> dec_members fs kvs a | JNull \<Rightarrow> (a, False) | _ \<Rightarrow> (a, True))"

text \<open>A struct field is decoded through its selector and its update.\<close>

definition field :: "string \<Rightarrow> ('a \<Rightarrow> 'f) \<Rightarrow> (('f \<Rightarrow> 'f) \<Rightarrow> 'a \<Rightarrow> 'a) \<Rightarrow> 'f dec \<Rightarrow> string \<times> 'a dec" where
  "field name get upd d = (name, \<lambda>v a. let (x, e) = d v (get a) in (upd (\<lambda>_. x) a, e))"

datatype unmarshal_error = SyntaxError | UnmarshalTypeError

text \<open>\<open>json.Unmarshal(data, &a)\<close>: the target afterwards, and the error.\<close>

definition unmarshal :: "'a dec \<Rightarrow> string \<Rightarrow> 'a \<Rightarrow> 'a \<times> unmarshal_error option" where
  "unmarshal d s a =
     (case parse_json s of
        None \<Rightarrow> (a, Some SyntaxError)
      | Some v \<Rightarrow> (let (a', e) = d v a in (a', if e then Some UnmarshalTypeError else None)))"

section \<open>How the scanner reads the encoders' texts\<close>

definition ends_value :: "string \<Rightarrow> bool" where
  "ends_value r \<longleftrightarrow> r = [] \<or> \<not> is_digit (hd r) \<and> hd r \<notin> {CHR ''.'', CHR ''e'', CHR ''E''}"

definition reads_as :: "string \<Rightarrow> jval \<Rightarrow> bool" where
  "reads_as t v \<longleftrightarrow>
     t \<noteq> [] \<and> \<not> is_ws (hd t) \<and> hd t \<noteq> CHR '']'' \<and>
     (\<forall>n r. ends_value r \<longrightarrow> 2 * length (t @ r) < n \<longrightarrow> parse_value n (t @ r) = Some (v, r))"

lemma reads_asI:
  assumes "t \<noteq> []" and "\<not> is_ws (hd t)" and "hd t \<noteq> CHR '']''"
    and "\<And>n r. ends_value r \<Longrightarrow> 2 * length (t @ r) \<le> n \<Longrightarrow> parse_value (Suc n) (t @ r) = Some (v, r)"
  shows "reads_as t v"
  unfolding reads_as_def using assms by (metis Suc_leD Suc_le_mono gr0_implies_Suc less_Suc_eq_le not_less_zero less_nat_zero_code neq0_conv)

lemma reads_asD:
  "reads_as t v \<Longrightarrow> ends_value r \<Longrightarrow> 2 * length (t @ r) < n \<Longrightarrow> parse_value n (t @ r) = Some (v, r)"
  by (simp add: reads_as_def)

lemma skip_ws_id: "s = [] \<or> \<not> is_ws (hd s) \<Longrightarrow> skip_ws s = s"
  by (simp add: skip_ws_def)

lemma skip_ws_reads: "reads_as t v \<Longrightarrow> skip_ws (t @ r) = t @ r"
  by (rule skip_ws_id) (auto simp: reads_as_def)

lemma is_ws_simps [simp]:
  "\<not> is_ws CHR '',''" "\<not> is_ws CHR ''}''" "\<not> is_ws CHR '']''" "\<not> is_ws CHR '':''" "\<not> is_ws CHR ''{''"
  "\<not> is_ws CHR ''[''" "\<not> is_ws dquote" "\<not> is_ws CHR ''t''" "\<not> is_ws CHR ''f''" "\<not> is_ws CHR ''n''"
  "\<not> is_ws CHR ''-''"
  by (simp_all add: is_ws_def)

lemma ends_value_simps [simp]:
  "ends_value []" "ends_value (CHR '','' # r)" "ends_value (CHR ''}'' # r)" "ends_value (CHR '']'' # r)"
  by (simp_all add: ends_value_def is_digit_def)

lemma parse_json_reads: "reads_as t v \<Longrightarrow> parse_json t = Some v"
  using reads_asD [of t v "[]"] skip_ws_reads [of t v "[]"]
  by (simp add: parse_json_def skip_ws_id del: parse_value.simps)

lemma reads_string [json_parse]: "reads_as (quote_string s) (JStr (enc_body s))"
  by (rule reads_asI) (simp_all add: quote_string_def scan_enc_body)

lemma reads_null [json_parse]: "reads_as ''null'' JNull"
  by (rule reads_asI) (simp_all add: scan_lit_def)

lemma reads_bool [json_parse]: "reads_as (enc_bool b) (JBool b)"
  by (rule reads_asI) (auto simp: scan_lit_def enc_bool_def)

lemma is_digit_not [simp]:
  "is_digit c \<Longrightarrow> c \<noteq> CHR ''{'' \<and> c \<noteq> CHR ''['' \<and> c \<noteq> CHR '']'' \<and> c \<noteq> dquote \<and> c \<noteq> CHR ''t'' \<and>
     c \<noteq> CHR ''f'' \<and> c \<noteq> CHR ''n'' \<and> c \<noteq> CHR ''-'' \<and> \<not> is_ws c"
  by (auto simp: is_digit_def is_ws_def)

lemma scan_end [simp]: "ends_value r \<Longrightarrow> scan_frac r = Some ([], r)" "ends_value r \<Longrightarrow> scan_exp r = Some ([], r)"
  by (auto simp: ends_value_def scan_frac_def scan_exp_def split: list.splits)

lemma scan_unsigned_show_nat: "ends_value r \<Longrightarrow> scan_unsigned (show_nat n @ r) = Some (show_nat n, r)"
proof -
  assume r: "ends_value r"
  have "scan_int (show_nat n @ r) = Some (show_nat n, r)"
  proof (cases "n = 0")
    case True
    have "chr 48 = CHR ''0''" by (rule byte_eq_iff [THEN iffD1]) simp
    then have "show_nat 0 = [CHR ''0'']" by (subst show_nat.simps) simp
    with True show ?thesis by (simp add: scan_int_def)
  next
    case False
    obtain c t where ct: "show_nat n = c # t" by (cases "show_nat n") auto
    have "\<forall>d\<in>set (c # t). is_digit d" using show_nat_digits [of n] ct by simp
    moreover have "r = [] \<or> \<not> is_digit (hd r)" using r by (auto simp: ends_value_def)
    moreover have "c \<noteq> CHR ''0''" using show_nat_hd_nonzero [of n] False ct by simp
    ultimately show ?thesis
      using takeWhile_append_stop [of "c # t" is_digit r] dropWhile_append_stop [of "c # t" is_digit r]
      by (simp add: scan_int_def ct)
  qed
  with r show ?thesis by (simp add: scan_unsigned_def)
qed

lemma reads_int [json_parse]: "reads_as (show_int i) (JNum (show_int i))"
proof (cases "i < 0")
  case True
  then show ?thesis
    by (intro reads_asI) (simp_all add: show_int_def scan_number_def scan_unsigned_show_nat)
next
  case False
  obtain c t where ct: "show_nat (nat i) = c # t" by (cases "show_nat (nat i)") auto
  have c: "is_digit c" using show_nat_digits [of "nat i"] ct by simp
  have "scan_number (show_nat (nat i) @ r) = Some (show_nat (nat i), r)" if "ends_value r" for r
    using scan_unsigned_show_nat [OF that, of "nat i"] c ct by (simp add: scan_number_def)
  then show ?thesis
    using False c ct by (intro reads_asI) (simp_all add: show_int_def)
qed

text \<open>A list of texts that each read as a value, and a list of members.\<close>

lemma parse_elems_commas:
  assumes "list_all2 reads_as ts vs" and "ts \<noteq> []" and "2 * length (commas ts @ CHR '']'' # r) + 1 < n"
  shows "parse_elems n (commas ts @ CHR '']'' # r) = Some (vs, r)"
  using assms
proof (induction ts arbitrary: vs n rule: commas.induct)
  case (2 t)
  then obtain v m where vs: "vs = [v]" "reads_as t v" and n: "n = Suc m"
    by (cases n) (auto simp: list_all2_Cons1)
  have "parse_value m (t @ CHR '']'' # r) = Some (v, CHR '']'' # r)"
    using "2.prems"(3) n by (intro reads_asD [OF vs(2)]) auto
  then show ?case using vs n by (simp add: skip_ws_id del: parse_value.simps)
next
  case (3 t u ts)
  then obtain v ws m where vs: "vs = v # ws" "reads_as t v" "list_all2 reads_as (u # ts) ws" and n: "n = Suc m"
    by (cases n) (auto simp: list_all2_Cons1)
  let ?rest = "commas (u # ts) @ CHR '']'' # r"
  have v: "parse_value m (t @ CHR '','' # ?rest) = Some (v, CHR '','' # ?rest)"
    using "3.prems"(3) n by (intro reads_asD [OF vs(2)]) auto
  obtain w where "reads_as u w" using vs(3) by (auto simp: list_all2_Cons1)
  then have "skip_ws ?rest = ?rest" using skip_ws_reads [of u w] by (cases ts) auto
  moreover have "parse_elems m ?rest = Some (ws, r)"
    using "3.prems"(3) n by (intro "3.IH" [OF vs(3)]) auto
  ultimately show ?case using v vs n by (simp add: skip_ws_id del: parse_value.simps)
qed simp

lemma reads_array [json_parse]:
  assumes "list_all2 reads_as ts vs"
  shows "reads_as (enc_array ts) (JArr (enc_array ts) vs)"
proof (rule reads_asI)
  fix n r assume n: "2 * length (enc_array ts @ r) \<le> n"
  let ?s = "commas ts @ CHR '']'' # r"
  have enc: "enc_array ts @ r = CHR ''['' # ?s" by (simp add: enc_array_def)
  have cons: "consumed (CHR ''['' # ?s) r = enc_array ts"
    using consumed_suffix [of r "CHR ''['' # ?s"] enc by (metis append_same_eq suffixI)
  show "parse_value (Suc n) (enc_array ts @ r) = Some (JArr (enc_array ts) vs, r)"
  proof (cases ts)
    case Nil
    then show ?thesis using assms cons unfolding enc parse_value_arr by (simp add: skip_ws_id)
  next
    case (Cons t us)
    obtain v where t: "reads_as t v" using assms Cons by (auto simp: list_all2_Cons1)
    then have "skip_ws ?s = ?s" "?s \<noteq> []" "hd ?s \<noteq> CHR '']''"
      using Cons skip_ws_reads [OF t] by (cases us; auto simp: reads_as_def)+
    moreover have "parse_elems n ?s = Some (vs, r)"
      using assms Cons n enc by (intro parse_elems_commas) auto
    ultimately show ?thesis using cons unfolding enc parse_value_arr by simp
  qed
qed (simp_all add: enc_array_def)

text \<open>A field: its name, the text of its value, the value.\<close>

definition field_reads :: "string \<times> string \<Rightarrow> string \<times> jval \<Rightarrow> bool" where
  "field_reads f kv \<longleftrightarrow> fst kv = enc_body (fst f) \<and> reads_as (snd f) (snd kv)"

lemma field_reads_simps [simp]: "field_reads (k, t) (b, v) \<longleftrightarrow> b = enc_body k \<and> reads_as t v"
  by (simp add: field_reads_def)

lemma parse_member_step:
  assumes "reads_as t v" and "ends_value r" and "2 * length (enc_member (k, t) @ r) < m"
  shows "parse_members (Suc m) (enc_member (k, t) @ r) =
     (case skip_ws r of
        [] \<Rightarrow> None
      | c # r4 \<Rightarrow>
          if c = CHR ''}'' then Some ([(enc_body k, v)], r4)
          else if c = CHR '','' then prepend [(enc_body k, v)] (parse_members m (skip_ws r4))
          else None)"
proof -
  have "parse_value m (t @ r) = Some (v, r)"
    using assms by (intro reads_asD) (auto simp: enc_member_def)
  then show ?thesis
    using skip_ws_reads [OF assms(1)]
    by (simp add: enc_member_def quote_string_def scan_enc_body skip_ws_id del: parse_value.simps)
qed

lemma hd_enc_member: "skip_ws (enc_member f @ r) = enc_member f @ r" "enc_member f \<noteq> []"
    "hd (enc_member f @ r) = dquote"
  by (auto simp: enc_member_def quote_string_def skip_ws_id split: prod.splits)

lemma parse_members_commas:
  assumes "list_all2 field_reads fs kvs" and "fs \<noteq> []"
    and "2 * length (commas (map enc_member fs) @ CHR ''}'' # r) + 1 < n"
  shows "parse_members n (commas (map enc_member fs) @ CHR ''}'' # r) = Some (kvs, r)"
  using assms
proof (induction fs arbitrary: kvs n)
  case (Cons f fs)
  obtain k t where f: "f = (k, t)" by fastforce
  obtain v kvs' where kvs: "kvs = (enc_body k, v) # kvs'" "reads_as t v" "list_all2 field_reads fs kvs'"
    using Cons.prems(1) f by (auto simp: list_all2_Cons1)
  obtain m where n: "n = Suc m" using Cons.prems(3) by (cases n) auto
  show ?case
  proof (cases fs)
    case Nil
    then show ?thesis
      using parse_member_step [OF kvs(2), of "CHR ''}'' # r" k m] Cons.prems(3) kvs f n
      by (simp add: skip_ws_id)
  next
    case (Cons g gs)
    let ?rest = "commas (map enc_member fs) @ CHR ''}'' # r"
    have "skip_ws ?rest = ?rest"
      using Cons hd_enc_member [of g] by (cases gs) auto
    moreover have "parse_members m ?rest = Some (kvs', r)"
      using Cons.prems(3) Cons n by (intro Cons.IH kvs) auto
    ultimately show ?thesis
      using parse_member_step [OF kvs(2), of "CHR '','' # ?rest" k m] Cons.prems(3) kvs f n Cons
      by (simp add: skip_ws_id)
  qed
qed simp

lemma reads_object [json_parse]:
  assumes "list_all2 field_reads fs kvs"
  shows "reads_as (enc_object fs) (JObj (enc_object fs) kvs)"
proof (rule reads_asI)
  fix n r assume n: "2 * length (enc_object fs @ r) \<le> n"
  let ?s = "commas (map enc_member fs) @ CHR ''}'' # r"
  have enc: "enc_object fs @ r = CHR ''{'' # ?s" by (simp add: enc_object_def)
  have cons: "consumed (CHR ''{'' # ?s) r = enc_object fs"
    using consumed_suffix [of r "CHR ''{'' # ?s"] enc by (metis append_same_eq suffixI)
  show "parse_value (Suc n) (enc_object fs @ r) = Some (JObj (enc_object fs) kvs, r)"
  proof (cases fs)
    case Nil
    then show ?thesis using assms cons unfolding enc parse_value_obj by (simp add: skip_ws_id)
  next
    case (Cons f gs)
    then have "skip_ws ?s = ?s" "?s \<noteq> []" "hd ?s \<noteq> CHR ''}''"
      using hd_enc_member [of f] by (cases gs; simp)+
    moreover have "parse_members n ?s = Some (kvs, r)"
      using assms Cons n enc by (intro parse_members_commas) auto
    ultimately show ?thesis using cons unfolding enc parse_value_obj by simp
  qed
qed (simp_all add: enc_object_def)

section \<open>The contract of a codec\<close>

text \<open>
  \<open>enc\<close> writes a value of the Go type, \<open>val\<close> is the JSON value of that text, \<open>dec\<close> reads it into a
  target that holds the zero value. \<open>ok\<close> says which values survive: a Go string that is not
  valid UTF-8 does not.
\<close>

locale json_codec =
  fixes enc :: "'a \<Rightarrow> string"
    and val :: "'a \<Rightarrow> jval"
    and dec :: "'a dec"
    and zero :: 'a
    and ok :: "'a \<Rightarrow> bool"
  assumes reads: "ok a \<Longrightarrow> reads_as (enc a) (val a)"
    and decodes: "ok a \<Longrightarrow> dec (val a) zero = (a, False)"

definition val_slice :: "('a \<Rightarrow> string) \<Rightarrow> ('a \<Rightarrow> jval) \<Rightarrow> 'a list option \<Rightarrow> jval" where
  "val_slice enc val xs =
     (case xs of None \<Rightarrow> JNull | Some ys \<Rightarrow> JArr (enc_array (map enc ys)) (map val ys))"

definition ok_slice :: "('a \<Rightarrow> bool) \<Rightarrow> 'a list option \<Rightarrow> bool" where
  "ok_slice ok xs = (case xs of None \<Rightarrow> True | Some ys \<Rightarrow> list_all ok ys)"

context json_codec begin

text \<open>The whole of \<open>Unmarshal\<close> undoes \<open>Marshal\<close>.\<close>

lemma unmarshal_enc: "ok a \<Longrightarrow> unmarshal dec (enc a) zero = (a, None)"
  by (simp add: unmarshal_def parse_json_reads [OF reads] decodes)

lemma enc_inject: "ok a \<Longrightarrow> ok b \<Longrightarrow> enc a = enc b \<Longrightarrow> a = b"
  by (metis unmarshal_enc prod.inject)

lemma reads_all: "list_all ok ys \<Longrightarrow> list_all2 reads_as (map enc ys) (map val ys)"
  by (induction ys) (auto simp: reads)

lemma dec_elems_enc: "list_all ok ys \<Longrightarrow> dec_elems dec zero (map val ys) [] = (ys, False)"
  by (induction ys) (auto simp: decodes)

text \<open>The slices of the type have a codec too.\<close>

lemma slice_codec: "json_codec (enc_slice enc) (val_slice enc val) (dec_slice dec zero) None (ok_slice ok)"
proof unfold_locales
  fix xs :: "'a list option"
  assume ok: "ok_slice ok xs"
  show "reads_as (enc_slice enc xs) (val_slice enc val xs)"
    using ok by (cases xs)
      (simp_all add: enc_slice_def val_slice_def ok_slice_def reads_null reads_array reads_all)
  show "dec_slice dec zero (val_slice enc val xs) None = (xs, False)"
    using ok by (cases xs)
      (simp_all add: dec_slice_def val_slice_def ok_slice_def dec_elems_enc)
qed

end

section \<open>The codecs of the basic types\<close>

definition val_string :: "string \<Rightarrow> jval" where
  "val_string s = JStr (enc_body s)"

definition val_int64 :: "int \<Rightarrow> jval" where
  "val_int64 i = JNum (show_int i)"

definition is_int64 :: "int \<Rightarrow> bool" where
  "is_int64 i \<longleftrightarrow> int64_min \<le> i \<and> i \<le> int64_max"

interpretation string_codec: json_codec quote_string val_string dec_string "[]" valid_utf8
  by unfold_locales (simp_all add: val_string_def dec_string_def reads_string unquote_enc_body)

interpretation bool_codec: json_codec enc_bool JBool dec_bool False "\<lambda>_. True"
  by unfold_locales (simp_all add: dec_bool_def reads_bool)

interpretation int64_codec: json_codec show_int val_int64 dec_int64 0 is_int64
  by unfold_locales
    (simp_all add: val_int64_def dec_int64_def reads_int is_int64_def parse_int64_show_int)

text \<open>
  The members of a struct that was just encoded, decoded in their order: each field's decoder
  meets the zero value it has in a new struct.
\<close>

lemma dec_members_Cons_field:
  assumes "find_field fs (unquote k) = Some (\<lambda>v a. let (x, e) = d v (get a) in (upd (\<lambda>_. x) a, e))"
    and "d v (get a) = (x, False)"
  shows "dec_members fs ((k, v) # kvs) a = dec_members fs kvs (upd (\<lambda>_. x) a)"
  using assms by (simp add: case_prod_unfold)

lemmas struct_reads = field_def find_field_def unquote_enc_body

end
