(* ===== verification/Datatypes.thy ===== *)
theory Datatypes
  imports JsonCodec
begin

text \<open>
  The data of slack/datatypes.go: one record per struct, with the struct's fields in their
  order, its zero value, and the table of its JSON names, from which the decoder (and, for
  the structs the program marshals, the encoder) is read off. The methods of \<open>Message\<close> follow.
  A nil slice is \<open>None\<close>, a nil map is \<open>None\<close>, an absent \<open>json.RawMessage\<close> is the empty string.
\<close>

section \<open>Structs\<close>

text \<open>A channel; \<open>Im\<close> has no tag, so its JSON name is the field name.\<close>

record Channel =
  Ch_Id :: string
  Ch_Created :: int
  Ch_Name :: string
  Ch_CreatorId :: string
  Ch_Im :: bool

definition zero_Channel :: Channel where
  "zero_Channel = \<lparr>Ch_Id = [],
     Ch_Created = 0,
     Ch_Name = [],
     Ch_CreatorId = [],
     Ch_Im = False\<rparr>"

definition fields_Channel :: "Channel fields" where
  "fields_Channel =
     [field ''id'' Ch_Id Ch_Id_update dec_string,
      field ''created'' Ch_Created Ch_Created_update dec_int64,
      field ''name'' Ch_Name Ch_Name_update dec_string,
      field ''creator'' Ch_CreatorId Ch_CreatorId_update dec_string,
      field ''Im'' Ch_Im Ch_Im_update dec_bool]"

definition dec_Channel :: "Channel dec" where
  "dec_Channel = dec_struct fields_Channel"

definition enc_Channel :: "Channel \<Rightarrow> string" where
  "enc_Channel x = enc_object
     [(''id'', quote_string (Ch_Id x)),
      (''created'', show_int (Ch_Created x)),
      (''name'', quote_string (Ch_Name x)),
      (''creator'', quote_string (Ch_CreatorId x)),
      (''Im'', enc_bool (Ch_Im x))]"

text \<open>A command received over the Redis pubsub channel.\<close>

record Command =
  Cmd_Id :: string
  Cmd_Type :: string
  Cmd_TeamId :: string
  Cmd_UserId :: string
  Cmd_ChannelId :: string
  Cmd_Namespace :: string
  Cmd_Payload :: string

definition zero_Command :: Command where
  "zero_Command = \<lparr>Cmd_Id = [],
     Cmd_Type = [],
     Cmd_TeamId = [],
     Cmd_UserId = [],
     Cmd_ChannelId = [],
     Cmd_Namespace = [],
     Cmd_Payload = []\<rparr>"

definition fields_Command :: "Command fields" where
  "fields_Command =
     [field ''id'' Cmd_Id Cmd_Id_update dec_string,
      field ''type'' Cmd_Type Cmd_Type_update dec_string,
      field ''team_id'' Cmd_TeamId Cmd_TeamId_update dec_string,
      field ''user_id'' Cmd_UserId Cmd_UserId_update dec_string,
      field ''channel_id'' Cmd_ChannelId Cmd_ChannelId_update dec_string,
      field ''namespace'' Cmd_Namespace Cmd_Namespace_update dec_string,
      field ''payload'' Cmd_Payload Cmd_Payload_update dec_string]"

definition dec_Command :: "Command dec" where
  "dec_Command = dec_struct fields_Command"

text \<open>A direct message channel as rtm.start lists it.\<close>

record Im =
  Im_Id :: string
  Im_Created :: int
  Im_CreatorId :: string

definition zero_Im :: Im where
  "zero_Im = \<lparr>Im_Id = [],
     Im_Created = 0,
     Im_CreatorId = []\<rparr>"

definition fields_Im :: "Im fields" where
  "fields_Im =
     [field ''id'' Im_Id Im_Id_update dec_string,
      field ''created'' Im_Created Im_Created_update dec_int64,
      field ''user'' Im_CreatorId Im_CreatorId_update dec_string]"

definition dec_Im :: "Im dec" where
  "dec_Im = dec_struct fields_Im"

record Field =
  Field_Title :: string
  Field_Value :: string
  Field_Short :: bool

definition zero_Field :: Field where
  "zero_Field = \<lparr>Field_Title = [],
     Field_Value = [],
     Field_Short = False\<rparr>"

definition fields_Field :: "Field fields" where
  "fields_Field =
     [field ''title'' Field_Title Field_Title_update dec_string,
      field ''value'' Field_Value Field_Value_update dec_string,
      field ''short'' Field_Short Field_Short_update dec_bool]"

definition dec_Field :: "Field dec" where
  "dec_Field = dec_struct fields_Field"

definition enc_Field :: "Field \<Rightarrow> string" where
  "enc_Field x = enc_object
     [(''title'', quote_string (Field_Title x)),
      (''value'', quote_string (Field_Value x)),
      (''short'', enc_bool (Field_Short x))]"

definition val_Field :: "Field \<Rightarrow> jval" where
  "val_Field x = JObj (enc_Field x)
     [(enc_body ''title'', val_string (Field_Title x)),
      (enc_body ''value'', val_string (Field_Value x)),
      (enc_body ''short'', JBool (Field_Short x))]"

definition ok_Field :: "Field \<Rightarrow> bool" where
  "ok_Field x \<longleftrightarrow> valid_utf8 (Field_Title x) \<and>
     valid_utf8 (Field_Value x)"

record ConfirmAction =
  Confirm_Title :: string
  Confirm_Text :: string
  Confirm_OkText :: string
  Confirm_DismissText :: string

definition zero_ConfirmAction :: ConfirmAction where
  "zero_ConfirmAction = \<lparr>Confirm_Title = [],
     Confirm_Text = [],
     Confirm_OkText = [],
     Confirm_DismissText = []\<rparr>"

definition fields_ConfirmAction :: "ConfirmAction fields" where
  "fields_ConfirmAction =
     [field ''title'' Confirm_Title Confirm_Title_update dec_string,
      field ''text'' Confirm_Text Confirm_Text_update dec_string,
      field ''ok_text'' Confirm_OkText Confirm_OkText_update dec_string,
      field ''dismiss_text'' Confirm_DismissText Confirm_DismissText_update dec_string]"

definition dec_ConfirmAction :: "ConfirmAction dec" where
  "dec_ConfirmAction = dec_struct fields_ConfirmAction"

definition enc_ConfirmAction :: "ConfirmAction \<Rightarrow> string" where
  "enc_ConfirmAction x = enc_object
     [(''title'', quote_string (Confirm_Title x)),
      (''text'', quote_string (Confirm_Text x)),
      (''ok_text'', quote_string (Confirm_OkText x)),
      (''dismiss_text'', quote_string (Confirm_DismissText x))]"

definition val_ConfirmAction :: "ConfirmAction \<Rightarrow> jval" where
  "val_ConfirmAction x = JObj (enc_ConfirmAction x)
     [(enc_body ''title'', val_string (Confirm_Title x)),
      (enc_body ''text'', val_string (Confirm_Text x)),
      (enc_body ''ok_text'', val_string (Confirm_OkText x)),
      (enc_body ''dismiss_text'', val_string (Confirm_DismissText x))]"

definition ok_ConfirmAction :: "ConfirmAction \<Rightarrow> bool" where
  "ok_ConfirmAction x \<longleftrightarrow> valid_utf8 (Confirm_Title x) \<and>
     valid_utf8 (Confirm_Text x) \<and>
     valid_utf8 (Confirm_OkText x) \<and>
     valid_utf8 (Confirm_DismissText x)"

record Action =
  Action_Name :: string
  Action_Text :: string
  Action_Type :: string
  Action_Style :: string
  Action_Value :: string
  Action_Confirm :: ConfirmAction

definition zero_Action :: Action where
  "zero_Action = \<lparr>Action_Name = [],
     Action_Text = [],
     Action_Type = [],
     Action_Style = [],
     Action_Value = [],
     Action_Confirm = zero_ConfirmAction\<rparr>"

definition fields_Action :: "Action fields" where
  "fields_Action =
     [field ''name'' Action_Name Action_Name_update dec_string,
      field ''text'' Action_Text Action_Text_update dec_string,
      field ''type'' Action_Type Action_Type_update dec_string,
      field ''style'' Action_Style Action_Style_update dec_string,
      field ''value'' Action_Value Action_Value_update dec_string,
      field ''confirm'' Action_Confirm Action_Confirm_update dec_ConfirmAction]"

definition dec_Action :: "Action dec" where
  "dec_Action = dec_struct fields_Action"

definition enc_Action :: "Action \<Rightarrow> string" where
  "enc_Action x = enc_object
     [(''name'', quote_string (Action_Name x)),
      (''text'', quote_string (Action_Text x)),
      (''type'', quote_string (Action_Type x)),
      (''style'', quote_string (Action_Style x)),
      (''value'', quote_string (Action_Value x)),
      (''confirm'', enc_ConfirmAction (Action_Confirm x))]"

definition val_Action :: "Action \<Rightarrow> jval" where
  "val_Action x = JObj (enc_Action x)
     [(enc_body ''name'', val_string (Action_Name x)),
      (enc_body ''text'', val_string (Action_Text x)),
      (enc_body ''type'', val_string (Action_Type x)),
      (enc_body ''style'', val_string (Action_Style x)),
      (enc_body ''value'', val_string (Action_Value x)),
      (enc_body ''confirm'', val_ConfirmAction (Action_Confirm x))]"

definition ok_Action :: "Action \<Rightarrow> bool" where
  "ok_Action x \<longleftrightarrow> valid_utf8 (Action_Name x) \<and>
     valid_utf8 (Action_Text x) \<and>
     valid_utf8 (Action_Type x) \<and>
     valid_utf8 (Action_Style x) \<and>
     valid_utf8 (Action_Value x) \<and>
     ok_ConfirmAction (Action_Confirm x)"

record Attachment =
  Att_Fallback :: string
  Att_Color :: string
  Att_Pretext :: string
  Att_AuthorName :: string
  Att_AuthorLink :: string
  Att_AuthorIcon :: string
  Att_Title :: string
  Att_TitleLink :: string
  Att_Text :: string
  Att_Fields :: "Field list option"
  Att_ImageUrl :: string
  Att_ThumbUrl :: string
  Att_Footer :: string
  Att_FooterIcon :: string
  Att_Ts :: int
  Att_AttachmentType :: string
  Att_CallbackId :: string
  Att_Actions :: "Action list option"

definition zero_Attachment :: Attachment where
  "zero_Attachment = \<lparr>Att_Fallback = [],
     Att_Color = [],
     Att_Pretext = [],
     Att_AuthorName = [],
     Att_AuthorLink = [],
     Att_AuthorIcon = [],
     Att_Title = [],
     Att_TitleLink = [],
     Att_Text = [],
     Att_Fields = None,
     Att_ImageUrl = [],
     Att_ThumbUrl = [],
     Att_Footer = [],
     Att_FooterIcon = [],
     Att_Ts = 0,
     Att_AttachmentType = [],
     Att_CallbackId = [],
     Att_Actions = None\<rparr>"

definition fields_Attachment :: "Attachment fields" where
  "fields_Attachment =
     [field ''fallback'' Att_Fallback Att_Fallback_update dec_string,
      field ''color'' Att_Color Att_Color_update dec_string,
      field ''pretext'' Att_Pretext Att_Pretext_update dec_string,
      field ''author_name'' Att_AuthorName Att_AuthorName_update dec_string,
      field ''author_link'' Att_AuthorLink Att_AuthorLink_update dec_string,
      field ''author_icon'' Att_AuthorIcon Att_AuthorIcon_update dec_string,
      field ''title'' Att_Title Att_Title_update dec_string,
      field ''title_link'' Att_TitleLink Att_TitleLink_update dec_string,
      field ''text'' Att_Text Att_Text_update dec_string,
      field ''fields'' Att_Fields Att_Fields_update (dec_slice dec_Field zero_Field),
      field ''image_url'' Att_ImageUrl Att_ImageUrl_update dec_string,
      field ''thumb_url'' Att_ThumbUrl Att_ThumbUrl_update dec_string,
      field ''footer'' Att_Footer Att_Footer_update dec_string,
      field ''footer_icon'' Att_FooterIcon Att_FooterIcon_update dec_string,
      field ''ts'' Att_Ts Att_Ts_update dec_int64,
      field ''attachment_type'' Att_AttachmentType Att_AttachmentType_update dec_string,
      field ''callback_id'' Att_CallbackId Att_CallbackId_update dec_string,
      field ''actions'' Att_Actions Att_Actions_update (dec_slice dec_Action zero_Action)]"

definition dec_Attachment :: "Attachment dec" where
  "dec_Attachment = dec_struct fields_Attachment"

definition enc_Attachment :: "Attachment \<Rightarrow> string" where
  "enc_Attachment x = enc_object
     [(''fallback'', quote_string (Att_Fallback x)),
      (''color'', quote_string (Att_Color x)),
      (''pretext'', quote_string (Att_Pretext x)),
      (''author_name'', quote_string (Att_AuthorName x)),
      (''author_link'', quote_string (Att_AuthorLink x)),
      (''author_icon'', quote_string (Att_AuthorIcon x)),
      (''title'', quote_string (Att_Title x)),
      (''title_link'', quote_string (Att_TitleLink x)),
      (''text'', quote_string (Att_Text x)),
      (''fields'', (enc_slice enc_Field) (Att_Fields x)),
      (''image_url'', quote_string (Att_ImageUrl x)),
      (''thumb_url'', quote_string (Att_ThumbUrl x)),
      (''footer'', quote_string (Att_Footer x)),
      (''footer_icon'', quote_string (Att_FooterIcon x)),
      (''ts'', show_int (Att_Ts x)),
      (''attachment_type'', quote_string (Att_AttachmentType x)),
      (''callback_id'', quote_string (Att_CallbackId x)),
      (''actions'', (enc_slice enc_Action) (Att_Actions x))]"

definition val_Attachment :: "Attachment \<Rightarrow> jval" where
  "val_Attachment x = JObj (enc_Attachment x)
     [(enc_body ''fallback'', val_string (Att_Fallback x)),
      (enc_body ''color'', val_string (Att_Color x)),
      (enc_body ''pretext'', val_string (Att_Pretext x)),
      (enc_body ''author_name'', val_string (Att_AuthorName x)),
      (enc_body ''author_link'', val_string (Att_AuthorLink x)),
      (enc_body ''author_icon'', val_string (Att_AuthorIcon x)),
      (enc_body ''title'', val_string (Att_Title x)),
      (enc_body ''title_link'', val_string (Att_TitleLink x)),
      (enc_body ''text'', val_string (Att_Text x)),
      (enc_body ''fields'', (val_slice enc_Field val_Field) (Att_Fields x)),
      (enc_body ''image_url'', val_string (Att_ImageUrl x)),
      (enc_body ''thumb_url'', val_string (Att_ThumbUrl x)),
      (enc_body ''footer'', val_string (Att_Footer x)),
      (enc_body ''footer_icon'', val_string (Att_FooterIcon x)),
      (enc_body ''ts'', val_int64 (Att_Ts x)),
      (enc_body ''attachment_type'', val_string (Att_AttachmentType x)),
      (enc_body ''callback_id'', val_string (Att_CallbackId x)),
      (enc_body ''actions'', (val_slice enc_Action val_Action) (Att_Actions x))]"

definition ok_Attachment :: "Attachment \<Rightarrow> bool" where
  "ok_Attachment x \<longleftrightarrow> valid_utf8 (Att_Fallback x) \<and>
     valid_utf8 (Att_Color x) \<and>
     valid_utf8 (Att_Pretext x) \<and>
     valid_utf8 (Att_AuthorName x) \<and>
     valid_utf8 (Att_AuthorLink x) \<and>
     valid_utf8 (Att_AuthorIcon x) \<and>
     valid_utf8 (Att_Title x) \<and>
     valid_utf8 (Att_TitleLink x) \<and>
     valid_utf8 (Att_Text x) \<and>
     (ok_slice ok_Field) (Att_Fields x) \<and>
     valid_utf8 (Att_ImageUrl x) \<and>
     valid_utf8 (Att_ThumbUrl x) \<and>
     valid_utf8 (Att_Footer x) \<and>
     valid_utf8 (Att_FooterIcon x) \<and>
     is_int64 (Att_Ts x) \<and>
     valid_utf8 (Att_AttachmentType x) \<and>
     valid_utf8 (Att_CallbackId x) \<and>
     (ok_slice ok_Action) (Att_Actions x)"

record User =
  User_Id :: string
  User_Name :: string
  User_Color :: string
  User_Timezone :: string
  User_TimezoneDescription :: string
  User_TimezoneOffset :: int
  User_IsDeleted :: bool
  User_IsAdmin :: bool
  User_IsBot :: bool
  User_IsOwner :: bool
  User_IsPrimaryOwner :: bool
  User_IsRestricted :: bool

definition zero_User :: User where
  "zero_User = \<lparr>User_Id = [],
     User_Name = [],
     User_Color = [],
     User_Timezone = [],
     User_TimezoneDescription = [],
     User_TimezoneOffset = 0,
     User_IsDeleted = False,
     User_IsAdmin = False,
     User_IsBot = False,
     User_IsOwner = False,
     User_IsPrimaryOwner = False,
     User_IsRestricted = False\<rparr>"

definition fields_User :: "User fields" where
  "fields_User =
     [field ''id'' User_Id User_Id_update dec_string,
      field ''name'' User_Name User_Name_update dec_string,
      field ''color'' User_Color User_Color_update dec_string,
      field ''tz'' User_Timezone User_Timezone_update dec_string,
      field ''tz_label'' User_TimezoneDescription User_TimezoneDescription_update dec_string,
      field ''tz_offset'' User_TimezoneOffset User_TimezoneOffset_update dec_int64,
      field ''deleted'' User_IsDeleted User_IsDeleted_update dec_bool,
      field ''is_admin'' User_IsAdmin User_IsAdmin_update dec_bool,
      field ''is_bot'' User_IsBot User_IsBot_update dec_bool,
      field ''is_owner'' User_IsOwner User_IsOwner_update dec_bool,
      field ''is_primary_owner'' User_IsPrimaryOwner User_IsPrimaryOwner_update dec_bool,
      field ''is_restricted'' User_IsRestricted User_IsRestricted_update dec_bool]"

definition dec_User :: "User dec" where
  "dec_User = dec_struct fields_User"

definition enc_User :: "User \<Rightarrow> string" where
  "enc_User x = enc_object
     [(''id'', quote_string (User_Id x)),
      (''name'', quote_string (User_Name x)),
      (''color'', quote_string (User_Color x)),
      (''tz'', quote_string (User_Timezone x)),
      (''tz_label'', quote_string (User_TimezoneDescription x)),
      (''tz_offset'', show_int (User_TimezoneOffset x)),
      (''deleted'', enc_bool (User_IsDeleted x)),
      (''is_admin'', enc_bool (User_IsAdmin x)),
      (''is_bot'', enc_bool (User_IsBot x)),
      (''is_owner'', enc_bool (User_IsOwner x)),
      (''is_primary_owner'', enc_bool (User_IsPrimaryOwner x)),
      (''is_restricted'', enc_bool (User_IsRestricted x))]"

text \<open>The event that is sent to the consumer over the Redis queue.\<close>

record Event =
  Ev_Type :: string
  Ev_UserUid :: string
  Ev_ChannelUid :: string
  Ev_TeamUid :: string
  Ev_Im :: bool
  Ev_Text :: string
  Ev_RelaxBotUid :: string
  Ev_Timestamp :: string
  Ev_Provider :: string
  Ev_EventTimestamp :: string
  Ev_Namespace :: string
  Ev_Attachments :: "Attachment list option"

definition zero_Event :: Event where
  "zero_Event = \<lparr>Ev_Type = [],
     Ev_UserUid = [],
     Ev_ChannelUid = [],
     Ev_TeamUid = [],
     Ev_Im = False,
     Ev_Text = [],
     Ev_RelaxBotUid = [],
     Ev_Timestamp = [],
     Ev_Provider = [],
     Ev_EventTimestamp = [],
     Ev_Namespace = [],
     Ev_Attachments = None\<rparr>"

definition fields_Event :: "Event fields" where
  "fields_Event =
     [field ''type'' Ev_Type Ev_Type_update dec_string,
      field ''user_uid'' Ev_UserUid Ev_UserUid_update dec_string,
      field ''channel_uid'' Ev_ChannelUid Ev_ChannelUid_update dec_string,
      field ''team_uid'' Ev_TeamUid Ev_TeamUid_update dec_string,
      field ''im'' Ev_Im Ev_Im_update dec_bool,
      field ''text'' Ev_Text Ev_Text_update dec_string,
      field ''relax_bot_uid'' Ev_RelaxBotUid Ev_RelaxBotUid_update dec_string,
      field ''timestamp'' Ev_Timestamp Ev_Timestamp_update dec_string,
      field ''provider'' Ev_Provider Ev_Provider_update dec_string,
      field ''event_timestamp'' Ev_EventTimestamp Ev_EventTimestamp_update dec_string,
      field ''namespace'' Ev_Namespace Ev_Namespace_update dec_string,
      field ''attachments'' Ev_Attachments Ev_Attachments_update (dec_slice dec_Attachment zero_Attachment)]"

definition dec_Event :: "Event dec" where
  "dec_Event = dec_struct fields_Event"

definition enc_Event :: "Event \<Rightarrow> string" where
  "enc_Event x = enc_object
     [(''type'', quote_string (Ev_Type x)),
      (''user_uid'', quote_string (Ev_UserUid x)),
      (''channel_uid'', quote_string (Ev_ChannelUid x)),
      (''team_uid'', quote_string (Ev_TeamUid x)),
      (''im'', enc_bool (Ev_Im x)),
      (''text'', quote_string (Ev_Text x)),
      (''relax_bot_uid'', quote_string (Ev_RelaxBotUid x)),
      (''timestamp'', quote_string (Ev_Timestamp x)),
      (''provider'', quote_string (Ev_Provider x)),
      (''event_timestamp'', quote_string (Ev_EventTimestamp x)),
      (''namespace'', quote_string (Ev_Namespace x)),
      (''attachments'', (enc_slice enc_Attachment) (Ev_Attachments x))]"

definition val_Event :: "Event \<Rightarrow> jval" where
  "val_Event x = JObj (enc_Event x)
     [(enc_body ''type'', val_string (Ev_Type x)),
      (enc_body ''user_uid'', val_string (Ev_UserUid x)),
      (enc_body ''channel_uid'', val_string (Ev_ChannelUid x)),
      (enc_body ''team_uid'', val_string (Ev_TeamUid x)),
      (enc_body ''im'', JBool (Ev_Im x)),
      (enc_body ''text'', val_string (Ev_Text x)),
      (enc_body ''relax_bot_uid'', val_string (Ev_RelaxBotUid x)),
      (enc_body ''timestamp'', val_string (Ev_Timestamp x)),
      (enc_body ''provider'', val_string (Ev_Provider x)),
      (enc_body ''event_timestamp'', val_string (Ev_EventTimestamp x)),
      (enc_body ''namespace'', val_string (Ev_Namespace x)),
      (enc_body ''attachments'', (val_slice enc_Attachment val_Attachment) (Ev_Attachments x))]"

definition ok_Event :: "Event \<Rightarrow> bool" where
  "ok_Event x \<longleftrightarrow> valid_utf8 (Ev_Type x) \<and>
     valid_utf8 (Ev_UserUid x) \<and>
     valid_utf8 (Ev_ChannelUid x) \<and>
     valid_utf8 (Ev_TeamUid x) \<and>
     valid_utf8 (Ev_Text x) \<and>
     valid_utf8 (Ev_RelaxBotUid x) \<and>
     valid_utf8 (Ev_Timestamp x) \<and>
     valid_utf8 (Ev_Provider x) \<and>
     valid_utf8 (Ev_EventTimestamp x) \<and>
     valid_utf8 (Ev_Namespace x) \<and>
     (ok_slice ok_Attachment) (Ev_Attachments x)"

text \<open>
  A \<open>json.RawMessage\<close> inside a struct that is marshalled by value is, in Go 1.7, written as the
  \<open>[]byte\<close> it is: null when nil, else in base64.
\<close>

definition base64_char :: "nat \<Rightarrow> char" where
  "base64_char n =
     (if n < 26 then chr (65 + n) else if n < 52 then chr (71 + n) else if n < 62 then chr (n - 4)
      else if n = 62 then CHR ''+'' else CHR ''/'')"

fun base64 :: "string \<Rightarrow> string" where
  "base64 [] = []"
| "base64 [a] =
     [base64_char (byte a div 4), base64_char (byte a mod 4 * 16), CHR ''='', CHR ''='']"
| "base64 [a, b] =
     [base64_char (byte a div 4), base64_char (byte a mod 4 * 16 + byte b div 16),
      base64_char (byte b mod 16 * 4), CHR ''='']"
| "base64 (a # b # c # s) =
     base64_char (byte a div 4) # base64_char (byte a mod 4 * 16 + byte b div 16) #
     base64_char (byte b mod 16 * 4 + byte c div 64) # base64_char (byte c mod 64) # base64 s"

definition enc_bytes :: "string \<Rightarrow> string" where
  "enc_bytes r = (if r = [] then ''null'' else dquote # base64 r @ [dquote])"

text \<open>A message of the RealTime API. \<open>User\<close> and \<open>Channel\<close> have no tag; the fields
  tagged user, channel, message and item keep their raw text.\<close>

record Message =
  Msg_Id :: string
  Msg_Type :: string
  Msg_Subtype :: string
  Msg_Text :: string
  Msg_Timestamp :: string
  Msg_DeletedTimestamp :: string
  Msg_Reaction :: string
  Msg_Hidden :: bool
  Msg_Attachments :: "Attachment list option"
  Msg_EventTimestamp :: string
  Msg_ReplyTo :: string
  Msg_User :: User
  Msg_Channel :: Channel
  Msg_RawUser :: string
  Msg_RawChannel :: string
  Msg_RawMessage :: string
  Msg_RawItem :: string

definition zero_Message :: Message where
  "zero_Message = \<lparr>Msg_Id = [],
     Msg_Type = [],
     Msg_Subtype = [],
     Msg_Text = [],
     Msg_Timestamp = [],
     Msg_DeletedTimestamp = [],
     Msg_Reaction = [],
     Msg_Hidden = False,
     Msg_Attachments = None,
     Msg_EventTimestamp = [],
     Msg_ReplyTo = [],
     Msg_User = zero_User,
     Msg_Channel = zero_Channel,
     Msg_RawUser = [],
     Msg_RawChannel = [],
     Msg_RawMessage = [],
     Msg_RawItem = []\<rparr>"

definition fields_Message :: "Message fields" where
  "fields_Message =
     [field ''id'' Msg_Id Msg_Id_update dec_string,
      field ''type'' Msg_Type Msg_Type_update dec_string,
      field ''subtype'' Msg_Subtype Msg_Subtype_update dec_string,
      field ''text'' Msg_Text Msg_Text_update dec_string,
      field ''ts'' Msg_Timestamp Msg_Timestamp_update dec_string,
      field ''deleted_ts'' Msg_DeletedTimestamp Msg_DeletedTimestamp_update dec_string,
      field ''reaction'' Msg_Reaction Msg_Reaction_update dec_string,
      field ''hidden'' Msg_Hidden Msg_Hidden_update dec_bool,
      field ''attachments'' Msg_Attachments Msg_Attachments_update (dec_slice dec_Attachment zero_Attachment),
      field ''event_ts'' Msg_EventTimestamp Msg_EventTimestamp_update dec_string,
      field ''reply_to'' Msg_ReplyTo Msg_ReplyTo_update dec_string,
      field ''User'' Msg_User Msg_User_update dec_User,
      field ''Channel'' Msg_Channel Msg_Channel_update dec_Channel,
      field ''user'' Msg_RawUser Msg_RawUser_update dec_raw,
      field ''channel'' Msg_RawChannel Msg_RawChannel_update dec_raw,
      field ''message'' Msg_RawMessage Msg_RawMessage_update dec_raw,
      field ''item'' Msg_RawItem Msg_RawItem_update dec_raw]"

definition dec_Message :: "Message dec" where
  "dec_Message = dec_struct fields_Message"

definition enc_Message :: "Message \<Rightarrow> string" where
  "enc_Message x = enc_object
     [(''id'', quote_string (Msg_Id x)),
      (''type'', quote_string (Msg_Type x)),
      (''subtype'', quote_string (Msg_Subtype x)),
      (''text'', quote_string (Msg_Text x)),
      (''ts'', quote_string (Msg_Timestamp x)),
      (''deleted_ts'', quote_string (Msg_DeletedTimestamp x)),
      (''reaction'', quote_string (Msg_Reaction x)),
      (''hidden'', enc_bool (Msg_Hidden x)),
      (''attachments'', (enc_slice enc_Attachment) (Msg_Attachments x)),
      (''event_ts'', quote_string (Msg_EventTimestamp x)),
      (''reply_to'', quote_string (Msg_ReplyTo x)),
      (''User'', enc_User (Msg_User x)),
      (''Channel'', enc_Channel (Msg_Channel x)),
      (''user'', enc_bytes (Msg_RawUser x)),
      (''channel'', enc_bytes (Msg_RawChannel x)),
      (''message'', enc_bytes (Msg_RawMessage x)),
      (''item'', enc_bytes (Msg_RawItem x))]"

text \<open>The answer of rtm.start, with the maps that Login fills.\<close>

record Metadata =
  Md_Ok :: bool
  Md_Self :: User
  Md_Url :: string
  Md_ImsList :: "Im list option"
  Md_ChannelsList :: "Channel list option"
  Md_GroupsList :: "Channel list option"
  Md_UsersList :: "User list option"
  Md_Error :: string
  Md_Users :: "(string \<rightharpoonup> User) option"
  Md_Channels :: "(string \<rightharpoonup> Channel) option"

definition zero_Metadata :: Metadata where
  "zero_Metadata = \<lparr>Md_Ok = False,
     Md_Self = zero_User,
     Md_Url = [],
     Md_ImsList = None,
     Md_ChannelsList = None,
     Md_GroupsList = None,
     Md_UsersList = None,
     Md_Error = [],
     Md_Users = None,
     Md_Channels = None\<rparr>"

definition fields_Metadata :: "Metadata fields" where
  "fields_Metadata =
     [field ''ok'' Md_Ok Md_Ok_update dec_bool,
      field ''self'' Md_Self Md_Self_update dec_User,
      field ''url'' Md_Url Md_Url_update dec_string,
      field ''ims'' Md_ImsList Md_ImsList_update (dec_slice dec_Im zero_Im),
      field ''channels'' Md_ChannelsList Md_ChannelsList_update (dec_slice dec_Channel zero_Channel),
      field ''groups'' Md_GroupsList Md_GroupsList_update (dec_slice dec_Channel zero_Channel),
      field ''users'' Md_UsersList Md_UsersList_update (dec_slice dec_User zero_User),
      field ''error'' Md_Error Md_Error_update dec_string,
      field ''Users'' Md_Users Md_Users_update (dec_map dec_User zero_User),
      field ''Channels'' Md_Channels Md_Channels_update (dec_map dec_Channel zero_Channel)]"

definition dec_Metadata :: "Metadata dec" where
  "dec_Metadata = dec_struct fields_Metadata"

text \<open>
  The client of one team. Of the unexported fields, the mutex is a flag that says it has been
  allocated, the connection and the ping ticker are the numbers of the ones in use, and the
  Redis client is a flag that says \<open>Start\<close> has set it. The decoder sees the exported fields only.
\<close>

record Client =
  C_Token :: string
  C_TeamId :: string
  C_Provider :: string
  C_Namespace :: string
  C_heartBeatsMissed :: int64
  C_heartBeatsMutex :: bool
  C_data :: "Metadata option"
  C_conn :: "nat option"
  C_pingTicker :: "nat option"
  C_redisClient :: bool

definition zero_Client :: Client where
  "zero_Client = \<lparr>C_Token = [], C_TeamId = [], C_Provider = [], C_Namespace = [],
     C_heartBeatsMissed = 0, C_heartBeatsMutex = False, C_data = None, C_conn = None,
     C_pingTicker = None, C_redisClient = False\<rparr>"

definition fields_Client :: "Client fields" where
  "fields_Client =
     [field ''token'' C_Token C_Token_update dec_string,
      field ''team_id'' C_TeamId C_TeamId_update dec_string,
      field ''provider'' C_Provider C_Provider_update dec_string,
      field ''namespace'' C_Namespace C_Namespace_update dec_string]"

definition dec_Client :: "Client dec" where
  "dec_Client = dec_struct fields_Client"

section \<open>Methods of Message\<close>

text \<open>
  \<open>RawMessage.MarshalJSON\<close> gives the bytes back and never fails; in Go 1.7 those of an absent
  field are empty.
\<close>

definition Message_UserId :: "Message \<Rightarrow> string" where
  "Message_UserId m = trim [dquote] (Msg_RawUser m)"

definition Message_ChannelId :: "Message \<Rightarrow> string" where
  "Message_ChannelId m = trim [dquote] (Msg_RawChannel m)"

definition EmbeddedMessage :: "Message \<Rightarrow> Message option" where
  "EmbeddedMessage m =
     (case unmarshal dec_Message (Msg_RawMessage m) zero_Message of
        (embedded, None) \<Rightarrow> Some embedded
      | (_, Some _) \<Rightarrow> None)"

definition EmbeddedItem :: "Message \<Rightarrow> Message option" where
  "EmbeddedItem m =
     (case unmarshal dec_Message (Msg_RawItem m) zero_Message of
        (embedded, None) \<Rightarrow> Some embedded
      | (_, Some _) \<Rightarrow> None)"

text \<open>Reading a Go map: the zero value for a missing key, and for a nil map.\<close>

definition map_get :: "'v \<Rightarrow> (string \<rightharpoonup> 'v) option \<Rightarrow> string \<Rightarrow> 'v" where
  "map_get zero m k = (case m of None \<Rightarrow> zero | Some f \<Rightarrow> (case f k of None \<Rightarrow> zero | Some v \<Rightarrow> v))"

abbreviation get_user :: "Metadata \<Rightarrow> string \<Rightarrow> User" where
  "get_user d \<equiv> map_get zero_User (Md_Users d)"

abbreviation get_channel :: "Metadata \<Rightarrow> string \<Rightarrow> Channel" where
  "get_channel d \<equiv> map_get zero_Channel (Md_Channels d)"

lemma map_get_simps [simp]:
  "map_get z None k = z"
  "map_get z (Some m) k = (case m k of None \<Rightarrow> z | Some v \<Rightarrow> v)"
  by (simp_all add: map_get_def)

text \<open>When the raw field is a JSON string without escapes, the methods give the string.\<close>

lemma trim_raw_string: "\<forall>c\<in>set s. c \<noteq> dquote \<Longrightarrow> trim [dquote] (raw_text (JStr s)) = s"
  using trim_quoted [of s dquote] by simp

section \<open>Codecs of the structs that are marshalled\<close>

lemmas scalar_codecs =
  string_codec.reads string_codec.decodes bool_codec.reads bool_codec.decodes
  int64_codec.reads int64_codec.decodes

interpretation Field_codec: json_codec enc_Field val_Field dec_Field zero_Field ok_Field
  by unfold_locales
    (auto simp: enc_Field_def val_Field_def dec_Field_def zero_Field_def ok_Field_def fields_Field_def
      dec_struct_def struct_reads scalar_codecs intro!: reads_object)

interpretation ConfirmAction_codec:
  json_codec enc_ConfirmAction val_ConfirmAction dec_ConfirmAction zero_ConfirmAction ok_ConfirmAction
  by unfold_locales
    (auto simp: enc_ConfirmAction_def val_ConfirmAction_def dec_ConfirmAction_def zero_ConfirmAction_def
      ok_ConfirmAction_def fields_ConfirmAction_def dec_struct_def struct_reads scalar_codecs
      intro!: reads_object)

interpretation Action_codec: json_codec enc_Action val_Action dec_Action zero_Action ok_Action
  by unfold_locales
    (auto simp: enc_Action_def val_Action_def dec_Action_def zero_Action_def ok_Action_def fields_Action_def
      dec_struct_def struct_reads scalar_codecs ConfirmAction_codec.reads ConfirmAction_codec.decodes
      intro!: reads_object)

interpretation Fields_codec: json_codec "enc_slice enc_Field" "val_slice enc_Field val_Field"
    "dec_slice dec_Field zero_Field" None "ok_slice ok_Field"
  by (rule Field_codec.slice_codec)

interpretation Actions_codec: json_codec "enc_slice enc_Action" "val_slice enc_Action val_Action"
    "dec_slice dec_Action zero_Action" None "ok_slice ok_Action"
  by (rule Action_codec.slice_codec)

interpretation Attachment_codec:
  json_codec enc_Attachment val_Attachment dec_Attachment zero_Attachment ok_Attachment
  by unfold_locales
    (auto simp: enc_Attachment_def val_Attachment_def dec_Attachment_def zero_Attachment_def
      ok_Attachment_def fields_Attachment_def dec_struct_def struct_reads scalar_codecs
      Fields_codec.reads Fields_codec.decodes Actions_codec.reads Actions_codec.decodes
      intro!: reads_object)

interpretation Attachments_codec: json_codec "enc_slice enc_Attachment" "val_slice enc_Attachment val_Attachment"
    "dec_slice dec_Attachment zero_Attachment" None "ok_slice ok_Attachment"
  by (rule Attachment_codec.slice_codec)

interpretation Event_codec: json_codec enc_Event val_Event dec_Event zero_Event ok_Event
  by unfold_locales
    (auto simp: enc_Event_def val_Event_def dec_Event_def zero_Event_def ok_Event_def fields_Event_def
      dec_struct_def struct_reads scalar_codecs Attachments_codec.reads Attachments_codec.decodes
      intro!: reads_object)

end
