(* ===== verification/Cmap.thy ===== *)
theory Cmap
  imports GoLib "HOL-Library.Mapping" "HOL-Library.AList_Mapping"
begin

unbundle bit_operations_syntax

text \<open>
  The vendored concurrent-map (concurrent_map.go), which holds the registry \<open>Clients\<close> of all
  connected clients: 32 shards, each a map behind its own lock, and the shard of a key picked
  by the 32-bit FNV-1 hash of the key. Every operation takes one shard's lock for its whole
  body (\<open>Count\<close> one after the other), so an operation is one step here.

  The locale \<open>team_registry\<close> is the contract the slack package relies on; it is interpreted on
  the sharded map below.
\<close>

section \<open>The contract of a registry\<close>

locale team_registry =
  fixes empty :: "'m"
    and set_key :: "'m \<Rightarrow> string \<Rightarrow> 'v \<Rightarrow> 'm"
    and get_key :: "'m \<Rightarrow> string \<Rightarrow> 'v option"
    and remove_key :: "'m \<Rightarrow> string \<Rightarrow> 'm"
    and count :: "'m \<Rightarrow> nat"
    and inv :: "'m \<Rightarrow> bool"
  assumes inv_empty [simp]: "inv empty"
    and inv_set [simp]: "inv m \<Longrightarrow> inv (set_key m k v)"
    and inv_remove [simp]: "inv m \<Longrightarrow> inv (remove_key m k)"
    and get_empty [simp]: "get_key empty k = None"
    and get_set: "inv m \<Longrightarrow> get_key (set_key m k v) k' = (if k' = k then Some v else get_key m k')"
    and get_remove: "inv m \<Longrightarrow> get_key (remove_key m k) k' = (if k' = k then None else get_key m k')"
    and finite_keys: "inv m \<Longrightarrow> finite {k. get_key m k \<noteq> None}"
    and count_keys: "inv m \<Longrightarrow> count m = card {k. get_key m k \<noteq> None}"

context team_registry begin

text \<open>The registry read as a partial function.\<close>

lemma abs_set: "inv m \<Longrightarrow> get_key (set_key m k v) = (get_key m)(k \<mapsto> v)"
  by (rule ext) (simp add: get_set)

lemma abs_remove: "inv m \<Longrightarrow> get_key (remove_key m k) = (get_key m)(k := None)"
  by (rule ext) (simp add: get_remove)

lemma dom_count: "inv m \<Longrightarrow> count m = card (dom (get_key m))"
  by (simp add: count_keys dom_def)

lemma finite_dom: "inv m \<Longrightarrow> finite (dom (get_key m))"
  using finite_keys by (simp add: dom_def)

lemma count_set_new: "inv m \<Longrightarrow> get_key m k = None \<Longrightarrow> count (set_key m k v) = Suc (count m)"
  by (simp add: dom_count abs_set finite_dom domIff)

lemma count_set_present: "inv m \<Longrightarrow> get_key m k \<noteq> None \<Longrightarrow> count (set_key m k v) = count m"
  by (simp add: dom_count abs_set insert_absorb domIff)

lemma count_remove_present: "inv m \<Longrightarrow> get_key m k = Some v \<Longrightarrow> Suc (count (remove_key m k)) = count m"
proof -
  assume m: "inv m" and k: "get_key m k = Some v"
  then have "k \<in> dom (get_key m)" by blast
  with m show ?thesis
    using card_Suc_Diff1 [OF finite_dom [OF m], of k] by (simp add: dom_count abs_remove)
qed

lemma remove_after_set: "inv m \<Longrightarrow> get_key m k = None \<Longrightarrow> get_key (remove_key (set_key m k v) k) = get_key m"
  by (simp add: abs_set abs_remove fun_upd_idem)

end

section \<open>The sharded map\<close>

type_synonym 'v cmap = "(string, 'v) mapping list"

definition SHARD_COUNT :: nat where "SHARD_COUNT = 32"

definition fnv1_32 :: "string \<Rightarrow> 32 word" where
  "fnv1_32 s = foldl (\<lambda>h c. (h * 16777619) XOR word_of_nat (byte c)) 2166136261 s"

definition shard_index :: "string \<Rightarrow> nat" where
  "shard_index key = unat (fnv1_32 key) mod SHARD_COUNT"

definition New :: "'v cmap" where
  "New = replicate SHARD_COUNT Mapping.empty"

definition GetShard :: "'v cmap \<Rightarrow> string \<Rightarrow> (string, 'v) mapping" where
  "GetShard m key = m ! shard_index key"

definition Set :: "'v cmap \<Rightarrow> string \<Rightarrow> 'v \<Rightarrow> 'v cmap" where
  "Set m key v = m[shard_index key := Mapping.update key v (GetShard m key)]"

definition SetIfAbsent :: "'v cmap \<Rightarrow> string \<Rightarrow> 'v \<Rightarrow> bool \<times> 'v cmap" where
  "SetIfAbsent m key v =
     (case Mapping.lookup (GetShard m key) key of
        None \<Rightarrow> (True, Set m key v)
      | Some _ \<Rightarrow> (False, m))"

definition Get :: "'v cmap \<Rightarrow> string \<Rightarrow> 'v option" where
  "Get m key = Mapping.lookup (GetShard m key) key"

definition Has :: "'v cmap \<Rightarrow> string \<Rightarrow> bool" where
  "Has m key \<longleftrightarrow> Mapping.lookup (GetShard m key) key \<noteq> None"

definition Remove :: "'v cmap \<Rightarrow> string \<Rightarrow> 'v cmap" where
  "Remove m key = m[shard_index key := Mapping.delete key (GetShard m key)]"

definition Count :: "'v cmap \<Rightarrow> nat" where
  "Count m = sum_list (map Mapping.size m)"

definition IsEmpty :: "'v cmap \<Rightarrow> bool" where
  "IsEmpty m \<longleftrightarrow> Count m = 0"

fun MSet :: "'v cmap \<Rightarrow> (string \<times> 'v) list \<Rightarrow> 'v cmap" where
  "MSet m [] = m"
| "MSet m ((k, v) # kvs) = MSet (Set m k v) kvs"

section \<open>The sharded map is a registry\<close>

text \<open>There are 32 shards, and a key is only ever in its own shard.\<close>

definition cmap_inv :: "'v cmap \<Rightarrow> bool" where
  "cmap_inv m \<longleftrightarrow> length m = SHARD_COUNT \<and>
     (\<forall>i < SHARD_COUNT. finite (Mapping.keys (m ! i)) \<and>
        (\<forall>k \<in> Mapping.keys (m ! i). shard_index k = i))"

lemma shard_index_less [simp]: "shard_index k < SHARD_COUNT"
  by (simp add: shard_index_def SHARD_COUNT_def)

lemma Get_Set: "cmap_inv m \<Longrightarrow> Get (Set m k v) k' = (if k' = k then Some v else Get m k')"
  by (cases "shard_index k' = shard_index k")
    (auto simp: Get_def Set_def GetShard_def cmap_inv_def lookup_update')

lemma Get_Remove: "cmap_inv m \<Longrightarrow> Get (Remove m k) k' = (if k' = k then None else Get m k')"
  by (cases "shard_index k' = shard_index k")
    (auto simp: Get_def Remove_def GetShard_def cmap_inv_def Mapping.lookup_delete lookup_delete_neq)

lemma cmap_inv_update:
  assumes "cmap_inv m" and "finite (Mapping.keys s)" and "\<forall>k' \<in> Mapping.keys s. shard_index k' = shard_index k"
  shows "cmap_inv (m[shard_index k := s])"
  using assms by (auto simp: cmap_inv_def nth_list_update)

lemma cmap_inv_Set: "cmap_inv m \<Longrightarrow> cmap_inv (Set m k v)"
  unfolding Set_def by (rule cmap_inv_update) (auto simp: cmap_inv_def GetShard_def)

lemma cmap_inv_Remove: "cmap_inv m \<Longrightarrow> cmap_inv (Remove m k)"
  unfolding Remove_def by (rule cmap_inv_update) (auto simp: cmap_inv_def GetShard_def)

lemma in_keys: "k \<in> Mapping.keys m \<longleftrightarrow> Mapping.lookup m k \<noteq> None"
  by transfer auto

lemma cmap_invD:
  assumes "cmap_inv m" and "i < SHARD_COUNT"
  shows "finite (Mapping.keys (m ! i))" and "k \<in> Mapping.keys (m ! i) \<Longrightarrow> shard_index k = i"
  using assms by (simp_all add: cmap_inv_def)

lemma Get_keys:
  assumes "cmap_inv m"
  shows "{k. Get m k \<noteq> None} = (\<Union>i \<in> {..<SHARD_COUNT}. Mapping.keys (m ! i))"
proof (rule set_eqI)
  fix k
  have "k \<in> {k. Get m k \<noteq> None} \<longleftrightarrow> k \<in> Mapping.keys (m ! shard_index k)"
    by (simp add: Get_def GetShard_def in_keys)
  also have "\<dots> \<longleftrightarrow> k \<in> (\<Union>i \<in> {..<SHARD_COUNT}. Mapping.keys (m ! i))"
  proof
    assume "k \<in> Mapping.keys (m ! shard_index k)"
    then show "k \<in> (\<Union>i \<in> {..<SHARD_COUNT}. Mapping.keys (m ! i))"
      by (intro UN_I [of "shard_index k"]) simp_all
  next
    assume "k \<in> (\<Union>i \<in> {..<SHARD_COUNT}. Mapping.keys (m ! i))"
    then obtain i where i: "i < SHARD_COUNT" "k \<in> Mapping.keys (m ! i)" by blast
    with cmap_invD(2) [OF assms i(1)] show "k \<in> Mapping.keys (m ! shard_index k)" by simp
  qed
  finally show "k \<in> {k. Get m k \<noteq> None} \<longleftrightarrow> k \<in> (\<Union>i \<in> {..<SHARD_COUNT}. Mapping.keys (m ! i))" .
qed

lemma Count_keys: "cmap_inv m \<Longrightarrow> Count m = card {k. Get m k \<noteq> None}"
proof -
  assume m: "cmap_inv m"
  have disj: "Mapping.keys (m ! i) \<inter> Mapping.keys (m ! j) = {}"
    if "i < SHARD_COUNT" "j < SHARD_COUNT" "i \<noteq> j" for i j
    using cmap_invD(2) [OF m that(1)] cmap_invD(2) [OF m that(2)] that(3) by auto
  have "Count m = (\<Sum>i < SHARD_COUNT. card (Mapping.keys (m ! i)))"
    using m by (simp add: Count_def cmap_inv_def sum_list_sum_nth Mapping.size_def atLeast0LessThan)
  also have "\<dots> = card (\<Union>i < SHARD_COUNT. Mapping.keys (m ! i))"
    using m disj by (intro card_UN_disjoint [symmetric]) (auto simp: cmap_inv_def)
  finally show ?thesis using Get_keys [OF m] by simp
qed

interpretation clients: team_registry New Set Get Remove Count cmap_inv
proof unfold_locales
  show "cmap_inv New" by (simp add: cmap_inv_def New_def)
  show "Get New k = None" for k by (simp add: Get_def New_def GetShard_def)
  show "finite {k. Get m k \<noteq> None}" if "cmap_inv m" for m :: "'v cmap"
    using that by (simp only: Get_keys) (auto simp: cmap_inv_def)
qed (simp_all add: cmap_inv_Set cmap_inv_Remove Get_Set Get_Remove Count_keys)

end
