(* ===== verification/ClientBase.thy ===== *)
theory ClientBase
  imports Datatypes Cmap
begin

text \<open>
  The client object itself (slack/client.go): making one from the JSON kept in Redis, its
  heartbeat counter, and the key under which it is registered in \<open>Clients\<close>.
\<close>

section \<open>Errors\<close>

text \<open>The errors that the methods of a client return, as the code tells them apart.\<close>

datatype client_error =
    UrlError                       \<comment> \<open>url.ParseRequestURI of the host\<close>
  | RequestError                   \<comment> \<open>http.Client.Do\<close>
  | BodyError                      \<comment> \<open>ioutil.ReadAll of the response\<close>
  | StatusError int int            \<comment> \<open>expected and actual status code\<close>
  | JsonError unmarshal_error
  | DialError
  | CloseError
  | PushError                      \<comment> \<open>"Unexpected error while pushing to RELAX_EVENTS_QUEUE"\<close>
  | ConnectError string            \<comment> \<open>"error connecting to slack websocket server: %s"\<close>

section \<open>NewClient\<close>

definition NewClient :: "string \<Rightarrow> Client \<times> unmarshal_error option" where
  "NewClient initJSON =
     (case unmarshal dec_Client initJSON zero_Client of
        (c, None) \<Rightarrow> (c\<lparr>C_heartBeatsMutex := True\<rparr>, None)
      | (c, Some err) \<Rightarrow> (c, Some err))"

section \<open>The heartbeat counter\<close>

text \<open>Locking the mutex panics when it was never allocated.\<close>

definition ResetHeartBeatsMissed :: "Client \<Rightarrow> Client option" where
  "ResetHeartBeatsMissed c =
     (if C_heartBeatsMutex c then Some (c\<lparr>C_heartBeatsMissed := 0\<rparr>) else None)"

definition IncrementHeartBeatsMissed :: "Client \<Rightarrow> Client option" where
  "IncrementHeartBeatsMissed c =
     (if C_heartBeatsMutex c then Some (c\<lparr>C_heartBeatsMissed := C_heartBeatsMissed c + 1\<rparr>) else None)"

section \<open>The registry key\<close>

definition registry_key :: "string \<Rightarrow> string \<Rightarrow> string" where
  "registry_key namespace team_id =
     (if namespace = [] then team_id else namespace @ CHR ''-'' # team_id)"

definition Client_key :: "Client \<Rightarrow> string" where
  "Client_key c = registry_key (C_Namespace c) (C_TeamId c)"

section \<open>What NewClient gives\<close>

text \<open>Decoding the exported fields never touches the others.\<close>

definition fresh_Client :: "Client \<Rightarrow> bool" where
  "fresh_Client c \<longleftrightarrow> C_heartBeatsMissed c = 0 \<and> C_data c = None \<and> C_conn c = None \<and>
     C_pingTicker c = None \<and> \<not> C_redisClient c"

lemma first_fold_in: "first_fold fs key = Some d \<Longrightarrow> d \<in> snd ` set fs"
  by (induction fs key rule: first_fold.induct) (auto split: if_splits)

lemma find_field_in: "find_field fs key = Some d \<Longrightarrow> d \<in> snd ` set fs"
proof (cases "map_of fs key")
  case (Some d')
  assume "find_field fs key = Some d"
  with Some have "(key, d) \<in> set fs" by (simp add: find_field_def map_of_SomeD)
  then show ?thesis by force
qed (simp add: find_field_def first_fold_in)

text \<open>A property that every field decoder keeps holds after the whole struct is decoded.\<close>

lemma dec_members_invariant:
  assumes step: "\<And>d v a. d \<in> snd ` set fs \<Longrightarrow> P a \<Longrightarrow> P (fst (d v a))" and init: "P a"
  shows "P (fst (dec_members fs kvs a))"
  using init
proof (induction kvs arbitrary: a)
  case (Cons kv kvs)
  obtain k v where kv: "kv = (k, v)" by fastforce
  show ?case
  proof (cases "find_field fs (unquote k)")
    case (Some d)
    obtain a' e where d: "d v a = (a', e)" by fastforce
    with step [OF find_field_in [OF Some] Cons.prems, of v] have "P a'" by simp
    from Cons.IH [OF this] show ?thesis
      using kv Some d by (simp add: case_prod_unfold Let_def)
  qed (use kv Cons in simp)
qed simp

lemma dec_struct_invariant:
  assumes "\<And>d v a. d \<in> snd ` set fs \<Longrightarrow> P a \<Longrightarrow> P (fst (d v a))" and "P a"
  shows "P (fst (dec_struct fs v a))"
  using assms dec_members_invariant [of fs P a] by (cases v) (simp_all add: dec_struct_def)

lemma dec_Client_fresh: "fresh_Client c \<Longrightarrow> fresh_Client (fst (dec_Client v c))"
  unfolding dec_Client_def
  by (rule dec_struct_invariant)
    (auto simp: fields_Client_def field_def fresh_Client_def case_prod_unfold Let_def)

lemma NewClient_fresh: "fresh_Client (fst (NewClient s))"
proof -
  have zero: "fresh_Client zero_Client" by (simp add: fresh_Client_def zero_Client_def)
  then have "fresh_Client (fst (unmarshal dec_Client s zero_Client))"
    using dec_Client_fresh [OF zero]
    by (auto simp: unmarshal_def case_prod_unfold Let_def split: option.splits)
  then show ?thesis
    by (auto simp: NewClient_def fresh_Client_def case_prod_unfold Let_def split: option.splits)
qed

lemma NewClient_ok_mutex: "NewClient s = (c, None) \<Longrightarrow> C_heartBeatsMutex c"
  by (auto simp: NewClient_def split: prod.splits option.splits)

text \<open>The exported fields of a client, as JSON, and the client made from them.\<close>

definition client_json :: "string \<Rightarrow> string \<Rightarrow> string \<Rightarrow> string \<Rightarrow> string" where
  "client_json token team_id provider namespace = enc_object
     [(''token'', quote_string token), (''team_id'', quote_string team_id),
      (''provider'', quote_string provider), (''namespace'', quote_string namespace)]"

lemma client_json_reads:
  "reads_as (client_json token team_id provider namespace)
     (JObj (client_json token team_id provider namespace)
        [(enc_body ''token'', val_string token), (enc_body ''team_id'', val_string team_id),
         (enc_body ''provider'', val_string provider), (enc_body ''namespace'', val_string namespace)])"
  unfolding client_json_def
  by (rule reads_object) (simp add: val_string_def reads_string)

lemma NewClient_client_json:
  assumes "valid_utf8 token" "valid_utf8 team_id" "valid_utf8 provider" "valid_utf8 namespace"
  shows "NewClient (client_json token team_id provider namespace) =
    (zero_Client\<lparr>C_Token := token, C_TeamId := team_id, C_Provider := provider,
       C_Namespace := namespace, C_heartBeatsMutex := True\<rparr>, None)"
  using assms
  by (simp add: NewClient_def unmarshal_def parse_json_reads [OF client_json_reads] dec_Client_def
      dec_struct_def fields_Client_def struct_reads val_string_def dec_string_def zero_Client_def)

text \<open>
  The registry key tells two teams apart when neither namespace contains the separator; it
  does not in general.
\<close>

lemma split_at_separator:
  assumes "a @ x # b = c @ x # d" and "x \<notin> set a" and "x \<notin> set c"
  shows "a = c \<and> b = d"
  using assms
proof (induction a arbitrary: c)
  case Nil
  then show ?case by (cases c) auto
next
  case (Cons y a)
  then show ?case by (cases c) auto
qed

lemma registry_key_inject:
  assumes "CHR ''-'' \<notin> set n1" "CHR ''-'' \<notin> set n2" "CHR ''-'' \<notin> set t1" "CHR ''-'' \<notin> set t2"
  shows "registry_key n1 t1 = registry_key n2 t2 \<longleftrightarrow> n1 = n2 \<and> t1 = t2"
  using assms split_at_separator [of n1 "CHR ''-''" t1 n2 t2]
  by (auto simp: registry_key_def)

end
