(* ===== verification/Outside.thy ===== *)
theory Outside
  imports Prelude
begin

text \<open>
  The world outside the process: the Redis server, Slack's HTTP API, the websocket peers and
  the clock. None of them is code of the repository, so each is a parameter: a state type \<open>'w\<close>
  and a record of the operations the program performs on it. What a theorem needs of them is
  a named hypothesis, such as \<open>redis_lawful\<close> below, which states what Redis documents.
\<close>

section \<open>Redis\<close>

datatype reply = RInt int | RStr string | RNil | RErr string | RSlice "reply list"

text \<open>
  One attempt to send a command over a pooled connection: no connection could be had, the
  connection failed while writing or reading (the server may have run the command), the
  server replied, or the client panicked in between. It can, and those that look on in detail show it: the
  login of a new connection calls the nil pool when it is cut (conn.go, cut_login_panics of RedisRuns), and Remove panics on a
  connection that the list no longer has (pool.go, PoolRace).
\<close>

datatype outcome = NoConn | NetError | Crashed | Reply reply

section \<open>HTTP\<close>

record http_request =
  req_url :: string
  req_body :: string
  req_headers :: "(string \<times> string) list"

text \<open>\<open>resp_body\<close> is None when reading the body fails.\<close>

record http_response =
  resp_status :: int
  resp_header :: "string \<Rightarrow> string"
  resp_body :: "string option"

text \<open>\<open>http.Client.Do\<close>: an error, with a response when a redirect was refused, or a response.\<close>

datatype http_result = HttpError "http_response option" | HttpOk http_response

section \<open>The operations\<close>

record 'w svc =
  redis_exec :: "'w \<Rightarrow> string list \<Rightarrow> outcome \<times> 'w"
  http_do :: "'w \<Rightarrow> http_request \<Rightarrow> http_result \<times> 'w"
  ws_dial :: "'w \<Rightarrow> string \<Rightarrow> nat option \<times> 'w"      \<comment> \<open>None: the dial fails\<close>
  ws_close :: "'w \<Rightarrow> nat \<Rightarrow> bool \<times> 'w"             \<comment> \<open>True: Close returns an error\<close>
  ws_write :: "'w \<Rightarrow> nat \<Rightarrow> string \<Rightarrow> 'w"
  new_ticker :: "'w \<Rightarrow> nat \<times> 'w"
  stop_ticker :: "'w \<Rightarrow> nat \<Rightarrow> 'w"
  now_nanos :: "'w \<Rightarrow> int \<times> 'w"                     \<comment> \<open>time.Now().UnixNano()\<close>
  rand_draw :: "'w \<Rightarrow> int \<times> 'w"                     \<comment> \<open>the k of rand.Float64() = k / 2^63\<close>
  sleep :: "'w \<Rightarrow> int \<Rightarrow> 'w"                         \<comment> \<open>time.Sleep, in nanoseconds\<close>

section \<open>What Redis documents\<close>

text \<open>
  \<open>hash w k f\<close> is field \<open>f\<close> of the hash \<open>k\<close> and \<open>queue w k\<close> the list \<open>k\<close> on the server. HSETNX sets
  a field only when it is absent and replies 1 or 0; RPUSH appends and replies the new length;
  HSET sets; HGET and the commands that only read change nothing. After an error reply, or
  without a connection, nothing has changed; after a connection failure or a panic of the client the command
  may or may not have run.
\<close>

type_synonym hashes = "string \<Rightarrow> string \<Rightarrow> string option"
type_synonym queues = "string \<Rightarrow> string list"

definition hset :: "hashes \<Rightarrow> string \<Rightarrow> string \<Rightarrow> string \<Rightarrow> hashes" where
  "hset h k f v = h(k := (h k)(f \<mapsto> v))"

definition hsetnx :: "hashes \<Rightarrow> string \<Rightarrow> string \<Rightarrow> string \<Rightarrow> hashes" where
  "hsetnx h k f v = (if h k f = None then hset h k f v else h)"

definition push :: "queues \<Rightarrow> string \<Rightarrow> string \<Rightarrow> queues" where
  "push q k v = q(k := q k @ [v])"

definition pushes :: "queues \<Rightarrow> string \<Rightarrow> string \<Rightarrow> nat \<Rightarrow> queues" where
  "pushes q k v m = q(k := q k @ replicate m v)"

text \<open>
  The outcome of a command whose effect takes state \<open>st\<close> to \<open>st'\<close> and whose reply is \<open>rep\<close>.
\<close>

definition runs :: "'s \<Rightarrow> 's \<Rightarrow> reply \<Rightarrow> outcome \<Rightarrow> 's \<Rightarrow> bool" where
  "runs st st' rep out st'' \<longleftrightarrow>
     (case out of
        NoConn \<Rightarrow> st'' = st
      | NetError \<Rightarrow> st'' = st \<or> st'' = st'
      | Crashed \<Rightarrow> st'' = st \<or> st'' = st'
      | Reply (RErr e) \<Rightarrow> st'' = st
      | Reply r \<Rightarrow> r = rep \<and> st'' = st')"

definition redis_lawful :: "'w svc \<Rightarrow> ('w \<Rightarrow> hashes) \<Rightarrow> ('w \<Rightarrow> queues) \<Rightarrow> bool" where
  "redis_lawful svc hash queue \<longleftrightarrow>
     (\<forall>w k f v out w'. redis_exec svc w [''HSETNX'', k, f, v] = (out, w') \<longrightarrow>
        queue w' = queue w \<and>
        runs (hash w) (hsetnx (hash w) k f v) (RInt (if hash w k f = None then 1 else 0)) out (hash w')) \<and>
     (\<forall>w k v out w'. redis_exec svc w [''RPUSH'', k, v] = (out, w') \<longrightarrow>
        hash w' = hash w \<and>
        runs (queue w) (push (queue w) k v) (RInt (int (length (queue w k) + 1))) out (queue w')) \<and>
     (\<forall>w out w'. redis_exec svc w [''UNWATCH''] = (out, w') \<longrightarrow>
        runs (hash w, queue w) (hash w, queue w) (RStr ''OK'') out (hash w', queue w'))"

text \<open>A server that is up and whose connections do not fail: every command is replied to.\<close>

definition redis_up :: "'w svc \<Rightarrow> bool" where
  "redis_up svc \<longleftrightarrow> (\<forall>w args. \<exists>r. fst (redis_exec svc w args) = Reply r \<and> (\<forall>e. r \<noteq> RErr e))"

text \<open>A client that does not panic.\<close>

definition redis_sound :: "'w svc \<Rightarrow> bool" where
  "redis_sound svc \<longleftrightarrow> (\<forall>w args. fst (redis_exec svc w args) \<noteq> Crashed)"

lemma redis_up_sound: "redis_up svc \<Longrightarrow> redis_sound svc"
  unfolding redis_up_def redis_sound_def by (metis outcome.distinct(11))

text \<open>Reading the clock leaves the server's state alone.\<close>

definition clock_frame :: "'w svc \<Rightarrow> ('w \<Rightarrow> hashes) \<Rightarrow> ('w \<Rightarrow> queues) \<Rightarrow> bool" where
  "clock_frame svc hash queue \<longleftrightarrow>
     (\<forall>w. hash (snd (now_nanos svc w)) = hash w \<and> queue (snd (now_nanos svc w)) = queue w)"

lemma hsetnx_same [simp]: "h k f \<noteq> None \<Longrightarrow> hsetnx h k f v = h"
  by (auto simp: hsetnx_def)

lemma hsetnx_taken [simp]: "hsetnx h k f v k f \<noteq> None"
  by (simp add: hsetnx_def hset_def)

lemma hsetnx_other [simp]: "(k', f') \<noteq> (k, f) \<Longrightarrow> hsetnx h k f v k' f' = h k' f'"
  by (auto simp: hsetnx_def hset_def)

lemma hsetnx_idem [simp]: "hsetnx (hsetnx h k f v) k f u = hsetnx h k f v"
  by simp

lemma push_same [simp]: "push q k v k = q k @ [v]"
  by (simp add: push_def)

lemma push_other [simp]: "k' \<noteq> k \<Longrightarrow> push q k v k' = q k'"
  by (simp add: push_def)

lemma pushes_0 [simp]: "pushes q k v 0 = q"
  by (simp add: pushes_def)

lemma push_pushes: "push q k v = pushes q k v 1"
  by (simp add: push_def pushes_def)

lemma pushes_add [simp]: "pushes (pushes q k v m) k v n = pushes q k v (m + n)"
  by (simp add: pushes_def replicate_add)

lemma pushes_same [simp]: "pushes q k v m k = q k @ replicate m v"
  by (simp add: pushes_def)

lemma pushes_other [simp]: "k' \<noteq> k \<Longrightarrow> pushes q k v m k' = q k'"
  by (simp add: pushes_def)

lemma redis_lawful_hsetnx:
  "redis_lawful svc hash queue \<Longrightarrow> redis_exec svc w [''HSETNX'', k, f, v] = (out, w') \<Longrightarrow>
     queue w' = queue w \<and>
     runs (hash w) (hsetnx (hash w) k f v) (RInt (if hash w k f = None then 1 else 0)) out (hash w')"
  by (simp add: redis_lawful_def)

lemma redis_lawful_rpush:
  "redis_lawful svc hash queue \<Longrightarrow> redis_exec svc w [''RPUSH'', k, v] = (out, w') \<Longrightarrow>
     hash w' = hash w \<and>
     runs (queue w) (push (queue w) k v) (RInt (int (length (queue w k) + 1))) out (queue w')"
  by (simp add: redis_lawful_def)

lemma redis_lawful_unwatch:
  assumes "redis_lawful svc hash queue" and "redis_exec svc w [''UNWATCH''] = (out, w')"
  shows "hash w' = hash w \<and> queue w' = queue w \<and> (\<forall>r. out = Reply r \<longrightarrow> r = RStr ''OK'' \<or> (\<exists>e. r = RErr e))"
proof -
  have "runs (hash w, queue w) (hash w, queue w) (RStr ''OK'') out (hash w', queue w')"
    using assms by (simp add: redis_lawful_def)
  then show ?thesis by (auto simp: runs_def split: outcome.splits reply.splits)
qed

lemma redis_upE:
  assumes "redis_up svc" and "redis_exec svc w args = (out, w')"
  obtains r where "out = Reply r" "\<And>e. r \<noteq> RErr e"
  using assms by (metis redis_up_def fst_conv)

end
