(* ===== verification/RedisV3.thy ===== *)
theory RedisV3
  imports Outside
begin

text \<open>
  The part of the vendored redis.v3 client that the program uses: one command with its retries
  (\<open>baseClient.process\<close>, redis.go), the typed results of the commands (command.go, parser.go)
  and the commands themselves (commands.go, multi.go). \<open>None\<close> as a result is a run-time panic: a
  failed type assertion on a reply of the wrong kind, the call of the nil slice parser, or a panic of an attempt
  itself (\<open>Crashed\<close>: the connection, its login or the pool).
\<close>

section \<open>Processing a command\<close>

text \<open>redisclient.Client sets MaxRetries to 5, so a command is attempted at most six times.\<close>

definition MaxRetries :: nat where "MaxRetries = 5"

fun process :: "'w svc \<Rightarrow> nat \<Rightarrow> string list \<Rightarrow> 'w \<Rightarrow> outcome \<times> 'w" where
  "process svc 0 args w = redis_exec svc w args"
| "process svc (Suc n) args w =
     (case redis_exec svc w args of
        (NetError, w') \<Rightarrow> process svc n args w'
      | (out, w') \<Rightarrow> (out, w'))"

section \<open>Typed results\<close>

definition bool_val :: "outcome \<Rightarrow> bool option" where
  "bool_val out =
     (case out of
        Reply (RInt n) \<Rightarrow> Some (n = 1)
      | Reply (RStr s) \<Rightarrow> Some (s = ''OK'')
      | Reply (RSlice _) \<Rightarrow> None
      | Crashed \<Rightarrow> None
      | _ \<Rightarrow> Some False)"

definition int_val :: "outcome \<Rightarrow> int option" where
  "int_val out =
     (case out of
        Reply (RInt n) \<Rightarrow> Some n
      | Reply (RStr _) \<Rightarrow> None
      | Reply (RSlice _) \<Rightarrow> None
      | Crashed \<Rightarrow> None
      | _ \<Rightarrow> Some 0)"

text \<open>The value of a StringCmd or StatusCmd, and whether its error is set.\<close>

definition string_result :: "outcome \<Rightarrow> (string \<times> bool) option" where
  "string_result out =
     (case out of
        Reply (RStr s) \<Rightarrow> Some (s, False)
      | Reply (RInt _) \<Rightarrow> None
      | Reply (RSlice _) \<Rightarrow> None
      | Crashed \<Rightarrow> None
      | _ \<Rightarrow> Some ([], True))"

text \<open>A StringSliceCmd: every element a string, else the error is set and the slice nil.\<close>

fun string_elems :: "reply list \<Rightarrow> string list option option" where
  "string_elems [] = Some (Some [])"
| "string_elems (RStr s # rs) = map_option (map_option ((#) s)) (string_elems rs)"
| "string_elems (RSlice _ # rs) = None"
| "string_elems (r # rs) = Some None"

definition slice_val :: "outcome \<Rightarrow> string list option" where
  "slice_val out =
     (case out of
        Reply (RSlice rs) \<Rightarrow>
          (case string_elems rs of
             None \<Rightarrow> None
           | Some None \<Rightarrow> Some []
           | Some (Some ss) \<Rightarrow> Some ss)
      | Reply (RStr _) \<Rightarrow> None
      | Reply (RInt _) \<Rightarrow> None
      | Crashed \<Rightarrow> None
      | _ \<Rightarrow> Some [])"

section \<open>Commands\<close>

definition with_val :: "(outcome \<Rightarrow> 'a option) \<Rightarrow> outcome \<times> 'w \<Rightarrow> ('a \<times> 'w) option" where
  "with_val val r = (case r of (out, w) \<Rightarrow> map_option (\<lambda>v. (v, w)) (val out))"

definition HSetNX :: "'w svc \<Rightarrow> string \<Rightarrow> string \<Rightarrow> string \<Rightarrow> 'w \<Rightarrow> (bool \<times> 'w) option" where
  "HSetNX svc key field value w =
     with_val bool_val (process svc MaxRetries [''HSETNX'', key, field, value] w)"

definition HSet :: "'w svc \<Rightarrow> string \<Rightarrow> string \<Rightarrow> string \<Rightarrow> 'w \<Rightarrow> (bool \<times> 'w) option" where
  "HSet svc key field value w =
     with_val bool_val (process svc MaxRetries [''HSET'', key, field, value] w)"

definition HGet :: "'w svc \<Rightarrow> string \<Rightarrow> string \<Rightarrow> 'w \<Rightarrow> (string \<times> 'w) option" where
  "HGet svc key field w =
     with_val (\<lambda>out. map_option fst (string_result out))
       (process svc MaxRetries [''HGET'', key, field] w)"

definition HGetAll :: "'w svc \<Rightarrow> string \<Rightarrow> 'w \<Rightarrow> (string list \<times> 'w) option" where
  "HGetAll svc key w = with_val slice_val (process svc MaxRetries [''HGETALL'', key] w)"

definition RPush :: "'w svc \<Rightarrow> string \<Rightarrow> string \<Rightarrow> 'w \<Rightarrow> (int \<times> 'w) option" where
  "RPush svc key value w = with_val int_val (process svc MaxRetries [''RPUSH'', key, value] w)"

definition Ping :: "'w svc \<Rightarrow> 'w \<Rightarrow> ((string \<times> bool) \<times> 'w) option" where
  "Ping svc w = with_val string_result (process svc MaxRetries [''PING''] w)"

text \<open>
  \<open>Multi\<close> without \<open>Exec\<close>: its commands go straight to the server, as the client's own do, and
  \<open>Close\<close> sends an UNWATCH and gives the connection back.
\<close>

definition Multi_Close :: "'w svc \<Rightarrow> 'w \<Rightarrow> 'w option" where
  "Multi_Close svc w =
     map_option snd (with_val string_result (process svc MaxRetries [''UNWATCH''] w))"

section \<open>A command on a lawful server\<close>

lemma process_sound: "redis_sound svc \<Longrightarrow> fst (process svc n args w) \<noteq> Crashed"
proof (induction n arbitrary: w)
  case (Suc n)
  then have "fst (redis_exec svc w args) \<noteq> Crashed" by (simp add: redis_sound_def)
  with Suc show ?case by (cases "redis_exec svc w args"; cases "fst (redis_exec svc w args)") simp_all
qed (simp add: redis_sound_def)

text \<open>With a server that is up, the first attempt is the only one.\<close>

lemma process_up: "redis_up svc \<Longrightarrow> process svc n args w = redis_exec svc w args"
proof (cases "redis_exec svc w args")
  case (Pair out w')
  assume "redis_up svc"
  then obtain r where "out = Reply r" using Pair by (rule redis_upE)
  then show ?thesis using Pair by (cases n) simp_all
qed

text \<open>
  HSETNX through the retries: whatever fails, the result is true only when the field was
  absent and is set now, and a field that is present stays as it is.
\<close>

lemma process_hsetnx:
  assumes law: "redis_lawful svc hash queue"
    and p: "process svc n [''HSETNX'', k, f, v] w = (out, w')"
  shows "queue w' = queue w \<and> (hash w' = hash w \<or> hash w' = hsetnx (hash w) k f v) \<and>
    (bool_val out = Some True \<longrightarrow> hash w k f = None \<and> hash w' = hset (hash w) k f v) \<and>
    (bool_val out = None \<longrightarrow> out = Crashed)"
  using p
proof (induction n arbitrary: w)
  case 0
  then show ?case
    using redis_lawful_hsetnx [OF law, of w k f v out w']
    by (auto simp: runs_def bool_val_def hsetnx_def split: outcome.splits reply.splits if_splits)
next
  case (Suc n)
  obtain o1 w1 where e: "redis_exec svc w [''HSETNX'', k, f, v] = (o1, w1)" by fastforce
  note first = redis_lawful_hsetnx [OF law e]
  show ?case
  proof (cases "o1 = NetError")
    case True
    then have "process svc n [''HSETNX'', k, f, v] w1 = (out, w')" using Suc.prems e by simp
    from Suc.IH [OF this] first True show ?thesis
      by (auto simp: runs_def hsetnx_def hset_def)
  next
    case False
    then have "out = o1" "w' = w1" using Suc.prems e by (auto split: outcome.splits)
    with first False show ?thesis
      by (auto simp: runs_def bool_val_def hsetnx_def split: outcome.splits reply.splits if_splits)
  qed
qed

lemma HSetNX_lawful:
  assumes "redis_lawful svc hash queue"
  obtains (panics) "HSetNX svc k f v w = None" "\<not> redis_sound svc"
  | (returns) b w' where "HSetNX svc k f v w = Some (b, w')" "queue w' = queue w"
    "hash w' = hash w \<or> hash w' = hsetnx (hash w) k f v"
    "b \<Longrightarrow> hash w k f = None \<and> hash w' = hset (hash w) k f v"
proof -
  obtain out w' where out: "process svc MaxRetries [''HSETNX'', k, f, v] w = (out, w')" by fastforce
  note law = process_hsetnx [OF assms out]
  show thesis
  proof (cases "bool_val out")
    case None
    with law out process_sound [of svc MaxRetries "[''HSETNX'', k, f, v]" w] show ?thesis
      by (intro panics) (auto simp: HSetNX_def with_val_def)
  next
    case (Some b)
    with law out show ?thesis by (intro returns [of b w']) (auto simp: HSetNX_def with_val_def)
  qed
qed

lemma HSetNX_up:
  assumes "redis_lawful svc hash queue" and "redis_up svc"
  obtains w' where "HSetNX svc k f v w = Some (hash w k f = None, w')" "queue w' = queue w"
    "hash w' = hsetnx (hash w) k f v"
proof -
  obtain out w' where e: "redis_exec svc w [''HSETNX'', k, f, v] = (out, w')" by fastforce
  obtain r where "out = Reply r" "\<And>e. r \<noteq> RErr e" using redis_upE [OF assms(2) e] by blast
  with redis_lawful_hsetnx [OF assms(1) e] e that show ?thesis
    by (cases r) (auto simp: HSetNX_def with_val_def process_up [OF assms(2)] runs_def bool_val_def)
qed

text \<open>
  RPUSH through the retries appends the value at most once for every attempt: a retry after a
  connection failure can append it again.
\<close>

lemma process_rpush:
  assumes law: "redis_lawful svc hash queue"
    and p: "process svc n [''RPUSH'', k, v] w = (out, w')"
  shows "hash w' = hash w \<and> (int_val out = None \<longrightarrow> out = Crashed) \<and>
    (\<exists>m \<le> Suc n. queue w' = pushes (queue w) k v m)"
  using p
proof (induction n arbitrary: w)
  case 0
  then have "redis_exec svc w [''RPUSH'', k, v] = (out, w')" by simp
  from redis_lawful_rpush [OF law this]
  have "hash w' = hash w" "int_val out = None \<longrightarrow> out = Crashed" "queue w' = queue w \<or> queue w' = push (queue w) k v"
    by (auto simp: runs_def int_val_def split: outcome.splits reply.splits)
  then show ?case
    by (metis One_nat_def le0 le_refl push_pushes pushes_0)
next
  case (Suc n)
  obtain o1 w1 where e: "redis_exec svc w [''RPUSH'', k, v] = (o1, w1)" by fastforce
  note first = redis_lawful_rpush [OF law e]
  have "queue w1 = queue w \<or> queue w1 = push (queue w) k v"
    using first by (auto simp: runs_def split: outcome.splits reply.splits)
  then obtain m1 where m1: "m1 \<le> 1" "queue w1 = pushes (queue w) k v m1"
    by (metis le0 le_refl push_pushes pushes_0)
  show ?case
  proof (cases "o1 = NetError")
    case True
    then have "process svc n [''RPUSH'', k, v] w1 = (out, w')" using Suc.prems e by simp
    from Suc.IH [OF this] obtain m2 where m2: "hash w' = hash w1" "int_val out = None \<longrightarrow> out = Crashed" "m2 \<le> Suc n"
        "queue w' = pushes (queue w1) k v m2" by auto
    then have "queue w' = pushes (queue w) k v (m1 + m2)"
      using m1 by simp
    with m1 m2 first show ?thesis by (intro conjI exI [of _ "m1 + m2"]) auto
  next
    case False
    then have "out = o1" "w' = w1" using Suc.prems e by (auto split: outcome.splits)
    with first m1 False show ?thesis
      by (auto simp: runs_def int_val_def split: outcome.splits reply.splits intro!: exI [of _ m1])
  qed
qed

lemma RPush_lawful:
  assumes "redis_lawful svc hash queue"
  obtains (panics) "RPush svc k v w = None" "\<not> redis_sound svc"
  | (returns) n m w' where "RPush svc k v w = Some (n, w')" "hash w' = hash w" "m \<le> Suc MaxRetries"
    "queue w' = pushes (queue w) k v m"
proof -
  obtain out w' where out: "process svc MaxRetries [''RPUSH'', k, v] w = (out, w')" by fastforce
  note law = process_rpush [OF assms out]
  show thesis
  proof (cases "int_val out")
    case None
    with law out process_sound [of svc MaxRetries "[''RPUSH'', k, v]" w] show ?thesis
      by (intro panics) (auto simp: RPush_def with_val_def)
  next
    case (Some n)
    from law obtain m where "m \<le> Suc MaxRetries" "queue w' = pushes (queue w) k v m" by blast
    with Some law out show ?thesis by (intro returns [of n w' m]) (auto simp: RPush_def with_val_def)
  qed
qed

lemma RPush_up:
  assumes "redis_lawful svc hash queue" and "redis_up svc"
  obtains w' where "RPush svc k v w = Some (int (length (queue w k) + 1), w')" "hash w' = hash w"
    "queue w' = push (queue w) k v"
proof -
  obtain out w' where e: "redis_exec svc w [''RPUSH'', k, v] = (out, w')" by fastforce
  obtain r where "out = Reply r" "\<And>e. r \<noteq> RErr e" using redis_upE [OF assms(2) e] by blast
  with redis_lawful_rpush [OF assms(1) e] e that show ?thesis
    by (cases r) (auto simp: RPush_def with_val_def process_up [OF assms(2)] runs_def int_val_def)
qed

lemma process_unwatch:
  assumes law: "redis_lawful svc hash queue"
    and p: "process svc n [''UNWATCH''] w = (out, w')"
  shows "hash w' = hash w \<and> queue w' = queue w \<and> (string_result out = None \<longrightarrow> out = Crashed)"
  using p
proof (induction n arbitrary: w)
  case 0
  then show ?case
    using redis_lawful_unwatch [OF law, of w out w']
    by (auto simp: string_result_def split: outcome.splits reply.splits)
next
  case (Suc n)
  obtain o1 w1 where e: "redis_exec svc w [''UNWATCH''] = (o1, w1)" by fastforce
  with Suc redis_lawful_unwatch [OF law e] show ?case
    by (auto simp: string_result_def split: outcome.splits reply.splits)
qed

lemma Multi_Close_lawful:
  assumes "redis_lawful svc hash queue"
  obtains (panics) "Multi_Close svc w = None" "\<not> redis_sound svc"
  | (returns) w' where "Multi_Close svc w = Some w'" "hash w' = hash w" "queue w' = queue w"
proof -
  obtain out w' where out: "process svc MaxRetries [''UNWATCH''] w = (out, w')" by fastforce
  note law = process_unwatch [OF assms out]
  show thesis
  proof (cases "string_result out")
    case None
    with law out process_sound [of svc MaxRetries "[''UNWATCH'']" w] show ?thesis
      by (intro panics) (auto simp: Multi_Close_def with_val_def)
  next
    case (Some r)
    with law out show ?thesis by (intro returns [of w']) (auto simp: Multi_Close_def with_val_def)
  qed
qed

end
