(* ===== verification/Server.thy ===== *)
theory Server
  imports Outside
begin

text \<open>
  Concrete instances of the outside world: a Redis server that keeps hashes and lists, a clock
  that stands still, HTTP answers taken from a script and websockets numbered in the order they
  are opened. They show that the hypotheses about the world can hold, and let the operations be
  evaluated on concrete inputs. \<open>flaky\<close> is the same server behind a connection that loses the
  reply of a number of RPUSH commands.
\<close>

record world =
  W_hash :: hashes
  W_queue :: queues
  W_all :: "string list"              \<comment> \<open>the reply to HGETALL, fields and values in turn\<close>
  W_time :: int
  W_http :: "http_result list"        \<comment> \<open>the answers to come\<close>
  W_next :: nat                       \<comment> \<open>the number of the next connection or ticker\<close>
  W_sent :: "(nat \<times> string) list"     \<comment> \<open>what was written to which connection\<close>
  W_closed :: "nat list"
  W_lost :: nat                       \<comment> \<open>replies still to be lost by \<open>flaky\<close>\<close>

definition world0 :: world where
  "world0 = \<lparr>W_hash = (\<lambda>_ _. None), W_queue = (\<lambda>_. []), W_all = [], W_time = 0, W_http = [],
     W_next = 0, W_sent = [], W_closed = [], W_lost = 0\<rparr>"

definition world_exec :: "world \<Rightarrow> string list \<Rightarrow> outcome \<times> world" where
  "world_exec w args =
     (case args of
        [c] \<Rightarrow> (Reply (RStr (if c = ''PING'' then ''PONG'' else ''OK'')), w)
      | [c, k] \<Rightarrow> (Reply (RSlice (List.map RStr (W_all w))), w)
      | [c, k, v] \<Rightarrow>
          if c = ''RPUSH'' then
            (Reply (RInt (int (length (W_queue w k) + 1))), w\<lparr>W_queue := push (W_queue w) k v\<rparr>)
          else (Reply (case W_hash w k v of None \<Rightarrow> RNil | Some s \<Rightarrow> RStr s), w)
      | [c, k, f, v] \<Rightarrow>
          if c = ''HSETNX'' then
            (Reply (RInt (if W_hash w k f = None then 1 else 0)), w\<lparr>W_hash := hsetnx (W_hash w) k f v\<rparr>)
          else
            (Reply (RInt (if W_hash w k f = None then 1 else 0)), w\<lparr>W_hash := hset (W_hash w) k f v\<rparr>)
      | _ \<Rightarrow> (Reply RNil, w))"

definition server :: "world svc" where
  "server = \<lparr>redis_exec = world_exec,
     http_do = (\<lambda>w _. case W_http w of [] \<Rightarrow> (HttpError None, w) | r # rs \<Rightarrow> (r, w\<lparr>W_http := rs\<rparr>)),
     ws_dial = (\<lambda>w _. (Some (W_next w), w\<lparr>W_next := Suc (W_next w)\<rparr>)),
     ws_close = (\<lambda>w n. (n \<in> set (W_closed w), w\<lparr>W_closed := n # W_closed w\<rparr>)),
     ws_write = (\<lambda>w n s. w\<lparr>W_sent := W_sent w @ [(n, s)]\<rparr>),
     new_ticker = (\<lambda>w. (W_next w, w\<lparr>W_next := Suc (W_next w)\<rparr>)),
     stop_ticker = (\<lambda>w _. w),
     now_nanos = (\<lambda>w. (W_time w, w)),
     rand_draw = (\<lambda>w. (0, w)),
     sleep = (\<lambda>w d. w\<lparr>W_time := W_time w + d\<rparr>)\<rparr>"

definition flaky :: "world svc" where
  "flaky = server\<lparr>redis_exec := (\<lambda>w args.
     case args of
       [c, k, v] \<Rightarrow>
         if c = ''RPUSH'' \<and> 0 < W_lost w then
           (NetError, w\<lparr>W_queue := push (W_queue w) k v, W_lost := W_lost w - 1\<rparr>)
         else world_exec w args
     | _ \<Rightarrow> world_exec w args)\<rparr>"

lemma world_simps [simp]:
  "world_exec w [''PING''] = (Reply (RStr ''PONG''), w)"
  "world_exec w [''UNWATCH''] = (Reply (RStr ''OK''), w)"
  "world_exec w [''HGETALL'', k] = (Reply (RSlice (List.map RStr (W_all w))), w)"
  "world_exec w [''RPUSH'', k, v] =
     (Reply (RInt (int (length (W_queue w k) + 1))), w\<lparr>W_queue := push (W_queue w) k v\<rparr>)"
  "world_exec w [''HGET'', k, v] = (Reply (case W_hash w k v of None \<Rightarrow> RNil | Some s \<Rightarrow> RStr s), w)"
  "world_exec w [''HSETNX'', k, f, v] =
     (Reply (RInt (if W_hash w k f = None then 1 else 0)), w\<lparr>W_hash := hsetnx (W_hash w) k f v\<rparr>)"
  "world_exec w [''HSET'', k, f, v] =
     (Reply (RInt (if W_hash w k f = None then 1 else 0)), w\<lparr>W_hash := hset (W_hash w) k f v\<rparr>)"
  by (simp_all add: world_exec_def)

lemma server_simps [simp]:
  "redis_exec server = world_exec"
  "http_do server w rq = (case W_http w of [] \<Rightarrow> (HttpError None, w) | r # rs \<Rightarrow> (r, w\<lparr>W_http := rs\<rparr>))"
  "ws_dial server w u = (Some (W_next w), w\<lparr>W_next := Suc (W_next w)\<rparr>)"
  "ws_close server w n = (n \<in> set (W_closed w), w\<lparr>W_closed := n # W_closed w\<rparr>)"
  "ws_write server w n s = w\<lparr>W_sent := W_sent w @ [(n, s)]\<rparr>"
  "new_ticker server w = (W_next w, w\<lparr>W_next := Suc (W_next w)\<rparr>)"
  "stop_ticker server w n = w"
  "now_nanos server w = (W_time w, w)"
  "rand_draw server w = (0, w)"
  "sleep server w d = w\<lparr>W_time := W_time w + d\<rparr>"
  by (simp_all add: server_def)

lemma server_lawful [simp]: "redis_lawful server W_hash W_queue"
  by (auto simp: redis_lawful_def runs_def)

lemma server_up [simp]: "redis_up server"
  by (auto simp: redis_up_def world_exec_def split: list.splits option.splits)

lemma server_clock [simp]: "clock_frame server W_hash W_queue"
  by (simp add: clock_frame_def)

lemma flaky_lawful [simp]: "redis_lawful flaky W_hash W_queue"
  by (auto simp: redis_lawful_def runs_def flaky_def split: if_splits)

lemma flaky_clock [simp]: "clock_frame flaky W_hash W_queue"
  by (simp add: clock_frame_def flaky_def)

end
