(* ===== verification/Events.thy ===== *)
theory Events
  imports ClientBase RedisV3 Server
begin

text \<open>
  Events for the owner of the bot (slack/client.go): \<open>sendEvent\<close> with its \<open>send\<close> closure, which
  deduplicates through HSETNX before it pushes, and \<open>handleMessage\<close>, one definition per case
  of its switch. The lemmas separate the decision (which event, if any, and how the client's
  tables change) from the effects on Redis.
\<close>

section \<open>sendEvent\<close>

definition bot_message_key :: "Event \<Rightarrow> string" where
  "bot_message_key e = ''bot_message:'' @ Ev_ChannelUid e @ CHR '':'' # Ev_EventTimestamp e"

definition send :: "'w svc \<Rightarrow> env \<Rightarrow> Event \<Rightarrow> string \<Rightarrow> 'w \<Rightarrow> (client_error option \<times> 'w) option" where
  "send svc env event eventJson w = do {
     (shouldSend, w1) \<leftarrow> HSetNX svc (env ''RELAX_MUTEX_KEY'') (bot_message_key event) ''ok'' w;
     if shouldSend then do {
       (n, w2) \<leftarrow> RPush svc (env ''RELAX_EVENTS_QUEUE'') eventJson w1;
       Some (if n \<noteq> 1 then Some PushError else None, w2)
     } else Some (None, w1)
   }"

definition make_event ::
    "Client \<Rightarrow> Metadata \<Rightarrow> string \<Rightarrow> Message \<Rightarrow> string \<Rightarrow> string \<Rightarrow> string \<Rightarrow> Event" where
  "make_event c d responseType msg text timestamp eventTimestamp =
     \<lparr>Ev_Type = responseType,
      Ev_UserUid = User_Id (Msg_User msg),
      Ev_ChannelUid = Ch_Id (Msg_Channel msg),
      Ev_TeamUid = C_TeamId c,
      Ev_Im = Ch_Im (Msg_Channel msg),
      Ev_Text = text,
      Ev_RelaxBotUid = User_Id (Md_Self d),
      Ev_Timestamp = timestamp,
      Ev_Provider = ''slack'',
      Ev_EventTimestamp = eventTimestamp,
      Ev_Namespace = C_Namespace c,
      Ev_Attachments = Msg_Attachments msg\<rparr>"

text \<open>
  Marshalling an event cannot fail, and the error of \<open>send\<close> is dropped, so the result is nil
  whenever there is one. The nil \<open>data\<close> and the nil \<open>redisClient\<close> of a client that has not been
  started are dereferenced.
\<close>

definition sendEvent :: "'w svc \<Rightarrow> env \<Rightarrow> Client \<Rightarrow> string \<Rightarrow> Message \<Rightarrow> string \<Rightarrow> string \<Rightarrow> string
    \<Rightarrow> 'w \<Rightarrow> (client_error option \<times> 'w) option" where
  "sendEvent svc env c responseType msg text timestamp eventTimestamp w =
     (let (eventTimestamp, w1) =
        (if eventTimestamp = [] then (case now_nanos svc w of (t, w1) \<Rightarrow> (show_int t, w1))
         else (eventTimestamp, w))
      in do {
        d \<leftarrow> C_data c;
        let event = make_event c d responseType msg text timestamp eventTimestamp;
        if C_redisClient c then do {
          (_, w2) \<leftarrow> send svc env event (enc_Event event) w1;
          w3 \<leftarrow> Multi_Close svc w2;
          Some (None, w3)
        } else None
      })"

section \<open>handleMessage\<close>

text \<open>
  Every case gives the client back, with its counter or its tables changed, and drops the
  result of sendEvent.
\<close>

definition event_then :: "Client \<Rightarrow> (client_error option \<times> 'w) option \<Rightarrow> (Client \<times> 'w) option" where
  "event_then c r = map_option (\<lambda>(_, w). (c, w)) r"

definition handle_pong :: "Client \<Rightarrow> Message \<Rightarrow> 'w \<Rightarrow> (Client \<times> 'w) option" where
  "handle_pong c msg w =
     (if Msg_ReplyTo msg = C_TeamId c then map_option (\<lambda>c. (c, w)) (ResetHeartBeatsMissed c)
      else Some (c, w))"

definition with_names :: "Metadata \<Rightarrow> string \<Rightarrow> string \<Rightarrow> Message \<Rightarrow> Message" where
  "with_names d userId channelId msg =
     msg\<lparr>Msg_User := get_user d userId, Msg_Channel := get_channel d channelId\<rparr>"

definition handle_deleted :: "'w svc \<Rightarrow> env \<Rightarrow> Client \<Rightarrow> Message \<Rightarrow> 'w \<Rightarrow> (Client \<times> 'w) option" where
  "handle_deleted svc env c msg w = do {
     d \<leftarrow> C_data c;
     let msg = with_names d (Message_UserId msg) (Message_ChannelId msg) msg;
     event_then c (sendEvent svc env c ''message_deleted'' msg (Msg_Text msg)
       (Msg_DeletedTimestamp msg) (Msg_Timestamp msg) w)
   }"

definition handle_changed :: "'w svc \<Rightarrow> env \<Rightarrow> Client \<Rightarrow> Message \<Rightarrow> 'w \<Rightarrow> (Client \<times> 'w) option" where
  "handle_changed svc env c msg w =
     (case EmbeddedMessage msg of
        None \<Rightarrow> Some (c, w)
      | Some embedded \<Rightarrow> do {
          d \<leftarrow> C_data c;
          let msg = with_names d (Message_UserId embedded) (Message_ChannelId msg) msg;
          event_then c (sendEvent svc env c ''message_edited'' msg (Msg_Text embedded)
            (Msg_Timestamp embedded) (Msg_Timestamp msg) w)
        })"

definition handle_new :: "'w svc \<Rightarrow> env \<Rightarrow> Client \<Rightarrow> Message \<Rightarrow> 'w \<Rightarrow> (Client \<times> 'w) option" where
  "handle_new svc env c msg w = do {
     d \<leftarrow> C_data c;
     if Message_UserId msg \<noteq> User_Id (Md_Self d) \<or>
        (Message_UserId msg = User_Id (Md_Self d) \<and> env ''RELAX_SEND_BOT_REPLIES'' = ''true'')
     then
       let msg = with_names d (Message_UserId msg) (Message_ChannelId msg) msg
       in event_then c (sendEvent svc env c ''message_new'' msg (Msg_Text msg)
            (Msg_Timestamp msg) (Msg_Timestamp msg) w)
     else Some (c, w)
   }"

text \<open>reaction_added and reaction_removed differ in the name of the event (and in what they log).\<close>

definition handle_reaction ::
    "'w svc \<Rightarrow> env \<Rightarrow> Client \<Rightarrow> string \<Rightarrow> Message \<Rightarrow> 'w \<Rightarrow> (Client \<times> 'w) option" where
  "handle_reaction svc env c kind msg w =
     (case EmbeddedItem msg of
        None \<Rightarrow> Some (c, w)
      | Some item \<Rightarrow> do {
          d \<leftarrow> C_data c;
          let msg = with_names d (Message_UserId msg) (Message_ChannelId item) msg;
          event_then c (sendEvent svc env c kind msg (Msg_Reaction msg)
            (Msg_Timestamp item) (Msg_EventTimestamp msg) w)
        })"

text \<open>Writing to a nil map panics.\<close>

definition put_user :: "User \<Rightarrow> Client \<Rightarrow> Client option" where
  "put_user u c = do {
     d \<leftarrow> C_data c;
     us \<leftarrow> Md_Users d;
     Some (c\<lparr>C_data := Some (d\<lparr>Md_Users := Some (us(User_Id u \<mapsto> u))\<rparr>)\<rparr>)
   }"

definition put_channel :: "Channel \<Rightarrow> Client \<Rightarrow> Client option" where
  "put_channel ch c = do {
     d \<leftarrow> C_data c;
     chs \<leftarrow> Md_Channels d;
     Some (c\<lparr>C_data := Some (d\<lparr>Md_Channels := Some (chs(Ch_Id ch \<mapsto> ch))\<rparr>)\<rparr>)
   }"

definition handle_team_join :: "'w svc \<Rightarrow> env \<Rightarrow> Client \<Rightarrow> Message \<Rightarrow> 'w \<Rightarrow> (Client \<times> 'w) option" where
  "handle_team_join svc env c msg w =
     (case unmarshal dec_User (Msg_RawUser msg) (Msg_User msg) of
        (_, Some _) \<Rightarrow> Some (c, w)
      | (u, None) \<Rightarrow> do {
          c \<leftarrow> put_user u c;
          event_then c (sendEvent svc env c ''team_joined'' (msg\<lparr>Msg_User := u\<rparr>) [] [] [] w)
        })"

definition handle_im_created :: "'w svc \<Rightarrow> env \<Rightarrow> Client \<Rightarrow> Message \<Rightarrow> 'w \<Rightarrow> (Client \<times> 'w) option" where
  "handle_im_created svc env c msg w =
     (case unmarshal dec_Channel (Msg_RawChannel msg) (Msg_Channel msg) of
        (_, Some _) \<Rightarrow> Some (c, w)
      | (ch, None) \<Rightarrow>
          let ch = ch\<lparr>Ch_Im := True\<rparr>
          in do {
            c \<leftarrow> put_channel ch c;
            d \<leftarrow> C_data c;
            let msg = msg\<lparr>Msg_Channel := ch, Msg_User := get_user d (Message_UserId msg)\<rparr>;
            event_then c (sendEvent svc env c ''im_created'' msg [] [] [] w)
          })"

text \<open>\<open>(time.Now().Unix()/60)*60\<close>: the minute, in seconds; Go's division rounds towards zero.\<close>

definition minute_of :: "int \<Rightarrow> int" where
  "minute_of nanos = ((nanos div 1000000000) sdiv 60) * 60"

definition joined_timestamp :: "int \<Rightarrow> string \<Rightarrow> string" where
  "joined_timestamp nanos channel =
     ''channel-joined-'' @ show_int (minute_of nanos) @ CHR ''-'' # channel"

definition handle_joined :: "'w svc \<Rightarrow> env \<Rightarrow> Client \<Rightarrow> Message \<Rightarrow> 'w \<Rightarrow> (Client \<times> 'w) option" where
  "handle_joined svc env c msg w =
     (case unmarshal dec_Channel (Msg_RawChannel msg) zero_Channel of
        (_, Some _) \<Rightarrow> Some (c, w)
      | (ch, None) \<Rightarrow>
          let ch = ch\<lparr>Ch_Im := False\<rparr>
          in do {
            c \<leftarrow> put_channel ch c;
            let (t, w1) = now_nanos svc w;
            let timestamp = joined_timestamp t (Ch_Id ch);
            event_then c (sendEvent svc env c ''channel_joined'' (msg\<lparr>Msg_Channel := ch\<rparr>) []
              timestamp timestamp w1)
          })"

definition handleMessage :: "'w svc \<Rightarrow> env \<Rightarrow> Client \<Rightarrow> Message \<Rightarrow> 'w \<Rightarrow> (Client \<times> 'w) option" where
  "handleMessage svc env c msg w =
     (if Msg_Type msg = ''pong'' then handle_pong c msg w
      else if Msg_Type msg = ''message'' then
        (if Msg_Subtype msg = ''message_deleted'' then handle_deleted svc env c msg w
         else if Msg_Subtype msg = ''message_changed'' then handle_changed svc env c msg w
         else if Msg_Subtype msg = [] then handle_new svc env c msg w
         else Some (c, w))
      else if Msg_Type msg = ''reaction_added'' then handle_reaction svc env c ''reaction_added'' msg w
      else if Msg_Type msg = ''reaction_removed'' then handle_reaction svc env c ''reaction_removed'' msg w
      else if Msg_Type msg = ''team_join'' then handle_team_join svc env c msg w
      else if Msg_Type msg = ''im_created'' then handle_im_created svc env c msg w
      else if Msg_Type msg = ''group_joined'' \<or> Msg_Type msg = ''channel_joined''
      then handle_joined svc env c msg w
      else Some (c, w))"

section \<open>What sendEvent does\<close>

definition ready :: "Client \<Rightarrow> bool" where
  "ready c \<longleftrightarrow> C_redisClient c \<and> C_data c \<noteq> None"

text \<open>A client that has logged in and has been started, so that no case of handleMessage panics.\<close>

definition started :: "Client \<Rightarrow> bool" where
  "started c \<longleftrightarrow> C_heartBeatsMutex c \<and> C_redisClient c \<and>
     (\<exists>d us chs. C_data c = Some d \<and> Md_Users d = Some us \<and> Md_Channels d = Some chs)"

lemma started_ready [simp]: "started c \<Longrightarrow> ready c"
  by (auto simp: started_def ready_def)

lemma startedE:
  assumes "started c"
  obtains d us chs where "C_heartBeatsMutex c" "C_redisClient c" "C_data c = Some d"
    "Md_Users d = Some us" "Md_Channels d = Some chs"
  using assms by (auto simp: started_def)

text \<open>The event that sendEvent builds when the clock reads \<open>now\<close>, and its effect on Redis.\<close>

definition event_at :: "int \<Rightarrow> Client \<Rightarrow> string \<Rightarrow> Message \<Rightarrow> string \<Rightarrow> string \<Rightarrow> string \<Rightarrow> Event" where
  "event_at now c responseType msg text timestamp eventTimestamp =
     make_event c (the (C_data c)) responseType msg text timestamp
       (if eventTimestamp = [] then show_int now else eventTimestamp)"

definition deliver :: "env \<Rightarrow> Event \<Rightarrow> hashes \<times> queues \<Rightarrow> hashes \<times> queues" where
  "deliver env e = (\<lambda>(h, q).
     (hsetnx h (env ''RELAX_MUTEX_KEY'') (bot_message_key e) ''ok'',
      if h (env ''RELAX_MUTEX_KEY'') (bot_message_key e) = None
      then push q (env ''RELAX_EVENTS_QUEUE'') (enc_Event e) else q))"

text \<open>
  With failures in between, the field may end up set without a push (the reply to a successful
  HSETNX was lost), and the event may be pushed once per attempt; it is never pushed when the
  field was already there.
\<close>

definition may_deliver :: "env \<Rightarrow> Event \<Rightarrow> hashes \<times> queues \<Rightarrow> hashes \<times> queues \<Rightarrow> bool" where
  "may_deliver env e = (\<lambda>(h, q) (h', q').
     (h' = h \<or> h' = hsetnx h (env ''RELAX_MUTEX_KEY'') (bot_message_key e) ''ok'') \<and>
     (\<exists>m \<le> Suc MaxRetries. q' = pushes q (env ''RELAX_EVENTS_QUEUE'') (enc_Event e) m \<and>
       (0 < m \<longrightarrow> h (env ''RELAX_MUTEX_KEY'') (bot_message_key e) = None \<and>
          h' (env ''RELAX_MUTEX_KEY'') (bot_message_key e) = Some ''ok'')))"

lemma send_lawful:
  assumes "redis_lawful svc hash queue"
  obtains (panics) "send svc env e (enc_Event e) w = None" "\<not> redis_sound svc"
  | (returns) err w' where "send svc env e (enc_Event e) w = Some (err, w')"
    "may_deliver env e (hash w, queue w) (hash w', queue w')"
proof -
  let ?mk = "env ''RELAX_MUTEX_KEY''" and ?qk = "env ''RELAX_EVENTS_QUEUE''"
  show thesis
  proof (rule HSetNX_lawful [OF assms, of ?mk "bot_message_key e" "''ok''" w])
    assume "HSetNX svc ?mk (bot_message_key e) ''ok'' w = None" "\<not> redis_sound svc"
    then show thesis by (intro panics) (simp_all add: send_def)
  next
    fix b w1
    assume h: "HSetNX svc ?mk (bot_message_key e) ''ok'' w = Some (b, w1)" "queue w1 = queue w"
      "hash w1 = hash w \<or> hash w1 = hsetnx (hash w) ?mk (bot_message_key e) ''ok''"
      "b \<Longrightarrow> hash w ?mk (bot_message_key e) = None \<and> hash w1 = hset (hash w) ?mk (bot_message_key e) ''ok''"
    show thesis
    proof (cases b)
      case False
      with h show ?thesis
        by (intro returns [of None w1]) (auto simp: send_def may_deliver_def intro: exI [of _ 0])
    next
      case True
      show ?thesis
      proof (rule RPush_lawful [OF assms, of ?qk "enc_Event e" w1])
        assume "RPush svc ?qk (enc_Event e) w1 = None" "\<not> redis_sound svc"
        with h(1) True show thesis by (intro panics) (simp_all add: send_def)
      next
        fix n m w2
        assume "RPush svc ?qk (enc_Event e) w1 = Some (n, w2)" "hash w2 = hash w1"
          "m \<le> Suc MaxRetries" "queue w2 = pushes (queue w1) ?qk (enc_Event e) m"
        with True h show thesis
          by (intro returns [of "if n \<noteq> 1 then Some PushError else None" w2])
            (auto simp: send_def may_deliver_def hset_def intro!: exI [of _ m])
      qed
    qed
  qed
qed

lemma send_up:
  assumes "redis_lawful svc hash queue" "redis_up svc"
  obtains err w' where "send svc env e (enc_Event e) w = Some (err, w')"
    "(hash w', queue w') = deliver env e (hash w, queue w)"
proof -
  let ?mk = "env ''RELAX_MUTEX_KEY''" and ?qk = "env ''RELAX_EVENTS_QUEUE''"
  obtain w1 where h: "HSetNX svc ?mk (bot_message_key e) ''ok'' w =
      Some (hash w ?mk (bot_message_key e) = None, w1)" "queue w1 = queue w"
    "hash w1 = hsetnx (hash w) ?mk (bot_message_key e) ''ok''"
    by (rule HSetNX_up [OF assms, of ?mk "bot_message_key e" "''ok''" w]) blast
  obtain w2 where r: "RPush svc ?qk (enc_Event e) w1 = Some (int (length (queue w1 ?qk) + 1), w2)"
    "hash w2 = hash w1" "queue w2 = push (queue w1) ?qk (enc_Event e)"
    by (rule RPush_up [OF assms, of ?qk "enc_Event e" w1]) blast
  show ?thesis
  proof (cases "hash w ?mk (bot_message_key e) = None")
    case True
    with h r show ?thesis
      by (intro that [of "if int (length (queue w1 ?qk) + 1) \<noteq> 1 then Some PushError else None" w2])
        (auto simp: send_def deliver_def)
  next
    case False
    with h show ?thesis by (intro that [of None w1]) (auto simp: send_def deliver_def)
  qed
qed

text \<open>
  Everything sendEvent does, given what \<open>send\<close> does (\<open>R\<close> is either of the two relations); \<open>K\<close> says whether
  the redis client may panic.
\<close>

lemma sendEvent_by_send:
  assumes law: "redis_lawful svc hash queue" and clock: "clock_frame svc hash queue"
    and c: "ready c" and K: "\<not> K \<Longrightarrow> redis_sound svc"
    and send: "\<And>e w. K \<and> send svc env e (enc_Event e) w = None \<or>
      (\<exists>err w'. send svc env e (enc_Event e) w = Some (err, w') \<and> R e (hash w, queue w) (hash w', queue w'))"
  shows "K \<and> sendEvent svc env c ty msg text ts ets w = None \<or>
    (\<exists>w'. sendEvent svc env c ty msg text ts ets w = Some (None, w') \<and>
      R (event_at (fst (now_nanos svc w)) c ty msg text ts ets) (hash w, queue w) (hash w', queue w'))"
proof -
  obtain t w1 where t: "now_nanos svc w = (t, w1)" by fastforce
  define w0 where "w0 = (if ets = [] then w1 else w)"
  have same: "hash w0 = hash w" "queue w0 = queue w"
    using clock [unfolded clock_frame_def, rule_format, of w] t by (simp_all add: w0_def)
  let ?e = "event_at t c ty msg text ts ets"
  obtain d where d: "C_data c = Some d" "C_redisClient c" using c by (auto simp: ready_def)
  have go: "sendEvent svc env c ty msg text ts ets w =
      (case send svc env ?e (enc_Event ?e) w0 of None \<Rightarrow> None | Some (err, w2) \<Rightarrow> Option.bind (Multi_Close svc w2) (\<lambda>w3. Some (None, w3)))"
    using d t by (auto simp: sendEvent_def event_at_def Let_def w0_def split: option.splits if_splits)
  from send [of ?e w0] show ?thesis
  proof (elim disjE exE conjE)
    fix err w2 assume s: "send svc env ?e (enc_Event ?e) w0 = Some (err, w2)" "R ?e (hash w0, queue w0) (hash w2, queue w2)"
    show ?thesis
    proof (rule Multi_Close_lawful [OF law, of w2])
      assume "Multi_Close svc w2 = None" "\<not> redis_sound svc"
      with K s(1) show ?thesis by (auto simp: go)
    next
      fix w3 assume "Multi_Close svc w2 = Some w3" "hash w3 = hash w2" "queue w3 = queue w2"
      with s same t show ?thesis by (auto simp: go)
    qed
  qed (simp add: go)
qed

lemma sendEvent_up:
  assumes "redis_lawful svc hash queue" "redis_up svc" "clock_frame svc hash queue" "ready c"
  obtains w' where "sendEvent svc env c ty msg text ts ets w = Some (None, w')"
    "(hash w', queue w') =
       deliver env (event_at (fst (now_nanos svc w)) c ty msg text ts ets) (hash w, queue w)"
proof -
  have "False \<and> send svc env e (enc_Event e) w = None \<or>
      (\<exists>err w'. send svc env e (enc_Event e) w = Some (err, w') \<and> (hash w', queue w') = deliver env e (hash w, queue w))" for e w
    by (rule send_up [OF assms(1,2), of env e w]) blast
  from sendEvent_by_send [OF assms(1,3,4) redis_up_sound [OF assms(2)], where R = "\<lambda>e s s'. s' = deliver env e s", OF this] that
  show ?thesis by blast
qed

lemma sendEvent_lawful:
  assumes "redis_lawful svc hash queue" "clock_frame svc hash queue" "ready c"
  shows "\<not> redis_sound svc \<and> sendEvent svc env c ty msg text ts ets w = None \<or>
    (\<exists>w'. sendEvent svc env c ty msg text ts ets w = Some (None, w') \<and>
      may_deliver env (event_at (fst (now_nanos svc w)) c ty msg text ts ets) (hash w, queue w) (hash w', queue w'))"
proof -
  have "\<not> redis_sound svc \<and> send svc env e (enc_Event e) w = None \<or>
      (\<exists>err w'. send svc env e (enc_Event e) w = Some (err, w') \<and> may_deliver env e (hash w, queue w) (hash w', queue w'))" for e w
    by (rule send_lawful [OF assms(1), of env e w]) blast+
  from sendEvent_by_send [OF assms, where K = "\<not> redis_sound svc" and R = "may_deliver env", OF _ this] show ?thesis by blast
qed

section \<open>What handleMessage decides\<close>

text \<open>
  The cases that the answer depends on: what a message is, once the raw parts it needs have
  been decoded. A part that does not decode makes the message one that is ignored.
\<close>

datatype incoming =
    Pong
  | Deleted
  | Edited Message
  | Posted
  | Reacted string Message
  | TeamJoin User
  | ImCreated Channel
  | Joined Channel
  | Ignored

definition decoded :: "('a \<Rightarrow> incoming) \<Rightarrow> 'a \<times> unmarshal_error option \<Rightarrow> incoming" where
  "decoded f r = (case r of (a, None) \<Rightarrow> f a | (_, Some _) \<Rightarrow> Ignored)"

definition classify :: "Message \<Rightarrow> incoming" where
  "classify msg =
     (let t = Msg_Type msg; st = Msg_Subtype msg
      in if t = ''pong'' then Pong
      else if t = ''message'' \<and> st = ''message_deleted'' then Deleted
      else if t = ''message'' \<and> st = ''message_changed'' then
        decoded Edited (unmarshal dec_Message (Msg_RawMessage msg) zero_Message)
      else if t = ''message'' \<and> st = [] then Posted
      else if t = ''reaction_added'' \<or> t = ''reaction_removed'' then
        decoded (Reacted t) (unmarshal dec_Message (Msg_RawItem msg) zero_Message)
      else if t = ''team_join'' then
        decoded TeamJoin (unmarshal dec_User (Msg_RawUser msg) (Msg_User msg))
      else if t = ''im_created'' then
        decoded (\<lambda>ch. ImCreated (ch\<lparr>Ch_Im := True\<rparr>)) (unmarshal dec_Channel (Msg_RawChannel msg) (Msg_Channel msg))
      else if t = ''group_joined'' \<or> t = ''channel_joined'' then
        decoded (\<lambda>ch. Joined (ch\<lparr>Ch_Im := False\<rparr>)) (unmarshal dec_Channel (Msg_RawChannel msg) zero_Channel)
      else Ignored)"

text \<open>How the client changes, and the event it sends, when the clock reads \<open>now\<close>.\<close>

definition client_after :: "Message \<Rightarrow> Client \<Rightarrow> Client" where
  "client_after msg c =
     (case classify msg of
        Pong \<Rightarrow> if Msg_ReplyTo msg = C_TeamId c then c\<lparr>C_heartBeatsMissed := 0\<rparr> else c
      | TeamJoin u \<Rightarrow> the (put_user u c)
      | ImCreated ch \<Rightarrow> the (put_channel ch c)
      | Joined ch \<Rightarrow> the (put_channel ch c)
      | _ \<Rightarrow> c)"

definition own_message :: "Client \<Rightarrow> Message \<Rightarrow> bool" where
  "own_message c msg \<longleftrightarrow> Message_UserId msg = User_Id (Md_Self (the (C_data c)))"

definition event_for :: "env \<Rightarrow> int \<Rightarrow> Message \<Rightarrow> Client \<Rightarrow> Event option" where
  "event_for env now msg c =
     (let c' = client_after msg c; d = the (C_data c');
          named = (\<lambda>u ch. with_names d u ch msg);
          u = Message_UserId msg; ch = Message_ChannelId msg
      in case classify msg of
           Deleted \<Rightarrow> Some (event_at now c' ''message_deleted'' (named u ch)
             (Msg_Text msg) (Msg_DeletedTimestamp msg) (Msg_Timestamp msg))
         | Edited m \<Rightarrow> Some (event_at now c' ''message_edited'' (named (Message_UserId m) ch)
             (Msg_Text m) (Msg_Timestamp m) (Msg_Timestamp msg))
         | Posted \<Rightarrow>
             if own_message c msg \<and> env ''RELAX_SEND_BOT_REPLIES'' \<noteq> ''true'' then None
             else Some (event_at now c' ''message_new'' (named u ch)
               (Msg_Text msg) (Msg_Timestamp msg) (Msg_Timestamp msg))
         | Reacted kind item \<Rightarrow> Some (event_at now c' kind (named u (Message_ChannelId item))
             (Msg_Reaction msg) (Msg_Timestamp item) (Msg_EventTimestamp msg))
         | TeamJoin user \<Rightarrow> Some (event_at now c' ''team_joined'' (msg\<lparr>Msg_User := user\<rparr>) [] [] [])
         | ImCreated im \<Rightarrow> Some (event_at now c' ''im_created''
             (msg\<lparr>Msg_Channel := im, Msg_User := get_user d u\<rparr>) [] [] [])
         | Joined chan \<Rightarrow> Some (event_at now c' ''channel_joined'' (msg\<lparr>Msg_Channel := chan\<rparr>) []
             (joined_timestamp now (Ch_Id chan)) (joined_timestamp now (Ch_Id chan)))
         | _ \<Rightarrow> None)"

lemma put_user_started:
  assumes "started c"
  obtains c' where "put_user u c = Some c'" "started c'"
  using assms by (rule startedE) (auto simp: put_user_def started_def)

lemma put_channel_started:
  assumes "started c"
  obtains c' where "put_channel ch c = Some c'" "started c'"
  using assms by (rule startedE) (auto simp: put_channel_def started_def)

lemma client_after_started: "started c \<Longrightarrow> started (client_after msg c)"
  by (auto simp: client_after_def started_def put_user_def put_channel_def split: incoming.splits)

lemma event_at_fixed: "ets \<noteq> [] \<Longrightarrow> event_at now c ty msg text ts ets = event_at now' c ty msg text ts ets"
  by (simp add: event_at_def)

lemma joined_timestamp_nonempty [simp]: "joined_timestamp t ch \<noteq> []"
  by (simp add: joined_timestamp_def)

text \<open>The relation between the states before and after one message.\<close>

definition handled ::
    "(Event \<Rightarrow> hashes \<times> queues \<Rightarrow> hashes \<times> queues \<Rightarrow> bool) \<Rightarrow> Event option
      \<Rightarrow> hashes \<times> queues \<Rightarrow> hashes \<times> queues \<Rightarrow> bool" where
  "handled R e s s' = (case e of None \<Rightarrow> s' = s | Some ev \<Rightarrow> R ev s s')"

lemma handled_simps [simp]: "handled R None s s' = (s' = s)" "handled R (Some e) s s' = R e s s'"
  by (simp_all add: handled_def)

text \<open>
  A handler's result: the client it leaves, and the effect of the one event it sends, if any; or a panic, when there is an
  event to send and the redis client may panic.
\<close>

definition achieves :: "('w \<Rightarrow> hashes) \<Rightarrow> ('w \<Rightarrow> queues) \<Rightarrow> bool
    \<Rightarrow> (Event \<Rightarrow> hashes \<times> queues \<Rightarrow> hashes \<times> queues \<Rightarrow> bool)
    \<Rightarrow> Client \<Rightarrow> Event option \<Rightarrow> 'w \<Rightarrow> (Client \<times> 'w) option \<Rightarrow> bool" where
  "achieves hash queue K R c e w res \<longleftrightarrow>
     K \<and> e \<noteq> None \<and> res = None \<or> (\<exists>w'. res = Some (c, w') \<and> handled R e (hash w, queue w) (hash w', queue w'))"

lemma achieves_None [simp]: "achieves hash queue K R c None w (Some (c, w))"
  by (simp add: achieves_def)

text \<open>What the handlers need of sendEvent.\<close>

definition sink :: "'w svc \<Rightarrow> env \<Rightarrow> ('w \<Rightarrow> hashes) \<Rightarrow> ('w \<Rightarrow> queues) \<Rightarrow> bool
    \<Rightarrow> (Event \<Rightarrow> hashes \<times> queues \<Rightarrow> hashes \<times> queues \<Rightarrow> bool) \<Rightarrow> bool" where
  "sink svc env hash queue K R \<longleftrightarrow>
     (\<forall>c ty msg text ts ets w. ready c \<longrightarrow>
        K \<and> sendEvent svc env c ty msg text ts ets w = None \<or>
        (\<exists>w'. sendEvent svc env c ty msg text ts ets w = Some (None, w') \<and>
           R (event_at (fst (now_nanos svc w)) c ty msg text ts ets) (hash w, queue w) (hash w', queue w')))"

lemma sink_up:
  "redis_lawful svc hash queue \<Longrightarrow> redis_up svc \<Longrightarrow> clock_frame svc hash queue \<Longrightarrow>
     sink svc env hash queue False (\<lambda>e s s'. s' = deliver env e s)"
  by (auto simp: sink_def elim!: sendEvent_up)

lemma sink_lawful:
  "redis_lawful svc hash queue \<Longrightarrow> clock_frame svc hash queue \<Longrightarrow>
     sink svc env hash queue (\<not> redis_sound svc) (may_deliver env)"
  unfolding sink_def by (intro allI impI) (rule sendEvent_lawful)

lemma event_then_achieves:
  assumes "sink svc env hash queue K R" and "ready c"
    and "e = event_at (fst (now_nanos svc w)) c ty msg text ts ets"
  shows "achieves hash queue K R c (Some e) w (event_then c (sendEvent svc env c ty msg text ts ets w))"
proof -
  have "K \<and> sendEvent svc env c ty msg text ts ets w = None \<or>
      (\<exists>w'. sendEvent svc env c ty msg text ts ets w = Some (None, w') \<and> R e (hash w, queue w) (hash w', queue w'))"
    using assms unfolding sink_def by blast
  then show ?thesis by (auto simp: achieves_def event_then_def)
qed

lemma handle_pong_achieves:
  "started c \<Longrightarrow> achieves hash queue K R
     (if Msg_ReplyTo msg = C_TeamId c then c\<lparr>C_heartBeatsMissed := 0\<rparr> else c) None w (handle_pong c msg w)"
  by (simp add: handle_pong_def started_def ResetHeartBeatsMissed_def achieves_def)

lemma handle_team_join_achieves:
  assumes "sink svc env hash queue K R" "started c"
    "unmarshal dec_User (Msg_RawUser msg) (Msg_User msg) = (u, None)"
  shows "achieves hash queue K R (the (put_user u c))
    (Some (event_at (fst (now_nanos svc w)) (the (put_user u c)) ''team_joined'' (msg\<lparr>Msg_User := u\<rparr>) [] [] []))
    w (handle_team_join svc env c msg w)"
proof -
  obtain c' where c': "put_user u c = Some c'" "started c'"
    by (rule put_user_started [OF assms(2)]) blast
  with assms show ?thesis
    by (simp add: handle_team_join_def event_then_achieves)
qed

lemma handle_im_created_achieves:
  assumes "sink svc env hash queue K R" "started c"
    "unmarshal dec_Channel (Msg_RawChannel msg) (Msg_Channel msg) = (ch0, None)"
    "ch = ch0\<lparr>Ch_Im := True\<rparr>"
  shows "achieves hash queue K R (the (put_channel ch c))
    (Some (event_at (fst (now_nanos svc w)) (the (put_channel ch c)) ''im_created''
       (msg\<lparr>Msg_Channel := ch,
            Msg_User := get_user (the (C_data (the (put_channel ch c)))) (Message_UserId msg)\<rparr>) [] [] []))
    w (handle_im_created svc env c msg w)"
proof -
  obtain c' where c': "put_channel ch c = Some c'" "started c'"
    by (rule put_channel_started [OF assms(2)]) blast
  obtain d where d: "C_data c' = Some d" by (rule startedE [OF c'(2)])
  with c' assms show ?thesis
    by (simp add: handle_im_created_def Let_def event_then_achieves)
qed

lemma handle_joined_achieves:
  assumes sink: "sink svc env hash queue K R" and clock: "clock_frame svc hash queue" and c: "started c"
    and ch0: "unmarshal dec_Channel (Msg_RawChannel msg) zero_Channel = (ch0, None)"
    and ch: "ch = ch0\<lparr>Ch_Im := False\<rparr>" and t: "now_nanos svc w = (t, w1)"
  shows "achieves hash queue K R (the (put_channel ch c))
    (Some (event_at t (the (put_channel ch c)) ''channel_joined'' (msg\<lparr>Msg_Channel := ch\<rparr>) []
       (joined_timestamp t (Ch_Id ch)) (joined_timestamp t (Ch_Id ch))))
    w (handle_joined svc env c msg w)"
proof -
  obtain c' where c': "put_channel ch c = Some c'" "started c'"
    by (rule put_channel_started [OF c]) blast
  have same: "hash w1 = hash w" "queue w1 = queue w"
    using clock [unfolded clock_frame_def, rule_format, of w] t by simp_all
  let ?ts = "joined_timestamp t (Ch_Id ch)"
  have "achieves hash queue K R c' (Some (event_at t c' ''channel_joined'' (msg\<lparr>Msg_Channel := ch\<rparr>) [] ?ts ?ts))
      w1 (event_then c' (sendEvent svc env c' ''channel_joined'' (msg\<lparr>Msg_Channel := ch\<rparr>) [] ?ts ?ts w1))"
    by (rule event_then_achieves [OF sink]) (use c' in \<open>auto intro: event_at_fixed\<close>)
  with c' ch0 ch t same show ?thesis
    by (simp add: handle_joined_def Let_def achieves_def)
qed

lemma handle_deleted_achieves:
  assumes "sink svc env hash queue K R" "started c"
  shows "achieves hash queue K R c
    (Some (event_at (fst (now_nanos svc w)) c ''message_deleted''
       (with_names (the (C_data c)) (Message_UserId msg) (Message_ChannelId msg) msg)
       (Msg_Text msg) (Msg_DeletedTimestamp msg) (Msg_Timestamp msg)))
    w (handle_deleted svc env c msg w)"
proof -
  obtain d where "C_data c = Some d" by (rule startedE [OF assms(2)])
  then show ?thesis
    by (simp add: handle_deleted_def with_names_def event_then_achieves [OF assms(1) started_ready [OF assms(2)]])
qed

lemma handle_changed_achieves:
  assumes "sink svc env hash queue K R" "started c" "EmbeddedMessage msg = Some m"
  shows "achieves hash queue K R c
    (Some (event_at (fst (now_nanos svc w)) c ''message_edited''
       (with_names (the (C_data c)) (Message_UserId m) (Message_ChannelId msg) msg)
       (Msg_Text m) (Msg_Timestamp m) (Msg_Timestamp msg)))
    w (handle_changed svc env c msg w)"
proof -
  obtain d where "C_data c = Some d" by (rule startedE [OF assms(2)])
  then show ?thesis using assms(3)
    by (simp add: handle_changed_def with_names_def event_then_achieves [OF assms(1) started_ready [OF assms(2)]])
qed

lemma handle_new_achieves:
  assumes "sink svc env hash queue K R" "started c"
  shows "achieves hash queue K R c
    (if own_message c msg \<and> env ''RELAX_SEND_BOT_REPLIES'' \<noteq> ''true'' then None
     else Some (event_at (fst (now_nanos svc w)) c ''message_new''
       (with_names (the (C_data c)) (Message_UserId msg) (Message_ChannelId msg) msg)
       (Msg_Text msg) (Msg_Timestamp msg) (Msg_Timestamp msg)))
    w (handle_new svc env c msg w)"
proof -
  obtain d where "C_data c = Some d" by (rule startedE [OF assms(2)])
  then show ?thesis
    by (simp add: handle_new_def with_names_def own_message_def
        event_then_achieves [OF assms(1) started_ready [OF assms(2)]])
qed

lemma handle_reaction_achieves:
  assumes "sink svc env hash queue K R" "started c" "EmbeddedItem msg = Some item"
  shows "achieves hash queue K R c
    (Some (event_at (fst (now_nanos svc w)) c kind
       (with_names (the (C_data c)) (Message_UserId msg) (Message_ChannelId item) msg)
       (Msg_Reaction msg) (Msg_Timestamp item) (Msg_EventTimestamp msg)))
    w (handle_reaction svc env c kind msg w)"
proof -
  obtain d where "C_data c = Some d" by (rule startedE [OF assms(2)])
  then show ?thesis using assms(3)
    by (simp add: handle_reaction_def with_names_def event_then_achieves [OF assms(1) started_ready [OF assms(2)]])
qed

text \<open>The switch, by the type of the message.\<close>

lemma handleMessage_cases [case_names pong deleted changed posted subtype reaction join im joined other]:
  assumes "Msg_Type msg = ''pong'' \<Longrightarrow> P"
    and "Msg_Type msg = ''message'' \<Longrightarrow> Msg_Subtype msg = ''message_deleted'' \<Longrightarrow> P"
    and "Msg_Type msg = ''message'' \<Longrightarrow> Msg_Subtype msg = ''message_changed'' \<Longrightarrow> P"
    and "Msg_Type msg = ''message'' \<Longrightarrow> Msg_Subtype msg = [] \<Longrightarrow> P"
    and "Msg_Type msg = ''message'' \<Longrightarrow>
      Msg_Subtype msg \<notin> {''message_deleted'', ''message_changed'', []} \<Longrightarrow> P"
    and "Msg_Type msg \<in> {''reaction_added'', ''reaction_removed''} \<Longrightarrow> P"
    and "Msg_Type msg = ''team_join'' \<Longrightarrow> P"
    and "Msg_Type msg = ''im_created'' \<Longrightarrow> P"
    and "Msg_Type msg \<in> {''group_joined'', ''channel_joined''} \<Longrightarrow> P"
    and "Msg_Type msg \<notin> {''pong'', ''message'', ''reaction_added'', ''reaction_removed'', ''team_join'',
      ''im_created'', ''group_joined'', ''channel_joined''} \<Longrightarrow> P"
  shows P
  using assms by blast

text \<open>Every case of handleMessage is the decision followed by its one delivery.\<close>

lemmas decision_defs = event_for_def client_after_def classify_def decoded_def

lemma handleMessage_achieves:
  assumes sink: "sink svc env hash queue K R" and clock: "clock_frame svc hash queue" and c: "started c"
  shows "achieves hash queue K R (client_after msg c)
    (event_for env (fst (now_nanos svc w)) msg c) w (handleMessage svc env c msg w)"
proof (cases msg rule: handleMessage_cases)
  case pong
  with handle_pong_achieves [OF c, of hash queue K R msg w] show ?thesis
    by (simp add: handleMessage_def decision_defs)
next
  case deleted
  with handle_deleted_achieves [OF sink c] show ?thesis
    by (simp add: handleMessage_def decision_defs)
next
  case changed
  obtain m e where m: "unmarshal dec_Message (Msg_RawMessage msg) zero_Message = (m, e)" by fastforce
  show ?thesis
  proof (cases e)
    case None
    then have "EmbeddedMessage msg = Some m" using m by (simp add: EmbeddedMessage_def)
    from handle_changed_achieves [OF sink c this] None m changed show ?thesis
      by (simp add: handleMessage_def decision_defs)
  qed (use m changed in \<open>simp add: handleMessage_def decision_defs handle_changed_def EmbeddedMessage_def\<close>)
next
  case posted
  with handle_new_achieves [OF sink c, of msg w] show ?thesis
    by (simp add: handleMessage_def decision_defs)
next
  case reaction
  obtain m e where m: "unmarshal dec_Message (Msg_RawItem msg) zero_Message = (m, e)" by fastforce
  show ?thesis
  proof (cases e)
    case None
    then have "EmbeddedItem msg = Some m" using m by (simp add: EmbeddedItem_def)
    from handle_reaction_achieves [OF sink c this, of w "Msg_Type msg"] None m reaction show ?thesis
      by (elim insertE) (simp_all add: handleMessage_def decision_defs)
  qed (use m reaction in \<open>elim insertE,
      simp_all add: handleMessage_def decision_defs handle_reaction_def EmbeddedItem_def\<close>)
next
  case join
  obtain u e where u: "unmarshal dec_User (Msg_RawUser msg) (Msg_User msg) = (u, e)" by fastforce
  with join handle_team_join_achieves [OF sink c, of msg u] show ?thesis
    by (cases e) (simp_all add: handleMessage_def decision_defs handle_team_join_def)
next
  case im
  obtain ch e where ch: "unmarshal dec_Channel (Msg_RawChannel msg) (Msg_Channel msg) = (ch, e)" by fastforce
  with im handle_im_created_achieves [OF sink c, of msg ch, OF _ refl] show ?thesis
    by (cases e) (simp_all add: handleMessage_def decision_defs handle_im_created_def Let_def)
next
  case joined
  obtain ch e where ch: "unmarshal dec_Channel (Msg_RawChannel msg) zero_Channel = (ch, e)" by fastforce
  obtain t w1 where t: "now_nanos svc w = (t, w1)" by fastforce
  show ?thesis
  proof (cases e)
    case None
    with ch have "unmarshal dec_Channel (Msg_RawChannel msg) zero_Channel = (ch, None)" by simp
    from handle_joined_achieves [OF sink clock c this refl t] this joined t show ?thesis
      by (elim insertE) (simp_all add: handleMessage_def decision_defs Let_def)
  qed (use ch joined in \<open>elim insertE, simp_all add: handleMessage_def decision_defs handle_joined_def\<close>)
qed (simp_all add: handleMessage_def decision_defs)

lemma handleMessage_up:
  assumes "redis_lawful svc hash queue" "redis_up svc" "clock_frame svc hash queue" "started c"
  shows "\<exists>w'. handleMessage svc env c msg w = Some (client_after msg c, w') \<and>
    (hash w', queue w') =
      (case event_for env (fst (now_nanos svc w)) msg c of
         None \<Rightarrow> (hash w, queue w)
       | Some e \<Rightarrow> deliver env e (hash w, queue w))"
  using handleMessage_achieves [OF sink_up [OF assms(1,2,3)] assms(3,4), of env msg w]
  by (auto simp: achieves_def handled_def split: option.splits)

section \<open>The client's tables\<close>

definition client_wf :: "Client \<Rightarrow> bool" where
  "client_wf c \<longleftrightarrow> started c \<and>
     (\<forall>d. C_data c = Some d \<longrightarrow>
        (\<forall>us. Md_Users d = Some us \<longrightarrow> keyed_by User_Id us) \<and>
        (\<forall>chs. Md_Channels d = Some chs \<longrightarrow> keyed_by Ch_Id chs))"

text \<open>What no message changes.\<close>

definition same_identity :: "Client \<Rightarrow> Client \<Rightarrow> bool" where
  "same_identity c c' \<longleftrightarrow> C_Token c' = C_Token c \<and> C_TeamId c' = C_TeamId c \<and>
     C_Provider c' = C_Provider c \<and> C_Namespace c' = C_Namespace c \<and> C_conn c' = C_conn c \<and>
     C_pingTicker c' = C_pingTicker c \<and>
     map_option Md_Self (C_data c') = map_option Md_Self (C_data c)"

lemma client_after_wf: "client_wf c \<Longrightarrow> client_wf (client_after msg c)"
  by (auto simp: client_wf_def started_def client_after_def put_user_def put_channel_def
      split: incoming.splits)

lemma client_after_identity: "started c \<Longrightarrow> same_identity c (client_after msg c)"
  by (auto simp: same_identity_def started_def client_after_def put_user_def put_channel_def
      split: incoming.splits)

lemma event_then_client: "event_then c r = Some (c', w') \<Longrightarrow> c' = c"
  by (auto simp: event_then_def)

lemma handle_same_client:
  "handle_deleted svc env c msg w = Some (c', w') \<Longrightarrow> c' = c"
  "handle_changed svc env c msg w = Some (c', w') \<Longrightarrow> c' = c"
  "handle_new svc env c msg w = Some (c', w') \<Longrightarrow> c' = c"
  "handle_reaction svc env c kind msg w = Some (c', w') \<Longrightarrow> c' = c"
  by (auto simp: handle_deleted_def handle_changed_def handle_new_def handle_reaction_def Let_def
      dest: event_then_client split: option.splits if_splits)

lemma handle_pong_client:
  "handle_pong c msg w = Some (c', w') \<Longrightarrow>
     c' = (if Msg_ReplyTo msg = C_TeamId c then c\<lparr>C_heartBeatsMissed := 0\<rparr> else c)"
  by (auto simp: handle_pong_def ResetHeartBeatsMissed_def split: if_splits)

lemma handle_tables_client:
  "handle_team_join svc env c msg w = Some (c', w') \<Longrightarrow>
     c' = (case unmarshal dec_User (Msg_RawUser msg) (Msg_User msg) of
             (u, None) \<Rightarrow> the (put_user u c) | (_, Some _) \<Rightarrow> c)"
  "handle_im_created svc env c msg w = Some (c', w') \<Longrightarrow>
     c' = (case unmarshal dec_Channel (Msg_RawChannel msg) (Msg_Channel msg) of
             (ch, None) \<Rightarrow> the (put_channel (ch\<lparr>Ch_Im := True\<rparr>) c) | (_, Some _) \<Rightarrow> c)"
  by (auto simp: handle_team_join_def handle_im_created_def Let_def
      dest: event_then_client split: prod.splits option.splits)

lemma handle_joined_client:
  "handle_joined svc env c msg w = Some (c', w') \<Longrightarrow>
     c' = (case unmarshal dec_Channel (Msg_RawChannel msg) zero_Channel of
             (ch, None) \<Rightarrow> the (put_channel (ch\<lparr>Ch_Im := False\<rparr>) c) | (_, Some _) \<Rightarrow> c)"
  by (cases "now_nanos svc w")
    (auto simp: handle_joined_def Let_def dest: event_then_client split: prod.splits option.splits)

text \<open>Whatever Redis does: a message that is handled leaves this client.\<close>

lemma handleMessage_client:
  assumes "handleMessage svc env c msg w = Some (c', w')"
  shows "c' = client_after msg c"
proof (cases msg rule: handleMessage_cases)
  case pong
  with assms show ?thesis
    by (simp add: handleMessage_def decision_defs handle_pong_client)
next
  case deleted
  with assms show ?thesis
    by (simp add: handleMessage_def decision_defs handle_same_client)
next
  case changed
  with assms show ?thesis
    by (simp add: handleMessage_def decision_defs handle_same_client split: prod.split option.split)
next
  case posted
  with assms show ?thesis
    by (simp add: handleMessage_def decision_defs handle_same_client)
next
  case reaction
  with assms have "c' = c" by (elim insertE) (simp_all add: handleMessage_def handle_same_client)
  with reaction show ?thesis
    by (elim insertE) (simp_all add: decision_defs split: prod.split option.split)
next
  case join
  with assms handle_tables_client(1) [of svc env c msg w c' w'] show ?thesis
    by (simp add: handleMessage_def decision_defs split: prod.split option.split)
next
  case im
  with assms handle_tables_client(2) [of svc env c msg w c' w'] show ?thesis
    by (simp add: handleMessage_def decision_defs split: prod.split option.split)
next
  case joined
  with assms have "handle_joined svc env c msg w = Some (c', w')"
    by (elim insertE) (simp_all add: handleMessage_def)
  from handle_joined_client [OF this] joined show ?thesis
    by (elim insertE) (simp_all add: decision_defs split: prod.split option.split)
qed (use assms in \<open>simp_all add: handleMessage_def decision_defs\<close>)

lemma client_after_join:
  "classify msg = TeamJoin u \<Longrightarrow> started c \<Longrightarrow>
     get_user (the (C_data (client_after msg c))) (User_Id u) = u"
  by (auto simp: client_after_def started_def put_user_def)

lemma client_after_channel:
  "classify msg = ImCreated ch \<or> classify msg = Joined ch \<Longrightarrow> started c \<Longrightarrow>
     get_channel (the (C_data (client_after msg c))) (Ch_Id ch) = ch"
  by (auto simp: client_after_def started_def put_channel_def)

lemma client_after_posted: "classify msg = Posted \<Longrightarrow> client_after msg c = c"
  by (simp add: client_after_def)

lemma event_at_fields [simp]:
  "Ev_Type (event_at now c ty msg text ts ets) = ty"
  "Ev_UserUid (event_at now c ty msg text ts ets) = User_Id (Msg_User msg)"
  "Ev_ChannelUid (event_at now c ty msg text ts ets) = Ch_Id (Msg_Channel msg)"
  "Ev_Im (event_at now c ty msg text ts ets) = Ch_Im (Msg_Channel msg)"
  "Ev_TeamUid (event_at now c ty msg text ts ets) = C_TeamId c"
  "Ev_Namespace (event_at now c ty msg text ts ets) = C_Namespace c"
  "Ev_Text (event_at now c ty msg text ts ets) = text"
  "Ev_Timestamp (event_at now c ty msg text ts ets) = ts"
  "Ev_Provider (event_at now c ty msg text ts ets) = ''slack''"
  "Ev_RelaxBotUid (event_at now c ty msg text ts ets) = User_Id (Md_Self (the (C_data c)))"
  "Ev_EventTimestamp (event_at now c ty msg text ts ets) = (if ets = [] then show_int now else ets)"
  "Ev_Attachments (event_at now c ty msg text ts ets) = Msg_Attachments msg"
  by (simp_all add: event_at_def make_event_def)

lemma with_names_fields [simp]:
  "Msg_User (with_names d u ch msg) = get_user d u"
  "Msg_Channel (with_names d u ch msg) = get_channel d ch"
  "Msg_Attachments (with_names d u ch msg) = Msg_Attachments msg"
  by (simp_all add: with_names_def)

section \<open>Keys\<close>

lemma bot_message_key_inject:
  assumes "CHR '':'' \<notin> set (Ev_ChannelUid e1)" "CHR '':'' \<notin> set (Ev_ChannelUid e2)"
  shows "bot_message_key e1 = bot_message_key e2 \<longleftrightarrow>
    Ev_ChannelUid e1 = Ev_ChannelUid e2 \<and> Ev_EventTimestamp e1 = Ev_EventTimestamp e2"
  using assms split_at_separator [of "Ev_ChannelUid e1" "CHR '':''" _ "Ev_ChannelUid e2"]
  by (auto simp: bot_message_key_def)

lemma minute_of_nonneg: "0 \<le> t \<Longrightarrow> minute_of t = (t div 60000000000) * 60"
proof -
  assume "0 \<le> t"
  then have "(t div 1000000000) sdiv 60 = (t div 1000000000) div 60"
    by (cases "t div 1000000000 = 0") (auto simp: signed_divide_int_def sgn_if pos_imp_zdiv_neg_iff)
  then show ?thesis by (simp add: minute_of_def zdiv_zmult2_eq [symmetric])
qed

lemma joined_timestamp_inject:
  assumes "joined_timestamp t1 ch = joined_timestamp t2 ch"
  shows "minute_of t1 = minute_of t2"
proof -
  have "show_int (minute_of t1) @ CHR ''-'' # ch = show_int (minute_of t2) @ CHR ''-'' # ch"
    using assms by (simp add: joined_timestamp_def)
  then have "show_int (minute_of t1) = show_int (minute_of t2)"
    by (simp only: append_same_eq)
  then show ?thesis by simp
qed

section \<open>A concrete client and environment\<close>

definition sample_env :: env where
  "sample_env name =
     (if name = ''RELAX_MUTEX_KEY'' then ''mutex'' else if name = ''RELAX_EVENTS_QUEUE'' then ''events'' else [])"

definition sample_metadata :: Metadata where
  "sample_metadata = zero_Metadata\<lparr>Md_Ok := True, Md_Self := zero_User\<lparr>User_Id := ''UBOT''\<rparr>,
     Md_Users := Some [''U1'' \<mapsto> zero_User\<lparr>User_Id := ''U1''\<rparr>],
     Md_Channels := Some [''C1'' \<mapsto> zero_Channel\<lparr>Ch_Id := ''C1''\<rparr>]\<rparr>"

definition sample_client :: Client where
  "sample_client = zero_Client\<lparr>C_TeamId := ''T1'', C_heartBeatsMutex := True, C_redisClient := True,
     C_conn := Some 0, C_pingTicker := Some 1, C_data := Some sample_metadata\<rparr>"

definition posted_by :: "string \<Rightarrow> string \<Rightarrow> string \<Rightarrow> Message" where
  "posted_by user channel ts = zero_Message\<lparr>Msg_Type := ''message'', Msg_Text := ''hi'', Msg_Timestamp := ts,
     Msg_RawUser := dquote # user @ [dquote], Msg_RawChannel := dquote # channel @ [dquote]\<rparr>"

lemma sample_wf [simp]: "client_wf sample_client"
  by (simp add: client_wf_def started_def sample_client_def sample_metadata_def)

lemma sample_started [simp]: "started sample_client"
  using sample_wf by (simp add: client_wf_def)

lemma posted_classify [simp]: "classify (posted_by u ch ts) = Posted"
  by (simp add: classify_def posted_by_def zero_Message_def)

lemma posted_Timestamp [simp]: "Msg_Timestamp (posted_by u ch ts) = ts"
  by (simp add: posted_by_def)

lemma posted_UserId [simp]: "dquote \<notin> set u \<Longrightarrow> Message_UserId (posted_by u ch ts) = u"
  using trim_quoted [of u dquote] by (auto simp: posted_by_def Message_UserId_def)

section \<open>Properties\<close>

text \<open>
  C2. On a started client and a Redis server that answers, every message is handled without a
  panic, leaves the client that the decision layer computes, and has exactly the effect of
  delivering the event decided for it, or none: the handlers refine the decision.
\<close>

theorem handleMessage_refines:
  assumes "redis_lawful svc hash queue" "redis_up svc" "clock_frame svc hash queue" "started c"
  shows "\<exists>w'. handleMessage svc env c msg w = Some (client_after msg c, w') \<and>
    (hash w', queue w') =
      (case event_for env (fst (now_nanos svc w)) msg c of
         None \<Rightarrow> (hash w, queue w)
       | Some e \<Rightarrow> deliver env e (hash w, queue w))"
  by (rule handleMessage_up [OF assms])

theorem handleMessage_refines_witness:
  "\<exists>w'. handleMessage server sample_env sample_client (posted_by ''U1'' ''C1'' ''5'') world0 =
      Some (client_after (posted_by ''U1'' ''C1'' ''5'') sample_client, w') \<and>
    (W_hash w', W_queue w') =
      (case event_for sample_env (fst (now_nanos server world0)) (posted_by ''U1'' ''C1'' ''5'') sample_client of
         None \<Rightarrow> (W_hash world0, W_queue world0)
       | Some e \<Rightarrow> deliver sample_env e (W_hash world0, W_queue world0))"
  by (rule handleMessage_refines) simp_all

text \<open>
  C4. Whatever fails on the way to Redis, a started client handles a message without a panic of its own: only the redis client, with which
  it sends the event decided for the message, can panic (cut_login_panics, PoolRace), so it does not when that is sound or nothing is to be sent.
  When it returns it never has touched another field of the mutex hash or another list, has pushed only that event, at most once per
  attempt of the command (six), and not at all when the event's field was already set; with no event decided nothing has changed.
\<close>

theorem handleMessage_under_failures:
  assumes "redis_lawful svc hash queue" "clock_frame svc hash queue" "started c"
  shows "case handleMessage svc env c msg w of
     None \<Rightarrow> \<not> redis_sound svc \<and> event_for env (fst (now_nanos svc w)) msg c \<noteq> None
   | Some (c', w') \<Rightarrow> c' = client_after msg c \<and>
       (case event_for env (fst (now_nanos svc w)) msg c of
          None \<Rightarrow> (hash w', queue w') = (hash w, queue w)
        | Some e \<Rightarrow> may_deliver env e (hash w, queue w) (hash w', queue w'))"
  using handleMessage_achieves [OF sink_lawful [OF assms(1,2)] assms(2,3), of env msg w]
  by (auto simp: achieves_def handled_def split: option.splits)

lemma flaky_sound [simp]: "redis_sound flaky"
  by (auto simp: redis_sound_def flaky_def world_exec_def split: list.split)

theorem handleMessage_under_failures_witness:
  "\<exists>c' w'. handleMessage flaky sample_env sample_client (posted_by ''U1'' ''C1'' ''5'') (world0\<lparr>W_lost := 9\<rparr>) = Some (c', w') \<and>
    (\<exists>m \<le> Suc MaxRetries. length (W_queue w' ''events'') = m)"
proof -
  let ?m = "posted_by ''U1'' ''C1'' ''5''" and ?w = "world0\<lparr>W_lost := 9\<rparr>"
  note all = handleMessage_under_failures [OF flaky_lawful flaky_clock, where c = sample_client and env = sample_env and msg = ?m and w = ?w]
  then have "handleMessage flaky sample_env sample_client ?m ?w \<noteq> None" by (auto split: option.splits)
  then obtain c' w' where h: "handleMessage flaky sample_env sample_client ?m ?w = Some (c', w')" by auto
  have "length (W_queue w' ''events'') \<le> Suc MaxRetries"
    using all unfolding h by (auto simp: may_deliver_def world0_def sample_env_def split: option.splits)
  with h show ?thesis by blast
qed

text \<open>
  Send-only-once: when two clients, of the same or of different instances, send events for
  one channel with one event timestamp, whatever else these events hold, exactly the first is
  on the queue afterwards.
\<close>

lemma sendEvent_only_once:
  assumes "redis_lawful svc hash queue" "redis_up svc" "clock_frame svc hash queue"
    and "ready c1" "ready c2" "ets \<noteq> []"
    and "Ch_Id (Msg_Channel m1) = Ch_Id (Msg_Channel m2)"
    and "e1 = make_event c1 (the (C_data c1)) ty1 m1 text1 ts1 ets"
    and "hash w (env ''RELAX_MUTEX_KEY'') (bot_message_key e1) = None"
  shows "\<exists>w1 w2. sendEvent svc env c1 ty1 m1 text1 ts1 ets w = Some (None, w1) \<and>
    sendEvent svc env c2 ty2 m2 text2 ts2 ets w1 = Some (None, w2) \<and>
    queue w2 = push (queue w) (env ''RELAX_EVENTS_QUEUE'') (enc_Event e1)"
proof -
  obtain w1 where 1: "sendEvent svc env c1 ty1 m1 text1 ts1 ets w = Some (None, w1)"
    "(hash w1, queue w1) =
      deliver env (event_at (fst (now_nanos svc w)) c1 ty1 m1 text1 ts1 ets) (hash w, queue w)"
    by (rule sendEvent_up [OF assms(1,2,3,4)])
  obtain w2 where 2: "sendEvent svc env c2 ty2 m2 text2 ts2 ets w1 = Some (None, w2)"
    "(hash w2, queue w2) =
      deliver env (event_at (fst (now_nanos svc w1)) c2 ty2 m2 text2 ts2 ets) (hash w1, queue w1)"
    by (rule sendEvent_up [OF assms(1,2,3,5)])
  have "event_at (fst (now_nanos svc w)) c1 ty1 m1 text1 ts1 ets = e1"
    using assms by (simp add: event_at_def)
  moreover have "bot_message_key (event_at (fst (now_nanos svc w1)) c2 ty2 m2 text2 ts2 ets) = bot_message_key e1"
    using assms by (simp add: bot_message_key_def make_event_def)
  ultimately show ?thesis using 1 2 assms(9) by (auto simp: deliver_def)
qed

text \<open>
  A retried RPUSH can break send-only-once: when the connection is lost after the server has
  run the command, the redis client sends it again, and the queue holds the event twice.
\<close>

lemma retried_push_duplicates:
  "\<exists>w'. sendEvent flaky sample_env sample_client ''message_new'' (posted_by ''U1'' ''C1'' ''5'') ''hi'' ''5'' ''5''
      (world0\<lparr>W_lost := 1\<rparr>) = Some (None, w') \<and>
    (let e = make_event sample_client sample_metadata ''message_new'' (posted_by ''U1'' ''C1'' ''5'') ''hi'' ''5'' ''5''
     in W_queue w' ''events'' = [enc_Event e, enc_Event e])"
  by (simp add: sendEvent_def sample_client_def send_def HSetNX_def RPush_def Multi_Close_def with_val_def
      MaxRetries_def flaky_def world0_def bool_val_def int_val_def string_result_def sample_env_def
      eval_nat_numeral Let_def)

text \<open>
  A plain message whose dedup field is free reaches the queue exactly when it is not the
  bot's own message, or RELAX_SEND_BOT_REPLIES is "true".
\<close>

lemma own_messages_filtered:
  assumes "redis_lawful svc hash queue" "redis_up svc" "clock_frame svc hash queue" "started c"
    and "Msg_Type msg = ''message''" "Msg_Subtype msg = []"
    and "hash w (env ''RELAX_MUTEX_KEY'')
      (''bot_message:'' @ Ch_Id (get_channel (the (C_data c)) (Message_ChannelId msg)) @ CHR '':'' #
        (if Msg_Timestamp msg = [] then show_int (fst (now_nanos svc w)) else Msg_Timestamp msg)) = None"
  shows "\<exists>c' w'. handleMessage svc env c msg w = Some (c', w') \<and>
    (queue w' \<noteq> queue w \<longleftrightarrow>
       Message_UserId msg \<noteq> User_Id (Md_Self (the (C_data c))) \<or> env ''RELAX_SEND_BOT_REPLIES'' = ''true'')"
proof -
  have "classify msg = Posted" using assms(5,6) by (simp add: classify_def)
  moreover have "push q k v \<noteq> q" for q k v by (metis append_self_conv not_Cons_self2 push_same)
  ultimately show ?thesis
    using handleMessage_up [OF assms(1-4), of env msg w] assms(7)
    by (auto simp: event_for_def client_after_posted own_message_def Let_def deliver_def bot_message_key_def
        split: if_splits)
qed

text \<open>
  Handling any message, whatever Redis answers, keeps the client well formed (started, every
  user and every channel of its tables filed under its own id) and leaves its token, team,
  namespace, connection, ticker and own user as they were.
\<close>

lemma handleMessage_invariant:
  assumes "handleMessage svc env c msg w = Some (c', w')" and "client_wf c"
  shows "client_wf c' \<and> same_identity c c'"
proof -
  have "c' = client_after msg c" by (rule handleMessage_client [OF assms(1)])
  moreover have "started c" using assms(2) by (simp add: client_wf_def)
  ultimately show ?thesis
    using client_after_wf [OF assms(2)] client_after_identity by simp
qed

text \<open>
  A member who joins is known at once: after a team_join for user u, a message that u posts
  makes an event with u's id (unless u is the bot itself).
\<close>

lemma joined_user_known:
  assumes "handleMessage svc env c join w = Some (c', w')" "started c" "classify join = TeamJoin u"
    and "classify msg = Posted" "Message_UserId msg = User_Id u"
    and "User_Id u \<noteq> User_Id (Md_Self (the (C_data c)))"
  shows "\<exists>e. event_for env now msg c' = Some e \<and> Ev_Type e = ''message_new'' \<and> Ev_UserUid e = User_Id u"
proof -
  have c': "c' = client_after join c" by (rule handleMessage_client [OF assms(1)])
  have "same_identity c c'" using c' assms(2) by (simp add: client_after_identity)
  moreover have "C_data c \<noteq> None" "C_data c' \<noteq> None"
    using c' client_after_started [OF assms(2)] assms(2) by (auto simp: started_def)
  ultimately have "Md_Self (the (C_data c')) = Md_Self (the (C_data c))"
    by (auto simp: same_identity_def)
  then show ?thesis
    using assms(4-6) client_after_join [OF assms(3,2)] c'
    by (auto simp: event_for_def client_after_posted own_message_def Let_def)
qed

text \<open>A team_join message for a user with the given id.\<close>

definition join_of :: "string \<Rightarrow> Message" where
  "join_of user = zero_Message\<lparr>Msg_Type := ''team_join'',
     Msg_RawUser := enc_object [(''id'', quote_string user)]\<rparr>"

lemma user_json_reads:
  "reads_as (enc_object [(''id'', quote_string user)])
     (JObj (enc_object [(''id'', quote_string user)]) [(enc_body ''id'', val_string user)])"
  by (rule reads_object) (simp add: val_string_def reads_string)

lemma join_classify [simp]:
  "valid_utf8 user \<Longrightarrow> classify (join_of user) = TeamJoin (zero_User\<lparr>User_Id := user\<rparr>)"
  by (simp add: classify_def join_of_def zero_Message_def decoded_def unmarshal_def
      parse_json_reads [OF user_json_reads] dec_User_def dec_struct_def fields_User_def struct_reads
      val_string_def dec_string_def zero_User_def)

text \<open>
  Messages in channels that the client does not know share one dedup key per timestamp,
  across channels and even across teams: of two such messages from different clients the second
  never reaches the queue.
\<close>

lemma unknown_channels_collide:
  assumes "redis_lawful svc hash queue" "redis_up svc" "clock_frame svc hash queue" "started c1" "started c2"
    and "classify m1 = Posted" "classify m2 = Posted" "\<not> own_message c1 m1"
    and "Msg_Timestamp m1 \<noteq> []" "Msg_Timestamp m2 = Msg_Timestamp m1"
    and "get_channel (the (C_data c1)) (Message_ChannelId m1) = zero_Channel"
    and "get_channel (the (C_data c2)) (Message_ChannelId m2) = zero_Channel"
  shows "\<exists>w1 w2. handleMessage svc env c1 m1 w = Some (c1, w1) \<and>
    handleMessage svc env c2 m2 w1 = Some (c2, w2) \<and> queue w2 = queue w1"
proof -
  obtain w1 where 1: "handleMessage svc env c1 m1 w = Some (c1, w1)"
    "(hash w1, queue w1) = deliver env (event_at (fst (now_nanos svc w)) c1 ''message_new''
       (with_names (the (C_data c1)) (Message_UserId m1) (Message_ChannelId m1) m1)
       (Msg_Text m1) (Msg_Timestamp m1) (Msg_Timestamp m1)) (hash w, queue w)"
    using handleMessage_up [OF assms(1-4), of env m1 w] assms(6,8)
    by (auto simp: event_for_def client_after_posted Let_def)
  have taken: "hash w1 (env ''RELAX_MUTEX_KEY'') (''bot_message:'' @ CHR '':'' # Msg_Timestamp m1) \<noteq> None"
    using 1(2) assms(9,11) by (auto simp: deliver_def bot_message_key_def zero_Channel_def)
  obtain w2 where 2: "handleMessage svc env c2 m2 w1 = Some (client_after m2 c2, w2)"
    "(hash w2, queue w2) = (case event_for env (fst (now_nanos svc w1)) m2 c2 of
         None \<Rightarrow> (hash w1, queue w1) | Some e \<Rightarrow> deliver env e (hash w1, queue w1))"
    using handleMessage_up [OF assms(1-3,5), of env m2 w1] by blast
  then have "queue w2 = queue w1"
    using taken assms(7,9,10,12)
    by (auto simp: event_for_def client_after_posted Let_def deliver_def bot_message_key_def zero_Channel_def
        split: if_splits)
  with 1 2 assms(7) show ?thesis by (auto simp: client_after_posted)
qed

text \<open>
  Two joins of the same channel are one event exactly when the clock shows the same minute:
  their events have the same dedup key iff the minute, in seconds, is the same.
\<close>

lemma joins_merge_per_minute:
  assumes "classify m1 = Joined ch1" "classify m2 = Joined ch2" "Ch_Id ch1 = Ch_Id ch2"
    and "event_for env t1 m1 c1 = Some e1" "event_for env t2 m2 c2 = Some e2" "0 \<le> t1" "0 \<le> t2"
  shows "bot_message_key e1 = bot_message_key e2 \<longleftrightarrow> t1 div 60000000000 = t2 div 60000000000"
proof -
  have ts: "Ev_EventTimestamp e1 = joined_timestamp t1 (Ch_Id ch1)"
    "Ev_EventTimestamp e2 = joined_timestamp t2 (Ch_Id ch1)"
    "Ev_ChannelUid e1 = Ch_Id ch1" "Ev_ChannelUid e2 = Ch_Id ch1"
    using assms by (auto simp: event_for_def Let_def)
  have "bot_message_key e1 = bot_message_key e2 \<longleftrightarrow> minute_of t1 = minute_of t2"
  proof
    assume "minute_of t1 = minute_of t2"
    then show "bot_message_key e1 = bot_message_key e2" by (simp add: bot_message_key_def ts joined_timestamp_def)
  qed (auto simp: bot_message_key_def ts dest: joined_timestamp_inject)
  then show ?thesis using assms(6,7) by (simp add: minute_of_nonneg)
qed

definition join_channel :: "string \<Rightarrow> Message" where
  "join_channel ch = zero_Message\<lparr>Msg_Type := ''channel_joined'',
     Msg_RawChannel := enc_object [(''id'', quote_string ch)]\<rparr>"

lemma join_channel_classify [simp]:
  "valid_utf8 ch \<Longrightarrow> classify (join_channel ch) = Joined (zero_Channel\<lparr>Ch_Id := ch, Ch_Im := False\<rparr>)"
  by (simp add: classify_def join_channel_def zero_Message_def decoded_def unmarshal_def
      parse_json_reads [OF user_json_reads] dec_Channel_def dec_struct_def fields_Channel_def struct_reads
      val_string_def dec_string_def zero_Channel_def)

end
