(* ===== verification/GoUrl.thy ===== *)
theory GoUrl
  imports GoLib "HOL-Library.Char_ord" "HOL-Library.List_Lexorder"
begin

text \<open>
  The part of Go's \<open>net/url\<close> (as of Go 1.7) that the program calls: \<open>url.Parse\<close> and
  \<open>url.ParseRequestURI\<close>, \<open>URL.String\<close>, and \<open>Values.Encode\<close> with \<open>QueryEscape\<close>. A URL that does
  not parse is None. The lemmas: an escaped component contains no separator and can be read
  back, and how a URL with a scheme and an authority is parsed and printed.
\<close>

section \<open>Escaping\<close>

datatype url_mode = EncPath | EncHost | EncZone | EncUserPassword | EncQueryComponent | EncFragment

definition is_alpha :: "char \<Rightarrow> bool" where
  "is_alpha c \<longleftrightarrow> (97 \<le> byte c \<and> byte c \<le> 122) \<or> (65 \<le> byte c \<and> byte c \<le> 90)"

definition shouldEscape :: "char \<Rightarrow> url_mode \<Rightarrow> bool" where
  "shouldEscape c mode =
     (if is_alpha c \<or> is_digit c then False
      else if (mode = EncHost \<or> mode = EncZone) \<and> c \<in> set ''!$&()*+,;=:[]<>'' \<union> {CHR 0x22, CHR 0x27} then False
      else if c \<in> set ''-_.~'' then False
      else if c \<in> set ''$&+,/:;=?@'' then
        (case mode of
           EncPath \<Rightarrow> c = CHR ''?''
         | EncUserPassword \<Rightarrow> c \<in> set ''@/?:''
         | EncQueryComponent \<Rightarrow> True
         | EncFragment \<Rightarrow> False
         | _ \<Rightarrow> True)
      else True)"

definition hex_digit :: "nat \<Rightarrow> char" where
  "hex_digit n = (if n < 10 then chr (48 + n) else chr (55 + n))"

definition unhex :: "char \<Rightarrow> nat option" where
  "unhex c =
     (if is_digit c then Some (byte c - 48)
      else if 97 \<le> byte c \<and> byte c \<le> 102 then Some (byte c - 87)
      else if 65 \<le> byte c \<and> byte c \<le> 70 then Some (byte c - 55)
      else None)"

fun escape :: "url_mode \<Rightarrow> string \<Rightarrow> string" where
  "escape mode [] = []"
| "escape mode (c # s) =
     (if \<not> shouldEscape c mode then c # escape mode s
      else if c = CHR '' '' \<and> mode = EncQueryComponent then CHR ''+'' # escape mode s
      else CHR ''%'' # hex_digit (byte c div 16) # hex_digit (byte c mod 16) # escape mode s)"

text \<open>
  \<open>unescape\<close>. In a host only bytes outside ASCII, or a percent sign, may be percent-encoded; a
  zone identifier is laxer, but still forbids what would be an unprintable character.
\<close>

fun unescape :: "url_mode \<Rightarrow> string \<Rightarrow> string option" where
  "unescape mode [] = Some []"
| "unescape mode (c # s) =
     (if c = CHR ''%'' then
        (case s of
           a # b # r \<Rightarrow>
             (case (unhex a, unhex b) of
                (Some x, Some y) \<Rightarrow>
                  if mode = EncHost \<and> x < 8 \<and> (a, b) \<noteq> (CHR ''2'', CHR ''5'') then None
                  else if mode = EncZone \<and> (a, b) \<noteq> (CHR ''2'', CHR ''5'') \<and> chr (16 * x + y) \<noteq> CHR '' '' \<and>
                    shouldEscape (chr (16 * x + y)) EncHost then None
                  else map_option ((#) (chr (16 * x + y))) (unescape mode r)
              | _ \<Rightarrow> None)
         | _ \<Rightarrow> None)
      else if (mode = EncHost \<or> mode = EncZone) \<and> byte c < 128 \<and> shouldEscape c mode then None
      else map_option ((#) (if c = CHR ''+'' \<and> mode = EncQueryComponent then CHR '' '' else c)) (unescape mode s))"

definition QueryEscape :: "string \<Rightarrow> string" where
  "QueryEscape = escape EncQueryComponent"

lemma unhex_hex_digit [simp]: "n < 16 \<Longrightarrow> unhex (hex_digit n) = Some n"
  by (auto simp: unhex_def hex_digit_def is_digit_def)

lemma percent_escaped [simp]: "shouldEscape CHR ''%'' mode"
  by (simp add: shouldEscape_def is_alpha_def is_digit_def)

lemma escaped_char [simp]: "byte c < 256 \<Longrightarrow> chr (16 * (byte c div 16) + byte c mod 16) = c"
  by simp

lemma unescape_percent:
  assumes "mode \<noteq> EncHost" "mode \<noteq> EncZone"
  shows "unescape mode (CHR ''%'' # hex_digit (byte c div 16) # hex_digit (byte c mod 16) # r) =
     map_option ((#) c) (unescape mode r)"
proof -
  have "byte c div 16 < 16" by (simp add: less_mult_imp_div_less)
  then show ?thesis using assms by simp
qed

lemma special_escaped: "shouldEscape CHR ''+'' EncQueryComponent" "shouldEscape CHR '' '' EncQueryComponent"
  by (simp_all add: shouldEscape_def is_alpha_def is_digit_def)

lemma unescape_escape: "mode \<noteq> EncHost \<Longrightarrow> mode \<noteq> EncZone \<Longrightarrow> unescape mode (escape mode s) = Some s"
proof (induction s)
  case (Cons c s)
  show ?case
  proof (cases "shouldEscape c mode")
    case False
    then have "c \<noteq> CHR ''%''" "c = CHR ''+'' \<longrightarrow> mode \<noteq> EncQueryComponent"
      using special_escaped percent_escaped by metis+
    then show ?thesis using False Cons by simp
  next
    case True
    show ?thesis
    proof (cases "c = CHR '' '' \<and> mode = EncQueryComponent")
      case False
      with True have "escape mode (c # s) =
          CHR ''%'' # hex_digit (byte c div 16) # hex_digit (byte c mod 16) # escape mode s"
        by (simp del: One_nat_def)
      moreover have "unescape mode (escape mode s) = Some s" using Cons by simp
      ultimately show ?thesis
        using Cons.prems by (simp del: unescape.simps escape.simps add: unescape_percent)
    qed (use True Cons in simp)
  qed
qed simp

lemma unescape_escape_query: "unescape EncQueryComponent (QueryEscape s) = Some s"
  by (simp add: QueryEscape_def unescape_escape)

text \<open>An escaped component is made of unreserved characters, percent signs and plus signs.\<close>

lemma is_digit_hex_digit: "n < 16 \<Longrightarrow> is_digit (hex_digit n) \<or> is_alpha (hex_digit n)"
  by (auto simp: hex_digit_def is_digit_def is_alpha_def)

definition query_safe :: "char \<Rightarrow> bool" where
  "query_safe c \<longleftrightarrow> is_alpha c \<or> is_digit c \<or> c \<in> set ''-_.~%+''"

lemma QueryEscape_safe: "\<forall>c\<in>set (QueryEscape s). query_safe c"
proof (induction s)
  case (Cons c s)
  have "byte c div 16 < 16" by (simp add: less_mult_imp_div_less)
  then have "query_safe (hex_digit (byte c div 16))" "query_safe (hex_digit (byte c mod 16))"
    using is_digit_hex_digit [of "byte c div 16"] is_digit_hex_digit [of "byte c mod 16"]
    by (auto simp: query_safe_def)
  moreover have "\<not> shouldEscape c EncQueryComponent \<Longrightarrow> query_safe c"
    by (auto simp: shouldEscape_def query_safe_def split: if_splits)
  ultimately show ?case using Cons by (auto simp: QueryEscape_def query_safe_def)
qed (simp add: QueryEscape_def)

section \<open>Values.Encode\<close>

type_synonym url_values = "(string \<times> string list) list"

definition join :: "string \<Rightarrow> string list \<Rightarrow> string" where
  "join sep ss = (case ss of [] \<Rightarrow> [] | s # r \<Rightarrow> s @ concat (List.map ((@) sep) r))"

text \<open>The map of the parameters as a list of its entries; Encode sorts it by key.\<close>

definition values_encode :: "url_values \<Rightarrow> string" where
  "values_encode params = join ''&'' (concat (List.map
     (\<lambda>(k, vs). List.map (\<lambda>v. QueryEscape k @ CHR ''='' # QueryEscape v) vs) (sort_key fst params)))"

section \<open>Parsing and printing URLs\<close>

record url =
  U_Scheme :: string
  U_Opaque :: string
  U_User :: "(string \<times> string option) option"   \<comment> \<open>name, and the password when one is set\<close>
  U_Host :: string
  U_Path :: string
  U_RawPath :: string
  U_ForceQuery :: bool
  U_RawQuery :: string
  U_Fragment :: string

definition zero_url :: url where
  "zero_url = \<lparr>U_Scheme = [], U_Opaque = [], U_User = None, U_Host = [], U_Path = [], U_RawPath = [],
     U_ForceQuery = False, U_RawQuery = [], U_Fragment = []\<rparr>"

text \<open>\<open>split(s, c, cutc)\<close> at the first occurrence of a byte, and at the last one.\<close>

definition split_cut :: "char \<Rightarrow> string \<Rightarrow> string \<times> string" where
  "split_cut c s = (takeWhile (\<lambda>x. x \<noteq> c) s, drop 1 (dropWhile (\<lambda>x. x \<noteq> c) s))"

definition split_keep :: "char \<Rightarrow> string \<Rightarrow> string \<times> string" where
  "split_keep c s = (takeWhile (\<lambda>x. x \<noteq> c) s, dropWhile (\<lambda>x. x \<noteq> c) s)"

definition split_last :: "char \<Rightarrow> string \<Rightarrow> (string \<times> string) option" where
  "split_last c s =
     (if c \<in> set s then
        Some (rev (drop 1 (dropWhile (\<lambda>x. x \<noteq> c) (rev s))), rev (takeWhile (\<lambda>x. x \<noteq> c) (rev s)))
      else None)"

text \<open>\<open>getscheme\<close>: None is the error for a colon at the start.\<close>

fun scheme_scan :: "string \<Rightarrow> string \<Rightarrow> (string \<times> string) option option" where
  "scheme_scan acc [] = Some None"
| "scheme_scan acc (c # s) =
     (if is_alpha c then scheme_scan (acc @ [c]) s
      else if is_digit c \<or> c \<in> set ''+-.'' then
        (if acc = [] then Some None else scheme_scan (acc @ [c]) s)
      else if c = CHR '':'' then (if acc = [] then None else Some (Some (acc, s)))
      else Some None)"

definition getscheme :: "string \<Rightarrow> (string \<times> string) option" where
  "getscheme s = map_option (\<lambda>r. case r of None \<Rightarrow> ([], s) | Some p \<Rightarrow> p) (scheme_scan [] s)"

definition lower :: "char \<Rightarrow> char" where
  "lower c = (if 65 \<le> byte c \<and> byte c \<le> 90 then chr (byte c + 32) else c)"

definition validOptionalPort :: "string \<Rightarrow> bool" where
  "validOptionalPort port = (case port of [] \<Rightarrow> True | c # r \<Rightarrow> c = CHR '':'' \<and> list_all is_digit r)"

text \<open>The position of the zone identifier "%25" in an IPv6 literal, as a split.\<close>

fun split_zone :: "string \<Rightarrow> (string \<times> string) option" where
  "split_zone [] = None"
| "split_zone (c # s) =
     (if take 3 (c # s) = ''%25'' then Some ([], c # s)
      else map_option (\<lambda>(a, b). (c # a, b)) (split_zone s))"

definition parseHost :: "string \<Rightarrow> string option" where
  "parseHost host =
     (if host \<noteq> [] \<and> hd host = CHR ''['' then
        (case split_last CHR '']'' host of
           None \<Rightarrow> None
         | Some (inner, colonPort) \<Rightarrow>
             if \<not> validOptionalPort colonPort then None
             else (case split_zone inner of
                 None \<Rightarrow> unescape EncHost host
               | Some (h1, h2) \<Rightarrow> do {
                   a \<leftarrow> unescape EncHost h1;
                   b \<leftarrow> unescape EncZone h2;
                   c \<leftarrow> unescape EncHost (CHR '']'' # colonPort);
                   Some (a @ b @ c)
                 }))
      else unescape EncHost host)"

definition parseAuthority :: "string \<Rightarrow> ((string \<times> string option) option \<times> string) option" where
  "parseAuthority authority =
     (case split_last CHR ''@'' authority of
        None \<Rightarrow> map_option (\<lambda>h. (None, h)) (parseHost authority)
      | Some (userinfo, h) \<Rightarrow> do {
          host \<leftarrow> parseHost h;
          if CHR '':'' \<notin> set userinfo then
            map_option (\<lambda>u. (Some (u, None), host)) (unescape EncUserPassword userinfo)
          else let (name, password) = split_cut CHR '':'' userinfo in do {
            u \<leftarrow> unescape EncUserPassword name;
            p \<leftarrow> unescape EncUserPassword password;
            Some (Some (u, Some p), host)
          }
        })"

definition set_path :: "string \<Rightarrow> url \<Rightarrow> url option" where
  "set_path rest u = map_option (\<lambda>p.
     u\<lparr>U_Path := p, U_RawPath := (if escape EncPath p = rest then [] else rest)\<rparr>) (unescape EncPath rest)"

text \<open>\<open>parse(rawurl, viaRequest)\<close>.\<close>

definition url_parse :: "string \<Rightarrow> bool \<Rightarrow> url option" where
  "url_parse rawurl viaRequest =
     (if rawurl = [] \<and> viaRequest then None
      else if rawurl = ''*'' then Some (zero_url\<lparr>U_Path := ''*''\<rparr>)
      else do {
        (scheme0, rest0) \<leftarrow> getscheme rawurl;
        let scheme = List.map lower scheme0;
        let force = (rest0 \<noteq> [] \<and> last rest0 = CHR ''?'' \<and> count_list rest0 CHR ''?'' = 1);
        let (rest, query) = (if force then (butlast rest0, []) else split_cut CHR ''?'' rest0);
        let u = zero_url\<lparr>U_Scheme := scheme, U_ForceQuery := force, U_RawQuery := query\<rparr>;
        if take 1 rest \<noteq> ''/'' \<and> scheme \<noteq> [] then Some (u\<lparr>U_Opaque := rest\<rparr>)
        else if take 1 rest \<noteq> ''/'' \<and> viaRequest then None
        else if (scheme \<noteq> [] \<or> (\<not> viaRequest \<and> take 3 rest \<noteq> ''///'')) \<and> take 2 rest = ''//'' then
          (let (authority, path) = split_keep CHR ''/'' (drop 2 rest) in do {
             (user, host) \<leftarrow> parseAuthority authority;
             set_path path (u\<lparr>U_User := user, U_Host := host\<rparr>)
           })
        else set_path rest u
      })"

definition ParseRequestURI :: "string \<Rightarrow> url option" where
  "ParseRequestURI s = url_parse s True"

definition url_Parse :: "string \<Rightarrow> url option" where
  "url_Parse s =
     (let (u, frag) = split_cut CHR ''#'' s in do {
        url \<leftarrow> url_parse u False;
        if frag = [] then Some url
        else map_option (\<lambda>f. url\<lparr>U_Fragment := f\<rparr>) (unescape EncFragment frag)
      })"

definition validEncodedPath :: "string \<Rightarrow> bool" where
  "validEncodedPath s =
     list_all (\<lambda>c. c \<in> set ''!$&()*+,;=:@[]%'' \<or> c = CHR 0x27 \<or> \<not> shouldEscape c EncPath) s"

definition EscapedPath :: "url \<Rightarrow> string" where
  "EscapedPath u =
     (if U_RawPath u \<noteq> [] \<and> validEncodedPath (U_RawPath u) \<and>
         unescape EncPath (U_RawPath u) = Some (U_Path u) then U_RawPath u
      else if U_Path u = ''*'' then ''*''
      else escape EncPath (U_Path u))"

definition url_String :: "url \<Rightarrow> string" where
  "url_String u =
     (if U_Scheme u \<noteq> [] then U_Scheme u @ '':'' else []) @
     (if U_Opaque u \<noteq> [] then U_Opaque u
      else
        (if U_Scheme u \<noteq> [] \<or> U_Host u \<noteq> [] \<or> U_User u \<noteq> None then
           ''//'' @
           (case U_User u of
              None \<Rightarrow> []
            | Some (n, None) \<Rightarrow> escape EncUserPassword n @ ''@''
            | Some (n, Some p) \<Rightarrow> escape EncUserPassword n @ '':'' @ escape EncUserPassword p @ ''@'') @
           escape EncHost (U_Host u)
         else []) @
        (let path = EscapedPath u
         in (if path \<noteq> [] \<and> hd path \<noteq> CHR ''/'' \<and> U_Host u \<noteq> [] then ''/'' else []) @ path)) @
     (if U_ForceQuery u \<or> U_RawQuery u \<noteq> [] then CHR ''?'' # U_RawQuery u else []) @
     (if U_Fragment u \<noteq> [] then CHR ''#'' # escape EncFragment (U_Fragment u) else [])"

section \<open>URLs with a plain host\<close>

definition plain_char :: "char \<Rightarrow> bool" where
  "plain_char c \<longleftrightarrow> is_alpha c \<or> is_digit c \<or> c \<in> set ''.-:''"

definition plain_host :: "string \<Rightarrow> bool" where
  "plain_host h \<longleftrightarrow> h \<noteq> [] \<and> (\<forall>c\<in>set h. plain_char c)"

lemma alnum_simps [simp]:
  "is_alpha CHR ''/'' = False" "is_digit CHR ''/'' = False" "is_alpha CHR ''@'' = False" "is_digit CHR ''@'' = False"
  "is_alpha CHR ''?'' = False" "is_digit CHR ''?'' = False" "is_alpha CHR ''#'' = False" "is_digit CHR ''#'' = False"
  "is_alpha CHR ''%'' = False" "is_digit CHR ''%'' = False" "is_alpha CHR ''['' = False" "is_digit CHR ''['' = False"
  "is_alpha CHR '':'' = False" "is_digit CHR '':'' = False"
  by (simp_all add: is_alpha_def is_digit_def)

lemma plain_char_not [simp]:
  "\<not> plain_char CHR ''/''" "\<not> plain_char CHR ''@''" "\<not> plain_char CHR ''?''" "\<not> plain_char CHR ''#''"
  "\<not> plain_char CHR ''%''" "\<not> plain_char CHR ''[''"
  by (simp_all add: plain_char_def)

lemma plain_not_escaped: "plain_char c \<Longrightarrow> \<not> shouldEscape c EncHost"
  by (auto simp: plain_char_def shouldEscape_def)

lemma plain_host_chars:
  assumes "plain_host h"
  shows "CHR ''/'' \<notin> set h" "CHR ''@'' \<notin> set h" "CHR ''?'' \<notin> set h" "CHR ''#'' \<notin> set h"
    "CHR ''%'' \<notin> set h" "h \<noteq> []" "hd h \<noteq> CHR ''[''"
proof -
  have plain: "c \<notin> set h" if "\<not> plain_char c" for c using assms that by (auto simp: plain_host_def)
  show "CHR ''/'' \<notin> set h" "CHR ''@'' \<notin> set h" "CHR ''?'' \<notin> set h" "CHR ''#'' \<notin> set h" "CHR ''%'' \<notin> set h"
    by (simp_all add: plain)
  show "h \<noteq> []" using assms by (simp add: plain_host_def)
  then show "hd h \<noteq> CHR ''[''" using plain [of "CHR ''[''"] by (cases h) auto
qed

lemma unescape_plain: "\<forall>c\<in>set h. plain_char c \<Longrightarrow> unescape EncHost h = Some h"
proof (induction h)
  case (Cons c h)
  then have "\<not> shouldEscape c EncHost" "unescape EncHost h = Some h" by (simp_all add: plain_not_escaped)
  moreover have "c \<noteq> CHR ''%''" using Cons.prems by auto
  ultimately show ?case by simp
qed simp

lemma escape_plain: "\<forall>c\<in>set h. plain_char c \<Longrightarrow> escape EncHost h = h"
  by (induction h) (simp_all add: plain_not_escaped)

lemma parseHost_plain: "plain_host h \<Longrightarrow> parseHost h = Some h"
  using plain_host_chars(7) [of h] by (simp add: parseHost_def plain_host_def unescape_plain)

lemma before_first: "c \<notin> set a \<Longrightarrow> takeWhile (\<lambda>x. x \<noteq> c) (a @ c # b) = a"
  by (induction a) auto

lemma from_first: "c \<notin> set a \<Longrightarrow> dropWhile (\<lambda>x. x \<noteq> c) (a @ c # b) = c # b"
  by (induction a) auto

lemma split_last_append: "c \<notin> set b \<Longrightarrow> split_last c (a @ c # b) = Some (a, b)"
  by (simp add: split_last_def before_first from_first)

lemma split_last_none: "c \<notin> set b \<Longrightarrow> split_last c b = None"
  by (simp add: split_last_def)

lemma split_cut_none: "c \<notin> set s \<Longrightarrow> split_cut c s = (s, [])"
  unfolding split_cut_def by (metis (mono_tags, lifting) drop_Nil dropWhile_eq_Nil_conv prod.inject takeWhile_eq_all_conv)

lemma split_cut_append: "c \<notin> set a \<Longrightarrow> split_cut c (a @ c # b) = (a, b)"
  by (simp add: split_cut_def before_first from_first)

lemma split_keep_none: "c \<notin> set s \<Longrightarrow> split_keep c s = (s, [])"
  unfolding split_keep_def by (metis (mono_tags, lifting) dropWhile_eq_Nil_conv takeWhile_eq_all_conv)

text \<open>A URL that is a scheme and an authority: the authority decides user and host.\<close>

lemma set_path_empty: "U_RawPath u = [] \<Longrightarrow> U_Path u = [] \<Longrightarrow> set_path [] u = Some u"
  by (simp add: set_path_def)

lemma url_parse_authority:
  assumes scheme: "scheme_scan [] s = Some (Some (sc, CHR ''/'' # CHR ''/'' # a))"
    and sc: "sc \<noteq> []" "List.map lower sc = sc" "s \<noteq> ''*''" "s \<noteq> []"
    and a: "CHR ''/'' \<notin> set a" "CHR ''?'' \<notin> set a"
  shows "url_parse s via =
    map_option (\<lambda>(user, host). zero_url\<lparr>U_Scheme := sc, U_User := user, U_Host := host\<rparr>) (parseAuthority a)"
proof -
  have "count_list (CHR ''/'' # CHR ''/'' # a) CHR ''?'' = 0" using a by (simp add: count_list_0_iff)
  moreover have "split_cut CHR ''?'' (CHR ''/'' # CHR ''/'' # a) = (CHR ''/'' # CHR ''/'' # a, [])"
    using a by (intro split_cut_none) simp
  ultimately show ?thesis
    using assms split_keep_none [OF a(1)]
    by (cases "parseAuthority a")
      (auto simp: url_parse_def getscheme_def Let_def zero_url_def set_path_def)
qed

lemma parseAuthority_plain: "plain_host h \<Longrightarrow> parseAuthority h = Some (None, h)"
  using plain_host_chars [of h] by (simp add: parseAuthority_def split_last_none parseHost_plain)

lemma parseAuthority_password:
  assumes "plain_host h"
  shows "parseAuthority (CHR '':'' # escape EncUserPassword p @ CHR ''@'' # h) = Some (Some ([], Some p), h)"
proof -
  have "split_last CHR ''@'' ((CHR '':'' # escape EncUserPassword p) @ CHR ''@'' # h) =
      Some (CHR '':'' # escape EncUserPassword p, h)"
    using plain_host_chars [OF assms] by (intro split_last_append) simp
  moreover have "split_cut CHR '':'' ([] @ CHR '':'' # escape EncUserPassword p) = ([], escape EncUserPassword p)"
    by (rule split_cut_append) simp
  ultimately show ?thesis
    using assms by (simp add: parseAuthority_def parseHost_plain unescape_escape)
qed

text \<open>Escaped passwords hold no character that ends the authority.\<close>

lemma hex_digit_not:
  assumes "n < 16" "\<not> is_alpha c" "\<not> is_digit c"
  shows "hex_digit n \<noteq> c"
  using is_digit_hex_digit [OF assms(1)] assms(2,3) by auto

lemma escape_not_in:
  assumes "shouldEscape c mode" "\<not> is_alpha c" "\<not> is_digit c" "c \<noteq> CHR ''%''" "c \<noteq> CHR ''+''"
  shows "c \<notin> set (escape mode p)"
proof (induction p)
  case (Cons x p)
  have "hex_digit (byte x div 16) \<noteq> c" "hex_digit (byte x mod 16) \<noteq> c"
    using assms by (simp_all add: hex_digit_not less_mult_imp_div_less)
  with Cons assms show ?case by (cases "x = c") auto
qed simp

lemma escape_password_chars [simp]:
  "CHR ''/'' \<notin> set (escape EncUserPassword p)" "CHR ''?'' \<notin> set (escape EncUserPassword p)"
  "CHR ''#'' \<notin> set (escape EncUserPassword p)" "CHR ''@'' \<notin> set (escape EncUserPassword p)"
  by (rule escape_not_in; simp add: shouldEscape_def)+

lemma url_Parse_redis:
  assumes "plain_host h"
  shows "url_Parse (''redis://:'' @ escape EncUserPassword p @ CHR ''@'' # h) =
      Some (zero_url\<lparr>U_Scheme := ''redis'', U_User := Some ([], Some p), U_Host := h\<rparr>)"
    and "url_Parse (''redis://'' @ h) = Some (zero_url\<lparr>U_Scheme := ''redis'', U_Host := h\<rparr>)"
proof -
  note chars = plain_host_chars [OF assms]
  have lower: "List.map lower ''redis'' = ''redis''" by (simp add: lower_def)
  have scan: "scheme_scan [] (''redis://'' @ a) = Some (Some (''redis'', CHR ''/'' # CHR ''/'' # a))" for a
    by (simp add: is_alpha_def)
  show "url_Parse (''redis://:'' @ escape EncUserPassword p @ CHR ''@'' # h) =
      Some (zero_url\<lparr>U_Scheme := ''redis'', U_User := Some ([], Some p), U_Host := h\<rparr>)"
    using url_parse_authority [OF scan [of "CHR '':'' # escape EncUserPassword p @ CHR ''@'' # h"] _ lower, of False]
      chars escape_password_chars parseAuthority_password [OF assms]
    by (simp add: url_Parse_def split_cut_none)
  show "url_Parse (''redis://'' @ h) = Some (zero_url\<lparr>U_Scheme := ''redis'', U_Host := h\<rparr>)"
    using url_parse_authority [OF scan [of h] _ lower, of False] chars parseAuthority_plain [OF assms]
    by (simp add: url_Parse_def split_cut_none zero_url_def)
qed

text \<open>Setting the path of a base URL with a plain host.\<close>

lemma url_with_path:
  assumes "plain_host h" "sc = ''http'' \<or> sc = ''https''"
  shows "ParseRequestURI (sc @ ''://'' @ h) = Some (zero_url\<lparr>U_Scheme := sc, U_Host := h\<rparr>)"
proof -
  note chars = plain_host_chars [OF assms(1)]
  have "scheme_scan [] (sc @ ''://'' @ h) = Some (Some (sc, CHR ''/'' # CHR ''/'' # h))"
    using assms(2) by (auto simp: is_alpha_def)
  moreover have "List.map lower sc = sc" "sc \<noteq> []" using assms(2) by (auto simp: lower_def)
  ultimately show ?thesis
    using url_parse_authority [of "sc @ ''://'' @ h" sc h True] chars parseAuthority_plain [OF assms(1)] assms(2)
    by (auto simp: ParseRequestURI_def zero_url_def)
qed

end
