(* ===== verification/SlackApi.thy ===== *)
theory SlackApi
  imports ClientBase GoUrl Server
begin

text \<open>
  Calls of Slack's HTTP API (slack/client.go): \<open>callAPI\<close>, \<open>callSlack\<close> and \<open>Login\<close>, which fills
  the tables of the client from the answer of rtm.start. A method of the client that changes it
  gives the new client back; \<open>None\<close> is a panic, or a rate limit that never ends.
\<close>

section \<open>callAPI and callSlack\<close>

type_synonym api_result = "string \<times> http_response option \<times> client_error option"

text \<open>
  \<open>http.NewRequest\<close> gives nil when the URL does not parse; the caller drops that error and
  panics on the nil request.
\<close>

definition NewRequest :: "string \<Rightarrow> string \<Rightarrow> (string \<times> string) list \<Rightarrow> http_request option" where
  "NewRequest urlStr body headers =
     map_option (\<lambda>_. \<lparr>req_url = urlStr, req_body = body, req_headers = headers\<rparr>) (url_Parse urlStr)"

definition callAPI ::
    "'w svc \<Rightarrow> string \<Rightarrow> string \<Rightarrow> url_values \<Rightarrow> int \<Rightarrow> 'w \<Rightarrow> (api_result \<times> 'w) option" where
  "callAPI svc h method params expectedStatusCode w =
     (case ParseRequestURI h of
        None \<Rightarrow> Some (([], None, Some UrlError), w)
      | Some u \<Rightarrow>
          let urlStr = url_String (u\<lparr>U_Path := method\<rparr>);
              body = values_encode params
          in do {
            r \<leftarrow> NewRequest urlStr body
              [(''Content-Type'', ''application/x-www-form-urlencoded''),
               (''Content-Length'', show_int (int (length body)))];
            Some (case http_do svc w r of
              (HttpError resp, w) \<Rightarrow> (([], resp, Some RequestError), w)
            | (HttpOk resp, w) \<Rightarrow>
                (case resp_body resp of
                   None \<Rightarrow> (([], Some resp, Some BodyError), w)
                 | Some contents \<Rightarrow>
                     if resp_status resp \<noteq> expectedStatusCode
                     then (([], Some resp, Some (StatusError expectedStatusCode (resp_status resp))), w)
                     else ((contents, Some resp, None), w)))
          })"

text \<open>\<open>params.Set(key, value)\<close> replaces the values of the key.\<close>

definition values_set :: "string \<Rightarrow> string \<Rightarrow> url_values \<Rightarrow> url_values" where
  "values_set key value params = (key, [value]) # filter (\<lambda>(k, _). k \<noteq> key) params"

definition slack_host :: "env \<Rightarrow> string" where
  "slack_host env = (if env ''SLACK_HOST'' = [] then ''https://api.slack.com'' else env ''SLACK_HOST'')"

definition callSlack ::
    "'w svc \<Rightarrow> env \<Rightarrow> Client \<Rightarrow> string \<Rightarrow> url_values \<Rightarrow> int \<Rightarrow> 'w \<Rightarrow> (api_result \<times> 'w) option" where
  "callSlack svc env c method params expectedStatusCode w =
     callAPI svc (slack_host env) (''/api/'' @ method) (values_set ''token'' (C_Token c) params)
       expectedStatusCode w"

section \<open>Login\<close>

text \<open>
  The loop after a 429: it sleeps for the seconds of Retry-After (five when they do not parse;
  the product with time.Second wraps around) and calls again. Its assignments to \<open>err\<close> go to the
  variable declared inside the loop, so the caller's \<open>err\<close> stays the one of the first call.
\<close>

definition retry_after :: "http_response \<Rightarrow> int" where
  "retry_after resp =
     (let secs = (case parse_int64 (resp_header resp ''Retry-After'') of None \<Rightarrow> 5 | Some s \<Rightarrow> s)
      in sint (of_int secs * 1000000000 :: int64))"

partial_function (option) rate_limit_loop ::
    "'w svc \<Rightarrow> env \<Rightarrow> Client \<Rightarrow> http_response option \<Rightarrow> 'w \<Rightarrow> 'w option" where
  [code]: "rate_limit_loop svc env c resp w =
     (case resp of
        None \<Rightarrow> Some w
      | Some r \<Rightarrow>
          if resp_status r \<noteq> 429 then Some w
          else Option.bind (callSlack svc env c ''rtm.start'' [] 200 (sleep svc w (retry_after r)))
            (\<lambda>((_, resp', _), w'). rate_limit_loop svc env c resp' w'))"

definition elems :: "'a list option \<Rightarrow> 'a list" where
  "elems xs = (case xs of None \<Rightarrow> [] | Some ys \<Rightarrow> ys)"

definition im_channel :: "Im \<Rightarrow> Channel" where
  "im_channel im = \<lparr>Ch_Id = Im_Id im, Ch_Created = Im_Created im, Ch_Name = ''direct'',
     Ch_CreatorId = Im_CreatorId im, Ch_Im = True\<rparr>"

definition not_im :: "Channel \<Rightarrow> Channel" where
  "not_im ch = ch\<lparr>Ch_Im := False\<rparr>"

definition fill_tables :: "Metadata \<Rightarrow> Metadata" where
  "fill_tables d = d\<lparr>
     Md_Channels := Some
       (insert_all Ch_Id (List.map not_im (elems (Md_GroupsList d)))
         (insert_all Ch_Id (List.map not_im (elems (Md_ChannelsList d)))
           (insert_all Ch_Id (List.map im_channel (elems (Md_ImsList d))) Map.empty))),
     Md_Users := Some (insert_all User_Id (elems (Md_UsersList d)) Map.empty)\<rparr>"

definition Login :: "'w svc \<Rightarrow> env \<Rightarrow> Client \<Rightarrow> 'w \<Rightarrow> ((client_error option \<times> Client) \<times> 'w) option" where
  "Login svc env c w = do {
     ((contents, resp, err), w) \<leftarrow> callSlack svc env c ''rtm.start'' [] 200 w;
     (case err of
        Some e \<Rightarrow> map_option (\<lambda>w. ((Some e, c), w)) (rate_limit_loop svc env c resp w)
      | None \<Rightarrow>
          (case unmarshal dec_Metadata contents zero_Metadata of
             (metadata, None) \<Rightarrow> Some ((None, c\<lparr>C_data := Some (fill_tables metadata)\<rparr>), w)
           | (_, Some e) \<Rightarrow> Some ((Some (JsonError e), c), w)))
   }"

section \<open>The tables that Login builds\<close>

lemma im_channel_Id [simp]: "Ch_Id (im_channel im) = Im_Id im" "Ch_Im (im_channel im)"
  by (simp_all add: im_channel_def)

lemma not_im_simps [simp]: "Ch_Id (not_im ch) = Ch_Id ch" "\<not> Ch_Im (not_im ch)"
  by (simp_all add: not_im_def)

text \<open>The ids that rtm.start lists as channels or groups, and as direct messages.\<close>

definition channel_ids :: "Metadata \<Rightarrow> string set" where
  "channel_ids d = Ch_Id ` set (elems (Md_ChannelsList d)) \<union> Ch_Id ` set (elems (Md_GroupsList d))"

definition im_ids :: "Metadata \<Rightarrow> string set" where
  "im_ids d = Im_Id ` set (elems (Md_ImsList d))"

text \<open>Every entry that is filled in satisfies a property that holds of all values filled in.\<close>

lemma insert_all_values:
  "insert_all key vs m k = Some v \<Longrightarrow> (v \<in> set vs \<and> key v = k) \<or> (m k = Some v \<and> k \<notin> key ` set vs)"
proof (induction vs arbitrary: m)
  case (Cons u vs)
  from Cons.prems have "insert_all key vs (m(key u \<mapsto> u)) k = Some v" by simp
  from Cons.IH [OF this] show ?case by (cases "key u = k") auto
qed simp

definition tables_of :: "Metadata \<Rightarrow> (string \<rightharpoonup> User) \<Rightarrow> (string \<rightharpoonup> Channel) \<Rightarrow> bool" where
  "tables_of d us chs \<longleftrightarrow>
     keyed_by User_Id us \<and> dom us = User_Id ` set (elems (Md_UsersList d)) \<and>
     keyed_by Ch_Id chs \<and> dom chs = im_ids d \<union> channel_ids d \<and>
     (\<forall>k ch. chs k = Some ch \<longrightarrow> Ch_Im ch = (k \<notin> channel_ids d))"

lemma fill_tables_ok:
  obtains us chs where "Md_Users (fill_tables d) = Some us" "Md_Channels (fill_tables d) = Some chs"
    "tables_of d us chs"
proof -
  define ims where "ims = insert_all Ch_Id (List.map im_channel (elems (Md_ImsList d))) Map.empty"
  define chs where "chs = insert_all Ch_Id (List.map not_im (elems (Md_ChannelsList d))) ims"
  define grs where "grs = insert_all Ch_Id (List.map not_im (elems (Md_GroupsList d))) chs"
  define us where "us = insert_all User_Id (elems (Md_UsersList d)) Map.empty"
  have Im: "Ch_Im ch = (k \<notin> channel_ids d)" if "grs k = Some ch" for k ch
    using insert_all_values [OF that [unfolded grs_def]]
    by (auto dest!: insert_all_values simp: chs_def ims_def channel_ids_def image_image)
  have "dom grs = im_ids d \<union> channel_ids d"
    by (auto simp: grs_def chs_def ims_def insert_all_dom im_ids_def channel_ids_def image_image simp del: not_None_eq)
  moreover have "dom us = User_Id ` set (elems (Md_UsersList d))"
    by (simp add: us_def insert_all_dom)
  moreover have "keyed_by Ch_Id grs" "keyed_by User_Id us"
    by (auto simp: grs_def chs_def ims_def us_def intro!: insert_all_keyed)
  ultimately have "tables_of d us grs" using Im by (simp add: tables_of_def)
  then show ?thesis
    by (intro that [of us grs]) (simp_all add: fill_tables_def us_def grs_def chs_def ims_def)
qed

section \<open>The requests\<close>

lemma escape_path_plain: "\<forall>c\<in>set m. plain_char c \<or> c = CHR ''/'' \<Longrightarrow> escape EncPath m = m"
proof (induction m)
  case (Cons c m)
  then have "\<not> shouldEscape c EncPath" by (auto simp: plain_char_def shouldEscape_def)
  with Cons show ?case by simp
qed simp

lemma url_String_plain:
  assumes "plain_host h" "sc \<noteq> []" "\<forall>c\<in>set m. plain_char c \<or> c = CHR ''/''" "m \<noteq> []" "hd m = CHR ''/''"
  shows "url_String (zero_url\<lparr>U_Scheme := sc, U_Host := h, U_Path := m\<rparr>) = sc @ ''://'' @ h @ m"
  using assms escape_plain [of h]
  by (auto simp: url_String_def EscapedPath_def zero_url_def plain_host_def escape_path_plain Let_def)

lemma url_Parse_plain:
  assumes "plain_host h" "sc = ''http'' \<or> sc = ''https''" "\<forall>c\<in>set m. plain_char c \<or> c = CHR ''/''"
    "m \<noteq> []" "hd m = CHR ''/''"
  shows "url_Parse (sc @ ''://'' @ h @ m) \<noteq> None"
proof -
  note chars = plain_host_chars [OF assms(1)]
  have m: "CHR ''?'' \<notin> set m" "CHR ''#'' \<notin> set m" "CHR ''%'' \<notin> set m" using assms(3) by auto
  obtain m' where m': "m = CHR ''/'' # m'" using assms(4,5) by (cases m) auto
  let ?r = "CHR ''/'' # CHR ''/'' # h @ m"
  have scan: "scheme_scan [] (sc @ ''://'' @ h @ m) = Some (Some (sc, ?r))"
    using assms(2) by (auto simp: is_alpha_def)
  have keep: "split_keep CHR ''/'' (h @ m) = (h, m)"
    using chars m' by (simp add: split_keep_def before_first from_first)
  have cut: "split_cut CHR ''#'' (sc @ ''://'' @ h @ m) = (sc @ ''://'' @ h @ m, [])"
    using chars m assms(2) by (intro split_cut_none) auto
  have q: "split_cut CHR ''?'' ?r = (?r, [])" "count_list ?r CHR ''?'' = 0"
    using chars m by (auto intro!: split_cut_none simp: count_list_0_iff)
  have path: "unescape EncPath m = Some m"
    using unescape_escape [of EncPath m] escape_path_plain [OF assms(3)] by simp
  have "List.map lower sc = sc" "sc \<noteq> []" using assms(2) by (auto simp: lower_def)
  then show ?thesis
    using scan keep cut q path assms(2) parseAuthority_plain [OF assms(1)]
    by (auto simp: url_Parse_def url_parse_def getscheme_def Let_def set_path_def)
qed

definition post_request :: "string \<Rightarrow> string \<Rightarrow> http_request" where
  "post_request urlStr body = \<lparr>req_url = urlStr, req_body = body, req_headers =
     [(''Content-Type'', ''application/x-www-form-urlencoded''),
      (''Content-Length'', show_int (int (length body)))]\<rparr>"

definition api_answer :: "int \<Rightarrow> http_result \<Rightarrow> api_result" where
  "api_answer expected res =
     (case res of
        HttpError resp \<Rightarrow> ([], resp, Some RequestError)
      | HttpOk resp \<Rightarrow>
          (case resp_body resp of
             None \<Rightarrow> ([], Some resp, Some BodyError)
           | Some contents \<Rightarrow>
               if resp_status resp \<noteq> expected
               then ([], Some resp, Some (StatusError expected (resp_status resp)))
               else (contents, Some resp, None)))"

lemma callAPI_plain:
  assumes "plain_host h" "sc = ''http'' \<or> sc = ''https''" "\<forall>c\<in>set m. plain_char c \<or> c = CHR ''/''"
    "m \<noteq> []" "hd m = CHR ''/''"
  shows "callAPI svc (sc @ ''://'' @ h) m params expected w =
    (case http_do svc w (post_request (sc @ ''://'' @ h @ m) (values_encode params)) of
       (res, w') \<Rightarrow> Some (api_answer expected res, w'))"
proof -
  obtain u where u: "url_Parse (sc @ ''://'' @ h @ m) = Some u" using url_Parse_plain [OF assms] by auto
  have s: "url_String (zero_url\<lparr>U_Scheme := sc, U_Host := h, U_Path := m\<rparr>) = sc @ ''://'' @ h @ m"
    by (rule url_String_plain [OF assms(1) _ assms(3-5)]) (use assms(2) in auto)
  show ?thesis
    using url_with_path [OF assms(1,2)] s u
    by (simp add: callAPI_def NewRequest_def Let_def post_request_def api_answer_def
        split: prod.split http_result.split option.split)
qed

text \<open>An error of the first call is the result, whatever the rate-limit loop does.\<close>

lemma Login_cases:
  assumes "Login svc env c w = Some ((err, c'), w')"
  obtains (error) e contents resp w1 where "callSlack svc env c ''rtm.start'' [] 200 w = Some ((contents, resp, Some e), w1)"
      "err = Some e" "c' = c"
  | (decode) e contents d resp where "callSlack svc env c ''rtm.start'' [] 200 w = Some ((contents, resp, None), w')"
      "unmarshal dec_Metadata contents zero_Metadata = (d, Some e)" "err = Some (JsonError e)" "c' = c"
  | (ok) contents d resp where "callSlack svc env c ''rtm.start'' [] 200 w = Some ((contents, resp, None), w')"
      "unmarshal dec_Metadata contents zero_Metadata = (d, None)" "err = None"
      "c' = c\<lparr>C_data := Some (fill_tables d)\<rparr>"
proof -
  obtain contents resp e w1 where call: "callSlack svc env c ''rtm.start'' [] 200 w = Some ((contents, resp, e), w1)"
    using assms by (cases "callSlack svc env c ''rtm.start'' [] 200 w") (auto simp: Login_def)
  show thesis
  proof (cases e)
    case (Some e1)
    with assms call show ?thesis by (intro error [of contents resp e1 w1]) (simp_all add: Login_def)
  next
    case None
    obtain d de where d: "unmarshal dec_Metadata contents zero_Metadata = (d, de)" by fastforce
    show ?thesis
    proof (cases de)
      case None
      with assms call \<open>e = None\<close> d show ?thesis
        by (intro ok [of contents resp d]) (simp_all add: Login_def)
    next
      case (Some e2)
      with assms call \<open>e = None\<close> d show ?thesis
        by (intro decode [of contents resp d e2]) (simp_all add: Login_def)
    qed
  qed
qed

section \<open>A concrete answer of rtm.start\<close>

definition rtm_json :: string where
  "rtm_json = enc_object [(''ok'', enc_bool True), (''url'', quote_string ''wss://x'')]"

lemma rtm_json_reads:
  "reads_as rtm_json (JObj rtm_json [(enc_body ''ok'', JBool True), (enc_body ''url'', val_string ''wss://x'')])"
  unfolding rtm_json_def
  by (rule reads_object) (simp add: val_string_def reads_string reads_bool)

lemma rtm_json_decodes:
  "unmarshal dec_Metadata rtm_json zero_Metadata = (zero_Metadata\<lparr>Md_Ok := True, Md_Url := ''wss://x''\<rparr>, None)"
  by (simp add: unmarshal_def parse_json_reads [OF rtm_json_reads] dec_Metadata_def dec_struct_def
      fields_Metadata_def struct_reads val_string_def dec_string_def dec_bool_def zero_Metadata_def byte_def)

definition answer :: "int \<Rightarrow> string \<Rightarrow> http_result" where
  "answer status body = HttpOk \<lparr>resp_status = status, resp_header = (\<lambda>_. []), resp_body = Some body\<rparr>"

definition no_env :: env where "no_env = (\<lambda>_. [])"

text \<open>A base URL for Slack with a scheme and a plain host; the default is one.\<close>

definition plain_base :: "string \<Rightarrow> bool" where
  "plain_base base \<longleftrightarrow> (\<exists>sc h. base = sc @ ''://'' @ h \<and> (sc = ''http'' \<or> sc = ''https'') \<and> plain_host h)"

lemma plain_base_default: "plain_base (slack_host no_env)"
proof -
  have "slack_host no_env = ''https'' @ ''://'' @ ''api.slack.com''" "plain_host ''api.slack.com''"
    by (simp_all add: slack_host_def no_env_def plain_host_def plain_char_def is_alpha_def is_digit_def)
  then show ?thesis unfolding plain_base_def by blast
qed

lemma rtm_start_plain: "\<forall>c\<in>set ''/api/rtm.start''. plain_char c \<or> c = CHR ''/''"
  by (simp add: plain_char_def is_alpha_def is_digit_def)

definition rtm_request :: "env \<Rightarrow> Client \<Rightarrow> http_request" where
  "rtm_request env c = post_request (slack_host env @ ''/api/rtm.start'') (''token='' @ QueryEscape (C_Token c))"

lemma token_encoded: "values_encode [(''token'', [t])] = ''token='' @ QueryEscape t"
  by (simp add: values_encode_def join_def QueryEscape_def shouldEscape_def is_alpha_def is_digit_def)

lemma callSlack_plain:
  assumes "plain_base (slack_host env)"
  shows "callSlack svc env c ''rtm.start'' [] expected w =
    (case http_do svc w (rtm_request env c) of (res, w') \<Rightarrow> Some (api_answer expected res, w'))"
proof -
  obtain sc h where base: "slack_host env = sc @ ''://'' @ h" "sc = ''http'' \<or> sc = ''https''" "plain_host h"
    using assms by (auto simp: plain_base_def)
  from callAPI_plain [OF base(3,2) rtm_start_plain, of svc "[(''token'', [C_Token c])]" expected w] base(1)
  show ?thesis by (simp add: callSlack_def values_set_def token_encoded rtm_request_def)
qed

text \<open>A measure on the world that every answer with status 429 uses up.\<close>

definition limited_by :: "'w svc \<Rightarrow> ('w \<Rightarrow> nat) \<Rightarrow> bool" where
  "limited_by svc m \<longleftrightarrow>
     (\<forall>w d rq res w'. http_do svc (sleep svc w d) rq = (res, w') \<longrightarrow>
        (case res of HttpError (Some r) \<Rightarrow> resp_status r = 429 | HttpOk r \<Rightarrow> resp_status r = 429 | _ \<Rightarrow> False) \<longrightarrow>
        m w' < m w)"

lemma server_limited: "limited_by server (\<lambda>w. length (W_http w))"
  by (auto simp: limited_by_def split: list.splits)

lemma api_answer_resp:
  "fst (snd (api_answer n res)) = (case res of HttpError r \<Rightarrow> r | HttpOk r \<Rightarrow> Some r)"
  by (auto simp: api_answer_def split: http_result.splits option.splits)

lemma rate_limit_loop_returns:
  assumes "plain_base (slack_host env)" "limited_by svc m"
  shows "rate_limit_loop svc env c resp w \<noteq> None"
proof (induction "m w" arbitrary: w resp rule: less_induct)
  case less
  show ?case
  proof (cases "\<exists>r. resp = Some r \<and> resp_status r = 429")
    case False
    then show ?thesis by (subst rate_limit_loop.simps) (auto split: option.splits)
  next
    case True
    then obtain r where r: "resp = Some r" "resp_status r = 429" by blast
    obtain res w1 where h: "http_do svc (sleep svc w (retry_after r)) (rtm_request env c) = (res, w1)" by fastforce
    obtain body resp1 e1 where a: "api_answer 200 res = (body, resp1, e1)" by (metis prod_cases3)
    have step: "rate_limit_loop svc env c resp w = rate_limit_loop svc env c resp1 w1"
      by (subst rate_limit_loop.simps) (simp add: r callSlack_plain [OF assms(1)] h a)
    show ?thesis
    proof (cases "\<exists>r1. resp1 = Some r1 \<and> resp_status r1 = 429")
      case False
      then show ?thesis unfolding step by (subst rate_limit_loop.simps) (auto split: option.splits)
    next
      case True
      then have "m w1 < m w"
        using assms(2) h a api_answer_resp [of 200 res]
        by (fastforce simp: limited_by_def split: http_result.splits option.splits)
      then show ?thesis unfolding step by (rule less)
    qed
  qed
qed

section \<open>Properties\<close>

text \<open>
  rtm.start is asked for with exactly one POST, to api/rtm.start under the configured base
  URL, whose body is the token; the token can be read back from the body whatever bytes it
  holds, and the contents are returned without an error exactly when the status is 200.
\<close>

lemma callSlack_request:
  assumes "plain_base (slack_host env)"
  shows "\<exists>res w' contents resp err.
    http_do svc w (rtm_request env c) = (res, w') \<and>
    callSlack svc env c ''rtm.start'' [] 200 w = Some ((contents, resp, err), w') \<and>
    unescape EncQueryComponent (drop 6 (req_body (rtm_request env c))) = Some (C_Token c) \<and>
    (err = None \<longleftrightarrow> (\<exists>r. res = HttpOk r \<and> resp_status r = 200 \<and> resp_body r = Some contents))"
proof -
  obtain res w' where h: "http_do svc w (rtm_request env c) = (res, w')" by fastforce
  obtain contents resp err where a: "api_answer 200 res = (contents, resp, err)" by (metis prod_cases3)
  have "callSlack svc env c ''rtm.start'' [] 200 w = Some ((contents, resp, err), w')"
    by (simp add: callSlack_plain [OF assms] h a)
  moreover have "unescape EncQueryComponent (drop 6 (req_body (rtm_request env c))) = Some (C_Token c)"
    by (simp add: rtm_request_def post_request_def unescape_escape_query)
  moreover have "err = None \<longleftrightarrow> (\<exists>r. res = HttpOk r \<and> resp_status r = 200 \<and> resp_body r = Some contents)"
    using a by (auto simp: api_answer_def split: http_result.splits option.splits if_splits)
  ultimately show ?thesis using h by blast
qed

text \<open>
  C9. Login is all or nothing. It fails and leaves the client as it was, or it decodes the answer
  of rtm.start and changes nothing but the client's data, whose tables file every user and
  channel under its own id, hold exactly the ids that the answer lists, and mark a channel as
  direct exactly when it is listed as a direct message and not also as a channel or a group.
\<close>

theorem Login_all_or_nothing:
  assumes "Login svc env c w = Some ((err, c'), w')"
  shows "(err \<noteq> None \<and> c' = c) \<or>
    (err = None \<and> (\<exists>contents resp d us chs.
       callSlack svc env c ''rtm.start'' [] 200 w = Some ((contents, resp, None), w') \<and>
       unmarshal dec_Metadata contents zero_Metadata = (d, None) \<and>
       c' = c\<lparr>C_data := Some (d\<lparr>Md_Users := Some us, Md_Channels := Some chs\<rparr>)\<rparr> \<and> tables_of d us chs))"
  using assms
proof (cases rule: Login_cases)
  case (ok contents d resp)
  obtain us chs where t: "Md_Users (fill_tables d) = Some us" "Md_Channels (fill_tables d) = Some chs"
    "tables_of d us chs" by (rule fill_tables_ok)
  then have "fill_tables d = d\<lparr>Md_Users := Some us, Md_Channels := Some chs\<rparr>"
    by (simp add: fill_tables_def)
  with ok(4) have "c' = c\<lparr>C_data := Some (d\<lparr>Md_Users := Some us, Md_Channels := Some chs\<rparr>)\<rparr>" by simp
  with ok(1-3) t(3) show ?thesis by blast
qed simp_all

theorem Login_all_or_nothing_witness:
  "\<exists>c' w'. Login server no_env zero_Client (world0\<lparr>W_http := [answer 200 rtm_json]\<rparr>) = Some ((None, c'), w') \<and>
    (\<exists>contents resp d us chs.
       callSlack server no_env zero_Client ''rtm.start'' [] 200 (world0\<lparr>W_http := [answer 200 rtm_json]\<rparr>) =
         Some ((contents, resp, None), w') \<and>
       unmarshal dec_Metadata contents zero_Metadata = (d, None) \<and>
       c' = zero_Client\<lparr>C_data := Some (d\<lparr>Md_Users := Some us, Md_Channels := Some chs\<rparr>)\<rparr> \<and>
       tables_of d us chs)"
proof -
  have l: "Login server no_env zero_Client (world0\<lparr>W_http := [answer 200 rtm_json]\<rparr>) =
    Some ((None, zero_Client\<lparr>C_data := Some (fill_tables (zero_Metadata\<lparr>Md_Ok := True, Md_Url := ''wss://x''\<rparr>))\<rparr>),
      world0\<lparr>W_http := []\<rparr>)"
    by (simp add: Login_def callSlack_plain [OF plain_base_default] answer_def api_answer_def rtm_json_decodes)
  from Login_all_or_nothing [OF l] l show ?thesis by auto
qed

text \<open>
  A Login whose first call is rate limited fails, even when a later call of its own retry
  loop succeeds: the answer that the loop waited for is dropped, and with it the login.
\<close>

lemma Login_rate_limited:
  assumes "callSlack svc env c ''rtm.start'' [] 200 w = Some ((contents, Some r, Some (StatusError 200 429)), w1)"
    and "Login svc env c w = Some ((err, c'), w')"
  shows "err = Some (StatusError 200 429) \<and> c' = c \<and> rate_limit_loop svc env c (Some r) w1 = Some w'"
  using assms by (simp add: Login_def) auto

text \<open>
  Login returns: with a plain base URL it does not panic, and it comes out of the
  rate-limit loop whenever Slack cannot answer 429 for ever.
\<close>

lemma Login_returns:
  assumes "plain_base (slack_host env)" "limited_by svc m"
  shows "\<exists>err c' w'. Login svc env c w = Some ((err, c'), w')"
proof -
  obtain res w1 where h: "http_do svc w (rtm_request env c) = (res, w1)" by fastforce
  obtain contents resp e where a: "api_answer 200 res = (contents, resp, e)" by (metis prod_cases3)
  obtain w2 where l: "rate_limit_loop svc env c resp w1 = Some w2"
    using rate_limit_loop_returns [OF assms] by blast
  obtain d de where d: "unmarshal dec_Metadata contents zero_Metadata = (d, de)" by fastforce
  show ?thesis
    by (cases e; cases de) (simp_all add: Login_def callSlack_plain [OF assms(1)] h a l d)
qed

end
