(* ===== verification/Backoff.thy ===== *)
theory Backoff
  imports Complex_Main Server
begin

text \<open>
  The vendored backoff package (exponential.go, retry.go), which \<open>LoginAndStart\<close> retries Login
  with. The float64 arithmetic is exact on rationals here: the factors 0.5 and 1.5 and the
  intervals below 60 s in nanoseconds are represented exactly, so only the last product of the
  randomisation is rounded by the program, by less than a nanosecond. \<open>rand.Float64()\<close> is
  \<open>k / 2^63\<close> for the drawn \<open>k\<close>.
\<close>

section \<open>ExponentialBackOff\<close>

record backoff =
  B_InitialInterval :: int
  B_RandomizationFactor :: rat
  B_Multiplier :: rat
  B_MaxInterval :: int
  B_MaxElapsedTime :: int
  B_currentInterval :: int
  B_startTime :: int

definition Reset :: "int \<Rightarrow> backoff \<Rightarrow> backoff" where
  "Reset now b = b\<lparr>B_currentInterval := B_InitialInterval b, B_startTime := now\<rparr>"

text \<open>The factor is within 0 and 1, so the clamping of the constructor does nothing.\<close>

definition NewExponentialBackOff :: "int \<Rightarrow> backoff" where
  "NewExponentialBackOff now = Reset now
     \<lparr>B_InitialInterval = 500000000, B_RandomizationFactor = 1 / 2, B_Multiplier = 3 / 2,
      B_MaxInterval = 60000000000, B_MaxElapsedTime = 900000000000,
      B_currentInterval = 0, B_startTime = 0\<rparr>"

definition incrementCurrentInterval :: "backoff \<Rightarrow> backoff" where
  "incrementCurrentInterval b =
     (if rat_of_int (B_currentInterval b) \<ge> rat_of_int (B_MaxInterval b) / B_Multiplier b
      then b\<lparr>B_currentInterval := B_MaxInterval b\<rparr>
      else b\<lparr>B_currentInterval := \<lfloor>rat_of_int (B_currentInterval b) * B_Multiplier b\<rfloor>\<rparr>)"

definition getRandomValueFromInterval :: "rat \<Rightarrow> rat \<Rightarrow> int \<Rightarrow> int" where
  "getRandomValueFromInterval factor random currentInterval =
     (let delta = factor * rat_of_int currentInterval;
          lo = rat_of_int currentInterval - delta;
          hi = rat_of_int currentInterval + delta
      in \<lfloor>lo + random * (hi - lo + 1)\<rfloor>)"

definition Stop_backoff :: int where "Stop_backoff = -1"

definition random_of :: "int \<Rightarrow> rat" where
  "random_of k = rat_of_int k / 2 ^ 63"

text \<open>NextBackOff, given what the clock and the random source return.\<close>

definition next_interval :: "int \<Rightarrow> int \<Rightarrow> backoff \<Rightarrow> int \<times> backoff" where
  "next_interval now k b =
     (if B_MaxElapsedTime b \<noteq> 0 \<and> now - B_startTime b > B_MaxElapsedTime b then (Stop_backoff, b)
      else (getRandomValueFromInterval (B_RandomizationFactor b) (random_of k) (B_currentInterval b),
            incrementCurrentInterval b))"

definition NextBackOff :: "'w svc \<Rightarrow> backoff \<Rightarrow> 'w \<Rightarrow> (int \<times> backoff) \<times> 'w" where
  "NextBackOff svc b w =
     (let (now, w) = (if B_MaxElapsedTime b \<noteq> 0 then now_nanos svc w else (0, w))
      in if B_MaxElapsedTime b \<noteq> 0 \<and> now - B_startTime b > B_MaxElapsedTime b then ((Stop_backoff, b), w)
         else let (k, w) = rand_draw svc w in (next_interval now k b, w))"

section \<open>Retry\<close>

text \<open>
  The operation has a state of its own (the client that Login fills). A loop that is never told
  to stop, like an operation that does not return, is None.
\<close>

partial_function (option) retry_loop ::
    "('c \<Rightarrow> 'w \<Rightarrow> (('e option \<times> 'c) \<times> 'w) option) \<Rightarrow> 'w svc \<Rightarrow> backoff \<Rightarrow> 'c \<Rightarrow> 'w
      \<Rightarrow> (('e option \<times> 'c) \<times> 'w) option" where
  [code]: "retry_loop operation svc b c w =
     Option.bind (operation c w) (\<lambda>((err, c'), w').
       case err of
         None \<Rightarrow> Some ((None, c'), w')
       | Some e \<Rightarrow>
           (case NextBackOff svc b w' of ((next, b'), w'') \<Rightarrow>
              if next = Stop_backoff then Some ((Some e, c'), w'')
              else retry_loop operation svc b' c' (sleep svc w'' next)))"

definition Retry :: "('c \<Rightarrow> 'w \<Rightarrow> (('e option \<times> 'c) \<times> 'w) option) \<Rightarrow> 'w svc \<Rightarrow> backoff \<Rightarrow> 'c \<Rightarrow> 'w
    \<Rightarrow> (('e option \<times> 'c) \<times> 'w) option" where
  "Retry operation svc b c w =
     (let (now, w) = now_nanos svc w in retry_loop operation svc (Reset now b) c w)"

section \<open>What a retry loop needs of a policy\<close>

text \<open>
  The interface between the loop and the policy: past a deadline the policy stops, before it the
  policy waits for at least a nanosecond and at most \<open>top\<close>, and keeps its invariant and its
  deadline.
\<close>

locale retry_policy =
  fixes step :: "int \<Rightarrow> int \<Rightarrow> 'b \<Rightarrow> int \<times> 'b"
    and inv :: "'b \<Rightarrow> bool"
    and deadline :: "'b \<Rightarrow> int"
    and top :: "'b \<Rightarrow> int"
  assumes stops: "inv b \<Longrightarrow> deadline b < now \<Longrightarrow> fst (step now k b) = Stop_backoff"
    and waits: "inv b \<Longrightarrow> now \<le> deadline b \<Longrightarrow> 0 \<le> k \<Longrightarrow> k < 2 ^ 63 \<Longrightarrow> step now k b = (d, b') \<Longrightarrow>
      1 \<le> d \<and> d \<le> top b \<and> inv b' \<and> deadline b' = deadline b \<and> top b' = top b"

context retry_policy begin

text \<open>The variant of a loop that sleeps as told: the time left before the deadline.\<close>

definition variant :: "'b \<Rightarrow> int \<Rightarrow> nat" where
  "variant b now = nat (deadline b + 1 - now)"

lemma variant_decreases:
  assumes "inv b" "step now k b = (d, b')" "d \<noteq> Stop_backoff" "0 \<le> k" "k < 2 ^ 63" "now + d \<le> later"
  shows "inv b' \<and> deadline b' = deadline b \<and> variant b' later < variant b now \<and>
    later - now \<ge> 1 \<and> d \<le> top b"
proof -
  have "now \<le> deadline b" using stops [of b now k] assms by force
  with waits [of b now k d b'] assms show ?thesis by (simp add: variant_def)
qed

text \<open>A policy that has not stopped yet has not been asked past its deadline.\<close>

lemma not_stopped: "inv b \<Longrightarrow> fst (step now k b) \<noteq> Stop_backoff \<Longrightarrow> now \<le> deadline b"
  using stops [of b now k] by force

end

definition backoff_inv :: "backoff \<Rightarrow> bool" where
  "backoff_inv b \<longleftrightarrow> B_RandomizationFactor b = 1 / 2 \<and> B_Multiplier b = 3 / 2 \<and>
     2 \<le> B_currentInterval b \<and> B_currentInterval b \<le> B_MaxInterval b \<and> 0 < B_MaxElapsedTime b"

definition deadline :: "backoff \<Rightarrow> int" where
  "deadline b = B_startTime b + B_MaxElapsedTime b"

text \<open>One and a half times the largest interval.\<close>

definition longest :: "backoff \<Rightarrow> int" where
  "longest b = (3 * B_MaxInterval b) div 2 + 1"

lemma random_bounds: "0 \<le> k \<Longrightarrow> k < 2 ^ 63 \<Longrightarrow> 0 \<le> random_of k \<and> random_of k < 1"
  by (simp add: random_of_def)

lemma getRandomValue_bounds:
  assumes "0 \<le> r" "r < 1" "0 \<le> cur"
  shows "cur div 2 \<le> getRandomValueFromInterval (1 / 2) r cur \<and>
    getRandomValueFromInterval (1 / 2) r cur \<le> (3 * cur) div 2 + 1"
proof -
  let ?c = "rat_of_int cur"
  have v: "getRandomValueFromInterval (1 / 2) r cur = \<lfloor>?c / 2 + r * (?c + 1)\<rfloor>"
    by (simp add: getRandomValueFromInterval_def Let_def field_simps)
  have lo: "0 \<le> r * (?c + 1)" using assms by simp
  have "r * (?c + 1) < 1 * (?c + 1)"
    by (rule mult_strict_right_mono) (use assms in auto)
  then have hi: "r * (?c + 1) < ?c + 1" by simp
  have "cur div 2 = \<lfloor>?c / 2\<rfloor>" using floor_divide_of_int_eq [of cur 2, where ?'a = rat] by simp
  also have "\<dots> \<le> \<lfloor>?c / 2 + r * (?c + 1)\<rfloor>" using lo by (intro floor_mono) simp
  finally have 1: "cur div 2 \<le> \<lfloor>?c / 2 + r * (?c + 1)\<rfloor>" .
  have "\<lfloor>?c / 2 + r * (?c + 1)\<rfloor> \<le> \<lfloor>rat_of_int (3 * cur) / 2 + 1\<rfloor>"
    using hi by (intro floor_mono) simp
  also have "\<dots> = (3 * cur) div 2 + 1"
    using floor_divide_of_int_eq [of "3 * cur" 2, where ?'a = rat] by simp
  finally show ?thesis using 1 v by simp
qed

lemma incrementCurrentInterval_inv: "backoff_inv b \<Longrightarrow> backoff_inv (incrementCurrentInterval b)"
proof -
  assume b: "backoff_inv b"
  let ?c = "B_currentInterval b" and ?m = "B_MaxInterval b"
  have "2 \<le> \<lfloor>rat_of_int ?c * (3 / 2)\<rfloor>" using b by (simp add: backoff_inv_def le_floor_iff)
  moreover have "\<lfloor>rat_of_int ?c * (3 / 2)\<rfloor> \<le> ?m" if "rat_of_int ?c < rat_of_int ?m / (3 / 2)"
    using that by (simp add: floor_le_iff)
  moreover have "B_Multiplier b = 3 / 2" using b by (simp add: backoff_inv_def)
  ultimately show ?thesis
    using b unfolding incrementCurrentInterval_def backoff_inv_def by (simp only: split: if_split) simp
qed

lemma incrementCurrentInterval_frame [simp]:
  "B_startTime (incrementCurrentInterval b) = B_startTime b"
  "B_MaxElapsedTime (incrementCurrentInterval b) = B_MaxElapsedTime b"
  "B_MaxInterval (incrementCurrentInterval b) = B_MaxInterval b"
  by (simp_all add: incrementCurrentInterval_def)

interpretation exponential: retry_policy next_interval backoff_inv deadline longest
proof
  fix b now k
  assume "backoff_inv b" "deadline b < now"
  then show "fst (next_interval now k b) = Stop_backoff"
    by (simp add: next_interval_def deadline_def backoff_inv_def)
next
  fix b now k d b'
  assume b: "backoff_inv b" and now: "now \<le> deadline b" and k: "0 \<le> k" "k < 2 ^ 63"
    and n: "next_interval now k b = (d, b')"
  have d: "d = getRandomValueFromInterval (1 / 2) (random_of k) (B_currentInterval b)"
    "b' = incrementCurrentInterval b"
    using b now n by (simp_all add: next_interval_def deadline_def backoff_inv_def del: eq_divide_eq_numeral1)
  have "B_currentInterval b div 2 \<le> d" "d \<le> (3 * B_currentInterval b) div 2 + 1"
    using getRandomValue_bounds [of "random_of k" "B_currentInterval b"] random_bounds [OF k] b d
    by (auto simp: backoff_inv_def)
  moreover have "1 \<le> B_currentInterval b div 2" "(3 * B_currentInterval b) div 2 \<le> (3 * B_MaxInterval b) div 2"
    using b by (auto simp: backoff_inv_def intro: zdiv_mono1)
  ultimately show "1 \<le> d \<and> d \<le> longest b \<and> backoff_inv b' \<and> deadline b' = deadline b \<and> longest b' = longest b"
    using d incrementCurrentInterval_inv [OF b] by (simp add: deadline_def longest_def)
qed

section \<open>Retry returns\<close>

text \<open>
  What Go documents of the clock, of sleeping and of the random source: the clock does not go
  back, a sleep lasts at least as long as asked for, and a drawn number is within its range.
\<close>

definition clocked :: "'w svc \<Rightarrow> ('w \<Rightarrow> int) \<Rightarrow> bool" where
  "clocked svc time \<longleftrightarrow>
     (\<forall>w t w'. now_nanos svc w = (t, w') \<longrightarrow> time w \<le> t \<and> t \<le> time w') \<and>
     (\<forall>w k w'. rand_draw svc w = (k, w') \<longrightarrow> 0 \<le> k \<and> k < 2 ^ 63 \<and> time w \<le> time w') \<and>
     (\<forall>w d. time w + d \<le> time (sleep svc w d))"

lemma server_clocked: "clocked server W_time"
  by (simp add: clocked_def)

lemma NextBackOff_step:
  assumes c: "clocked svc time" and b: "backoff_inv b" and n: "NextBackOff svc b w = ((d, b'), w')"
  shows "(d = Stop_backoff \<and> deadline b < time w') \<or>
    (d \<noteq> Stop_backoff \<and> backoff_inv b' \<and> deadline b' = deadline b \<and> 1 \<le> d \<and> d \<le> longest b \<and>
     exponential.variant b' (time (sleep svc w' d)) < exponential.variant b (time w))"
proof -
  obtain t w1 where t: "now_nanos svc w = (t, w1)" by fastforce
  obtain k w2 where k: "rand_draw svc w1 = (k, w2)" by fastforce
  have time: "time w \<le> t" "t \<le> time w1" "0 \<le> k" "k < 2 ^ 63" "time w1 \<le> time w2"
    using c t k unfolding clocked_def by blast+
  have max: "B_MaxElapsedTime b \<noteq> 0" using b by (simp add: backoff_inv_def)
  show ?thesis
  proof (cases "deadline b < t")
    case True
    then show ?thesis using n t max time by (auto simp: NextBackOff_def deadline_def)
  next
    case False
    then have nx: "next_interval t k b = (d, b')" "w' = w2"
      using n t k max by (auto simp: NextBackOff_def deadline_def)
    with exponential.waits [OF b _ time(3,4), of t d b'] False
    have d: "1 \<le> d" "d \<le> longest b" "d \<noteq> Stop_backoff" by (auto simp: Stop_backoff_def)
    have "time w2 + d \<le> time (sleep svc w2 d)" using c unfolding clocked_def by blast
    then have "t + d \<le> time (sleep svc w2 d)" using time by linarith
    from exponential.variant_decreases [OF b nx(1) d(3) time(3,4) this] d nx(2) time(1)
    show ?thesis by (auto simp: exponential.variant_def)
  qed
qed

text \<open>An operation that returns, and does not turn the clock back, is retried finitely often.\<close>

lemma retry_loop_returns:
  assumes c: "clocked svc time" and op: "\<And>c w. \<exists>r w'. operation c w = Some (r, w') \<and> time w \<le> time w'"
    and b: "backoff_inv b"
  shows "\<exists>err c' w'. retry_loop operation svc b c w = Some ((err, c'), w') \<and>
    (err \<noteq> None \<longrightarrow> deadline b < time w')"
  using b
proof (induction "exponential.variant b (time w)" arbitrary: b c w rule: less_induct)
  case less
  obtain err c1 w1 where o: "operation c w = Some ((err, c1), w1)" "time w \<le> time w1"
    using op [of c w] by auto
  show ?case
  proof (cases err)
    case None
    then show ?thesis by (subst retry_loop.simps) (simp add: o)
  next
    case (Some e)
    obtain d b' w2 where n: "NextBackOff svc b w1 = ((d, b'), w2)" by (metis prod.exhaust)
    have mono: "exponential.variant b (time w1) \<le> exponential.variant b (time w)"
      using o by (simp add: exponential.variant_def)
    show ?thesis
    proof (cases "d = Stop_backoff")
      case True
      then have "deadline b < time w2" using NextBackOff_step [OF c less.prems n] by blast
      then show ?thesis by (subst retry_loop.simps) (simp add: o Some n True)
    next
      case False
      with NextBackOff_step [OF c less.prems n]
      have s: "backoff_inv b'" "deadline b' = deadline b"
        "exponential.variant b' (time (sleep svc w2 d)) < exponential.variant b (time w)"
        using mono by auto
      have "retry_loop operation svc b c w = retry_loop operation svc b' c1 (sleep svc w2 d)"
        by (subst retry_loop.simps) (simp add: o Some n False)
      then show ?thesis using less.hyps [OF s(3,1), of c1] s(2) by simp
    qed
  qed
qed

text \<open>
  What every run of the operation relates is related by the loop, and what holds after a
  success holds when the loop ends without an error.
\<close>

lemma retry_loop_relation:
  assumes "\<And>c w err c' w'. operation c w = Some ((err, c'), w') \<Longrightarrow> R c c' \<and> (err = None \<longrightarrow> Q c')"
    and "\<And>c. R c c" and "\<And>a b c. R a b \<Longrightarrow> R b c \<Longrightarrow> R a c"
    and "retry_loop operation svc b c w = Some ((err, c'), w')"
  shows "R c c' \<and> (err = None \<longrightarrow> Q c')"
proof -
  have "case res of ((err, c'), w') \<Rightarrow> R c c' \<and> (err = None \<longrightarrow> Q c')"
    if "retry_loop operation svc b c w = Some res" for res
    using _ that
  proof (rule retry_loop.raw_induct [of "\<lambda>op svc b c w res. op = operation \<longrightarrow>
      (case res of ((err, c'), w') \<Rightarrow> R c c' \<and> (err = None \<longrightarrow> Q c'))", THEN mp, OF _ _ refl])
    fix loop op svc b c w res
    assume IH: "\<And>op svc b c w res. loop op svc b c w = Some res \<Longrightarrow> op = operation \<longrightarrow>
        (case res of ((err, c'), w') \<Rightarrow> R c c' \<and> (err = None \<longrightarrow> Q c'))"
      and eq: "Option.bind (op c w) (\<lambda>((err, c'), w').
         case err of None \<Rightarrow> Some ((None, c'), w')
         | Some e \<Rightarrow> (case NextBackOff svc b w' of ((next, b'), w'') \<Rightarrow>
              if next = Stop_backoff then Some ((Some e, c'), w'')
              else loop op svc b' c' (sleep svc w'' next))) = Some res"
    show "op = operation \<longrightarrow> (case res of ((err, c'), w') \<Rightarrow> R c c' \<and> (err = None \<longrightarrow> Q c'))"
    proof
      assume op: "op = operation"
      obtain e1 c1 w1 where o: "operation c w = Some ((e1, c1), w1)" using eq op by auto
      note first = assms(1) [OF o]
      show "case res of ((err, c'), w') \<Rightarrow> R c c' \<and> (err = None \<longrightarrow> Q c')"
      proof (cases e1)
        case None
        with eq op o first show ?thesis by auto
      next
        case (Some e)
        obtain d b' w2 where n: "NextBackOff svc b w1 = ((d, b'), w2)" by (metis prod.exhaust)
        show ?thesis
        proof (cases "d = Stop_backoff")
          case True
          with eq op o first n Some show ?thesis by auto
        next
          case False
          with eq op o n Some have "loop operation svc b' c1 (sleep svc w2 d) = Some res" by simp
          from IH [OF this] first assms(3) show ?thesis by (auto split: prod.splits)
        qed
      qed
    qed
  qed
  from this [OF assms(4)] show ?thesis by simp
qed

lemma Retry_relation:
  assumes "\<And>c w err c' w'. operation c w = Some ((err, c'), w') \<Longrightarrow> R c c' \<and> (err = None \<longrightarrow> Q c')"
    and "\<And>c. R c c" and "\<And>a b c. R a b \<Longrightarrow> R b c \<Longrightarrow> R a c"
    and "Retry operation svc b c w = Some ((err, c'), w')"
  shows "R c c' \<and> (err = None \<longrightarrow> Q c')"
proof -
  obtain now w1 where "now_nanos svc w = (now, w1)" by fastforce
  with assms(4) have "retry_loop operation svc (Reset now b) c w1 = Some ((err, c'), w')"
    by (simp add: Retry_def)
  with assms(1-3) show ?thesis by (rule retry_loop_relation)
qed

text \<open>The schedule of LoginAndStart: 1.5 s at first.\<close>

definition login_backoff :: "int \<Rightarrow> backoff" where
  "login_backoff now = (NewExponentialBackOff now)\<lparr>B_InitialInterval := 1500000000\<rparr>"

lemma login_backoff_inv: "backoff_inv (Reset now (login_backoff t))" "deadline (Reset now (login_backoff t)) = now + 900000000000"
  by (simp_all add: backoff_inv_def Reset_def login_backoff_def NewExponentialBackOff_def deadline_def)

lemma Retry_login_backoff:
  assumes "clocked svc time" "\<And>c w. \<exists>r w'. operation c w = Some (r, w') \<and> time w \<le> time w'"
  obtains err c' w' where "Retry operation svc (login_backoff t) c w = Some ((err, c'), w')"
    "err \<noteq> None \<Longrightarrow> time w + 900000000000 < time w'"
proof -
  obtain now w1 where now: "now_nanos svc w = (now, w1)" by fastforce
  have "time w \<le> now" using assms(1) now unfolding clocked_def by blast
  moreover obtain err c' w' where "retry_loop operation svc (Reset now (login_backoff t)) c w1 = Some ((err, c'), w')"
    "err \<noteq> None \<longrightarrow> now + 900000000000 < time w'"
    using retry_loop_returns [where operation = operation and c = c and w = w1, OF assms login_backoff_inv(1) [of now t]]
    by (auto simp: login_backoff_inv(2))
  ultimately show ?thesis using now by (intro that [of err c' w']) (auto simp: Retry_def)
qed

section \<open>Properties\<close>

text \<open>
  C10. With the schedule of LoginAndStart, Retry returns for every operation that returns: it
  gives up only after 15 minutes, and it does give up then.
\<close>

theorem Retry_returns:
  assumes "clocked svc time" "\<forall>c w. \<exists>r w'. operation c w = Some (r, w') \<and> time w \<le> time w'"
  shows "\<exists>err c' w'. Retry operation svc (login_backoff t) c w = Some ((err, c'), w') \<and>
    (err \<noteq> None \<longrightarrow> time w + 900000000000 < time w')"
  by (rule Retry_login_backoff [OF assms(1), of operation t c w]) (use assms(2) in blast)+

theorem Retry_returns_witness:
  "\<exists>err c' w'. Retry (\<lambda>c w. Some ((Some (0 :: nat), c), w)) server (login_backoff 0) (0 :: nat) world0 =
      Some ((err, c'), w') \<and> (err \<noteq> None \<longrightarrow> W_time world0 + 900000000000 < W_time w')"
  by (rule Retry_returns [OF server_clocked]) simp

text \<open>
  A wait is between half and one and a half times the current interval (plus a nanosecond),
  and the interval then grows by half, up to the maximum, and never shrinks.
\<close>

lemma backoff_intervals:
  assumes "backoff_inv b" "now \<le> deadline b" "0 \<le> k" "k < 2 ^ 63" "next_interval now k b = (d, b')"
  shows "B_currentInterval b div 2 \<le> d \<and> d \<le> (3 * B_currentInterval b) div 2 + 1 \<and>
    B_currentInterval b' = min (B_MaxInterval b) ((3 * B_currentInterval b) div 2) \<and>
    B_currentInterval b \<le> B_currentInterval b'"
proof -
  let ?c = "B_currentInterval b" and ?m = "B_MaxInterval b"
  have f: "B_RandomizationFactor b = 1 / 2" "B_Multiplier b = 3 / 2" "2 \<le> ?c" "?c \<le> ?m"
    using assms(1) by (simp_all add: backoff_inv_def)
  have d: "d = getRandomValueFromInterval (1 / 2) (random_of k) ?c" "b' = incrementCurrentInterval b"
    using assms(2,5) f(1) assms(1)
    by (simp_all add: next_interval_def deadline_def backoff_inv_def del: eq_divide_eq_numeral1)
  have fl: "\<lfloor>rat_of_int ?c * (3 / 2)\<rfloor> = (3 * ?c) div 2"
    using floor_divide_of_int_eq [of "3 * ?c" 2, where ?'a = rat] by (simp add: mult.commute)
  have inc: "B_currentInterval b' = (if rat_of_int ?m / (3 / 2) \<le> rat_of_int ?c then ?m else (3 * ?c) div 2)"
    unfolding d(2) incrementCurrentInterval_def f(2) fl by simp
  have "B_currentInterval b' = min ?m ((3 * ?c) div 2)"
  proof (cases "rat_of_int ?c \<ge> rat_of_int ?m / (3 / 2)")
    case True
    then have "rat_of_int (2 * ?m) \<le> rat_of_int (3 * ?c)" by simp
    then have "2 * ?m \<le> 3 * ?c" by (simp only: of_int_le_iff)
    then show ?thesis using True inc by simp
  next
    case False
    then have "rat_of_int (3 * ?c) < rat_of_int (2 * ?m)" by simp
    then have "3 * ?c < 2 * ?m" by (simp only: of_int_less_iff)
    then show ?thesis using False inc by simp
  qed
  moreover have "?c \<le> min ?m ((3 * ?c) div 2)" using f by linarith
  ultimately show ?thesis
    using getRandomValue_bounds [of "random_of k" ?c] random_bounds [OF assms(3,4)] f d by simp
qed

end
