(* ===== verification/RedisClient.thy ===== *)
theory RedisClient
  imports RedisV3 GoUrl Server
begin

text \<open>
  The process-wide Redis client (redisclient/client.go): made on first use from REDIS_URL, or
  from REDIS_HOST and REDIS_PASSWORD, then pinged until the server answers PONG. The mutex makes
  the function one step; the global variable is the argument \<open>g\<close>, nil being None.
\<close>

record redis_options =
  Opt_Addr :: string
  Opt_Password :: string
  Opt_DB :: int
  Opt_MaxRetries :: nat

text \<open>A URL that does not parse leaves both host and password empty.\<close>

definition redis_options :: "env \<Rightarrow> redis_options" where
  "redis_options env =
     (let (host, password) =
        (if env ''REDIS_URL'' \<noteq> [] then
           (case url_Parse (env ''REDIS_URL'') of
              None \<Rightarrow> ([], [])
            | Some u \<Rightarrow> (U_Host u, (case U_User u of Some (_, Some p) \<Rightarrow> p | _ \<Rightarrow> [])))
         else (env ''REDIS_HOST'', env ''REDIS_PASSWORD''))
      in \<lparr>Opt_Addr = host, Opt_Password = password, Opt_DB = 0, Opt_MaxRetries = MaxRetries\<rparr>)"

partial_function (option) ping_loop :: "'w svc \<Rightarrow> 'w \<Rightarrow> 'w option" where
  [code]: "ping_loop svc w =
     Option.bind (Ping svc w) (\<lambda>((result, err), w').
       if err \<or> result \<noteq> ''PONG'' then ping_loop svc (sleep svc w' 5000000000) else Some w')"

definition redis_Client ::
    "'w svc \<Rightarrow> env \<Rightarrow> redis_options option \<Rightarrow> 'w \<Rightarrow> ((redis_options \<times> redis_options option) \<times> 'w) option" where
  "redis_Client svc env g w =
     (case g of
        Some o1 \<Rightarrow> Some ((o1, Some o1), w)
      | None \<Rightarrow>
          let o1 = redis_options env
          in map_option (\<lambda>w'. ((o1, Some o1), w')) (ping_loop svc w))"

section \<open>Properties\<close>

lemma ping_loop_answered:
  "Ping svc w = Some ((''PONG'', False), w') \<Longrightarrow> ping_loop svc w = Some w'"
  by (subst ping_loop.simps) simp

lemma redis_Client_set: "redis_Client svc env g w = Some ((o1, g'), w') \<Longrightarrow> g' = Some o1"
  by (auto simp: redis_Client_def Let_def split: option.splits)

text \<open>
  One client for the whole process: after the first call has returned, every later call
  gives the same client back at once, whatever the environment is by then, and without a
  command to the server.
\<close>

lemma redis_Client_singleton:
  assumes "redis_Client svc env g w = Some ((o1, g'), w')"
  shows "redis_Client svc env2 g' w2 = Some ((o1, g'), w2)"
  using redis_Client_set [OF assms] by (simp add: redis_Client_def)

text \<open>
  The URL form "redis://:password@host" is understood: for a plain host and any password,
  percent-encoded as it must be, the client is made for exactly that host and that password.
\<close>

lemma redis_url_understood:
  assumes "plain_host h" "env ''REDIS_URL'' = ''redis://:'' @ escape EncUserPassword p @ CHR ''@'' # h"
  shows "Opt_Addr (redis_options env) = h \<and> Opt_Password (redis_options env) = p \<and>
    Opt_MaxRetries (redis_options env) = 5"
  using url_Parse_redis(1) [OF assms(1), of p] assms(2)
  by (simp add: redis_options_def MaxRetries_def)

lemma ping_loop_last:
  assumes "ping_loop svc w = Some w'"
  shows "\<exists>w0. Ping svc w0 = Some ((''PONG'', False), w')"
  using _ assms
proof (rule ping_loop.raw_induct)
  fix loop svc w w'
  assume "\<And>svc w w'. loop svc w = Some w' \<Longrightarrow> \<exists>w0. Ping svc w0 = Some ((''PONG'', False), w')"
    and "Option.bind (Ping svc w) (\<lambda>((result, err), w').
       if err \<or> result \<noteq> ''PONG'' then loop svc (sleep svc w' 5000000000) else Some w') = Some w'"
  then show "\<exists>w0. Ping svc w0 = Some ((''PONG'', False), w')" by (auto split: if_splits)
qed

text \<open>
  C17. The client is not handed out before the server has answered: when the first call returns,
  its last command was a PING answered with PONG, and the options are those of the environment.
\<close>

theorem redis_Client_answered:
  assumes "redis_Client svc env None w = Some ((o1, g'), w')"
  shows "o1 = redis_options env \<and> (\<exists>w0. Ping svc w0 = Some ((''PONG'', False), w'))"
  using assms ping_loop_last by (auto simp: redis_Client_def Let_def)

theorem redis_Client_answered_witness:
  "redis_options (\<lambda>_. []) = redis_options (\<lambda>_. []) \<and>
   (\<exists>w0. Ping server w0 = Some ((''PONG'', False), world0\<lparr>W_time := 7\<rparr>))"
proof -
  have "redis_Client server (\<lambda>_. []) None (world0\<lparr>W_time := 7\<rparr>) =
      Some ((redis_options (\<lambda>_. []), Some (redis_options (\<lambda>_. []))), world0\<lparr>W_time := 7\<rparr>)"
    by (simp add: redis_Client_def Let_def ping_loop.simps Ping_def process_up with_val_def string_result_def)
  from redis_Client_answered [OF this] show ?thesis .
qed

end
