(* ===== verification/Lifecycle.thy ===== *)
theory Lifecycle
  imports Events SlackApi Backoff RedisClient
begin

text \<open>
  The life of a client (slack/client.go): \<open>Start\<close>, \<open>Stop\<close>, \<open>LoginAndStart\<close>, the ping pump, the
  read loop, \<open>registerOnBotmetrics\<close> with the vendored botmetrics client, and \<open>InitClients\<close>.

  The process state \<open>'w sys\<close> has the clients in a store of their own, since the registry, the
  goroutines and the pubsub loop share them through pointers; a goroutine started with \<open>go\<close> is an
  entry of \<open>S_tasks\<close>. The body of a loop, a tick, a frame or a published message, is one step.
\<close>

datatype task = ReadTask nat | PingTask nat | StartTask nat | PubSubTask | ListenTask

record 'w sys =
  S_redis :: "redis_options option"
  S_clients :: "nat cmap"
  S_heap :: "nat \<Rightarrow> Client"
  S_next :: nat
  S_tasks :: "task list"
  S_world :: 'w

definition upd :: "nat \<Rightarrow> (Client \<Rightarrow> Client) \<Rightarrow> 'w sys \<Rightarrow> 'w sys" where
  "upd a f s = s\<lparr>S_heap := (S_heap s)(a := f (S_heap s a))\<rparr>"

definition spawn :: "task list \<Rightarrow> 'w sys \<Rightarrow> 'w sys" where
  "spawn ts s = s\<lparr>S_tasks := S_tasks s @ ts\<rparr>"

definition alloc :: "Client \<Rightarrow> 'w sys \<Rightarrow> nat \<times> 'w sys" where
  "alloc c s = (S_next s, s\<lparr>S_heap := (S_heap s)(S_next s := c), S_next := Suc (S_next s)\<rparr>)"

definition get_redis :: "'w svc \<Rightarrow> env \<Rightarrow> 'w sys \<Rightarrow> 'w sys option" where
  "get_redis svc env s =
     map_option (\<lambda>((_, g), w). s\<lparr>S_redis := g, S_world := w\<rparr>) (redis_Client svc env (S_redis s) (S_world s))"

section \<open>Stop\<close>

definition Stop :: "'w svc \<Rightarrow> Client \<Rightarrow> 'w \<Rightarrow> client_error option \<times> 'w" where
  "Stop svc c w =
     (case C_conn c of
        None \<Rightarrow> (None, w)
      | Some conn \<Rightarrow> (case ws_close svc w conn of (failed, w) \<Rightarrow> (if failed then Some CloseError else None, w)))"

text \<open>\<open>c.ResetHeartBeatsMissed(); c.pingTicker.Stop(); c.Stop()\<close>, as both loops end.\<close>

definition shut_down :: "'w svc \<Rightarrow> nat \<Rightarrow> 'w sys \<Rightarrow> 'w sys option" where
  "shut_down svc a s = do {
     c \<leftarrow> ResetHeartBeatsMissed (S_heap s a);
     ticker \<leftarrow> C_pingTicker c;
     let w = stop_ticker svc (S_world s) ticker;
     let w = snd (Stop svc c w);
     Some ((upd a (\<lambda>_. c) s)\<lparr>S_world := w\<rparr>)
   }"

section \<open>Start\<close>

definition started_key :: "Client \<Rightarrow> string" where
  "started_key c = ''bot-'' @ C_TeamId c @ ''-started''"

text \<open>\<open>time.Now().Nanosecond()\<close>, within the second.\<close>

definition nanosecond :: "int \<Rightarrow> string" where
  "nanosecond t = show_int (t mod 1000000000)"

definition finish_start :: "'w svc \<Rightarrow> env \<Rightarrow> nat \<Rightarrow> 'w sys \<Rightarrow> 'w sys option" where
  "finish_start svc env a s =
     (let c = S_heap s a;
          (t, w) = now_nanos svc (S_world s)
      in do {
        (_, w) \<leftarrow> HSet svc (env ''RELAX_MUTEX_KEY'') (started_key c) (nanosecond t) w;
        Some (s\<lparr>S_world := w, S_clients := Set (S_clients s) (Client_key c) a\<rparr>)
      })"

definition disable_message :: Message where
  "disable_message = zero_Message\<lparr>Msg_User := zero_User, Msg_Channel := zero_Channel\<rparr>"

text \<open>What Start does once the Redis client is set, by what rtm.start said.\<close>

definition Start_with ::
    "'w svc \<Rightarrow> env \<Rightarrow> nat \<Rightarrow> Metadata \<Rightarrow> 'w sys \<Rightarrow> (client_error option \<times> 'w sys) option" where
  "Start_with svc env a d s =
     (if Md_Ok d then
        (case ws_dial svc (S_world s) (Md_Url d) of
           (None, w) \<Rightarrow> Some (Some DialError, s\<lparr>S_world := w\<rparr>)
         | (Some conn, w) \<Rightarrow>
             let (ticker, w) = new_ticker svc w;
                 s = upd a (\<lambda>c. c\<lparr>C_conn := Some conn, C_pingTicker := Some ticker\<rparr>) (s\<lparr>S_world := w\<rparr>)
             in map_option (Pair None) (finish_start svc env a (spawn [ReadTask a, PingTask a] s)))
      else if Md_Error d = ''invalid_auth'' \<or> Md_Error d = ''account_inactive'' then do {
        (err, w) \<leftarrow> sendEvent svc env (S_heap s a) ''disable_bot'' disable_message [] [] [] (S_world s);
        Some (if err \<noteq> None then err else Some (ConnectError (Md_Error d)), s\<lparr>S_world := w\<rparr>)
      }
      else if Md_Error d = ''migration_in_progress'' then Some (None, spawn [StartTask a] s)
      else Some (Some (ConnectError (Md_Error d)), s))"

definition Start :: "'w svc \<Rightarrow> env \<Rightarrow> nat \<Rightarrow> 'w sys \<Rightarrow> (client_error option \<times> 'w sys) option" where
  "Start svc env a s = do {
     s \<leftarrow> get_redis svc env s;
     let s = upd a (\<lambda>c. c\<lparr>C_redisClient := True\<rparr>) s;
     d \<leftarrow> C_data (S_heap s a);
     Start_with svc env a d s
   }"

section \<open>Botmetrics\<close>

definition NewBotmetricsClient :: "env \<Rightarrow> (string \<times> string) option" where
  "NewBotmetricsClient env =
     (if env ''BOTMETRICS_API_KEY'' = [] \<or> env ''BOTMETRICS_BOT_ID'' = [] then None
      else Some (env ''BOTMETRICS_API_KEY'', env ''BOTMETRICS_BOT_ID''))"

definition RegisterBot ::
    "'w svc \<Rightarrow> env \<Rightarrow> string \<times> string \<Rightarrow> string \<Rightarrow> int \<Rightarrow> 'w \<Rightarrow> (bool \<times> 'w) option" where
  "RegisterBot svc env bm token createdAt w =
     (let params = [(''format'', [''json'']), (''instance[token]'', [token])];
          host = (if env ''BOTMETRICS_API_HOST'' = [] then ''https://www.getbotmetrics.com''
            else env ''BOTMETRICS_API_HOST'');
          urlStr = host @ ''/bots/'' @ snd bm @ ''/instances'';
          params = (if createdAt > 0 then values_set ''instance[created_at]'' (show_int createdAt) params
            else params);
          body = values_encode params
      in do {
        r \<leftarrow> NewRequest urlStr body
          [(''Authorization'', fst bm), (''Content-Type'', ''application/x-www-form-urlencoded''),
           (''Content-Length'', show_int (int (length body)))];
        Some (case http_do svc w r of
            (HttpError _, w) \<Rightarrow> (False, w)
          | (HttpOk resp, w) \<Rightarrow> (resp_status resp = 201, w))
      })"

text \<open>The result of the registration is only logged.\<close>

definition registerOnBotmetrics :: "'w svc \<Rightarrow> env \<Rightarrow> nat \<Rightarrow> 'w sys \<Rightarrow> 'w sys option" where
  "registerOnBotmetrics svc env a s = do {
     s \<leftarrow> get_redis svc env s;
     let c = S_heap s a;
     (shouldRegister, w) \<leftarrow>
       HSetNX svc (env ''RELAX_MUTEX_KEY'') (''botmetrics:'' @ C_TeamId c) ''ok'' (S_world s);
     if shouldRegister then
       (case NewBotmetricsClient env of
          None \<Rightarrow> Some (s\<lparr>S_world := w\<rparr>)
        | Some bm \<Rightarrow> map_option (\<lambda>(_, w). s\<lparr>S_world := w\<rparr>) (RegisterBot svc env bm (C_Token c) (- 1) w))
     else Some (s\<lparr>S_world := w\<rparr>)
   }"

section \<open>LoginAndStart\<close>

definition LoginAndStart :: "'w svc \<Rightarrow> env \<Rightarrow> nat \<Rightarrow> 'w sys \<Rightarrow> (client_error option \<times> 'w sys) option" where
  "LoginAndStart svc env a s =
     (let (t, w) = now_nanos svc (S_world s)
      in do {
        ((err, c), w) \<leftarrow> Retry (Login svc env) svc (login_backoff t) (S_heap s a) w;
        let s = (upd a (\<lambda>_. c) s)\<lparr>S_world := w\<rparr>;
        (case err of
           Some e \<Rightarrow> Some (Some e, s)
         | None \<Rightarrow> do {
             (err, s) \<leftarrow> Start svc env a s;
             s \<leftarrow> (if env ''BOTMETRICS_ENABLED'' = ''true'' then registerOnBotmetrics svc env a s else Some s);
             Some (err, s)
           })
      })"

section \<open>The ping pump and the read loop\<close>

definition ping_json :: "Client \<Rightarrow> int \<Rightarrow> string" where
  "ping_json c now = enc_Message (zero_Message\<lparr>Msg_Id := C_TeamId c, Msg_Type := ''ping'',
     Msg_EventTimestamp := show_int now\<rparr>)"

text \<open>One tick; the flag says whether the loop goes on.\<close>

definition ping_tick :: "'w svc \<Rightarrow> nat \<Rightarrow> 'w sys \<Rightarrow> (bool \<times> 'w sys) option" where
  "ping_tick svc a s =
     (let (now, w) = now_nanos svc (S_world s);
          json = ping_json (S_heap s a) now
      in do {
        c \<leftarrow> IncrementHeartBeatsMissed (S_heap s a);
        let s = (upd a (\<lambda>_. c) s)\<lparr>S_world := w\<rparr>;
        if sint (C_heartBeatsMissed c) \<ge> 3 then map_option (Pair False) (shut_down svc a s)
        else do {
          conn \<leftarrow> C_conn c;
          Some (True, s\<lparr>S_world := ws_write svc (S_world s) conn json\<rparr>)
        }
      })"

text \<open>What ReadMessage gives: a text frame, another frame, a timeout, or another error.\<close>

datatype frame = TextFrame string | OtherFrame | ReadTimeout | ReadError

definition read_frame :: "'w svc \<Rightarrow> env \<Rightarrow> nat \<Rightarrow> frame \<Rightarrow> 'w sys \<Rightarrow> (bool \<times> 'w sys) option" where
  "read_frame svc env a f s = do {
     _ \<leftarrow> C_conn (S_heap s a);
     (case f of
        TextFrame msg \<Rightarrow>
          (case unmarshal dec_Message msg zero_Message of
             (message, None) \<Rightarrow> do {
               (c, w) \<leftarrow> handleMessage svc env (S_heap s a) message (S_world s);
               Some (True, (upd a (\<lambda>_. c) s)\<lparr>S_world := w\<rparr>)
             }
           | (_, Some _) \<Rightarrow> Some (True, s))
      | OtherFrame \<Rightarrow> Some (True, s)
      | ReadTimeout \<Rightarrow> Some (True, s)
      | ReadError \<Rightarrow> map_option (Pair False) (shut_down svc a s))
   }"

section \<open>InitClients\<close>

text \<open>The reply to HGETALL in pairs; an odd one out is an index out of range.\<close>

fun init_clients :: "string list \<Rightarrow> 'w sys \<Rightarrow> 'w sys option" where
  "init_clients [] s = Some s"
| "init_clients [_] s = None"
| "init_clients (teamId # val # rest) s =
     (case NewClient val of
        (_, Some _) \<Rightarrow> init_clients rest s
      | (c, None) \<Rightarrow> (case alloc c s of (a, s) \<Rightarrow> init_clients rest (spawn [StartTask a] s)))"

definition InitClients :: "'w svc \<Rightarrow> env \<Rightarrow> 'w sys \<Rightarrow> 'w sys option" where
  "InitClients svc env s = do {
     s \<leftarrow> get_redis svc env s;
     (result, w) \<leftarrow> HGetAll svc (env ''RELAX_BOTS_KEY'') (S_world s);
     s \<leftarrow> init_clients result (s\<lparr>S_world := w\<rparr>);
     Some (spawn [PubSubTask] s)
   }"

section \<open>The state, field by field\<close>

lemma upd_simps [simp]:
  "S_next (upd a f s) = S_next s" "S_tasks (upd a f s) = S_tasks s" "S_clients (upd a f s) = S_clients s"
  "S_world (upd a f s) = S_world s" "S_heap (upd a f s) a = f (S_heap s a)" "S_redis (upd a f s) = S_redis s"
  "a' \<noteq> a \<Longrightarrow> S_heap (upd a f s) a' = S_heap s a'"
  by (simp_all add: upd_def)

lemma spawn_simps [simp]:
  "S_next (spawn ts s) = S_next s" "S_tasks (spawn ts s) = S_tasks s @ ts" "S_clients (spawn ts s) = S_clients s"
  "S_world (spawn ts s) = S_world s" "S_heap (spawn ts s) = S_heap s" "S_redis (spawn ts s) = S_redis s"
  by (simp_all add: spawn_def)

lemma get_redis_again: "S_redis s = Some o1 \<Longrightarrow> get_redis svc env s = Some s"
  by (simp add: get_redis_def redis_Client_def)

lemma small_beats:
  fixes m :: int64
  assumes "0 \<le> sint m" "sint m < 3"
  shows "m = 0 \<or> m = 1 \<or> m = 2"
proof -
  have "sint m = 0 \<or> sint m = 1 \<or> sint m = 2" using assms by auto
  moreover have "m = word_of_int (sint m)" by simp
  ultimately show ?thesis by (metis of_int_0 of_int_1 of_int_numeral)
qed

section \<open>Properties\<close>

text \<open>
  A tick with fewer than two pings unanswered writes a ping to the connection and counts it,
  and the tick that finds two unanswered resets the counter, stops the ticker, closes the
  connection, writes nothing, and ends the pump.
\<close>

lemma ping_tick_counts:
  assumes "C_heartBeatsMutex (S_heap s a)" "C_conn (S_heap s a) = Some conn" "C_pingTicker (S_heap s a) = Some t"
    and "0 \<le> sint (C_heartBeatsMissed (S_heap s a))" "sint (C_heartBeatsMissed (S_heap s a)) < 3"
    and "now_nanos svc (S_world s) = (now, w)"
  shows "\<exists>goes_on s'. ping_tick svc a s = Some (goes_on, s') \<and>
    (goes_on \<longleftrightarrow> sint (C_heartBeatsMissed (S_heap s a)) < 2) \<and>
    sint (C_heartBeatsMissed (S_heap s' a)) =
      (if goes_on then sint (C_heartBeatsMissed (S_heap s a)) + 1 else 0) \<and>
    S_world s' =
      (if goes_on then ws_write svc w conn (ping_json (S_heap s a) now)
       else snd (ws_close svc (stop_ticker svc w t) conn))"
proof -
  let ?m = "C_heartBeatsMissed (S_heap s a)"
  have m: "?m = 0 \<or> ?m = 1 \<or> ?m = 2" using small_beats assms(4,5) by blast
  then have "sint (?m + 1) = sint ?m + 1" by auto
  moreover have "sint ?m < 2 \<or> ?m = 2" using m by auto
  ultimately show ?thesis
    using assms(1-3,6)
    by (auto simp: ping_tick_def IncrementHeartBeatsMissed_def Let_def shut_down_def ResetHeartBeatsMissed_def
        Stop_def case_prod_unfold)
qed

definition sample_sys :: "int64 \<Rightarrow> world sys" where
  "sample_sys missed = \<lparr>S_redis = Some (redis_options no_env), S_clients = Set New ''T1'' 0,
     S_heap = (\<lambda>_. sample_client\<lparr>C_heartBeatsMissed := missed\<rparr>), S_next = 1,
     S_tasks = [ReadTask 0, PingTask 0], S_world = world0\<rparr>"

text \<open>
  C11. Start registers a client, under its own key, and starts its two loops exactly when it
  returns without an error on an answer that is ok; a Start that fails changes neither the
  registry nor the set of goroutines.
\<close>

theorem Start_registers:
  assumes "Start svc env a s = Some (err, s')" "cmap_inv (S_clients s)"
    and "C_data (S_heap s a) = Some d"
  shows "(err = None \<and> Md_Ok d \<longrightarrow>
      S_tasks s' = S_tasks s @ [ReadTask a, PingTask a] \<and>
      Get (S_clients s') = (Get (S_clients s))(Client_key (S_heap s a) \<mapsto> a)) \<and>
    (err = None \<and> \<not> Md_Ok d \<longrightarrow>
      Md_Error d = ''migration_in_progress'' \<and> S_tasks s' = S_tasks s @ [StartTask a] \<and> S_clients s' = S_clients s) \<and>
    (err \<noteq> None \<longrightarrow> S_tasks s' = S_tasks s \<and> S_clients s' = S_clients s)"
proof -
  obtain s0 where g: "get_redis svc env s = Some s0" using assms(1) by (auto simp: Start_def)
  then have s0: "S_heap s0 = S_heap s" "S_tasks s0 = S_tasks s" "S_clients s0 = S_clients s"
    by (auto simp: get_redis_def)
  define s1 where "s1 = upd a (\<lambda>c. c\<lparr>C_redisClient := True\<rparr>) s0"
  have s1: "S_tasks s1 = S_tasks s" "S_clients s1 = S_clients s" "Client_key (S_heap s1 a) = Client_key (S_heap s a)"
    by (simp_all add: s1_def s0 Client_key_def)
  have st: "Start_with svc env a d s1 = Some (err, s')"
    using assms(1,3) g s0 by (simp add: Start_def s1_def Let_def)
  show ?thesis
  proof (cases "Md_Ok d")
    case True
    with st s1 show ?thesis
      by (auto simp: Start_with_def finish_start_def Let_def case_prod_unfold clients.abs_set [OF assms(2)]
          Client_key_def split: option.splits)
  next
    case False
    with st s1 show ?thesis by (auto simp: Start_with_def split: if_splits)
  qed
qed

definition failing_sys :: "string \<Rightarrow> world sys" where
  "failing_sys error = \<lparr>S_redis = Some (redis_options no_env), S_clients = New,
     S_heap = (\<lambda>_. sample_client\<lparr>C_data := Some (sample_metadata\<lparr>Md_Ok := False, Md_Error := error\<rparr>)\<rparr>), S_next = 1,
     S_tasks = [], S_world = world0\<rparr>"

theorem Start_registers_witness:
  "\<exists>s'. Start server sample_env 0 (failing_sys ''migration_in_progress'') = Some (None, s') \<and>
    S_tasks s' = [StartTask 0] \<and> S_clients s' = New"
proof -
  obtain s' where st: "Start server sample_env 0 (failing_sys ''migration_in_progress'') = Some (None, s')"
    by (simp add: Start_def Start_with_def get_redis_def redis_Client_def failing_sys_def Let_def upd_def)
  have "cmap_inv (S_clients (failing_sys ''migration_in_progress''))"
    by (simp add: failing_sys_def)
  from Start_registers [OF st this] st show ?thesis by (simp add: failing_sys_def)
qed

text \<open>
  A client whose token is refused is reported to the owner: Start delivers one disable_bot
  event, with the team and the namespace of the client and the current time as its event
  timestamp, and returns an error that names the reason.
\<close>

lemma Start_reports_disabled_bot:
  assumes "redis_lawful svc hash queue" "redis_up svc" "clock_frame svc hash queue"
    and "S_redis s = Some o1" "C_data (S_heap s a) = Some d" "\<not> Md_Ok d"
    and "Md_Error d = ''invalid_auth'' \<or> Md_Error d = ''account_inactive''"
  shows "\<exists>s' e. Start svc env a s = Some (Some (ConnectError (Md_Error d)), s') \<and>
    (hash (S_world s'), queue (S_world s')) = deliver env e (hash (S_world s), queue (S_world s)) \<and>
    Ev_Type e = ''disable_bot'' \<and> Ev_TeamUid e = C_TeamId (S_heap s a) \<and>
    Ev_Namespace e = C_Namespace (S_heap s a) \<and> Ev_ChannelUid e = [] \<and>
    Ev_EventTimestamp e = show_int (fst (now_nanos svc (S_world s)))"
proof -
  let ?c = "(S_heap s a)\<lparr>C_redisClient := True\<rparr>"
  have "ready ?c" using assms(5) by (simp add: ready_def)
  then obtain w' where "sendEvent svc env ?c ''disable_bot'' disable_message [] [] [] (S_world s) = Some (None, w')"
    "(hash w', queue w') = deliver env (event_at (fst (now_nanos svc (S_world s))) ?c ''disable_bot''
       disable_message [] [] []) (hash (S_world s), queue (S_world s))"
    by (rule sendEvent_up [OF assms(1-3)])
  then show ?thesis
    using assms(5-7)
    by (auto simp: Start_def Start_with_def get_redis_again [OF assms(4)] Let_def disable_message_def zero_Message_def
        zero_Channel_def)
qed

text \<open>The clients in a reply to HGETALL: what the values at the odd places decode to.\<close>

fun stored_clients :: "string list \<Rightarrow> Client list" where
  "stored_clients (_ # val # rest) =
     (case NewClient val of (c, None) \<Rightarrow> c # stored_clients rest | (_, Some _) \<Rightarrow> stored_clients rest)"
| "stored_clients _ = []"

text \<open>A store with a list of clients put at consecutive addresses.\<close>

fun put_all :: "Client list \<Rightarrow> nat \<Rightarrow> (nat \<Rightarrow> Client) \<Rightarrow> nat \<Rightarrow> Client" where
  "put_all [] n h = h"
| "put_all (c # cs) n h = put_all cs (Suc n) (h(n := c))"

lemma put_all_below: "a < n \<Longrightarrow> put_all cs n h a = h a"
  by (induction cs arbitrary: n h) auto

lemma put_all_nth: "i < length cs \<Longrightarrow> put_all cs n h (n + i) = cs ! i"
proof (induction cs arbitrary: n h i)
  case (Cons c cs)
  show ?case
  proof (cases i)
    case 0
    then show ?thesis by (simp add: put_all_below)
  next
    case (Suc j)
    then show ?thesis using Cons.IH [where i = j and n = "Suc n"] Cons.prems by simp
  qed
qed simp

lemma map_put_all: "List.map (put_all cs n h) [n ..< n + length cs] = cs"
  by (rule nth_equalityI) (simp_all add: put_all_nth)

lemma init_clients_spec:
  "init_clients kvs s = (if even (length kvs) then
    Some (s\<lparr>S_heap := put_all (stored_clients kvs) (S_next s) (S_heap s),
      S_next := S_next s + length (stored_clients kvs),
      S_tasks := S_tasks s @ List.map StartTask [S_next s ..< S_next s + length (stored_clients kvs)]\<rparr>)
    else None)"
proof (induction kvs arbitrary: s rule: induct_list012)
  case (3 teamId val rest)
  obtain c e where n: "NewClient val = (c, e)" by fastforce
  show ?case
    by (cases e) (simp_all add: n 3(1) alloc_def spawn_def upt_conv_Cons del: upt_Suc)
qed simp_all

text \<open>
  On boot every team stored in Redis whose JSON is valid gets one client of its own, decoded
  from that JSON, and one goroutine that logs it in; entries that do not decode are skipped.
\<close>

lemma InitClients_starts_stored:
  assumes "S_redis s = Some o1"
    and "HGetAll svc (env ''RELAX_BOTS_KEY'') (S_world s) = Some (kvs, w)" "even (length kvs)"
  shows "\<exists>s'. InitClients svc env s = Some s' \<and>
    S_tasks s' = S_tasks s @ List.map StartTask [S_next s ..< S_next s'] @ [PubSubTask] \<and>
    List.map (S_heap s') [S_next s ..< S_next s'] = stored_clients kvs"
proof -
  let ?n = "S_next s" and ?cs = "stored_clients kvs"
  show ?thesis
    using assms(3) map_put_all [of ?cs ?n]
    by (simp add: InitClients_def get_redis_again [OF assms(1)] assms(2) init_clients_spec)
qed

end
