(* ===== verification/PubSub.thy ===== *)
theory PubSub
  imports Lifecycle
begin

text \<open>
  The pubsub loop (slack/client.go, \<open>startReadFromRedisPubSubLoop\<close>): one definition per command
  that the owner publishes, and the dispatch on what ReceiveTimeout gives.
\<close>

definition registered :: "'w sys \<Rightarrow> string \<Rightarrow> nat option" where
  "registered s key = Get (S_clients s) key"

section \<open>message\<close>

text \<open>A command without an id gets the nanosecond of the clock.\<close>

definition command_id :: "'w svc \<Rightarrow> Command \<Rightarrow> 'w \<Rightarrow> string \<times> 'w" where
  "command_id svc cmd w =
     (if Cmd_Id cmd = [] then (case now_nanos svc w of (t, w) \<Rightarrow> (nanosecond t, w)) else (Cmd_Id cmd, w))"

definition command_key :: "Command \<Rightarrow> string" where
  "command_key cmd = registry_key (Cmd_Namespace cmd) (Cmd_TeamId cmd)"

definition cmd_message :: "'w svc \<Rightarrow> env \<Rightarrow> Command \<Rightarrow> 'w sys \<Rightarrow> 'w sys option" where
  "cmd_message svc env cmd s =
     (if Cmd_TeamId cmd = [] then Some s
      else let (id1, w) = command_id svc cmd (S_world s);
               s = s\<lparr>S_world := w\<rparr>
        in case registered s (command_key cmd) of
             None \<Rightarrow> Some s
           | Some a \<Rightarrow>
               (case C_conn (S_heap s a) of
                  None \<Rightarrow> Some s
                | Some conn \<Rightarrow> do {
                    (shouldSend, w) \<leftarrow> HSetNX svc (env ''RELAX_MUTEX_KEY'')
                      (''send_slack_message:'' @ id1) ''ok'' (S_world s);
                    Some (s\<lparr>S_world := (if shouldSend then ws_write svc w conn (Cmd_Payload cmd) else w)\<rparr>)
                  }))"

section \<open>team_added and team_removed\<close>

text \<open>Stopping the client that is registered, if any; the error of Close is logged.\<close>

definition stop_registered :: "'w svc \<Rightarrow> string \<Rightarrow> 'w sys \<Rightarrow> 'w sys" where
  "stop_registered svc key s =
     (case registered s key of
        None \<Rightarrow> s
      | Some a \<Rightarrow> s\<lparr>S_world := snd (Stop svc (S_heap s a) (S_world s))\<rparr>)"

definition cmd_team_added :: "'w svc \<Rightarrow> env \<Rightarrow> Command \<Rightarrow> 'w sys \<Rightarrow> 'w sys option" where
  "cmd_team_added svc env cmd s =
     (if Cmd_TeamId cmd = [] then Some s
      else do {
        (val, w) \<leftarrow> HGet svc (env ''RELAX_BOTS_KEY'') (command_key cmd) (S_world s);
        let s = stop_registered svc (command_key cmd) (s\<lparr>S_world := w\<rparr>);
        (case NewClient val of
           (_, Some _) \<Rightarrow> Some s
         | (c, None) \<Rightarrow>
             (case alloc c s of (a, s) \<Rightarrow> map_option snd (LoginAndStart svc env a s)))
      })"

definition cmd_team_removed :: "'w svc \<Rightarrow> env \<Rightarrow> Command \<Rightarrow> 'w sys \<Rightarrow> 'w sys option" where
  "cmd_team_removed svc env cmd s =
     (if Cmd_TeamId cmd = [] then Some s
      else do {
        (_, w) \<leftarrow> HGet svc (env ''RELAX_BOTS_KEY'') (command_key cmd) (S_world s);
        let s = s\<lparr>S_world := w\<rparr>;
        (case registered s (command_key cmd) of
           None \<Rightarrow> Some s
         | Some _ \<Rightarrow>
             Some ((stop_registered svc (command_key cmd) s)\<lparr>S_clients := Remove (S_clients s) (command_key cmd)\<rparr>))
      })"

section \<open>The loop\<close>

text \<open>Subscribing; when that fails the goroutine ends, else it listens for ever.\<close>

definition start_pubsub :: "'w svc \<Rightarrow> env \<Rightarrow> bool \<Rightarrow> 'w sys \<Rightarrow> 'w sys option" where
  "start_pubsub svc env subscribed s =
     map_option (\<lambda>s. if subscribed then spawn [ListenTask] s else s) (get_redis svc env s)"

definition run_command :: "'w svc \<Rightarrow> env \<Rightarrow> Command \<Rightarrow> 'w sys \<Rightarrow> 'w sys option" where
  "run_command svc env cmd s =
     (if Cmd_Type cmd = ''message'' then cmd_message svc env cmd s
      else if Cmd_Type cmd = ''team_added'' then cmd_team_added svc env cmd s
      else if Cmd_Type cmd = ''team_removed'' then cmd_team_removed svc env cmd s
      else Some s)"

text \<open>What ReceiveTimeout gives: an error (a timeout among them), another kind of reply, or a message.\<close>

datatype received = ReceiveError | OtherReply | Published string string

definition receive :: "'w svc \<Rightarrow> env \<Rightarrow> received \<Rightarrow> 'w sys \<Rightarrow> 'w sys option" where
  "receive svc env r s =
     (case r of
        Published channel payload \<Rightarrow>
          if channel \<noteq> env ''RELAX_BOTS_PUBSUB'' then Some s
          else (case unmarshal dec_Command payload zero_Command of
              (_, Some _) \<Rightarrow> Some s
            | (cmd, None) \<Rightarrow> run_command svc env cmd s)
      | _ \<Rightarrow> Some s)"

section \<open>Properties\<close>

text \<open>
  C13. A published message reaches Slack once: the instance that takes the command's id in the
  mutex hash writes exactly the payload to the team's connection, and one that finds the id
  taken changes nothing but what its HSETNX did, and writes nothing.
\<close>

theorem cmd_message_once:
  assumes "redis_lawful svc hash queue" "redis_up svc"
    and "Cmd_TeamId cmd \<noteq> []" "Cmd_Id cmd \<noteq> []"
    and "registered s (command_key cmd) = Some a" "C_conn (S_heap s a) = Some conn"
  shows "\<exists>w. hash w = hsetnx (hash (S_world s)) (env ''RELAX_MUTEX_KEY'') (''send_slack_message:'' @ Cmd_Id cmd) ''ok'' \<and>
    queue w = queue (S_world s) \<and>
    cmd_message svc env cmd s = Some (s\<lparr>S_world :=
      (if hash (S_world s) (env ''RELAX_MUTEX_KEY'') (''send_slack_message:'' @ Cmd_Id cmd) = None
       then ws_write svc w conn (Cmd_Payload cmd) else w)\<rparr>)"
proof -
  obtain w where "HSetNX svc (env ''RELAX_MUTEX_KEY'') (''send_slack_message:'' @ Cmd_Id cmd) ''ok'' (S_world s) =
      Some (hash (S_world s) (env ''RELAX_MUTEX_KEY'') (''send_slack_message:'' @ Cmd_Id cmd) = None, w)"
    "queue w = queue (S_world s)"
    "hash w = hsetnx (hash (S_world s)) (env ''RELAX_MUTEX_KEY'') (''send_slack_message:'' @ Cmd_Id cmd) ''ok''"
    by (rule HSetNX_up [OF assms(1,2), of "env ''RELAX_MUTEX_KEY''" "''send_slack_message:'' @ Cmd_Id cmd" "''ok''"]) blast
  then show ?thesis
    using assms(3-6) by (auto simp: cmd_message_def command_id_def Let_def registered_def)
qed

definition sample_command :: "string \<Rightarrow> Command" where
  "sample_command type = zero_Command\<lparr>Cmd_Id := ''m1'', Cmd_Type := type, Cmd_TeamId := ''T1'', Cmd_Payload := ''{}''\<rparr>"

lemma sample_key [simp]: "command_key (sample_command type) = ''T1''"
  by (simp add: command_key_def sample_command_def registry_key_def zero_Command_def)

lemma sample_team [simp]: "Cmd_TeamId (sample_command type) = ''T1''" "Cmd_Type (sample_command type) = type"
  by (simp_all add: sample_command_def)

lemma sample_Get [simp]: "Get (S_clients (sample_sys m)) ''T1'' = Some 0"
  by (simp add: sample_sys_def clients.get_set)

lemma sample_registered [simp]: "registered (sample_sys m) ''T1'' = Some 0"
  by (simp add: registered_def)

theorem cmd_message_once_witness:
  "\<exists>w. W_hash w = hsetnx (W_hash (S_world (sample_sys 0))) (sample_env ''RELAX_MUTEX_KEY'')
      (''send_slack_message:'' @ Cmd_Id (sample_command ''message'')) ''ok'' \<and>
    W_queue w = W_queue (S_world (sample_sys 0)) \<and>
    cmd_message server sample_env (sample_command ''message'') (sample_sys 0) = Some ((sample_sys 0)\<lparr>S_world :=
      (if W_hash (S_world (sample_sys 0)) (sample_env ''RELAX_MUTEX_KEY'')
         (''send_slack_message:'' @ Cmd_Id (sample_command ''message'')) = None
       then ws_write server w 0 (Cmd_Payload (sample_command ''message'')) else w)\<rparr>)"
  by (rule cmd_message_once [where a = 0])
    (simp_all, simp_all add: sample_command_def sample_sys_def sample_client_def)

text \<open>
  C14. team_removed closes the connection of the team's client and takes exactly that team out of
  the registry, which then counts one client less; the other teams are untouched, and so are the
  goroutines. For a team that is not registered it changes nothing but the outside world.
\<close>

theorem cmd_team_removed_effect:
  assumes "cmd_team_removed svc env cmd s = Some s'" "Cmd_TeamId cmd \<noteq> []" "cmap_inv (S_clients s)"
  shows "Get (S_clients s') = (Get (S_clients s))(command_key cmd := None) \<and>
    (case registered s (command_key cmd) of
       None \<Rightarrow> Count (S_clients s') = Count (S_clients s)
     | Some a \<Rightarrow> Suc (Count (S_clients s')) = Count (S_clients s) \<and>
         (\<exists>w. S_world s' = snd (Stop svc (S_heap s a) w))) \<and>
    S_tasks s' = S_tasks s \<and> S_heap s' = S_heap s"
proof -
  obtain v w where h: "HGet svc (env ''RELAX_BOTS_KEY'') (command_key cmd) (S_world s) = Some (v, w)"
    using assms(1,2) by (auto simp: cmd_team_removed_def)
  show ?thesis
  proof (cases "registered s (command_key cmd)")
    case None
    then have "s' = s\<lparr>S_world := w\<rparr>"
      using assms(1,2) h by (simp add: cmd_team_removed_def registered_def)
    with None show ?thesis by (auto simp: registered_def fun_upd_idem)
  next
    case (Some a)
    then have s': "s' = s\<lparr>S_world := snd (Stop svc (S_heap s a) w), S_clients := Remove (S_clients s) (command_key cmd)\<rparr>"
      using assms(1,2) h by (auto simp: cmd_team_removed_def registered_def stop_registered_def Let_def)
    have "Suc (Count (Remove (S_clients s) (command_key cmd))) = Count (S_clients s)"
      using Some by (intro clients.count_remove_present [OF assms(3)]) (simp add: registered_def)
    with s' Some show ?thesis by (auto simp: clients.abs_remove [OF assms(3)])
  qed
qed

theorem cmd_team_removed_effect_witness:
  "\<exists>s'. cmd_team_removed server sample_env (sample_command ''team_removed'') (sample_sys 0) = Some s' \<and>
    Get (S_clients s') = (Get (S_clients (sample_sys 0)))(''T1'' := None) \<and>
    Suc (Count (S_clients s')) = Count (S_clients (sample_sys 0)) \<and> S_tasks s' = [ReadTask 0, PingTask 0]"
proof -
  have h: "HGet server (sample_env ''RELAX_BOTS_KEY'') ''T1'' (S_world (sample_sys 0)) = Some ([], world0)"
    by (simp add: HGet_def with_val_def process_up string_result_def sample_sys_def world0_def)
  obtain s' where c: "cmd_team_removed server sample_env (sample_command ''team_removed'') (sample_sys 0) = Some s'"
    by (simp add: cmd_team_removed_def h registered_def Let_def)
  have "Cmd_TeamId (sample_command ''team_removed'') \<noteq> []" "cmap_inv (S_clients (sample_sys 0))"
    "S_tasks (sample_sys 0) = [ReadTask 0, PingTask 0]"
    by (simp_all add: sample_sys_def)
  with cmd_team_removed_effect [OF c this(1,2)] c show ?thesis by simp
qed

text \<open>
  What is not addressed to this program is ignored: a reply that is not a message, a message
  on another channel, a payload that does not decode, a command of an unknown type and one
  without a team change nothing.
\<close>

lemma receive_ignores:
  assumes "r = ReceiveError \<or> r = OtherReply \<or>
    (\<exists>channel payload cmd e. r = Published channel payload \<and>
       unmarshal dec_Command payload zero_Command = (cmd, e) \<and>
       (channel \<noteq> env ''RELAX_BOTS_PUBSUB'' \<or> e \<noteq> None \<or> Cmd_TeamId cmd = [] \<or>
        Cmd_Type cmd \<notin> {''message'', ''team_added'', ''team_removed''}))"
  shows "receive svc env r s = Some s"
  using assms
  by (auto simp: receive_def run_command_def cmd_message_def cmd_team_added_def cmd_team_removed_def
      split: option.splits)

end
