(* ===== verification/System.thy ===== *)
theory System
  imports PubSub
begin

text \<open>
  The process as a whole: goroutines take turns, each step being one start of a client, one
  frame read, one tick, or one published message. The invariant says that every client that a
  goroutine or the registry refers to is in order, and that a registered client is filed under
  its own key; it holds in every reachable state, and no step of a running client panics.
\<close>

section \<open>Steps\<close>

definition finish :: "task \<Rightarrow> 'w sys \<Rightarrow> 'w sys" where
  "finish t s = s\<lparr>S_tasks := remove1 t (S_tasks s)\<rparr>"

text \<open>After its loop, a goroutine of a client runs \<open>go c.LoginAndStart()\<close>.\<close>

definition loop_end :: "task \<Rightarrow> nat \<Rightarrow> bool \<times> 'w sys \<Rightarrow> 'w sys" where
  "loop_end t a r = (case r of (goes_on, s) \<Rightarrow> if goes_on then s else spawn [StartTask a] (finish t s))"

inductive step :: "'w svc \<Rightarrow> env \<Rightarrow> 'w sys \<Rightarrow> 'w sys \<Rightarrow> bool" for svc env where
  start: "StartTask a \<in> set (S_tasks s) \<Longrightarrow> LoginAndStart svc env a (finish (StartTask a) s) = Some (err, s') \<Longrightarrow>
    step svc env s s'"
| frame: "ReadTask a \<in> set (S_tasks s) \<Longrightarrow> read_frame svc env a f s = Some r \<Longrightarrow>
    step svc env s (loop_end (ReadTask a) a r)"
| tick: "PingTask a \<in> set (S_tasks s) \<Longrightarrow> ping_tick svc a s = Some r \<Longrightarrow>
    step svc env s (loop_end (PingTask a) a r)"
| subscribe: "PubSubTask \<in> set (S_tasks s) \<Longrightarrow> start_pubsub svc env ok (finish PubSubTask s) = Some s' \<Longrightarrow>
    step svc env s s'"
| publish: "ListenTask \<in> set (S_tasks s) \<Longrightarrow> receive svc env r s = Some s' \<Longrightarrow> step svc env s s'"

inductive_cases step_cases: "step svc env s s'"

definition empty_sys :: "'w \<Rightarrow> 'w sys" where
  "empty_sys w = \<lparr>S_redis = None, S_clients = New, S_heap = (\<lambda>_. zero_Client), S_next = 0, S_tasks = [],
     S_world = w\<rparr>"

inductive reachable :: "'w svc \<Rightarrow> env \<Rightarrow> 'w sys \<Rightarrow> bool" for svc env where
  boot: "InitClients svc env (empty_sys w) = Some s \<Longrightarrow> reachable svc env s"
| step: "reachable svc env s \<Longrightarrow> step svc env s s' \<Longrightarrow> reachable svc env s'"

inductive_simps reachable_simps: "reachable svc env s"

section \<open>Clients in order\<close>

definition data_ok :: "Client \<Rightarrow> bool" where
  "data_ok c \<longleftrightarrow> (\<forall>d. C_data c = Some d \<longrightarrow>
     (\<exists>us chs. Md_Users d = Some us \<and> Md_Channels d = Some chs \<and> keyed_by User_Id us \<and> keyed_by Ch_Id chs))"

text \<open>Fewer than three pings are unanswered.\<close>

definition beats_ok :: "Client \<Rightarrow> bool" where
  "beats_ok c \<longleftrightarrow> 0 \<le> sint (C_heartBeatsMissed c) \<and> sint (C_heartBeatsMissed c) < 3"

definition prepared :: "Client \<Rightarrow> bool" where
  "prepared c \<longleftrightarrow> C_heartBeatsMutex c \<and> data_ok c \<and> beats_ok c"

definition live :: "Client \<Rightarrow> bool" where
  "live c \<longleftrightarrow> prepared c \<and> C_redisClient c \<and> C_data c \<noteq> None \<and> C_conn c \<noteq> None \<and> C_pingTicker c \<noteq> None"

definition evolves :: "Client \<Rightarrow> Client \<Rightarrow> bool" where
  "evolves c c' \<longleftrightarrow> Client_key c' = Client_key c \<and> (prepared c \<longrightarrow> prepared c') \<and> (live c \<longrightarrow> live c')"

lemma evolves_refl [simp]: "evolves c c"
  by (simp add: evolves_def)

lemma evolves_trans: "evolves c c' \<Longrightarrow> evolves c' c'' \<Longrightarrow> evolves c c''"
  by (simp add: evolves_def)

lemma live_wf: "live c \<Longrightarrow> client_wf c"
  by (auto simp: live_def prepared_def data_ok_def client_wf_def started_def)

lemma live_prepared: "live c \<Longrightarrow> prepared c"
  by (simp add: live_def)

lemma evolves_by_data:
  "data_ok c' \<Longrightarrow> c' = c\<lparr>C_data := Some d\<rparr> \<Longrightarrow> evolves c c'"
  by (auto simp: evolves_def prepared_def live_def beats_ok_def Client_key_def)

lemma Login_evolves:
  assumes "Login svc env c w = Some ((err, c'), w')"
  shows "evolves c c' \<and> (err = None \<longrightarrow> C_data c' \<noteq> None)"
  using assms
proof (cases rule: Login_cases)
  case (ok contents d resp)
  obtain us chs where t: "Md_Users (fill_tables d) = Some us" "Md_Channels (fill_tables d) = Some chs"
    "tables_of d us chs" by (rule fill_tables_ok)
  then have "data_ok c'" using ok by (simp add: data_ok_def tables_of_def)
  with ok evolves_by_data [of c' "fill_tables d" c] show ?thesis by simp
qed simp_all

lemma Retry_Login_evolves:
  assumes "Retry (Login svc env) svc b c w = Some ((err, c'), w')"
  shows "evolves c c' \<and> (err = None \<longrightarrow> C_data c' \<noteq> None)"
  by (rule Retry_relation [where R = evolves, OF Login_evolves evolves_refl evolves_trans assms])

lemma handleMessage_evolves:
  assumes h: "handleMessage svc env c msg w = Some (c', w')" and c: "live c"
  shows "evolves c c'"
proof -
  have c': "c' = client_after msg c" by (rule handleMessage_client [OF h])
  have wf: "client_wf c'" using client_after_wf [OF live_wf [OF c]] c' by simp
  have same: "same_identity c c'"
    using client_after_identity live_wf [OF c] c' by (simp add: client_wf_def)
  have "C_heartBeatsMissed c' = C_heartBeatsMissed c \<or> C_heartBeatsMissed c' = 0"
    using c c' by (auto simp: client_after_def live_def prepared_def data_ok_def put_user_def put_channel_def
        split: incoming.splits)
  then have "beats_ok c'" using c by (auto simp: beats_ok_def live_def prepared_def)
  then have "live c'"
    using wf same c by (auto simp: live_def prepared_def client_wf_def started_def data_ok_def same_identity_def)
  then show ?thesis using same by (simp add: evolves_def live_prepared Client_key_def same_identity_def)
qed

section \<open>The invariant\<close>

definition task_ok :: "'w sys \<Rightarrow> task \<Rightarrow> bool" where
  "task_ok s t \<longleftrightarrow> (case t of
     ReadTask a \<Rightarrow> a < S_next s \<and> live (S_heap s a)
   | PingTask a \<Rightarrow> a < S_next s \<and> live (S_heap s a)
   | StartTask a \<Rightarrow> a < S_next s
   | _ \<Rightarrow> True)"

definition sys_inv :: "'w sys \<Rightarrow> bool" where
  "sys_inv s \<longleftrightarrow> cmap_inv (S_clients s) \<and>
     (\<forall>a < S_next s. prepared (S_heap s a)) \<and>
     (\<forall>k a. Get (S_clients s) k = Some a \<longrightarrow>
        a < S_next s \<and> live (S_heap s a) \<and> Client_key (S_heap s a) = k) \<and>
     (\<forall>t \<in> set (S_tasks s). task_ok s t)"

lemma task_ok_simps [simp]:
  "task_ok (s\<lparr>S_world := w\<rparr>) t = task_ok s t" "task_ok (s\<lparr>S_redis := g\<rparr>) t = task_ok s t"
  "task_ok (s\<lparr>S_clients := m\<rparr>) t = task_ok s t" "task_ok (s\<lparr>S_tasks := ts\<rparr>) t = task_ok s t"
  by (simp_all add: task_ok_def split: task.split)

lemma sys_inv_world [simp]:
  "sys_inv (s\<lparr>S_world := w\<rparr>) = sys_inv s" "sys_inv (s\<lparr>S_redis := g\<rparr>) = sys_inv s"
  by (simp_all add: sys_inv_def)

lemma sys_inv_upd:
  assumes "sys_inv s" "a < S_next s" "evolves (S_heap s a) (f (S_heap s a))"
  shows "sys_inv (upd a f s)"
  using assms by (auto simp: sys_inv_def upd_def task_ok_def evolves_def split: task.splits)

lemma sys_inv_spawn: "sys_inv s \<Longrightarrow> \<forall>t \<in> set ts. task_ok s t \<Longrightarrow> sys_inv (spawn ts s)"
  by (auto simp: sys_inv_def spawn_def)

lemma sys_inv_finish: "sys_inv s \<Longrightarrow> sys_inv (finish t s)"
  by (auto simp: sys_inv_def finish_def dest: set_remove1_subset [THEN subsetD])

lemma sys_inv_register:
  assumes "sys_inv s" "a < S_next s" "live (S_heap s a)"
  shows "sys_inv (s\<lparr>S_clients := Set (S_clients s) (Client_key (S_heap s a)) a\<rparr>)"
  using assms by (auto simp: sys_inv_def clients.get_set)

lemma sys_inv_unregister: "sys_inv s \<Longrightarrow> sys_inv (s\<lparr>S_clients := Remove (S_clients s) k\<rparr>)"
  by (auto simp: sys_inv_def clients.get_remove)

lemma sys_inv_alloc:
  assumes "sys_inv s" "prepared c" "alloc c s = (a, s')"
  shows "sys_inv s' \<and> a < S_next s' \<and> S_heap s' a = c"
  using assms by (fastforce simp: sys_inv_def alloc_def task_ok_def less_Suc_eq split: task.splits)

lemmas sys_inv_intros = sys_inv_upd sys_inv_spawn sys_inv_finish sys_inv_register sys_inv_unregister

lemma get_redis_frame:
  assumes "get_redis svc env s = Some s'"
  obtains g w where "s' = s\<lparr>S_redis := g, S_world := w\<rparr>"
  using assms by (auto simp: get_redis_def)

section \<open>Every operation keeps the invariant\<close>

lemma sys_invD:
  assumes "sys_inv s"
  shows "a < S_next s \<Longrightarrow> prepared (S_heap s a)"
    and "ReadTask a \<in> set (S_tasks s) \<Longrightarrow> a < S_next s \<and> live (S_heap s a)"
    and "PingTask a \<in> set (S_tasks s) \<Longrightarrow> a < S_next s \<and> live (S_heap s a)"
    and "StartTask a \<in> set (S_tasks s) \<Longrightarrow> a < S_next s"
    and "Get (S_clients s) k = Some a \<Longrightarrow> a < S_next s \<and> live (S_heap s a) \<and> Client_key (S_heap s a) = k"
    and "cmap_inv (S_clients s)"
  using assms by (auto simp: sys_inv_def task_ok_def)

text \<open>The part of the state that an operation on one client leaves alone.\<close>

definition kept :: "'w sys \<Rightarrow> 'w sys \<Rightarrow> bool" where
  "kept s s' \<longleftrightarrow> sys_inv s' \<and> S_next s' = S_next s"

lemma finish_simps [simp]:
  "S_next (finish t s) = S_next s" "S_clients (finish t s) = S_clients s" "S_world (finish t s) = S_world s"
  "S_heap (finish t s) = S_heap s" "S_redis (finish t s) = S_redis s" "S_tasks (finish t s) = remove1 t (S_tasks s)"
  by (simp_all add: finish_def)

lemma upd_const: "upd a f (upd a g s) = upd a (\<lambda>c. f (g c)) s"
  by (simp add: upd_def)

lemma reset_evolves: "C_heartBeatsMissed c1 = h \<Longrightarrow> c1 = c\<lparr>C_heartBeatsMissed := h\<rparr> \<Longrightarrow>
    evolves c (c1\<lparr>C_heartBeatsMissed := 0\<rparr>)"
  by (auto simp: evolves_def prepared_def live_def data_ok_def beats_ok_def Client_key_def)

lemma shut_down_eq:
  assumes "shut_down svc a s = Some s'"
  obtains w where "s' = (upd a (\<lambda>_. (S_heap s a)\<lparr>C_heartBeatsMissed := 0\<rparr>) s)\<lparr>S_world := w\<rparr>"
  using assms by (auto simp: shut_down_def ResetHeartBeatsMissed_def Let_def split: if_splits)

lemma shut_down_inv:
  assumes "sys_inv s" "a < S_next s"
    and "shut_down svc a ((upd a (\<lambda>_. (S_heap s a)\<lparr>C_heartBeatsMissed := h\<rparr>) s)\<lparr>S_world := w\<rparr>) = Some s'"
  shows "kept s s' \<and> S_tasks s' = S_tasks s"
proof -
  let ?c = "(S_heap s a)\<lparr>C_heartBeatsMissed := 0\<rparr>"
  obtain w' where s': "s' = (upd a (\<lambda>_. ?c) s)\<lparr>S_world := w'\<rparr>"
    by (rule shut_down_eq [OF assms(3)]) (simp add: upd_def)
  have "evolves (S_heap s a) ?c"
    using reset_evolves [of "S_heap s a" _ "S_heap s a"] by simp
  with assms(1,2) have "sys_inv (upd a (\<lambda>_. ?c) s)" by (intro sys_inv_upd) simp_all
  then show ?thesis by (simp add: kept_def s')
qed

lemma ping_tick_inv:
  assumes "sys_inv s" "a < S_next s" "ping_tick svc a s = Some (b, s')"
  shows "kept s s' \<and> S_tasks s' = S_tasks s"
proof -
  let ?c = "S_heap s a" and ?h = "C_heartBeatsMissed (S_heap s a) + 1"
  obtain now w where t: "now_nanos svc (S_world s) = (now, w)" by fastforce
  have p: "prepared ?c" using assms sys_invD(1) by blast
  then have inc: "IncrementHeartBeatsMissed ?c = Some (?c\<lparr>C_heartBeatsMissed := ?h\<rparr>)"
    by (simp add: IncrementHeartBeatsMissed_def prepared_def)
  show ?thesis
  proof (cases "sint ?h \<ge> 3")
    case True
    with assms(3) t inc have
      "shut_down svc a ((upd a (\<lambda>_. ?c\<lparr>C_heartBeatsMissed := ?h\<rparr>) s)\<lparr>S_world := w\<rparr>) = Some s'"
      by (auto simp: ping_tick_def Let_def)
    then show ?thesis by (rule shut_down_inv [OF assms(1,2)])
  next
    case False
    with assms(3) t inc obtain w' where
      s': "s' = (upd a (\<lambda>_. ?c\<lparr>C_heartBeatsMissed := ?h\<rparr>) s)\<lparr>S_world := w'\<rparr>"
      by (auto simp: ping_tick_def Let_def)
    have "beats_ok (?c\<lparr>C_heartBeatsMissed := ?h\<rparr>)"
      using False p small_beats [of "C_heartBeatsMissed ?c"] by (auto simp: beats_ok_def prepared_def)
    then have "evolves ?c (?c\<lparr>C_heartBeatsMissed := ?h\<rparr>)"
      by (auto simp: evolves_def prepared_def live_def data_ok_def Client_key_def)
    with assms(1,2) have "sys_inv (upd a (\<lambda>_. ?c\<lparr>C_heartBeatsMissed := ?h\<rparr>) s)"
      by (intro sys_inv_upd) simp_all
    then show ?thesis by (simp add: kept_def s')
  qed
qed

lemma read_frame_inv:
  assumes "sys_inv s" "a < S_next s" "live (S_heap s a)" "read_frame svc env a f s = Some (b, s')"
  shows "kept s s' \<and> S_tasks s' = S_tasks s"
proof (cases f)
  case (TextFrame payload)
  obtain m e where m: "unmarshal dec_Message payload zero_Message = (m, e)" by fastforce
  show ?thesis
  proof (cases e)
    case None
    obtain c w where h: "handleMessage svc env (S_heap s a) m (S_world s) = Some (c, w)"
      and s': "s' = (upd a (\<lambda>_. c) s)\<lparr>S_world := w\<rparr>"
      using assms(4) TextFrame m None by (auto simp: read_frame_def)
    have "sys_inv (upd a (\<lambda>_. c) s)"
      using handleMessage_evolves [OF h assms(3)] assms(1,2) by (intro sys_inv_upd) simp_all
    then show ?thesis by (simp add: s' kept_def)
  next
    case (Some x)
    then show ?thesis using assms TextFrame m by (simp add: read_frame_def kept_def)
  qed
next
  case ReadError
  then have d: "shut_down svc a s = Some s'" using assms(4) by (auto simp: read_frame_def)
  have "(upd a (\<lambda>_. (S_heap s a)\<lparr>C_heartBeatsMissed := C_heartBeatsMissed (S_heap s a)\<rparr>) s)\<lparr>S_world := S_world s\<rparr> = s"
    by (simp add: upd_def)
  with d show ?thesis
    using shut_down_inv [OF assms(1,2), where svc = svc and h = "C_heartBeatsMissed (S_heap s a)" and w = "S_world s"]
    by simp
qed (use assms in \<open>auto simp: read_frame_def kept_def\<close>)

lemma get_redis_inv:
  assumes "get_redis svc env s = Some s'"
  shows "sys_inv s' = sys_inv s" "S_next s' = S_next s" "S_heap s' = S_heap s" "S_tasks s' = S_tasks s"
    "S_clients s' = S_clients s"
  using assms by (auto simp: get_redis_def)

lemma finish_start_inv:
  assumes "sys_inv s" "a < S_next s" "live (S_heap s a)" "finish_start svc env a s = Some s'"
  shows "kept s s'"
proof -
  obtain w where s': "s' = s\<lparr>S_world := w, S_clients := Set (S_clients s) (Client_key (S_heap s a)) a\<rparr>"
    using assms(4) by (auto simp: finish_start_def Let_def case_prod_unfold)
  show ?thesis using sys_inv_register [of "s\<lparr>S_world := w\<rparr>" a] assms(1-3) by (simp add: kept_def s')
qed

text \<open>Marking the Redis client as set, and the connection and the ticker, keeps a client in order.\<close>

lemma connect_evolves:
  "evolves c (c\<lparr>C_redisClient := True\<rparr>)"
  "evolves c (c\<lparr>C_conn := Some n, C_pingTicker := Some t\<rparr>)"
  by (auto simp: evolves_def prepared_def live_def data_ok_def beats_ok_def Client_key_def)

lemma Start_with_inv:
  assumes inv: "sys_inv s" and a: "a < S_next s" and c: "C_redisClient (S_heap s a)" "C_data (S_heap s a) = Some d"
    and start: "Start_with svc env a d s = Some (err, s')"
  shows "kept s s'"
proof (cases "Md_Ok d")
  case True
  obtain o1 w1 where o: "ws_dial svc (S_world s) (Md_Url d) = (o1, w1)" by fastforce
  show ?thesis
  proof (cases o1)
    case None
    with start True o inv show ?thesis by (auto simp: Start_with_def kept_def)
  next
    case (Some conn)
    obtain ticker w2 where t: "new_ticker svc w1 = (ticker, w2)" by fastforce
    define s2 where "s2 = upd a (\<lambda>c. c\<lparr>C_conn := Some conn, C_pingTicker := Some ticker\<rparr>) (s\<lparr>S_world := w2\<rparr>)"
    have i2: "sys_inv s2" "S_next s2 = S_next s"
      using inv a by (auto simp: s2_def intro!: sys_inv_upd connect_evolves)
    have l2: "live (S_heap s2 a)"
      using c i2 sys_invD(1) [OF i2(1), of a] a by (auto simp: live_def s2_def)
    have i3: "sys_inv (spawn [ReadTask a, PingTask a] s2)"
      using i2 l2 a by (intro sys_inv_spawn) (auto simp: task_ok_def)
    have "finish_start svc env a (spawn [ReadTask a, PingTask a] s2) = Some s'"
      using start True o Some t by (auto simp: Start_with_def s2_def Let_def)
    from finish_start_inv [OF i3 _ _ this] i2 l2 a show ?thesis by (simp add: kept_def)
  qed
next
  case False
  have "kept s s" "kept s (s\<lparr>S_world := w\<rparr>)" "kept s (spawn [StartTask a] s)" for w
    using inv a by (auto simp: kept_def task_ok_def intro!: sys_inv_spawn)
  then show ?thesis
    using start False by (auto simp: Start_with_def split: if_splits)
qed

lemma kept_refl: "sys_inv s \<Longrightarrow> kept s s"
  by (simp add: kept_def)

lemma kept_trans: "kept s s' \<Longrightarrow> kept s' s'' \<Longrightarrow> kept s s''"
  by (simp add: kept_def)

lemma Start_inv:
  assumes "sys_inv s" "a < S_next s" "Start svc env a s = Some (err, s')"
  shows "kept s s'"
proof -
  obtain s0 d where g: "get_redis svc env s = Some s0"
    and d: "C_data (S_heap (upd a (\<lambda>c. c\<lparr>C_redisClient := True\<rparr>) s0) a) = Some d"
    and st: "Start_with svc env a d (upd a (\<lambda>c. c\<lparr>C_redisClient := True\<rparr>) s0) = Some (err, s')"
    using assms(3) by (auto simp: Start_def Let_def)
  have "sys_inv (upd a (\<lambda>c. c\<lparr>C_redisClient := True\<rparr>) s0)"
    using assms(1,2) get_redis_inv [OF g] by (intro sys_inv_upd connect_evolves) simp_all
  from Start_with_inv [OF this _ _ d st] assms(2) get_redis_inv [OF g] show ?thesis
    by (simp add: kept_def)
qed

lemma registerOnBotmetrics_inv:
  assumes "sys_inv s" "registerOnBotmetrics svc env a s = Some s'"
  shows "kept s s'"
proof -
  obtain s1 w where g: "get_redis svc env s = Some s1" "s' = s1\<lparr>S_world := w\<rparr>"
    using assms(2) by (auto simp: registerOnBotmetrics_def Let_def split: if_splits option.splits)
  then show ?thesis using assms(1) get_redis_inv [OF g(1)] by (simp add: kept_def)
qed

lemma LoginAndStart_inv:
  assumes inv: "sys_inv s" and a: "a < S_next s" and l: "LoginAndStart svc env a s = Some (err, s')"
  shows "kept s s'"
proof -
  obtain t w where t: "now_nanos svc (S_world s) = (t, w)" by fastforce
  obtain e c w1 where r: "Retry (Login svc env) svc (login_backoff t) (S_heap s a) w = Some ((e, c), w1)"
    using l t by (auto simp: LoginAndStart_def)
  define s1 where "s1 = (upd a (\<lambda>_. c) s)\<lparr>S_world := w1\<rparr>"
  have k1: "kept s s1"
    using inv a Retry_Login_evolves [OF r] by (auto simp: s1_def kept_def intro!: sys_inv_upd)
  show ?thesis
  proof (cases e)
    case (Some x)
    with l t r k1 show ?thesis by (simp add: LoginAndStart_def s1_def)
  next
    case None
    obtain e2 s2 where st: "Start svc env a s1 = Some (e2, s2)"
      using l t r None by (auto simp: LoginAndStart_def s1_def)
    have k2: "kept s1 s2" using Start_inv [OF _ _ st] k1 a by (simp add: kept_def)
    have "s' = s2 \<or> registerOnBotmetrics svc env a s2 = Some s'"
      using l t r None st by (auto simp: LoginAndStart_def s1_def split: if_splits)
    moreover have "sys_inv s2" using k2 by (simp add: kept_def)
    ultimately have "kept s2 s'" using registerOnBotmetrics_inv [of s2 svc env a s'] kept_refl [of s2] by blast
    with k1 k2 show ?thesis by (blast intro: kept_trans)
  qed
qed

lemma NewClient_prepared:
  assumes "NewClient v = (c, None)"
  shows "prepared c"
proof -
  have "fresh_Client c" using NewClient_fresh [of v] assms by simp
  then show ?thesis
    using NewClient_ok_mutex [OF assms] by (simp add: prepared_def data_ok_def beats_ok_def fresh_Client_def)
qed

lemma init_clients_inv: "init_clients kvs s = Some s' \<Longrightarrow> sys_inv s \<Longrightarrow> sys_inv s'"
proof (induction kvs arbitrary: s rule: induct_list012)
  case (3 teamId val rest)
  obtain c e where n: "NewClient val = (c, e)" by fastforce
  obtain a s1 where al: "alloc c s = (a, s1)" by fastforce
  show ?case
  proof (cases e)
    case (Some x)
    then show ?thesis using 3 n by simp
  next
    case None
    from sys_inv_alloc [OF 3(4) NewClient_prepared al] n None
    have "sys_inv (spawn [StartTask a] s1)" by (intro sys_inv_spawn) (auto simp: task_ok_def)
    then show ?thesis using 3(1,3) n None al by simp
  qed
qed simp_all

lemma stop_registered_inv: "sys_inv (stop_registered svc k s) = sys_inv s" "S_clients (stop_registered svc k s) = S_clients s"
  by (simp_all add: stop_registered_def split: option.split)

lemma cmd_message_inv: "cmd_message svc env cmd s = Some s' \<Longrightarrow> sys_inv s \<Longrightarrow> sys_inv s'"
  by (auto simp: cmd_message_def Let_def case_prod_unfold split: if_splits option.splits)

lemma cmd_team_added_inv:
  assumes "cmd_team_added svc env cmd s = Some s'" "sys_inv s"
  shows "sys_inv s'"
proof (cases "Cmd_TeamId cmd = []")
  case False
  then obtain val w where h: "HGet svc (env ''RELAX_BOTS_KEY'') (command_key cmd) (S_world s) = Some (val, w)"
    using assms(1) by (auto simp: cmd_team_added_def)
  define s1 where "s1 = stop_registered svc (command_key cmd) (s\<lparr>S_world := w\<rparr>)"
  have i1: "sys_inv s1" using assms(2) by (simp add: s1_def stop_registered_inv)
  obtain c e where n: "NewClient val = (c, e)" by fastforce
  show ?thesis
  proof (cases e)
    case (Some x)
    then show ?thesis using assms(1) False h n i1 by (simp add: cmd_team_added_def s1_def)
  next
    case None
    obtain a s2 where al: "alloc c s1 = (a, s2)" by fastforce
    obtain err where l: "LoginAndStart svc env a s2 = Some (err, s')"
      using assms(1) False h n None al by (auto simp: cmd_team_added_def s1_def)
    from sys_inv_alloc [OF i1 NewClient_prepared al] n None have "sys_inv s2" "a < S_next s2" by auto
    from LoginAndStart_inv [OF this l] show ?thesis by (simp add: kept_def)
  qed
qed (use assms in \<open>simp add: cmd_team_added_def\<close>)

lemma cmd_team_removed_inv:
  assumes "cmd_team_removed svc env cmd s = Some s'" "sys_inv s"
  shows "sys_inv s'"
proof -
  have "sys_inv ((stop_registered svc k (s\<lparr>S_world := w\<rparr>))\<lparr>S_clients := Remove (S_clients s) k\<rparr>)" for k w
    using sys_inv_unregister [of "stop_registered svc k (s\<lparr>S_world := w\<rparr>)" k] assms(2)
    by (simp add: stop_registered_inv)
  then show ?thesis
    using assms by (auto simp: cmd_team_removed_def Let_def split: if_splits option.splits)
qed

lemma receive_inv:
  assumes "receive svc env r s = Some s'" "sys_inv s"
  shows "sys_inv s'"
proof (cases r)
  case (Published channel payload)
  obtain cmd e where u: "unmarshal dec_Command payload zero_Command = (cmd, e)" by fastforce
  have "run_command svc env cmd s = Some s' \<Longrightarrow> sys_inv s'"
    using cmd_message_inv cmd_team_added_inv cmd_team_removed_inv assms(2)
    by (auto simp: run_command_def split: if_splits)
  then show ?thesis
    using assms Published u by (auto simp: receive_def split: if_splits option.splits)
qed (use assms in \<open>simp_all add: receive_def\<close>)

lemma loop_end_inv:
  assumes "sys_inv s" "a < S_next s" "kept s s'"
  shows "sys_inv (loop_end t a (b, s'))"
  using assms sys_inv_finish [of s' t] by (auto simp: loop_end_def kept_def task_ok_def intro!: sys_inv_spawn)

lemma step_inv: "step svc env s s' \<Longrightarrow> sys_inv s \<Longrightarrow> sys_inv s'"
proof (induction rule: step.induct)
  case (start a s err s')
  have "a < S_next (finish (StartTask a) s)" using sys_invD(4) [OF start(3,1)] by simp
  from LoginAndStart_inv [OF sys_inv_finish [OF start(3)] this start(2)] show ?case by (simp add: kept_def)
next
  case (frame a s f r)
  obtain b s1 where r: "r = (b, s1)" by fastforce
  note a = sys_invD(2) [OF frame(3,1)]
  from read_frame_inv [OF frame(3) _ _ frame(2) [unfolded r]] a show ?case
    unfolding r by (intro loop_end_inv [OF frame(3)]) auto
next
  case (tick a s r)
  obtain b s1 where r: "r = (b, s1)" by fastforce
  note a = sys_invD(3) [OF tick(3,1)]
  from ping_tick_inv [OF tick(3) _ tick(2) [unfolded r]] a show ?case
    unfolding r by (intro loop_end_inv [OF tick(3)]) auto
next
  case (subscribe s ok s')
  then obtain s1 where g: "get_redis svc env (finish PubSubTask s) = Some s1"
    and s': "s' = (if ok then spawn [ListenTask] s1 else s1)" by (auto simp: start_pubsub_def)
  have "sys_inv s1" using get_redis_inv(1) [OF g] sys_inv_finish [OF subscribe(3)] by simp
  then show ?case unfolding s' by (auto intro!: sys_inv_spawn simp: task_ok_def)
next
  case (publish s r s')
  from publish(2,3) show ?case by (rule receive_inv)
qed

lemma InitClients_inv:
  assumes "InitClients svc env s = Some s'" "sys_inv s"
  shows "sys_inv s'"
proof -
  obtain s1 result w s2 where g: "get_redis svc env s = Some s1"
    and i: "init_clients result (s1\<lparr>S_world := w\<rparr>) = Some s2" and s': "s' = spawn [PubSubTask] s2"
    using assms(1) by (auto simp: InitClients_def)
  have "sys_inv s2" using init_clients_inv [OF i] get_redis_inv(1) [OF g] assms(2) by simp
  then show ?thesis unfolding s' by (intro sys_inv_spawn) (auto simp: task_ok_def)
qed

lemma empty_sys_inv: "sys_inv (empty_sys w)"
  by (simp add: sys_inv_def empty_sys_def)

lemma reachable_inv: "reachable svc env s \<Longrightarrow> sys_inv s"
  by (induction rule: reachable.induct) (auto intro: InitClients_inv empty_sys_inv step_inv)

section \<open>No step of a running client panics\<close>

lemma shut_down_total: "C_heartBeatsMutex (S_heap s a) \<Longrightarrow> C_pingTicker (S_heap s a) \<noteq> None \<Longrightarrow> shut_down svc a s \<noteq> None"
  by (auto simp: shut_down_def ResetHeartBeatsMissed_def Let_def)

lemma live_parts:
  "live c \<Longrightarrow> C_heartBeatsMutex c \<and> C_pingTicker c \<noteq> None \<and> C_conn c \<noteq> None \<and> started c \<and> beats_ok c"
  using live_wf [of c] by (auto simp: live_def prepared_def client_wf_def)

lemma read_frame_total:
  assumes "redis_lawful svc hash queue" "redis_sound svc" "clock_frame svc hash queue" "live (S_heap s a)"
  shows "read_frame svc env a f s \<noteq> None"
proof -
  note l = live_parts [OF assms(4)]
  have "handleMessage svc env (S_heap s a) m w \<noteq> None" for m w
    using handleMessage_achieves [OF sink_lawful [OF assms(1,3)] assms(3), of "S_heap s a" env m w] l assms(2)
    by (auto simp: achieves_def)
  then show ?thesis
    using l shut_down_total [of s a svc]
    by (cases f) (auto simp: read_frame_def split: prod.splits option.splits)
qed

lemma ping_tick_total:
  assumes "live (S_heap s a)"
  shows "ping_tick svc a s \<noteq> None"
proof -
  note l = live_parts [OF assms]
  obtain now w where t: "now_nanos svc (S_world s) = (now, w)" by fastforce
  let ?c = "(S_heap s a)\<lparr>C_heartBeatsMissed := C_heartBeatsMissed (S_heap s a) + 1\<rparr>"
  have "shut_down svc a ((upd a (\<lambda>_. ?c) s)\<lparr>S_world := w\<rparr>) \<noteq> None"
    using l by (intro shut_down_total) simp_all
  then show ?thesis
    using l t by (auto simp: ping_tick_def IncrementHeartBeatsMissed_def Let_def)
qed

section \<open>A run on the concrete server\<close>

definition boot_world :: world where
  "boot_world = world0\<lparr>W_all := [''T1'', client_json ''tok'' ''T1'' ''slack'' []],
     W_http := [answer 200 rtm_json, answer 200 rtm_json]\<rparr>"

text \<open>A start that Slack and Redis answer.\<close>

lemma Login_server:
  assumes "W_http w = answer 200 rtm_json # rest"
  shows "Login server no_env c w =
    Some ((None, c\<lparr>C_data := Some (fill_tables (zero_Metadata\<lparr>Md_Ok := True, Md_Url := ''wss://x''\<rparr>))\<rparr>),
      w\<lparr>W_http := rest\<rparr>)"
  using assms
  by (simp add: Login_def callSlack_plain [OF plain_base_default] answer_def api_answer_def rtm_json_decodes)

lemma LoginAndStart_server:
  assumes "S_redis s = Some o1" "W_http (S_world s) = answer 200 rtm_json # rest"
  obtains s' where "LoginAndStart server no_env a s = Some (None, s')"
    "S_tasks s' = S_tasks s @ [ReadTask a, PingTask a]" "S_redis s' = Some o1" "S_next s' = S_next s"
    "S_clients s' = Set (S_clients s) (Client_key (S_heap s a)) a" "W_http (S_world s') = rest"
    "Client_key (S_heap s' a) = Client_key (S_heap s a)" "W_closed (S_world s') = W_closed (S_world s)"
    "C_heartBeatsMissed (S_heap s' a) = C_heartBeatsMissed (S_heap s a)"
proof -
  let ?d = "fill_tables (zero_Metadata\<lparr>Md_Ok := True, Md_Url := ''wss://x''\<rparr>)"
  have none: "no_env n = []" for n by (simp add: no_env_def)
  have r: "Retry (Login server no_env) server b c (S_world s) =
      Some ((None, c\<lparr>C_data := Some ?d\<rparr>), S_world s\<lparr>W_http := rest\<rparr>)" for b c
    by (simp add: Retry_def retry_loop.simps Login_server [OF assms(2)])
  have ok: "Md_Ok ?d" by (simp add: fill_tables_def)
  obtain s' where "LoginAndStart server no_env a s = Some (None, s')"
    "S_tasks s' = S_tasks s @ [ReadTask a, PingTask a]" "S_redis s' = Some o1" "S_next s' = S_next s"
    "S_clients s' = Set (S_clients s) (Client_key (S_heap s a)) a" "W_http (S_world s') = rest"
    "Client_key (S_heap s' a) = Client_key (S_heap s a)" "W_closed (S_world s') = W_closed (S_world s)"
    "C_heartBeatsMissed (S_heap s' a) = C_heartBeatsMissed (S_heap s a)"
    using assms(1) ok
    by (simp add: LoginAndStart_def r Start_def Start_with_def get_redis_def redis_Client_def finish_start_def
        HSet_def with_val_def process_up bool_val_def Let_def none Client_key_def)
  then show ?thesis by (rule that)
qed

lemma NewClient_boot:
  "NewClient (client_json ''tok'' ''T1'' ''slack'' []) = (zero_Client\<lparr>C_Token := ''tok'', C_TeamId := ''T1'',
     C_Provider := ''slack'', C_Namespace := [], C_heartBeatsMutex := True\<rparr>, None)"
  by (rule NewClient_client_json) (simp_all add: byte_def)

text \<open>The team is connected; the answers that Slack still gives are open.\<close>

lemma connected_with:
  obtains s o1 where "reachable server no_env s" "S_redis s = Some o1" "S_next s = 1"
    "S_tasks s = [PubSubTask, ReadTask 0, PingTask 0]" "Get (S_clients s) ''T1'' = Some 0"
    "W_http (S_world s) = rest" "W_closed (S_world s) = []" "C_heartBeatsMissed (S_heap s 0) = 0"
proof -
  let ?w = "boot_world\<lparr>W_http := answer 200 rtm_json # rest\<rparr>"
  obtain s0 where b: "InitClients server no_env (empty_sys ?w) = Some s0"
    "S_tasks s0 = [StartTask 0, PubSubTask]" "S_redis s0 = Some (redis_options no_env)" "S_next s0 = 1"
    "Client_key (S_heap s0 0) = ''T1''" "S_clients s0 = New" "C_heartBeatsMissed (S_heap s0 0) = 0"
    "W_http (S_world s0) = answer 200 rtm_json # rest" "W_closed (S_world s0) = []"
    by (simp add: InitClients_def get_redis_def redis_Client_def empty_sys_def ping_loop.simps Ping_def process_up
        with_val_def string_result_def HGetAll_def slice_val_def Let_def boot_world_def NewClient_boot
        alloc_def spawn_def Client_key_def registry_key_def zero_Client_def world0_def)
  have fin: "S_redis (finish (StartTask 0) s0) = Some (redis_options no_env)"
    "W_http (S_world (finish (StartTask 0) s0)) = answer 200 rtm_json # rest"
    using b by (simp_all add: finish_def)
  obtain s1 where l: "LoginAndStart server no_env 0 (finish (StartTask 0) s0) = Some (None, s1)"
    "S_tasks s1 = [PubSubTask, ReadTask 0, PingTask 0]" "S_redis s1 = Some (redis_options no_env)" "S_next s1 = 1"
    "S_clients s1 = Set New ''T1'' 0" "W_http (S_world s1) = rest" "W_closed (S_world s1) = []" "C_heartBeatsMissed (S_heap s1 0) = 0"
    by (rule LoginAndStart_server [OF fin, of 0]) (use b in \<open>simp add: finish_def\<close>)
  have "step server no_env s0 s1" by (rule step.start [OF _ l(1)]) (simp add: b)
  with reachable.boot [OF b(1)] have "reachable server no_env s1" by (rule reachable.step)
  then show ?thesis using l by (intro that) (simp_all add: clients.get_set)
qed

lemma connected_run:
  obtains s where "reachable server no_env s" "S_redis s \<noteq> None" "S_next s = 1"
    "S_tasks s = [PubSubTask, ReadTask 0, PingTask 0]" "Get (S_clients s) ''T1'' = Some 0"
    "W_http (S_world s) = [answer 200 rtm_json]"
  by (rule connected_with [of "[answer 200 rtm_json]"]) (rule that, simp_all)





lemma shut_down_server:
  assumes "shut_down server a s = Some s'"
  shows "W_http (S_world s') = W_http (S_world s) \<and> S_redis s' = S_redis s \<and> S_tasks s' = S_tasks s \<and>
    S_clients s' = S_clients s \<and> Client_key (S_heap s' a) = Client_key (S_heap s a)"
  using assms
  by (auto simp: shut_down_def ResetHeartBeatsMissed_def Let_def Stop_def Client_key_def
      split: if_splits option.splits)

section \<open>Properties\<close>

text \<open>
  C1. In every reachable state each registered client is filed under its own key and has an open
  connection and complete tables, so has every client with a running loop, and no client ever
  has three pings unanswered between steps.
\<close>

theorem reachable_in_order:
  assumes "reachable svc env s"
  shows "(\<forall>k a. Get (S_clients s) k = Some a \<longrightarrow>
      Client_key (S_heap s a) = k \<and> client_wf (S_heap s a) \<and> C_conn (S_heap s a) \<noteq> None) \<and>
    (\<forall>a. ReadTask a \<in> set (S_tasks s) \<or> PingTask a \<in> set (S_tasks s) \<longrightarrow>
      client_wf (S_heap s a) \<and> C_conn (S_heap s a) \<noteq> None \<and> C_pingTicker (S_heap s a) \<noteq> None) \<and>
    (\<forall>a < S_next s. 0 \<le> sint (C_heartBeatsMissed (S_heap s a)) \<and> sint (C_heartBeatsMissed (S_heap s a)) < 3)"
proof -
  note inv = reachable_inv [OF assms]
  have "live c \<Longrightarrow> client_wf c \<and> C_conn c \<noteq> None \<and> C_pingTicker c \<noteq> None" for c
    using live_wf live_parts by blast
  then show ?thesis
    using sys_invD [OF inv] by (auto simp: prepared_def beats_ok_def)
qed

theorem reachable_in_order_witness:
  "\<exists>s. reachable server no_env s \<and> ReadTask 0 \<in> set (S_tasks s) \<and> Get (S_clients s) ''T1'' = Some 0 \<and>
    Client_key (S_heap s 0) = ''T1'' \<and> client_wf (S_heap s 0) \<and> C_conn (S_heap s 0) \<noteq> None \<and>
    sint (C_heartBeatsMissed (S_heap s 0)) < 3"
proof -
  obtain s where s: "reachable server no_env s" "S_next s = 1" "S_tasks s = [PubSubTask, ReadTask 0, PingTask 0]"
    "Get (S_clients s) ''T1'' = Some 0" by (rule connected_run) blast
  from reachable_in_order [OF s(1)] s show ?thesis by auto
qed

text \<open>
  A frame or a tick that is handled by itself panics at most within the redis client: in every reachable state a running read
  loop takes every frame, well formed or not, and a running ping pump every tick, when that client does not panic. (Two
  goroutines that use one client's maps at the same time are not considered here.)
\<close>

lemma loops_never_panic:
  assumes "reachable svc env s" "redis_lawful svc hash queue" "redis_sound svc" "clock_frame svc hash queue"
  shows "(\<forall>a f. ReadTask a \<in> set (S_tasks s) \<longrightarrow> (\<exists>r. read_frame svc env a f s = Some r)) \<and>
    (\<forall>a. PingTask a \<in> set (S_tasks s) \<longrightarrow> (\<exists>r. ping_tick svc a s = Some r))"
  using sys_invD(2,3) [OF reachable_inv [OF assms(1)]] read_frame_total [OF assms(2-4)] ping_tick_total
  by (metis not_None_eq)

text \<open>A tick of the ping pump of the client 0, and the end of a read on its connection.\<close>

definition pump_tick :: "world sys \<Rightarrow> world sys option" where
  "pump_tick s = map_option (loop_end (PingTask 0) 0) (ping_tick server 0 s)"

definition read_fails :: "world sys \<Rightarrow> world sys option" where
  "read_fails s = map_option (loop_end (ReadTask 0) 0) (read_frame server no_env 0 ReadError s)"

lemma pump_tick_step:
  "PingTask 0 \<in> set (S_tasks s) \<Longrightarrow> pump_tick s = Some s' \<Longrightarrow> reachable server no_env s \<Longrightarrow> reachable server no_env s'"
  using reachable.step step.tick by (fastforce simp: pump_tick_def)

lemma pump_tick_counts:
  assumes "live (S_heap s 0)" "C_conn (S_heap s 0) = Some n" "C_heartBeatsMissed (S_heap s 0) = 0 \<or> C_heartBeatsMissed (S_heap s 0) = 1"
  obtains s' where "pump_tick s = Some s'" "S_tasks s' = S_tasks s"
    "C_conn (S_heap s' 0) = Some n" "C_heartBeatsMissed (S_heap s' 0) = C_heartBeatsMissed (S_heap s 0) + 1"
    "S_redis s' = S_redis s" "W_http (S_world s') = W_http (S_world s)" "W_closed (S_world s') = W_closed (S_world s)"
proof -
  obtain s' where s': "ping_tick server 0 s = Some (True, s')" "S_tasks s' = S_tasks s" "C_conn (S_heap s' 0) = Some n"
    "C_heartBeatsMissed (S_heap s' 0) = C_heartBeatsMissed (S_heap s 0) + 1" "S_redis s' = S_redis s"
    "W_http (S_world s') = W_http (S_world s)" "W_closed (S_world s') = W_closed (S_world s)"
    using assms live_parts [OF assms(1)] by (auto simp: ping_tick_def IncrementHeartBeatsMissed_def Let_def)
  then have "pump_tick s = Some s'" by (simp only: pump_tick_def loop_end_def option.map prod.case if_True)
  with s'(2-) show thesis by (intro that)
qed

lemma pump_tick_ends:
  assumes "live (S_heap s 0)" "C_conn (S_heap s 0) = Some n" "C_heartBeatsMissed (S_heap s 0) = 2"
  obtains s' where "pump_tick s = Some s'" "S_tasks s' = remove1 (PingTask 0) (S_tasks s) @ [StartTask 0]"
    "C_conn (S_heap s' 0) = Some n" "S_redis s' = S_redis s" "W_http (S_world s') = W_http (S_world s)"
    "W_closed (S_world s') = n # W_closed (S_world s)"
  using assms live_parts [OF assms(1)]
  by (auto simp: pump_tick_def ping_tick_def IncrementHeartBeatsMissed_def Let_def loop_end_def shut_down_def
      ResetHeartBeatsMissed_def Stop_def finish_def)

lemma read_fails_ends:
  assumes "live (S_heap s 0)"
  obtains s' where "read_fails s = Some s'" "S_tasks s' = remove1 (ReadTask 0) (S_tasks s) @ [StartTask 0]"
    "S_redis s' = S_redis s" "W_http (S_world s') = W_http (S_world s)"
proof -
  obtain t where d: "shut_down server 0 s = Some t" using shut_down_total [of s 0 server] live_parts [OF assms] by auto
  with that [of "spawn [StartTask 0] (finish (ReadTask 0) t)"] live_parts [OF assms] shut_down_server [OF d] show thesis
    by (auto simp: read_fails_def read_frame_def loop_end_def finish_def)
qed

text \<open>
  C16. A client whose pings go unanswered is started twice: in a reachable state of a team connected over the connection \<open>n\<close>, three ticks
  without a pong in between make the ping pump close \<open>n\<close> and start the client; the read loop, whose read on \<open>n\<close> then fails, starts it once more. When both
  starts have gone well the one client has two read loops and two ping pumps, which use its connection, its counter and its maps side by side.
\<close>

theorem missed_pings_start_twice:
  "\<exists>s0 s1 s2 s3 s4 s5 s6 n. reachable server no_env s0 \<and> S_tasks s0 = [PubSubTask, ReadTask 0, PingTask 0] \<and>
    C_conn (S_heap s0 0) = Some n \<and> n \<notin> set (W_closed (S_world s0)) \<and>
    pump_tick s0 = Some s1 \<and> pump_tick s1 = Some s2 \<and> n \<notin> set (W_closed (S_world s2)) \<and> pump_tick s2 = Some s3 \<and>
    n \<in> set (W_closed (S_world s3)) \<and> C_conn (S_heap s3 0) = Some n \<and> read_fails s3 = Some s4 \<and> S_tasks s4 = [PubSubTask, StartTask 0, StartTask 0] \<and>
    step server no_env s4 s5 \<and> step server no_env s5 s6 \<and> reachable server no_env s6 \<and>
    S_tasks s6 = [PubSubTask, ReadTask 0, PingTask 0, ReadTask 0, PingTask 0]"
proof -
  let ?a = "answer 200 rtm_json"
  obtain s0 o1 where s0: "reachable server no_env s0" "S_redis s0 = Some o1" "S_tasks s0 = [PubSubTask, ReadTask 0, PingTask 0]"
    "W_http (S_world s0) = [?a, ?a]" "W_closed (S_world s0) = []" "C_heartBeatsMissed (S_heap s0 0) = 0"
    by (rule connected_with [of "[?a, ?a]"]) (rule that, assumption+)
  have live: "live (S_heap s 0)" if "reachable server no_env s" "ReadTask 0 \<in> set (S_tasks s)" for s
    using sys_invD(2) [OF reachable_inv [OF that(1)]] that(2) by blast
  have l0: "live (S_heap s0 0)" by (rule live [OF s0(1)]) (simp add: s0)
  then obtain n where n: "C_conn (S_heap s0 0) = Some n" using live_parts by blast
  obtain s1 where s1: "pump_tick s0 = Some s1" "S_tasks s1 = S_tasks s0" "C_conn (S_heap s1 0) = Some n" "C_heartBeatsMissed (S_heap s1 0) = 1"
    "S_redis s1 = S_redis s0" "W_http (S_world s1) = W_http (S_world s0)" "W_closed (S_world s1) = W_closed (S_world s0)"
    by (rule pump_tick_counts [OF l0 n]) (use s0(6) in simp_all)
  have r1: "reachable server no_env s1" by (rule pump_tick_step [OF _ s1(1) s0(1)]) (simp add: s0)
  have l1: "live (S_heap s1 0)" by (rule live [OF r1]) (simp add: s0 s1)
  obtain s2 where s2: "pump_tick s1 = Some s2" "S_tasks s2 = S_tasks s0" "C_conn (S_heap s2 0) = Some n" "C_heartBeatsMissed (S_heap s2 0) = 2"
    "S_redis s2 = S_redis s0" "W_http (S_world s2) = W_http (S_world s0)" "W_closed (S_world s2) = W_closed (S_world s0)"
    by (rule pump_tick_counts [OF l1 s1(3)]) (use s1 in simp_all)
  have r2: "reachable server no_env s2" by (rule pump_tick_step [OF _ s2(1) r1]) (simp add: s0 s1)
  have l2: "live (S_heap s2 0)" by (rule live [OF r2]) (simp add: s0 s2)
  obtain s3 where s3: "pump_tick s2 = Some s3" "S_tasks s3 = [PubSubTask, ReadTask 0, StartTask 0]" "C_conn (S_heap s3 0) = Some n"
    "S_redis s3 = Some o1" "W_http (S_world s3) = [?a, ?a]" "W_closed (S_world s3) = [n]"
    by (rule pump_tick_ends [OF l2 s2(3,4)]) (use s2 s0 in simp_all)
  have r3: "reachable server no_env s3" by (rule pump_tick_step [OF _ s3(1) r2]) (simp add: s0 s2)
  have l3: "live (S_heap s3 0)" by (rule live [OF r3]) (simp add: s3)
  obtain s4 where s4: "read_fails s3 = Some s4" "S_tasks s4 = [PubSubTask, StartTask 0, StartTask 0]" "S_redis s4 = Some o1" "W_http (S_world s4) = [?a, ?a]"
    by (rule read_fails_ends [OF l3]) (use s3 in simp_all)
  have "step server no_env s3 s4" using step.frame [of 0 s3 server no_env ReadError] s3(2) s4(1) by (auto simp: read_fails_def)
  then have r4: "reachable server no_env s4" by (rule reachable.step [OF r3])
  have f4: "S_redis (finish (StartTask 0) s4) = Some o1" "W_http (S_world (finish (StartTask 0) s4)) = ?a # [?a]"
    "S_tasks (finish (StartTask 0) s4) = [PubSubTask, StartTask 0]" using s4 by (simp_all add: finish_def)
  obtain s5 where s5: "LoginAndStart server no_env 0 (finish (StartTask 0) s4) = Some (None, s5)"
    "S_tasks s5 = [PubSubTask, StartTask 0, ReadTask 0, PingTask 0]" "S_redis s5 = Some o1" "W_http (S_world s5) = [?a]"
    by (rule LoginAndStart_server [OF f4(1,2), of 0]) (use f4(3) in simp)
  have st5: "step server no_env s4 s5" by (rule step.start [OF _ s5(1)]) (simp add: s4)
  have f5: "S_redis (finish (StartTask 0) s5) = Some o1" "W_http (S_world (finish (StartTask 0) s5)) = ?a # []"
    "S_tasks (finish (StartTask 0) s5) = [PubSubTask, ReadTask 0, PingTask 0]" using s5 by (simp_all add: finish_def)
  obtain s6 where s6: "LoginAndStart server no_env 0 (finish (StartTask 0) s5) = Some (None, s6)"
    "S_tasks s6 = [PubSubTask, ReadTask 0, PingTask 0, ReadTask 0, PingTask 0]"
    by (rule LoginAndStart_server [OF f5(1,2), of 0]) (use f5(3) in simp)
  have st6: "step server no_env s5 s6" by (rule step.start [OF _ s6(1)]) (simp add: s5)
  have "reachable server no_env s6" by (rule reachable.step [OF reachable.step [OF r4 st5] st6])
  moreover have "n \<notin> set (W_closed (S_world s0))" "n \<notin> set (W_closed (S_world s2))" "n \<in> set (W_closed (S_world s3))"
    using s0(5) s2(7) s3(6) by simp_all
  ultimately show ?thesis using s0(1,3) n s1(1) s2(1) s3(1,3) s4(1,2) st5 st6 s6(2) by blast
qed


end
