(* ===== verification/Boot.thy ===== *)
theory Boot
  imports System
begin

text \<open>
  The program from its start: the log level (utils/utils.go, logrus.go), main (main.go) and the
  health check (healthcheck/healthcheck.go). A panic is \<open>None\<close>; serving HTTP and the memory of a process
  that has ended are outside.
\<close>

section \<open>Log levels\<close>

datatype Level = PanicLevel | FatalLevel | ErrorLevel | WarnLevel | InfoLevel | DebugLevel

definition Level_String :: "Level \<Rightarrow> string" where
  "Level_String level =
     (case level of
        DebugLevel \<Rightarrow> ''debug''
      | InfoLevel \<Rightarrow> ''info''
      | WarnLevel \<Rightarrow> ''warning''
      | ErrorLevel \<Rightarrow> ''error''
      | FatalLevel \<Rightarrow> ''fatal''
      | PanicLevel \<Rightarrow> ''panic'')"

text \<open>The error says which level is not valid.\<close>

definition ParseLevel :: "string \<Rightarrow> string + Level" where
  "ParseLevel lvl =
     (if lvl = ''panic'' then Inr PanicLevel
      else if lvl = ''fatal'' then Inr FatalLevel
      else if lvl = ''error'' then Inr ErrorLevel
      else if lvl = ''warn'' \<or> lvl = ''warning'' then Inr WarnLevel
      else if lvl = ''info'' then Inr InfoLevel
      else if lvl = ''debug'' then Inr DebugLevel
      else Inl lvl)"

lemma ParseLevel_String [simp]: "ParseLevel (Level_String level) = Inr level"
  by (cases level) (simp_all add: ParseLevel_def Level_String_def)

text \<open>What SetupLogging sets the level to.\<close>

definition SetupLogging :: "env \<Rightarrow> Level" where
  "SetupLogging env =
     (let level = (if env ''RELAX_LOG_LEVEL'' = [] then ''debug'' else env ''RELAX_LOG_LEVEL'')
      in case ParseLevel level of Inl _ \<Rightarrow> DebugLevel | Inr parsedLevel \<Rightarrow> parsedLevel)"

section \<open>The health check\<close>

record response =
  Rsp_status :: nat
  Rsp_header :: "(string \<times> string) list"
  Rsp_body :: string

definition ServeHTTP :: "response \<Rightarrow> response" where
  "ServeHTTP w = w\<lparr>Rsp_header := (''Content-Type'', ''text/plain; charset=utf-8'') # Rsp_header w, Rsp_status := 200,
     Rsp_body := Rsp_body w @ ''relax alive'' @ [CHR 0x0A]\<rparr>"

text \<open>Where the server listens.\<close>

definition server_addr :: "string \<Rightarrow> 16 word \<Rightarrow> string" where
  "server_addr host port = host @ '':'' @ show_nat (unat port)"

section \<open>main\<close>

datatype 'w outcome =
    Usage                            \<comment> \<open>the usage is printed and the process exits with 1\<close>
  | Serving string "'w sys"          \<comment> \<open>the health check listens at an address, beside the goroutines\<close>

definition main_env :: "env \<Rightarrow> env" where
  "main_env env = (if env ''REDISCLOUD_URL'' \<noteq> [] then env(''REDIS_URL'' := env ''REDISCLOUD_URL'') else env)"

definition configured :: "env \<Rightarrow> bool" where
  "configured env \<longleftrightarrow> env ''RELAX_BOTS_KEY'' \<noteq> [] \<and> env ''RELAX_BOTS_PUBSUB'' \<noteq> [] \<and> env ''RELAX_EVENTS_QUEUE'' \<noteq> [] \<and>
     env ''REDIS_URL'' \<noteq> [] \<and> env ''RELAX_MUTEX_KEY'' \<noteq> []"

definition main :: "'w svc \<Rightarrow> env \<Rightarrow> 'w \<Rightarrow> 'w outcome option" where
  "main svc env w = do {
     portInt \<leftarrow> parse_int64 (if env ''PORT'' = [] then ''0'' else env ''PORT'');
     let env = main_env env;
     (if \<not> configured env then Some Usage
      else do {
        s \<leftarrow> InitClients svc env (empty_sys w);
        Some (Serving (server_addr ''0.0.0.0'' (word_of_int portInt)) s)
      })
   }"

lemma InitClients_parts:
  assumes "InitClients svc env (empty_sys w) = Some s"
  obtains kvs w1 w2 where "HGetAll svc (env ''RELAX_BOTS_KEY'') w1 = Some (kvs, w2)" "even (length kvs)"
    "List.map (S_heap s) [0..<S_next s] = stored_clients kvs"
    "S_tasks s = List.map StartTask [0..<S_next s] @ [PubSubTask]" "S_clients s = New"
proof -
  obtain s1 where s1: "get_redis svc env (empty_sys w) = Some s1" using assms by (auto simp: InitClients_def)
  then have s1': "S_next s1 = 0" "S_tasks s1 = []" "S_clients s1 = New" by (auto simp: get_redis_def empty_sys_def)
  obtain kvs w2 where kvs: "HGetAll svc (env ''RELAX_BOTS_KEY'') (S_world s1) = Some (kvs, w2)"
    using assms s1 by (auto simp: InitClients_def)
  obtain s2 where s2: "init_clients kvs (s1\<lparr>S_world := w2\<rparr>) = Some s2" "s = spawn [PubSubTask] s2"
    using assms s1 kvs by (auto simp: InitClients_def)
  then have "even (length kvs)" by (auto simp: init_clients_spec split: if_splits)
  with that [OF kvs this] s2 s1' map_put_all [of "stored_clients kvs" 0 "S_heap s1"] show thesis
    by (auto simp: init_clients_spec)
qed

text \<open>
  C12. The program starts its clients only when it is configured: main serves only when every
  variable is set, where REDISCLOUD\_URL stands for REDIS\_URL; then there is one client for every
  stored team whose JSON is valid, decoded from it, with one goroutine that logs it in, the
  subscription is about to start, no client is registered yet, and the system is one to which the
  invariants of the reachable states apply. The health check listens on the port modulo 2^16.
\<close>

theorem main_starts_the_stored_clients:
  assumes "main svc env w = Some (Serving addr s)"
  shows "configured (main_env env) \<and>
    (\<exists>p. parse_int64 (if env ''PORT'' = [] then ''0'' else env ''PORT'') = Some p \<and>
       addr = ''0.0.0.0:'' @ show_nat (nat (p mod 2 ^ 16))) \<and>
    (\<exists>kvs w1 w2. HGetAll svc (main_env env ''RELAX_BOTS_KEY'') w1 = Some (kvs, w2) \<and>
       List.map (S_heap s) [0..<S_next s] = stored_clients kvs \<and>
       S_tasks s = List.map StartTask [0..<S_next s] @ [PubSubTask]) \<and>
    S_clients s = New \<and> reachable svc (main_env env) s"
proof -
  obtain p where p: "parse_int64 (if env ''PORT'' = [] then ''0'' else env ''PORT'') = Some p"
    using assms by (auto simp: main_def simp del: bind_Some_iff split: bind_splits)
  with assms have r: "configured (main_env env)" "InitClients svc (main_env env) (empty_sys w) = Some s"
    "addr = server_addr ''0.0.0.0'' (word_of_int p)"
    by (auto simp: main_def Let_def split: if_splits)
  have "unat (word_of_int p :: 16 word) = nat (p mod 2 ^ 16)"
    by (simp add: unat_eq_nat_uint uint_word_of_int)
  then have "addr = ''0.0.0.0:'' @ show_nat (nat (p mod 2 ^ 16))" by (simp add: r(3) server_addr_def)
  moreover have "reachable svc (main_env env) s" using r(2) by (rule reachable.boot)
  ultimately show ?thesis using p r(1) by (rule_tac InitClients_parts [OF r(2)]) blast
qed

definition sample_variables :: env where
  "sample_variables k = (if k = ''PORT'' then ''65616'' else ''x'')"

theorem main_starts_the_stored_clients_witness:
  "\<exists>s. main server sample_variables boot_world = Some (Serving ''0.0.0.0:80'' s) \<and> configured (main_env sample_variables) \<and>
     (\<exists>kvs w1 w2. HGetAll server (main_env sample_variables ''RELAX_BOTS_KEY'') w1 = Some (kvs, w2) \<and>
       List.map (S_heap s) [0..<S_next s] = stored_clients kvs \<and>
       S_tasks s = List.map StartTask [0..<S_next s] @ [PubSubTask]) \<and>
     reachable server (main_env sample_variables) s"
proof -
  have c: "configured (main_env sample_variables)" by (simp add: configured_def main_env_def sample_variables_def)
  obtain s where "InitClients server (main_env sample_variables) (empty_sys boot_world) = Some s"
    by (simp add: InitClients_def get_redis_def redis_Client_def empty_sys_def ping_loop.simps Ping_def process_up
        with_val_def string_result_def HGetAll_def slice_val_def Let_def boot_world_def NewClient_boot alloc_def)
  moreover have "parse_int64 ''65616'' = Some 65616"
    by (simp add: parse_int64_def unsigned_digits_def is_digit_def digit_val_def fits_int64_def int64_min_def int64_max_def
        byte_def val_digits_def)
  moreover have "show_nat 80 = ''80''" by (simp add: show_nat.simps chr_def) (simp add: char_of_def bit_0)
  then have "server_addr ''0.0.0.0'' (word_of_int 65616) = ''0.0.0.0:80''" by (simp add: server_addr_def)
  ultimately have r: "main server sample_variables boot_world = Some (Serving ''0.0.0.0:80'' s)"
    using c by (simp add: main_def sample_variables_def Let_def)
  from main_starts_the_stored_clients [OF r] r show ?thesis by blast
qed

end
