(* ===== verification/Dedupe.thy ===== *)
theory Dedupe
  imports Events
begin

text \<open>
  Several instances of the program send events at the same time (the "high availability" mode
  that \<open>sendEvent\<close> is written for). Redis runs one command at a time, so an execution is an
  interleaving of the two commands of \<open>send\<close>, HSETNX and RPUSH, of any number of senders; sender
  \<open>i\<close> sends the event \<open>ev i\<close>. The commands are those of a server that replies; what lost replies
  do is stated with \<open>may_deliver\<close>.
\<close>

datatype phase = Begin | Won | Sent | Skipped

record shared =
  D_hash :: hashes
  D_queue :: queues
  D_phase :: "nat \<Rightarrow> phase"

abbreviation mutex_of :: "env \<Rightarrow> string" where "mutex_of env \<equiv> env ''RELAX_MUTEX_KEY''"
abbreviation events_of :: "env \<Rightarrow> string" where "events_of env \<equiv> env ''RELAX_EVENTS_QUEUE''"

inductive send_step :: "env \<Rightarrow> (nat \<Rightarrow> Event) \<Rightarrow> shared \<Rightarrow> shared \<Rightarrow> bool" for env ev where
  win: "D_phase s i = Begin \<Longrightarrow> D_hash s (mutex_of env) (bot_message_key (ev i)) = None \<Longrightarrow>
    send_step env ev s (s\<lparr>D_hash := hset (D_hash s) (mutex_of env) (bot_message_key (ev i)) ''ok'',
      D_phase := (D_phase s)(i := Won)\<rparr>)"
| lose: "D_phase s i = Begin \<Longrightarrow> D_hash s (mutex_of env) (bot_message_key (ev i)) \<noteq> None \<Longrightarrow>
    send_step env ev s (s\<lparr>D_phase := (D_phase s)(i := Skipped)\<rparr>)"
| push: "D_phase s i = Won \<Longrightarrow>
    send_step env ev s (s\<lparr>D_queue := push (D_queue s) (events_of env) (enc_Event (ev i)),
      D_phase := (D_phase s)(i := Sent)\<rparr>)"

inductive_cases send_stepE: "send_step env ev s s'"

definition begin_with :: "hashes \<Rightarrow> queues \<Rightarrow> shared" where
  "begin_with h q = \<lparr>D_hash = h, D_queue = q, D_phase = (\<lambda>_. Begin)\<rparr>"

text \<open>Whoever won or sent holds its field; a field that was set on the way has one holder.\<close>

definition holds :: "shared \<Rightarrow> nat \<Rightarrow> bool" where
  "holds s i \<longleftrightarrow> D_phase s i = Won \<or> D_phase s i = Sent"

definition taken :: "env \<Rightarrow> shared \<Rightarrow> string \<Rightarrow> bool" where
  "taken env s k \<longleftrightarrow> D_hash s (mutex_of env) k \<noteq> None"

definition lock_inv :: "env \<Rightarrow> (nat \<Rightarrow> Event) \<Rightarrow> hashes \<Rightarrow> shared \<Rightarrow> bool" where
  "lock_inv env ev h s \<longleftrightarrow>
     (\<forall>i. holds s i \<longrightarrow> taken env s (bot_message_key (ev i))) \<and>
     (\<forall>i j. holds s i \<longrightarrow> holds s j \<longrightarrow> bot_message_key (ev i) = bot_message_key (ev j) \<longrightarrow> i = j) \<and>
     (\<forall>i. D_phase s i = Skipped \<longrightarrow> taken env s (bot_message_key (ev i))) \<and>
     (\<forall>k. taken env s k \<longrightarrow> h (mutex_of env) k \<noteq> None \<or> (\<exists>i. holds s i \<and> bot_message_key (ev i) = k))"

definition queue_inv :: "env \<Rightarrow> (nat \<Rightarrow> Event) \<Rightarrow> queues \<Rightarrow> shared \<Rightarrow> bool" where
  "queue_inv env ev q s \<longleftrightarrow>
     (\<exists>L. D_queue s = q(events_of env := q (events_of env) @ List.map (\<lambda>i. enc_Event (ev i)) L) \<and>
        distinct L \<and> (\<forall>i. i \<in> set L \<longleftrightarrow> D_phase s i = Sent))"

definition dedupe_inv :: "env \<Rightarrow> (nat \<Rightarrow> Event) \<Rightarrow> hashes \<Rightarrow> queues \<Rightarrow> shared \<Rightarrow> bool" where
  "dedupe_inv env ev h q s \<longleftrightarrow> lock_inv env ev h s \<and> queue_inv env ev q s"

lemma dedupe_inv_begin: "dedupe_inv env ev h q (begin_with h q)"
  by (simp add: dedupe_inv_def lock_inv_def queue_inv_def begin_with_def holds_def taken_def)

lemma lock_invD:
  assumes "lock_inv env ev h s"
  shows "holds s i \<Longrightarrow> taken env s (bot_message_key (ev i))"
    and "holds s i \<Longrightarrow> holds s j \<Longrightarrow> bot_message_key (ev i) = bot_message_key (ev j) \<Longrightarrow> i = j"
    and "D_phase s i = Skipped \<Longrightarrow> taken env s (bot_message_key (ev i))"
    and "taken env s k \<Longrightarrow> h (mutex_of env) k = None \<Longrightarrow> \<exists>i. holds s i \<and> bot_message_key (ev i) = k"
  using assms by (auto simp: lock_inv_def)

lemma lock_invI:
  assumes "\<And>i. holds s i \<Longrightarrow> taken env s (bot_message_key (ev i))"
    and "\<And>i j. holds s i \<Longrightarrow> holds s j \<Longrightarrow> bot_message_key (ev i) = bot_message_key (ev j) \<Longrightarrow> i = j"
    and "\<And>i. D_phase s i = Skipped \<Longrightarrow> taken env s (bot_message_key (ev i))"
    and "\<And>k. taken env s k \<Longrightarrow> h (mutex_of env) k = None \<Longrightarrow> \<exists>i. holds s i \<and> bot_message_key (ev i) = k"
  shows "lock_inv env ev h s"
  using assms unfolding lock_inv_def by blast

lemma lock_inv_same:
  assumes inv: "lock_inv env ev h s" and same: "\<And>j. holds s' j = holds s j" "\<And>k. taken env s' k = taken env s k"
    and skipped: "\<And>j. D_phase s' j = Skipped \<Longrightarrow> D_phase s j = Skipped \<or> taken env s (bot_message_key (ev j))"
  shows "lock_inv env ev h s'"
proof (rule lock_invI, unfold same)
  show "taken env s (bot_message_key (ev i))" if "holds s i" for i
    using that by (rule lock_invD(1) [OF inv])
  show "i = j" if "holds s i" "holds s j" "bot_message_key (ev i) = bot_message_key (ev j)" for i j
    using that by (rule lock_invD(2) [OF inv])
  show "taken env s (bot_message_key (ev i))" if "D_phase s' i = Skipped" for i
    using skipped [OF that] lock_invD(3) [OF inv] by blast
  show "\<exists>i. holds s i \<and> bot_message_key (ev i) = k" if "taken env s k" "h (mutex_of env) k = None" for k
    using that by (rule lock_invD(4) [OF inv])
qed

lemma lock_inv_win:
  assumes inv: "lock_inv env ev h s" and free: "\<not> taken env s (bot_message_key (ev i))"
    and holds: "\<And>j. holds s' j \<longleftrightarrow> j = i \<or> holds s j"
    and taken: "\<And>k. taken env s' k \<longleftrightarrow> k = bot_message_key (ev i) \<or> taken env s k"
    and skipped: "\<And>j. D_phase s' j = Skipped \<longleftrightarrow> D_phase s j = Skipped"
  shows "lock_inv env ev h s'"
proof (rule lock_invI, unfold holds taken skipped)
  have other: "bot_message_key (ev j) \<noteq> bot_message_key (ev i)" if "holds s j" for j
    using lock_invD(1) [OF inv that] free by auto
  show "j = k" if "j = i \<or> holds s j" "k = i \<or> holds s k" "bot_message_key (ev j) = bot_message_key (ev k)" for j k
    using that other [of j] other [of k] lock_invD(2) [OF inv, of j k] by auto
  show "bot_message_key (ev j) = bot_message_key (ev i) \<or> taken env s (bot_message_key (ev j))" if "j = i \<or> holds s j" for j
    using that lock_invD(1) [OF inv, of j] by auto
  show "bot_message_key (ev j) = bot_message_key (ev i) \<or> taken env s (bot_message_key (ev j))" if "D_phase s j = Skipped" for j
    using lock_invD(3) [OF inv that] by simp
  show "\<exists>j. (j = i \<or> holds s j) \<and> bot_message_key (ev j) = k"
    if "k = bot_message_key (ev i) \<or> taken env s k" "h (mutex_of env) k = None" for k
    using that lock_invD(4) [OF inv, of k] by auto
qed

lemma queue_inv_same:
  "queue_inv env ev q s \<Longrightarrow> D_queue s' = D_queue s \<Longrightarrow> (\<And>j. D_phase s' j = Sent \<longleftrightarrow> D_phase s j = Sent) \<Longrightarrow>
     queue_inv env ev q s'"
  by (simp add: queue_inv_def)

lemma holds_update [simp]:
  "holds (s\<lparr>D_phase := (D_phase s)(i := p)\<rparr>) j \<longleftrightarrow> (if j = i then p = Won \<or> p = Sent else holds s j)"
  "holds (s\<lparr>D_hash := t\<rparr>) j = holds s j"
  "holds (s\<lparr>D_queue := r\<rparr>) j = holds s j"
  by (simp_all add: holds_def)

lemma taken_update [simp]:
  "taken env (s\<lparr>D_phase := p\<rparr>) k = taken env s k"
  "taken env (s\<lparr>D_queue := r\<rparr>) k = taken env s k"
  "taken env (s\<lparr>D_hash := hset (D_hash s) (mutex_of env) f v\<rparr>) k \<longleftrightarrow> k = f \<or> taken env s k"
  by (simp_all add: taken_def hset_def)

lemma holds_win:
  "holds (s\<lparr>D_hash := t, D_phase := (D_phase s)(i := p)\<rparr>) j \<longleftrightarrow> (if j = i then p = Won \<or> p = Sent else holds s j)"
  "holds (s\<lparr>D_queue := r, D_phase := (D_phase s)(i := p)\<rparr>) j \<longleftrightarrow> (if j = i then p = Won \<or> p = Sent else holds s j)"
  by (simp_all add: holds_def)

lemma dedupe_inv_step:
  assumes "send_step env ev s s'" and inv: "dedupe_inv env ev h q s"
  shows "dedupe_inv env ev h q s'"
proof -
  from inv have lock: "lock_inv env ev h s" and queue: "queue_inv env ev q s" by (simp_all add: dedupe_inv_def)
  show ?thesis
    unfolding dedupe_inv_def using assms(1)
  proof cases
    case (win i)
    have "lock_inv env ev h s'"
    proof (rule lock_inv_win [OF lock])
      show "\<not> taken env s (bot_message_key (ev i))" using win(3) by (simp add: taken_def)
      show "holds s' j \<longleftrightarrow> j = i \<or> holds s j" for j by (simp add: win(1) holds_win)
      show "taken env s' k \<longleftrightarrow> k = bot_message_key (ev i) \<or> taken env s k" for k by (simp add: win(1))
      show "D_phase s' j = Skipped \<longleftrightarrow> D_phase s j = Skipped" for j by (simp add: win(1,2))
    qed
    moreover have "queue_inv env ev q s'" by (rule queue_inv_same [OF queue]) (simp_all add: win(1,2))
    ultimately show "lock_inv env ev h s' \<and> queue_inv env ev q s'" ..
  next
    case (lose i)
    have "lock_inv env ev h s'"
    proof (rule lock_inv_same [OF lock])
      show "holds s' j = holds s j" for j using lose(2) by (simp add: lose(1)) (simp add: holds_def)
      show "taken env s' k = taken env s k" for k by (simp add: lose(1))
      show "D_phase s j = Skipped \<or> taken env s (bot_message_key (ev j))" if "D_phase s' j = Skipped" for j
        using that lose(3) by (cases "j = i") (simp_all add: lose(1) taken_def)
    qed
    moreover have "queue_inv env ev q s'" by (rule queue_inv_same [OF queue]) (simp_all add: lose(1,2))
    ultimately show "lock_inv env ev h s' \<and> queue_inv env ev q s'" ..
  next
    case (push i)
    have "lock_inv env ev h s'"
    proof (rule lock_inv_same [OF lock])
      show "holds s' j = holds s j" for j using push(2) by (simp add: push(1) holds_win) (simp add: holds_def)
      show "taken env s' k = taken env s k" for k by (simp add: push(1))
      show "D_phase s j = Skipped \<or> taken env s (bot_message_key (ev j))" if "D_phase s' j = Skipped" for j
        using that by (cases "j = i") (simp_all add: push(1))
    qed
    moreover obtain L where L: "D_queue s = q(events_of env := q (events_of env) @ List.map (\<lambda>i. enc_Event (ev i)) L)"
      "distinct L" "\<forall>i. i \<in> set L \<longleftrightarrow> D_phase s i = Sent" using queue unfolding queue_inv_def by blast
    have "queue_inv env ev q s'"
      unfolding queue_inv_def
    proof (intro exI conjI)
      show "D_queue s' = q(events_of env := q (events_of env) @ List.map (\<lambda>i. enc_Event (ev i)) (L @ [i]))"
        by (simp add: push(1) L(1) Outside.push_def)
      show "distinct (L @ [i])" "\<forall>j. j \<in> set (L @ [i]) \<longleftrightarrow> D_phase s' j = Sent"
        using L(2,3) push(2) by (simp_all add: push(1))
    qed
    ultimately show "lock_inv env ev h s' \<and> queue_inv env ev q s'" by blast
  qed
qed

lemma dedupe_inv_steps: "(send_step env ev)\<^sup>*\<^sup>* s s' \<Longrightarrow> dedupe_inv env ev h q s \<Longrightarrow> dedupe_inv env ev h q s'"
  by (induction rule: rtranclp_induct) (auto intro: dedupe_inv_step)

section \<open>Properties\<close>

text \<open>
  C3. Send-only-once under every interleaving: if the field of a key was free at the start and
  every sender of that key has finished, exactly one of them has pushed its event, whatever the
  order of the commands of any number of senders; and the queue has grown by exactly the events
  of those that sent, each once.
\<close>

theorem interleaved_send_once:
  assumes "(send_step env ev)\<^sup>*\<^sup>* (begin_with h q) s"
    and "h (env ''RELAX_MUTEX_KEY'') (bot_message_key (ev i)) = None"
    and "\<forall>j. bot_message_key (ev j) = bot_message_key (ev i) \<longrightarrow> D_phase s j = Sent \<or> D_phase s j = Skipped"
  shows "(\<exists>!j. bot_message_key (ev j) = bot_message_key (ev i) \<and> D_phase s j = Sent) \<and>
    (\<exists>L. D_queue s (env ''RELAX_EVENTS_QUEUE'') = q (env ''RELAX_EVENTS_QUEUE'') @ List.map (\<lambda>j. enc_Event (ev j)) L \<and>
       distinct L \<and> set L = {j. D_phase s j = Sent})"
proof -
  have inv: "dedupe_inv env ev h q s" by (rule dedupe_inv_steps [OF assms(1) dedupe_inv_begin])
  then have lock: "lock_inv env ev h s" by (simp add: dedupe_inv_def)
  have "taken env s (bot_message_key (ev i))"
    using lock assms(3) unfolding lock_inv_def holds_def by blast
  then obtain j where j: "holds s j" "bot_message_key (ev j) = bot_message_key (ev i)"
    using lock assms(2) unfolding lock_inv_def by blast
  then have "D_phase s j = Sent" using assms(3) by (auto simp: holds_def)
  moreover have "j' = j" if "bot_message_key (ev j') = bot_message_key (ev i)" "D_phase s j' = Sent" for j'
    using lock j that unfolding lock_inv_def holds_def by metis
  ultimately have "\<exists>!j. bot_message_key (ev j) = bot_message_key (ev i) \<and> D_phase s j = Sent"
    using j(2) by blast
  moreover from inv obtain L where "D_queue s = q(events_of env := q (events_of env) @ List.map (\<lambda>i. enc_Event (ev i)) L)"
    "distinct L" "\<forall>i. i \<in> set L \<longleftrightarrow> D_phase s i = Sent" by (auto simp: dedupe_inv_def queue_inv_def)
  ultimately show ?thesis by auto
qed

text \<open>Senders 0 and 1 of one event, the others of another: 0 wins and pushes, 1 finds the field taken.\<close>

definition two_senders :: "nat \<Rightarrow> Event" where
  "two_senders i = zero_Event\<lparr>Ev_EventTimestamp := (if i < 2 then ''5'' else ''6'')\<rparr>"

definition after_race :: shared where
  "after_race = \<lparr>D_hash = hset (\<lambda>_ _. None) ''mutex'' ''bot_message::5'' ''ok'',
     D_queue = push (\<lambda>_. []) ''events'' (enc_Event (two_senders 0)),
     D_phase = (\<lambda>_. Begin)(0 := Sent, 1 := Skipped)\<rparr>"

lemma two_senders_key: "bot_message_key (two_senders i) = (if i < 2 then ''bot_message::5'' else ''bot_message::6'')"
  by (simp add: bot_message_key_def two_senders_def zero_Event_def)

lemma two_steps: "send_step env ev s s1 \<Longrightarrow> send_step env ev s1 s2 \<Longrightarrow> (send_step env ev)\<^sup>*\<^sup>* s s2"
  by (simp add: r_into_rtranclp rtranclp.rtrancl_into_rtrancl)

lemma race: "(send_step sample_env two_senders)\<^sup>*\<^sup>* (begin_with (\<lambda>_ _. None) (\<lambda>_. [])) after_race"
proof -
  define s0 where "s0 = begin_with (\<lambda>_ _. None) (\<lambda>_. [])"
  define s1 where "s1 = s0\<lparr>D_hash := hset (D_hash s0) (mutex_of sample_env) (bot_message_key (two_senders 0)) ''ok'',
    D_phase := (D_phase s0)(0 := Won)\<rparr>"
  define s2 where "s2 = s1\<lparr>D_phase := (D_phase s1)(1 := Skipped)\<rparr>"
  have 1: "send_step sample_env two_senders s0 s1"
    unfolding s1_def by (rule send_step.win) (simp_all add: s0_def begin_with_def)
  have 2: "send_step sample_env two_senders s1 s2"
    unfolding s2_def by (rule send_step.lose) (simp_all add: s1_def s0_def begin_with_def two_senders_key hset_def)
  have "send_step sample_env two_senders s2
      (s2\<lparr>D_queue := push (D_queue s2) (events_of sample_env) (enc_Event (two_senders 0)), D_phase := (D_phase s2)(0 := Sent)\<rparr>)"
    by (rule send_step.push) (simp add: s2_def s1_def)
  moreover have "s2\<lparr>D_queue := push (D_queue s2) (events_of sample_env) (enc_Event (two_senders 0)), D_phase := (D_phase s2)(0 := Sent)\<rparr>
      = after_race"
    by (simp add: after_race_def s0_def s1_def s2_def begin_with_def two_senders_key sample_env_def fun_upd_twist)
  ultimately have 3: "send_step sample_env two_senders s2 after_race" by simp
  show ?thesis unfolding s0_def [symmetric] by (rule rtranclp.rtrancl_into_rtrancl [OF two_steps [OF 1 2] 3])
qed

theorem interleaved_send_once_witness:
  "(\<exists>!j. bot_message_key (two_senders j) = bot_message_key (two_senders 0) \<and> D_phase after_race j = Sent) \<and>
    (\<exists>L. D_queue after_race (sample_env ''RELAX_EVENTS_QUEUE'') =
        (\<lambda>_. []) (sample_env ''RELAX_EVENTS_QUEUE'') @ List.map (\<lambda>j. enc_Event (two_senders j)) L \<and>
       distinct L \<and> set L = {j. D_phase after_race j = Sent})"
  by (rule interleaved_send_once [OF race]) (auto simp: two_senders_key after_race_def less_2_cases_iff)

text \<open>
  A sender that is not interrupted does what \<open>send\<close> does: from the state it finds, its
  commands in a row end in exactly the state that \<open>send\<close> leaves on a server that answers.
\<close>

lemma uninterrupted_sender_is_send:
  assumes "redis_lawful svc hash queue" "redis_up svc" "D_phase s i = Begin"
    and "D_hash s = hash w" "D_queue s = queue w"
  shows "\<exists>s' err w'. (send_step env ev)\<^sup>*\<^sup>* s s' \<and> (D_phase s' i = Sent \<or> D_phase s' i = Skipped) \<and>
    send svc env (ev i) (enc_Event (ev i)) w = Some (err, w') \<and> D_hash s' = hash w' \<and> D_queue s' = queue w'"
proof -
  obtain err w' where w': "send svc env (ev i) (enc_Event (ev i)) w = Some (err, w')"
    "(hash w', queue w') = deliver env (ev i) (hash w, queue w)"
    by (rule send_up [OF assms(1,2), of env "ev i" w]) blast
  show ?thesis
  proof (cases "D_hash s (mutex_of env) (bot_message_key (ev i)) = None")
    case False
    have "send_step env ev s (s\<lparr>D_phase := (D_phase s)(i := Skipped)\<rparr>)" by (rule send_step.lose) (use assms(3) False in auto)
    then have "(send_step env ev)\<^sup>*\<^sup>* s (s\<lparr>D_phase := (D_phase s)(i := Skipped)\<rparr>)" by (rule r_into_rtranclp)
    moreover have "hash w' = hash w" "queue w' = queue w" using w'(2) assms(4) False by (auto simp: deliver_def)
    ultimately show ?thesis
      using w'(1) assms(4,5) by (intro exI [of _ "s\<lparr>D_phase := (D_phase s)(i := Skipped)\<rparr>"]) simp
  next
    case True
    define s1 where "s1 = s\<lparr>D_hash := hset (D_hash s) (mutex_of env) (bot_message_key (ev i)) ''ok'', D_phase := (D_phase s)(i := Won)\<rparr>"
    define s2 where "s2 = s1\<lparr>D_queue := push (D_queue s1) (events_of env) (enc_Event (ev i)), D_phase := (D_phase s1)(i := Sent)\<rparr>"
    have 1: "send_step env ev s s1" unfolding s1_def by (rule send_step.win) (use assms(3) True in auto)
    have 2: "send_step env ev s1 s2" unfolding s2_def by (rule send_step.push) (simp add: s1_def)
    have "D_hash s2 = hash w'" "D_queue s2 = queue w'" "D_phase s2 i = Sent"
      using w'(2) assms(4,5) True by (simp_all add: deliver_def hsetnx_def s1_def s2_def)
    with two_steps [OF 1 2] w'(1) show ?thesis by blast
  qed
qed

end
