(* ===== verification/Bufio.thy ===== *)
theory Bufio
  imports Utf8
begin

text \<open>
  The Reader of the vendored package bufio.v1 (bufio.go), through which the redis client reads
  every reply. What the connection delivers is a script: the pieces in which the bytes arrive,
  each with the error that comes with it; after the script every read is at the end of the
  stream. The errors are values, and a run-time panic is \<open>None\<close>.
\<close>

datatype io_error =
    EOF | ErrNoProgress | ErrBufferFull | ErrNegativeCount | ErrInvalidUnreadByte | ErrInvalidUnreadRune
  | ErrShortWrite
  | ConnError bool      \<comment> \<open>a net.Error, and whether it is a timeout\<close>
  | OtherError string

section \<open>The connection\<close>

type_synonym source = "(string \<times> io_error option) list"

text \<open>One Read with room for \<open>k\<close> bytes; what does not fit is left for the next one.\<close>

fun src_read :: "nat \<Rightarrow> source \<Rightarrow> (string \<times> io_error option) \<times> source" where
  "src_read k [] = (([], Some EOF), [])"
| "src_read k ((bs, e) # rest) =
     (if length bs \<le> k then ((bs, e), rest) else ((take k bs, None), (drop k bs, e) # rest))"

section \<open>Reader\<close>

record Reader =
  R_buf :: string
  R_src :: source
  R_r :: nat
  R_w :: nat
  R_err :: "io_error option"
  R_lastByte :: int
  R_lastRuneSize :: int

definition minReadBufferSize :: nat where "minReadBufferSize = 16"
definition defaultBufSize :: nat where "defaultBufSize = 4096"
definition maxConsecutiveEmptyReads :: nat where "maxConsecutiveEmptyReads = 100"

definition reset_reader :: "string \<Rightarrow> source \<Rightarrow> Reader" where
  "reset_reader buf src = \<lparr>R_buf = buf, R_src = src, R_r = 0, R_w = 0, R_err = None, R_lastByte = - 1,
     R_lastRuneSize = - 1\<rparr>"

text \<open>The source is a connection, never a Reader itself.\<close>

definition NewReaderSize :: "source \<Rightarrow> int \<Rightarrow> Reader" where
  "NewReaderSize src n =
     reset_reader (replicate (if n < int minReadBufferSize then minReadBufferSize else nat n) (CHR 0x00)) src"

definition NewReader :: "source \<Rightarrow> Reader" where
  "NewReader src = NewReaderSize src (int defaultBufSize)"

definition Reset_reader :: "source \<Rightarrow> Reader \<Rightarrow> Reader" where
  "Reset_reader src b = reset_reader (R_buf b) src"

text \<open>\<open>copy(buf[i:], bs)\<close> for bytes that fit, and \<open>buf[r:w]\<close>.\<close>

definition overwrite :: "nat \<Rightarrow> string \<Rightarrow> string \<Rightarrow> string" where
  "overwrite i bs buf = take i buf @ bs @ drop (i + length bs) buf"

definition window :: "Reader \<Rightarrow> string" where
  "window b = take (R_w b - R_r b) (drop (R_r b) (R_buf b))"

definition Buffered :: "Reader \<Rightarrow> nat" where
  "Buffered b = R_w b - R_r b"

definition slide :: "Reader \<Rightarrow> Reader" where
  "slide b =
     (if R_r b > 0 then b\<lparr>R_buf := overwrite 0 (window b) (R_buf b), R_w := R_w b - R_r b, R_r := 0\<rparr> else b)"

fun fill_reads :: "nat \<Rightarrow> Reader \<Rightarrow> Reader" where
  "fill_reads 0 b = b\<lparr>R_err := Some ErrNoProgress\<rparr>"
| "fill_reads (Suc i) b =
     (case src_read (length (R_buf b) - R_w b) (R_src b) of ((bs, e), src) \<Rightarrow>
        let b = b\<lparr>R_buf := overwrite (R_w b) bs (R_buf b), R_w := R_w b + length bs, R_src := src\<rparr>
        in if e \<noteq> None then b\<lparr>R_err := e\<rparr> else if bs \<noteq> [] then b else fill_reads i b)"

definition fill :: "Reader \<Rightarrow> Reader option" where
  "fill b =
     (let b = slide b
      in if R_w b \<ge> length (R_buf b) then None else Some (fill_reads maxConsecutiveEmptyReads b))"

definition readErr :: "Reader \<Rightarrow> io_error option \<times> Reader" where
  "readErr b = (R_err b, b\<lparr>R_err := None\<rparr>)"

subsection \<open>A loop around fill ends\<close>

text \<open>A fill sets the error or adds a byte, so this many more of them are possible.\<close>

definition room :: "Reader \<Rightarrow> nat" where
  "room b = (if R_err b = None then Suc (length (R_buf b) - (R_w b - R_r b)) else 0)"

lemma length_overwrite [simp]: "i + length bs \<le> length buf \<Longrightarrow> length (overwrite i bs buf) = length buf"
  by (simp add: overwrite_def)

lemma length_src_read: "src_read k src = ((bs, e), src') \<Longrightarrow> length bs \<le> k"
  by (cases "(k, src)" rule: src_read.cases) (auto split: if_splits)

lemma length_slide [simp]: "length (R_buf (slide b)) = length (R_buf b)"
  by (auto simp: slide_def window_def overwrite_def)

lemma slide_simps [simp]: "R_err (slide b) = R_err b" "R_src (slide b) = R_src b" "R_r (slide b) = 0"
  "R_w (slide b) = R_w b - R_r b"
  by (auto simp: slide_def)

lemma fill_reads_room:
  "R_r b = 0 \<Longrightarrow> R_w b < length (R_buf b) \<Longrightarrow> fill_reads i b = b' \<Longrightarrow>
     R_r b' = 0 \<and> length (R_buf b') = length (R_buf b) \<and> R_w b \<le> R_w b' \<and> R_w b' \<le> length (R_buf b) \<and>
     (R_err b' = None \<longrightarrow> R_w b < R_w b')"
proof (induction i arbitrary: b b')
  case 0
  then show ?case by auto
next
  case (Suc i)
  obtain bs e src where s: "src_read (length (R_buf b) - R_w b) (R_src b) = ((bs, e), src)" by (metis surj_pair)
  have "length bs \<le> length (R_buf b) - R_w b" by (rule length_src_read [OF s])
  with Suc.prems s Suc.IH [OF _ _ refl, of "b\<lparr>R_buf := overwrite (R_w b) [] (R_buf b), R_src := src\<rparr>"] show ?case
    by (auto simp: Let_def overwrite_def split: if_splits)
qed

lemma fill_room:
  assumes "fill b = Some b'" "R_err b = None"
  shows "room b' < room b"
  using fill_reads_room [of "slide b" maxConsecutiveEmptyReads b'] assms
  by (auto simp: fill_def Let_def room_def split: if_splits)

subsection \<open>Reading\<close>

function Peek_fill :: "nat \<Rightarrow> Reader \<Rightarrow> Reader option" where
  "Peek_fill n b =
     (if Buffered b < n \<and> R_err b = None then (case fill b of None \<Rightarrow> None | Some b \<Rightarrow> Peek_fill n b) else Some b)"
  by pat_completeness auto
termination by (relation "measure (\<lambda>(_, b). room b)") (auto dest: fill_room)

declare Peek_fill.simps [simp del]

definition Peek :: "int \<Rightarrow> Reader \<Rightarrow> ((string \<times> io_error option) \<times> Reader) option" where
  "Peek n b =
     (if n < 0 then Some (([], Some ErrNegativeCount), b)
      else if n > int (length (R_buf b)) then Some (([], Some ErrBufferFull), b)
      else do {
        b \<leftarrow> Peek_fill (nat n) b;
        let m = min (Buffered b) (nat n);
        let (err, b) =
          (if m < nat n then (case readErr b of (err, b) \<Rightarrow> (if err = None then Some ErrBufferFull else err, b))
           else (None, b));
        Some ((take m (window b), err), b)
      })"

text \<open>\<open>Read(p)\<close> with \<open>len(p) = k\<close>: the bytes put into \<open>p\<close>.\<close>

definition Read_window :: "nat \<Rightarrow> Reader \<Rightarrow> (string \<times> io_error option) \<times> Reader" where
  "Read_window k b =
     (let bs = take k (window b);
          b = b\<lparr>R_r := R_r b + length bs\<rparr>
      in ((bs, None), b\<lparr>R_lastByte := int (byte (R_buf b ! (R_r b - 1))), R_lastRuneSize := - 1\<rparr>))"

definition Read :: "nat \<Rightarrow> Reader \<Rightarrow> ((string \<times> io_error option) \<times> Reader) option" where
  "Read k b =
     (if k = 0 then (case readErr b of (err, b) \<Rightarrow> Some (([], err), b))
      else if R_r b = R_w b then
        (if R_err b \<noteq> None then (case readErr b of (err, b) \<Rightarrow> Some (([], err), b))
         else if k \<ge> length (R_buf b) then
           (case src_read k (R_src b) of ((bs, e), src) \<Rightarrow>
              let b = b\<lparr>R_src := src\<rparr>;
                  b = (if bs \<noteq> [] then b\<lparr>R_lastByte := int (byte (last bs)), R_lastRuneSize := - 1\<rparr> else b)
              in Some ((bs, e), b))
         else do {
           b \<leftarrow> fill b;
           Some (if R_w b = R_r b then (case readErr b of (err, b) \<Rightarrow> (([], err), b)) else Read_window k b)
         })
      else Some (Read_window k b))"

function ReadByte_fill :: "Reader \<Rightarrow> (io_error option \<times> Reader) option" where
  "ReadByte_fill b =
     (if R_r b = R_w b then
        (if R_err b \<noteq> None then Some (readErr b)
         else (case fill b of None \<Rightarrow> None | Some b \<Rightarrow> ReadByte_fill b))
      else Some (None, b))"
  by pat_completeness auto
termination by (relation "measure room") (auto dest: fill_room)

declare ReadByte_fill.simps [simp del]

definition ReadByte :: "Reader \<Rightarrow> ((nat \<times> io_error option) \<times> Reader) option" where
  "ReadByte b = do {
     (err, b) \<leftarrow> ReadByte_fill (b\<lparr>R_lastRuneSize := - 1\<rparr>);
     (case err of
        Some e \<Rightarrow> Some ((0, Some e), b)
      | None \<Rightarrow>
          let c = byte (R_buf b ! R_r b)
          in Some ((c, None), b\<lparr>R_r := R_r b + 1, R_lastByte := int c\<rparr>))
   }"

definition UnreadByte :: "Reader \<Rightarrow> io_error option \<times> Reader" where
  "UnreadByte b =
     (if R_lastByte b < 0 \<or> R_r b = 0 \<and> R_w b > 0 then (Some ErrInvalidUnreadByte, b)
      else
        let b = (if R_r b > 0 then b\<lparr>R_r := R_r b - 1\<rparr> else b\<lparr>R_w := 1\<rparr>)
        in (None, b\<lparr>R_buf := (R_buf b)[R_r b := chr (nat (R_lastByte b))], R_lastByte := - 1, R_lastRuneSize := - 1\<rparr>))"

text \<open>
  \<open>utf8.FullRune\<close>: the bytes begin with a whole encoding, or with something that no further
  byte can complete.
\<close>

definition full_rune :: "string \<Rightarrow> bool" where
  "full_rune p =
     (case p of
        [] \<Rightarrow> False
      | c0 # r \<Rightarrow>
          let b0 = byte c0;
              ok1 = (\<lambda>c1. cont c1 \<and> (b0 = 224 \<longrightarrow> 160 \<le> byte c1) \<and> (b0 = 237 \<longrightarrow> byte c1 \<le> 159) \<and>
                 (b0 = 240 \<longrightarrow> 144 \<le> byte c1) \<and> (b0 = 244 \<longrightarrow> byte c1 \<le> 143));
              need = (if 194 \<le> b0 \<and> b0 \<le> 223 then 2 else if 224 \<le> b0 \<and> b0 \<le> 239 then 3
                else if 240 \<le> b0 \<and> b0 \<le> 244 then 4 else 1 :: nat)
          in length p \<ge> need \<or> (r \<noteq> [] \<and> \<not> ok1 (hd r)) \<or> (length r > 1 \<and> \<not> cont (r ! 1)))"

function ReadRune_fill :: "Reader \<Rightarrow> Reader option" where
  "ReadRune_fill b =
     (if R_r b + 4 > R_w b \<and> \<not> full_rune (window b) \<and> R_err b = None \<and> Buffered b < length (R_buf b)
      then (case fill b of None \<Rightarrow> None | Some b \<Rightarrow> ReadRune_fill b) else Some b)"
  by pat_completeness auto
termination by (relation "measure room") (auto dest: fill_room)

declare ReadRune_fill.simps [simp del]

definition ReadRune :: "Reader \<Rightarrow> ((nat \<times> nat \<times> io_error option) \<times> Reader) option" where
  "ReadRune b = do {
     b \<leftarrow> ReadRune_fill b;
     let b = b\<lparr>R_lastRuneSize := - 1\<rparr>;
     (if R_r b = R_w b then (case readErr b of (err, b) \<Rightarrow> Some ((0, 0, err), b))
      else
        let (r, n) = decode_rune (window b);
            b = b\<lparr>R_r := R_r b + n\<rparr>
        in Some ((r, n, None),
             b\<lparr>R_lastByte := int (byte (R_buf b ! (R_r b - 1))), R_lastRuneSize := int n\<rparr>))
   }"

definition UnreadRune :: "Reader \<Rightarrow> io_error option \<times> Reader" where
  "UnreadRune b =
     (if R_lastRuneSize b < 0 \<or> int (R_r b) < R_lastRuneSize b then (Some ErrInvalidUnreadRune, b)
      else (None, b\<lparr>R_r := R_r b - nat (R_lastRuneSize b), R_lastByte := - 1, R_lastRuneSize := - 1\<rparr>))"

subsection \<open>Lines\<close>

fun index_byte :: "char \<Rightarrow> string \<Rightarrow> nat option" where
  "index_byte c [] = None"
| "index_byte c (x # xs) = (if x = c then Some 0 else map_option Suc (index_byte c xs))"

function ReadSlice_loop :: "char \<Rightarrow> Reader \<Rightarrow> ((string \<times> io_error option) \<times> Reader) option" where
  "ReadSlice_loop delim b =
     (case index_byte delim (window b) of
        Some i \<Rightarrow> Some ((take (Suc i) (window b), None), b\<lparr>R_r := R_r b + i + 1\<rparr>)
      | None \<Rightarrow>
          if R_err b \<noteq> None then
            (case readErr (b\<lparr>R_r := R_w b\<rparr>) of (err, b') \<Rightarrow> Some ((window b, err), b'))
          else if Buffered b \<ge> length (R_buf b) then Some ((R_buf b, Some ErrBufferFull), b\<lparr>R_r := R_w b\<rparr>)
          else (case fill b of None \<Rightarrow> None | Some b \<Rightarrow> ReadSlice_loop delim b))"
  by pat_completeness auto
termination by (relation "measure (\<lambda>(_, b). room b)") (auto dest: fill_room)

declare ReadSlice_loop.simps [simp del]

definition note_last :: "string \<Rightarrow> Reader \<Rightarrow> Reader" where
  "note_last line b = (if line \<noteq> [] then b\<lparr>R_lastByte := int (byte (last line))\<rparr> else b)"

definition ReadSlice :: "char \<Rightarrow> Reader \<Rightarrow> ((string \<times> io_error option) \<times> Reader) option" where
  "ReadSlice delim b =
     map_option (\<lambda>((line, err), b). ((line, err), note_last line b)) (ReadSlice_loop delim b)"

function ReadN_loop :: "nat \<Rightarrow> Reader \<Rightarrow> ((string \<times> io_error option) \<times> Reader) option" where
  "ReadN_loop n b =
     (if Buffered b < n then
        (if R_err b \<noteq> None then (case readErr (b\<lparr>R_r := R_w b\<rparr>) of (err, b') \<Rightarrow> Some ((window b, err), b'))
         else if Buffered b \<ge> length (R_buf b) then Some ((R_buf b, Some ErrBufferFull), b\<lparr>R_r := R_w b\<rparr>)
         else (case fill b of None \<Rightarrow> None | Some b \<Rightarrow> ReadN_loop n b))
      else Some ((take n (window b), None), b\<lparr>R_r := R_r b + n\<rparr>))"
  by pat_completeness auto
termination by (relation "measure (\<lambda>(_, b). room b)") (auto dest: fill_room)

declare ReadN_loop.simps [simp del]

text \<open>A negative count goes straight to \<open>b.buf[b.r : b.r+n]\<close>, which is out of range.\<close>

definition ReadN :: "int \<Rightarrow> Reader \<Rightarrow> ((string \<times> io_error option) \<times> Reader) option" where
  "ReadN n b = (if n < 0 then None else ReadN_loop (nat n) b)"

definition strip_eol :: "string \<Rightarrow> string" where
  "strip_eol line =
     (if last line = CHR 0x0A then
        (if length line > 1 \<and> line ! (length line - 2) = CHR 0x0D then take (length line - 2) line else butlast line)
      else line)"

definition ReadLine :: "Reader \<Rightarrow> ((string \<times> bool \<times> io_error option) \<times> Reader) option" where
  "ReadLine b = do {
     ((line, err), b) \<leftarrow> ReadSlice (CHR 0x0A) b;
     (if err = Some ErrBufferFull then
        (if line \<noteq> [] \<and> last line = CHR 0x0D then
           (if R_r b = 0 then None else Some ((butlast line, True, None), b\<lparr>R_r := R_r b - 1\<rparr>))
         else Some ((line, True, None), b))
      else if line = [] then Some (([], False, err), b)
      else Some ((strip_eol line, False, None), b))
   }"

end
