(* ===== verification/BufioStream.thy ===== *)
theory BufioStream
  imports Bufio
begin

text \<open>
  What a Reader promises: over a connection that delivers its bytes and then ends, in whatever
  pieces, the operations depend only on the bytes not read yet, \<open>pending b\<close>, and on the size of
  the buffer. A locale states the contract that the parser of replies relies on.
\<close>

section \<open>The bytes still to come\<close>

definition stream_of :: "source \<Rightarrow> string" where
  "stream_of src = concat (List.map fst src)"

definition calm :: "source \<Rightarrow> bool" where
  "calm src \<longleftrightarrow> (\<forall>(bs, e) \<in> set src. bs \<noteq> [] \<and> e = None)"

definition pending :: "Reader \<Rightarrow> string" where
  "pending b = window b @ stream_of (R_src b)"

text \<open>The indices are in order, and the only error that waits to be reported is the end.\<close>

definition reader_inv :: "Reader \<Rightarrow> bool" where
  "reader_inv b \<longleftrightarrow> R_r b \<le> R_w b \<and> R_w b \<le> length (R_buf b) \<and> 0 < length (R_buf b) \<and> calm (R_src b) \<and>
     (R_err b = None \<or> R_err b = Some EOF \<and> R_src b = [] \<and> Buffered b < length (R_buf b))"

definition capacity :: "Reader \<Rightarrow> nat" where
  "capacity b = length (R_buf b)"

lemma stream_of_simps [simp]: "stream_of [] = []" "stream_of ((bs, e) # src) = bs @ stream_of src"
  by (simp_all add: stream_of_def)

lemma calm_simps [simp]: "calm []" "calm ((bs, e) # src) \<longleftrightarrow> bs \<noteq> [] \<and> e = None \<and> calm src"
  by (simp_all add: calm_def)

lemma calm_stream: "calm src \<Longrightarrow> stream_of src = [] \<longleftrightarrow> src = []"
  by (cases src) auto

lemma src_read_calm:
  assumes "calm src" "0 < k" "src \<noteq> []"
  obtains bs src' where "src_read k src = ((bs, None), src')" "bs \<noteq> []" "length bs \<le> k" "calm src'"
    "stream_of src = bs @ stream_of src'"
proof -
  obtain bs rest where "src = (bs, None) # rest" "bs \<noteq> []" "calm rest" using assms(1,3) by (cases src) auto
  then show thesis
    using assms(2) that [of bs rest] that [of "take k bs" "(drop k bs, None) # rest"] by (cases "length bs \<le> k") auto
qed

lemma window_overwrite [simp]:
  "R_r b \<le> R_w b \<Longrightarrow> R_w b \<le> length (R_buf b) \<Longrightarrow>
     window (b\<lparr>R_buf := overwrite (R_w b) bs (R_buf b), R_w := R_w b + length bs, R_src := src\<rparr>) = window b @ bs"
  by (simp add: window_def overwrite_def drop_take)

lemma window_slide [simp]: "R_r b \<le> R_w b \<Longrightarrow> R_w b \<le> length (R_buf b) \<Longrightarrow> window (slide b) = window b"
  by (auto simp: slide_def window_def overwrite_def)

lemma length_window: "R_r b \<le> R_w b \<Longrightarrow> R_w b \<le> length (R_buf b) \<Longrightarrow> length (window b) = Buffered b"
  by (simp add: window_def Buffered_def)

lemma window_irrelevant [simp]:
  "window (b\<lparr>R_err := e\<rparr>) = window b" "window (b\<lparr>R_lastByte := c\<rparr>) = window b"
  "window (b\<lparr>R_lastRuneSize := z\<rparr>) = window b" "window (b\<lparr>R_src := src\<rparr>) = window b"
  by (simp_all add: window_def)

lemma window_advance:
  "window (b\<lparr>R_r := R_r b + n\<rparr>) = drop n (window b)" "window (b\<lparr>R_r := R_w b\<rparr>) = []"
  by (simp_all add: window_def drop_take add.commute)

lemma fill_reads_end: "R_src b = [] \<Longrightarrow> 0 < i \<Longrightarrow> fill_reads i b = b\<lparr>R_err := Some EOF\<rparr>"
  by (cases i) (simp_all add: overwrite_def Let_def)

lemma fill_reads_more:
  "src_read (length (R_buf b) - R_w b) (R_src b) = ((bs, None), src) \<Longrightarrow> bs \<noteq> [] \<Longrightarrow> 0 < i \<Longrightarrow>
     fill_reads i b = b\<lparr>R_buf := overwrite (R_w b) bs (R_buf b), R_w := R_w b + length bs, R_src := src\<rparr>"
  by (cases i) (simp_all add: Let_def)

text \<open>One fill: at the end of the stream it sets the error, else it takes in more of the stream.\<close>

lemma fill_stream:
  assumes inv: "reader_inv b" and "R_err b = None" "Buffered b < capacity b"
  obtains b' where "fill b = Some b'" "reader_inv b'" "pending b' = pending b" "capacity b' = capacity b"
    "R_src b = [] \<Longrightarrow> R_err b' = Some EOF \<and> window b' = window b"
    "R_src b \<noteq> [] \<Longrightarrow> R_err b' = None \<and> R_r b' < R_w b'"
proof -
  let ?s = "slide b"
  have s: "R_r ?s \<le> R_w ?s" "R_w ?s < length (R_buf ?s)" "window ?s = window b"
    using assms by (auto simp: reader_inv_def Buffered_def capacity_def)
  have unfold: "fill b = Some (fill_reads maxConsecutiveEmptyReads ?s)" and tries: "0 < maxConsecutiveEmptyReads"
    using s(2) by (simp_all add: fill_def Let_def maxConsecutiveEmptyReads_def del: fill_reads.simps)
  show thesis
  proof (cases "R_src b = []")
    case True
    then have "fill b = Some (?s\<lparr>R_err := Some EOF\<rparr>)"
      unfolding unfold using tries by (simp add: fill_reads_end)
    with True s show thesis
      by (intro that [of "?s\<lparr>R_err := Some EOF\<rparr>"])
        (use assms in \<open>auto simp: reader_inv_def capacity_def pending_def Buffered_def\<close>)
  next
    case False
    have "calm (R_src b)" using inv by (simp add: reader_inv_def)
    then obtain bs src where r: "src_read (length (R_buf ?s) - R_w ?s) (R_src b) = ((bs, None), src)"
      "bs \<noteq> []" "length bs \<le> length (R_buf ?s) - R_w ?s" "calm src" "stream_of (R_src b) = bs @ stream_of src"
      using src_read_calm [of "R_src b" "length (R_buf ?s) - R_w ?s"] s(2) False by auto
    let ?b = "?s\<lparr>R_buf := overwrite (R_w ?s) bs (R_buf ?s), R_w := R_w ?s + length bs, R_src := src\<rparr>"
    have "fill b = Some ?b" unfolding unfold using tries fill_reads_more [OF _ r(2)] r(1) by simp
    moreover have "window ?b = window b @ bs" using s by (subst window_overwrite) auto
    then have "pending ?b = pending b" using r(5) by (simp add: pending_def)
    moreover have "reader_inv ?b" using assms r(3,4) s(2) by (auto simp: reader_inv_def)
    ultimately show thesis
      using that [of ?b] False s(2) r(2,3) assms(2) by (simp add: capacity_def)
  qed
qed

section \<open>The abstract operations\<close>

definition slice_spec :: "nat \<Rightarrow> char \<Rightarrow> string \<Rightarrow> (string \<times> io_error option) \<times> string" where
  "slice_spec n delim s =
     (case index_byte delim (take n s) of
        Some i \<Rightarrow> ((take (Suc i) s, None), drop (Suc i) s)
      | None \<Rightarrow> if length s \<ge> n then ((take n s, Some ErrBufferFull), drop n s) else ((s, Some EOF), []))"

definition count_spec :: "nat \<Rightarrow> nat \<Rightarrow> string \<Rightarrow> (string \<times> io_error option) \<times> string" where
  "count_spec n k s =
     (if k \<le> length s \<and> k \<le> n then ((take k s, None), drop k s)
      else if length s \<ge> n then ((take n s, Some ErrBufferFull), drop n s)
      else ((s, Some EOF), []))"

definition line_spec :: "nat \<Rightarrow> string \<Rightarrow> (string \<times> bool \<times> io_error option) \<times> string" where
  "line_spec n s =
     (case slice_spec n (CHR 0x0A) s of ((line, err), rest) \<Rightarrow>
        if err = Some ErrBufferFull then
          (if last line = CHR 0x0D then ((butlast line, True, None), CHR 0x0D # rest) else ((line, True, None), rest))
        else if line = [] then (([], False, err), rest)
        else ((strip_eol line, False, None), rest))"

lemma index_byte_less: "index_byte c s = Some i \<Longrightarrow> i < length s"
  by (induction s arbitrary: i) (auto split: if_splits)

lemma index_byte_append: "index_byte c s = Some i \<Longrightarrow> index_byte c (s @ t) = Some i"
  by (induction s arbitrary: i) (auto split: if_splits)

lemma index_byte_take: "index_byte c (take n s) = Some i \<Longrightarrow> index_byte c s = Some i \<and> i < n"
  using index_byte_append [of c "take n s" i "drop n s"] index_byte_less [of c "take n s" i] by simp

lemma index_byte_none: "index_byte c s = None \<longleftrightarrow> c \<notin> set s"
  by (induction s) auto

lemma index_byte_first: "c \<notin> set s \<Longrightarrow> index_byte c (s @ c # t) = Some (length s)"
  by (induction s) auto

section \<open>Refinement\<close>

definition implements :: "(string \<times> io_error option) \<times> string \<Rightarrow> Reader \<Rightarrow>
    ((string \<times> io_error option) \<times> Reader) option \<Rightarrow> bool" where
  "implements spec b res \<longleftrightarrow>
     (\<exists>b'. res = Some (fst spec, b') \<and> pending b' = snd spec \<and> reader_inv b' \<and> capacity b' = capacity b)"

lemma implementsI:
  "res = Some (fst spec, b') \<Longrightarrow> pending b' = snd spec \<Longrightarrow> reader_inv b' \<Longrightarrow> capacity b' = capacity b \<Longrightarrow>
     implements spec b res"
  by (auto simp: implements_def)

lemma window_bounds: "reader_inv b \<Longrightarrow> length (window b) = Buffered b \<and> Buffered b \<le> capacity b"
  by (auto simp: reader_inv_def length_window Buffered_def capacity_def)

text \<open>The three ways out of a reading loop: enough is in the buffer, the stream has ended, or the buffer is full.\<close>

lemma advance_inv:
  assumes "reader_inv b" "n \<le> length (window b)"
  shows "reader_inv (b\<lparr>R_r := R_r b + n\<rparr>) \<and> pending (b\<lparr>R_r := R_r b + n\<rparr>) = drop n (pending b)"
  using assms window_bounds [OF assms(1)]
  by (auto simp: reader_inv_def pending_def window_advance Buffered_def)

lemma at_end:
  assumes "reader_inv b" "R_err b \<noteq> None"
  shows "R_err b = Some EOF \<and> pending b = window b \<and> pending (b\<lparr>R_r := R_w b, R_err := None\<rparr>) = [] \<and>
    reader_inv (b\<lparr>R_r := R_w b, R_err := None\<rparr>)"
  using assms by (auto simp: reader_inv_def pending_def window_def)

lemma at_full:
  assumes "reader_inv b" "Buffered b \<ge> length (R_buf b)"
  shows "take (length (R_buf b)) (pending b) = R_buf b \<and> window b = R_buf b \<and>
    pending (b\<lparr>R_r := R_w b\<rparr>) = drop (length (R_buf b)) (pending b) \<and> reader_inv (b\<lparr>R_r := R_w b\<rparr>) \<and>
    length (R_buf b) \<le> length (pending b)"
proof -
  have "R_r b = 0 \<and> R_w b = length (R_buf b)" using assms by (auto simp: reader_inv_def Buffered_def)
  with assms show ?thesis by (auto simp: reader_inv_def pending_def window_def capacity_def Buffered_def)
qed

lemma fill_implements:
  assumes inv: "reader_inv b" and "R_err b = None" "Buffered b < length (R_buf b)"
    and step: "\<And>b'. fill b = Some b' \<Longrightarrow> reader_inv b' \<Longrightarrow> implements (spec (capacity b') (pending b')) b' (loop b')"
  shows "implements (spec (capacity b) (pending b)) b (case fill b of None \<Rightarrow> None | Some b' \<Rightarrow> loop b')"
proof -
  obtain b' where b': "fill b = Some b'" "reader_inv b'" "pending b' = pending b" "capacity b' = capacity b"
    using fill_stream [OF inv assms(2)] assms(3) by (auto simp: capacity_def)
  from step [OF b'(1,2)] b' show ?thesis by (auto simp: implements_def)
qed

lemma ReadSlice_loop_spec:
  "reader_inv b \<Longrightarrow> implements (slice_spec (capacity b) delim (pending b)) b (ReadSlice_loop delim b)"
proof (induction delim b rule: ReadSlice_loop.induct)
  case (1 delim b)
  note inv = 1(2) and bounds = window_bounds [OF 1(2)]
  have front: "take (capacity b) (pending b) = window b @ take (capacity b - length (window b)) (stream_of (R_src b))"
    using bounds by (simp add: pending_def)
  consider (hit) i where "index_byte delim (window b) = Some i"
    | (ended) "index_byte delim (window b) = None" "R_err b \<noteq> None"
    | (full) "index_byte delim (window b) = None" "R_err b = None" "Buffered b \<ge> length (R_buf b)"
    | (more) "index_byte delim (window b) = None" "R_err b = None" "Buffered b < length (R_buf b)"
    by force
  then show ?case
  proof cases
    case hit
    then have i: "i < length (window b)" by (rule index_byte_less)
    have "slice_spec (capacity b) delim (pending b) = ((take (Suc i) (window b), None), drop (Suc i) (pending b))"
      using index_byte_append [OF hit] i unfolding slice_spec_def front by (simp add: pending_def)
    with advance_inv [OF inv, of "Suc i"] i hit show ?thesis
      by (subst ReadSlice_loop.simps) (auto simp: implements_def capacity_def)
  next
    case ended
    then have "Buffered b < capacity b" using inv by (auto simp: reader_inv_def capacity_def)
    with at_end [OF inv ended(2)] ended bounds show ?thesis
      by (subst ReadSlice_loop.simps) (auto simp: implements_def slice_spec_def readErr_def capacity_def)
  next
    case full
    with at_full [OF inv full(3)] show ?thesis
      by (subst ReadSlice_loop.simps) (auto simp: implements_def slice_spec_def capacity_def)
  next
    case more
    then have "ReadSlice_loop delim b = (case fill b of None \<Rightarrow> None | Some b' \<Rightarrow> ReadSlice_loop delim b')"
      by (subst ReadSlice_loop.simps) simp
    also have "implements (slice_spec (capacity b) delim (pending b)) b \<dots>"
      by (rule fill_implements [OF inv more(2,3)], rule 1(1)) (use more in simp_all)
    finally show ?thesis .
  qed
qed

lemma ReadN_loop_spec:
  "reader_inv b \<Longrightarrow> implements (count_spec (capacity b) n (pending b)) b (ReadN_loop n b)"
proof (induction n b rule: ReadN_loop.induct)
  case (1 n b)
  note inv = 1(2) and bounds = window_bounds [OF 1(2)]
  consider (hit) "n \<le> Buffered b" | (ended) "Buffered b < n" "R_err b \<noteq> None"
    | (full) "Buffered b < n" "R_err b = None" "Buffered b \<ge> length (R_buf b)"
    | (more) "Buffered b < n" "R_err b = None" "Buffered b < length (R_buf b)"
    by force
  then show ?case
  proof cases
    case hit
    then have "n \<le> length (pending b)" "n \<le> capacity b" "take n (pending b) = take n (window b)"
      using bounds by (auto simp: pending_def)
    with advance_inv [OF inv, of n] hit bounds show ?thesis
      by (subst ReadN_loop.simps) (auto simp: implements_def count_spec_def capacity_def)
  next
    case ended
    then have "Buffered b < capacity b" using inv by (auto simp: reader_inv_def capacity_def)
    with at_end [OF inv ended(2)] ended bounds show ?thesis
      by (subst ReadN_loop.simps) (auto simp: implements_def count_spec_def readErr_def capacity_def)
  next
    case full
    have loop: "ReadN_loop n b = Some ((R_buf b, Some ErrBufferFull), b\<lparr>R_r := R_w b\<rparr>)"
      by (subst ReadN_loop.simps) (use full in simp)
    have spec: "count_spec (capacity b) n (pending b) =
        ((take (length (R_buf b)) (pending b), Some ErrBufferFull), drop (length (R_buf b)) (pending b))"
      using at_full [OF inv full(3)] full(1,3) by (simp add: count_spec_def capacity_def)
    show ?thesis
      unfolding implements_def spec loop
      by (rule exI [of _ "b\<lparr>R_r := R_w b\<rparr>"]) (simp add: at_full [OF inv full(3)], simp add: capacity_def)
  next
    case more
    then have "ReadN_loop n b = (case fill b of None \<Rightarrow> None | Some b' \<Rightarrow> ReadN_loop n b')"
      by (subst ReadN_loop.simps) simp
    also have "implements (count_spec (capacity b) n (pending b)) b \<dots>"
      by (rule fill_implements [OF inv more(2,3)], rule 1(1)) (use more in simp_all)
    finally show ?thesis .
  qed
qed

lemma note_last_simps [simp]:
  "pending (note_last line b) = pending b" "reader_inv (note_last line b) = reader_inv b"
  "capacity (note_last line b) = capacity b" "R_r (note_last line b) = R_r b" "R_w (note_last line b) = R_w b"
  "R_buf (note_last line b) = R_buf b" "R_src (note_last line b) = R_src b" "R_err (note_last line b) = R_err b"
  by (auto simp: note_last_def pending_def window_def reader_inv_def capacity_def Buffered_def)

lemma drop_to_last: "xs \<noteq> [] \<Longrightarrow> drop (length xs - Suc 0) xs = [last xs]"
  by (cases xs rule: rev_cases) auto

lemma ReadSlice_loop_full:
  "reader_inv b \<Longrightarrow> ReadSlice_loop delim b = Some ((line, Some ErrBufferFull), b') \<Longrightarrow>
     line = R_buf b' \<and> R_r b' = R_w b' \<and> R_w b' = length (R_buf b') \<and> R_err b' = None"
proof (induction delim b rule: ReadSlice_loop.induct)
  case (1 delim b)
  note inv = 1(2) and res = 1(3)
  consider (hit) i where "index_byte delim (window b) = Some i"
    | (ended) "index_byte delim (window b) = None" "R_err b \<noteq> None"
    | (full) "index_byte delim (window b) = None" "R_err b = None" "Buffered b \<ge> length (R_buf b)"
    | (more) "index_byte delim (window b) = None" "R_err b = None" "Buffered b < length (R_buf b)"
    by force
  then show ?case
  proof cases
    case hit
    with res show ?thesis by (subst (asm) ReadSlice_loop.simps) simp
  next
    case ended
    then have "R_err b = Some EOF" using inv by (auto simp: reader_inv_def)
    with res ended show ?thesis by (subst (asm) ReadSlice_loop.simps) (simp add: readErr_def)
  next
    case full
    then have "R_r b = 0 \<and> R_w b = length (R_buf b)" using inv by (auto simp: reader_inv_def Buffered_def)
    with res full show ?thesis by (subst (asm) ReadSlice_loop.simps) auto
  next
    case more
    obtain c where c: "fill b = Some c" "reader_inv c"
      using fill_stream [OF inv more(2)] more(3) by (metis capacity_def)
    with res more have "ReadSlice_loop delim c = Some ((line, Some ErrBufferFull), b')"
      by (subst (asm) ReadSlice_loop.simps) simp
    with 1(1) [OF more(1)] more c show ?thesis by simp
  qed
qed

lemma ReadLine_spec:
  assumes inv: "reader_inv b"
  shows "\<exists>b'. ReadLine b = Some (fst (line_spec (capacity b) (pending b)), b') \<and>
    pending b' = snd (line_spec (capacity b) (pending b)) \<and> reader_inv b' \<and> capacity b' = capacity b"
proof -
  obtain line err rest where spec: "slice_spec (capacity b) (CHR 0x0A) (pending b) = ((line, err), rest)"
    by (metis surj_pair)
  then obtain c where c: "ReadSlice_loop (CHR 0x0A) b = Some ((line, err), c)" "pending c = rest" "reader_inv c"
    "capacity c = capacity b"
    using ReadSlice_loop_spec [OF inv, of "CHR 0x0A"] by (auto simp: implements_def)
  then have slice: "ReadSlice (CHR 0x0A) b = Some ((line, err), note_last line c)" by (simp add: ReadSlice_def)
  show ?thesis
  proof (cases "err = Some ErrBufferFull")
    case False
    with c slice spec show ?thesis by (auto simp: ReadLine_def line_spec_def)
  next
    case True
    have full: "line = R_buf c" "R_r c = R_w c" "R_w c = length (R_buf c)" "R_err c = None"
      using ReadSlice_loop_full [OF inv] c(1) True by auto
    have "R_buf c \<noteq> []" and pos: "Suc 0 \<le> length (R_buf c) - (length (R_buf c) - Suc 0)"
      using c(3) by (auto simp: reader_inv_def Suc_le_eq simp flip: length_greater_0_conv)
    then have undo: "pending (c'\<lparr>R_r := R_r c' - 1\<rparr>) = last line # pending c'" "reader_inv (c'\<lparr>R_r := R_r c' - 1\<rparr>)"
      if "c' = note_last line c" for c'
      using that full c(3) pos by (simp_all add: pending_def window_def reader_inv_def Buffered_def drop_to_last)
    show ?thesis
    proof (cases "last line = CHR 0x0D")
      case cr: True
      have "line \<noteq> []" "R_r (note_last line c) \<noteq> 0" using full \<open>R_buf c \<noteq> []\<close> by auto
      with undo [OF refl] cr True c slice spec show ?thesis
        by (auto simp: ReadLine_def line_spec_def capacity_def)
    next
      case False
      with True c slice spec show ?thesis by (auto simp: ReadLine_def line_spec_def)
    qed
  qed
qed

lemma ReadN_spec:
  "reader_inv b \<Longrightarrow> implements (count_spec (capacity b) k (pending b)) b (ReadN (int k) b)"
  by (simp add: ReadN_def ReadN_loop_spec)

text \<open>A Read gives some bytes, as long as there are any; how many depends on the pieces.\<close>

lemma Read_window_spec:
  assumes "reader_inv b" "0 < k" "R_r b < R_w b"
  shows "\<exists>bs b'. Read_window k b = ((bs, None), b') \<and> bs \<noteq> [] \<and> length bs \<le> k \<and> pending b = bs @ pending b' \<and>
    reader_inv b' \<and> capacity b' = capacity b"
proof -
  let ?bs = "take k (window b)" and ?c = "b\<lparr>R_r := R_r b + length (take k (window b))\<rparr>"
  have w: "length (window b) = R_w b - R_r b" using window_bounds [OF assms(1)] by (simp add: Buffered_def)
  then have bs: "?bs \<noteq> []" using assms(2,3) by (cases k) auto
  have adv: "reader_inv ?c" "pending ?c = drop (length ?bs) (pending b)"
    using advance_inv [OF assms(1), of "length ?bs"] by auto
  have "take (length ?bs) (pending b) = ?bs" by (simp add: pending_def min_def)
  then have split: "pending b = ?bs @ drop (length ?bs) (pending b)" using append_take_drop_id by metis
  let ?d = "?c\<lparr>R_lastByte := int (byte (R_buf ?c ! (R_r ?c - 1))), R_lastRuneSize := - 1\<rparr>"
  have d: "pending ?d = pending ?c" "reader_inv ?d = reader_inv ?c" "capacity ?d = capacity b"
    by (simp_all add: pending_def reader_inv_def capacity_def Buffered_def)
  have "Read_window k b = ((?bs, None), ?d)" by (simp add: Read_window_def Let_def)
  moreover have "length ?bs \<le> k" by simp
  moreover have "pending b = ?bs @ pending ?d" using split adv(2) d(1) by simp
  ultimately show ?thesis using bs adv(1) d(2,3) by blast
qed

lemma Read_spec:
  assumes inv: "reader_inv b" and k: "0 < k"
  shows "\<exists>bs err b'. Read k b = Some ((bs, err), b') \<and> length bs \<le> k \<and> pending b = bs @ pending b' \<and>
    reader_inv b' \<and> capacity b' = capacity b \<and>
    (if pending b = [] then bs = [] \<and> err = Some EOF else bs \<noteq> [] \<and> err = None)"
proof -
  consider (data) "R_r b < R_w b" | (ended) "R_r b = R_w b" "R_err b \<noteq> None"
    | (direct) "R_r b = R_w b" "R_err b = None" "k \<ge> length (R_buf b)"
    | (fill) "R_r b = R_w b" "R_err b = None" "k < length (R_buf b)"
    using inv by (force simp: reader_inv_def)
  then show ?thesis
  proof cases
    case data
    from Read_window_spec [OF inv k data] obtain bs b' where "Read_window k b = ((bs, None), b')" "bs \<noteq> []"
      "length bs \<le> k" "pending b = bs @ pending b'" "reader_inv b'" "capacity b' = capacity b" by blast
    with data k show ?thesis by (auto simp: Read_def)
  next
    case ended
    then have "R_err b = Some EOF" "pending b = []" using inv by (auto simp: reader_inv_def pending_def window_def)
    with ended k inv show ?thesis
      by (auto simp: Read_def readErr_def pending_def reader_inv_def capacity_def window_def)
  next
    case direct
    then have empty: "window b = []" by (simp add: window_def)
    have calm: "calm (R_src b)" using inv by (simp add: reader_inv_def)
    show ?thesis
    proof (cases "R_src b")
      case Nil
      with direct k inv empty show ?thesis
        by (auto simp: Read_def pending_def reader_inv_def capacity_def window_def)
    next
      case (Cons p src)
      then obtain bs src' where r: "src_read k (R_src b) = ((bs, None), src')" "bs \<noteq> []" "length bs \<le> k"
        "calm src'" "stream_of (R_src b) = bs @ stream_of src'"
        using src_read_calm [OF calm k] by (metis list.distinct(1))
      with direct k inv empty show ?thesis
        by (auto simp: Read_def pending_def reader_inv_def capacity_def window_def Buffered_def)
    qed
  next
    case fill
    then have "Buffered b < capacity b" using inv by (auto simp: Buffered_def capacity_def reader_inv_def)
    from fill_stream [OF inv fill(2) this] obtain c where c: "Bufio.fill b = Some c" "reader_inv c"
      "pending c = pending b" "capacity c = capacity b" "R_src b = [] \<Longrightarrow> R_err c = Some EOF \<and> window c = window b"
      "R_src b \<noteq> [] \<Longrightarrow> R_r c < R_w c" by blast
    have empty: "window b = []" using fill(1) by (simp add: window_def)
    have nil: "pending b = [] \<longleftrightarrow> R_src b = []"
      using calm_stream [of "R_src b"] inv empty by (simp add: pending_def reader_inv_def)
    show ?thesis
    proof (cases "R_w c = R_r c")
      case True
      then have "R_src b = []" using c(6) by auto
      with True c nil fill k show ?thesis
        by (auto simp: Read_def readErr_def pending_def reader_inv_def capacity_def window_def)
    next
      case False
      then have "R_r c < R_w c" using c(2) by (auto simp: reader_inv_def)
      moreover from this have "window c \<noteq> []" using window_bounds [OF c(2)] by (auto simp: Buffered_def)
      then have "pending c \<noteq> []" by (simp add: pending_def)
      then have "pending b \<noteq> []" using c(3) by simp
      moreover obtain bs b' where "Read_window k c = ((bs, None), b')" "bs \<noteq> []"
        "length bs \<le> k" "pending c = bs @ pending b'" "reader_inv b'" "capacity b' = capacity c"
        using Read_window_spec [OF c(2) k \<open>R_r c < R_w c\<close>] by blast
      ultimately show ?thesis using False c fill k by (auto simp: Read_def)
    qed
  qed
qed

section \<open>What the parser of replies relies on\<close>

locale line_source =
  fixes bytes :: "'b \<Rightarrow> string"
    and inv :: "'b \<Rightarrow> bool"
    and room :: "'b \<Rightarrow> nat"
    and line :: "'b \<Rightarrow> ((string \<times> bool \<times> io_error option) \<times> 'b) option"
    and count :: "int \<Rightarrow> 'b \<Rightarrow> ((string \<times> io_error option) \<times> 'b) option"
  assumes line_law: "inv b \<Longrightarrow> \<exists>b'. line b = Some (fst (line_spec (room b) (bytes b)), b') \<and>
      bytes b' = snd (line_spec (room b) (bytes b)) \<and> inv b' \<and> room b' = room b"
    and count_law: "inv b \<Longrightarrow> \<exists>b'. count (int k) b = Some (fst (count_spec (room b) k (bytes b)), b') \<and>
      bytes b' = snd (count_spec (room b) k (bytes b)) \<and> inv b' \<and> room b' = room b"

context line_source begin

text \<open>A line that fits is read whole, without its end.\<close>

lemma whole_line:
  assumes "inv b" "bytes b = l @ CHR 0x0D # CHR 0x0A # rest" "CHR 0x0A \<notin> set l" "length l + 2 \<le> room b"
  obtains b' where "line b = Some ((l, False, None), b')" "bytes b' = rest" "inv b'" "room b' = room b"
proof -
  let ?t = "l @ [CHR 0x0D, CHR 0x0A]"
  have "index_byte (CHR 0x0A) (take (room b) (bytes b)) = Some (length (l @ [CHR 0x0D]))"
  proof -
    have "take (room b) (bytes b) = (l @ [CHR 0x0D]) @ CHR 0x0A # take (room b - (length l + 2)) rest"
      using assms(2,4) by (simp add: take_Cons' numeral_2_eq_2)
    then show ?thesis using index_byte_first [of "CHR 0x0A" "l @ [CHR 0x0D]"] assms(3) by simp
  qed
  then have "slice_spec (room b) (CHR 0x0A) (bytes b) = ((?t, None), rest)"
    using assms(2) by (simp add: slice_spec_def)
  then have "line_spec (room b) (bytes b) = ((l, False, None), rest)"
    by (simp add: line_spec_def strip_eol_def nth_append)
  with line_law [OF assms(1)] that show thesis by auto
qed

text \<open>A count of bytes that are there and fit is read exactly.\<close>

lemma exact:
  assumes "inv b" "bytes b = bs @ rest" "length bs \<le> room b"
  obtains b' where "count (int (length bs)) b = Some ((bs, None), b')" "bytes b' = rest" "inv b'" "room b' = room b"
  using count_law [OF assms(1), of "length bs"] assms(2,3) that by (auto simp: count_spec_def)

text \<open>More than the buffer holds is given in part, with the error that says so.\<close>

lemma overfull:
  assumes "inv b" "room b \<le> length (bytes b)" "room b < k"
  obtains b' where "count (int k) b = Some ((take (room b) (bytes b), Some ErrBufferFull), b')"
    "bytes b' = drop (room b) (bytes b)" "inv b'" "room b' = room b"
  using count_law [OF assms(1), of k] assms(2,3) that by (auto simp: count_spec_def)

end

interpretation bufio: line_source pending reader_inv capacity ReadLine ReadN
  by unfold_locales (use ReadLine_spec ReadN_spec in \<open>auto simp: implements_def\<close>)

lemma NewReaderSize_inv [simp]:
  "calm src \<Longrightarrow> reader_inv (NewReaderSize src n)"
  "pending (NewReaderSize src n) = stream_of src"
  by (auto simp: NewReaderSize_def reset_reader_def reader_inv_def pending_def window_def minReadBufferSize_def
      Buffered_def)

lemma NewReaderSize_capacity: "capacity (NewReaderSize src n) = nat (max 16 n)"
  by (simp add: NewReaderSize_def reset_reader_def capacity_def minReadBufferSize_def max_def)

end
