(* ===== verification/GoFmt.thy ===== *)
theory GoFmt
  imports Utf8
begin

text \<open>
  \<open>fmt.Sprintf\<close> of Go 1.7 on a format without arguments, which is what the redis client makes of
  every error text that the server sends: a text without a percent sign is itself, a verb is
  reported as missing its argument.
\<close>

text \<open>\<open>parsenum\<close>: whether there is a number, and what follows; a number beyond a million ends the scan.\<close>

fun parse_num :: "nat \<Rightarrow> bool \<Rightarrow> string \<Rightarrow> bool \<times> string" where
  "parse_num n ok [] = (ok, [])"
| "parse_num n ok (c # s) =
     (if is_digit c then (if n > 1000000 then (False, []) else parse_num (10 * n + digit_val c) True s)
      else (ok, c # s))"

text \<open>\<open>parseArgNumber\<close> on a text that begins with a bracket: its width, and whether it is an index.\<close>

definition parse_arg_number :: "string \<Rightarrow> nat \<times> bool" where
  "parse_arg_number s =
     (let inner = takeWhile (\<lambda>c. c \<noteq> CHR '']'') (tl s)
      in if length s < 3 \<or> length inner = length (tl s) then (1, False)
         else (length inner + 2, case parse_num 0 False inner of (ok, rest) \<Rightarrow> ok \<and> rest = []))"

text \<open>\<open>argNumber\<close> with no arguments: the rest, whether an index was read, whether it was absent.\<close>

definition arg_number :: "string \<Rightarrow> string \<times> bool \<times> bool" where
  "arg_number s =
     (if s \<noteq> [] \<and> hd s = CHR ''['' then (case parse_arg_number s of (wid, ok) \<Rightarrow> (drop wid s, ok, False))
      else (s, False, True))"

text \<open>A width or a precision: the text written, the rest, whether it was a number, whether a star.\<close>

definition star_or_num :: "string \<Rightarrow> string \<Rightarrow> string \<times> string \<times> bool \<times> bool" where
  "star_or_num bad s =
     (if s \<noteq> [] \<and> hd s = CHR ''*'' then (bad, tl s, False, True)
      else (case parse_num 0 False s of (ok, rest) \<Rightarrow> ([], rest, ok, False)))"

text \<open>
  The parts of a verb, from after its flags: each takes the rest of the format, whether an index
  was just read, and whether no index was bad so far.
\<close>

definition verb_width :: "string \<Rightarrow> bool \<Rightarrow> bool \<Rightarrow> string \<times> string \<times> bool \<times> bool" where
  "verb_width s after good =
     (case star_or_num ''%!(BADWIDTH)'' s of (out, s, num, star) \<Rightarrow>
        (out, s, after \<and> \<not> star, good \<and> \<not> (after \<and> num)))"

definition verb_precision :: "string \<Rightarrow> bool \<Rightarrow> bool \<Rightarrow> string \<times> string \<times> bool \<times> bool" where
  "verb_precision s after good =
     (if length s > 1 \<and> hd s = CHR ''.'' then
        (case arg_number (tl s) of (s, after', absent) \<Rightarrow>
           (case star_or_num ''%!(BADPREC)'' s of (out, s, num, star) \<Rightarrow>
              (out, s, after' \<and> \<not> star, good \<and> \<not> after \<and> absent)))
      else ([], s, after, good))"

definition verb_letter :: "string \<Rightarrow> bool \<Rightarrow> bool \<Rightarrow> string \<times> string" where
  "verb_letter s after good =
     (case (if after then (s, False, True) else arg_number s) of (s, _, absent) \<Rightarrow>
        if s = [] then (''%!(NOVERB)'', [])
        else (case decode_rune s of (verb, n) \<Rightarrow>
          (if verb = 37 then ''%''
           else ''%!'' @ encode_rune verb @ (if good \<and> absent then ''(MISSING)'' else ''(BADINDEX)''), drop n s)))"

definition skip_flags :: "string \<Rightarrow> string" where
  "skip_flags s = dropWhile (\<lambda>c. c \<in> set ''#0+- '') s"

text \<open>One verb, from after the percent sign: what is written and what is left of the format.\<close>

definition one_verb :: "string \<Rightarrow> string \<times> string" where
  "one_verb s0 =
     (case arg_number (skip_flags s0) of (s, after, good) \<Rightarrow>
        case verb_width s after good of (w, s, after, good) \<Rightarrow>
        case verb_precision s after good of (p, s, after, good) \<Rightarrow>
        case verb_letter s after good of (v, s) \<Rightarrow> (w @ p @ v, s))"

lemma length_parse_num: "length (snd (parse_num n ok s)) \<le> length s"
  by (induction n ok s rule: parse_num.induct) auto

lemma length_arg_number: "arg_number s = (t, x) \<Longrightarrow> length t \<le> length s"
  by (auto simp: arg_number_def split: prod.splits if_splits)

lemma length_star_or_num: "star_or_num bad s = (out, t, x) \<Longrightarrow> length t \<le> length s"
  using length_parse_num [of 0 False s] by (auto simp: star_or_num_def split: prod.splits if_splits)

lemma length_verb_width: "verb_width s after good = (out, t, x) \<Longrightarrow> length t \<le> length s"
  by (auto simp: verb_width_def dest: length_star_or_num split: prod.splits)

lemma length_verb_precision: "verb_precision s after good = (out, t, x) \<Longrightarrow> length t \<le> length s"
  by (auto simp: verb_precision_def dest!: length_star_or_num length_arg_number split: prod.splits if_splits)

lemma length_verb_letter: "verb_letter s after good = (out, t) \<Longrightarrow> length t \<le> length s"
  by (auto simp: verb_letter_def dest!: length_arg_number split: prod.splits if_splits)

lemma length_one_verb: "length (snd (one_verb s)) \<le> length s"
proof -
  let ?s = "skip_flags s"
  obtain s1 a1 g1 where 1: "arg_number ?s = (s1, a1, g1)" by (metis surj_pair)
  obtain w s2 a2 g2 where 2: "verb_width s1 a1 g1 = (w, s2, a2, g2)" by (metis surj_pair)
  obtain p s3 a3 g3 where 3: "verb_precision s2 a2 g2 = (p, s3, a3, g3)" by (metis surj_pair)
  obtain v s4 where 4: "verb_letter s3 a3 g3 = (v, s4)" by (metis surj_pair)
  have "length ?s \<le> length s" unfolding skip_flags_def by (rule length_dropWhile_le)
  with length_arg_number [OF 1] length_verb_width [OF 2] length_verb_precision [OF 3] length_verb_letter [OF 4]
  show ?thesis by (simp add: one_verb_def 1 2 3 4)
qed

function sprintf0 :: "string \<Rightarrow> string" where
  "sprintf0 s =
     (case dropWhile (\<lambda>c. c \<noteq> CHR ''%'') s of
        [] \<Rightarrow> s
      | _ # v \<Rightarrow> takeWhile (\<lambda>c. c \<noteq> CHR ''%'') s @ fst (one_verb v) @ sprintf0 (snd (one_verb v)))"
  by pat_completeness auto
termination
proof (relation "measure length")
  fix s c v
  assume "dropWhile (\<lambda>c. c \<noteq> CHR ''%'') s = c # v"
  then have "Suc (length v) \<le> length s" by (metis length_Cons length_dropWhile_le)
  then show "(snd (one_verb v), s) \<in> measure length" using length_one_verb [of v] by simp
qed simp

declare sprintf0.simps [simp del]

lemma sprintf0_plain: "CHR ''%'' \<notin> set s \<Longrightarrow> sprintf0 s = s"
proof -
  assume "CHR ''%'' \<notin> set s"
  then have "dropWhile (\<lambda>c. c \<noteq> CHR ''%'') s = []" by (simp add: dropWhile_eq_Nil_conv) metis
  then show ?thesis by (subst sprintf0.simps) (simp only: list.case)
qed

end
