(* ===== verification/Resp.thy ===== *)
theory Resp
  imports BufioStream GoFmt
begin

text \<open>
  The Redis protocol of the vendored client (redis.v3/parser.go, error.go): \<open>appendArgs\<close> writes a
  command, \<open>parseReq\<close> and \<open>parseReply\<close> read from a bufio Reader. A failed type assertion, an index
  out of range and a length that make refuses are \<open>None\<close>.
\<close>

section \<open>Errors\<close>

text \<open>The texts of the errors that no code looks at are not spelled out.\<close>

datatype redis_error =
    RedisError string            \<comment> \<open>redisError, what the server says\<close>
  | ReadError io_error
  | ReaderTooSmall
  | BadNumber string             \<comment> \<open>strconv\<close>
  | CantParse string
  | ExpectedBulk string
  | ExpectedType string
  | ClientError string           \<comment> \<open>errors of the client itself\<close>

definition errorf :: "string \<Rightarrow> redis_error" where
  "errorf s = RedisError (sprintf0 s)"

text \<open>Errors are compared as values, so Nil is any error of the server with this text.\<close>

definition Nil_error :: redis_error where "Nil_error = RedisError ''redis: nil''"
definition TxFailedErr :: redis_error where "TxFailedErr = RedisError ''redis: transaction failed''"

definition isNetworkError :: "redis_error \<Rightarrow> bool" where
  "isNetworkError err =
     (case err of ReadError EOF \<Rightarrow> True | ReadError (ConnError timeout) \<Rightarrow> True | _ \<Rightarrow> False)"

definition shouldRetry :: "redis_error option \<Rightarrow> bool" where
  "shouldRetry err = (case err of None \<Rightarrow> False | Some e \<Rightarrow> isNetworkError e)"

text \<open>\<open>strings.SplitN(s, " ", 3)\<close> has three parts only when there are two spaces.\<close>

definition split3 :: "string \<Rightarrow> (string \<times> string \<times> string) option" where
  "split3 s =
     (case dropWhile (\<lambda>c. c \<noteq> CHR '' '') s of
        [] \<Rightarrow> None
      | _ # r \<Rightarrow> (case dropWhile (\<lambda>c. c \<noteq> CHR '' '') r of
          [] \<Rightarrow> None
        | _ # t \<Rightarrow> Some (takeWhile (\<lambda>c. c \<noteq> CHR '' '') s, takeWhile (\<lambda>c. c \<noteq> CHR '' '') r, t)))"

definition isMovedError :: "redis_error \<Rightarrow> bool \<times> bool \<times> string" where
  "isMovedError err =
     (case err of
        RedisError s \<Rightarrow>
          (case split3 s of
             None \<Rightarrow> (False, False, [])
           | Some (what, _, addr) \<Rightarrow>
               if what = ''MOVED'' then (True, False, addr)
               else if what = ''ASK'' then (False, True, addr)
               else (False, False, []))
      | _ \<Rightarrow> (False, False, []))"

section \<open>Writing a command\<close>

abbreviation crlf :: string where "crlf \<equiv> [CHR 0x0D, CHR 0x0A]"

fun append_each :: "string \<Rightarrow> string list \<Rightarrow> string" where
  "append_each buf [] = buf"
| "append_each buf (arg # args) =
     append_each (buf @ ''$'' @ show_nat (length arg) @ crlf @ arg @ crlf) args"

definition appendArgs :: "string \<Rightarrow> string list \<Rightarrow> string" where
  "appendArgs buf args = append_each (buf @ ''*'' @ show_nat (length args) @ crlf) args"

section \<open>Reading lines and counted bytes\<close>

type_synonym 'a read = "((redis_error + 'a) \<times> Reader) option"

definition readLine :: "Reader \<Rightarrow> string read" where
  "readLine rd = do {
     ((line, isPrefix, err), rd) \<leftarrow> ReadLine rd;
     Some (case err of
         Some e \<Rightarrow> (Inl (ReadError e), rd)
       | None \<Rightarrow> (if isPrefix then Inl ReaderTooSmall else Inr line, rd))
   }"

text \<open>
  \<open>make\<close> of a slice panics at a negative count and at one whose elements, of \<open>elem\<close> bytes, do not fit into
  the address space of Go 1.7 on 64 bits. (A count below that may still be more than the memory of the
  machine, which ends the process and is no behaviour of the program.)
\<close>

definition makes :: "int \<Rightarrow> int \<Rightarrow> bool" where
  "makes elem n \<longleftrightarrow> 0 \<le> n \<and> n \<le> (2 ^ 39 - 1) div elem"

text \<open>The bytes got so far are the argument; an error with the last of them is ignored.\<close>

partial_function (option) readN_rest :: "string \<Rightarrow> nat \<Rightarrow> Reader \<Rightarrow> string read" where
  [code]: "readN_rest acc n rd =
     Option.bind (Read (n - length acc) rd) (\<lambda>((bs, err), rd).
       if length acc + length bs \<ge> n then Some (Inr (acc @ bs), rd)
       else case err of
         Some e \<Rightarrow> Some (Inl (ReadError e), rd)
       | None \<Rightarrow> readN_rest (acc @ bs) n rd)"

definition readN :: "Reader \<Rightarrow> int \<Rightarrow> string read" where
  "readN rd n = do {
     ((b, err), rd) \<leftarrow> ReadN n rd;
     (if err = Some ErrBufferFull then (if makes 1 n then readN_rest b (nat n) rd else None)
      else case err of Some e \<Rightarrow> Some (Inl (ReadError e), rd) | None \<Rightarrow> Some (Inr b, rd))
   }"

text \<open>An \<open>int\<close> sum of 64 bits.\<close>

definition add_int :: "int \<Rightarrow> int \<Rightarrow> int" where
  "add_int a b = sint (word_of_int (a + b) :: int64)"

definition parse_int32 :: "string \<Rightarrow> int option" where
  "parse_int32 s =
     (case parse_int64 s of Some i \<Rightarrow> if - (2 ^ 31) \<le> i \<and> i < 2 ^ 31 then Some i else None | None \<Rightarrow> None)"

text \<open>\<open>string(b[:n])\<close>, for a length that the server sent.\<close>

definition read_bulk :: "Reader \<Rightarrow> int \<Rightarrow> string read" where
  "read_bulk rd n = do {
     (r, rd) \<leftarrow> readN rd (add_int n 2);
     (case r of
        Inl e \<Rightarrow> Some (Inl e, rd)
      | Inr b \<Rightarrow> if n < 0 then None else Some (Inr (take (nat n) b), rd))
   }"

section \<open>Requests\<close>

fun parse_req_args :: "nat \<Rightarrow> string list \<Rightarrow> Reader \<Rightarrow> string list read" where
  "parse_req_args 0 args rd = Some (Inr args, rd)"
| "parse_req_args (Suc n) args rd = do {
     (line, rd) \<leftarrow> readLine rd;
     (case line of
        Inl e \<Rightarrow> Some (Inl e, rd)
      | Inr [] \<Rightarrow> None
      | Inr (c # len) \<Rightarrow>
          if c \<noteq> CHR ''$'' then Some (Inl (ExpectedBulk (c # len)), rd)
          else case parse_int32 len of
            None \<Rightarrow> Some (Inl (BadNumber len), rd)
          | Some argLen \<Rightarrow> do {
              (arg, rd) \<leftarrow> read_bulk rd argLen;
              (case arg of
                 Inl e \<Rightarrow> Some (Inl e, rd)
               | Inr arg \<Rightarrow> parse_req_args n (args @ [arg]) rd)
            })
   }"

definition parseReq :: "Reader \<Rightarrow> string list read" where
  "parseReq rd = do {
     (line, rd) \<leftarrow> readLine rd;
     (case line of
        Inl e \<Rightarrow> Some (Inl e, rd)
      | Inr [] \<Rightarrow> None
      | Inr (c # num) \<Rightarrow>
          if c \<noteq> CHR ''*'' then Some (Inr [c # num], rd)
          else case parse_int64 num of
            None \<Rightarrow> Some (Inl (BadNumber num), rd)
          | Some numReplies \<Rightarrow>
              if makes 16 numReplies then parse_req_args (nat numReplies) [] rd else None)
   }"

section \<open>Replies\<close>

text \<open>What parseReply gives: a string, an integer, or what the parser of the elements gives.\<close>

datatype 'm reply = StrReply string | IntReply int | MultiReply 'm

type_synonym 'm bulk_parser = "int \<Rightarrow> Reader \<Rightarrow> 'm read"

definition is_minus_one :: "string \<Rightarrow> bool" where
  "is_minus_one num \<longleftrightarrow> num = ''-1''"

text \<open>A nil parser is called as any other, and that panics.\<close>

definition parseReply :: "'m bulk_parser option \<Rightarrow> Reader \<Rightarrow> 'm reply read" where
  "parseReply p rd = do {
     (line, rd) \<leftarrow> readLine rd;
     (case line of
        Inl e \<Rightarrow> Some (Inl e, rd)
      | Inr [] \<Rightarrow> None
      | Inr (c # r) \<Rightarrow>
          if c = CHR ''-'' then Some (Inl (errorf r), rd)
          else if c = CHR ''+'' then Some (Inr (StrReply r), rd)
          else if c = CHR '':'' then
            (case parse_int64 r of None \<Rightarrow> Some (Inl (BadNumber r), rd) | Some v \<Rightarrow> Some (Inr (IntReply v), rd))
          else if c = CHR ''$'' then
            (if is_minus_one r then Some (Inl Nil_error, rd)
             else case parse_int64 r of
               None \<Rightarrow> Some (Inl (BadNumber r), rd)
             | Some replyLen \<Rightarrow> do {
                 (b, rd) \<leftarrow> read_bulk rd replyLen;
                 Some (map_sum id StrReply b, rd)
               })
          else if c = CHR ''*'' then
            (if is_minus_one r then Some (Inl Nil_error, rd)
             else case parse_int64 r of
               None \<Rightarrow> Some (Inl (BadNumber r), rd)
             | Some repliesNum \<Rightarrow>
                 (case p of
                    None \<Rightarrow> None
                  | Some p \<Rightarrow> do {
                      (m, rd) \<leftarrow> p repliesNum rd;
                      Some (map_sum id MultiReply m, rd)
                    }))
          else Some (Inl (CantParse (c # r)), rd))
   }"

subsection \<open>Slices of anything\<close>

datatype gval = VNil | VStr string | VInt int | VSlice "gval list"

definition gval_of :: "gval list reply \<Rightarrow> gval" where
  "gval_of r = (case r of StrReply s \<Rightarrow> VStr s | IntReply i \<Rightarrow> VInt i | MultiReply vs \<Rightarrow> VSlice vs)"

fun slice_loop :: "(Reader \<Rightarrow> gval list reply read) \<Rightarrow> nat \<Rightarrow> gval list \<Rightarrow> Reader \<Rightarrow> gval list read" where
  "slice_loop p 0 vals rd = Some (Inr vals, rd)"
| "slice_loop p (Suc n) vals rd = do {
     (v, rd) \<leftarrow> p rd;
     (case v of
        Inl e \<Rightarrow> if e = Nil_error then slice_loop p n (vals @ [VNil]) rd else Some (Inl e, rd)
      | Inr v \<Rightarrow> slice_loop p n (vals @ [gval_of v]) rd)
   }"

text \<open>
  The elements are read with parseSlice itself. The first argument bounds the nesting; a level
  needs a line of its own, so the bytes still to come are enough levels.
\<close>

fun parse_slice_to :: "nat \<Rightarrow> gval list bulk_parser" where
  "parse_slice_to 0 n rd = None"
| "parse_slice_to (Suc d) n rd =
     (if makes 16 n then slice_loop (parseReply (Some (parse_slice_to d))) (nat n) [] rd else None)"

definition parseSlice :: "gval list bulk_parser" where
  "parseSlice n rd = parse_slice_to (Suc (length (pending rd))) n rd"

subsection \<open>The typed slices and maps\<close>

definition no_bulk :: "unit bulk_parser option" where "no_bulk = None"

fun string_loop :: "nat \<Rightarrow> string list \<Rightarrow> Reader \<Rightarrow> string list read" where
  "string_loop 0 vals rd = Some (Inr vals, rd)"
| "string_loop (Suc n) vals rd = do {
     (v, rd) \<leftarrow> parseReply no_bulk rd;
     (case v of
        Inl e \<Rightarrow> Some (Inl e, rd)
      | Inr (StrReply s) \<Rightarrow> string_loop n (vals @ [s]) rd
      | Inr _ \<Rightarrow> Some (Inl (ExpectedType ''string''), rd))
   }"

definition parseStringSlice :: "string list bulk_parser" where
  "parseStringSlice n rd = (if makes 16 n then string_loop (nat n) [] rd else None)"

fun bool_loop :: "nat \<Rightarrow> bool list \<Rightarrow> Reader \<Rightarrow> bool list read" where
  "bool_loop 0 vals rd = Some (Inr vals, rd)"
| "bool_loop (Suc n) vals rd = do {
     (v, rd) \<leftarrow> parseReply no_bulk rd;
     (case v of
        Inl e \<Rightarrow> Some (Inl e, rd)
      | Inr (IntReply i) \<Rightarrow> bool_loop n (vals @ [i = 1]) rd
      | Inr _ \<Rightarrow> Some (Inl (ExpectedType ''int64''), rd))
   }"

definition parseBoolSlice :: "bool list bulk_parser" where
  "parseBoolSlice n rd = (if makes 1 n then bool_loop (nat n) [] rd else None)"

text \<open>
  The loops over pairs count by two, so an odd number of elements reads one pair more than it
  has; \<open>make\<close> with a hint that is negative or beyond 32 bits panics.
\<close>

definition pairs_of :: "int \<Rightarrow> nat" where
  "pairs_of n = nat ((n + 1) div 2)"

definition bad_hint :: "int \<Rightarrow> bool" where
  "bad_hint n \<longleftrightarrow> n sdiv 2 < 0 \<or> n sdiv 2 \<ge> 2 ^ 31"

definition read_string :: "Reader \<Rightarrow> string read" where
  "read_string rd = do {
     (v, rd) \<leftarrow> parseReply no_bulk rd;
     Some (case v of
         Inl e \<Rightarrow> (Inl e, rd)
       | Inr (StrReply s) \<Rightarrow> (Inr s, rd)
       | Inr _ \<Rightarrow> (Inl (ExpectedType ''string''), rd))
   }"

definition read_number :: "Reader \<Rightarrow> int read" where
  "read_number rd = do {
     (v, rd) \<leftarrow> parseReply no_bulk rd;
     Some (case v of
         Inl e \<Rightarrow> (Inl e, rd)
       | Inr (IntReply i) \<Rightarrow> (Inr i, rd)
       | Inr (StrReply s) \<Rightarrow> ((case parse_int64 s of Some i \<Rightarrow> Inr i | None \<Rightarrow> Inl (ExpectedType ''number'')), rd)
       | Inr (MultiReply _) \<Rightarrow> (Inl (ExpectedType ''number or string''), rd))
   }"

text \<open>\<open>n\<close> pairs of a key and a value, each with a reader of its own, given to \<open>f\<close> one by one.\<close>

fun pair_loop :: "(Reader \<Rightarrow> 'v read) \<Rightarrow> (string \<Rightarrow> 'v \<Rightarrow> 'm \<Rightarrow> 'm) \<Rightarrow> nat \<Rightarrow> 'm \<Rightarrow> Reader \<Rightarrow> 'm read" where
  "pair_loop value f 0 m rd = Some (Inr m, rd)"
| "pair_loop value f (Suc n) m rd = do {
     (k, rd) \<leftarrow> read_string rd;
     (case k of
        Inl e \<Rightarrow> Some (Inl e, rd)
      | Inr k \<Rightarrow> do {
          (v, rd) \<leftarrow> value rd;
          (case v of
             Inl e \<Rightarrow> Some (Inl e, rd)
           | Inr v \<Rightarrow> pair_loop value f n (f k v m) rd)
        })
   }"

definition parseStringStringMap :: "(string \<rightharpoonup> string) bulk_parser" where
  "parseStringStringMap n rd =
     (if bad_hint n then None else pair_loop read_string (\<lambda>k v m. m(k \<mapsto> v)) (pairs_of n) Map.empty rd)"

definition parseStringIntMap :: "(string \<rightharpoonup> int) bulk_parser" where
  "parseStringIntMap n rd =
     (if bad_hint n then None else pair_loop read_number (\<lambda>k v m. m(k \<mapsto> v)) (pairs_of n) Map.empty rd)"

text \<open>
  A float64 is a value of \<open>'f\<close>, read by \<open>strconv.ParseFloat\<close>, a parameter. The slice is made with
  \<open>n/2\<close> elements, so the last element of an odd number of them is out of range.
\<close>

definition read_score :: "(string \<Rightarrow> 'f option) \<Rightarrow> Reader \<Rightarrow> 'f read" where
  "read_score parse_float rd = do {
     (s, rd) \<leftarrow> read_string rd;
     Some (case s of
         Inl e \<Rightarrow> (Inl e, rd)
       | Inr s \<Rightarrow> ((case parse_float s of None \<Rightarrow> Inl (BadNumber s) | Some f \<Rightarrow> Inr f), rd))
   }"

definition parseZSlice :: "(string \<Rightarrow> 'f option) \<Rightarrow> (string \<times> 'f) list bulk_parser" where
  "parseZSlice parse_float n rd =
     (if \<not> makes 24 (n sdiv 2) then None
      else do {
        (zz, rd) \<leftarrow> pair_loop (read_score parse_float) (\<lambda>m f zz. zz @ [(m, f)]) (nat (n div 2)) [] rd;
        (case zz of
           Inl e \<Rightarrow> Some (Inl e, rd)
         | Inr zz \<Rightarrow> if odd n \<and> 0 < n then None else Some (Inr zz, rd))
      })"

end
