(* ===== verification/RedisCmd.thy ===== *)
theory RedisCmd
  imports Resp
begin

text \<open>
  The commands of the vendored redis client as values (redis.v3/command.go): what every command
  has in common, the typed result of each kind, its constructor, its reset and how it takes its
  result from a reply. A failed type assertion is \<open>None\<close>. float64 and the part of strconv that
  reads and writes it are a parameter, a record of operations on a type \<open>'f\<close>.
\<close>

record 'f floats =
  F_zero :: 'f
  F_is_zero :: "'f \<Rightarrow> bool"
  F_parse :: "string \<Rightarrow> 'f \<times> bool"      \<comment> \<open>strconv.ParseFloat(s, 64); True: with an error\<close>
  F_format :: "'f \<Rightarrow> string"             \<comment> \<open>strconv.FormatFloat(f, 'f', -1, 64)\<close>

definition parse_float :: "'f floats \<Rightarrow> string \<Rightarrow> 'f option" where
  "parse_float fl s = (case F_parse fl s of (f, failed) \<Rightarrow> if failed then None else Some f)"

section \<open>Commands\<close>

record ClusterSlotInfo =
  Slot_Start :: int
  Slot_End :: int
  Slot_Addrs :: "string list"

text \<open>The kinds of command, each with its value; a DurationCmd has its precision first.\<close>

datatype 'f cmd_val =
    AnyVal gval
  | SliceVal "gval list"
  | StatusVal string
  | IntVal int
  | DurationVal int int
  | BoolVal bool
  | StringVal string
  | FloatVal 'f
  | StringSliceVal "string list"
  | BoolSliceVal "bool list"
  | StringStringMapVal "string \<rightharpoonup> string"
  | StringIntMapVal "string \<rightharpoonup> int"
  | ZSliceVal "(string \<times> 'f) list"
  | ScanVal int "string list"
  | ClusterSlotVal "ClusterSlotInfo list"

record 'f cmd =
  Q_args :: "string list"
  Q_err :: "redis_error option"
  Q_clusterKeyPos :: int
  Q_writeTimeout :: "int option"
  Q_readTimeout :: "int option"
  Q_val :: "'f cmd_val"

definition base_cmd :: "string list \<Rightarrow> int \<Rightarrow> 'f cmd_val \<Rightarrow> 'f cmd" where
  "base_cmd args pos v = \<lparr>Q_args = args, Q_err = None, Q_clusterKeyPos = pos, Q_writeTimeout = None,
     Q_readTimeout = None, Q_val = v\<rparr>"

definition clusterKey :: "'f cmd \<Rightarrow> string" where
  "clusterKey cmd =
     (if Q_clusterKeyPos cmd > 0 \<and> Q_clusterKeyPos cmd < int (length (Q_args cmd))
      then Q_args cmd ! nat (Q_clusterKeyPos cmd) else [])"

definition setReadTimeout :: "int \<Rightarrow> 'f cmd \<Rightarrow> 'f cmd" where
  "setReadTimeout d cmd = cmd\<lparr>Q_readTimeout := Some d\<rparr>"

definition setWriteTimeout :: "int \<Rightarrow> 'f cmd \<Rightarrow> 'f cmd" where
  "setWriteTimeout d cmd = cmd\<lparr>Q_writeTimeout := Some d\<rparr>"

definition setErr :: "redis_error option \<Rightarrow> 'f cmd \<Rightarrow> 'f cmd" where
  "setErr e cmd = cmd\<lparr>Q_err := e\<rparr>"

definition setCmdsErr :: "redis_error option \<Rightarrow> 'f cmd list \<Rightarrow> 'f cmd list" where
  "setCmdsErr e cmds = List.map (setErr e) cmds"

section \<open>Constructors\<close>

definition NewCmd :: "string list \<Rightarrow> 'f cmd" where
  "NewCmd args = base_cmd args 0 (AnyVal VNil)"

definition NewSliceCmd :: "string list \<Rightarrow> 'f cmd" where
  "NewSliceCmd args = base_cmd args 1 (SliceVal [])"

definition NewStatusCmd :: "string list \<Rightarrow> 'f cmd" where
  "NewStatusCmd args = base_cmd args 1 (StatusVal [])"

definition newKeylessStatusCmd :: "string list \<Rightarrow> 'f cmd" where
  "newKeylessStatusCmd args = base_cmd args 0 (StatusVal [])"

definition NewIntCmd :: "string list \<Rightarrow> 'f cmd" where
  "NewIntCmd args = base_cmd args 1 (IntVal 0)"

definition NewDurationCmd :: "int \<Rightarrow> string list \<Rightarrow> 'f cmd" where
  "NewDurationCmd precision args = base_cmd args 1 (DurationVal precision 0)"

definition NewBoolCmd :: "string list \<Rightarrow> 'f cmd" where
  "NewBoolCmd args = base_cmd args 1 (BoolVal False)"

definition NewStringCmd :: "string list \<Rightarrow> 'f cmd" where
  "NewStringCmd args = base_cmd args 1 (StringVal [])"

definition NewFloatCmd :: "'f floats \<Rightarrow> string list \<Rightarrow> 'f cmd" where
  "NewFloatCmd fl args = base_cmd args 1 (FloatVal (F_zero fl))"

definition NewStringSliceCmd :: "string list \<Rightarrow> 'f cmd" where
  "NewStringSliceCmd args = base_cmd args 1 (StringSliceVal [])"

definition NewBoolSliceCmd :: "string list \<Rightarrow> 'f cmd" where
  "NewBoolSliceCmd args = base_cmd args 1 (BoolSliceVal [])"

definition NewStringStringMapCmd :: "string list \<Rightarrow> 'f cmd" where
  "NewStringStringMapCmd args = base_cmd args 1 (StringStringMapVal Map.empty)"

definition NewStringIntMapCmd :: "string list \<Rightarrow> 'f cmd" where
  "NewStringIntMapCmd args = base_cmd args 1 (StringIntMapVal Map.empty)"

definition NewZSliceCmd :: "string list \<Rightarrow> 'f cmd" where
  "NewZSliceCmd args = base_cmd args 1 (ZSliceVal [])"

definition NewScanCmd :: "string list \<Rightarrow> 'f cmd" where
  "NewScanCmd args = base_cmd args 1 (ScanVal 0 [])"

definition NewClusterSlotCmd :: "string list \<Rightarrow> 'f cmd" where
  "NewClusterSlotCmd args = base_cmd args 1 (ClusterSlotVal [])"

section \<open>Reset\<close>

text \<open>Before a retry the value is the zero value of its kind again and the error is gone.\<close>

definition reset_val :: "'f floats \<Rightarrow> 'f cmd_val \<Rightarrow> 'f cmd_val" where
  "reset_val fl v =
     (case v of
        AnyVal _ \<Rightarrow> AnyVal VNil
      | SliceVal _ \<Rightarrow> SliceVal []
      | StatusVal _ \<Rightarrow> StatusVal []
      | IntVal _ \<Rightarrow> IntVal 0
      | DurationVal p _ \<Rightarrow> DurationVal p 0
      | BoolVal _ \<Rightarrow> BoolVal False
      | StringVal _ \<Rightarrow> StringVal []
      | FloatVal _ \<Rightarrow> FloatVal (F_zero fl)
      | StringSliceVal _ \<Rightarrow> StringSliceVal []
      | BoolSliceVal _ \<Rightarrow> BoolSliceVal []
      | StringStringMapVal _ \<Rightarrow> StringStringMapVal Map.empty
      | StringIntMapVal _ \<Rightarrow> StringIntMapVal Map.empty
      | ZSliceVal _ \<Rightarrow> ZSliceVal []
      | ScanVal _ _ \<Rightarrow> ScanVal 0 []
      | ClusterSlotVal _ \<Rightarrow> ClusterSlotVal [])"

definition reset :: "'f floats \<Rightarrow> 'f cmd \<Rightarrow> 'f cmd" where
  "reset fl cmd = cmd\<lparr>Q_val := reset_val fl (Q_val cmd), Q_err := None\<rparr>"

definition resetCmds :: "'f floats \<Rightarrow> 'f cmd list \<Rightarrow> 'f cmd list" where
  "resetCmds fl cmds = List.map (reset fl) cmds"

section \<open>Cluster slots\<close>

definition hashSlots :: int where "hashSlots = 16384"

definition JoinHostPort :: "string \<Rightarrow> string \<Rightarrow> string" where
  "JoinHostPort host port =
     (if CHR '':'' \<in> set host \<or> CHR ''%'' \<in> set host then ''['' @ host @ '']:'' @ port else host @ '':'' @ port)"

definition slot_addr :: "gval \<Rightarrow> string option" where
  "slot_addr pair =
     (case pair of
        VSlice [VStr ip, VInt port] \<Rightarrow>
          if ip = [] \<or> port < 1 then None else Some (JoinHostPort ip (show_int port))
      | _ \<Rightarrow> None)"

fun slot_addrs :: "gval list \<Rightarrow> string list option" where
  "slot_addrs [] = Some []"
| "slot_addrs (pair # pairs) = do { a \<leftarrow> slot_addr pair; rest \<leftarrow> slot_addrs pairs; Some (a # rest) }"

definition slot_info :: "gval list reply \<Rightarrow> ClusterSlotInfo option" where
  "slot_info r =
     (case r of
        MultiReply (VInt s # VInt e # p # pairs) \<Rightarrow>
          if s < 0 \<or> s > hashSlots \<or> e < 0 \<or> e > hashSlots then None
          else map_option (\<lambda>addrs. \<lparr>Slot_Start = s, Slot_End = e, Slot_Addrs = addrs\<rparr>) (slot_addrs (p # pairs))
      | _ \<Rightarrow> None)"

fun slots_loop :: "nat \<Rightarrow> ClusterSlotInfo list \<Rightarrow> Reader \<Rightarrow> ClusterSlotInfo list read" where
  "slots_loop 0 infos rd = Some (Inr infos, rd)"
| "slots_loop (Suc n) infos rd = do {
     (r, rd) \<leftarrow> parseReply (Some parseSlice) rd;
     (case r of
        Inl e \<Rightarrow> Some (Inl e, rd)
      | Inr r \<Rightarrow> (case slot_info r of
          None \<Rightarrow> Some (Inl (ExpectedType ''{int64, int64, string...}''), rd)
        | Some info \<Rightarrow> slots_loop n (infos @ [info]) rd))
   }"

definition parseClusterSlotInfoSlice :: "ClusterSlotInfo list bulk_parser" where
  "parseClusterSlotInfoSlice n rd = (if makes 40 n then slots_loop (nat n) [] rd else None)"

section \<open>Taking the result from a reply\<close>

type_synonym 'f taken = "((redis_error option \<times> 'f cmd) \<times> Reader) option"

text \<open>The common shape: an error is kept and returned, a value is asserted to be of the kind.\<close>

definition take_reply :: "'m bulk_parser option \<Rightarrow> ('m reply \<Rightarrow> 'f cmd_val option) \<Rightarrow> 'f cmd \<Rightarrow> Reader \<Rightarrow> 'f taken" where
  "take_reply p assertion cmd rd = do {
     (r, rd) \<leftarrow> parseReply p rd;
     (case r of
        Inl e \<Rightarrow> Some ((Some e, cmd\<lparr>Q_err := Some e\<rparr>), rd)
      | Inr v \<Rightarrow> map_option (\<lambda>val. ((None, cmd\<lparr>Q_val := val\<rparr>), rd)) (assertion v))
   }"

definition as_string :: "'m reply \<Rightarrow> string option" where
  "as_string r = (case r of StrReply s \<Rightarrow> Some s | _ \<Rightarrow> None)"

definition as_int :: "'m reply \<Rightarrow> int option" where
  "as_int r = (case r of IntReply i \<Rightarrow> Some i | _ \<Rightarrow> None)"

definition as_multi :: "'m reply \<Rightarrow> 'm option" where
  "as_multi r = (case r of MultiReply m \<Rightarrow> Some m | _ \<Rightarrow> None)"

definition parse_Cmd :: "'f cmd \<Rightarrow> Reader \<Rightarrow> 'f taken" where
  "parse_Cmd cmd rd = do {
     (r, rd) \<leftarrow> parseReply (Some parseSlice) rd;
     Some (case r of
         Inl e \<Rightarrow> ((Some e, cmd\<lparr>Q_val := AnyVal VNil, Q_err := Some e\<rparr>), rd)
       | Inr v \<Rightarrow> ((None, cmd\<lparr>Q_val := AnyVal (gval_of v), Q_err := None\<rparr>), rd))
   }"

definition parse_SliceCmd :: "'f cmd \<Rightarrow> Reader \<Rightarrow> 'f taken" where
  "parse_SliceCmd = take_reply (Some parseSlice) (\<lambda>v. map_option SliceVal (as_multi v))"

definition parse_StatusCmd :: "'f cmd \<Rightarrow> Reader \<Rightarrow> 'f taken" where
  "parse_StatusCmd = take_reply no_bulk (\<lambda>v. map_option StatusVal (as_string v))"

definition parse_IntCmd :: "'f cmd \<Rightarrow> Reader \<Rightarrow> 'f taken" where
  "parse_IntCmd = take_reply no_bulk (\<lambda>v. map_option IntVal (as_int v))"

text \<open>\<open>time.Duration(v) * precision\<close> in 64 bits.\<close>

definition mul_int :: "int \<Rightarrow> int \<Rightarrow> int" where
  "mul_int a b = sint (word_of_int (a * b) :: int64)"

definition parse_DurationCmd :: "int \<Rightarrow> 'f cmd \<Rightarrow> Reader \<Rightarrow> 'f taken" where
  "parse_DurationCmd precision =
     take_reply no_bulk (\<lambda>v. map_option (\<lambda>i. DurationVal precision (mul_int i precision)) (as_int v))"

text \<open>A nil reply is false without an error, as for SET with NX.\<close>

definition parse_BoolCmd :: "'f cmd \<Rightarrow> Reader \<Rightarrow> 'f taken" where
  "parse_BoolCmd cmd rd = do {
     (r, rd) \<leftarrow> parseReply no_bulk rd;
     Some (case r of
         Inl e \<Rightarrow>
           if e = Nil_error then ((None, cmd\<lparr>Q_val := BoolVal False\<rparr>), rd)
           else ((Some e, cmd\<lparr>Q_err := Some e\<rparr>), rd)
       | Inr (IntReply i) \<Rightarrow> ((None, cmd\<lparr>Q_val := BoolVal (i = 1)\<rparr>), rd)
       | Inr (StrReply s) \<Rightarrow> ((None, cmd\<lparr>Q_val := BoolVal (s = ''OK'')\<rparr>), rd)
       | Inr (MultiReply _) \<Rightarrow> ((Some (ExpectedType ''int64 or string''), cmd), rd))
   }"

definition parse_StringCmd :: "'f cmd \<Rightarrow> Reader \<Rightarrow> 'f taken" where
  "parse_StringCmd = take_reply no_bulk (\<lambda>v. map_option StringVal (as_string v))"

definition parse_FloatCmd :: "'f floats \<Rightarrow> 'f cmd \<Rightarrow> Reader \<Rightarrow> 'f taken" where
  "parse_FloatCmd fl cmd rd = do {
     (r, rd) \<leftarrow> parseReply no_bulk rd;
     (case r of
        Inl e \<Rightarrow> Some ((Some e, cmd\<lparr>Q_err := Some e\<rparr>), rd)
      | Inr v \<Rightarrow> do {
          s \<leftarrow> as_string v;
          let (f, failed) = F_parse fl s;
          let err = (if failed then Some (BadNumber s) else None);
          Some ((err, cmd\<lparr>Q_val := FloatVal f, Q_err := err\<rparr>), rd)
        })
   }"

definition parse_StringSliceCmd :: "'f cmd \<Rightarrow> Reader \<Rightarrow> 'f taken" where
  "parse_StringSliceCmd = take_reply (Some parseStringSlice) (\<lambda>v. map_option StringSliceVal (as_multi v))"

definition parse_BoolSliceCmd :: "'f cmd \<Rightarrow> Reader \<Rightarrow> 'f taken" where
  "parse_BoolSliceCmd = take_reply (Some parseBoolSlice) (\<lambda>v. map_option BoolSliceVal (as_multi v))"

definition parse_StringStringMapCmd :: "'f cmd \<Rightarrow> Reader \<Rightarrow> 'f taken" where
  "parse_StringStringMapCmd = take_reply (Some parseStringStringMap) (\<lambda>v. map_option StringStringMapVal (as_multi v))"

definition parse_StringIntMapCmd :: "'f cmd \<Rightarrow> Reader \<Rightarrow> 'f taken" where
  "parse_StringIntMapCmd = take_reply (Some parseStringIntMap) (\<lambda>v. map_option StringIntMapVal (as_multi v))"

definition parse_ZSliceCmd :: "'f floats \<Rightarrow> 'f cmd \<Rightarrow> Reader \<Rightarrow> 'f taken" where
  "parse_ZSliceCmd fl = take_reply (Some (parseZSlice (parse_float fl))) (\<lambda>v. map_option ZSliceVal (as_multi v))"

text \<open>
  \<open>strconv.ParseInt\<close> with the value it has beside an error: the nearest one when the number is out
  of range, which is noticed at the first digit that overflows 64 bits, else zero.
\<close>

datatype scan_result = Scanned nat | OutOfRange | NotANumber

fun scan_uint :: "nat \<Rightarrow> string \<Rightarrow> scan_result" where
  "scan_uint n [] = Scanned n"
| "scan_uint n (c # s) =
     (if \<not> is_digit c then NotANumber
      else if 10 * n + digit_val c \<ge> 2 ^ 64 then OutOfRange
      else scan_uint (10 * n + digit_val c) s)"

definition ParseInt_value :: "string \<Rightarrow> int" where
  "ParseInt_value s =
     (case parse_int64 s of
        Some i \<Rightarrow> i
      | None \<Rightarrow>
          let neg = (s \<noteq> [] \<and> hd s = CHR ''-'');
              digits = (if s \<noteq> [] \<and> (hd s = CHR ''-'' \<or> hd s = CHR ''+'') then tl s else s)
          in if digits = [] \<or> scan_uint 0 digits = NotANumber then 0
             else if neg then int64_min else int64_max)"

fun scan_keys :: "gval list \<Rightarrow> string list option" where
  "scan_keys [] = Some []"
| "scan_keys (VStr s # ks) = map_option ((#) s) (scan_keys ks)"
| "scan_keys _ = None"

definition parse_ScanCmd :: "string list \<Rightarrow> 'f cmd \<Rightarrow> Reader \<Rightarrow> 'f taken" where
  "parse_ScanCmd old cmd rd = do {
     (r, rd) \<leftarrow> parseReply (Some parseSlice) rd;
     (case r of
        Inl e \<Rightarrow> Some ((Some e, cmd\<lparr>Q_err := Some e\<rparr>), rd)
      | Inr v \<Rightarrow> do {
          vs \<leftarrow> as_multi v;
          (case vs of
             VStr cursor # rest \<Rightarrow>
               if parse_int64 cursor = None
               then Some ((Some (BadNumber cursor),
                 cmd\<lparr>Q_val := ScanVal (ParseInt_value cursor) old, Q_err := Some (BadNumber cursor)\<rparr>), rd)
               else (case rest of
                   VSlice keys # _ \<Rightarrow> map_option (\<lambda>ks. ((None,
                     cmd\<lparr>Q_val := ScanVal (ParseInt_value cursor) (old @ ks), Q_err := None\<rparr>), rd)) (scan_keys keys)
                 | _ \<Rightarrow> None)
           | _ \<Rightarrow> None)
        })
   }"

definition parse_ClusterSlotCmd :: "'f cmd \<Rightarrow> Reader \<Rightarrow> 'f taken" where
  "parse_ClusterSlotCmd =
     take_reply (Some parseClusterSlotInfoSlice) (\<lambda>v. map_option ClusterSlotVal (as_multi v))"

text \<open>The method of the interface, by the kind of the command.\<close>

definition cmd_parseReply :: "'f floats \<Rightarrow> 'f cmd \<Rightarrow> Reader \<Rightarrow> 'f taken" where
  "cmd_parseReply fl cmd rd =
     (case Q_val cmd of
        AnyVal _ \<Rightarrow> parse_Cmd cmd rd
      | SliceVal _ \<Rightarrow> parse_SliceCmd cmd rd
      | StatusVal _ \<Rightarrow> parse_StatusCmd cmd rd
      | IntVal _ \<Rightarrow> parse_IntCmd cmd rd
      | DurationVal p _ \<Rightarrow> parse_DurationCmd p cmd rd
      | BoolVal _ \<Rightarrow> parse_BoolCmd cmd rd
      | StringVal _ \<Rightarrow> parse_StringCmd cmd rd
      | FloatVal _ \<Rightarrow> parse_FloatCmd fl cmd rd
      | StringSliceVal _ \<Rightarrow> parse_StringSliceCmd cmd rd
      | BoolSliceVal _ \<Rightarrow> parse_BoolSliceCmd cmd rd
      | StringStringMapVal _ \<Rightarrow> parse_StringStringMapCmd cmd rd
      | StringIntMapVal _ \<Rightarrow> parse_StringIntMapCmd cmd rd
      | ZSliceVal _ \<Rightarrow> parse_ZSliceCmd fl cmd rd
      | ScanVal _ old \<Rightarrow> parse_ScanCmd old cmd rd
      | ClusterSlotVal _ \<Rightarrow> parse_ClusterSlotCmd cmd rd)"

text \<open>The accessors of a StringCmd.\<close>

definition StringCmd_Int64 :: "'f cmd \<Rightarrow> (redis_error + int) option" where
  "StringCmd_Int64 cmd =
     (case Q_val cmd of
        StringVal s \<Rightarrow> Some (case Q_err cmd of
            Some e \<Rightarrow> Inl e
          | None \<Rightarrow> (case parse_int64 s of Some i \<Rightarrow> Inr i | None \<Rightarrow> Inl (BadNumber s)))
      | _ \<Rightarrow> None)"

definition StringCmd_Uint64 :: "'f cmd \<Rightarrow> (redis_error + nat) option" where
  "StringCmd_Uint64 cmd =
     (case Q_val cmd of
        StringVal s \<Rightarrow> Some (case Q_err cmd of
            Some e \<Rightarrow> Inl e
          | None \<Rightarrow> (case unsigned_digits s of
              Some n \<Rightarrow> if n < 2 ^ 64 then Inr n else Inl (BadNumber s)
            | None \<Rightarrow> Inl (BadNumber s)))
      | _ \<Rightarrow> None)"

definition StringCmd_Float64 :: "'f floats \<Rightarrow> 'f cmd \<Rightarrow> (redis_error + 'f) option" where
  "StringCmd_Float64 fl cmd =
     (case Q_val cmd of
        StringVal s \<Rightarrow> Some (case Q_err cmd of
            Some e \<Rightarrow> Inl e
          | None \<Rightarrow> (case parse_float fl s of Some f \<Rightarrow> Inr f | None \<Rightarrow> Inl (BadNumber s)))
      | _ \<Rightarrow> None)"

end
