(* ===== verification/RedisCommands.thy ===== *)
theory RedisCommands
  imports RedisCmd
begin

text \<open>
  Every command method of the vendored redis client (redis.v3/commands.go). A method builds a
  command, has it processed and gives it back; how it is processed is the field of
  \<open>commandable\<close>, at once for a client, later for a pipeline or a transaction, so it is an
  argument \<open>c\<close>, and so are what it works on, \<open>'s\<close>, and what it gives for the command, \<open>'r\<close>.
  Times and durations are in nanoseconds; what is only logged is left out.
\<close>

type_synonym ('s, 'r) run = "'s \<Rightarrow> ('r \<times> 's) option"
type_synonym ('f, 's, 'r) commandable = "'f cmd \<Rightarrow> ('s, 'r) run"

definition readTimeout :: "int \<Rightarrow> int" where
  "readTimeout timeout = (if timeout = 0 then 0 else add_int timeout 1000000000)"

definition usePrecise :: "int \<Rightarrow> bool" where
  "usePrecise dur \<longleftrightarrow> dur < 1000000000 \<or> dur mod 1000000000 \<noteq> 0"

definition formatMs :: "int \<Rightarrow> string" where
  "formatMs dur = show_int (dur sdiv 1000000)"

definition formatSec :: "int \<Rightarrow> string" where
  "formatSec dur = show_int (dur sdiv 1000000000)"

section \<open>Commands of the connection\<close>

definition Process :: "('f, 's, 'r) commandable \<Rightarrow> 'f cmd \<Rightarrow> ('s, 'r) run" where
  "Process c cmd = c cmd"

definition Auth :: "('f, 's, 'r) commandable \<Rightarrow> string \<Rightarrow> ('s, 'r) run" where
  "Auth c password = Process c (newKeylessStatusCmd [''AUTH'', password])"

definition Echo :: "('f, 's, 'r) commandable \<Rightarrow> string \<Rightarrow> ('s, 'r) run" where
  "Echo c message = Process c ((NewStringCmd [''ECHO'', message])\<lparr>Q_clusterKeyPos := 0\<rparr>)"

definition Ping :: "('f, 's, 'r) commandable \<Rightarrow> ('s, 'r) run" where
  "Ping c = Process c (newKeylessStatusCmd [''PING''])"

definition Quit :: "('f, 's, 'r) commandable \<Rightarrow> ('s, 'r) run" where
  "Quit c s = None"

definition Select :: "('f, 's, 'r) commandable \<Rightarrow> int \<Rightarrow> ('s, 'r) run" where
  "Select c index = Process c (newKeylessStatusCmd [''SELECT'', show_int index])"

section \<open>Keys\<close>

definition Del :: "('f, 's, 'r) commandable \<Rightarrow> string list \<Rightarrow> ('s, 'r) run" where
  "Del c keys = Process c (NewIntCmd ([''DEL''] @ keys))"

definition Dump :: "('f, 's, 'r) commandable \<Rightarrow> string \<Rightarrow> ('s, 'r) run" where
  "Dump c key = Process c (NewStringCmd [''DUMP'', key])"

definition Exists :: "('f, 's, 'r) commandable \<Rightarrow> string \<Rightarrow> ('s, 'r) run" where
  "Exists c key = Process c (NewBoolCmd [''EXISTS'', key])"

definition Expire ::
    "('f, 's, 'r) commandable \<Rightarrow> string \<Rightarrow> int \<Rightarrow> ('s, 'r) run" where
  "Expire c key expiration = Process c (NewBoolCmd [''EXPIRE'', key, formatSec expiration])"

definition ExpireAt ::
    "('f, 's, 'r) commandable \<Rightarrow> string \<Rightarrow> int \<Rightarrow> ('s, 'r) run" where
  "ExpireAt c key tm = Process c (NewBoolCmd [''EXPIREAT'', key, show_int (tm div 1000000000)])"

definition Keys :: "('f, 's, 'r) commandable \<Rightarrow> string \<Rightarrow> ('s, 'r) run" where
  "Keys c pattern = Process c (NewStringSliceCmd [''KEYS'', pattern])"

definition Migrate ::
    "('f, 's, 'r) commandable \<Rightarrow> string \<Rightarrow> string \<Rightarrow> string \<Rightarrow> int \<Rightarrow> int \<Rightarrow> ('s, 'r) run" where
  "Migrate c host port key db timeout =
     Process c (setReadTimeout (readTimeout timeout) ((NewStatusCmd
       [''MIGRATE'', host, port, key, show_int db, formatMs timeout])\<lparr>Q_clusterKeyPos := 3\<rparr>))"

definition Move ::
    "('f, 's, 'r) commandable \<Rightarrow> string \<Rightarrow> int \<Rightarrow> ('s, 'r) run" where
  "Move c key db = Process c (NewBoolCmd [''MOVE'', key, show_int db])"

definition ObjectRefCount ::
    "('f, 's, 'r) commandable \<Rightarrow> string list \<Rightarrow> ('s, 'r) run" where
  "ObjectRefCount c keys =
     Process c ((NewIntCmd ([''OBJECT'', ''REFCOUNT''] @ keys))\<lparr>Q_clusterKeyPos := 2\<rparr>)"

definition ObjectEncoding ::
    "('f, 's, 'r) commandable \<Rightarrow> string list \<Rightarrow> ('s, 'r) run" where
  "ObjectEncoding c keys =
     Process c ((NewStringCmd ([''OBJECT'', ''ENCODING''] @ keys))\<lparr>Q_clusterKeyPos := 2\<rparr>)"

definition ObjectIdleTime ::
    "('f, 's, 'r) commandable \<Rightarrow> string list \<Rightarrow> ('s, 'r) run" where
  "ObjectIdleTime c keys =
     Process c ((NewDurationCmd 1000000000
       ([''OBJECT'', ''IDLETIME''] @ keys))\<lparr>Q_clusterKeyPos := 2\<rparr>)"

definition Persist :: "('f, 's, 'r) commandable \<Rightarrow> string \<Rightarrow> ('s, 'r) run" where
  "Persist c key = Process c (NewBoolCmd [''PERSIST'', key])"

definition PExpire ::
    "('f, 's, 'r) commandable \<Rightarrow> string \<Rightarrow> int \<Rightarrow> ('s, 'r) run" where
  "PExpire c key expiration = Process c (NewBoolCmd [''PEXPIRE'', key, formatMs expiration])"

definition PExpireAt ::
    "('f, 's, 'r) commandable \<Rightarrow> string \<Rightarrow> int \<Rightarrow> ('s, 'r) run" where
  "PExpireAt c key tm = Process c (NewBoolCmd [''PEXPIREAT'', key, show_int (tm sdiv 1000000)])"

definition PTTL :: "('f, 's, 'r) commandable \<Rightarrow> string \<Rightarrow> ('s, 'r) run" where
  "PTTL c key = Process c (NewDurationCmd 1000000 [''PTTL'', key])"

definition RandomKey :: "('f, 's, 'r) commandable \<Rightarrow> ('s, 'r) run" where
  "RandomKey c = Process c (NewStringCmd [''RANDOMKEY''])"

definition Rename ::
    "('f, 's, 'r) commandable \<Rightarrow> string \<Rightarrow> string \<Rightarrow> ('s, 'r) run" where
  "Rename c key newkey = Process c (NewStatusCmd [''RENAME'', key, newkey])"

definition RenameNX ::
    "('f, 's, 'r) commandable \<Rightarrow> string \<Rightarrow> string \<Rightarrow> ('s, 'r) run" where
  "RenameNX c key newkey = Process c (NewBoolCmd [''RENAMENX'', key, newkey])"

definition Restore ::
    "('f, 's, 'r) commandable \<Rightarrow> string \<Rightarrow> int \<Rightarrow> string \<Rightarrow> ('s, 'r) run" where
  "Restore c key ttl value = Process c (NewStatusCmd [''RESTORE'', key, show_int ttl, value])"

record Sort_opt =
  Sort_By :: string
  Sort_Get :: "string list"
  Sort_Order :: string
  Sort_IsAlpha :: bool
  Sort_Store :: string

text \<open>Offset and Count of the options are floats and stand apart.\<close>

definition Sort ::
    "('f, 's, 'r) commandable \<Rightarrow> 'f floats \<Rightarrow> string \<Rightarrow> Sort_opt \<Rightarrow> 'f \<Rightarrow> 'f \<Rightarrow> ('s, 'r) run" where
  "Sort c fl key opt offset count =
     Process c (NewStringSliceCmd ([''SORT'', key] @
       (if Sort_By opt \<noteq> [] then [''BY'', Sort_By opt] else []) @
       (if \<not> F_is_zero fl offset \<or> \<not> F_is_zero fl count then [''LIMIT'', F_format fl offset, F_format fl count] else []) @
       concat (List.map (\<lambda>get. [''GET'', get]) (Sort_Get opt)) @
       (if Sort_Order opt \<noteq> [] then [Sort_Order opt] else []) @
       (if Sort_IsAlpha opt then [''ALPHA''] else []) @
       (if Sort_Store opt \<noteq> [] then [''STORE'', Sort_Store opt] else [])))"

definition TTL :: "('f, 's, 'r) commandable \<Rightarrow> string \<Rightarrow> ('s, 'r) run" where
  "TTL c key = Process c (NewDurationCmd 1000000000 [''TTL'', key])"

definition Type :: "('f, 's, 'r) commandable \<Rightarrow> string \<Rightarrow> ('s, 'r) run" where
  "Type c key = Process c (NewStatusCmd [''TYPE'', key])"

definition scan_opts :: "string \<Rightarrow> int \<Rightarrow> string list" where
  "scan_opts match1 count =
     (if match1 \<noteq> [] then [''MATCH'', match1] else []) @ (if count > 0 then [''COUNT'', show_int count] else [])"

definition Scan ::
    "('f, 's, 'r) commandable \<Rightarrow> int \<Rightarrow> string \<Rightarrow> int \<Rightarrow> ('s, 'r) run" where
  "Scan c cursor match1 count = Process c (NewScanCmd ([''SCAN'', show_int cursor] @ scan_opts match1 count))"

definition SScan ::
    "('f, 's, 'r) commandable \<Rightarrow> string \<Rightarrow> int \<Rightarrow> string \<Rightarrow> int \<Rightarrow> ('s, 'r) run" where
  "SScan c key cursor match1 count =
     Process c (NewScanCmd ([''SSCAN'', key, show_int cursor] @ scan_opts match1 count))"

definition HScan ::
    "('f, 's, 'r) commandable \<Rightarrow> string \<Rightarrow> int \<Rightarrow> string \<Rightarrow> int \<Rightarrow> ('s, 'r) run" where
  "HScan c key cursor match1 count =
     Process c (NewScanCmd ([''HSCAN'', key, show_int cursor] @ scan_opts match1 count))"

definition ZScan ::
    "('f, 's, 'r) commandable \<Rightarrow> string \<Rightarrow> int \<Rightarrow> string \<Rightarrow> int \<Rightarrow> ('s, 'r) run" where
  "ZScan c key cursor match1 count =
     Process c (NewScanCmd ([''ZSCAN'', key, show_int cursor] @ scan_opts match1 count))"

section \<open>Strings\<close>

definition Append ::
    "('f, 's, 'r) commandable \<Rightarrow> string \<Rightarrow> string \<Rightarrow> ('s, 'r) run" where
  "Append c key value = Process c (NewIntCmd [''APPEND'', key, value])"

definition BitCount ::
    "('f, 's, 'r) commandable \<Rightarrow> string \<Rightarrow> (int \<times> int) option \<Rightarrow> ('s, 'r) run" where
  "BitCount c key bounds =
     Process c (NewIntCmd ([''BITCOUNT'', key] @
       (case bounds of Some (start, stop1) \<Rightarrow> [show_int start, show_int stop1] | None \<Rightarrow> [])))"

definition bitOp ::
    "('f, 's, 'r) commandable \<Rightarrow> string \<Rightarrow> string \<Rightarrow> string list \<Rightarrow> ('s, 'r) run" where
  "bitOp c op1 destKey keys = Process c (NewIntCmd ([''BITOP'', op1, destKey] @ keys))"

definition BitOpAnd ::
    "('f, 's, 'r) commandable \<Rightarrow> string \<Rightarrow> string list \<Rightarrow> ('s, 'r) run" where
  "BitOpAnd c destKey keys = bitOp c ''AND'' destKey keys"

definition BitOpOr ::
    "('f, 's, 'r) commandable \<Rightarrow> string \<Rightarrow> string list \<Rightarrow> ('s, 'r) run" where
  "BitOpOr c destKey keys = bitOp c ''OR'' destKey keys"

definition BitOpXor ::
    "('f, 's, 'r) commandable \<Rightarrow> string \<Rightarrow> string list \<Rightarrow> ('s, 'r) run" where
  "BitOpXor c destKey keys = bitOp c ''XOR'' destKey keys"

definition BitOpNot ::
    "('f, 's, 'r) commandable \<Rightarrow> string \<Rightarrow> string \<Rightarrow> ('s, 'r) run" where
  "BitOpNot c destKey key = bitOp c ''NOT'' destKey [key]"

definition BitPos ::
    "('f, 's, 'r) commandable \<Rightarrow> string \<Rightarrow> int \<Rightarrow> int list \<Rightarrow> ('s, 'r) run" where
  "BitPos c key bit1 pos s =
     (if length pos > 2 then None
      else Process c (NewIntCmd ([''BITPOS'', key, show_int bit1] @ List.map show_int pos)) s)"

definition Decr :: "('f, 's, 'r) commandable \<Rightarrow> string \<Rightarrow> ('s, 'r) run" where
  "Decr c key = Process c (NewIntCmd [''DECR'', key])"

definition DecrBy ::
    "('f, 's, 'r) commandable \<Rightarrow> string \<Rightarrow> int \<Rightarrow> ('s, 'r) run" where
  "DecrBy c key decrement = Process c (NewIntCmd [''DECRBY'', key, show_int decrement])"

definition Get :: "('f, 's, 'r) commandable \<Rightarrow> string \<Rightarrow> ('s, 'r) run" where
  "Get c key = Process c (NewStringCmd [''GET'', key])"

definition GetBit ::
    "('f, 's, 'r) commandable \<Rightarrow> string \<Rightarrow> int \<Rightarrow> ('s, 'r) run" where
  "GetBit c key offset = Process c (NewIntCmd [''GETBIT'', key, show_int offset])"

definition GetRange ::
    "('f, 's, 'r) commandable \<Rightarrow> string \<Rightarrow> int \<Rightarrow> int \<Rightarrow> ('s, 'r) run" where
  "GetRange c key start stop1 = Process c (NewStringCmd [''GETRANGE'', key, show_int start, show_int stop1])"

definition GetSet ::
    "('f, 's, 'r) commandable \<Rightarrow> string \<Rightarrow> string \<Rightarrow> ('s, 'r) run" where
  "GetSet c key value = Process c (NewStringCmd [''GETSET'', key, value])"

definition Incr :: "('f, 's, 'r) commandable \<Rightarrow> string \<Rightarrow> ('s, 'r) run" where
  "Incr c key = Process c (NewIntCmd [''INCR'', key])"

definition IncrBy ::
    "('f, 's, 'r) commandable \<Rightarrow> string \<Rightarrow> int \<Rightarrow> ('s, 'r) run" where
  "IncrBy c key value = Process c (NewIntCmd [''INCRBY'', key, show_int value])"

definition IncrByFloat ::
    "('f, 's, 'r) commandable \<Rightarrow> 'f floats \<Rightarrow> string \<Rightarrow> 'f \<Rightarrow> ('s, 'r) run" where
  "IncrByFloat c fl key value = Process c (NewFloatCmd fl [''INCRBYFLOAT'', key, F_format fl value])"

definition MGet :: "('f, 's, 'r) commandable \<Rightarrow> string list \<Rightarrow> ('s, 'r) run" where
  "MGet c keys = Process c (NewSliceCmd ([''MGET''] @ keys))"

definition MSet :: "('f, 's, 'r) commandable \<Rightarrow> string list \<Rightarrow> ('s, 'r) run" where
  "MSet c pairs = Process c (NewStatusCmd ([''MSET''] @ pairs))"

definition MSetNX :: "('f, 's, 'r) commandable \<Rightarrow> string list \<Rightarrow> ('s, 'r) run" where
  "MSetNX c pairs = Process c (NewBoolCmd ([''MSETNX''] @ pairs))"

definition expiry :: "int \<Rightarrow> string list" where
  "expiry expiration =
     (if usePrecise expiration then [''PX'', formatMs expiration] else [''EX'', formatSec expiration])"

definition Set ::
    "('f, 's, 'r) commandable \<Rightarrow> string \<Rightarrow> string \<Rightarrow> int \<Rightarrow> ('s, 'r) run" where
  "Set c key value expiration =
     Process c (NewStatusCmd ([''SET'', key, value] @ (if expiration > 0 then expiry expiration else [])))"

definition SetBit ::
    "('f, 's, 'r) commandable \<Rightarrow> string \<Rightarrow> int \<Rightarrow> int \<Rightarrow> ('s, 'r) run" where
  "SetBit c key offset value = Process c (NewIntCmd [''SETBIT'', key, show_int offset, show_int value])"

definition SetNX ::
    "('f, 's, 'r) commandable \<Rightarrow> string \<Rightarrow> string \<Rightarrow> int \<Rightarrow> ('s, 'r) run" where
  "SetNX c key value expiration =
     Process c (NewBoolCmd
       (if expiration = 0 then [''SETNX'', key, value] else [''SET'', key, value] @ expiry expiration @ [''NX'']))"

definition SetXX ::
    "('f, 's, 'r) commandable \<Rightarrow> string \<Rightarrow> string \<Rightarrow> int \<Rightarrow> ('s, 'r) run" where
  "SetXX c key value expiration =
     Process c (NewBoolCmd ([''SET'', key, value] @ expiry expiration @ [''XX'']))"

definition SetRange ::
    "('f, 's, 'r) commandable \<Rightarrow> string \<Rightarrow> int \<Rightarrow> string \<Rightarrow> ('s, 'r) run" where
  "SetRange c key offset value = Process c (NewIntCmd [''SETRANGE'', key, show_int offset, value])"

definition StrLen :: "('f, 's, 'r) commandable \<Rightarrow> string \<Rightarrow> ('s, 'r) run" where
  "StrLen c key = Process c (NewIntCmd [''STRLEN'', key])"

section \<open>Hashes\<close>

definition HDel ::
    "('f, 's, 'r) commandable \<Rightarrow> string \<Rightarrow> string list \<Rightarrow> ('s, 'r) run" where
  "HDel c key fields1 = Process c (NewIntCmd ([''HDEL'', key] @ fields1))"

definition HExists ::
    "('f, 's, 'r) commandable \<Rightarrow> string \<Rightarrow> string \<Rightarrow> ('s, 'r) run" where
  "HExists c key field = Process c (NewBoolCmd [''HEXISTS'', key, field])"

definition HGet ::
    "('f, 's, 'r) commandable \<Rightarrow> string \<Rightarrow> string \<Rightarrow> ('s, 'r) run" where
  "HGet c key field = Process c (NewStringCmd [''HGET'', key, field])"

definition HGetAll :: "('f, 's, 'r) commandable \<Rightarrow> string \<Rightarrow> ('s, 'r) run" where
  "HGetAll c key = Process c (NewStringSliceCmd [''HGETALL'', key])"

definition HGetAllMap :: "('f, 's, 'r) commandable \<Rightarrow> string \<Rightarrow> ('s, 'r) run" where
  "HGetAllMap c key = Process c (NewStringStringMapCmd [''HGETALL'', key])"

definition HIncrBy ::
    "('f, 's, 'r) commandable \<Rightarrow> string \<Rightarrow> string \<Rightarrow> int \<Rightarrow> ('s, 'r) run" where
  "HIncrBy c key field incr = Process c (NewIntCmd [''HINCRBY'', key, field, show_int incr])"

definition HIncrByFloat ::
    "('f, 's, 'r) commandable \<Rightarrow> 'f floats \<Rightarrow> string \<Rightarrow> string \<Rightarrow> 'f \<Rightarrow> ('s, 'r) run" where
  "HIncrByFloat c fl key field incr = Process c (NewFloatCmd fl
       [''HINCRBYFLOAT'', key, field, F_format fl incr])"

definition HKeys :: "('f, 's, 'r) commandable \<Rightarrow> string \<Rightarrow> ('s, 'r) run" where
  "HKeys c key = Process c (NewStringSliceCmd [''HKEYS'', key])"

definition HLen :: "('f, 's, 'r) commandable \<Rightarrow> string \<Rightarrow> ('s, 'r) run" where
  "HLen c key = Process c (NewIntCmd [''HLEN'', key])"

definition HMGet ::
    "('f, 's, 'r) commandable \<Rightarrow> string \<Rightarrow> string list \<Rightarrow> ('s, 'r) run" where
  "HMGet c key fields1 = Process c (NewSliceCmd ([''HMGET'', key] @ fields1))"

definition HMSet ::
    "('f, 's, 'r) commandable \<Rightarrow> string \<Rightarrow> string \<Rightarrow> string \<Rightarrow> string list \<Rightarrow> ('s, 'r) run" where
  "HMSet c key field value pairs = Process c (NewStatusCmd ([''HMSET'', key, field, value] @ pairs))"

definition HSet ::
    "('f, 's, 'r) commandable \<Rightarrow> string \<Rightarrow> string \<Rightarrow> string \<Rightarrow> ('s, 'r) run" where
  "HSet c key field value = Process c (NewBoolCmd [''HSET'', key, field, value])"

definition HSetNX ::
    "('f, 's, 'r) commandable \<Rightarrow> string \<Rightarrow> string \<Rightarrow> string \<Rightarrow> ('s, 'r) run" where
  "HSetNX c key field value = Process c (NewBoolCmd [''HSETNX'', key, field, value])"

definition HVals :: "('f, 's, 'r) commandable \<Rightarrow> string \<Rightarrow> ('s, 'r) run" where
  "HVals c key = Process c (NewStringSliceCmd [''HVALS'', key])"

section \<open>Lists\<close>

definition BLPop ::
    "('f, 's, 'r) commandable \<Rightarrow> int \<Rightarrow> string list \<Rightarrow> ('s, 'r) run" where
  "BLPop c timeout keys =
     Process c (setReadTimeout (readTimeout timeout) (NewStringSliceCmd
       ([''BLPOP''] @ keys @ [formatSec timeout])))"

definition BRPop ::
    "('f, 's, 'r) commandable \<Rightarrow> int \<Rightarrow> string list \<Rightarrow> ('s, 'r) run" where
  "BRPop c timeout keys =
     Process c (setReadTimeout (readTimeout timeout) (NewStringSliceCmd
       ([''BRPOP''] @ keys @ [formatSec timeout])))"

definition BRPopLPush ::
    "('f, 's, 'r) commandable \<Rightarrow> string \<Rightarrow> string \<Rightarrow> int \<Rightarrow> ('s, 'r) run" where
  "BRPopLPush c source destination timeout =
     Process c (setReadTimeout (readTimeout timeout) (NewStringCmd
       [''BRPOPLPUSH'', source, destination, formatSec timeout]))"

definition LIndex ::
    "('f, 's, 'r) commandable \<Rightarrow> string \<Rightarrow> int \<Rightarrow> ('s, 'r) run" where
  "LIndex c key index = Process c (NewStringCmd [''LINDEX'', key, show_int index])"

definition LInsert ::
    "('f, 's, 'r) commandable \<Rightarrow> string \<Rightarrow> string \<Rightarrow> string \<Rightarrow> string \<Rightarrow> ('s, 'r) run" where
  "LInsert c key op1 pivot value = Process c (NewIntCmd [''LINSERT'', key, op1, pivot, value])"

definition LLen :: "('f, 's, 'r) commandable \<Rightarrow> string \<Rightarrow> ('s, 'r) run" where
  "LLen c key = Process c (NewIntCmd [''LLEN'', key])"

definition LPop :: "('f, 's, 'r) commandable \<Rightarrow> string \<Rightarrow> ('s, 'r) run" where
  "LPop c key = Process c (NewStringCmd [''LPOP'', key])"

definition LPush ::
    "('f, 's, 'r) commandable \<Rightarrow> string \<Rightarrow> string list \<Rightarrow> ('s, 'r) run" where
  "LPush c key values = Process c (NewIntCmd ([''LPUSH'', key] @ values))"

definition LPushX ::
    "('f, 's, 'r) commandable \<Rightarrow> string \<Rightarrow> string \<Rightarrow> ('s, 'r) run" where
  "LPushX c key value = Process c (NewIntCmd [''LPUSHX'', key, value])"

definition LRange ::
    "('f, 's, 'r) commandable \<Rightarrow> string \<Rightarrow> int \<Rightarrow> int \<Rightarrow> ('s, 'r) run" where
  "LRange c key start stop = Process c (NewStringSliceCmd [''LRANGE'', key, show_int start, show_int stop])"

definition LRem ::
    "('f, 's, 'r) commandable \<Rightarrow> string \<Rightarrow> int \<Rightarrow> string \<Rightarrow> ('s, 'r) run" where
  "LRem c key count value = Process c (NewIntCmd [''LREM'', key, show_int count, value])"

definition LSet ::
    "('f, 's, 'r) commandable \<Rightarrow> string \<Rightarrow> int \<Rightarrow> string \<Rightarrow> ('s, 'r) run" where
  "LSet c key index value = Process c (NewStatusCmd [''LSET'', key, show_int index, value])"

definition LTrim ::
    "('f, 's, 'r) commandable \<Rightarrow> string \<Rightarrow> int \<Rightarrow> int \<Rightarrow> ('s, 'r) run" where
  "LTrim c key start stop = Process c (NewStatusCmd [''LTRIM'', key, show_int start, show_int stop])"

definition RPop :: "('f, 's, 'r) commandable \<Rightarrow> string \<Rightarrow> ('s, 'r) run" where
  "RPop c key = Process c (NewStringCmd [''RPOP'', key])"

definition RPopLPush ::
    "('f, 's, 'r) commandable \<Rightarrow> string \<Rightarrow> string \<Rightarrow> ('s, 'r) run" where
  "RPopLPush c source destination = Process c (NewStringCmd [''RPOPLPUSH'', source, destination])"

definition RPush ::
    "('f, 's, 'r) commandable \<Rightarrow> string \<Rightarrow> string list \<Rightarrow> ('s, 'r) run" where
  "RPush c key values = Process c (NewIntCmd ([''RPUSH'', key] @ values))"

definition RPushX ::
    "('f, 's, 'r) commandable \<Rightarrow> string \<Rightarrow> string \<Rightarrow> ('s, 'r) run" where
  "RPushX c key value = Process c (NewIntCmd [''RPUSHX'', key, value])"

section \<open>Sets\<close>

definition SAdd ::
    "('f, 's, 'r) commandable \<Rightarrow> string \<Rightarrow> string list \<Rightarrow> ('s, 'r) run" where
  "SAdd c key members = Process c (NewIntCmd ([''SADD'', key] @ members))"

definition SCard :: "('f, 's, 'r) commandable \<Rightarrow> string \<Rightarrow> ('s, 'r) run" where
  "SCard c key = Process c (NewIntCmd [''SCARD'', key])"

definition SDiff :: "('f, 's, 'r) commandable \<Rightarrow> string list \<Rightarrow> ('s, 'r) run" where
  "SDiff c keys = Process c (NewStringSliceCmd ([''SDIFF''] @ keys))"

definition SDiffStore ::
    "('f, 's, 'r) commandable \<Rightarrow> string \<Rightarrow> string list \<Rightarrow> ('s, 'r) run" where
  "SDiffStore c destination keys = Process c (NewIntCmd ([''SDIFFSTORE'', destination] @ keys))"

definition SInter :: "('f, 's, 'r) commandable \<Rightarrow> string list \<Rightarrow> ('s, 'r) run" where
  "SInter c keys = Process c (NewStringSliceCmd ([''SINTER''] @ keys))"

definition SInterStore ::
    "('f, 's, 'r) commandable \<Rightarrow> string \<Rightarrow> string list \<Rightarrow> ('s, 'r) run" where
  "SInterStore c destination keys = Process c (NewIntCmd ([''SINTERSTORE'', destination] @ keys))"

definition SIsMember ::
    "('f, 's, 'r) commandable \<Rightarrow> string \<Rightarrow> string \<Rightarrow> ('s, 'r) run" where
  "SIsMember c key member = Process c (NewBoolCmd [''SISMEMBER'', key, member])"

definition SMembers :: "('f, 's, 'r) commandable \<Rightarrow> string \<Rightarrow> ('s, 'r) run" where
  "SMembers c key = Process c (NewStringSliceCmd [''SMEMBERS'', key])"

definition SMove ::
    "('f, 's, 'r) commandable \<Rightarrow> string \<Rightarrow> string \<Rightarrow> string \<Rightarrow> ('s, 'r) run" where
  "SMove c source destination member = Process c (NewBoolCmd [''SMOVE'', source, destination, member])"

definition SPop :: "('f, 's, 'r) commandable \<Rightarrow> string \<Rightarrow> ('s, 'r) run" where
  "SPop c key = Process c (NewStringCmd [''SPOP'', key])"

definition SRandMember :: "('f, 's, 'r) commandable \<Rightarrow> string \<Rightarrow> ('s, 'r) run" where
  "SRandMember c key = Process c (NewStringCmd [''SRANDMEMBER'', key])"

definition SRem ::
    "('f, 's, 'r) commandable \<Rightarrow> string \<Rightarrow> string list \<Rightarrow> ('s, 'r) run" where
  "SRem c key members = Process c (NewIntCmd ([''SREM'', key] @ members))"

definition SUnion :: "('f, 's, 'r) commandable \<Rightarrow> string list \<Rightarrow> ('s, 'r) run" where
  "SUnion c keys = Process c (NewStringSliceCmd ([''SUNION''] @ keys))"

definition SUnionStore ::
    "('f, 's, 'r) commandable \<Rightarrow> string \<Rightarrow> string list \<Rightarrow> ('s, 'r) run" where
  "SUnionStore c destination keys = Process c (NewIntCmd ([''SUNIONSTORE'', destination] @ keys))"

section \<open>Sorted sets\<close>

definition ZAdd ::
    "('f, 's, 'r) commandable \<Rightarrow> 'f floats \<Rightarrow> string \<Rightarrow> (string \<times> 'f) list \<Rightarrow> ('s, 'r) run" where
  "ZAdd c fl key members =
     Process c (NewIntCmd ([''ZADD'', key] @
       concat (List.map (\<lambda>(member, score). [F_format fl score, member]) members)))"

definition ZCard :: "('f, 's, 'r) commandable \<Rightarrow> string \<Rightarrow> ('s, 'r) run" where
  "ZCard c key = Process c (NewIntCmd [''ZCARD'', key])"

definition ZCount ::
    "('f, 's, 'r) commandable \<Rightarrow> string \<Rightarrow> string \<Rightarrow> string \<Rightarrow> ('s, 'r) run" where
  "ZCount c key min1 max1 = Process c (NewIntCmd [''ZCOUNT'', key, min1, max1])"

definition ZIncrBy ::
    "('f, 's, 'r) commandable \<Rightarrow> 'f floats \<Rightarrow> string \<Rightarrow> 'f \<Rightarrow> string \<Rightarrow> ('s, 'r) run" where
  "ZIncrBy c fl key increment member = Process c (NewFloatCmd fl
       [''ZINCRBY'', key, F_format fl increment, member])"

record ZStore =
  ZStore_Weights :: "int list"
  ZStore_Aggregate :: string

definition store_args ::
    "string \<Rightarrow> string \<Rightarrow> ZStore \<Rightarrow> string list \<Rightarrow> string list" where
  "store_args name destination store keys =
     [name, destination, show_int (int (length keys))] @ keys @
     (if ZStore_Weights store \<noteq> [] then [''WEIGHTS''] @ List.map show_int (ZStore_Weights store) else []) @
     (if ZStore_Aggregate store \<noteq> [] then [''AGGREGATE'', ZStore_Aggregate store] else [])"

definition ZInterStore ::
    "('f, 's, 'r) commandable \<Rightarrow> string \<Rightarrow> ZStore \<Rightarrow> string list \<Rightarrow> ('s, 'r) run" where
  "ZInterStore c destination store keys =
     Process c (NewIntCmd (store_args ''ZINTERSTORE'' destination store keys))"

definition zRange ::
    "('f, 's, 'r) commandable \<Rightarrow> string \<Rightarrow> int \<Rightarrow> int \<Rightarrow> bool \<Rightarrow> ('s, 'r) run" where
  "zRange c key start stop withScores =
     Process c (NewStringSliceCmd ([''ZRANGE'', key, show_int start, show_int stop] @
       (if withScores then [''WITHSCORES''] else [])))"

definition ZRange ::
    "('f, 's, 'r) commandable \<Rightarrow> string \<Rightarrow> int \<Rightarrow> int \<Rightarrow> ('s, 'r) run" where
  "ZRange c key start stop = zRange c key start stop False"

definition ZRangeWithScores ::
    "('f, 's, 'r) commandable \<Rightarrow> string \<Rightarrow> int \<Rightarrow> int \<Rightarrow> ('s, 'r) run" where
  "ZRangeWithScores c key start stop =
     Process c (NewZSliceCmd [''ZRANGE'', key, show_int start, show_int stop, ''WITHSCORES''])"

record ZRangeByScore_opt =
  ZR_Min :: string
  ZR_Max :: string
  ZR_Offset :: int
  ZR_Count :: int

definition limit :: "ZRangeByScore_opt \<Rightarrow> string list" where
  "limit opt =
     (if ZR_Offset opt \<noteq> 0 \<or> ZR_Count opt \<noteq> 0 then [''LIMIT'', show_int (ZR_Offset opt), show_int (ZR_Count opt)]
      else [])"

definition zRangeByScore ::
    "('f, 's, 'r) commandable \<Rightarrow> string \<Rightarrow> ZRangeByScore_opt \<Rightarrow> bool \<Rightarrow> ('s, 'r) run" where
  "zRangeByScore c key opt withScores =
     Process c (NewStringSliceCmd ([''ZRANGEBYSCORE'', key, ZR_Min opt, ZR_Max opt] @
       (if withScores then [''WITHSCORES''] else []) @ limit opt))"

definition ZRangeByScore ::
    "('f, 's, 'r) commandable \<Rightarrow> string \<Rightarrow> ZRangeByScore_opt \<Rightarrow> ('s, 'r) run" where
  "ZRangeByScore c key opt = zRangeByScore c key opt False"

definition ZRangeByScoreWithScores ::
    "('f, 's, 'r) commandable \<Rightarrow> string \<Rightarrow> ZRangeByScore_opt \<Rightarrow> ('s, 'r) run" where
  "ZRangeByScoreWithScores c key opt =
     Process c (NewZSliceCmd ([''ZRANGEBYSCORE'', key, ZR_Min opt, ZR_Max opt, ''WITHSCORES''] @ limit opt))"

definition ZRank ::
    "('f, 's, 'r) commandable \<Rightarrow> string \<Rightarrow> string \<Rightarrow> ('s, 'r) run" where
  "ZRank c key member = Process c (NewIntCmd [''ZRANK'', key, member])"

definition ZRem ::
    "('f, 's, 'r) commandable \<Rightarrow> string \<Rightarrow> string list \<Rightarrow> ('s, 'r) run" where
  "ZRem c key members = Process c (NewIntCmd ([''ZREM'', key] @ members))"

definition ZRemRangeByRank ::
    "('f, 's, 'r) commandable \<Rightarrow> string \<Rightarrow> int \<Rightarrow> int \<Rightarrow> ('s, 'r) run" where
  "ZRemRangeByRank c key start stop = Process c (NewIntCmd
       [''ZREMRANGEBYRANK'', key, show_int start, show_int stop])"

definition ZRemRangeByScore ::
    "('f, 's, 'r) commandable \<Rightarrow> string \<Rightarrow> string \<Rightarrow> string \<Rightarrow> ('s, 'r) run" where
  "ZRemRangeByScore c key min1 max1 = Process c (NewIntCmd [''ZREMRANGEBYSCORE'', key, min1, max1])"

definition ZRevRange ::
    "('f, 's, 'r) commandable \<Rightarrow> string \<Rightarrow> int \<Rightarrow> int \<Rightarrow> ('s, 'r) run" where
  "ZRevRange c key start stop = Process c (NewStringSliceCmd
       [''ZREVRANGE'', key, show_int start, show_int stop])"

definition ZRevRangeWithScores ::
    "('f, 's, 'r) commandable \<Rightarrow> string \<Rightarrow> int \<Rightarrow> int \<Rightarrow> ('s, 'r) run" where
  "ZRevRangeWithScores c key start stop =
     Process c (NewZSliceCmd [''ZREVRANGE'', key, show_int start, show_int stop, ''WITHSCORES''])"

definition ZRevRangeByScore ::
    "('f, 's, 'r) commandable \<Rightarrow> string \<Rightarrow> ZRangeByScore_opt \<Rightarrow> ('s, 'r) run" where
  "ZRevRangeByScore c key opt =
     Process c (NewStringSliceCmd ([''ZREVRANGEBYSCORE'', key, ZR_Max opt, ZR_Min opt] @ limit opt))"

definition ZRevRangeByScoreWithScores ::
    "('f, 's, 'r) commandable \<Rightarrow> string \<Rightarrow> ZRangeByScore_opt \<Rightarrow> ('s, 'r) run" where
  "ZRevRangeByScoreWithScores c key opt =
     Process c (NewZSliceCmd ([''ZREVRANGEBYSCORE'', key, ZR_Max opt, ZR_Min opt, ''WITHSCORES''] @ limit opt))"

definition ZRevRank ::
    "('f, 's, 'r) commandable \<Rightarrow> string \<Rightarrow> string \<Rightarrow> ('s, 'r) run" where
  "ZRevRank c key member = Process c (NewIntCmd [''ZREVRANK'', key, member])"

definition ZScore ::
    "('f, 's, 'r) commandable \<Rightarrow> 'f floats \<Rightarrow> string \<Rightarrow> string \<Rightarrow> ('s, 'r) run" where
  "ZScore c fl key member = Process c (NewFloatCmd fl [''ZSCORE'', key, member])"

definition ZUnionStore ::
    "('f, 's, 'r) commandable \<Rightarrow> string \<Rightarrow> ZStore \<Rightarrow> string list \<Rightarrow> ('s, 'r) run" where
  "ZUnionStore c dest store keys = Process c (NewIntCmd (store_args ''ZUNIONSTORE'' dest store keys))"

section \<open>The server\<close>

definition BgRewriteAOF :: "('f, 's, 'r) commandable \<Rightarrow> ('s, 'r) run" where
  "BgRewriteAOF c = Process c ((NewStatusCmd [''BGREWRITEAOF''])\<lparr>Q_clusterKeyPos := 0\<rparr>)"

definition BgSave :: "('f, 's, 'r) commandable \<Rightarrow> ('s, 'r) run" where
  "BgSave c = Process c ((NewStatusCmd [''BGSAVE''])\<lparr>Q_clusterKeyPos := 0\<rparr>)"

definition ClientKill :: "('f, 's, 'r) commandable \<Rightarrow> string \<Rightarrow> ('s, 'r) run" where
  "ClientKill c ipPort =
     Process c ((NewStatusCmd [''CLIENT'', ''KILL'', ipPort])\<lparr>Q_clusterKeyPos := 0\<rparr>)"

definition ClientList :: "('f, 's, 'r) commandable \<Rightarrow> ('s, 'r) run" where
  "ClientList c = Process c ((NewStringCmd [''CLIENT'', ''LIST''])\<lparr>Q_clusterKeyPos := 0\<rparr>)"

definition ClientPause :: "('f, 's, 'r) commandable \<Rightarrow> int \<Rightarrow> ('s, 'r) run" where
  "ClientPause c dur =
     Process c ((NewBoolCmd [''CLIENT'', ''PAUSE'', formatMs dur])\<lparr>Q_clusterKeyPos := 0\<rparr>)"

definition ConfigGet :: "('f, 's, 'r) commandable \<Rightarrow> string \<Rightarrow> ('s, 'r) run" where
  "ConfigGet c parameter =
     Process c ((NewSliceCmd [''CONFIG'', ''GET'', parameter])\<lparr>Q_clusterKeyPos := 0\<rparr>)"

definition ConfigResetStat :: "('f, 's, 'r) commandable \<Rightarrow> ('s, 'r) run" where
  "ConfigResetStat c = Process c ((NewStatusCmd
       [''CONFIG'', ''RESETSTAT''])\<lparr>Q_clusterKeyPos := 0\<rparr>)"

definition ConfigSet ::
    "('f, 's, 'r) commandable \<Rightarrow> string \<Rightarrow> string \<Rightarrow> ('s, 'r) run" where
  "ConfigSet c parameter value =
     Process c ((NewStatusCmd [''CONFIG'', ''SET'', parameter, value])\<lparr>Q_clusterKeyPos := 0\<rparr>)"

definition DbSize :: "('f, 's, 'r) commandable \<Rightarrow> ('s, 'r) run" where
  "DbSize c = Process c ((NewIntCmd [''DBSIZE''])\<lparr>Q_clusterKeyPos := 0\<rparr>)"

definition FlushAll :: "('f, 's, 'r) commandable \<Rightarrow> ('s, 'r) run" where
  "FlushAll c = Process c (newKeylessStatusCmd [''FLUSHALL''])"

definition FlushDb :: "('f, 's, 'r) commandable \<Rightarrow> ('s, 'r) run" where
  "FlushDb c = Process c (newKeylessStatusCmd [''FLUSHDB''])"

definition Info :: "('f, 's, 'r) commandable \<Rightarrow> ('s, 'r) run" where
  "Info c = Process c ((NewStringCmd [''INFO''])\<lparr>Q_clusterKeyPos := 0\<rparr>)"

definition LastSave :: "('f, 's, 'r) commandable \<Rightarrow> ('s, 'r) run" where
  "LastSave c = Process c ((NewIntCmd [''LASTSAVE''])\<lparr>Q_clusterKeyPos := 0\<rparr>)"

definition Save :: "('f, 's, 'r) commandable \<Rightarrow> ('s, 'r) run" where
  "Save c = Process c (newKeylessStatusCmd [''SAVE''])"

text \<open>
  A server that shuts down closes the connection; any reply says why it did not.
\<close>

definition shutdown :: "('f, 's, 'f cmd) commandable \<Rightarrow> string \<Rightarrow> ('s, 'f cmd) run" where
  "shutdown c modifier s =
     map_option (\<lambda>(cmd, s).
        (case Q_err cmd of
           Some e \<Rightarrow> if e = ReadError EOF then cmd\<lparr>Q_err := None\<rparr> else cmd
         | None \<Rightarrow> (case Q_val cmd of
             StatusVal v \<Rightarrow> cmd\<lparr>Q_err := Some (errorf v), Q_val := StatusVal []\<rparr>
           | _ \<Rightarrow> cmd), s))
       (Process c (newKeylessStatusCmd (if modifier = [] then [''SHUTDOWN''] else [''SHUTDOWN'', modifier])) s)"

definition Shutdown :: "('f, 's, 'f cmd) commandable \<Rightarrow> ('s, 'f cmd) run" where
  "Shutdown c = shutdown c []"

definition ShutdownSave :: "('f, 's, 'f cmd) commandable \<Rightarrow> ('s, 'f cmd) run" where
  "ShutdownSave c = shutdown c ''SAVE''"

definition ShutdownNoSave :: "('f, 's, 'f cmd) commandable \<Rightarrow> ('s, 'f cmd) run" where
  "ShutdownNoSave c = shutdown c ''NOSAVE''"

definition SlaveOf ::
    "('f, 's, 'r) commandable \<Rightarrow> string \<Rightarrow> string \<Rightarrow> ('s, 'r) run" where
  "SlaveOf c host port = Process c (newKeylessStatusCmd [''SLAVEOF'', host, port])"

definition SlowLog :: "('f, 's, 'r) commandable \<Rightarrow> ('s, 'r) run" where
  "SlowLog c s = None"

definition Sync :: "('f, 's, 'r) commandable \<Rightarrow> ('s, 'r) run" where
  "Sync c s = None"

definition Time :: "('f, 's, 'r) commandable \<Rightarrow> ('s, 'r) run" where
  "Time c = Process c ((NewStringSliceCmd [''TIME''])\<lparr>Q_clusterKeyPos := 0\<rparr>)"

section \<open>Scripts\<close>

definition eval_cmd ::
    "string \<Rightarrow> string \<Rightarrow> string list \<Rightarrow> string list \<Rightarrow> 'f cmd" where
  "eval_cmd name script keys args1 =
     (let cmd = NewCmd ([name, script, show_int (int (length keys))] @ keys @ args1)
      in if length keys > 0 then cmd\<lparr>Q_clusterKeyPos := 3\<rparr> else cmd)"

definition Eval ::
    "('f, 's, 'r) commandable \<Rightarrow> string \<Rightarrow> string list \<Rightarrow> string list \<Rightarrow> ('s, 'r) run" where
  "Eval c script keys args1 = Process c (eval_cmd ''EVAL'' script keys args1)"

definition EvalSha ::
    "('f, 's, 'r) commandable \<Rightarrow> string \<Rightarrow> string list \<Rightarrow> string list \<Rightarrow> ('s, 'r) run" where
  "EvalSha c sha1 keys args1 = Process c (eval_cmd ''EVALSHA'' sha1 keys args1)"

definition ScriptExists ::
    "('f, 's, 'r) commandable \<Rightarrow> string list \<Rightarrow> ('s, 'r) run" where
  "ScriptExists c scripts =
     Process c ((NewBoolSliceCmd ([''SCRIPT'', ''EXISTS''] @ scripts))\<lparr>Q_clusterKeyPos := 0\<rparr>)"

definition ScriptFlush :: "('f, 's, 'r) commandable \<Rightarrow> ('s, 'r) run" where
  "ScriptFlush c = Process c (newKeylessStatusCmd [''SCRIPT'', ''FLUSH''])"

definition ScriptKill :: "('f, 's, 'r) commandable \<Rightarrow> ('s, 'r) run" where
  "ScriptKill c = Process c (newKeylessStatusCmd [''SCRIPT'', ''KILL''])"

definition ScriptLoad :: "('f, 's, 'r) commandable \<Rightarrow> string \<Rightarrow> ('s, 'r) run" where
  "ScriptLoad c script =
     Process c ((NewStringCmd [''SCRIPT'', ''LOAD'', script])\<lparr>Q_clusterKeyPos := 0\<rparr>)"

section \<open>Debugging, pubsub and the cluster\<close>

definition DebugObject :: "('f, 's, 'r) commandable \<Rightarrow> string \<Rightarrow> ('s, 'r) run" where
  "DebugObject c key = Process c ((NewStringCmd
       [''DEBUG'', ''OBJECT'', key])\<lparr>Q_clusterKeyPos := 2\<rparr>)"

definition PubSubChannels :: "('f, 's, 'r) commandable \<Rightarrow> string \<Rightarrow> ('s, 'r) run" where
  "PubSubChannels c pattern =
     Process c ((NewStringSliceCmd ([''PUBSUB'', ''CHANNELS''] @ (if pattern \<noteq> ''*'' then [pattern] else [])))
       \<lparr>Q_clusterKeyPos := 0\<rparr>)"

definition PubSubNumSub :: "('f, 's, 'r) commandable \<Rightarrow> string list \<Rightarrow> ('s, 'r) run" where
  "PubSubNumSub c channels =
     Process c ((NewStringIntMapCmd ([''PUBSUB'', ''NUMSUB''] @ channels))\<lparr>Q_clusterKeyPos := 0\<rparr>)"

definition PubSubNumPat :: "('f, 's, 'r) commandable \<Rightarrow> ('s, 'r) run" where
  "PubSubNumPat c = Process c ((NewIntCmd [''PUBSUB'', ''NUMPAT''])\<lparr>Q_clusterKeyPos := 0\<rparr>)"

definition ClusterSlots :: "('f, 's, 'r) commandable \<Rightarrow> ('s, 'r) run" where
  "ClusterSlots c = Process c ((NewClusterSlotCmd
       [''CLUSTER'', ''slots''])\<lparr>Q_clusterKeyPos := 0\<rparr>)"

definition ClusterNodes :: "('f, 's, 'r) commandable \<Rightarrow> ('s, 'r) run" where
  "ClusterNodes c = Process c ((NewStringCmd [''CLUSTER'', ''nodes''])\<lparr>Q_clusterKeyPos := 0\<rparr>)"

definition ClusterMeet ::
    "('f, 's, 'r) commandable \<Rightarrow> string \<Rightarrow> string \<Rightarrow> ('s, 'r) run" where
  "ClusterMeet c host port = Process c (newKeylessStatusCmd [''CLUSTER'', ''meet'', host, port])"

definition ClusterReplicate ::
    "('f, 's, 'r) commandable \<Rightarrow> string \<Rightarrow> ('s, 'r) run" where
  "ClusterReplicate c nodeID = Process c (newKeylessStatusCmd [''CLUSTER'', ''replicate'', nodeID])"

definition ClusterInfo :: "('f, 's, 'r) commandable \<Rightarrow> ('s, 'r) run" where
  "ClusterInfo c = Process c ((NewStringCmd [''CLUSTER'', ''info''])\<lparr>Q_clusterKeyPos := 0\<rparr>)"

definition ClusterFailover :: "('f, 's, 'r) commandable \<Rightarrow> ('s, 'r) run" where
  "ClusterFailover c = Process c (newKeylessStatusCmd [''CLUSTER'', ''failover''])"

definition ClusterAddSlots :: "('f, 's, 'r) commandable \<Rightarrow> int list \<Rightarrow> ('s, 'r) run" where
  "ClusterAddSlots c slots =
     Process c (newKeylessStatusCmd ([''CLUSTER'', ''addslots''] @ List.map show_int slots))"

text \<open>A negative size panics in make.\<close>

definition ClusterAddSlotsRange ::
    "('f, 's, 'r) commandable \<Rightarrow> int \<Rightarrow> int \<Rightarrow> ('s, 'r) run" where
  "ClusterAddSlotsRange c min1 max1 s =
     (let len = add_int (add_int max1 (- min1)) 1
      in if len < 0 then None
         else ClusterAddSlots c (List.map (\<lambda>i. min1 + int i) [0..<nat len]) s)"

end
