(* ===== verification/RedisNet.thy ===== *)
theory RedisNet
  imports RedisCommands
begin

text \<open>
  Connections of the vendored redis client (redis.v3/conn.go), how a command is processed on one
  (redis.go), the pool of a single connection (pool.go) and the dialer, which logs in on a new
  connection. A connection is a pointer, so there is a store of them; a pool is the interface of
  the code, a record of operations on a state of its own and the store. What the network does is
  scripted: what each dial gives, what a connection delivers and what its writes return. \<open>None\<close> is
  a panic.
\<close>

section \<open>Connections\<close>

text \<open>A write that fails has sent a part.\<close>

type_synonym write_script = "(nat \<times> io_error) option list"

record conn =
  N_rd :: Reader
  N_out :: string                    \<comment> \<open>all that was written\<close>
  N_writes :: write_script
  N_closed :: bool
  N_usedAt :: "int option"           \<comment> \<open>None: the zero time\<close>
  N_ReadTimeout :: int
  N_WriteTimeout :: int

record net =
  M_conns :: "nat \<Rightarrow> conn"
  M_next :: nat                      \<comment> \<open>the first free address\<close>
  M_dials :: "nat \<Rightarrow> nat \<times> (io_error + source \<times> write_script)"
                                     \<comment> \<open>the dials to come, without end: how long each takes and what it gives\<close>
  M_now :: int
  M_patience :: nat                  \<comment> \<open>how often a wait can look before its deadline\<close>

definition fresh_conn :: "source \<Rightarrow> write_script \<Rightarrow> conn" where
  "fresh_conn src ws = \<lparr>N_rd = NewReader src, N_out = [], N_writes = ws, N_closed = False, N_usedAt = None,
     N_ReadTimeout = 0, N_WriteTimeout = 0\<rparr>"

definition set_conn :: "nat \<Rightarrow> conn \<Rightarrow> net \<Rightarrow> net" where
  "set_conn a cn m = m\<lparr>M_conns := (M_conns m)(a := cn)\<rparr>"

definition net_dial :: "net \<Rightarrow> (io_error + nat) \<times> net" where
  "net_dial m =
     (case M_dials m 0 of
        (t, r) \<Rightarrow>
          (let m = m\<lparr>M_dials := \<lambda>k. M_dials m (Suc k), M_now := M_now m + int t\<rparr>
           in case r of
                Inl e \<Rightarrow> (Inl e, m)
              | Inr (src, ws) \<Rightarrow> (Inr (M_next m), set_conn (M_next m) (fresh_conn src ws) (m\<lparr>M_next := M_next m + 1\<rparr>))))"

definition conn_Write :: "string \<Rightarrow> conn \<Rightarrow> io_error option \<times> conn" where
  "conn_Write b cn =
     (if N_closed cn then (Some (ConnError False), cn)
      else case N_writes cn of
        [] \<Rightarrow> (None, cn\<lparr>N_out := N_out cn @ b\<rparr>)
      | None # ws \<Rightarrow> (None, cn\<lparr>N_out := N_out cn @ b, N_writes := ws\<rparr>)
      | Some (k, e) # ws \<Rightarrow> (Some e, cn\<lparr>N_out := N_out cn @ take k b, N_writes := ws\<rparr>))"

definition writeCmds :: "'f cmd list \<Rightarrow> conn \<Rightarrow> io_error option \<times> conn" where
  "writeCmds cmds cn = conn_Write (fold (\<lambda>cmd buf. appendArgs buf (Q_args cmd)) cmds []) cn"

text \<open>What is in the buffer can still be read from a closed connection, nothing more.\<close>

definition conn_Close :: "conn \<Rightarrow> redis_error option \<times> conn" where
  "conn_Close cn =
     (if N_closed cn then (Some (ReadError (ConnError False)), cn)
      else (None, cn\<lparr>N_closed := True, N_rd := (N_rd cn)\<lparr>R_src := [([], Some (ConnError False))]\<rparr>\<rparr>))"

definition close_conn :: "nat \<Rightarrow> net \<Rightarrow> redis_error option \<times> net" where
  "close_conn a m = (case conn_Close (M_conns m a) of (e, cn) \<Rightarrow> (e, set_conn a cn m))"

section \<open>The interface of a pool\<close>

type_synonym ('p, 'a) pooled = "'p \<times> net \<Rightarrow> ('a \<times> 'p \<times> net) option"

record 'p pool =
  pool_First :: "('p, nat option) pooled"
  pool_Get :: "('p, redis_error + nat) pooled"
  pool_Put :: "nat \<Rightarrow> ('p, redis_error option) pooled"
  pool_Remove :: "nat \<Rightarrow> ('p, redis_error option) pooled"
  pool_Len :: "'p \<times> net \<Rightarrow> int"
  pool_FreeLen :: "'p \<times> net \<Rightarrow> int"
  pool_Close :: "('p, redis_error option) pooled"

definition errClosed :: redis_error where "errClosed = ClientError ''redis: client is closed''"
definition errPoolTimeout :: redis_error where "errPoolTimeout = ClientError ''redis: connection pool timeout''"

section \<open>Options\<close>

record Options =
  O_Network :: string
  O_Addr :: string
  O_Password :: string
  O_DB :: int
  O_MaxRetries :: int
  O_DialTimeout :: int
  O_ReadTimeout :: int
  O_WriteTimeout :: int
  O_PoolSize :: int
  O_PoolTimeout :: int
  O_IdleTimeout :: int

definition getNetwork :: "Options \<Rightarrow> string" where
  "getNetwork opt = (if O_Network opt = [] then ''tcp'' else O_Network opt)"

definition getPoolSize :: "Options \<Rightarrow> int" where
  "getPoolSize opt = (if O_PoolSize opt = 0 then 10 else O_PoolSize opt)"

definition getDialTimeout :: "Options \<Rightarrow> int" where
  "getDialTimeout opt = (if O_DialTimeout opt = 0 then 5 * 1000000000 else O_DialTimeout opt)"

definition getPoolTimeout :: "Options \<Rightarrow> int" where
  "getPoolTimeout opt = (if O_PoolTimeout opt = 0 then 1 * 1000000000 else O_PoolTimeout opt)"

definition getIdleTimeout :: "Options \<Rightarrow> int" where
  "getIdleTimeout opt = O_IdleTimeout opt"

section \<open>Processing a command\<close>

text \<open>What Remove or Put answer is only logged.\<close>

definition putConn :: "'p pool \<Rightarrow> nat \<Rightarrow> redis_error option \<Rightarrow> ('p, unit) pooled" where
  "putConn pl cn ei S =
     map_option (\<lambda>(_, S). ((), S))
       (if Buffered (N_rd (M_conns (snd S) cn)) > 0 then pool_Remove pl cn S
        else case ei of
          None \<Rightarrow> pool_Put pl cn S
        | Some (RedisError _) \<Rightarrow> pool_Put pl cn S
        | Some _ \<Rightarrow> pool_Remove pl cn S)"

definition set_timeouts :: "Options \<Rightarrow> 'f cmd \<Rightarrow> conn \<Rightarrow> conn" where
  "set_timeouts opt cmd cn =
     cn\<lparr>N_WriteTimeout := (case Q_writeTimeout cmd of Some t \<Rightarrow> t | None \<Rightarrow> O_WriteTimeout opt),
        N_ReadTimeout := (case Q_readTimeout cmd of Some t \<Rightarrow> t | None \<Rightarrow> O_ReadTimeout opt)\<rparr>"

text \<open>The command on one connection: written, its reply taken; the error and the command with its result.\<close>

definition exchange :: "'f floats \<Rightarrow> 'f cmd \<Rightarrow> conn \<Rightarrow> ((redis_error option \<times> 'f cmd) \<times> conn) option" where
  "exchange fl cmd cn =
     (case writeCmds [cmd] cn of
        (Some e, cn) \<Rightarrow> Some ((Some (ReadError e), setErr (Some (ReadError e)) cmd), cn)
      | (None, cn) \<Rightarrow> map_option (\<lambda>(r, rd). (r, cn\<lparr>N_rd := rd\<rparr>)) (cmd_parseReply fl cmd (N_rd cn)))"

text \<open>\<open>n\<close> attempts are left; all but the first reset the command.\<close>

fun process_loop :: "'f floats \<Rightarrow> 'p pool \<Rightarrow> Options \<Rightarrow> bool \<Rightarrow> nat \<Rightarrow> 'f cmd \<Rightarrow> ('p, 'f cmd) pooled" where
  "process_loop fl pl opt again 0 cmd S = Some (cmd, S)"
| "process_loop fl pl opt again (Suc n) cmd S = do {
     let cmd = (if again then reset fl cmd else cmd);
     (r, p, m) \<leftarrow> pool_Get pl S;
     (case r of
        Inl e \<Rightarrow> Some (setErr (Some e) cmd, p, m)
      | Inr cn \<Rightarrow> do {
          ((err, cmd), c) \<leftarrow> exchange fl cmd (set_timeouts opt cmd (M_conns m cn));
          (_, S) \<leftarrow> putConn pl cn err (p, set_conn cn c m);
          (if shouldRetry err then process_loop fl pl opt True n cmd S else Some (cmd, S))
        })
   }"

definition client_process :: "'f floats \<Rightarrow> 'p pool \<Rightarrow> Options \<Rightarrow> 'f cmd \<Rightarrow> ('p, 'f cmd) pooled" where
  "client_process fl pl opt cmd S = process_loop fl pl opt False (nat (O_MaxRetries opt + 1)) cmd S"

section \<open>The pool of one connection\<close>

record 'q single =
  SP_cn :: "nat option"
  SP_reusable :: bool
  SP_closed :: bool
  SP_inner :: 'q

definition newSingleConnPool :: "'q \<Rightarrow> bool \<Rightarrow> 'q single" where
  "newSingleConnPool q reusable = \<lparr>SP_cn = None, SP_reusable = reusable, SP_closed = False, SP_inner = q\<rparr>"

definition SetConn :: "nat \<Rightarrow> 'q single \<Rightarrow> 'q single" where
  "SetConn cn p = p\<lparr>SP_cn := Some cn\<rparr>"

text \<open>An operation of the pool inside, which may be nil: then the call panics.\<close>

definition inside :: "'q pool option \<Rightarrow> ('q pool \<Rightarrow> ('q, 'a) pooled) \<Rightarrow> ('q single, 'a) pooled" where
  "inside pl f S =
     (case (pl, S) of
        (None, _) \<Rightarrow> None
      | (Some pl, p, m) \<Rightarrow> map_option (\<lambda>(x, q, m). (x, p\<lparr>SP_inner := q\<rparr>, m)) (f pl (SP_inner p, m)))"

definition single_First :: "('q single, nat option) pooled" where
  "single_First S = Some (SP_cn (fst S), S)"

definition single_Get :: "'q pool option \<Rightarrow> ('q single, redis_error + nat) pooled" where
  "single_Get pl S =
     (if SP_closed (fst S) then Some (Inl errClosed, S)
      else case SP_cn (fst S) of
        Some cn \<Rightarrow> Some (Inr cn, S)
      | None \<Rightarrow>
          map_option (\<lambda>(r, p, m). (r, (case r of Inl _ \<Rightarrow> p | Inr cn \<Rightarrow> p\<lparr>SP_cn := Some cn\<rparr>), m))
            (inside pl pool_Get S))"

definition single_Put :: "nat \<Rightarrow> ('q single, redis_error option) pooled" where
  "single_Put cn S =
     (if SP_cn (fst S) \<noteq> Some cn then None
      else Some (if SP_closed (fst S) then Some errClosed else None, S))"

text \<open>put and remove give the connection to the pool inside.\<close>

definition give_back :: "'q pool option \<Rightarrow> ('q pool \<Rightarrow> nat \<Rightarrow> ('q, redis_error option) pooled) \<Rightarrow> nat \<Rightarrow>
    ('q single, redis_error option) pooled" where
  "give_back pl f cn S =
     map_option (\<lambda>(e, p, m). (e, p\<lparr>SP_cn := None\<rparr>, m)) (inside pl (\<lambda>pl. f pl cn) S)"

definition single_Remove :: "'q pool option \<Rightarrow> nat \<Rightarrow> ('q single, redis_error option) pooled" where
  "single_Remove pl cn S =
     (if SP_cn (fst S) \<noteq> Some cn then None
      else if SP_closed (fst S) then Some (Some errClosed, S)
      else give_back pl pool_Remove cn S)"

definition single_Len :: "'q single \<times> net \<Rightarrow> int" where
  "single_Len S = (if SP_cn (fst S) = None then 0 else 1)"

definition single_Close :: "'q pool option \<Rightarrow> ('q single, redis_error option) pooled" where
  "single_Close pl S =
     (if SP_closed (fst S) then Some (None, S)
      else let S = ((fst S)\<lparr>SP_closed := True\<rparr>, snd S)
        in case SP_cn (fst S) of
          None \<Rightarrow> Some (None, S)
        | Some cn \<Rightarrow> give_back pl (if SP_reusable (fst S) then pool_Put else pool_Remove) cn S)"

definition singleConnPool :: "'q pool option \<Rightarrow> 'q single pool" where
  "singleConnPool pl = \<lparr>pool_First = single_First, pool_Get = single_Get pl, pool_Put = single_Put,
     pool_Remove = single_Remove pl, pool_Len = single_Len, pool_FreeLen = single_Len, pool_Close = single_Close pl\<rparr>"

section \<open>The dialer\<close>

definition nil_pool :: "unit pool option" where "nil_pool = None"

text \<open>init has a client of its own on the new connection and sends AUTH and SELECT with it.\<close>

definition init_conn :: "'f floats \<Rightarrow> Options \<Rightarrow> nat \<Rightarrow> net \<Rightarrow> (redis_error option \<times> net) option" where
  "init_conn fl opt cn m =
     (if O_Password opt = [] \<and> O_DB opt = 0 then Some (None, m)
      else do {
        let c = client_process fl (singleConnPool nil_pool) opt;
        let S = (SetConn cn (newSingleConnPool () False), m);
        (e, S) \<leftarrow> (if O_Password opt \<noteq> [] then map_option (\<lambda>(cmd, S). (Q_err cmd, S)) (Auth c (O_Password opt) S)
                  else Some (None, S));
        (if e \<noteq> None then Some (e, snd S)
         else if O_DB opt > 0 then map_option (\<lambda>(cmd, S). (Q_err cmd, snd S)) (Select c (O_DB opt) S)
         else Some (None, snd S))
      })"

text \<open>On an error the connection stays as it is: nobody has it, nobody closes it.\<close>

definition dial_conn :: "'f floats \<Rightarrow> Options \<Rightarrow> net \<Rightarrow> ((redis_error + nat) \<times> net) option" where
  "dial_conn fl opt m =
     (case net_dial m of
        (Inl e, m) \<Rightarrow> Some (Inl (ReadError e), m)
      | (Inr cn, m) \<Rightarrow>
          map_option (\<lambda>(e, m). (case e of Some e \<Rightarrow> Inl e | None \<Rightarrow> Inr cn, m)) (init_conn fl opt cn m))"

end
