(* ===== verification/RateLimit.thy ===== *)
theory RateLimit
  imports Prelude
begin

text \<open>
  The rate limiter of the connection pool (ratelimit.v1/ratelimit.go), in the 64 bits it counts
  in: an allowance in nanoseconds that grows with the clock up to its maximum, and of which a call
  that passes takes one unit. The clock is an argument.
\<close>

type_synonym uint64 = "64 word"

record RateLimiter =
  RL_allowance :: uint64
  RL_max :: uint64
  RL_unit :: uint64
  RL_lastCheck :: uint64

definition New_limiter :: "int \<Rightarrow> int \<Rightarrow> int \<Rightarrow> RateLimiter" where
  "New_limiter now rate per =
     (let nano = (if (word_of_int per :: uint64) < 1 then 1000000000 else word_of_int per);
          most = word_of_int (if rate < 1 then 1 else rate) * nano
      in \<lparr>RL_allowance = most, RL_max = most, RL_unit = nano, RL_lastCheck = word_of_int now\<rparr>)"

definition cap_allowance :: "uint64 \<Rightarrow> RateLimiter \<Rightarrow> RateLimiter" where
  "cap_allowance current rl =
     (if current > RL_max rl then rl\<lparr>RL_allowance := RL_allowance rl + (RL_max rl - current)\<rparr> else rl)"

definition Limit :: "int \<Rightarrow> RateLimiter \<Rightarrow> bool \<times> RateLimiter" where
  "Limit now rl =
     (let passed = word_of_int now - RL_lastCheck rl;
          current = RL_allowance rl + passed;
          rl = cap_allowance current (rl\<lparr>RL_lastCheck := word_of_int now, RL_allowance := current\<rparr>);
          current = min current (RL_max rl)
      in if current < RL_unit rl then (True, rl)
         else (False, rl\<lparr>RL_allowance := RL_allowance rl - RL_unit rl\<rparr>))"

definition Undo :: "RateLimiter \<Rightarrow> RateLimiter" where
  "Undo rl =
     (let current = RL_allowance rl + RL_unit rl
      in cap_allowance current (rl\<lparr>RL_allowance := current\<rparr>))"

section \<open>The abstract bucket\<close>

text \<open>
  In natural numbers: \<open>a\<close> of at most \<open>m\<close> in the bucket, \<open>u\<close> for a call. The words implement it while
  maximum and waiting time together stay below 2^64 nanoseconds, some 584 years.
\<close>

definition bucket :: "nat \<Rightarrow> nat \<Rightarrow> nat \<Rightarrow> nat \<Rightarrow> bool \<times> nat" where
  "bucket m u passed a =
     (let a = min m (a + passed) in if a < u then (True, a) else (False, a - u))"

definition full_at_most :: "RateLimiter \<Rightarrow> bool" where
  "full_at_most rl \<longleftrightarrow> RL_allowance rl \<le> RL_max rl"

lemma passed_time:
  assumes "0 \<le> t" "t \<le> now" "now < 2 ^ 64"
  shows "unat (word_of_int now - word_of_int t :: uint64) = nat (now - t)"
proof -
  have "(word_of_int now - word_of_int t :: uint64) = word_of_int (now - t)" by simp
  then show ?thesis using assms by (simp add: unsigned_of_int take_bit_int_eq_self del: of_int_diff)
qed

lemma Limit_bucket:
  assumes rl: "full_at_most rl" and passed: "p = unat (word_of_int now - RL_lastCheck rl)"
    and room: "unat (RL_max rl) + p < 2 ^ 64"
    and lim: "Limit now rl = (limited, rl')"
  shows "bucket (unat (RL_max rl)) (unat (RL_unit rl)) p (unat (RL_allowance rl)) = (limited, unat (RL_allowance rl'))
    \<and> full_at_most rl' \<and> RL_max rl' = RL_max rl \<and> RL_unit rl' = RL_unit rl \<and> RL_lastCheck rl' = word_of_int now"
proof -
  let ?c = "RL_allowance rl + (word_of_int now - RL_lastCheck rl)"
  have a: "unat (RL_allowance rl) \<le> unat (RL_max rl)" using rl by (simp add: full_at_most_def word_le_nat_alt)
  then have c: "unat ?c = unat (RL_allowance rl) + p"
    using room unfolding passed by (subst unat_add_lem [THEN iffD1]) (simp_all add: )
  let ?m = "min ?c (RL_max rl)"
  have m: "unat ?m = min (unat (RL_max rl)) (unat (RL_allowance rl) + p)"
    using c by (auto simp: min_def word_le_nat_alt)
  have "limited = (?m < RL_unit rl)" "RL_allowance rl' = (if ?m < RL_unit rl then ?m else ?m - RL_unit rl)"
    "RL_max rl' = RL_max rl" "RL_unit rl' = RL_unit rl" "RL_lastCheck rl' = word_of_int now"
    using lim by (auto simp: Limit_def cap_allowance_def Let_def min_def split: if_splits)
  moreover have "unat (?m - RL_unit rl) = unat ?m - unat (RL_unit rl)" if "\<not> ?m < RL_unit rl"
    using that by (intro unat_sub) (simp add: not_less)
  ultimately show ?thesis
    using m by (auto simp: bucket_def Let_def full_at_most_def word_less_nat_alt word_le_nat_alt)
qed

section \<open>How much passes\<close>

fun limits :: "int list \<Rightarrow> RateLimiter \<Rightarrow> bool list" where
  "limits [] rl = []"
| "limits (t # ts) rl = (case Limit t rl of (limited, rl) \<Rightarrow> limited # limits ts rl)"

text \<open>The calls that passed among those made from \<open>a\<close> to \<open>b\<close>.\<close>

definition passed_between :: "int \<Rightarrow> int \<Rightarrow> int list \<Rightarrow> bool list \<Rightarrow> nat" where
  "passed_between a b ts ls = length (List.filter (\<lambda>(t, limited). a \<le> t \<and> t \<le> b \<and> \<not> limited) (zip ts ls))"

lemma passed_between_simps [simp]:
  "passed_between a b [] ls = 0"
  "passed_between a b (t # ts) (l # ls) = (if a \<le> t \<and> t \<le> b \<and> \<not> l then 1 else 0) + passed_between a b ts ls"
  by (simp_all add: passed_between_def)

lemma passed_between_later: "\<forall>t\<in>set ts. b < t \<Longrightarrow> passed_between a b ts ls = 0"
  by (auto simp: passed_between_def filter_empty_conv dest!: set_zip_leftD)

lemma bucket_spends:
  "bucket m u p a = (limited, a') \<Longrightarrow> a' + (if limited then 0 else u) \<le> min m (a + p)"
  by (auto simp: bucket_def Let_def split: if_splits)

definition room_until :: "RateLimiter \<Rightarrow> int list \<Rightarrow> bool" where
  "room_until rl ts \<longleftrightarrow> (\<forall>t\<in>set ts. int (unat (RL_max rl)) + t < 2 ^ 64)"

text \<open>One call: it spends of what was there and of what the time has added, and never of more than the maximum.\<close>

lemma Limit_spends:
  assumes full: "full_at_most rl" and last: "RL_lastCheck rl = word_of_int t0" "0 \<le> t0" "sorted (t0 # t # ts)"
    and room: "room_until rl (t # ts)" and lim: "Limit t rl = (l, rl')"
  shows "full_at_most rl'" "RL_lastCheck rl' = word_of_int t" "room_until rl' ts" "0 \<le> t" "sorted (t # ts)"
    "RL_max rl' = RL_max rl" "RL_unit rl' = RL_unit rl"
    "int (unat (RL_allowance rl')) + (if l then 0 else int (unat (RL_unit rl))) \<le> int (unat (RL_max rl))"
    "int (unat (RL_allowance rl')) + (if l then 0 else int (unat (RL_unit rl))) \<le> int (unat (RL_allowance rl)) + (t - t0)"
proof -
  have t: "t0 \<le> t" "int (unat (RL_max rl)) + t < 2 ^ 64" using last(3) room by (auto simp: room_until_def)
  let ?p = "nat (t - t0)"
  have "t < 2 ^ 64" using t(2) by linarith
  then have p: "?p = unat (word_of_int t - RL_lastCheck rl)"
    unfolding last(1) by (rule passed_time [OF last(2) t(1), symmetric])
  have "int (unat (RL_max rl) + ?p) < 2 ^ 64" using t last(2) by simp
  then have "unat (RL_max rl) + ?p < 2 ^ 64" by (simp only: of_nat_less_numeral_power_cancel_iff)
  note step = Limit_bucket [OF full p this lim]
  then have "unat (RL_allowance rl') + (if l then 0 else unat (RL_unit rl)) \<le> min (unat (RL_max rl)) (unat (RL_allowance rl) + ?p)"
    using bucket_spends by blast
  then have "int (unat (RL_allowance rl') + (if l then 0 else unat (RL_unit rl))) \<le> min (int (unat (RL_max rl))) (int (unat (RL_allowance rl)) + (t - t0))"
    using t(1) by linarith
  then show "int (unat (RL_allowance rl')) + (if l then 0 else int (unat (RL_unit rl))) \<le> int (unat (RL_max rl))"
    "int (unat (RL_allowance rl')) + (if l then 0 else int (unat (RL_unit rl))) \<le> int (unat (RL_allowance rl)) + (t - t0)"
    by (cases l; simp)+
  show "full_at_most rl'" "RL_lastCheck rl' = word_of_int t" "room_until rl' ts" "0 \<le> t" "sorted (t # ts)"
    "RL_max rl' = RL_max rl" "RL_unit rl' = RL_unit rl"
    using step last t(1) room by (auto simp: room_until_def)
qed

lemma limits_spend_within:
  assumes "full_at_most rl" "RL_lastCheck rl = word_of_int t0" "0 \<le> t0" "sorted (t0 # ts)" "room_until rl ts" "a \<le> t0" "t0 \<le> b"
  shows "int (passed_between a b ts (limits ts rl)) * int (unat (RL_unit rl)) \<le> int (unat (RL_allowance rl)) + (b - t0)"
  using assms
proof (induction ts arbitrary: t0 rl)
  case (Cons t ts)
  obtain l rl' where lim: "Limit t rl = (l, rl')" by force
  note step = Limit_spends [OF Cons.prems(1-5) lim]
  show ?case
  proof (cases "t \<le> b")
    case True
    have "a \<le> t" using Cons.prems(4,6) by simp
    then have "int (passed_between a b ts (limits ts rl')) * int (unat (RL_unit rl')) \<le> int (unat (RL_allowance rl')) + (b - t)"
      by (intro Cons.IH step True)
    then show ?thesis using step(7,9) True \<open>a \<le> t\<close> by (auto simp: lim algebra_simps)
  next
    case False
    then have "\<forall>x\<in>set (t # ts). b < x" using Cons.prems(4) by fastforce
    then show ?thesis using Cons.prems(7) by (simp only: passed_between_later)
  qed
qed simp

lemma limits_spend:
  assumes "full_at_most rl" "RL_lastCheck rl = word_of_int t0" "0 \<le> t0" "sorted (t0 # ts)" "room_until rl ts" "a \<le> b"
  shows "int (passed_between a b ts (limits ts rl)) * int (unat (RL_unit rl)) \<le> int (unat (RL_max rl)) + (b - a)"
  using assms
proof (induction ts arbitrary: t0 rl)
  case (Cons t ts)
  obtain l rl' where lim: "Limit t rl = (l, rl')" by force
  note step = Limit_spends [OF Cons.prems(1-5) lim]
  consider (before) "t < a" | (within) "a \<le> t" "t \<le> b" | (later) "b < t" by linarith
  then show ?case
  proof cases
    case before
    then show ?thesis using Cons.IH [OF step(1,2,4,5,3)] step(6,7) Cons.prems(6) by (simp add: lim)
  next
    case within
    have "int (passed_between a b ts (limits ts rl')) * int (unat (RL_unit rl')) \<le> int (unat (RL_allowance rl')) + (b - t)"
      by (intro limits_spend_within step within)
    then show ?thesis using step(7,8) within by (auto simp: lim algebra_simps)
  next
    case later
    then have "\<forall>x\<in>set (t # ts). b < x" using Cons.prems(4) by fastforce
    then show ?thesis using Cons.prems(6) by (simp only: passed_between_later)
  qed
qed simp

lemma New_limiter_fields:
  assumes "1 \<le> rate" "1 \<le> per" "rate * per < 2 ^ 64"
  shows "unat (RL_max (New_limiter now rate per)) = nat (rate * per)" "unat (RL_unit (New_limiter now rate per)) = nat per"
    "RL_allowance (New_limiter now rate per) = RL_max (New_limiter now rate per)"
    "RL_lastCheck (New_limiter now rate per) = word_of_int now"
proof -
  have "1 * per \<le> rate * per" using assms by (intro mult_right_mono) (use assms in auto)
  then have small: "per < 2 ^ 64" "0 \<le> rate * per" using assms by linarith+
  have "\<not> (word_of_int per :: uint64) < 1"
    using assms(2) small by (simp add: word_less_nat_alt unsigned_of_int take_bit_int_eq_self)
  then have new: "New_limiter now rate per = \<lparr>RL_allowance = word_of_int (rate * per), RL_max = word_of_int (rate * per),
      RL_unit = word_of_int per, RL_lastCheck = word_of_int now\<rparr>"
    using assms(1) by (simp add: New_limiter_def Let_def)
  show "unat (RL_max (New_limiter now rate per)) = nat (rate * per)" "unat (RL_unit (New_limiter now rate per)) = nat per"
    "RL_allowance (New_limiter now rate per) = RL_max (New_limiter now rate per)"
    "RL_lastCheck (New_limiter now rate per) = word_of_int now"
    unfolding new using assms small by (simp_all add: unsigned_of_int take_bit_int_eq_self del: of_int_mult)
qed

text \<open>
  C24. The limiter keeps its promise over any stretch of time: of the calls made one after the other on a limiter, those made
  from \<open>a\<close> to \<open>b\<close> that pass are at most \<open>rate\<close> and one more for each whole \<open>per\<close> of the stretch, however long the limiter was idle
  before. (Clocks and maximum stay below 2^64 nanoseconds. Calls that overlap keep no such promise, see the end of this theory.)
\<close>

theorem rate_is_limited:
  assumes "1 \<le> rate" "1 \<le> per" "0 \<le> t0" "sorted (t0 # ts)" "a \<le> b"
    and "rate * per < 2 ^ 64" "\<forall>t\<in>set ts. rate * per + t < 2 ^ 64"
  shows "int (passed_between a b ts (limits ts (New_limiter t0 rate per))) \<le> rate + (b - a) div per"
proof -
  let ?rl = "New_limiter t0 rate per" and ?n = "int (passed_between a b ts (limits ts (New_limiter t0 rate per)))"
  note new = New_limiter_fields [OF assms(1,2,6), of t0]
  have pos: "0 < rate * per" using assms(1,2) by simp
  have "?n * int (unat (RL_unit ?rl)) \<le> int (unat (RL_max ?rl)) + (b - a)"
    by (rule limits_spend) (use assms new pos in \<open>auto simp: full_at_most_def room_until_def\<close>)
  then have "?n * per \<le> rate * per + (b - a)" using new assms(2) pos by simp
  then have "?n * per div per \<le> (rate * per + (b - a)) div per" using assms(2) by (intro zdiv_mono1) auto
  then show ?thesis using assms(2) by simp
qed

theorem rate_is_limited_witness:
  "int (passed_between 9000 9500 [1000, 1500, 9000, 9100, 9200, 9999] (limits [1000, 1500, 9000, 9100, 9200, 9999] (New_limiter 1000 2 1000)))
     \<le> 2 + (9500 - 9000) div 1000"
  by (rule rate_is_limited) simp_all

lemma limits_example: "limits [1000, 1500, 1900, 2400] (New_limiter 1000 2 1000) = [False, False, True, False]"
  by code_simp

section \<open>Calls that overlap\<close>

text \<open>
  Limit is not one atomic step: it reads the clock, swaps the last check, adds to the allowance, caps it and takes a unit,
  each by itself atomic. Where a call stands is one of these; \<open>limit_next\<close> makes its next step, and \<open>limiter_run\<close> the steps of several
  calls in the order of a schedule of (clock, call).
\<close>

datatype limit_at =
    L_clock
  | L_swap uint64
  | L_add uint64
  | L_cap uint64
  | L_take uint64
  | L_done bool

fun limit_next :: "int \<Rightarrow> RateLimiter \<Rightarrow> limit_at \<Rightarrow> RateLimiter \<times> limit_at" where
  "limit_next clock rl L_clock = (rl, L_swap (word_of_int clock))"
| "limit_next clock rl (L_swap now) = (rl\<lparr>RL_lastCheck := now\<rparr>, L_add (now - RL_lastCheck rl))"
| "limit_next clock rl (L_add passed) =
     (let current = RL_allowance rl + passed in (rl\<lparr>RL_allowance := current\<rparr>, L_cap current))"
| "limit_next clock rl (L_cap current) = (cap_allowance current rl, L_take (min current (RL_max rl)))"
| "limit_next clock rl (L_take current) =
     (if current < RL_unit rl then (rl, L_done True)
      else (rl\<lparr>RL_allowance := RL_allowance rl - RL_unit rl\<rparr>, L_done False))"
| "limit_next clock rl (L_done limited) = (rl, L_done limited)"

fun limiter_run :: "(int \<times> nat) list \<Rightarrow> RateLimiter \<Rightarrow> (nat \<Rightarrow> limit_at) \<Rightarrow> RateLimiter \<times> (nat \<Rightarrow> limit_at)" where
  "limiter_run [] rl at = (rl, at)"
| "limiter_run ((clock, i) # sched) rl at =
     (case limit_next clock rl (at i) of (rl, here) \<Rightarrow> limiter_run sched rl (at(i := here)))"

lemma limiter_run_append:
  "limiter_run (xs @ ys) rl at = (case limiter_run xs rl at of (rl, at) \<Rightarrow> limiter_run ys rl at)"
  by (induction xs rl at rule: limiter_run.induct) (auto simp: fun_upd_def split: prod.splits)

text \<open>Alone, a call is the Limit of above.\<close>

lemma Limit_is_its_steps:
  "limiter_run (replicate 5 (now, i)) rl (at(i := L_clock)) =
     (case Limit now rl of (limited, rl) \<Rightarrow> (rl, at(i := L_done limited)))"
  by (simp add: numeral_eq_Suc Limit_def cap_allowance_def Let_def)

lemma full_until_taken:
  assumes "RL_allowance rl = RL_max rl" "RL_lastCheck rl = word_of_int now" "at i = L_clock"
  shows "limiter_run (replicate 4 (now, i)) rl at = (rl, at(i := L_take (RL_max rl)))"
  using assms by (cases rl) (simp add: numeral_eq_Suc cap_allowance_def Let_def)

lemma all_see_it_full:
  assumes "RL_allowance rl = RL_max rl" "RL_lastCheck rl = word_of_int now"
  shows "limiter_run (concat (map (\<lambda>i. replicate 4 (now, i)) [0..<n])) rl (\<lambda>_. L_clock) =
    (rl, \<lambda>i. if i < n then L_take (RL_max rl) else L_clock)"
proof (induction n)
  case (Suc n)
  then show ?case
    using full_until_taken [OF assms, of "\<lambda>i. if i < n then L_take (RL_max rl) else L_clock" n]
    by (auto simp: limiter_run_append fun_eq_iff less_Suc_eq)
qed simp

lemma all_take:
  assumes "\<not> current < RL_unit rl" "\<forall>i<n. at i = L_take current"
  shows "limiter_run (map (Pair now) [0..<n]) rl at =
    (rl\<lparr>RL_allowance := RL_allowance rl - of_nat n * RL_unit rl\<rparr>, \<lambda>i. if i < n then L_done False else at i)"
  using assms(2)
proof (induction n)
  case (Suc n)
  then have "limiter_run (map (Pair now) [0..<n]) rl at =
    (rl\<lparr>RL_allowance := RL_allowance rl - of_nat n * RL_unit rl\<rparr>, \<lambda>i. if i < n then L_done False else at i)" by simp
  with Suc.prems assms(1) show ?case
    by (auto simp: limiter_run_append fun_eq_iff less_Suc_eq algebra_simps)
qed simp

text \<open>
  C25. Calls that overlap overrun the limiter: whatever the rate, any number of calls at one and the same instant can all pass, because each reads
  the allowance before any of them takes its unit. When they are more than the rate the allowance wraps around below zero, and the next
  call, which takes that for an overfull bucket, passes as well and fills the limiter up again.
\<close>

theorem limiter_overrun:
  assumes "1 \<le> rate" "1 \<le> per" "rate < n" "n * per + rate * per < 2 ^ 64"
  shows "\<exists>rl at. limiter_run (concat (map (\<lambda>i. replicate 4 (now, i)) [0..<nat n]) @ map (Pair now) [0..<nat n])
      (New_limiter now rate per) (\<lambda>_. L_clock) = (rl, at) \<and>
    (\<forall>i<nat n. at i = L_done False) \<and> RL_allowance rl = word_of_int ((rate - n) * per) \<and>
    Limit now rl = (False, (New_limiter now rate per)\<lparr>RL_allowance := word_of_int ((rate - 1) * per)\<rparr>)"
proof -
  let ?rl = "New_limiter now rate per"
  have pos: "0 < rate * per" "0 < n * per" using assms(1-3) by simp_all
  then have small: "rate * per < 2 ^ 64" using assms(4) by linarith
  have "1 * per \<le> rate * per" using assms by (intro mult_right_mono) auto
  then have "per < 2 ^ 64" using small by linarith
  note new = New_limiter_fields [OF assms(1,2) small, of now]
  have unit_max: "RL_unit ?rl = word_of_int per" "RL_max ?rl = word_of_int (rate * per)"
    by (rule word_unat_eq_iff [THEN iffD2], use new assms(2) pos small \<open>per < 2 ^ 64\<close> in
      \<open>simp add: unsigned_of_int take_bit_int_eq_self del: of_int_mult\<close>)+
  have enough: "\<not> RL_max ?rl < RL_unit ?rl"
    using new \<open>1 * per \<le> rate * per\<close> by (simp add: word_less_nat_alt nat_le_eq_zle not_less)
  let ?after = "?rl\<lparr>RL_allowance := RL_max ?rl - of_nat (nat n) * RL_unit ?rl\<rparr>"
  have run: "limiter_run (concat (map (\<lambda>i. replicate 4 (now, i)) [0..<nat n]) @ map (Pair now) [0..<nat n]) ?rl (\<lambda>_. L_clock) =
    (?after, \<lambda>i. if i < nat n then L_done False else L_clock)"
    using all_see_it_full [OF new(3,4), of "nat n"]
      all_take [OF enough, of "nat n" "\<lambda>i. if i < nat n then L_take (RL_max ?rl) else L_clock" now]
    by (simp add: limiter_run_append new(3) if_distrib cong: if_cong)
  have wrapped: "RL_allowance ?after = word_of_int ((rate - n) * per)"
    using assms(1,3) by (simp add: unit_max algebra_simps)
  have "(rate - n) * per mod 2 ^ 64 = (rate - n) * per + 2 ^ 64"
  proof -
    have "(rate - n) * per = rate * per - n * per" by (simp add: algebra_simps)
    moreover have "(rate * per - n * per + 2 ^ 64) mod 2 ^ 64 = rate * per - n * per + 2 ^ 64"
      using assms(4) pos mult_strict_right_mono [OF assms(3), of per] assms(2) by (intro mod_pos_pos_trivial) linarith+
    ultimately show ?thesis by (metis mod_add_self2)
  qed
  then have under: "RL_max ?rl < word_of_int ((rate - n) * per)"
    unfolding unit_max word_less_alt using pos small assms(4)
    by (simp add: unsigned_of_int take_bit_eq_mod del: of_int_mult) (simp add: algebra_simps)
  have same: "?rl\<lparr>RL_lastCheck := word_of_int now, RL_allowance := x\<rparr> = ?rl\<lparr>RL_allowance := x\<rparr>" for x
    by (rule RateLimiter.equality) (simp_all add: new(4))
  have "Limit now ?after = (False, ?rl\<lparr>RL_allowance := word_of_int ((rate - 1) * per)\<rparr>)"
    using wrapped enough under
    by (simp add: Limit_def cap_allowance_def Let_def new(4) min_def not_le) (simp add: same unit_max algebra_simps)
  with run wrapped show ?thesis by simp
qed

theorem limiter_overrun_witness:
  "\<exists>rl at. limiter_run (concat (map (\<lambda>i. replicate 4 (0, i)) [0..<nat 5]) @ map (Pair 0) [0..<nat 5])
      (New_limiter 0 2 1000000000) (\<lambda>_. L_clock) = (rl, at) \<and>
    (\<forall>i<nat 5. at i = L_done False) \<and> RL_allowance rl = word_of_int ((2 - 5) * 1000000000) \<and>
    Limit 0 rl = (False, (New_limiter 0 2 1000000000)\<lparr>RL_allowance := word_of_int ((2 - 1) * 1000000000)\<rparr>)"
  by (rule limiter_overrun) simp_all

end
