(* ===== verification/RedisPool.thy ===== *)
theory RedisPool
  imports RedisNet RateLimit
begin

text \<open>
  The connection pool of the vendored redis client (redis.v3/pool.go), one call after the other:
  the list of all connections, the channel of the free ones, the rate limiter of the dials.
  \<open>PoolRace\<close> has the interleavings. A panic is \<open>None\<close>, and so is a send on a full channel, which
  would block for good.
\<close>

section \<open>The list of connections\<close>

record connList =
  L_cns :: "nat list"
  L_len :: int
  L_size :: int

definition newConnList :: "int \<Rightarrow> connList" where
  "newConnList n = \<lparr>L_cns = [], L_len = 0, L_size = sint (word_of_int n :: 32 word)\<rparr>"

definition Reserve :: "connList \<Rightarrow> bool \<times> connList" where
  "Reserve l = (if L_len l + 1 \<le> L_size l then (True, l\<lparr>L_len := L_len l + 1\<rparr>) else (False, l))"

definition Add :: "nat \<Rightarrow> connList \<Rightarrow> connList" where
  "Add cn l = l\<lparr>L_cns := L_cns l @ [cn]\<rparr>"

text \<open>The connection found first is taken out or replaced, and closed.\<close>

definition list_Remove :: "nat option \<Rightarrow> connList \<Rightarrow> net \<Rightarrow> (redis_error option \<times> connList \<times> net) option" where
  "list_Remove cn l m =
     (case cn of
        None \<Rightarrow> Some (None, l\<lparr>L_len := L_len l - 1\<rparr>, m)
      | Some a \<Rightarrow>
          if a \<in> set (L_cns l)
          then (case close_conn a m of (e, m) \<Rightarrow> Some (e, l\<lparr>L_cns := remove1 a (L_cns l), L_len := L_len l - 1\<rparr>, m))
          else None)"

fun replace1 :: "'a \<Rightarrow> 'a \<Rightarrow> 'a list \<Rightarrow> 'a list" where
  "replace1 a b [] = []"
| "replace1 a b (x # xs) = (if x = a then b # xs else x # replace1 a b xs)"

definition list_Replace :: "nat \<Rightarrow> nat \<Rightarrow> connList \<Rightarrow> net \<Rightarrow> (redis_error option \<times> connList \<times> net) option" where
  "list_Replace a b l m =
     (if a \<in> set (L_cns l)
      then (case close_conn a m of (e, m) \<Rightarrow> Some (e, l\<lparr>L_cns := replace1 a b (L_cns l)\<rparr>, m))
      else None)"

fun close_all :: "nat list \<Rightarrow> redis_error option \<Rightarrow> net \<Rightarrow> redis_error option \<times> net" where
  "close_all [] retErr m = (retErr, m)"
| "close_all (a # as) retErr m =
     (case close_conn a m of (e, m) \<Rightarrow> close_all as (if e \<noteq> None then e else retErr) m)"

definition list_Close :: "connList \<Rightarrow> net \<Rightarrow> redis_error option \<times> connList \<times> net" where
  "list_Close l m = (case close_all (L_cns l) None m of (e, m) \<Rightarrow> (e, l\<lparr>L_cns := [], L_len := 0\<rparr>, m))"

section \<open>The pool\<close>

record connPool =
  P_rl :: RateLimiter
  P_opt :: Options
  P_conns :: connList
  P_free :: "nat list"              \<comment> \<open>the channel freeConns\<close>
  P_closed :: bool
  P_lastDialErr :: "redis_error option"

definition newConnPool :: "Options \<Rightarrow> int \<Rightarrow> connPool option" where
  "newConnPool opt now = (if getPoolSize opt < 0 then None else Some \<lparr>P_rl = New_limiter now (2 * getPoolSize opt) 1000000000, P_opt = opt,
     P_conns = newConnList (getPoolSize opt), P_free = [], P_closed = False, P_lastDialErr = None\<rparr>)"

text \<open>The time since the zero time is the longest duration there is.\<close>

definition since :: "int option \<Rightarrow> int \<Rightarrow> int" where
  "since t now = (case t of None \<Rightarrow> int64_max | Some t \<Rightarrow> now - t)"

definition isIdle :: "connPool \<Rightarrow> conn \<Rightarrow> int \<Rightarrow> bool" where
  "isIdle p cn now \<longleftrightarrow>
     getIdleTimeout (P_opt p) > 0 \<and> since (N_usedAt cn) now > getIdleTimeout (P_opt p)"

definition send_free :: "nat \<Rightarrow> connPool \<Rightarrow> connPool option" where
  "send_free cn p =
     (if int (length (P_free p)) < getPoolSize (P_opt p) then Some (p\<lparr>P_free := P_free p @ [cn]\<rparr>) else None)"

fun First_from :: "nat list \<Rightarrow> (connPool, nat option) pooled" where
  "First_from [] (p, m) = Some (None, p\<lparr>P_free := []\<rparr>, m)"
| "First_from (cn # free) (p, m) =
     (if isIdle p (M_conns m cn) (M_now m)
      then do {
        (_, l, m) \<leftarrow> list_Remove (Some cn) (P_conns p) m;
        First_from free (p\<lparr>P_conns := l\<rparr>, m)
      }
      else Some (Some cn, p\<lparr>P_free := free\<rparr>, m))"

definition First :: "(connPool, nat option) pooled" where
  "First S = First_from (P_free (fst S)) S"

definition new :: "'f floats \<Rightarrow> (connPool, redis_error + nat) pooled" where
  "new fl S =
     (case S of (p, m) \<Rightarrow>
        case Limit (M_now m) (P_rl p) of (limited, rl) \<Rightarrow>
          let p = p\<lparr>P_rl := rl\<rparr>
          in if limited then Some (Inl (ClientError ''redis: you open connections too fast''), p, m)
             else map_option (\<lambda>(r, m).
               (r, (case r of Inl e \<Rightarrow> p\<lparr>P_lastDialErr := Some e\<rparr> | Inr _ \<Rightarrow> p), m)) (dial_conn fl (P_opt p) m))"

definition pool_remove :: "'f floats \<Rightarrow> nat \<Rightarrow> (connPool, redis_error option) pooled" where
  "pool_remove fl cn S =
     (if P_closed (fst S) then Some (None, S)
      else do {
        (r, p, m) \<leftarrow> new fl S;
        (case r of
           Inl _ \<Rightarrow> map_option (\<lambda>(e, l, m). (e, p\<lparr>P_conns := l\<rparr>, m)) (list_Remove (Some cn) (P_conns p) m)
         | Inr newcn \<Rightarrow> do {
             p \<leftarrow> send_free newcn p;
             map_option (\<lambda>(e, l, m). (e, p\<lparr>P_conns := l\<rparr>, m)) (list_Replace cn newcn (P_conns p) m)
           })
      })"

text \<open>The first argument is how often the channel is ready before the deadline; nobody else sends.\<close>

fun wait_for :: "'f floats \<Rightarrow> nat \<Rightarrow> (connPool, nat option) pooled" where
  "wait_for fl 0 S = Some (None, S)"
| "wait_for fl (Suc n) (p, m) =
     (case P_free p of
        [] \<Rightarrow> Some (None, p, m)
      | cn # free \<Rightarrow>
          if isIdle p (M_conns m cn) (M_now m)
          then do { (_, S) \<leftarrow> pool_remove fl cn (p\<lparr>P_free := free\<rparr>, m); wait_for fl n S }
          else Some (Some cn, p\<lparr>P_free := free\<rparr>, m))"

definition wait_conn :: "'f floats \<Rightarrow> (connPool, nat option) pooled" where
  "wait_conn fl S = wait_for fl (M_patience (snd S)) S"

definition Get_conn :: "'f floats \<Rightarrow> (connPool, redis_error + nat) pooled" where
  "Get_conn fl S =
     (if P_closed (fst S) then Some (Inl errClosed, S)
      else do {
        (cn, p, m) \<leftarrow> First S;
        (case cn of
           Some cn \<Rightarrow> Some (Inr cn, p, m)
         | None \<Rightarrow>
             (case Reserve (P_conns p) of
                (True, l) \<Rightarrow> do {
                  (r, p, m) \<leftarrow> new fl (p\<lparr>P_conns := l\<rparr>, m);
                  (case r of
                     Inl e \<Rightarrow> map_option (\<lambda>(_, l, m). (Inl e, p\<lparr>P_conns := l\<rparr>, m)) (list_Remove None (P_conns p) m)
                   | Inr cn \<Rightarrow> Some (Inr cn, p\<lparr>P_conns := Add cn (P_conns p)\<rparr>, m))
                }
              | (False, l) \<Rightarrow>
                  map_option (\<lambda>(cn, S). (case cn of Some cn \<Rightarrow> Inr cn | None \<Rightarrow> Inl errPoolTimeout, S))
                    (wait_conn fl (p\<lparr>P_conns := l\<rparr>, m))))
      })"

definition Put_conn :: "'f floats \<Rightarrow> nat \<Rightarrow> (connPool, redis_error option) pooled" where
  "Put_conn fl cn S =
     (case S of (p, m) \<Rightarrow>
        let c = M_conns m cn
        in if Buffered (N_rd c) \<noteq> 0 then do {
             (_, rd) \<leftarrow> ReadN (int (Buffered (N_rd c))) (N_rd c);
             pool_remove fl cn (p, set_conn cn (c\<lparr>N_rd := rd\<rparr>) m)
           }
           else do {
             let m = (if getIdleTimeout (P_opt p) > 0 then set_conn cn (c\<lparr>N_usedAt := Some (M_now m)\<rparr>) m else m);
             p \<leftarrow> send_free cn p;
             Some (None, p, m)
           })"

definition pool_len :: "connPool \<times> net \<Rightarrow> int" where
  "pool_len S = L_len (P_conns (fst S))"

definition FreeLen :: "connPool \<times> net \<Rightarrow> int" where
  "FreeLen S = int (length (P_free (fst S)))"

text \<open>The free connections first, as long as one comes within a wait.\<close>

partial_function (option) close_free :: "'f floats \<Rightarrow> redis_error option \<Rightarrow> (connPool, redis_error option) pooled" where
  [code]: "close_free fl retErr S =
     (if pool_len S > 0 then
        Option.bind (wait_conn fl S) (\<lambda>(cn, p, m).
          case cn of
            None \<Rightarrow> Some (retErr, p, m)
          | Some cn \<Rightarrow>
              Option.bind (list_Remove (Some cn) (P_conns p) m) (\<lambda>(e, l, m).
                close_free fl (if e \<noteq> None then e else retErr) (p\<lparr>P_conns := l\<rparr>, m)))
      else Some (retErr, S))"

definition pool_close :: "'f floats \<Rightarrow> (connPool, redis_error option) pooled" where
  "pool_close fl S =
     (if P_closed (fst S) then Some (Some errClosed, S)
      else do {
        (retErr, p, m) \<leftarrow> close_free fl None ((fst S)\<lparr>P_closed := True\<rparr>, snd S);
        (case list_Close (P_conns p) m of (e, l, m) \<Rightarrow>
           Some (if e \<noteq> None then e else retErr, p\<lparr>P_conns := l\<rparr>, m))
      })"

text \<open>One tick of the reaper.\<close>

definition reap :: "'f floats \<Rightarrow> connPool \<times> net \<Rightarrow> (connPool \<times> net) option" where
  "reap fl S =
     (if P_closed (fst S) then Some S
      else do {
        (cn, S) \<leftarrow> First S;
        (case cn of None \<Rightarrow> Some S | Some cn \<Rightarrow> map_option snd (Put_conn fl cn S))
      })"

definition conn_pool :: "'f floats \<Rightarrow> connPool pool" where
  "conn_pool fl = \<lparr>pool_First = First, pool_Get = Get_conn fl, pool_Put = Put_conn fl, pool_Remove = pool_remove fl,
     pool_Len = pool_len, pool_FreeLen = FreeLen, pool_Close = pool_close fl\<rparr>"

end
