(* ===== verification/PoolRace.thy ===== *)
theory PoolRace
  imports RedisPool
begin

text \<open>
  The connection pool with many goroutines at once (redis.v3/pool.go): Get, Put and Remove in the
  atomic steps that they take, the counter, the list under its mutex, the channel, in every
  interleaving. As in the options that the program uses there is no idle timeout, and the pool is
  not closed. What a dial gives, and when a wait runs out, is open.
\<close>

text \<open>Where a goroutine is.\<close>

datatype pc =
    Ready                        \<comment> \<open>no connection in hand\<close>
  | NoneFree                     \<comment> \<open>Get: First gave nil\<close>
  | Overshot                     \<comment> \<open>Reserve: counted too far\<close>
  | Waiting                      \<comment> \<open>Get: in wait\<close>
  | Reserved                     \<comment> \<open>Get: a place is reserved, before the dial\<close>
  | Dialled nat                  \<comment> \<open>Get: before Add\<close>
  | DialFailed                   \<comment> \<open>Get: before Remove(nil)\<close>
  | Holding nat
  | Removing nat                 \<comment> \<open>Remove: before the dial\<close>
  | Redialled nat nat            \<comment> \<open>Remove: before the new one is sent\<close>
  | Sent nat nat                 \<comment> \<open>Remove: before Replace\<close>
  | Dropping nat                 \<comment> \<open>Remove: before Remove of the list\<close>
  | Panicked

record shared =
  G_cns :: "nat list"
  G_len :: int
  G_free :: "nat list"
  G_next :: nat                  \<comment> \<open>the next address\<close>
  G_pc :: "nat \<Rightarrow> pc"

definition goto :: "nat \<Rightarrow> pc \<Rightarrow> shared \<Rightarrow> shared" where
  "goto i x s = s\<lparr>G_pc := (G_pc s)(i := x)\<rparr>"

text \<open>A panic ends the process: from a state where somebody has panicked there is no step.\<close>

definition running :: "shared \<Rightarrow> bool" where
  "running s \<longleftrightarrow> (\<forall>i. G_pc s i \<noteq> Panicked)"

inductive pool_step :: "nat \<Rightarrow> shared \<Rightarrow> shared \<Rightarrow> bool" for n :: nat where
  take_free: "running s \<Longrightarrow> G_pc s i \<in> {Ready, Waiting} \<Longrightarrow> G_free s = cn # free \<Longrightarrow>
    pool_step n s (goto i (Holding cn) (s\<lparr>G_free := free\<rparr>))"
| none_free: "running s \<Longrightarrow> G_pc s i = Ready \<Longrightarrow> G_free s = [] \<Longrightarrow> pool_step n s (goto i NoneFree s)"
| reserve: "running s \<Longrightarrow> G_pc s i = NoneFree \<Longrightarrow> G_len s + 1 \<le> int n \<Longrightarrow>
    pool_step n s (goto i Reserved (s\<lparr>G_len := G_len s + 1\<rparr>))"
| overshoot: "running s \<Longrightarrow> G_pc s i = NoneFree \<Longrightarrow> \<not> G_len s + 1 \<le> int n \<Longrightarrow>
    pool_step n s (goto i Overshot (s\<lparr>G_len := G_len s + 1\<rparr>))"
| count_back: "running s \<Longrightarrow> G_pc s i = Overshot \<Longrightarrow> pool_step n s (goto i Waiting (s\<lparr>G_len := G_len s - 1\<rparr>))"
| timeout: "running s \<Longrightarrow> G_pc s i = Waiting \<Longrightarrow> pool_step n s (goto i Ready s)"
| dial: "running s \<Longrightarrow> G_pc s i = Reserved \<Longrightarrow>
    pool_step n s (goto i (Dialled (G_next s)) (s\<lparr>G_next := G_next s + 1\<rparr>))"
| dial_fails: "running s \<Longrightarrow> G_pc s i = Reserved \<Longrightarrow> pool_step n s (goto i DialFailed s)"
| add_conn: "running s \<Longrightarrow> G_pc s i = Dialled cn \<Longrightarrow>
    pool_step n s (goto i (Holding cn) (s\<lparr>G_cns := G_cns s @ [cn]\<rparr>))"
| free_place: "running s \<Longrightarrow> G_pc s i = DialFailed \<Longrightarrow> pool_step n s (goto i Ready (s\<lparr>G_len := G_len s - 1\<rparr>))"
| put: "running s \<Longrightarrow> G_pc s i = Holding cn \<Longrightarrow> length (G_free s) < n \<Longrightarrow>
    pool_step n s (goto i Ready (s\<lparr>G_free := G_free s @ [cn]\<rparr>))"
| remove: "running s \<Longrightarrow> G_pc s i = Holding cn \<Longrightarrow> pool_step n s (goto i (Removing cn) s)"
| redial: "running s \<Longrightarrow> G_pc s i = Removing cn \<Longrightarrow>
    pool_step n s (goto i (Redialled cn (G_next s)) (s\<lparr>G_next := G_next s + 1\<rparr>))"
| redial_fails: "running s \<Longrightarrow> G_pc s i = Removing cn \<Longrightarrow> pool_step n s (goto i (Dropping cn) s)"
| send_new: "running s \<Longrightarrow> G_pc s i = Redialled cn newcn \<Longrightarrow> length (G_free s) < n \<Longrightarrow>
    pool_step n s (goto i (Sent cn newcn) (s\<lparr>G_free := G_free s @ [newcn]\<rparr>))"
| replace: "running s \<Longrightarrow> G_pc s i = Sent cn newcn \<Longrightarrow> cn \<in> set (G_cns s) \<Longrightarrow>
    pool_step n s (goto i Ready (s\<lparr>G_cns := replace1 cn newcn (G_cns s)\<rparr>))"
| drop_conn: "running s \<Longrightarrow> G_pc s i = Dropping cn \<Longrightarrow> cn \<in> set (G_cns s) \<Longrightarrow>
    pool_step n s (goto i Ready (s\<lparr>G_cns := remove1 cn (G_cns s), G_len := G_len s - 1\<rparr>))"
| not_found: "running s \<Longrightarrow> G_pc s i \<in> {Sent cn newcn, Dropping cn} \<Longrightarrow> cn \<notin> set (G_cns s) \<Longrightarrow>
    pool_step n s (goto i Panicked s)"

definition start :: shared where
  "start = \<lparr>G_cns = [], G_len = 0, G_free = [], G_next = 0, G_pc = (\<lambda>_. Ready)\<rparr>"

definition reachable_pool :: "nat \<Rightarrow> shared \<Rightarrow> bool" where
  "reachable_pool n s \<longleftrightarrow> (pool_step n)\<^sup>*\<^sup>* start s"

section \<open>What holds whatever the interleaving\<close>

text \<open>The connections that a goroutine has, and whether it is counted beside the list.\<close>

fun hands :: "pc \<Rightarrow> nat list" where
  "hands (Dialled cn) = [cn]"
| "hands (Holding cn) = [cn]"
| "hands (Removing cn) = [cn]"
| "hands (Redialled cn newcn) = [cn, newcn]"
| "hands (Sent cn newcn) = [cn]"
| "hands (Dropping cn) = [cn]"
| "hands _ = []"

definition in_place :: "pc \<Rightarrow> bool" where
  "in_place x \<longleftrightarrow> x = Reserved \<or> x = DialFailed \<or> (\<exists>cn. x = Dialled cn)"

definition counted :: "pc \<Rightarrow> bool" where
  "counted x \<longleftrightarrow> in_place x \<or> x = Overshot"

definition exclusive :: "shared \<Rightarrow> bool" where
  "exclusive s \<longleftrightarrow>
     distinct (G_free s) \<and> (\<forall>i. distinct (hands (G_pc s i))) \<and>
     (\<forall>i. set (hands (G_pc s i)) \<inter> set (G_free s) = {}) \<and>
     (\<forall>i j. i \<noteq> j \<longrightarrow> set (hands (G_pc s i)) \<inter> set (hands (G_pc s j)) = {}) \<and>
     (\<forall>a \<in> set (G_free s). a < G_next s) \<and> (\<forall>i. \<forall>a \<in> set (hands (G_pc s i)). a < G_next s)"

definition few :: "(pc \<Rightarrow> bool) \<Rightarrow> shared \<Rightarrow> bool" where
  "few P s \<longleftrightarrow> finite {i. P (G_pc s i)}"

definition many :: "(pc \<Rightarrow> bool) \<Rightarrow> shared \<Rightarrow> nat" where
  "many P s = card {i. P (G_pc s i)}"

definition within :: "nat \<Rightarrow> shared \<Rightarrow> bool" where
  "within n s \<longleftrightarrow> few counted s \<and> few in_place s \<and>
     G_len s = int (length (G_cns s) + many counted s) \<and> length (G_cns s) + many in_place s \<le> n"

lemma goto_simps [simp]:
  "G_cns (goto i x s) = G_cns s" "G_len (goto i x s) = G_len s" "G_free (goto i x s) = G_free s"
  "G_next (goto i x s) = G_next s" "G_pc (goto i x s) = (G_pc s)(i := x)"
  by (simp_all add: goto_def)

lemma many_moves:
  assumes pc: "G_pc s' = (G_pc s)(i := x)" and fin: "few P s"
  shows "few P s'" "many P s' + (if P (G_pc s i) then 1 else 0) = many P s + (if P x then 1 else 0)"
proof -
  have eq: "{j. P (G_pc s' j)} = (if P x then insert i ({j. P (G_pc s j)} - {i}) else {j. P (G_pc s j)} - {i})"
    unfolding pc by auto
  show "few P s'" using fin unfolding few_def eq by simp
  show "many P s' + (if P (G_pc s i) then 1 else 0) = many P s + (if P x then 1 else 0)"
    using fin card_Suc_Diff1 [of "{j. P (G_pc s j)}" i] unfolding few_def many_def eq by (auto simp: card_insert_if)
qed

lemma exclusive_move:
  assumes ex: "exclusive s" and pc: "G_pc s' = (G_pc s)(i := x)"
    and own: "distinct (hands x @ G_free s')"
      "set (hands x) \<union> set (G_free s') \<subseteq> set (hands (G_pc s i)) \<union> set (G_free s) \<union> {a. G_next s \<le> a}"
    and less: "\<forall>a \<in> set (hands x) \<union> set (G_free s'). a < G_next s'" "G_next s \<le> G_next s'"
  shows "exclusive s'"
proof -
  have others: "set (hands (G_pc s j)) \<inter> (set (hands x) \<union> set (G_free s')) = {}" if "j \<noteq> i" for j
  proof -
    have "set (hands (G_pc s j)) \<inter> (set (hands (G_pc s i)) \<union> set (G_free s)) = {}"
      "\<forall>a \<in> set (hands (G_pc s j)). a < G_next s" using ex that unfolding exclusive_def by blast+
    with own(2) show ?thesis by force
  qed
  then have apart: "\<forall>j a. j \<noteq> i \<longrightarrow> a \<in> set (hands (G_pc s j)) \<longrightarrow> a \<notin> set (hands x) \<and> a \<notin> set (G_free s')" by blast
  have "\<forall>j. \<forall>a \<in> set (hands (G_pc s j)). a < G_next s'" using ex less(2) unfolding exclusive_def by (meson less_le_trans)
  moreover have "\<forall>j k. j \<noteq> k \<longrightarrow> set (hands (G_pc s j)) \<inter> set (hands (G_pc s k)) = {}" "\<forall>j. distinct (hands (G_pc s j))"
    using ex by (auto simp: exclusive_def)
  ultimately show ?thesis
    unfolding exclusive_def pc using own(1) less(1) apart by auto
qed

lemma exclusive_facts:
  "exclusive s \<Longrightarrow> distinct (hands (G_pc s i) @ G_free s) \<and>
     (\<forall>a \<in> set (hands (G_pc s i)) \<union> set (G_free s). a < G_next s)"
  unfolding exclusive_def by auto

lemma pool_step_exclusive: "pool_step n s s' \<Longrightarrow> exclusive s \<Longrightarrow> exclusive s'"
proof (induction rule: pool_step.induct)
  case (take_free s i cn free)
  from exclusive_facts [OF take_free(4), of i] take_free(2,3) show ?case
    by (intro exclusive_move [OF take_free(4), where i = i]) (auto simp: less_Suc_eq)
next
  case (none_free s i)
  from exclusive_facts [OF none_free(4), of i] none_free(2) show ?case
    by (intro exclusive_move [OF none_free(4), where i = i]) (auto simp: less_Suc_eq)
next
  case (reserve s i)
  from exclusive_facts [OF reserve(4), of i] reserve(2) show ?case
    by (intro exclusive_move [OF reserve(4), where i = i]) (auto simp: less_Suc_eq)
next
  case (overshoot s i)
  from exclusive_facts [OF overshoot(4), of i] overshoot(2) show ?case
    by (intro exclusive_move [OF overshoot(4), where i = i]) (auto simp: less_Suc_eq)
next
  case (count_back s i)
  from exclusive_facts [OF count_back(3), of i] count_back(2) show ?case
    by (intro exclusive_move [OF count_back(3), where i = i]) (auto simp: less_Suc_eq)
next
  case (timeout s i)
  from exclusive_facts [OF timeout(3), of i] timeout(2) show ?case
    by (intro exclusive_move [OF timeout(3), where i = i]) (auto simp: less_Suc_eq)
next
  case (dial s i)
  from exclusive_facts [OF dial(3), of i] dial(2) show ?case
    by (intro exclusive_move [OF dial(3), where i = i]) (auto simp: less_Suc_eq)
next
  case (dial_fails s i)
  from exclusive_facts [OF dial_fails(3), of i] dial_fails(2) show ?case
    by (intro exclusive_move [OF dial_fails(3), where i = i]) (auto simp: less_Suc_eq)
next
  case (add_conn s i cn)
  from exclusive_facts [OF add_conn(3), of i] add_conn(2) show ?case
    by (intro exclusive_move [OF add_conn(3), where i = i]) (auto simp: less_Suc_eq)
next
  case (free_place s i)
  from exclusive_facts [OF free_place(3), of i] free_place(2) show ?case
    by (intro exclusive_move [OF free_place(3), where i = i]) (auto simp: less_Suc_eq)
next
  case (put s i cn)
  from exclusive_facts [OF put(4), of i] put(2) show ?case
    by (intro exclusive_move [OF put(4), where i = i]) (auto simp: less_Suc_eq)
next
  case (remove s i cn)
  from exclusive_facts [OF remove(3), of i] remove(2) show ?case
    by (intro exclusive_move [OF remove(3), where i = i]) (auto simp: less_Suc_eq)
next
  case (redial s i cn)
  from exclusive_facts [OF redial(3), of i] redial(2) show ?case
    by (intro exclusive_move [OF redial(3), where i = i]) (auto simp: less_Suc_eq)
next
  case (redial_fails s i cn)
  from exclusive_facts [OF redial_fails(3), of i] redial_fails(2) show ?case
    by (intro exclusive_move [OF redial_fails(3), where i = i]) (auto simp: less_Suc_eq)
next
  case (send_new s i cn newcn)
  from exclusive_facts [OF send_new(4), of i] send_new(2) show ?case
    by (intro exclusive_move [OF send_new(4), where i = i]) (auto simp: less_Suc_eq)
next
  case (replace s i cn newcn)
  from exclusive_facts [OF replace(4), of i] replace(2) show ?case
    by (intro exclusive_move [OF replace(4), where i = i]) (auto simp: less_Suc_eq)
next
  case (drop_conn s i cn)
  from exclusive_facts [OF drop_conn(4), of i] drop_conn(2) show ?case
    by (intro exclusive_move [OF drop_conn(4), where i = i]) (auto simp: less_Suc_eq)
next
  case (not_found s i cn newcn)
  from exclusive_facts [OF not_found(4), of i] not_found(2) show ?case
    by (intro exclusive_move [OF not_found(4), where i = i]) (auto simp: less_Suc_eq)
qed

text \<open>Whoever changes place changes the count of the places by at most one.\<close>

lemma within_goto:
  assumes "within n s" "G_pc s1 = G_pc s"
    and "G_len s1 + int (length (G_cns s) + (if counted (G_pc s i) then 1 else 0)) =
      G_len s + int (length (G_cns s1) + (if counted x then 1 else 0))"
    and "length (G_cns s1) + (if in_place x then 1 else 0) \<le> length (G_cns s) + (if in_place (G_pc s i) then 1 else 0) \<or>
      length (G_cns s1) + many in_place s + (if in_place x then 1 else 0) \<le> n + (if in_place (G_pc s i) then 1 else 0)"
  shows "within n (goto i x s1)"
proof -
  have pc: "G_pc (goto i x s1) = (G_pc s)(i := x)" using assms(2) by simp
  show ?thesis
    using assms(1,3,4) many_moves [OF pc, of counted] many_moves [OF pc, of in_place]
    unfolding within_def by (auto split: if_splits)
qed

lemma length_replace1 [simp]: "length (replace1 a b xs) = length xs"
  by (induction xs) auto

lemma length_remove1_in: "a \<in> set xs \<Longrightarrow> Suc (length (remove1 a xs)) = length xs"
  by (simp add: length_remove1) (metis Suc_pred length_pos_if_in_set)

lemma pool_step_within: "pool_step n s s' \<Longrightarrow> within n s \<Longrightarrow> within n s'"
proof (induction rule: pool_step.induct)
  case (reserve s i)
  have "many in_place s \<le> many counted s"
    using reserve(4) unfolding many_def by (intro card_mono) (auto simp: within_def few_def counted_def)
  with reserve show ?case
    by (intro within_goto [OF reserve(4)]) (auto simp: counted_def in_place_def within_def)
next
  case (drop_conn s i cn)
  with length_remove1_in [OF drop_conn(3)] show ?case
    by (intro within_goto [OF drop_conn(4)]) (auto simp: counted_def in_place_def)
qed ((rule within_goto, assumption, simp, (auto simp: counted_def in_place_def)[2])+)

text \<open>The connections that a goroutine may look for in the list.\<close>

fun sought :: "pc \<Rightarrow> nat set" where
  "sought (Holding cn) = {cn}"
| "sought (Removing cn) = {cn}"
| "sought (Redialled cn newcn) = {cn}"
| "sought (Sent cn newcn) = {cn}"
| "sought (Dropping cn) = {cn}"
| "sought _ = {}"

definition in_use :: "shared \<Rightarrow> nat set" where
  "in_use s = set (G_free s) \<union> (\<Union>i. sought (G_pc s i))"

definition listed :: "shared \<Rightarrow> bool" where
  "listed s \<longleftrightarrow> (\<forall>c \<in> in_use s. c \<in> set (G_cns s) \<or> (\<exists>j old. G_pc s j = Sent old c))"

lemma sought_hands: "sought x \<subseteq> set (hands x)"
  by (cases x) auto

lemma listed_goto:
  assumes "listed s" "G_pc s1 = G_pc s" "\<forall>old c. G_pc s i = Sent old c \<longrightarrow> c \<in> set (G_cns s1)"
    and "set (G_free s1) \<union> sought x \<subseteq> in_use s \<union> set (G_cns s1) \<union> {c. \<exists>old. x = Sent old c}"
    and "\<forall>c \<in> set (G_cns s) - set (G_cns s1). c \<notin> set (G_free s1) \<and> c \<notin> sought x \<and> (\<forall>j. j \<noteq> i \<longrightarrow> c \<notin> sought (G_pc s j))"
  shows "listed (goto i x s1)"
  unfolding listed_def
proof
  fix c
  assume "c \<in> in_use (goto i x s1)"
  then consider (now) "c \<in> set (G_free s1) \<union> sought x" | (other) j where "j \<noteq> i" "c \<in> sought (G_pc s j)"
    using assms(2) by (auto simp: in_use_def split: if_splits)
  then have "c \<in> in_use s \<or> c \<in> set (G_cns s1) \<or> (\<exists>old. x = Sent old c)"
    and gone: "c \<in> set (G_cns s) \<longrightarrow> c \<in> set (G_cns s1)"
    using assms(4,5) by (cases; auto simp: in_use_def)+
  then consider (listed) "c \<in> set (G_cns s1)" | (sent) old where "x = Sent old c" | (old) "c \<in> in_use s" "c \<notin> set (G_cns s)"
    by blast
  then show "c \<in> set (G_cns (goto i x s1)) \<or> (\<exists>j old. G_pc (goto i x s1) j = Sent old c)"
  proof cases
    case old
    then obtain j a where "G_pc s j = Sent a c" using assms(1) by (auto simp: listed_def)
    with assms(2,3) show ?thesis by (cases "j = i") auto
  qed auto
qed

lemma replace1_keeps: "a \<in> set xs \<Longrightarrow> insert b (set xs - {a}) \<subseteq> set (replace1 a b xs)"
  by (induction xs) auto

lemma remove1_keeps: "set xs - {a} \<subseteq> set (remove1 a xs)"
  by (induction xs) auto

lemma only_mine:
  assumes "exclusive s" "c \<in> set (hands (G_pc s i))"
  shows "c \<notin> set (G_free s)" "j \<noteq> i \<Longrightarrow> c \<notin> sought (G_pc s j)"
  using assms sought_hands [of "G_pc s j"] unfolding exclusive_def by blast+

lemma running_goto: "running (goto i Panicked s) \<Longrightarrow> False"
  by (auto simp: running_def dest: spec [of _ i])

lemma in_use_simps: "c \<in> in_use s \<longleftrightarrow> c \<in> set (G_free s) \<or> (\<exists>i. c \<in> sought (G_pc s i))"
  by (auto simp: in_use_def)

lemma in_use_mine: "G_pc s i = x \<Longrightarrow> sought x \<subseteq> in_use s" "set (G_free s) \<subseteq> in_use s"
  by (auto simp: in_use_def)

lemma pool_step_listed:
  "pool_step n s s' \<Longrightarrow> exclusive s \<Longrightarrow> listed s \<Longrightarrow> running s' \<Longrightarrow> listed s'"
proof (induction rule: pool_step.induct)
  case (replace s i cn newcn)
  have mine: "cn \<in> set (hands (G_pc s i))" using replace(2) by simp
  have cns: "set (G_cns s) - {cn} \<subseteq> set (replace1 cn newcn (G_cns s))" "newcn \<in> set (replace1 cn newcn (G_cns s))"
    using replace1_keeps [OF replace(3), of newcn] by auto
  show ?case
    by (rule listed_goto [OF replace(5)])
      (use replace(2) cns only_mine [OF replace(4) mine] in \<open>auto simp: in_use_simps\<close>)
next
  case (drop_conn s i cn)
  have mine: "cn \<in> set (hands (G_pc s i))" using drop_conn(2) by simp
  show ?case
    by (rule listed_goto [OF drop_conn(5)])
      (use drop_conn(2) remove1_keeps [of "G_cns s" cn] only_mine [OF drop_conn(4) mine] in \<open>auto simp: in_use_simps\<close>)
next
  case (not_found s i cn newcn)
  then show ?case using running_goto by blast
qed ((rule listed_goto, assumption, simp, (auto simp: in_use_simps dest: in_use_mine(1))[3])+)

lemma pool_step_running: "pool_step n s s' \<Longrightarrow> running s"
  by (auto elim: pool_step.cases)

lemma pool_step_swaps:
  "pool_step n s s' \<Longrightarrow> exclusive s \<Longrightarrow> \<forall>i a. G_pc s i \<noteq> Sent a a \<Longrightarrow> \<forall>i a. G_pc s' i \<noteq> Sent a a"
proof (induction rule: pool_step.induct)
  case (send_new s i cn newcn)
  have "distinct (hands (G_pc s i))" using send_new(4) by (simp add: exclusive_def)
  with send_new show ?case by auto
qed auto

lemma reachable_pool_facts:
  "reachable_pool n s \<Longrightarrow> exclusive s \<and> within n s \<and> (running s \<longrightarrow> listed s) \<and> (\<forall>i a. G_pc s i \<noteq> Sent a a)"
  unfolding reachable_pool_def
proof (induction rule: rtranclp_induct)
  case base
  show ?case
    by (auto simp: start_def exclusive_def within_def few_def many_def counted_def in_place_def listed_def in_use_def)
next
  case (step s s')
  with pool_step_running [OF step(2)] pool_step_exclusive [OF step(2)] pool_step_within [OF step(2)]
    pool_step_listed [OF step(2)] pool_step_swaps [OF step(2)]
  show ?case by blast
qed

text \<open>
  C20. Whatever the interleaving, a connection is with one goroutine or free, never with two and
  never both, and the pool has at most as many connections as its size.
\<close>

theorem pool_is_exclusive:
  assumes "reachable_pool n s" "i \<noteq> j"
  shows "length (G_cns s) \<le> n \<and> distinct (G_free s) \<and>
    set (hands (G_pc s i)) \<inter> set (G_free s) = {} \<and>
    set (hands (G_pc s i)) \<inter> set (hands (G_pc s j)) = {}"
  using reachable_pool_facts [OF assms(1)] assms(2) by (auto simp: exclusive_def within_def)

text \<open>
  A goroutine may look for a connection in vain, "conn not found in the list", only while
  another one is between sending that connection and putting it in the list.
\<close>

lemma not_found_only_in_the_gap:
  assumes "reachable_pool n s" "pool_step n s s'" "\<not> running s'"
  shows "\<exists>i j cn old. i \<noteq> j \<and> (G_pc s i = Dropping cn \<or> (\<exists>newcn. G_pc s i = Sent cn newcn)) \<and>
    cn \<notin> set (G_cns s) \<and> G_pc s j = Sent old cn"
  using assms(2,3)
proof (cases rule: pool_step.cases)
  case (not_found i cn newcn)
  then have "cn \<in> in_use s" using in_use_mine(1) [of s i] by auto
  moreover have "listed s" "exclusive s" using reachable_pool_facts [OF assms(1)] not_found by auto
  ultimately obtain j old where j: "G_pc s j = Sent old cn" using not_found by (auto simp: listed_def)
  show ?thesis
  proof (cases "i = j")
    case False
    with j not_found show ?thesis by blast
  next
    case True
    with j not_found have "old = cn" by auto
    with j reachable_pool_facts [OF assms(1)] show ?thesis by blast
  qed
qed (auto simp: running_def split: if_split_asm)

definition two :: "nat list \<Rightarrow> int \<Rightarrow> nat list \<Rightarrow> nat \<Rightarrow> pc \<Rightarrow> pc \<Rightarrow> shared" where
  "two cns len free nxt p0 p1 = \<lparr>G_cns = cns, G_len = len, G_free = free, G_next = nxt,
     G_pc = (\<lambda>i. if i = 0 then p0 else if i = 1 then p1 else Ready)\<rparr>"

lemma two_simps [simp]:
  "G_cns (two cns len free nxt p0 p1) = cns" "G_len (two cns len free nxt p0 p1) = len"
  "G_free (two cns len free nxt p0 p1) = free" "G_next (two cns len free nxt p0 p1) = nxt"
  "G_pc (two cns len free nxt p0 p1) 0 = p0" "G_pc (two cns len free nxt p0 p1) (Suc 0) = p1"
  "running (two cns len free nxt p0 p1) \<longleftrightarrow> p0 \<noteq> Panicked \<and> p1 \<noteq> Panicked"
  by (auto simp: two_def running_def)

lemma goto_two [simp]:
  "goto 0 x (two cns len free nxt p0 p1) = two cns len free nxt x p1"
  "goto (Suc 0) x (two cns len free nxt p0 p1) = two cns len free nxt p0 x"
  "(two cns len free nxt p0 p1)\<lparr>G_cns := cns'\<rparr> = two cns' len free nxt p0 p1"
  "(two cns len free nxt p0 p1)\<lparr>G_len := len'\<rparr> = two cns len' free nxt p0 p1"
  "(two cns len free nxt p0 p1)\<lparr>G_free := free'\<rparr> = two cns len free' nxt p0 p1"
  "(two cns len free nxt p0 p1)\<lparr>G_next := nxt'\<rparr> = two cns len free nxt' p0 p1"
  by (auto simp: goto_def two_def)

lemma step_to: "reachable_pool n s \<Longrightarrow> pool_step n s s' \<Longrightarrow> s' = t \<Longrightarrow> reachable_pool n t"
  unfolding reachable_pool_def by (auto intro: rtranclp.rtrancl_into_rtrancl)

lemma gap_reached:
  assumes "0 < n"
  shows "reachable_pool n (two [0] 1 [] 2 (Sent 0 1) (Dropping 1))"
proof -
  have "start = two [] 0 [] 0 Ready Ready" by (simp add: start_def two_def fun_eq_iff)
  then have "reachable_pool n (two [] 0 [] 0 Ready Ready)" by (simp add: reachable_pool_def)
  then have "reachable_pool n (two [] 0 [] 0 NoneFree Ready)"
    by (rule step_to [OF _ pool_step.none_free [where i = 0]]) (use assms in simp_all)
  then have "reachable_pool n (two [] 1 [] 0 Reserved Ready)"
    by (rule step_to [OF _ pool_step.reserve [where i = 0]]) (use assms in simp_all)
  then have "reachable_pool n (two [] 1 [] 1 (Dialled 0) Ready)"
    by (rule step_to [OF _ pool_step.dial [where i = 0]]) (use assms in simp_all)
  then have "reachable_pool n (two [0] 1 [] 1 (Holding 0) Ready)"
    by (rule step_to [OF _ pool_step.add_conn [where i = 0]]) (use assms in simp_all)
  then have "reachable_pool n (two [0] 1 [] 1 (Removing 0) Ready)"
    by (rule step_to [OF _ pool_step.remove [where i = 0]]) (use assms in simp_all)
  then have "reachable_pool n (two [0] 1 [] 2 (Redialled 0 1) Ready)"
    by (rule step_to [OF _ pool_step.redial [where i = 0]]) (use assms in \<open>simp_all add: numeral_2_eq_2\<close>)
  then have "reachable_pool n (two [0] 1 [1] 2 (Sent 0 1) Ready)"
    by (rule step_to [OF _ pool_step.send_new [where i = 0]]) (use assms in simp_all)
  then have "reachable_pool n (two [0] 1 [] 2 (Sent 0 1) (Holding 1))"
    by (rule step_to [OF _ pool_step.take_free [where i = 1]]) (use assms in simp_all)
  then have "reachable_pool n (two [0] 1 [] 2 (Sent 0 1) (Removing 1))"
    by (rule step_to [OF _ pool_step.remove [where i = 1]]) (use assms in simp_all)
  then show ?thesis
    by (rule step_to [OF _ pool_step.redial_fails [where i = 1]]) (use assms in simp_all)
qed

text \<open>
  C21. The gap is met: goroutine 0 replaces a connection that failed, goroutine 1 gets the new
  one from the channel before it is in the list, has it fail too and cannot dial another; then the
  pool panics, whatever its size.
\<close>

theorem pool_panics_in_the_gap:
  assumes "0 < n"
  shows "\<exists>s. reachable_pool n s \<and> \<not> running s"
proof (intro exI conjI)
  have "pool_step n (two [0] 1 [] 2 (Sent 0 1) (Dropping 1)) (goto 1 Panicked (two [0] 1 [] 2 (Sent 0 1) (Dropping 1)))"
    by (rule pool_step.not_found [where cn = 1]) simp_all
  then show "reachable_pool n (two [0] 1 [] 2 (Sent 0 1) Panicked)" by (rule step_to [OF gap_reached [OF assms]]) simp
qed simp

theorem pool_panics_in_the_gap_witness: "\<exists>s. reachable_pool 10 s \<and> \<not> running s"
  by (rule pool_panics_in_the_gap) simp

theorem pool_is_exclusive_witness:
  "length (G_cns (two [0] 1 [] 2 (Sent 0 1) (Dropping 1))) \<le> 10 \<and>
    distinct (G_free (two [0] 1 [] 2 (Sent 0 1) (Dropping 1))) \<and>
    set (hands (G_pc (two [0] 1 [] 2 (Sent 0 1) (Dropping 1)) 0)) \<inter>
      set (G_free (two [0] 1 [] 2 (Sent 0 1) (Dropping 1))) = {} \<and>
    set (hands (G_pc (two [0] 1 [] 2 (Sent 0 1) (Dropping 1)) 0)) \<inter>
      set (hands (G_pc (two [0] 1 [] 2 (Sent 0 1) (Dropping 1)) 1)) = {}"
  by (rule pool_is_exclusive [OF gap_reached]) simp_all

end
