(* ===== verification/RedisSessions.thy ===== *)
theory RedisSessions
  imports RedisPool
begin

text \<open>
  What the vendored redis client offers on top of its pool: the client itself (redis.go), pipelines
  (pipeline.go), transactions (multi.go), subscriptions (pubsub.go) and scripts (script.go). A
  pipeline or transaction is its list of commands; the command that a method gives back is the one
  in the list, with its result once Exec has run.
\<close>

section \<open>The client\<close>

type_synonym 's client_state = "'s \<times> net"

definition process_cmd :: "'f floats \<Rightarrow> Options \<Rightarrow> ('f, connPool client_state, 'f cmd) commandable" where
  "process_cmd fl opt = client_process fl (conn_pool fl) opt"

definition Publish :: "('f, 's, 'r) commandable \<Rightarrow> string \<Rightarrow> string \<Rightarrow> ('s, 'r) run" where
  "Publish c channel message = Process c (NewIntCmd [''PUBLISH'', channel, message])"

section \<open>Pipelines\<close>

record 'f Pipeline =
  I_cmds :: "'f cmd list"
  I_closed :: bool

definition new_Pipeline :: "'f Pipeline" where
  "new_Pipeline = \<lparr>I_cmds = [], I_closed = False\<rparr>"

definition pipe_process :: "('f, 'f Pipeline, 'f cmd) commandable" where
  "pipe_process cmd c = Some (cmd, c\<lparr>I_cmds := I_cmds c @ [cmd]\<rparr>)"

definition pipe_Close :: "'f Pipeline \<Rightarrow> 'f Pipeline" where
  "pipe_Close c = c\<lparr>I_closed := True\<rparr>"

definition pipe_Discard :: "'f Pipeline \<Rightarrow> redis_error option \<times> 'f Pipeline" where
  "pipe_Discard c = (if I_closed c then (Some errClosed, c) else (None, c\<lparr>I_cmds := []\<rparr>))"

text \<open>The replies one by one, and the first error.\<close>

fun parse_replies :: "'f floats \<Rightarrow> 'f cmd list \<Rightarrow> redis_error option \<Rightarrow> Reader \<Rightarrow>
    ((redis_error option \<times> 'f cmd list) \<times> Reader) option" where
  "parse_replies fl [] firstErr rd = Some ((firstErr, []), rd)"
| "parse_replies fl (cmd # cmds) firstErr rd = do {
     ((err, cmd), rd) \<leftarrow> cmd_parseReply fl cmd rd;
     ((firstErr, cmds), rd) \<leftarrow> parse_replies fl cmds (if err \<noteq> None \<and> firstErr = None then err else firstErr) rd;
     Some ((firstErr, cmd # cmds), rd)
   }"

definition pipe_execCmds :: "'f floats \<Rightarrow> 'f cmd list \<Rightarrow> conn \<Rightarrow> ((redis_error option \<times> 'f cmd list) \<times> conn) option" where
  "pipe_execCmds fl cmds cn =
     (case writeCmds cmds cn of
        (Some e, cn) \<Rightarrow> Some ((Some (ReadError e), setCmdsErr (Some (ReadError e)) cmds), cn)
      | (None, cn) \<Rightarrow> map_option (\<lambda>(r, rd). (r, cn\<lparr>N_rd := rd\<rparr>)) (parse_replies fl cmds None (N_rd cn)))"

text \<open>
  What putConn and shouldRetry are given is the error of getting the connection, which is nil
  here, and not what execCmds answered.
\<close>

fun pipe_loop :: "'f floats \<Rightarrow> 'p pool \<Rightarrow> bool \<Rightarrow> nat \<Rightarrow> redis_error option \<Rightarrow> 'f cmd list \<Rightarrow>
    ('p, 'f cmd list \<times> redis_error option) pooled" where
  "pipe_loop fl pl again 0 retErr cmds S = Some ((cmds, retErr), S)"
| "pipe_loop fl pl again (Suc n) retErr cmds S = do {
     let cmds = (if again then resetCmds fl cmds else cmds);
     (r, p, m) \<leftarrow> pool_Get pl S;
     (case r of
        Inl e \<Rightarrow> Some ((setCmdsErr (Some e) cmds, Some e), p, m)
      | Inr cn \<Rightarrow> do {
          let err = None;
          ((retErr, cmds), c) \<leftarrow> pipe_execCmds fl cmds (M_conns m cn);
          (_, S) \<leftarrow> putConn pl cn err (p, set_conn cn c m);
          (if shouldRetry err then pipe_loop fl pl True n retErr cmds S else Some ((cmds, retErr), S))
        })
   }"

definition pipe_Exec :: "'f floats \<Rightarrow> 'p pool \<Rightarrow> Options \<Rightarrow> 'f Pipeline \<Rightarrow>
    ('p, ('f cmd list \<times> redis_error option) \<times> 'f Pipeline) pooled" where
  "pipe_Exec fl pl opt c S =
     (if I_closed c then Some ((([], Some errClosed), c), S)
      else if I_cmds c = [] then Some ((([], None), c), S)
      else map_option (\<lambda>(r, S). ((r, c\<lparr>I_cmds := []\<rparr>), S))
        (pipe_loop fl pl False (nat (O_MaxRetries opt + 1)) None (I_cmds c) S))"

text \<open>\<open>f\<close> works on the pipeline and may fail.\<close>

definition Pipelined :: "'f floats \<Rightarrow> 'p pool \<Rightarrow> Options \<Rightarrow> ('f Pipeline \<Rightarrow> (redis_error option \<times> 'f Pipeline) option) \<Rightarrow>
    ('p, 'f cmd list \<times> redis_error option) pooled" where
  "Pipelined fl pl opt f S = do {
     (e, pc) \<leftarrow> f new_Pipeline;
     (if e \<noteq> None then Some (([], e), S)
      else map_option (\<lambda>((r, _), S). (r, S)) (pipe_Exec fl pl opt pc S))
   }"

section \<open>Transactions\<close>

text \<open>The commands of the transaction being put together, if any, beside the pool of one connection.\<close>

type_synonym ('f, 'q) multi = "'f cmd list option \<times> 'q single \<times> net"

definition new_Multi :: "'q \<Rightarrow> net \<Rightarrow> ('f, 'q) multi" where
  "new_Multi q m = (None, newSingleConnPool q True, m)"

definition multi_process :: "'f floats \<Rightarrow> 'q pool \<Rightarrow> Options \<Rightarrow> ('f, ('f, 'q) multi, 'f cmd) commandable" where
  "multi_process fl pl opt cmd c =
     (case c of
        (None, S) \<Rightarrow> map_option (\<lambda>(cmd, S). (cmd, None, S)) (client_process fl (singleConnPool (Some pl)) opt cmd S)
      | (Some cmds, S) \<Rightarrow> Some (cmd, Some (cmds @ [cmd]), S))"

definition Watch :: "('f, 's, 'r) commandable \<Rightarrow> string list \<Rightarrow> ('s, 'r) run" where
  "Watch c keys = Process c (NewStatusCmd ([''WATCH''] @ keys))"

definition Unwatch :: "('f, 's, 'r) commandable \<Rightarrow> string list \<Rightarrow> ('s, 'r) run" where
  "Unwatch c keys = Process c (NewStatusCmd ([''UNWATCH''] @ keys))"

definition multi_Close :: "'f floats \<Rightarrow> 'q pool \<Rightarrow> Options \<Rightarrow> ('f, 'q) multi \<Rightarrow>
    (redis_error option \<times> ('f, 'q) multi) option" where
  "multi_Close fl pl opt c = do {
     (cmd, cmds, S) \<leftarrow> Unwatch (multi_process fl pl opt) [] c;
     (case Q_err cmd of
        Some e \<Rightarrow> Some (Some e, cmds, S)
      | None \<Rightarrow> map_option (\<lambda>(e, S). (e, cmds, S)) (single_Close (Some pl) S))
   }"

definition errDiscard :: redis_error where
  "errDiscard = ClientError ''redis: Discard can be used only inside Exec''"

definition multi_Discard :: "('f, 'q) multi \<Rightarrow> redis_error option \<times> ('f, 'q) multi" where
  "multi_Discard c =
     (case c of
        (None, S) \<Rightarrow> (Some errDiscard, c)
      | (Some cmds, S) \<Rightarrow> (None, Some (take 1 cmds), S))"

text \<open>\<open>n\<close> replies that say OK or QUEUED.\<close>

fun queued_replies :: "'f cmd \<Rightarrow> nat \<Rightarrow> Reader \<Rightarrow> (redis_error option \<times> Reader) option" where
  "queued_replies statusCmd 0 rd = Some (None, rd)"
| "queued_replies statusCmd (Suc n) rd = do {
     ((err, statusCmd), rd) \<leftarrow> parse_StatusCmd statusCmd rd;
     (case err of Some e \<Rightarrow> Some (Some e, rd) | None \<Rightarrow> queued_replies statusCmd n rd)
   }"

text \<open>The line that EXEC is answered with: the error it means, if it is no number of replies.\<close>

definition exec_line :: "string \<Rightarrow> redis_error option option" where
  "exec_line line =
     (case line of
        [] \<Rightarrow> None
      | c # r \<Rightarrow> Some (
          if c \<noteq> CHR ''*'' then Some (ClientError ''redis: expected a number of replies'')
          else if is_minus_one r then Some TxFailedErr else None))"

text \<open>The commands without the first, MULTI, and the last, EXEC.\<close>

definition multi_execCmds :: "'f floats \<Rightarrow> 'f cmd list \<Rightarrow> conn \<Rightarrow> ((redis_error option \<times> 'f cmd list) \<times> conn) option" where
  "multi_execCmds fl cmds cn =
     (let middle = butlast (tl cmds);
          failed = (\<lambda>e. (Some e, setCmdsErr (Some e) middle))
      in case writeCmds cmds cn of
        (Some e, cn) \<Rightarrow> Some (failed (ReadError e), cn)
      | (None, cn) \<Rightarrow> do {
          (e, rd) \<leftarrow> queued_replies (NewStatusCmd [] :: 'f cmd) (length cmds - 1) (N_rd cn);
          (case e of
             Some e \<Rightarrow> Some (failed e, cn\<lparr>N_rd := rd\<rparr>)
           | None \<Rightarrow> do {
               (line, rd) \<leftarrow> readLine rd;
               (case line of
                  Inl e \<Rightarrow> Some (failed e, cn\<lparr>N_rd := rd\<rparr>)
                | Inr line \<Rightarrow> do {
                    e \<leftarrow> exec_line line;
                    (case e of
                       Some e \<Rightarrow> Some (failed e, cn\<lparr>N_rd := rd\<rparr>)
                     | None \<Rightarrow> map_option (\<lambda>(r, rd). (r, cn\<lparr>N_rd := rd\<rparr>)) (parse_replies fl middle None rd))
                  })
             })
        })"

definition multi_Exec :: "'f floats \<Rightarrow> 'q pool \<Rightarrow> (('f, 'q) multi \<Rightarrow> (redis_error option \<times> ('f, 'q) multi) option) \<Rightarrow>
    ('f, 'q) multi \<Rightarrow> (('f cmd list \<times> redis_error option) \<times> ('f, 'q) multi) option" where
  "multi_Exec fl pl f c = do {
     (e, cmds, S) \<leftarrow> f (Some [NewStatusCmd [''MULTI'']], snd c);
     (if e \<noteq> None then Some (([], e), cmds, S)
      else do {
        let cmds = (case cmds of Some cmds \<Rightarrow> cmds | None \<Rightarrow> []) @ [NewSliceCmd [''EXEC'']];
        (if length cmds = 2 then Some (([], None), None, S)
         else do {
           (r, p, m) \<leftarrow> single_Get (Some pl) S;
           (if length cmds < 2 then None
            else case r of
              Inl e \<Rightarrow> Some ((setCmdsErr (Some e) (butlast (tl cmds)), Some e), None, p, m)
            | Inr cn \<Rightarrow> do {
                ((e, done1), c) \<leftarrow> multi_execCmds fl cmds (M_conns m cn);
                (_, S) \<leftarrow> putConn (singleConnPool (Some pl)) cn e (p, set_conn cn c m);
                Some ((done1, e), None, S)
              })
         })
      })
   }"

section \<open>Subscriptions\<close>

datatype received_msg =
    Subscription string string int     \<comment> \<open>Kind, Channel, Count\<close>
  | Message string string              \<comment> \<open>Channel, Payload\<close>
  | PMessage string string string      \<comment> \<open>Channel, Pattern, Payload\<close>

type_synonym 'q pubsub = "'q single \<times> net"

definition new_PubSub :: "'q \<Rightarrow> net \<Rightarrow> 'q pubsub" where
  "new_PubSub q m = (newSingleConnPool q False, m)"

text \<open>The assertions on the elements of a message, each of which may panic.\<close>

definition str_at :: "gval list \<Rightarrow> nat \<Rightarrow> string option" where
  "str_at vs i = (if i < length vs then (case vs ! i of VStr s \<Rightarrow> Some s | _ \<Rightarrow> None) else None)"

definition int_at :: "gval list \<Rightarrow> nat \<Rightarrow> int option" where
  "int_at vs i = (if i < length vs then (case vs ! i of VInt n \<Rightarrow> Some n | _ \<Rightarrow> None) else None)"

definition message_of :: "gval list \<Rightarrow> (redis_error + received_msg) option" where
  "message_of reply = do {
     name \<leftarrow> str_at reply 0;
     (if name \<in> {''subscribe'', ''unsubscribe'', ''psubscribe'', ''punsubscribe''} then do {
        ch \<leftarrow> str_at reply 1;
        n \<leftarrow> int_at reply 2;
        Some (Inr (Subscription name ch n))
      }
      else if name = ''message'' then do {
        ch \<leftarrow> str_at reply 1;
        payload \<leftarrow> str_at reply 2;
        Some (Inr (Message ch payload))
      }
      else if name = ''pmessage'' then do {
        pat \<leftarrow> str_at reply 1;
        ch \<leftarrow> str_at reply 2;
        payload \<leftarrow> str_at reply 3;
        Some (Inr (PMessage ch pat payload))
      }
      else Some (Inl (ClientError ''redis: unsupported message name'')))
   }"

definition ReceiveTimeout :: "'q pool \<Rightarrow> int \<Rightarrow> 'q pubsub \<Rightarrow> ((redis_error + received_msg) \<times> 'q pubsub) option" where
  "ReceiveTimeout pl timeout S = do {
     (r, p, m) \<leftarrow> single_Get (Some pl) S;
     (case r of
        Inl e \<Rightarrow> Some (Inl e, p, m)
      | Inr cn \<Rightarrow> do {
          let c = (M_conns m cn)\<lparr>N_ReadTimeout := timeout\<rparr>;
          ((err, cmd), rd) \<leftarrow> parse_SliceCmd (NewSliceCmd [] :: unit cmd) (N_rd c);
          let S = (p, set_conn cn (c\<lparr>N_rd := rd\<rparr>) m);
          (case (err, Q_val cmd) of
             (Some e, _) \<Rightarrow> Some (Inl e, S)
           | (None, SliceVal reply) \<Rightarrow> map_option (\<lambda>r. (r, S)) (message_of reply)
           | (None, _) \<Rightarrow> None)
        })
   }"

definition Receive :: "'q pool \<Rightarrow> 'q pubsub \<Rightarrow> ((redis_error + received_msg) \<times> 'q pubsub) option" where
  "Receive pl S = ReceiveTimeout pl 0 S"

definition subscribe :: "'q pool \<Rightarrow> string \<Rightarrow> string list \<Rightarrow> 'q pubsub \<Rightarrow> (redis_error option \<times> 'q pubsub) option" where
  "subscribe pl cmd channels S = do {
     (r, p, m) \<leftarrow> single_Get (Some pl) S;
     Some (case r of
         Inl e \<Rightarrow> (Some e, p, m)
       | Inr cn \<Rightarrow>
           (case writeCmds [NewSliceCmd ([cmd] @ channels) :: unit cmd] (M_conns m cn) of
              (e, c) \<Rightarrow> (map_option ReadError e, p, set_conn cn c m)))
   }"

definition Subscribe :: "'q pool \<Rightarrow> string list \<Rightarrow> 'q pubsub \<Rightarrow> (redis_error option \<times> 'q pubsub) option" where
  "Subscribe pl channels = subscribe pl ''SUBSCRIBE'' channels"

definition PSubscribe :: "'q pool \<Rightarrow> string list \<Rightarrow> 'q pubsub \<Rightarrow> (redis_error option \<times> 'q pubsub) option" where
  "PSubscribe pl patterns = subscribe pl ''PSUBSCRIBE'' patterns"

text \<open>unsubscribe has the body of subscribe.\<close>

definition Unsubscribe :: "'q pool \<Rightarrow> string list \<Rightarrow> 'q pubsub \<Rightarrow> (redis_error option \<times> 'q pubsub) option" where
  "Unsubscribe pl channels = subscribe pl ''UNSUBSCRIBE'' channels"

definition PUnsubscribe :: "'q pool \<Rightarrow> string list \<Rightarrow> 'q pubsub \<Rightarrow> (redis_error option \<times> 'q pubsub) option" where
  "PUnsubscribe pl patterns = subscribe pl ''PUNSUBSCRIBE'' patterns"

section \<open>Scripts\<close>

text \<open>SHA-1 in hexadecimal digits is of the standard library, a parameter.\<close>

record script =
  Script_src :: string
  Script_hash :: string

definition NewScript :: "(string \<Rightarrow> string) \<Rightarrow> string \<Rightarrow> script" where
  "NewScript sha1_hex src = \<lparr>Script_src = src, Script_hash = sha1_hex src\<rparr>"

definition Script_Load :: "script \<Rightarrow> ('f, 's, 'r) commandable \<Rightarrow> ('s, 'r) run" where
  "Script_Load sc c = ScriptLoad c (Script_src sc)"

definition Script_Exists :: "script \<Rightarrow> ('f, 's, 'r) commandable \<Rightarrow> ('s, 'r) run" where
  "Script_Exists sc c = ScriptExists c [Script_src sc]"

definition Script_Eval :: "script \<Rightarrow> ('f, 's, 'r) commandable \<Rightarrow> string list \<Rightarrow> string list \<Rightarrow> ('s, 'r) run" where
  "Script_Eval sc c keys args1 = Eval c (Script_src sc) keys args1"

definition Script_EvalSha :: "script \<Rightarrow> ('f, 's, 'r) commandable \<Rightarrow> string list \<Rightarrow> string list \<Rightarrow> ('s, 'r) run" where
  "Script_EvalSha sc c keys args1 = EvalSha c (Script_hash sc) keys args1"

definition no_script :: "redis_error option \<Rightarrow> bool" where
  "no_script err =
     (case err of
        Some (RedisError s) \<Rightarrow> take 9 s = ''NOSCRIPT ''
      | Some (ReadError (OtherError s)) \<Rightarrow> take 9 s = ''NOSCRIPT ''
      | _ \<Rightarrow> False)"

definition Script_Run :: "script \<Rightarrow> ('f, 's, 'f cmd) commandable \<Rightarrow> string list \<Rightarrow> string list \<Rightarrow> ('s, 'f cmd) run" where
  "Script_Run sc c keys args1 s = do {
     (r, s) \<leftarrow> Script_EvalSha sc c keys args1 s;
     (if no_script (Q_err r) then Script_Eval sc c keys args1 s else Some (r, s))
   }"

end
