(* ===== verification/RedisHash.thy ===== *)
theory RedisHash
  imports Prelude
begin

unbundle bit_operations_syntax

text \<open>
  The hash slots of a Redis cluster (redis.v3/crc16.go and hashSlot of cluster.go): CRC16 by its
  table, and the key or the part of it in braces that decides the slot.
\<close>

type_synonym uint16 = "16 word"

definition crc16tab :: "uint16 list" where
  "crc16tab = [
     0x0000, 0x1021, 0x2042, 0x3063, 0x4084, 0x50a5, 0x60c6, 0x70e7,
     0x8108, 0x9129, 0xa14a, 0xb16b, 0xc18c, 0xd1ad, 0xe1ce, 0xf1ef,
     0x1231, 0x0210, 0x3273, 0x2252, 0x52b5, 0x4294, 0x72f7, 0x62d6,
     0x9339, 0x8318, 0xb37b, 0xa35a, 0xd3bd, 0xc39c, 0xf3ff, 0xe3de,
     0x2462, 0x3443, 0x0420, 0x1401, 0x64e6, 0x74c7, 0x44a4, 0x5485,
     0xa56a, 0xb54b, 0x8528, 0x9509, 0xe5ee, 0xf5cf, 0xc5ac, 0xd58d,
     0x3653, 0x2672, 0x1611, 0x0630, 0x76d7, 0x66f6, 0x5695, 0x46b4,
     0xb75b, 0xa77a, 0x9719, 0x8738, 0xf7df, 0xe7fe, 0xd79d, 0xc7bc,
     0x48c4, 0x58e5, 0x6886, 0x78a7, 0x0840, 0x1861, 0x2802, 0x3823,
     0xc9cc, 0xd9ed, 0xe98e, 0xf9af, 0x8948, 0x9969, 0xa90a, 0xb92b,
     0x5af5, 0x4ad4, 0x7ab7, 0x6a96, 0x1a71, 0x0a50, 0x3a33, 0x2a12,
     0xdbfd, 0xcbdc, 0xfbbf, 0xeb9e, 0x9b79, 0x8b58, 0xbb3b, 0xab1a,
     0x6ca6, 0x7c87, 0x4ce4, 0x5cc5, 0x2c22, 0x3c03, 0x0c60, 0x1c41,
     0xedae, 0xfd8f, 0xcdec, 0xddcd, 0xad2a, 0xbd0b, 0x8d68, 0x9d49,
     0x7e97, 0x6eb6, 0x5ed5, 0x4ef4, 0x3e13, 0x2e32, 0x1e51, 0x0e70,
     0xff9f, 0xefbe, 0xdfdd, 0xcffc, 0xbf1b, 0xaf3a, 0x9f59, 0x8f78,
     0x9188, 0x81a9, 0xb1ca, 0xa1eb, 0xd10c, 0xc12d, 0xf14e, 0xe16f,
     0x1080, 0x00a1, 0x30c2, 0x20e3, 0x5004, 0x4025, 0x7046, 0x6067,
     0x83b9, 0x9398, 0xa3fb, 0xb3da, 0xc33d, 0xd31c, 0xe37f, 0xf35e,
     0x02b1, 0x1290, 0x22f3, 0x32d2, 0x4235, 0x5214, 0x6277, 0x7256,
     0xb5ea, 0xa5cb, 0x95a8, 0x8589, 0xf56e, 0xe54f, 0xd52c, 0xc50d,
     0x34e2, 0x24c3, 0x14a0, 0x0481, 0x7466, 0x6447, 0x5424, 0x4405,
     0xa7db, 0xb7fa, 0x8799, 0x97b8, 0xe75f, 0xf77e, 0xc71d, 0xd73c,
     0x26d3, 0x36f2, 0x0691, 0x16b0, 0x6657, 0x7676, 0x4615, 0x5634,
     0xd94c, 0xc96d, 0xf90e, 0xe92f, 0x99c8, 0x89e9, 0xb98a, 0xa9ab,
     0x5844, 0x4865, 0x7806, 0x6827, 0x18c0, 0x08e1, 0x3882, 0x28a3,
     0xcb7d, 0xdb5c, 0xeb3f, 0xfb1e, 0x8bf9, 0x9bd8, 0xabbb, 0xbb9a,
     0x4a75, 0x5a54, 0x6a37, 0x7a16, 0x0af1, 0x1ad0, 0x2ab3, 0x3a92,
     0xfd2e, 0xed0f, 0xdd6c, 0xcd4d, 0xbdaa, 0xad8b, 0x9de8, 0x8dc9,
     0x7c26, 0x6c07, 0x5c64, 0x4c45, 0x3ca2, 0x2c83, 0x1ce0, 0x0cc1,
     0xef1f, 0xff3e, 0xcf5d, 0xdf7c, 0xaf9b, 0xbfba, 0x8fd9, 0x9ff8,
     0x6e17, 0x7e36, 0x4e55, 0x5e74, 0x2e93, 0x3eb2, 0x0ed1, 0x1ef0]"

definition byte_of :: "char \<Rightarrow> uint16" where
  "byte_of c = of_nat (of_char c)"

text \<open>What \<open>byte(crc >> 8) ^ key[i]\<close> selects in the table.\<close>

definition crc16_step :: "uint16 \<Rightarrow> char \<Rightarrow> uint16" where
  "crc16_step crc c = push_bit 8 crc XOR crc16tab ! unat (drop_bit 8 crc XOR byte_of c)"

definition crc16sum :: "string \<Rightarrow> uint16" where
  "crc16sum key = foldl crc16_step 0 key"

definition hashSlots :: int where "hashSlots = 16384"

fun index_of :: "char \<Rightarrow> string \<Rightarrow> nat option" where
  "index_of c [] = None"
| "index_of c (x # xs) = (if x = c then Some 0 else map_option Suc (index_of c xs))"

definition hash_tag :: "string \<Rightarrow> string" where
  "hash_tag key =
     (case index_of (CHR ''{'') key of
        None \<Rightarrow> key
      | Some s \<Rightarrow>
          (case index_of (CHR ''}'') (drop (s + 1) key) of
             None \<Rightarrow> key
           | Some e \<Rightarrow> if e > 0 then take e (drop (s + 1) key) else key))"

text \<open>\<open>draw\<close> is what rand.Intn gives.\<close>

definition hashSlot :: "int \<Rightarrow> string \<Rightarrow> int" where
  "hashSlot draw key =
     (if hash_tag key = [] then draw else uint (crc16sum (hash_tag key)) mod hashSlots)"

section \<open>The polynomial\<close>

text \<open>CRC16 with the polynomial x^16 + x^12 + x^5 + 1, bit by bit.\<close>

definition crc_bit :: "uint16 \<Rightarrow> uint16" where
  "crc_bit x = push_bit 1 x XOR (if bit x 15 then 0x1021 else 0)"

definition crc_byte :: "uint16 \<Rightarrow> char \<Rightarrow> uint16" where
  "crc_byte crc c = (crc_bit ^^ 8) (crc XOR push_bit 8 (byte_of c))"

definition crc16_bitwise :: "string \<Rightarrow> uint16" where
  "crc16_bitwise key = foldl crc_byte 0 key"

text \<open>One entry of the table, from the bits.\<close>

definition crc_at :: "nat \<Rightarrow> uint16" where
  "crc_at i = (crc_bit ^^ 8) (push_bit 8 (of_nat i))"

lemma eight_times: "(f ^^ 8) x = f (f (f (f (f (f (f (f x)))))))"
  by (simp add: eval_nat_numeral)

lemma crc_bit_numerals:
  "crc_bit (numeral k) = push_bit 1 (numeral k) XOR (if bit (numeral k :: uint16) 15 then 0x1021 else 0)" "crc_bit 0 = 0"
  by (simp_all add: crc_bit_def)

lemma crc_at_numerals:
  "crc_at (numeral k) =
     crc_bit (crc_bit (crc_bit (crc_bit (crc_bit (crc_bit (crc_bit (crc_bit (push_bit 8 (numeral k)))))))))"
  "crc_at 0 = 0"
  "crc_at (Suc 0) = crc_bit (crc_bit (crc_bit (crc_bit (crc_bit (crc_bit (crc_bit (crc_bit 256)))))))"
  by (simp_all add: crc_at_def eight_times crc_bit_numerals)

lemma all_bytes: "[0..<256] = 0 # Suc 0 # [2..<256]"
  by (simp add: upt_conv_Cons numeral_2_eq_2)

lemma table_is_polynomial: "crc16tab = List.map crc_at [0..<256]"
  by (simp add: all_bytes upt_rec_numeral crc_at_numerals crc_bit_numerals crc16tab_def)

lemma crc_bit_linear: "crc_bit (x XOR y) = crc_bit x XOR crc_bit y"
  by (auto simp: crc_bit_def bit_simps push_bit_xor intro: bit_word_eqI)

lemma crc_bits_linear: "(crc_bit ^^ k) (x XOR y) = (crc_bit ^^ k) x XOR (crc_bit ^^ k) y"
  by (induction k) (simp_all add: crc_bit_linear)

text \<open>A low byte is only shifted.\<close>

lemma crc_bits_low:
  assumes "\<forall>j \<ge> 8. \<not> bit x j" "k \<le> 8"
  shows "(crc_bit ^^ k) x = push_bit k x"
  using assms(2)
proof (induction k)
  case (Suc k)
  then have "\<not> bit (push_bit k x) 15" using assms(1) by (simp add: bit_simps)
  then have "crc_bit (push_bit k x) = push_bit 1 (push_bit k x)" by (simp only: crc_bit_def if_False xor.right_neutral)
  moreover have "(crc_bit ^^ Suc k) x = crc_bit (push_bit k x)" using Suc by simp
  ultimately show ?case by (simp only: push_bit_push_bit) simp
qed simp

lemma byte_of_bits: "bit (byte_of c) j \<Longrightarrow> j < 8"
proof (rule ccontr)
  assume "bit (byte_of c) j" "\<not> j < 8"
  have "(of_char c :: nat) < 256" by (rule of_char_mod_256 [THEN subst]) simp
  also have "(256 :: nat) \<le> 2 ^ j" using \<open>\<not> j < 8\<close> power_increasing [of 8 j "2 :: nat"] by simp
  finally have "\<not> bit (of_char c :: nat) j" by (simp add: bit_iff_odd)
  with \<open>bit (byte_of c) j\<close> show False by (simp add: byte_of_def bit_simps)
qed

lemma low_byte_less:
  fixes w :: uint16
  assumes "\<forall>j. bit w j \<longrightarrow> j < 8"
  shows "unat w < 256"
proof -
  have "take_bit 8 w = w" by (rule bit_word_eqI) (use assms in \<open>auto simp: bit_simps\<close>)
  then have "unat w = take_bit 8 (unat w)" by (metis unsigned_take_bit_eq)
  then show ?thesis using take_bit_nat_less_exp [of 8 "unat w"] by simp
qed

lemma crc16_step_byte: "crc16_step crc c = crc_byte crc c"
proof -
  let ?i = "drop_bit 8 crc XOR byte_of c" and ?lo = "take_bit 8 crc"
  have "bit crc (j + 8) \<Longrightarrow> j < 8" for j using bit_imp_le_length [of crc "j + 8"] by simp
  then have i: "unat ?i < 256" by (intro low_byte_less) (auto simp: bit_simps add.commute dest: byte_of_bits)
  have "crc XOR push_bit 8 (byte_of c) = push_bit 8 ?i XOR ?lo"
    by (rule bit_word_eqI) (auto simp: bit_simps)
  then have "crc_byte crc c = (crc_bit ^^ 8) (push_bit 8 ?i) XOR (crc_bit ^^ 8) ?lo"
    by (simp only: crc_byte_def crc_bits_linear)
  also have "(crc_bit ^^ 8) ?lo = push_bit 8 ?lo" by (rule crc_bits_low) (auto simp: bit_simps)
  also have "push_bit 8 ?lo = push_bit 8 crc" by (rule bit_word_eqI) (auto simp: bit_simps)
  also have "(crc_bit ^^ 8) (push_bit 8 ?i) = crc16tab ! unat ?i"
    using i by (simp add: table_is_polynomial crc_at_def)
  finally show ?thesis by (simp add: crc16_step_def xor.commute)
qed

text \<open>
  C26. The table computes the CRC16 of the polynomial x^16 + x^12 + x^5 + 1, of every key: what
  crc16sum reads in its 256 entries is what the division by the polynomial gives bit by bit.
\<close>

theorem crc16_is_the_polynomial: "crc16sum key = crc16_bitwise key"
proof -
  have "crc16_step = crc_byte" by (intro ext crc16_step_byte)
  then show ?thesis by (simp add: crc16sum_def crc16_bitwise_def)
qed

end
