(* ===== verification/RedisCluster.thy ===== *)
theory RedisCluster
  imports RedisSessions RedisHash "HOL-Library.AList" "HOL-Library.Monad_Syntax"
begin

text \<open>
  The cluster client of redis.v3 (cluster.go, cluster_pipeline.go): a client for each node, the
  table of the slots, redirections. Each node has its own network, what its dials give; a client is
  known by its address. What rand.Intn gives is a sequence of numbers, taken modulo the range.
  Reloading the slots in the background is an operation of its own that runs when the scheduler
  lets it; \<open>X_reloads\<close> counts the goroutines started for it.
\<close>

section \<open>Options\<close>

record ClusterOptions =
  OC_Addrs :: "string list"
  OC_MaxRedirects :: int
  OC_Password :: string
  OC_DialTimeout :: int
  OC_ReadTimeout :: int
  OC_WriteTimeout :: int
  OC_PoolSize :: int
  OC_PoolTimeout :: int
  OC_IdleTimeout :: int

definition getMaxRedirects :: "ClusterOptions \<Rightarrow> int" where
  "getMaxRedirects opt =
     (if OC_MaxRedirects opt = - 1 then 0 else if OC_MaxRedirects opt = 0 then 16 else OC_MaxRedirects opt)"

definition clientOptions :: "ClusterOptions \<Rightarrow> Options" where
  "clientOptions opt = \<lparr>O_Network = [], O_Addr = [], O_Password = OC_Password opt, O_DB = 0, O_MaxRetries = 0,
     O_DialTimeout = OC_DialTimeout opt, O_ReadTimeout = OC_ReadTimeout opt, O_WriteTimeout = OC_WriteTimeout opt,
     O_PoolSize = OC_PoolSize opt, O_PoolTimeout = OC_PoolTimeout opt, O_IdleTimeout = OC_IdleTimeout opt\<rparr>"

section \<open>The cluster client\<close>

record ClusterClient =
  X_addrs :: "string list"
  X_slots :: "string list list"
  X_clients :: "(string \<times> connPool client_state) list"
  X_closed :: bool
  X_opt :: ClusterOptions
  X_reloading :: bool
  X_reloads :: nat
  X_net :: "string \<Rightarrow> net"        \<comment> \<open>the network of a node without a client\<close>
  X_rand :: "nat \<Rightarrow> nat"
  X_draws :: nat

text \<open>\<open>rand.Intn(n)\<close>, which panics when there is nothing to choose from.\<close>

definition rand_Intn :: "nat \<Rightarrow> ClusterClient \<Rightarrow> (nat \<times> ClusterClient) option" where
  "rand_Intn n c = (if n = 0 then None else Some (X_rand c (X_draws c) mod n, c\<lparr>X_draws := X_draws c + 1\<rparr>))"

text \<open>A new client of the redis package: its pool is that of its options, it has no connection yet.\<close>

definition NewClient :: "Options \<Rightarrow> net \<Rightarrow> connPool client_state option" where
  "NewClient opt m = map_option (\<lambda>p. (p, m)) (newConnPool opt (M_now m))"

text \<open>What the client of an address does.\<close>

definition on_client :: "string \<Rightarrow> (connPool client_state \<Rightarrow> ('a \<times> connPool client_state) option) \<Rightarrow>
    ClusterClient \<Rightarrow> ('a \<times> ClusterClient) option" where
  "on_client addr f c = do {
     s \<leftarrow> map_of (X_clients c) addr;
     (x, s) \<leftarrow> f s;
     Some (x, c\<lparr>X_clients := AList.update addr s (X_clients c)\<rparr>)
   }"

definition client_cmd :: "'f floats \<Rightarrow> string \<Rightarrow> ClusterClient \<Rightarrow> ('f, connPool client_state, 'f cmd) commandable" where
  "client_cmd fl addr c = process_cmd fl ((clientOptions (X_opt c))\<lparr>O_Addr := addr\<rparr>)"

text \<open>The client of an address that is not empty; with it comes an error or the address as its name.\<close>

definition open_client :: "string \<Rightarrow> ClusterClient \<Rightarrow> ((redis_error + string) \<times> ClusterClient) option" where
  "open_client addr c =
     (if map_of (X_clients c) addr \<noteq> None then Some (Inr addr, c)
      else if X_closed c then Some (Inl errClosed, c)
      else do {
        s \<leftarrow> NewClient ((clientOptions (X_opt c))\<lparr>O_Addr := addr\<rparr>) (X_net c addr);
        Some (Inr addr, c\<lparr>X_clients := AList.update addr s (X_clients c)\<rparr>)
      })"

text \<open>
  getClient (\<open>Inl\<close> an address) and randomClient (\<open>Inr\<close> the turns taken and the error of the last
  one), which call each other.
\<close>

partial_function (option) client_for :: "'f floats \<Rightarrow> string + nat \<times> redis_error option \<Rightarrow> ClusterClient \<Rightarrow>
    ((redis_error option \<times> string option) \<times> ClusterClient) option" where
  [code]: "client_for fl what c =
     (case what of
        Inl addr \<Rightarrow>
          if addr = [] then client_for fl (Inr (0, None)) c
          else map_option (\<lambda>(r, c). ((case r of Inl e \<Rightarrow> (Some e, None) | Inr a \<Rightarrow> (None, Some a)), c)) (open_client addr c)
      | Inr (i, err) \<Rightarrow>
          if i \<ge> 10 then Some ((err, None), c)
          else Option.bind (rand_Intn (length (X_addrs c)) c) (\<lambda>(n, c).
            Option.bind (client_for fl (Inl (X_addrs c ! n)) c) (\<lambda>((err, client), c).
              if err \<noteq> None then client_for fl (Inr (i + 1, err)) c
              else Option.bind (on_client (the client) (ClusterInfo (client_cmd fl (the client) c)) c) (\<lambda>(info, c).
                if Q_err info = None then Some ((None, client), c)
                else client_for fl (Inr (i + 1, Q_err info)) c))))"

definition getClient :: "'f floats \<Rightarrow> string \<Rightarrow> ClusterClient \<Rightarrow> ((redis_error option \<times> string option) \<times> ClusterClient) option" where
  "getClient fl addr = client_for fl (Inl addr)"

definition randomClient :: "'f floats \<Rightarrow> ClusterClient \<Rightarrow> ((redis_error option \<times> string option) \<times> ClusterClient) option" where
  "randomClient fl = client_for fl (Inr (0, None))"

section \<open>Slots\<close>

text \<open>An index out of range is a panic.\<close>

definition slotAddrs :: "int \<Rightarrow> ClusterClient \<Rightarrow> string list option" where
  "slotAddrs slot c = (if 0 \<le> slot \<and> slot < int (length (X_slots c)) then Some (X_slots c ! nat slot) else None)"

function set_from :: "int \<Rightarrow> int \<Rightarrow> string list \<Rightarrow> string list list \<Rightarrow> string list list option" where
  "set_from slot final addrs slots =
     (if slot > final then Some slots
      else if 0 \<le> slot \<and> slot < int (length slots) then set_from (slot + 1) final addrs (slots[nat slot := addrs])
      else None)"
  by pat_completeness auto
termination by (relation "measure (\<lambda>(slot, final, _). nat (final + 1 - slot))") auto

declare set_from.simps [simp del]

text \<open>An address that is not yet known goes to the end.\<close>

fun add_addrs :: "string list \<Rightarrow> string list \<Rightarrow> string list" where
  "add_addrs known [] = known"
| "add_addrs known (a # as) = add_addrs (if a \<in> set known then known else known @ [a]) as"

fun set_infos :: "ClusterSlotInfo list \<Rightarrow> string list list \<times> string list \<Rightarrow> (string list list \<times> string list) option" where
  "set_infos [] st = Some st"
| "set_infos (info # infos) (slots, addrs) = do {
     slots \<leftarrow> set_from (Slot_Start info) (Slot_End info) (Slot_Addrs info) slots;
     set_infos infos (slots, add_addrs addrs (Slot_Addrs info))
   }"

definition setSlots :: "ClusterSlotInfo list \<Rightarrow> ClusterClient \<Rightarrow> ClusterClient option" where
  "setSlots infos c =
     map_option (\<lambda>(slots, addrs). c\<lparr>X_slots := slots, X_addrs := addrs\<rparr>)
       (set_infos infos (List.map (\<lambda>_. []) (X_slots c), X_addrs c))"

text \<open>What goes wrong is only logged.\<close>

definition reloadSlots :: "'f floats \<Rightarrow> ClusterClient \<Rightarrow> ClusterClient option" where
  "reloadSlots fl c = do {
     ((err, client), c) \<leftarrow> randomClient fl c;
     c \<leftarrow> (if err \<noteq> None then Some c
       else do {
         (cmd, c) \<leftarrow> on_client (the client) (ClusterSlots (client_cmd fl (the client) c)) c;
         (case (Q_err cmd, Q_val cmd) of
            (None, ClusterSlotVal infos) \<Rightarrow> setSlots infos c
          | _ \<Rightarrow> Some c)
       });
     Some (c\<lparr>X_reloading := False\<rparr>)
   }"

definition lazyReloadSlots :: "ClusterClient \<Rightarrow> ClusterClient" where
  "lazyReloadSlots c = (if X_reloading c then c else c\<lparr>X_reloading := True, X_reloads := X_reloads c + 1\<rparr>)"

definition NewClusterClient :: "'f floats \<Rightarrow> ClusterOptions \<Rightarrow> (string \<Rightarrow> net) \<Rightarrow> (nat \<Rightarrow> nat) \<Rightarrow> ClusterClient option" where
  "NewClusterClient fl opt nets rnd =
     reloadSlots fl \<lparr>X_addrs = OC_Addrs opt, X_slots = replicate (nat RedisHash.hashSlots) [], X_clients = [],
       X_closed = False, X_opt = opt, X_reloading = False, X_reloads = 0, X_net = nets, X_rand = rnd, X_draws = 0\<rparr>"


definition resetClients :: "'f floats \<Rightarrow> ClusterClient \<Rightarrow> ClusterClient option" where
  "resetClients fl c = do {
     nets \<leftarrow> those (List.map (\<lambda>(addr, s). map_option (\<lambda>(_, _, m). (addr, m)) (pool_close fl s)) (X_clients c));
     Some (c\<lparr>X_clients := [], X_net := (\<lambda>addr. case map_of nets addr of Some m \<Rightarrow> m | None \<Rightarrow> X_net c addr)\<rparr>)
   }"

definition cluster_Close :: "'f floats \<Rightarrow> ClusterClient \<Rightarrow> ClusterClient option" where
  "cluster_Close fl c =
     (if X_closed c then Some c
      else do { c \<leftarrow> resetClients fl (c\<lparr>X_closed := True\<rparr>); setSlots [] c })"

text \<open>One tick of the reaper; it stops when the client is closed.\<close>

definition reap_client :: "'f floats \<Rightarrow> connPool client_state \<Rightarrow> connPool client_state option" where
  "reap_client fl s = do {
     (cn, s) \<leftarrow> First s;
     (case cn of None \<Rightarrow> Some s | Some cn \<Rightarrow> map_option snd (Put_conn fl cn s))
   }"

definition cluster_reap :: "'f floats \<Rightarrow> ClusterClient \<Rightarrow> (bool \<times> ClusterClient) option" where
  "cluster_reap fl c =
     (if X_closed c then Some (False, c)
      else do {
        clients \<leftarrow> those (List.map (\<lambda>(addr, s). map_option (Pair addr) (reap_client fl s)) (X_clients c));
        Some (True, c\<lparr>X_clients := clients\<rparr>)
      })"

section \<open>A command\<close>

text \<open>The slot of a command: without a key it is drawn.\<close>

definition slot_of :: "'f cmd \<Rightarrow> ClusterClient \<Rightarrow> int \<times> ClusterClient" where
  "slot_of cmd c =
     (if hash_tag (clusterKey cmd) = []
      then (hashSlot (int (X_rand c (X_draws c) mod nat RedisHash.hashSlots)) (clusterKey cmd), c\<lparr>X_draws := X_draws c + 1\<rparr>)
      else (hashSlot 0 (clusterKey cmd), c))"

definition master_of :: "'f cmd \<Rightarrow> ClusterClient \<Rightarrow> (string \<times> ClusterClient) option" where
  "master_of cmd c =
     (case slot_of cmd c of (slot, c) \<Rightarrow>
        map_option (\<lambda>addrs. (case addrs of a # _ \<Rightarrow> a | [] \<Rightarrow> [], c)) (slotAddrs slot c))"

text \<open>One attempt on a client: after an ASK the command goes behind ASKING in a pipeline.\<close>

definition attempt_on :: "'f floats \<Rightarrow> bool \<Rightarrow> string \<Rightarrow> 'f cmd \<Rightarrow> ClusterClient \<Rightarrow> ('f cmd \<times> ClusterClient) option" where
  "attempt_on fl ask client cmd c =
     (if ask
      then on_client client (\<lambda>s. map_option (\<lambda>(((cmds, _), _), s). (cmds ! 1, s))
        (pipe_Exec fl (conn_pool fl) ((clientOptions (X_opt c))\<lparr>O_Addr := client\<rparr>)
          \<lparr>I_cmds = [NewCmd [''ASKING''], cmd], I_closed = False\<rparr> s)) c
      else on_client client (client_cmd fl client c cmd) c)"

text \<open>\<open>n\<close> attempts are left.\<close>

fun redirect_loop :: "'f floats \<Rightarrow> bool \<Rightarrow> nat \<Rightarrow> bool \<Rightarrow> string \<Rightarrow> 'f cmd \<Rightarrow> ClusterClient \<Rightarrow> ('f cmd \<times> ClusterClient) option" where
  "redirect_loop fl again 0 ask client cmd c = Some (cmd, c)"
| "redirect_loop fl again (Suc n) ask client cmd c = do {
     (cmd, c) \<leftarrow> attempt_on fl ask client (if again then reset fl cmd else cmd) c;
     (case Q_err cmd of
        None \<Rightarrow> Some (cmd, c)
      | Some err \<Rightarrow>
          if err = Nil_error \<or> err = TxFailedErr then Some (cmd, c)
          else if isNetworkError err then do {
            ((e, other), c) \<leftarrow> randomClient fl c;
            (if e \<noteq> None then Some (cmd, c) else redirect_loop fl True n False (the other) cmd c)
          }
          else (case isMovedError err of (moved, ask, addr) \<Rightarrow>
            if moved \<or> ask then do {
              ((e, other), c) \<leftarrow> getClient fl addr (if moved then lazyReloadSlots c else c);
              (if e \<noteq> None then Some (cmd, c) else redirect_loop fl True n ask (the other) cmd c)
            }
            else Some (cmd, c)))
   }"

definition cluster_process :: "'f floats \<Rightarrow> 'f cmd \<Rightarrow> ClusterClient \<Rightarrow> ('f cmd \<times> ClusterClient) option" where
  "cluster_process fl cmd c = do {
     (addr, c) \<leftarrow> master_of cmd c;
     ((err, client), c) \<leftarrow> getClient fl addr c;
     (if err \<noteq> None then Some (setErr err cmd, c)
      else redirect_loop fl False (nat (getMaxRedirects (X_opt c) + 1)) False (the client) cmd c)
   }"


section \<open>Pipelines\<close>

text \<open>
  A command is a pointer that several lists share: the commands of one Exec are a store, and lists
  hold positions in it; those of ASKING are added at its end. The commands for each address are a
  list in the order of the first; in which order Go ranges over the map is the parameter \<open>order\<close>.
\<close>

record 'f ClusterPipeline =
  Y_cmds :: "'f cmd list"
  Y_closed :: bool

definition cluster_Pipeline :: "'f ClusterPipeline" where
  "cluster_Pipeline = \<lparr>Y_cmds = [], Y_closed = False\<rparr>"

definition cpipe_process :: "('f, 'f ClusterPipeline, 'f cmd) commandable" where
  "cpipe_process cmd p = Some (cmd, p\<lparr>Y_cmds := Y_cmds p @ [cmd]\<rparr>)"

definition cpipe_Close :: "'f ClusterPipeline \<Rightarrow> 'f ClusterPipeline" where
  "cpipe_Close p = p\<lparr>Y_closed := True\<rparr>"

definition cpipe_Discard :: "'f ClusterPipeline \<Rightarrow> redis_error option \<times> 'f ClusterPipeline" where
  "cpipe_Discard p = (if Y_closed p then (Some errClosed, p) else (None, p\<lparr>Y_cmds := []\<rparr>))"

type_synonym cmds_map = "(string \<times> nat list) list"

definition append_at :: "string \<Rightarrow> nat list \<Rightarrow> cmds_map \<Rightarrow> cmds_map" where
  "append_at addr js cm = AList.update addr ((case map_of cm addr of Some is \<Rightarrow> is | None \<Rightarrow> []) @ js) cm"

fun group_cmds :: "nat \<Rightarrow> 'f cmd list \<Rightarrow> cmds_map \<Rightarrow> ClusterClient \<Rightarrow> (cmds_map \<times> ClusterClient) option" where
  "group_cmds i [] cm c = Some (cm, c)"
| "group_cmds i (cmd # cmds) cm c = do {
     (addr, c) \<leftarrow> master_of cmd c;
     group_cmds (i + 1) cmds (append_at addr [i] cm) c
   }"

definition set_errs :: "redis_error \<Rightarrow> nat list \<Rightarrow> 'f cmd list \<Rightarrow> 'f cmd list" where
  "set_errs e js store = fold (\<lambda>j store. store[j := setErr (Some e) (store ! j)]) js store"

text \<open>
  The replies of a node: what failed and where to send it, the first error that is no redirection,
  and whether a slot has moved.
\<close>

fun exec_replies :: "'f floats \<Rightarrow> nat list \<Rightarrow> cmds_map \<times> redis_error option \<times> bool \<Rightarrow> 'f cmd list \<Rightarrow> Reader \<Rightarrow>
    ((cmds_map \<times> redis_error option \<times> bool) \<times> 'f cmd list \<times> Reader) option" where
  "exec_replies fl [] st store rd = Some (st, store, rd)"
| "exec_replies fl (j # js) (failed, first, reload) store rd = do {
     ((err, cmd), rd) \<leftarrow> cmd_parseReply fl (store ! j) rd;
     (case err of
        None \<Rightarrow> exec_replies fl js (failed, first, reload) (store[j := cmd]) rd
      | Some e \<Rightarrow>
          if isNetworkError e then Some ((append_at [] (j # js) failed, first, reload), store[j := reset fl cmd], rd)
          else (case isMovedError e of (moved, ask, addr) \<Rightarrow>
            if moved then exec_replies fl js (append_at addr [j] failed, first, True) (store[j := reset fl cmd]) rd
            else if ask then
              exec_replies fl js (append_at addr [length store, j] failed, first, reload)
                (store[j := reset fl cmd] @ [NewCmd [''ASKING'']]) rd
            else exec_replies fl js (failed, if first = None then Some e else first, reload) (store[j := cmd]) rd))
   }"

definition execClusterCmds :: "'f floats \<Rightarrow> nat list \<Rightarrow> cmds_map \<Rightarrow> 'f cmd list \<Rightarrow> conn \<Rightarrow>
    ((cmds_map \<times> redis_error option \<times> bool) \<times> 'f cmd list \<times> conn) option" where
  "execClusterCmds fl js failed store cn =
     (case writeCmds (List.map ((!) store) js) cn of
        (Some e, cn) \<Rightarrow> Some ((failed, Some (ReadError e), False), set_errs (ReadError e) js store, cn)
      | (None, cn) \<Rightarrow> map_option (\<lambda>(st, store, rd). (st, store, cn\<lparr>N_rd := rd\<rparr>))
          (exec_replies fl js (failed, None, False) store (N_rd cn)))"

text \<open>The commands of one address, on a connection of its client.\<close>

definition exec_on :: "'f floats \<Rightarrow> nat list \<Rightarrow> cmds_map \<Rightarrow> 'f cmd list \<Rightarrow> connPool client_state \<Rightarrow>
    (((cmds_map \<times> redis_error option \<times> bool) \<times> 'f cmd list) \<times> connPool client_state) option" where
  "exec_on fl js failed store s = do {
     (r, p, m) \<leftarrow> pool_Get (conn_pool fl) s;
     (case r of
        Inl e \<Rightarrow> Some (((failed, Some e, False), set_errs e js store), p, m)
      | Inr cn \<Rightarrow> do {
          ((failed, err, reload), store, k) \<leftarrow> execClusterCmds fl js failed store (M_conns m cn);
          (_, s) \<leftarrow> putConn (conn_pool fl) cn err (p, set_conn cn k m);
          Some (((failed, err, reload), store), s)
        })
   }"

definition exec_addr :: "'f floats \<Rightarrow> string \<Rightarrow> nat list \<Rightarrow> cmds_map \<times> redis_error option \<Rightarrow> 'f cmd list \<Rightarrow> ClusterClient \<Rightarrow>
    ((cmds_map \<times> redis_error option) \<times> 'f cmd list \<times> ClusterClient) option" where
  "exec_addr fl addr js st store c =
     (case st of (failed, retErr) \<Rightarrow> do {
        ((e, client), c) \<leftarrow> getClient fl addr c;
        (case e of
           Some e \<Rightarrow> Some ((failed, Some e), set_errs e js store, c)
         | None \<Rightarrow> do {
             (((failed, err, reload), store), c) \<leftarrow> on_client (the client) (exec_on fl js failed store) c;
             Some ((failed, if err \<noteq> None then err else retErr), store, if reload then lazyReloadSlots c else c)
           })
      })"

fun exec_addrs :: "'f floats \<Rightarrow> string list \<Rightarrow> cmds_map \<Rightarrow> cmds_map \<times> redis_error option \<Rightarrow> 'f cmd list \<Rightarrow> ClusterClient \<Rightarrow>
    ((cmds_map \<times> redis_error option) \<times> 'f cmd list \<times> ClusterClient) option" where
  "exec_addrs fl [] cm st store c = Some (st, store, c)"
| "exec_addrs fl (addr # addrs) cm st store c = do {
     (st, store, c) \<leftarrow> exec_addr fl addr (the (map_of cm addr)) st store c;
     exec_addrs fl addrs cm st store c
   }"

fun exec_attempts :: "'f floats \<Rightarrow> (nat \<Rightarrow> string list \<Rightarrow> string list) \<Rightarrow> nat \<Rightarrow> cmds_map \<Rightarrow> redis_error option \<Rightarrow> 'f cmd list \<Rightarrow>
    ClusterClient \<Rightarrow> (redis_error option \<times> 'f cmd list \<times> ClusterClient) option" where
  "exec_attempts fl order 0 cm retErr store c = Some (retErr, store, c)"
| "exec_attempts fl order (Suc n) cm retErr store c = do {
     ((failed, retErr), store, c) \<leftarrow> exec_addrs fl (order n (List.map fst cm)) cm ([], retErr) store c;
     exec_attempts fl order n failed retErr store c
   }"

definition cpipe_Exec :: "'f floats \<Rightarrow> (nat \<Rightarrow> string list \<Rightarrow> string list) \<Rightarrow> 'f ClusterPipeline \<Rightarrow> ClusterClient \<Rightarrow>
    (('f cmd list \<times> redis_error option) \<times> 'f ClusterPipeline \<times> ClusterClient) option" where
  "cpipe_Exec fl order p c =
     (if Y_closed p then Some (([], Some errClosed), p, c)
      else if Y_cmds p = [] then Some (([], None), p, c)
      else do {
        (cm, c) \<leftarrow> group_cmds 0 (Y_cmds p) [] c;
        (retErr, store, c) \<leftarrow> exec_attempts fl order (nat (getMaxRedirects (X_opt c) + 1)) cm None (Y_cmds p) c;
        Some ((take (length (Y_cmds p)) store, retErr), p\<lparr>Y_cmds := []\<rparr>, c)
      })"

end
