(* ===== verification/PoolFacts.thy ===== *)
theory PoolFacts
  imports RedisPool
begin

text \<open>
  What a pool promises to the code that uses it, as a locale: a connection is handed out, used by
  one client and given back once. Processing a command keeps the promise whatever fails. The
  connection pool, the pool of one connection around it and the bare connection of the dialer
  provide it.
\<close>

section \<open>The contract\<close>

text \<open>\<open>rest\<close>: the client has no connection in hand; \<open>busy cn\<close>: it has \<open>cn\<close>, which is open.\<close>

locale conn_source =
  fixes pl :: "'p pool" and rest :: "'p \<times> net \<Rightarrow> bool" and busy :: "nat \<Rightarrow> 'p \<times> net \<Rightarrow> bool"
  assumes Get_law: "rest S \<Longrightarrow> pool_Get pl S = Some (r, S') \<Longrightarrow> (case r of Inl e \<Rightarrow> rest S' | Inr cn \<Rightarrow> busy cn S')"
    and Put_law: "busy cn S \<Longrightarrow> pool_Put pl cn S = Some (e, S') \<Longrightarrow> rest S'"
    and Remove_law: "busy cn S \<Longrightarrow> pool_Remove pl cn S = Some (e, S') \<Longrightarrow> rest S'"
    and use_law: "busy cn (p, m) \<Longrightarrow> N_closed c = N_closed (M_conns m cn) \<Longrightarrow> busy cn (p, set_conn cn c m)"
begin

lemma putConn_rest: "busy cn S \<Longrightarrow> putConn pl cn e S = Some (x, S') \<Longrightarrow> rest S'"
  by (auto simp: putConn_def split: if_splits option.splits redis_error.splits dest: Put_law Remove_law)

end

lemma conn_Write_closed: "N_closed (snd (conn_Write b cn)) = N_closed cn"
  by (auto simp: conn_Write_def split: list.split option.split)

lemma writeCmds_closed: "writeCmds cmds cn = (e, cn') \<Longrightarrow> N_closed cn' = N_closed cn"
  using conn_Write_closed by (metis snd_conv writeCmds_def)

lemma set_timeouts_closed [simp]: "N_closed (set_timeouts opt cmd cn) = N_closed cn"
  by (simp add: set_timeouts_def)

lemma exchange_closed: "exchange fl cmd cn = Some (r, cn') \<Longrightarrow> N_closed cn' = N_closed cn"
  using writeCmds_closed by (fastforce simp: exchange_def split: prod.splits option.splits)

context conn_source begin

lemma process_loop_rest:
  "rest S \<Longrightarrow> process_loop fl pl opt again n cmd S = Some (cmd', S') \<Longrightarrow> rest S'"
proof (induction n arbitrary: again cmd S)
  case (Suc n)
  obtain r p m where get: "pool_Get pl S = Some (r, p, m)" using Suc.prems(2) by (auto simp: Let_def)
  note law = Get_law [OF Suc.prems(1) get]
  show ?case
  proof (cases r)
    case (Inl e)
    with law get Suc.prems(2) show ?thesis by (auto simp: Let_def)
  next
    case (Inr cn)
    let ?cmd = "if again then reset fl cmd else cmd"
    obtain err cmd1 c where ex: "exchange fl ?cmd (set_timeouts opt ?cmd (M_conns m cn)) = Some ((err, cmd1), c)"
      using Suc.prems(2) get Inr by (auto simp: Let_def split: option.splits)
    obtain S1 where put: "putConn pl cn err (p, set_conn cn c m) = Some ((), S1)"
      using Suc.prems(2) get Inr ex by (auto simp: Let_def)
    have "busy cn (p, set_conn cn c m)"
      using law Inr exchange_closed [OF ex] by (intro use_law) simp_all
    then have "rest S1" using put by (rule putConn_rest)
    then show ?thesis
      using Suc.prems(2) get Inr ex put Suc.IH [of S1] by (auto simp: Let_def split: if_splits)
  qed
qed simp

lemma client_process_rest: "rest S \<Longrightarrow> client_process fl pl opt cmd S = Some (cmd', S') \<Longrightarrow> rest S'"
  unfolding client_process_def by (rule process_loop_rest)

end

section \<open>The pool of one connection\<close>

definition single_busy :: "(nat \<Rightarrow> 'q \<times> net \<Rightarrow> bool) \<Rightarrow> nat \<Rightarrow> 'q single \<times> net \<Rightarrow> bool" where
  "single_busy busy cn S \<longleftrightarrow> SP_cn (fst S) = Some cn \<and> busy cn (SP_inner (fst S), snd S)"

definition single_rest :: "('q \<times> net \<Rightarrow> bool) \<Rightarrow> (nat \<Rightarrow> 'q \<times> net \<Rightarrow> bool) \<Rightarrow> 'q single \<times> net \<Rightarrow> bool" where
  "single_rest rest busy S \<longleftrightarrow>
     (case SP_cn (fst S) of
        None \<Rightarrow> rest (SP_inner (fst S), snd S)
      | Some cn \<Rightarrow> busy cn (SP_inner (fst S), snd S))"

context conn_source begin

lemma single_source: "conn_source (singleConnPool (Some pl)) (single_rest rest busy) (single_busy busy)"
proof
  fix S :: "'p single \<times> net" and r S'
  assume S: "single_rest rest busy S" "pool_Get (singleConnPool (Some pl)) S = Some (r, S')"
  obtain p m where pm: "S = (p, m)" by force
  show "case r of Inl e \<Rightarrow> single_rest rest busy S' | Inr cn \<Rightarrow> single_busy busy cn S'"
  proof (cases "SP_closed p \<or> SP_cn p \<noteq> None")
    case True
    with S show ?thesis
      by (auto simp: pm singleConnPool_def single_Get_def single_rest_def single_busy_def split: if_splits option.splits)
  next
    case False
    then obtain r1 q m1 where get: "pool_Get pl (SP_inner p, m) = Some (r1, q, m1)"
      using S(2) by (auto simp: pm singleConnPool_def single_Get_def inside_def)
    with False S Get_law [OF _ get] show ?thesis
      by (cases r1) (auto simp: pm singleConnPool_def single_Get_def inside_def single_rest_def single_busy_def)
  qed
next
  fix S :: "'p single \<times> net" and cn e S'
  assume "single_busy busy cn S" "pool_Put (singleConnPool (Some pl)) cn S = Some (e, S')"
  then show "single_rest rest busy S'"
    by (auto simp: singleConnPool_def single_Put_def single_rest_def single_busy_def split: if_splits)
next
  fix S :: "'p single \<times> net" and cn e S'
  assume "single_busy busy cn S" "pool_Remove (singleConnPool (Some pl)) cn S = Some (e, S')"
  then show "single_rest rest busy S'"
    by (auto simp: singleConnPool_def single_Remove_def single_rest_def single_busy_def give_back_def inside_def
        split: if_splits prod.splits dest: Remove_law)
next
  fix cn p m and c :: conn
  assume "single_busy busy cn (p, m)" "N_closed c = N_closed (M_conns m cn)"
  then show "single_busy busy cn (p, set_conn cn c m)" using use_law by (auto simp: single_busy_def)
qed

end

section \<open>The dialer\<close>

text \<open>Logging in works on the new connection only, and never closes it.\<close>

definition bare :: "nat \<Rightarrow> net \<Rightarrow> unit single \<times> net \<Rightarrow> bool" where
  "bare cn m0 S \<longleftrightarrow> SP_cn (fst S) = Some cn \<and> \<not> SP_closed (fst S) \<and> M_next (snd S) = M_next m0 \<and>
     \<not> N_closed (M_conns (snd S) cn) \<and> (\<forall>a. a \<noteq> cn \<longrightarrow> M_conns (snd S) a = M_conns m0 a)"

lemma bare_source: "conn_source (singleConnPool nil_pool) (bare cn m0) (\<lambda>a S. a = cn \<and> bare cn m0 S)"
  by unfold_locales
    (auto simp: singleConnPool_def single_Get_def single_Put_def single_Remove_def give_back_def inside_def nil_pool_def
      bare_def set_conn_def split: if_splits)

interpretation login: conn_source "singleConnPool nil_pool" "bare cn m0" "\<lambda>a S. a = cn \<and> bare cn m0 S" for cn m0
  by (rule bare_source)

lemma set_conn_simps [simp]:
  "M_conns (set_conn a c m) = (M_conns m)(a := c)" "M_next (set_conn a c m) = M_next m"
  "M_now (set_conn a c m) = M_now m" "M_dials (set_conn a c m) = M_dials m"
  by (simp_all add: set_conn_def)

lemma init_conn_bare:
  assumes "bare cn m0 (SetConn cn (newSingleConnPool () False), m)" "init_conn fl opt cn m = Some (e, m')"
  shows "M_next m' = M_next m0 \<and> \<not> N_closed (M_conns m' cn) \<and> (\<forall>a. a \<noteq> cn \<longrightarrow> M_conns m' a = M_conns m0 a)"
proof -
  have bare: "M_next m' = M_next m0 \<and> \<not> N_closed (M_conns m' cn) \<and> (\<forall>a. a \<noteq> cn \<longrightarrow> M_conns m' a = M_conns m0 a)"
    if "bare cn m0 (sp, m')" for sp using that by (simp add: bare_def)
  let ?S = "(SetConn cn (newSingleConnPool () False), m)"
  show ?thesis
  proof (cases "O_Password opt = [] \<and> O_DB opt = 0")
    case True
    with assms(2) have "m' = m" by (simp add: init_conn_def)
    with assms(1) show ?thesis by (intro bare) simp
  next
    case False
    let ?auth = "if O_Password opt \<noteq> [] then map_option (\<lambda>(cmd, S). (Q_err cmd, S))
        (Auth (client_process fl (singleConnPool nil_pool) opt) (O_Password opt) ?S) else Some (None, ?S)"
    obtain e1 sp1 m1 where auth: "?auth = Some (e1, sp1, m1)"
      using assms(2) False by (cases ?auth) (auto simp: init_conn_def Let_def)
    have b1: "bare cn m0 (sp1, m1)"
      using auth assms(1)
      by (auto simp: Auth_def Process_def split: if_splits dest: login.client_process_rest [OF assms(1)])
    have "m' = m1 \<or> (\<exists>cmd sp. Select (client_process fl (singleConnPool nil_pool) opt) (O_DB opt) (sp1, m1) = Some (cmd, sp, m'))"
      using assms(2) False auth by (auto simp: init_conn_def Let_def split: if_splits)
    then have "\<exists>sp. bare cn m0 (sp, m')"
      using b1 by (auto simp: Select_def Process_def dest: login.client_process_rest [OF b1])
    then show ?thesis using bare by blast
  qed
qed

text \<open>A dial makes one connection, at a fresh address, and leaves the others alone.\<close>

lemma dial_conn_law:
  assumes "dial_conn fl opt m = Some (r, m')"
  shows "M_next m \<le> M_next m' \<and> (\<forall>a. a < M_next m \<longrightarrow> M_conns m' a = M_conns m a) \<and>
    (\<forall>cn. r = Inr cn \<longrightarrow> M_next m \<le> cn \<and> cn < M_next m' \<and> \<not> N_closed (M_conns m' cn))"
proof -
  obtain t d where td: "M_dials m 0 = (t, d)" by force
  show ?thesis
  proof (cases d)
    case (Inl e)
    with assms td show ?thesis by (auto simp: dial_conn_def net_dial_def Let_def)
  next
    case (Inr sw)
    obtain src ws where sw: "sw = (src, ws)" by force
    let ?m = "set_conn (M_next m) (fresh_conn src ws)
      (m\<lparr>M_dials := \<lambda>k. M_dials m (Suc k), M_now := M_now m + int t, M_next := M_next m + 1\<rparr>)"
    obtain e where i: "init_conn fl opt (M_next m) ?m = Some (e, m')" "r = (case e of Some e \<Rightarrow> Inl e | None \<Rightarrow> Inr (M_next m))"
      using assms td Inr sw by (auto simp: dial_conn_def net_dial_def Let_def)
    have "bare (M_next m) ?m (SetConn (M_next m) (newSingleConnPool () False), ?m)"
      by (simp add: bare_def SetConn_def newSingleConnPool_def fresh_conn_def)
    from init_conn_bare [OF this i(1)] i(2) show ?thesis by (auto split: option.splits)
  qed
qed

section \<open>The accounts of the pool\<close>

text \<open>
  \<open>H\<close> are the connections in the hands of clients. While the pool is open every connection is
  free or in somebody's hands, never both, never twice, and none of them is closed; there are
  at most as many as the pool may have.
\<close>

definition pool_inv :: "nat set \<Rightarrow> connPool \<times> net \<Rightarrow> bool" where
  "pool_inv H S \<longleftrightarrow>
     (case S of (p, m) \<Rightarrow>
        distinct (P_free p) \<and> finite H \<and> set (P_free p) \<inter> H = {} \<and>
        int (length (P_free p) + card H) \<le> getPoolSize (P_opt p) \<and>
        (\<forall>a \<in> set (P_free p) \<union> H. a < M_next m) \<and>
        (\<not> P_closed p \<longrightarrow>
           distinct (L_cns (P_conns p)) \<and> set (P_free p) \<union> H = set (L_cns (P_conns p)) \<and>
           L_len (P_conns p) = int (length (L_cns (P_conns p))) \<and> L_size (P_conns p) = getPoolSize (P_opt p) \<and>
           (\<forall>a \<in> set (L_cns (P_conns p)). \<not> N_closed (M_conns m a))))"

lemma pool_inv_use:
  "pool_inv H (p, m) \<Longrightarrow> N_closed c = N_closed (M_conns m a) \<Longrightarrow> pool_inv H (p, set_conn a c m)"
  by (auto simp: pool_inv_def)

lemma pool_inv_take:
  "pool_inv H (p, m) \<Longrightarrow> P_free p = cn # free \<Longrightarrow> cn \<notin> H \<and> pool_inv (insert cn H) (p\<lparr>P_free := free\<rparr>, m)"
  by (auto simp: pool_inv_def)

lemma pool_inv_give:
  "pool_inv (insert cn H) (p, m) \<Longrightarrow> cn \<notin> H \<Longrightarrow> \<exists>p'. send_free cn p = Some p' \<and> pool_inv H (p', m)"
  by (auto simp: pool_inv_def send_free_def)

lemma pool_inv_drop:
  assumes "pool_inv (insert cn H) (p, m)" "cn \<notin> H" "\<not> P_closed p" "list_Remove (Some cn) (P_conns p) m = Some (e, l, m')"
  shows "pool_inv H (p\<lparr>P_conns := l\<rparr>, m')"
proof -
  have "cn \<in> set (L_cns (P_conns p))" using assms(1,3) by (auto simp: pool_inv_def)
  then have len: "length (L_cns (P_conns p)) = Suc (length (remove1 cn (L_cns (P_conns p))))"
    by (simp add: length_remove1) (metis Suc_pred length_pos_if_in_set)
  from assms show ?thesis
    by (auto simp: pool_inv_def list_Remove_def close_conn_def len split: prod.splits if_splits)
qed

lemma replace1_facts:
  assumes "distinct xs" "a \<in> set xs" "b \<notin> set xs"
  shows "distinct (replace1 a b xs) \<and> set (replace1 a b xs) = insert b (set xs - {a}) \<and>
    length (replace1 a b xs) = length xs"
  using assms by (induction xs) auto

lemma pool_inv_replace:
  assumes inv: "pool_inv (insert cn H) (p, m)" and cn: "cn \<notin> H" and opened: "\<not> P_closed p"
    and new: "M_next m \<le> newcn" "newcn < M_next m'" "\<not> N_closed (M_conns m' newcn)" "\<forall>a. a < M_next m \<longrightarrow> M_conns m' a = M_conns m a"
    and rep: "send_free newcn p = Some p'" "list_Replace cn newcn (P_conns p') m' = Some (e, l, m'')"
  shows "pool_inv H (p'\<lparr>P_conns := l\<rparr>, m'')"
proof -
  let ?cns = "L_cns (P_conns p)"
  have old: "\<forall>a \<in> set ?cns. a < M_next m" "cn \<in> set ?cns" using inv opened by (auto simp: pool_inv_def)
  then have "newcn \<notin> set ?cns" "newcn \<noteq> cn" using new(1) by force+
  note facts = replace1_facts [OF _ old(2) this(1)]
  from rep have "p' = p\<lparr>P_free := P_free p @ [newcn]\<rparr>" "l = (P_conns p)\<lparr>L_cns := replace1 cn newcn ?cns\<rparr>"
    "m'' = snd (close_conn cn m')"
    by (auto simp: send_free_def list_Replace_def split: if_splits prod.splits)
  note p' = this
  have "M_conns (snd (close_conn cn m')) a = M_conns m' a" if "a \<noteq> cn" for a
    using that by (simp add: close_conn_def split: prod.split)
  then have alive: "\<not> N_closed (M_conns m'' a)" if "a \<in> insert newcn (set ?cns - {cn})" for a
    using that inv opened old(1) new(3,4) \<open>newcn \<noteq> cn\<close> unfolding p'(3) by (auto simp: pool_inv_def)
  have nxt: "M_next m'' = M_next m'" using p'(3) by (simp add: close_conn_def split: prod.split)
  have "set (P_free p) \<union> H = set ?cns - {cn}" and "card (insert cn H) = Suc (card H)"
    using inv cn opened by (auto simp: pool_inv_def)
  moreover have "\<forall>a \<in> set (P_free p) \<union> H. a < M_next m''"
  proof -
    have "\<forall>a \<in> set (P_free p) \<union> H. a < M_next m" using inv by (simp add: pool_inv_def)
    with new(1,2) show ?thesis unfolding nxt by (meson less_le_trans less_trans)
  qed
  ultimately show ?thesis
    using inv opened facts alive new(2) \<open>newcn \<notin> set ?cns\<close> unfolding pool_inv_def p'(1,2) by (auto simp: nxt)
qed

lemma pool_inv_less: "pool_inv H (p, m) \<Longrightarrow> a \<in> set (P_free p) \<union> H \<Longrightarrow> a < M_next m"
  by (auto simp: pool_inv_def)

lemma pool_inv_net:
  assumes "pool_inv H (p, m)" "M_next m \<le> M_next m'" "\<forall>a. a < M_next m \<longrightarrow> M_conns m' a = M_conns m a"
  shows "pool_inv H (p\<lparr>P_rl := rl, P_lastDialErr := e\<rparr>, m')"
proof -
  have less: "\<forall>a \<in> set (P_free p) \<union> H. a < M_next m" using assms(1) by (simp add: pool_inv_def)
  then have "\<forall>a \<in> set (P_free p) \<union> H. a < M_next m' \<and> M_conns m' a = M_conns m a"
    using assms(2,3) less_le_trans by blast
  with assms(1) show ?thesis by (auto simp: pool_inv_def)
qed

definition same_pool :: "connPool \<Rightarrow> connPool \<Rightarrow> bool" where
  "same_pool p p' \<longleftrightarrow> P_opt p' = P_opt p \<and> P_conns p' = P_conns p \<and> P_free p' = P_free p \<and> P_closed p' = P_closed p"

lemma new_law:
  assumes inv: "pool_inv H (p, m)" and new: "new fl (p, m) = Some (r, p', m')"
  shows "pool_inv H (p', m') \<and> same_pool p p' \<and> M_next m \<le> M_next m' \<and>
    (\<forall>a. a < M_next m \<longrightarrow> M_conns m' a = M_conns m a) \<and>
    (\<forall>cn. r = Inr cn \<longrightarrow> M_next m \<le> cn \<and> cn < M_next m' \<and> \<not> N_closed (M_conns m' cn))"
proof (cases "Limit (M_now m) (P_rl p)")
  case (Pair limited rl)
  show ?thesis
  proof (cases limited)
    case True
    with new Pair have "p' = p\<lparr>P_rl := rl\<rparr>" "m' = m" "\<exists>e. r = Inl e" by (auto simp: new_def Let_def)
    with inv show ?thesis by (auto simp: same_pool_def pool_inv_def)
  next
    case False
    with new Pair obtain d: "dial_conn fl (P_opt p) m = Some (r, m')"
      and p': "p' = (case r of Inl e \<Rightarrow> p\<lparr>P_rl := rl, P_lastDialErr := Some e\<rparr> | Inr _ \<Rightarrow> p\<lparr>P_rl := rl\<rparr>)"
      by (auto simp: new_def Let_def)
    note dial = dial_conn_law [OF d]
    have "pool_inv H (p\<lparr>P_rl := rl, P_lastDialErr := e\<rparr>, m')" for e
      by (rule pool_inv_net [OF inv]) (use dial in auto)
    from this [of "P_lastDialErr p"] this show ?thesis
      using dial by (auto simp: p' same_pool_def split: sum.splits)
  qed
qed

lemma pool_remove_law:
  assumes inv: "pool_inv (insert cn H) (p, m)" and cn: "cn \<notin> H" and rem: "pool_remove fl cn (p, m) = Some (e, p', m')"
  shows "pool_inv H (p', m')"
proof (cases "P_closed p")
  case True
  with rem inv cn show ?thesis by (auto simp: pool_remove_def pool_inv_def)
next
  case False
  obtain r p1 m1 where new: "new fl (p, m) = Some (r, p1, m1)" using rem False by (auto simp: pool_remove_def)
  note law = new_law [OF inv new]
  then have p1: "pool_inv (insert cn H) (p1, m1)" "\<not> P_closed p1" using False by (auto simp: same_pool_def)
  show ?thesis
  proof (cases r)
    case (Inl e1)
    with rem False new obtain l where l: "list_Remove (Some cn) (P_conns p1) m1 = Some (e, l, m')" "p' = p1\<lparr>P_conns := l\<rparr>"
      by (auto simp: pool_remove_def)
    from pool_inv_drop [OF p1(1) cn p1(2) l(1)] show ?thesis by (simp add: l(2))
  next
    case (Inr newcn)
    with rem False new obtain p2 l where l: "send_free newcn p1 = Some p2"
      "list_Replace cn newcn (P_conns p2) m1 = Some (e, l, m')" "p' = p2\<lparr>P_conns := l\<rparr>"
      by (auto simp: pool_remove_def)
    have "pool_inv (insert cn H) (p1, m)" using inv law False by (auto simp: pool_inv_def same_pool_def)
    from pool_inv_replace [OF this cn p1(2) _ _ _ _ l(1,2)] law Inr show ?thesis by (simp add: l(3))
  qed
qed

definition got :: "nat set \<Rightarrow> nat option \<Rightarrow> connPool \<times> net \<Rightarrow> bool" where
  "got H r S \<longleftrightarrow> (case r of None \<Rightarrow> pool_inv H S | Some cn \<Rightarrow> cn \<notin> H \<and> pool_inv (insert cn H) S)"

lemma First_from_law:
  "pool_inv H (p\<lparr>P_free := free\<rparr>, m) \<Longrightarrow> \<not> P_closed p \<Longrightarrow> First_from free (p, m) = Some (r, p', m') \<Longrightarrow>
     got H r (p', m') \<and> \<not> P_closed p'"
proof (induction free arbitrary: p m)
  case (Cons cn free)
  have take: "cn \<notin> H" "pool_inv (insert cn H) (p\<lparr>P_free := free\<rparr>, m)"
    using pool_inv_take [OF Cons.prems(1), of cn free] by simp_all
  show ?case
  proof (cases "isIdle p (M_conns m cn) (M_now m)")
    case True
    then obtain e l m1 where l: "list_Remove (Some cn) (P_conns p) m = Some (e, l, m1)"
      "First_from free (p\<lparr>P_conns := l\<rparr>, m1) = Some (r, p', m')"
      using Cons.prems(3) by auto
    have opened: "\<not> P_closed (p\<lparr>P_conns := l\<rparr>)" using Cons.prems(2) by simp
    have "pool_inv H (p\<lparr>P_free := free\<rparr>\<lparr>P_conns := l\<rparr>, m1)"
      by (rule pool_inv_drop [OF take(2,1)]) (use l(1) Cons.prems(2) in simp_all)
    moreover have "p\<lparr>P_free := free\<rparr>\<lparr>P_conns := l\<rparr> = p\<lparr>P_conns := l\<rparr>\<lparr>P_free := free\<rparr>" by simp
    ultimately have "pool_inv H (p\<lparr>P_conns := l\<rparr>\<lparr>P_free := free\<rparr>, m1)" by simp
    then show ?thesis by (rule Cons.IH [OF _ opened l(2)])
  next
    case False
    with Cons.prems take show ?thesis by (auto simp: got_def)
  qed
qed (auto simp: got_def)

lemma First_law:
  "pool_inv H (p, m) \<Longrightarrow> \<not> P_closed p \<Longrightarrow> First (p, m) = Some (r, p', m') \<Longrightarrow> got H r (p', m') \<and> \<not> P_closed p'"
  by (rule First_from_law [where free = "P_free p" and m = m]) (simp_all add: First_def)

lemma wait_for_law:
  "pool_inv H (p, m) \<Longrightarrow> wait_for fl n (p, m) = Some (r, p', m') \<Longrightarrow> got H r (p', m')"
proof (induction n arbitrary: p m)
  case (Suc n)
  show ?case
  proof (cases "P_free p")
    case Nil
    with Suc.prems show ?thesis by (simp add: got_def)
  next
    case (Cons cn free)
    note take = pool_inv_take [OF Suc.prems(1) Cons]
    show ?thesis
    proof (cases "isIdle p (M_conns m cn) (M_now m)")
      case True
      then obtain e p1 m1 where "pool_remove fl cn (p\<lparr>P_free := free\<rparr>, m) = Some (e, p1, m1)"
        "wait_for fl n (p1, m1) = Some (r, p', m')"
        using Suc.prems(2) Cons by auto
      with take pool_remove_law Suc.IH show ?thesis by blast
    next
      case False
      with Suc.prems Cons take show ?thesis by (auto simp: got_def)
    qed
  qed
qed (simp add: got_def)

lemma new_conns:
  "new fl (p\<lparr>P_conns := l\<rparr>, m) = map_option (\<lambda>(r, p', m'). (r, p'\<lparr>P_conns := l\<rparr>, m')) (new fl (p, m))"
  by (cases "dial_conn fl (P_opt p) m")
    (auto simp: new_def Let_def split: prod.split sum.split)

lemma pool_inv_add:
  assumes "pool_inv H (p, m)" "\<not> P_closed p" "a \<notin> set (P_free p) \<union> H" "a < M_next m" "\<not> N_closed (M_conns m a)"
    and "L_len (P_conns p) + 1 \<le> L_size (P_conns p)"
  shows "pool_inv (insert a H) (p\<lparr>P_conns := Add a ((P_conns p)\<lparr>L_len := L_len (P_conns p) + 1\<rparr>)\<rparr>, m)"
proof -
  let ?cns = "L_cns (P_conns p)"
  have inv: "distinct ?cns" "set (P_free p) \<union> H = set ?cns" "distinct (P_free p)" "finite H" "set (P_free p) \<inter> H = {}"
    "L_len (P_conns p) = int (length ?cns)" "L_size (P_conns p) = getPoolSize (P_opt p)"
    using assms(1,2) by (simp_all add: pool_inv_def)
  have "length ?cns = length (P_free p) + card H"
    using distinct_card [OF inv(1)] distinct_card [OF inv(3)] card_Un_disjoint [OF _ inv(4,5)] inv(2) by simp
  with assms inv show ?thesis by (auto simp: pool_inv_def Add_def)
qed

lemma Get_conn_law:
  assumes inv: "pool_inv H (p, m)" and get: "Get_conn fl (p, m) = Some (r, p', m')"
  shows "case r of Inl e \<Rightarrow> pool_inv H (p', m') | Inr cn \<Rightarrow> cn \<notin> H \<and> pool_inv (insert cn H) (p', m')"
proof (cases "P_closed p")
  case True
  with inv get show ?thesis by (auto simp: Get_conn_def)
next
  case open_pool: False
  obtain cn p1 m1 where first: "First (p, m) = Some (cn, p1, m1)" using get open_pool by (auto simp: Get_conn_def)
  note law = First_law [OF inv open_pool first]
  show ?thesis
  proof (cases cn)
    case (Some a)
    with get open_pool first law show ?thesis by (auto simp: Get_conn_def got_def)
  next
    case None
    then have inv1: "pool_inv H (p1, m1)" "\<not> P_closed p1" using law by (simp_all add: got_def)
    let ?l = "(P_conns p1)\<lparr>L_len := L_len (P_conns p1) + 1\<rparr>"
    show ?thesis
    proof (cases "L_len (P_conns p1) + 1 \<le> L_size (P_conns p1)")
      case True
      then have res: "Reserve (P_conns p1) = (True, ?l)" by (simp add: Reserve_def)
      then obtain r1 p2 m2 where new: "new fl (p1, m1) = Some (r1, p2, m2)"
        using get open_pool first None by (auto simp: Get_conn_def new_conns)
      note new' = new_law [OF inv1(1) new]
      show ?thesis
      proof (cases r1)
        case (Inl e)
        have "r = Inl e" "m' = m2" "p' = p2\<lparr>P_conns := P_conns p2\<rparr>"
          using get open_pool first None res new Inl new' by (auto simp: Get_conn_def new_conns list_Remove_def same_pool_def)
        with new' show ?thesis by simp
      next
        case (Inr a)
        have "r = Inr a" "m' = m2" "p' = p2\<lparr>P_conns := Add a ?l\<rparr>"
          using get open_pool first None res new Inr by (auto simp: Get_conn_def new_conns)
        moreover have fresh: "a \<notin> set (P_free p1) \<union> H" using pool_inv_less [OF inv1(1), of a] new' Inr by force
        moreover have "P_conns p1 = P_conns p2" "P_free p1 = P_free p2" "P_closed p1 = P_closed p2"
          using new' by (simp_all add: same_pool_def)
        ultimately show ?thesis
          using pool_inv_add [of H p2 m2 a] inv1(2) new' Inr True by auto
      qed
    next
      case False
      then have res: "Reserve (P_conns p1) = (False, P_conns p1)" by (simp add: Reserve_def)
      then obtain cn2 where w: "wait_for fl (M_patience m1) (p1, m1) = Some (cn2, p', m')"
        "r = (case cn2 of Some cn \<Rightarrow> Inr cn | None \<Rightarrow> Inl errPoolTimeout)"
        using get open_pool first None by (auto simp: Get_conn_def wait_conn_def)
      from wait_for_law [OF inv1(1) w(1)] w(2) show ?thesis by (auto simp: got_def split: option.splits)
    qed
  qed
qed

lemma Put_conn_law:
  assumes inv: "pool_inv (insert cn H) (p, m)" and cn: "cn \<notin> H" and put: "Put_conn fl cn (p, m) = Some (e, p', m')"
  shows "pool_inv H (p', m')"
proof (cases "Buffered (N_rd (M_conns m cn)) = 0")
  case True
  let ?m = "if getIdleTimeout (P_opt p) > 0 then set_conn cn ((M_conns m cn)\<lparr>N_usedAt := Some (M_now m)\<rparr>) m else m"
  have "pool_inv (insert cn H) (p, ?m)" using inv pool_inv_use [OF inv, of "(M_conns m cn)\<lparr>N_usedAt := Some (M_now m)\<rparr>" cn] by simp
  from pool_inv_give [OF this cn] put True show ?thesis by (auto simp: Put_conn_def Let_def)
next
  case False
  then obtain rd where "pool_remove fl cn (p, set_conn cn ((M_conns m cn)\<lparr>N_rd := rd\<rparr>) m) = Some (e, p', m')"
    using put by (auto simp: Put_conn_def Let_def)
  then show ?thesis by (rule pool_remove_law [OF pool_inv_use [OF inv] cn, rotated]) simp
qed

text \<open>The pool keeps the contract whoever else has connections of it in hand.\<close>

lemma conn_pool_source:
  "conn_source (conn_pool fl) (pool_inv H) (\<lambda>cn S. cn \<notin> H \<and> pool_inv (insert cn H) S)"
proof
  fix S :: "connPool \<times> net" and r S'
  assume "pool_inv H S" "pool_Get (conn_pool fl) S = Some (r, S')"
  then show "case r of Inl e \<Rightarrow> pool_inv H S' | Inr cn \<Rightarrow> cn \<notin> H \<and> pool_inv (insert cn H) S'"
    using Get_conn_law [of H "fst S" "snd S" fl r "fst S'" "snd S'"] by (cases r) (simp_all add: conn_pool_def)
next
  fix cn and S :: "connPool \<times> net" and e S'
  assume "cn \<notin> H \<and> pool_inv (insert cn H) S" "pool_Put (conn_pool fl) cn S = Some (e, S')"
  then show "pool_inv H S'" using Put_conn_law by (cases S; cases S') (auto simp: conn_pool_def)
next
  fix cn and S :: "connPool \<times> net" and e S'
  assume "cn \<notin> H \<and> pool_inv (insert cn H) S" "pool_Remove (conn_pool fl) cn S = Some (e, S')"
  then show "pool_inv H S'" using pool_remove_law by (cases S; cases S') (auto simp: conn_pool_def)
next
  fix cn p m and c :: conn
  assume "cn \<notin> H \<and> pool_inv (insert cn H) (p, m)" "N_closed c = N_closed (M_conns m cn)"
  then show "cn \<notin> H \<and> pool_inv (insert cn H) (p, set_conn cn c m)" using pool_inv_use by blast
qed

interpretation shared: conn_source "conn_pool fl" "pool_inv H" "\<lambda>cn S. cn \<notin> H \<and> pool_inv (insert cn H) S" for fl H
  by (rule conn_pool_source)

interpretation multi: conn_source "singleConnPool (Some (conn_pool fl))"
    "single_rest (pool_inv H) (\<lambda>cn S. cn \<notin> H \<and> pool_inv (insert cn H) S)"
    "single_busy (\<lambda>cn S. cn \<notin> H \<and> pool_inv (insert cn H) S)" for fl H
  by (rule shared.single_source)

end
