(* ===== verification/RespFacts.thy ===== *)
theory RespFacts
  imports Resp
begin

text \<open>
  The parser of replies on a calm connection: what a line or a count gives depends on the bytes to
  come only. From this follow the round trips of requests and of replies, and that the bound on
  the nesting of parseSlice is never met.
\<close>

text \<open>A Reader of capacity \<open>n\<close> with the bytes \<open>s\<close> to come.\<close>

definition stands :: "Reader \<Rightarrow> nat \<Rightarrow> string \<Rightarrow> bool" where
  "stands rd n s \<longleftrightarrow> reader_inv rd \<and> capacity rd = n \<and> pending rd = s"

lemma standsI: "reader_inv rd \<Longrightarrow> stands rd (capacity rd) (pending rd)"
  by (simp add: stands_def)

section \<open>Lines\<close>

lemma readLine_stands:
  assumes "stands rd n (l @ crlf @ rest)" "CHR 0x0A \<notin> set l" "length l + 2 \<le> n"
  obtains rd' where "readLine rd = Some (Inr l, rd')" "stands rd' n rest"
proof -
  have rd: "reader_inv rd" "pending rd = l @ CHR 0x0D # CHR 0x0A # rest" "capacity rd = n"
    using assms(1) by (auto simp: stands_def)
  obtain rd' where "ReadLine rd = Some ((l, False, None), rd')" "pending rd' = rest" "reader_inv rd'" "capacity rd' = n"
    by (rule bufio.whole_line [OF rd(1,2) assms(2)]) (use assms(3) rd(3) in auto)
  with that [of rd'] show thesis by (simp add: stands_def readLine_def)
qed

lemma slice_spec_length:
  "slice_spec n c s = ((line, err), rest) \<Longrightarrow> 0 < n \<Longrightarrow>
     length rest \<le> length s \<and> (line \<noteq> [] \<longrightarrow> length rest < length s) \<and> (err = Some ErrBufferFull \<longrightarrow> line \<noteq> [])"
  using index_byte_less [of c "take n s"]
  by (auto simp: slice_spec_def split: option.splits if_splits)

lemma readLine_shrinks:
  assumes "reader_inv rd" "readLine rd = Some (r, rd')"
  shows "reader_inv rd' \<and> capacity rd' = capacity rd \<and> length (pending rd') \<le> length (pending rd) \<and>
    (\<forall>c l. r = Inr (c # l) \<longrightarrow> length (pending rd') < length (pending rd))"
proof -
  obtain line err rest where s: "slice_spec (capacity rd) (CHR 0x0A) (pending rd) = ((line, err), rest)"
    by (metis surj_pair)
  have cap: "0 < capacity rd" using assms(1) by (simp add: reader_inv_def capacity_def)
  obtain l p e where line: "fst (line_spec (capacity rd) (pending rd)) = (l, p, e)" by (metis surj_pair)
  obtain c where c: "ReadLine rd = Some ((l, p, e), c)" "pending c = snd (line_spec (capacity rd) (pending rd))"
    "reader_inv c" "capacity c = capacity rd"
    using bufio.line_law [OF assms(1)] line by auto
  then have r: "rd' = c" "r = (case e of Some e \<Rightarrow> Inl (ReadError e) | None \<Rightarrow> if p then Inl ReaderTooSmall else Inr l)"
    using assms(2) by (auto simp: readLine_def split: option.splits)
  have b: "line_spec (capacity rd) (pending rd) = ((l, p, e), pending rd')"
    using line c(2) r(1) by (metis prod.collapse)
  from b(1) slice_spec_length [OF s cap]
  have "length (pending rd') \<le> length (pending rd) \<and>
      (e = None \<longrightarrow> \<not> p \<longrightarrow> l \<noteq> [] \<longrightarrow> length (pending rd') < length (pending rd))"
    by (auto simp: line_spec_def s split: if_splits dest!: sym [of "_ # _"])
  with r c(3,4) show ?thesis by (auto split: option.splits if_splits)
qed

section \<open>Counted bytes\<close>

lemma readN_rest_spec:
  assumes "reader_inv rd" "length acc < n"
  shows "\<exists>rd'. reader_inv rd' \<and> capacity rd' = capacity rd \<and>
    (if n \<le> length acc + length (pending rd)
     then readN_rest acc n rd = Some (Inr (acc @ take (n - length acc) (pending rd)), rd') \<and>
       pending rd' = drop (n - length acc) (pending rd)
     else readN_rest acc n rd = Some (Inl (ReadError EOF), rd') \<and> pending rd' = [])"
  using assms
proof (induction "n - length acc" arbitrary: acc rd rule: less_induct)
  case less
  have k: "0 < n - length acc" using less.prems(2) by simp
  obtain bs err c where r: "Read (n - length acc) rd = Some ((bs, err), c)" "length bs \<le> n - length acc"
    "pending rd = bs @ pending c" "reader_inv c" "capacity c = capacity rd"
    "if pending rd = [] then bs = [] \<and> err = Some EOF else bs \<noteq> [] \<and> err = None"
    using Read_spec [OF less.prems(1) k] by blast
  consider (ended) "pending rd = []" | (enough) "pending rd \<noteq> []" "n \<le> length acc + length bs"
    | (more) "pending rd \<noteq> []" "length acc + length bs < n" by force
  then show ?case
  proof cases
    case ended
    have nil: "bs = []" "err = Some EOF" using r(6) unfolding ended by simp_all
    have "pending c = []" using r(3) unfolding ended by simp
    note nil = nil this
    have "readN_rest acc n rd = Some (Inl (ReadError EOF), c)"
      by (subst readN_rest.simps) (use r(1) nil less.prems(2) in simp)
    with nil(3) ended r(4,5) less.prems(2) show ?thesis by (intro exI [of _ c]) auto
  next
    case enough
    then have "length bs = n - length acc" using r(2) less.prems(2) by simp
    moreover from this have "readN_rest acc n rd = Some (Inr (acc @ bs), c)"
      by (subst readN_rest.simps) (use r(1) less.prems(2) in simp)
    ultimately show ?thesis using r(3-5) less.prems(2) by (intro exI [of _ c]) auto
  next
    case more
    then have bs: "bs \<noteq> []" "err = None" using r(6) by auto
    have step: "readN_rest acc n rd = readN_rest (acc @ bs) n c"
      by (subst readN_rest.simps) (use r(1) bs more in simp)
    have "n - length (acc @ bs) < n - length acc" using bs(1) k by (cases bs) auto
    from less.hyps [OF this r(4)] more obtain d where "reader_inv d" "capacity d = capacity c"
      "if n \<le> length (acc @ bs) + length (pending c)
       then readN_rest (acc @ bs) n c = Some (Inr ((acc @ bs) @ take (n - length (acc @ bs)) (pending c)), d) \<and>
         pending d = drop (n - length (acc @ bs)) (pending c)
       else readN_rest (acc @ bs) n c = Some (Inl (ReadError EOF), d) \<and> pending d = []" by auto
    then show ?thesis
      unfolding step r(3) using r(2,5) by (intro exI [of _ d]) (auto split: if_splits)
  qed
qed

text \<open>So the size of the buffer does not matter for counted bytes.\<close>

lemma readN_spec:
  assumes "reader_inv rd"
  shows "\<exists>rd'. reader_inv rd' \<and> capacity rd' = capacity rd \<and>
    (if capacity rd < k \<and> capacity rd \<le> length (pending rd) \<and> \<not> makes 1 (int k) then readN rd (int k) = None
     else if k \<le> length (pending rd)
     then readN rd (int k) = Some (Inr (take k (pending rd)), rd') \<and> pending rd' = drop k (pending rd)
     else readN rd (int k) = Some (Inl (ReadError EOF), rd') \<and> pending rd' = [])"
proof -
  let ?n = "capacity rd" and ?s = "pending rd"
  obtain c where c: "ReadN (int k) rd = Some (fst (count_spec ?n k ?s), c)" "pending c = snd (count_spec ?n k ?s)"
    "reader_inv c" "capacity c = ?n"
    using bufio.count_law [OF assms, of k] by auto
  show ?thesis
  proof (cases "k \<le> ?n \<or> length ?s < ?n")
    case True
    with c show ?thesis by (auto simp: readN_def count_spec_def)
  next
    case False
    then have "ReadN (int k) rd = Some ((take ?n ?s, Some ErrBufferFull), c)" "pending c = drop ?n ?s"
      using c(1,2) by (auto simp: count_spec_def)
    then have eq: "readN rd (int k) = (if makes 1 (int k) then readN_rest (take ?n ?s) k c else None)"
      by (simp add: readN_def)
    have len: "length (take ?n ?s) = ?n" using False by simp
    with readN_rest_spec [OF c(3), of "take ?n ?s" k] False c(4) \<open>pending c = drop ?n ?s\<close>
    obtain d where d: "reader_inv d" "capacity d = ?n"
      "if k \<le> length ?s then readN_rest (take ?n ?s) k c = Some (Inr (take ?n ?s @ take (k - ?n) (drop ?n ?s)), d) \<and>
         pending d = drop (k - ?n) (drop ?n ?s)
       else readN_rest (take ?n ?s) k c = Some (Inl (ReadError EOF), d) \<and> pending d = []"
      by (auto split: if_splits)
    have "take ?n ?s @ take (k - ?n) (drop ?n ?s) = take k ?s"
      using False by (metis linorder_not_le nat_less_le take_add le_add_diff_inverse)
    with d eq False show ?thesis by (intro exI [of _ d]) (auto split: if_splits)
  qed
qed

lemma add_int_small: "0 \<le> i \<Longrightarrow> i + 2 \<le> int64_max \<Longrightarrow> add_int i 2 = i + 2"
  unfolding add_int_def sint_sbintrunc' by (rule signed_take_bit_int_eq_self) (simp_all add: int64_max_def)

lemma add_int_range: "int64_min \<le> add_int a b \<and> add_int a b \<le> int64_max"
  using sint_range_size [of "word_of_int (a + b) :: int64"]
  by (auto simp: add_int_def int64_max_def int64_min_def word_size)

lemma read_bulk_stands:
  assumes "stands rd n (s @ crlf @ rest)" "length s < 2 ^ 31"
  obtains rd' where "read_bulk rd (int (length s)) = Some (Inr s, rd')" "stands rd' n rest"
proof -
  have i: "add_int (int (length s)) 2 = int (length s + 2)" using add_int_small [of "int (length s)"] assms(2) by (simp add: int64_max_def)
  have fits: "makes 1 (int (length s + 2))" using assms(2) by (simp add: makes_def)
  have rd: "reader_inv rd" "capacity rd = n" "pending rd = s @ crlf @ rest" using assms(1) by (auto simp: stands_def)
  have "length s + 2 \<le> length (pending rd)" by (simp add: rd(3))
  with readN_spec [OF rd(1), of "length s + 2"] obtain rd' where "reader_inv rd'" "capacity rd' = n"
    "readN rd (int (length s + 2)) = Some (Inr (s @ crlf), rd')" "pending rd' = rest"
    using rd fits by auto
  with that [of rd'] show thesis by (auto simp: read_bulk_def i stands_def)
qed

section \<open>Decimal lines\<close>

lemma show_nat_length: "n < 10 ^ k \<Longrightarrow> 0 < k \<Longrightarrow> length (show_nat n) \<le> k"
proof (induction k arbitrary: n)
  case (Suc k)
  show ?case
  proof (cases "n < 10")
    case True
    then show ?thesis by (subst show_nat.simps) simp
  next
    case False
    then have "k \<noteq> 0" using Suc.prems(1) by (cases k) auto
    moreover have "n div 10 < 10 ^ k" using Suc.prems(1) by (simp add: less_mult_imp_div_less mult.commute)
    ultimately have "length (show_nat (n div 10)) \<le> k" using Suc.IH by simp
    with False show ?thesis by (subst show_nat.simps) simp
  qed
qed simp

lemma show_nat_no_lf: "CHR 0x0A \<notin> set (show_nat n)"
  using show_nat_digits [of n] by (auto simp: is_digit_def)

lemma show_int_no_lf: "CHR 0x0A \<notin> set (show_int i)"
  using show_nat_no_lf by (auto simp: show_int_def)

lemma show_int_nat [simp]: "show_int (int n) = show_nat n"
  by (simp add: show_int_def)

lemma show_int_length:
  assumes "int64_min \<le> i" "i \<le> int64_max"
  shows "length (show_int i) \<le> 20"
proof -
  have "length (show_nat (nat \<bar>i\<bar>)) \<le> 19"
    by (rule show_nat_length) (use assms in \<open>auto simp: int64_min_def int64_max_def\<close>)
  then show ?thesis by (auto simp: show_int_def)
qed

text \<open>A length line: the sizes that the protocol allows fit the smallest buffer.\<close>

lemma small_line:
  assumes "n < 2 ^ 31"
  shows "length (c # show_nat n) + 2 \<le> 16" "parse_int32 (show_nat n) = Some (int n)"
    "parse_int64 (show_nat n) = Some (int n)"
proof -
  have "length (show_nat n) \<le> 10" by (rule show_nat_length) (use assms in auto)
  then show "length (c # show_nat n) + 2 \<le> 16" by simp
  show p: "parse_int64 (show_nat n) = Some (int n)"
    using parse_int64_show_int [of "int n"] assms by (simp add: int64_min_def int64_max_def)
  then show "parse_int32 (show_nat n) = Some (int n)" using assms by (simp add: parse_int32_def)
qed

section \<open>Requests\<close>

definition bulk_text :: "string \<Rightarrow> string" where
  "bulk_text s = ''$'' @ show_nat (length s) @ crlf @ s @ crlf"

lemma append_each_text: "append_each buf args = buf @ concat (List.map bulk_text args)"
  by (induction args arbitrary: buf) (simp_all add: bulk_text_def)

lemma appendArgs_text:
  "appendArgs buf args = buf @ ''*'' @ show_nat (length args) @ crlf @ concat (List.map bulk_text args)"
  by (simp add: appendArgs_def append_each_text)

definition sendable :: "string list \<Rightarrow> bool" where
  "sendable args \<longleftrightarrow> length args < 2 ^ 31 \<and> (\<forall>a \<in> set args. length a < 2 ^ 31)"

lemma dollar_no_lf: "CHR 0x0A \<notin> set (CHR ''$'' # show_nat n)" "CHR 0x0A \<notin> set (CHR ''*'' # show_nat n)"
  using show_nat_no_lf by auto

lemma parse_req_args_stands:
  assumes "stands rd n (concat (List.map bulk_text args) @ rest)" "\<forall>a \<in> set args. length a < 2 ^ 31" "16 \<le> n"
  obtains rd' where "parse_req_args (length args) acc rd = Some (Inr (acc @ args), rd')" "stands rd' n rest"
  using assms(1,2)
proof (induction args arbitrary: rd acc thesis)
  case Nil
  then show ?case by simp
next
  case (Cons a args)
  let ?tail = "concat (List.map bulk_text args) @ rest"
  have a: "length a < 2 ^ 31" using Cons.prems(3) by simp
  have "stands rd n ((CHR ''$'' # show_nat (length a)) @ crlf @ a @ crlf @ ?tail)"
    using Cons.prems(2) by (simp add: bulk_text_def [of a])
  then obtain rd1 where 1: "readLine rd = Some (Inr (CHR ''$'' # show_nat (length a)), rd1)"
    "stands rd1 n (a @ crlf @ ?tail)"
    by (rule readLine_stands [OF _ dollar_no_lf(1)]) (rule le_trans [OF small_line(1) [OF a] assms(3)])
  obtain rd2 where 2: "read_bulk rd1 (int (length a)) = Some (Inr a, rd2)" "stands rd2 n ?tail"
    using read_bulk_stands [OF 1(2)] a by (auto simp: int64_max_def)
  obtain rd3 where "parse_req_args (length args) (acc @ [a]) rd2 = Some (Inr ((acc @ [a]) @ args), rd3)" "stands rd3 n rest"
    by (rule Cons.IH [OF _ 2(2)], assumption) (use Cons.prems(3) in simp)
  with Cons.prems(1) [of rd3] 1 2 small_line(2) [OF a] show ?case by simp
qed

lemma makes_small: "n < 2 ^ 31 \<Longrightarrow> makes 16 (int n)"
  by (simp add: makes_def)

lemma parseReq_stands:
  assumes "stands rd n (appendArgs [] args @ rest)" "sendable args" "16 \<le> n"
  obtains rd' where "parseReq rd = Some (Inr args, rd')" "stands rd' n rest"
proof -
  let ?tail = "concat (List.map bulk_text args) @ rest"
  have a: "length args < 2 ^ 31" using assms(2) by (simp add: sendable_def)
  have "stands rd n ((CHR ''*'' # show_nat (length args)) @ crlf @ ?tail)"
    using assms(1) by (simp add: appendArgs_text)
  then obtain rd1 where 1: "readLine rd = Some (Inr (CHR ''*'' # show_nat (length args)), rd1)" "stands rd1 n ?tail"
    by (rule readLine_stands [OF _ dollar_no_lf(2)]) (rule le_trans [OF small_line(1) [OF a] assms(3)])
  obtain rd2 where "parse_req_args (length args) [] rd1 = Some (Inr ([] @ args), rd2)" "stands rd2 n rest"
    using parse_req_args_stands [OF 1(2) _ assms(3), where acc = "[]"] assms(2) unfolding sendable_def by blast
  with that [of rd2] 1 small_line(3) [OF a] makes_small [OF a] show thesis by (simp add: parseReq_def)
qed

end
