(* ===== verification/RespReplies.thy ===== *)
theory RespReplies
  imports RespFacts
begin

text \<open>
  Replies: the round trip with the text of the protocol, the recursion of parseSlice without its
  bound, and the independence of how the connection cuts the bytes.
\<close>

section \<open>The text of a reply\<close>

text \<open>Redis documents these forms; a string is sent as a bulk string, which may hold any byte.\<close>

fun resp_text :: "gval \<Rightarrow> string" where
  "resp_text VNil = ''$-1'' @ crlf"
| "resp_text (VStr s) = bulk_text s"
| "resp_text (VInt i) = '':'' @ show_int i @ crlf"
| "resp_text (VSlice vs) = ''*'' @ show_nat (length vs) @ crlf @ concat (List.map resp_text vs)"

fun ok_gval :: "gval \<Rightarrow> bool" where
  "ok_gval VNil = True"
| "ok_gval (VStr s) \<longleftrightarrow> length s < 2 ^ 31"
| "ok_gval (VInt i) \<longleftrightarrow> int64_min \<le> i \<and> i \<le> int64_max"
| "ok_gval (VSlice vs) \<longleftrightarrow> length vs < 2 ^ 31 \<and> (\<forall>v \<in> set vs. ok_gval v)"

fun nesting :: "gval \<Rightarrow> nat" where
  "nesting (VSlice vs) = Suc (foldr max (List.map nesting vs) 0)"
| "nesting v = 0"

fun result_of :: "gval \<Rightarrow> redis_error + gval list reply" where
  "result_of VNil = Inl Nil_error"
| "result_of (VStr s) = Inr (StrReply s)"
| "result_of (VInt i) = Inr (IntReply i)"
| "result_of (VSlice vs) = Inr (MultiReply vs)"

definition reads_value :: "nat \<Rightarrow> (Reader \<Rightarrow> gval list reply read) \<Rightarrow> gval \<Rightarrow> bool" where
  "reads_value n p v \<longleftrightarrow> (\<forall>rd rest. stands rd n (resp_text v @ rest) \<longrightarrow>
     (\<exists>rd'. p rd = Some (result_of v, rd') \<and> stands rd' n rest))"

lemma nesting_elem: "v \<in> set vs \<Longrightarrow> nesting v \<le> foldr max (List.map nesting vs) 0"
  by (induction vs) auto

lemma slice_loop_reads:
  "\<forall>v \<in> set vs. reads_value n p v \<Longrightarrow> stands rd n (concat (List.map resp_text vs) @ rest) \<Longrightarrow>
     \<exists>rd'. slice_loop p (length vs) acc rd = Some (Inr (acc @ vs), rd') \<and> stands rd' n rest"
proof (induction vs arbitrary: rd acc)
  case (Cons v vs)
  obtain rd1 where 1: "p rd = Some (result_of v, rd1)" "stands rd1 n (concat (List.map resp_text vs) @ rest)"
    using Cons.prems unfolding reads_value_def by (metis append.assoc concat.simps(2) list.set_intros(1) list.simps(9))
  with Cons.IH [OF _ 1(2), of "acc @ [v]"] Cons.prems(1) show ?case
    by (cases v) (auto simp: gval_of_def Nil_error_def)
qed simp

lemma parseReply_bulk:
  assumes "stands rd n (bulk_text s @ rest)" "length s < 2 ^ 31" "32 \<le> n"
  shows "\<exists>rd'. parseReply p rd = Some (Inr (StrReply s), rd') \<and> stands rd' n rest"
proof -
  have "stands rd n ((CHR ''$'' # show_nat (length s)) @ crlf @ s @ crlf @ rest)"
    using assms(1) by (simp add: bulk_text_def)
  then obtain rd1 where 1: "readLine rd = Some (Inr (CHR ''$'' # show_nat (length s)), rd1)" "stands rd1 n (s @ crlf @ rest)"
    by (rule readLine_stands [OF _ dollar_no_lf(1)])
      (rule le_trans [OF small_line(1) [OF assms(2)]], use assms(3) in simp)
  obtain rd2 where 2: "read_bulk rd1 (int (length s)) = Some (Inr s, rd2)" "stands rd2 n rest"
    using read_bulk_stands [OF 1(2)] assms(2) by (auto simp: int64_max_def)
  have "show_nat (length s) \<noteq> ''-1''" using show_nat_digits [of "length s"] by force
  with 1 2 small_line(3) [OF assms(2)] show ?thesis by (simp add: parseReply_def is_minus_one_def)
qed

lemma parseReply_reads:
  "ok_gval v \<Longrightarrow> 32 \<le> n \<Longrightarrow> nesting v \<le> d \<Longrightarrow> reads_value n (parseReply (Some (parse_slice_to d))) v"
proof (induction v arbitrary: d)
  case VNil
  have "\<exists>rd'. parseReply (Some (parse_slice_to d)) rd = Some (result_of VNil, rd') \<and> stands rd' n rest"
    if rd: "stands rd n (resp_text VNil @ rest)" for rd rest
  proof -
    have "stands rd n (''$-1'' @ crlf @ rest)" using rd by simp
    then obtain rd1 where "readLine rd = Some (Inr ''$-1'', rd1)" "stands rd1 n rest"
      by (rule readLine_stands) (use VNil.prems in simp_all)
    then show ?thesis by (simp add: parseReply_def is_minus_one_def)
  qed
  then show ?case by (simp add: reads_value_def)
next
  case (VStr s)
  then show ?case using parseReply_bulk [of _ n s] by (auto simp: reads_value_def)
next
  case (VInt i)
  then have i: "int64_min \<le> i" "i \<le> int64_max" by auto
  have "\<exists>rd'. parseReply (Some (parse_slice_to d)) rd = Some (result_of (VInt i), rd') \<and> stands rd' n rest"
    if rd: "stands rd n (resp_text (VInt i) @ rest)" for rd rest
  proof -
    have "stands rd n ((CHR '':'' # show_int i) @ crlf @ rest)" using rd by simp
    then obtain rd1 where "readLine rd = Some (Inr (CHR '':'' # show_int i), rd1)" "stands rd1 n rest"
      by (rule readLine_stands) (use VInt.prems show_int_length [OF i] show_int_no_lf in auto)
    then show ?thesis using parse_int64_show_int [OF i] by (simp add: parseReply_def)
  qed
  then show ?case by (simp add: reads_value_def)
next
  case (VSlice vs)
  then have len: "length vs < 2 ^ 31" by simp
  obtain d' where d: "d = Suc d'" using VSlice.prems(3) by (cases d) auto
  have each: "reads_value n (parseReply (Some (parse_slice_to d'))) v" if "v \<in> set vs" for v
    using VSlice.IH [OF that] VSlice.prems nesting_elem [OF that] that d by simp
  have "\<exists>rd'. parseReply (Some (parse_slice_to d)) rd = Some (result_of (VSlice vs), rd') \<and> stands rd' n rest"
    if rd: "stands rd n (resp_text (VSlice vs) @ rest)" for rd rest
  proof -
    have "stands rd n ((CHR ''*'' # show_nat (length vs)) @ crlf @ concat (List.map resp_text vs) @ rest)"
      using rd by simp
    then obtain rd1 where 1: "readLine rd = Some (Inr (CHR ''*'' # show_nat (length vs)), rd1)"
      "stands rd1 n (concat (List.map resp_text vs) @ rest)"
      by (rule readLine_stands [OF _ dollar_no_lf(2)])
        (rule le_trans [OF small_line(1) [OF len]], use VSlice.prems in simp)
    have "show_nat (length vs) \<noteq> ''-1''" using show_nat_digits [of "length vs"] by force
    moreover obtain rd2 where "slice_loop (parseReply (Some (parse_slice_to d'))) (length vs) [] rd1 = Some (Inr ([] @ vs), rd2)"
      "stands rd2 n rest"
      using slice_loop_reads [OF _ 1(2)] each by blast
    ultimately show ?thesis using 1 small_line(3) [OF len] makes_small [OF len] d
      by (simp add: parseReply_def is_minus_one_def)
  qed
  then show ?case by (simp add: reads_value_def)
qed

text \<open>A value has fewer levels than its text has bytes.\<close>

lemma nesting_less: "nesting v < length (resp_text v)"
proof (induction v)
  case (VSlice vs)
  then have "foldr max (List.map nesting vs) 0 \<le> length (concat (List.map resp_text vs))"
  proof (induction vs)
    case (Cons v vs)
    from Cons.prems [of v] Cons.IH [OF Cons.prems] show ?case by simp
  qed simp
  then show ?case by simp
qed (simp_all add: bulk_text_def)

section \<open>The bound on the nesting\<close>

definition shrinks :: "(Reader \<Rightarrow> 'a read) \<Rightarrow> bool" where
  "shrinks p \<longleftrightarrow> (\<forall>rd r rd'. reader_inv rd \<longrightarrow> p rd = Some (r, rd') \<longrightarrow>
     reader_inv rd' \<and> length (pending rd') \<le> length (pending rd))"

lemma shrinksD: "shrinks p \<Longrightarrow> reader_inv rd \<Longrightarrow> p rd = Some (r, rd') \<Longrightarrow>
    reader_inv rd' \<and> length (pending rd') \<le> length (pending rd)"
  by (auto simp: shrinks_def)

lemma readN_shrinks: "shrinks (\<lambda>rd. readN rd k)"
  unfolding shrinks_def
proof (intro allI impI)
  fix rd r rd'
  assume rd: "reader_inv rd" "readN rd k = Some (r, rd')"
  show "reader_inv rd' \<and> length (pending rd') \<le> length (pending rd)"
  proof (cases "k < 0")
    case True
    with rd(2) show ?thesis by (simp add: readN_def ReadN_def)
  next
    case False
    then have "int (nat k) = k" by simp
    with readN_spec [OF rd(1), of "nat k"] rd(2) show ?thesis by (auto split: if_splits)
  qed
qed

lemma read_bulk_shrinks: "shrinks (\<lambda>rd. read_bulk rd k)"
  unfolding shrinks_def
proof (intro allI impI)
  fix rd r rd'
  assume rd: "reader_inv rd" "read_bulk rd k = Some (r, rd')"
  then obtain b where "readN rd (add_int k 2) = Some (b, rd')"
    by (cases "readN rd (add_int k 2)"; cases "fst (the (readN rd (add_int k 2)))")
      (auto simp: read_bulk_def split: if_splits)
  then show "reader_inv rd' \<and> length (pending rd') \<le> length (pending rd)"
    using shrinksD [OF readN_shrinks rd(1)] by blast
qed

lemma readLine_shrinks': "shrinks readLine"
  using readLine_shrinks by (fastforce simp: shrinks_def)

lemma parseReply_shrinks:
  assumes "\<And>q n. p = Some q \<Longrightarrow> shrinks (q n)"
  shows "shrinks (parseReply p)"
  unfolding shrinks_def
proof (intro allI impI)
  fix rd r rd'
  assume rd: "reader_inv rd" "parseReply p rd = Some (r, rd')"
  obtain line rd1 where 1: "readLine rd = Some (line, rd1)" using rd(2) by (auto simp: parseReply_def)
  note step = shrinksD [OF readLine_shrinks' rd(1) 1]
  have "rd' = rd1 \<or> (\<exists>n b. read_bulk rd1 n = Some (b, rd')) \<or> (\<exists>q n m. p = Some q \<and> q n rd1 = Some (m, rd'))"
    using rd(2) 1 by (auto simp: parseReply_def split: sum.splits list.splits if_splits option.splits)
  then show "reader_inv rd' \<and> length (pending rd') \<le> length (pending rd)"
    using step shrinksD [OF read_bulk_shrinks, of rd1] assms [THEN shrinksD, of _ rd1] by fastforce
qed

lemma slice_loop_shrinks: "shrinks p \<Longrightarrow> shrinks (slice_loop p n acc)"
proof (induction n arbitrary: acc)
  case (Suc n)
  note IH = Suc.IH [OF Suc.prems]
  show ?case
    unfolding shrinks_def
  proof (intro allI impI)
    fix rd r rd'
    assume rd: "reader_inv rd" "slice_loop p (Suc n) acc rd = Some (r, rd')"
    then obtain v rd1 where 1: "p rd = Some (v, rd1)" by auto
    have "rd' = rd1 \<or> (\<exists>acc. slice_loop p n acc rd1 = Some (r, rd'))"
      using rd(2) 1 by (auto split: sum.splits if_splits)
    then show "reader_inv rd' \<and> length (pending rd') \<le> length (pending rd)"
      using shrinksD [OF Suc.prems rd(1) 1] shrinksD [OF IH, of rd1] by fastforce
  qed
qed (simp add: shrinks_def)

lemma parse_slice_to_shrinks: "shrinks (parse_slice_to d n)"
proof (induction d arbitrary: n)
  case (Suc d)
  have "shrinks (slice_loop (parseReply (Some (parse_slice_to d))) (nat n) [])"
    by (rule slice_loop_shrinks, rule parseReply_shrinks) (use Suc in auto)
  then show ?case by (auto simp: shrinks_def)
qed (simp add: shrinks_def)

lemma parseReply_cong:
  assumes "reader_inv rd"
    and "\<And>n rd'. reader_inv rd' \<Longrightarrow> length (pending rd') < length (pending rd) \<Longrightarrow> q n rd' = q' n rd'"
  shows "parseReply (Some q) rd = parseReply (Some q') rd"
proof (cases "readLine rd")
  case (Some p)
  then obtain line rd1 where 1: "readLine rd = Some (line, rd1)" by (cases p) auto
  have "q n rd1 = q' n rd1" if "line = Inr (c # l)" for n c l
    using readLine_shrinks [OF assms(1) 1] assms(2) that by blast
  then show ?thesis
    by (cases line) (auto simp: parseReply_def 1 split: list.split option.split)
qed (simp add: parseReply_def)

lemma slice_loop_cong:
  assumes "\<And>rd'. reader_inv rd' \<Longrightarrow> length (pending rd') \<le> L \<Longrightarrow> p rd' = p' rd'" and "shrinks p"
  shows "reader_inv rd \<Longrightarrow> length (pending rd) \<le> L \<Longrightarrow> slice_loop p n acc rd = slice_loop p' n acc rd"
proof (induction n arbitrary: acc rd)
  case (Suc n)
  have eq: "p rd = p' rd" by (rule assms(1) [OF Suc.prems])
  have "slice_loop p n acc rd1 = slice_loop p' n acc rd1" if "p rd = Some (v, rd1)" for v rd1 acc
    using shrinksD [OF assms(2) Suc.prems(1) that] Suc.IH [of rd1 acc] Suc.prems(2) by simp
  then show ?case
    by (cases "p' rd") (auto simp: eq split: sum.split)
qed simp

lemma parse_slice_levels:
  "reader_inv rd \<Longrightarrow> length (pending rd) < d \<Longrightarrow> length (pending rd) < e \<Longrightarrow>
     parse_slice_to d n rd = parse_slice_to e n rd"
proof (induction d arbitrary: e n rd)
  case (Suc d)
  obtain e' where e: "e = Suc e'" using Suc.prems(3) by (cases e) auto
  let ?L = "length (pending rd)"
  have "parseReply (Some (parse_slice_to d)) rd' = parseReply (Some (parse_slice_to e')) rd'"
    if "reader_inv rd'" "length (pending rd') \<le> ?L" for rd'
    by (rule parseReply_cong [OF that(1)], rule Suc.IH) (use that Suc.prems(2,3) e in auto)
  then have "slice_loop (parseReply (Some (parse_slice_to d))) (nat n) [] rd =
      slice_loop (parseReply (Some (parse_slice_to e'))) (nat n) [] rd"
    by (rule slice_loop_cong [of ?L])
      (auto simp: Suc.prems(1) intro: parseReply_shrinks parse_slice_to_shrinks)
  then show ?case by (simp add: e)
qed simp

section \<open>The cuts of the connection\<close>

definition alike :: "Reader \<Rightarrow> Reader \<Rightarrow> bool" where
  "alike rd rd' \<longleftrightarrow> reader_inv rd \<and> reader_inv rd' \<and> capacity rd = capacity rd' \<and> pending rd = pending rd'"

definition agree :: "('a \<times> Reader) option \<Rightarrow> ('a \<times> Reader) option \<Rightarrow> bool" where
  "agree x y \<longleftrightarrow>
     (case (x, y) of
        (None, None) \<Rightarrow> True
      | (Some (r, a), Some (r', b)) \<Rightarrow> r = r' \<and> alike a b
      | _ \<Rightarrow> False)"

lemma agree_simps [simp]:
  "agree None None" "agree (Some (r, a)) (Some (r', b)) \<longleftrightarrow> r = r' \<and> alike a b"
  by (simp_all add: agree_def)

lemma agree_cases:
  assumes "agree x y"
  obtains "x = None" "y = None" | r a b where "x = Some (r, a)" "y = Some (r, b)" "alike a b"
  using assms by (auto simp: agree_def split: option.splits)

lemma agree_bind:
  assumes "agree x y" "\<And>r a b. alike a b \<Longrightarrow> agree (f (r, a)) (g (r, b))"
  shows "agree (Option.bind x f) (Option.bind y g)"
  using assms(1) by (cases rule: agree_cases) (auto intro: assms(2))

lemma ReadLine_agree: "alike a b \<Longrightarrow> agree (ReadLine a) (ReadLine b)"
  using bufio.line_law [of a] bufio.line_law [of b] by (auto simp: alike_def agree_def)

lemma readLine_agree: "alike a b \<Longrightarrow> agree (readLine a) (readLine b)"
  unfolding readLine_def
  by (rule agree_bind [OF ReadLine_agree]) (auto split: prod.split option.split)

lemma readN_agree: "alike a b \<Longrightarrow> agree (readN a k) (readN b k)"
proof (cases "k < 0")
  case True
  then show "alike a b \<Longrightarrow> ?thesis" by (simp add: readN_def ReadN_def)
next
  case False
  then have k: "int (nat k) = k" by simp
  assume "alike a b"
  with readN_spec [of a "nat k"] readN_spec [of b "nat k"] show ?thesis
    unfolding k by (auto simp: alike_def agree_def split: if_splits option.splits)
qed

lemma read_bulk_agree: "alike a b \<Longrightarrow> agree (read_bulk a k) (read_bulk b k)"
  unfolding read_bulk_def
  by (rule agree_bind [OF readN_agree]) (auto split: sum.split)

definition cut_free :: "(Reader \<Rightarrow> ('a \<times> Reader) option) \<Rightarrow> bool" where
  "cut_free p \<longleftrightarrow> (\<forall>a b. alike a b \<longrightarrow> agree (p a) (p b))"

lemma cut_freeD: "cut_free p \<Longrightarrow> alike a b \<Longrightarrow> agree (p a) (p b)"
  by (simp add: cut_free_def)

lemma parseReply_cut_free:
  assumes "\<And>q n. p = Some q \<Longrightarrow> cut_free (q n)"
  shows "cut_free (parseReply p)"
  unfolding cut_free_def parseReply_def
  apply (intro allI impI)
  apply (rule agree_bind [OF readLine_agree], assumption)
  apply (auto split: sum.split list.split option.split
      intro!: agree_bind [OF read_bulk_agree] agree_bind [OF cut_freeD [OF assms]])
  done

lemma slice_loop_cut_free: "cut_free p \<Longrightarrow> cut_free (slice_loop p n acc)"
proof (induction n arbitrary: acc)
  case (Suc n)
  have "agree (slice_loop p (Suc n) acc a) (slice_loop p (Suc n) acc b)" if "alike a b" for a b
    unfolding slice_loop.simps
    by (rule agree_bind [OF cut_freeD [OF Suc.prems that]])
      (auto split: sum.split intro: cut_freeD [OF Suc.IH [OF Suc.prems]])
  then show ?case by (simp add: cut_free_def)
qed (simp add: cut_free_def)

lemma parse_slice_to_cut_free: "cut_free (parse_slice_to d n)"
proof (induction d arbitrary: n)
  case (Suc d)
  have "cut_free (slice_loop (parseReply (Some (parse_slice_to d))) (nat n) [])"
    by (rule slice_loop_cut_free, rule parseReply_cut_free) (use Suc in auto)
  then show ?case by (simp add: cut_free_def)
qed (simp add: cut_free_def)

lemma parseSlice_cut_free: "cut_free (parseSlice n)"
  unfolding cut_free_def
proof (intro allI impI)
  fix a b
  assume ab: "alike a b"
  then have "length (pending b) = length (pending a)" by (simp add: alike_def)
  then show "agree (parseSlice n a) (parseSlice n b)"
    unfolding parseSlice_def by (simp only: cut_freeD [OF parse_slice_to_cut_free ab])
qed

section \<open>Properties\<close>

lemma parseSlice_levels:
  "reader_inv rd \<Longrightarrow> length (pending rd) < d \<Longrightarrow> parse_slice_to d n rd = parseSlice n rd"
  unfolding parseSlice_def by (rule parse_slice_levels) simp_all

lemma parseReply_levels:
  assumes "reader_inv rd" "length (pending rd) \<le> d"
  shows "parseReply (Some (parse_slice_to d)) rd = parseReply (Some parseSlice) rd"
  by (rule parseReply_cong [OF assms(1)], rule parseSlice_levels) (use assms(2) in auto)

lemma new_stands: "calm src \<Longrightarrow> stands (NewReaderSize src k) (nat (max 16 k)) (stream_of src)"
  by (simp add: stands_def NewReaderSize_capacity)

text \<open>
  C7. A request that the client writes is read back: whatever the pieces in which its bytes
  arrive, parseReq gives the arguments and leaves what follows them, with a buffer of any size,
  as long as the arguments and their number are below 2^31.
\<close>

theorem request_round_trip:
  assumes "calm src" "stream_of src = appendArgs [] args @ rest" "sendable args"
  shows "\<exists>rd. parseReq (NewReaderSize src k) = Some (Inr args, rd) \<and> pending rd = rest"
proof -
  have "stands (NewReaderSize src k) (nat (max 16 k)) (appendArgs [] args @ rest)"
    using new_stands [OF assms(1)] assms(2) by simp
  then show ?thesis
    using parseReq_stands [OF _ assms(3)] by (metis max.cobounded1 nat_mono nat_numeral stands_def)
qed

lemma show_digits: "show_nat (Suc 0) = ''1''" "show_nat (Suc (Suc 0)) = ''2''"
    "show_nat (Suc (Suc (Suc (Suc 0)))) = ''4''" "show_nat 7 = ''7''"
  by code_simp+

lemma ping_text: "appendArgs [] [''PING''] = ''*1'' @ crlf @ ''$4'' @ crlf @ ''PING'' @ crlf"
  by (simp add: appendArgs_text bulk_text_def show_digits)

theorem request_round_trip_witness:
  "\<exists>rd. parseReq (NewReaderSize [(''*1'', None), (crlf @ ''$4'' @ crlf @ ''PI'', None), (''NG'' @ crlf @ ''+'', None)] 16) =
     Some (Inr [''PING''], rd) \<and> pending rd = ''+''"
  by (rule request_round_trip) (simp_all add: ping_text sendable_def)

lemma parseReply_value:
  assumes "stands rd n (resp_text v @ rest)" "ok_gval v" "32 \<le> n"
  obtains rd' where "parseReply (Some parseSlice) rd = Some (result_of v, rd')" "stands rd' n rest"
proof -
  let ?s = "resp_text v @ rest"
  have "reads_value n (parseReply (Some (parse_slice_to (length ?s)))) v"
    by (rule parseReply_reads [OF assms(2,3)]) (use nesting_less [of v] in simp)
  then obtain rd' where "parseReply (Some (parse_slice_to (length ?s))) rd = Some (result_of v, rd')" "stands rd' n rest"
    using assms(1) unfolding reads_value_def by blast
  moreover have "parseReply (Some (parse_slice_to (length ?s))) rd = parseReply (Some parseSlice) rd"
    using assms(1) by (intro parseReply_levels) (auto simp: stands_def)
  ultimately show thesis using that [of rd'] by metis
qed

text \<open>
  C6. A reply of the server is read back: every value of the protocol, nested as it may be, is
  decoded from its text, in whatever pieces it arrives, and what follows it is left; a nil is the
  error Nil at the top and a nil element inside a slice.
\<close>

theorem reply_round_trip:
  assumes "calm src" "stream_of src = resp_text v @ rest" "ok_gval v" "32 \<le> k"
  shows "\<exists>rd. parseReply (Some parseSlice) (NewReaderSize src k) = Some (result_of v, rd) \<and> pending rd = rest"
proof -
  have "stands (NewReaderSize src k) (nat k) (resp_text v @ rest)"
    using new_stands [OF assms(1), of k] assms(2,4) by (auto simp: stands_def)
  then obtain rd where "parseReply (Some parseSlice) (NewReaderSize src k) = Some (result_of v, rd)" "stands rd (nat k) rest"
    using parseReply_value [OF _ assms(3)] assms(4) by (metis nat_mono nat_numeral)
  then show ?thesis by (auto simp: stands_def)
qed

theorem reply_round_trip_witness:
  "\<exists>rd. parseReply (Some parseSlice) (NewReaderSize [(''*2'' @ crlf @ ''$-1'', None), (crlf @ '':7'' @ crlf, None)] 64) =
     Some (result_of (VSlice [VNil, VInt 7]), rd) \<and> pending rd = []"
  by (rule reply_round_trip)
    (simp_all add: show_digits show_int_def int64_min_def int64_max_def)

text \<open>
  parseSlice is the recursion of the source, elements read with parseReply and parseSlice
  itself: on every input, also one that no server sends, the bound that the model puts on the
  nesting is never met.
\<close>

lemma parseSlice_recursion:
  assumes "reader_inv rd"
  shows "parseSlice n rd =
    (if makes 16 n then slice_loop (parseReply (Some parseSlice)) (nat n) [] rd else None)"
proof -
  let ?L = "length (pending rd)"
  have "slice_loop (parseReply (Some (parse_slice_to ?L))) (nat n) [] rd =
      slice_loop (parseReply (Some parseSlice)) (nat n) [] rd"
    by (rule slice_loop_cong [of ?L])
      (auto simp: assms parseReply_levels intro: parseReply_shrinks parse_slice_to_shrinks)
  then show ?thesis by (simp add: parseSlice_def)
qed

text \<open>
  C8. The cuts do not matter: two connections that deliver the same bytes in different pieces give
  the same reply, error or panic, and leave the same bytes, whatever the bytes are.
\<close>

theorem cuts_do_not_matter:
  assumes "calm src" "calm src'" "stream_of src = stream_of src'"
  shows "map_option (map_prod id pending) (parseReply (Some parseSlice) (NewReaderSize src k)) =
    map_option (map_prod id pending) (parseReply (Some parseSlice) (NewReaderSize src' k))"
proof -
  have "alike (NewReaderSize src k) (NewReaderSize src' k)"
    using assms by (simp add: alike_def NewReaderSize_capacity)
  moreover have "cut_free (parseReply (Some parseSlice))"
    by (rule parseReply_cut_free) (use parseSlice_cut_free in auto)
  ultimately have "agree (parseReply (Some parseSlice) (NewReaderSize src k)) (parseReply (Some parseSlice) (NewReaderSize src' k))"
    by (rule cut_freeD [rotated])
  then show ?thesis by (cases rule: agree_cases) (auto simp: alike_def)
qed

theorem cuts_do_not_matter_witness:
  "map_option (map_prod id pending) (parseReply (Some parseSlice) (NewReaderSize [(''+O'', None), (''K'', None)] 16)) =
   map_option (map_prod id pending) (parseReply (Some parseSlice) (NewReaderSize [(''+OK'', None)] 16))"
  by (rule cuts_do_not_matter) simp_all

text \<open>
  An error text of the server goes through Sprintf as a format: a percent sign in it is mangled.
\<close>

lemma error_text_mangled: "errorf ''ERR disk 100% full'' = RedisError ''ERR disk 100%!f(MISSING)ull''"
  by code_simp

end
