(* ===== verification/RedisRuns.thy ===== *)
theory RedisRuns
  imports RedisSessions PoolFacts RespReplies
begin

text \<open>
  The client at work, down to the bytes: a command on a connection of the pool, the login on a new
  connection, a pipeline whose connection fails, what a subscription receives and how a
  transaction ends.
\<close>

section \<open>A command on a connection\<close>

lemma writeCmds_ok:
  "\<not> N_closed cn \<Longrightarrow> N_writes cn = [] \<Longrightarrow>
     writeCmds [cmd] cn = (None, cn\<lparr>N_out := N_out cn @ appendArgs [] (Q_args cmd)\<rparr>)"
  by (simp add: writeCmds_def conn_Write_def)

lemma set_timeouts_simps [simp]:
  "N_rd (set_timeouts opt cmd cn) = N_rd cn" "N_out (set_timeouts opt cmd cn) = N_out cn"
  "N_writes (set_timeouts opt cmd cn) = N_writes cn" "N_usedAt (set_timeouts opt cmd cn) = N_usedAt cn"
  by (simp_all add: set_timeouts_def)

lemma stands_buffered: "stands rd n [] \<Longrightarrow> Buffered rd = 0"
  by (auto simp: stands_def pending_def reader_inv_def window_def Buffered_def)

text \<open>A connection on which a write succeeds and exactly this text comes next.\<close>

definition answers :: "string \<Rightarrow> conn \<Rightarrow> bool" where
  "answers s cn \<longleftrightarrow> \<not> N_closed cn \<and> N_writes cn = [] \<and> (\<exists>n \<ge> 4096. stands (N_rd cn) n s)"

definition replied :: "gval \<Rightarrow> 'f cmd \<Rightarrow> 'f cmd" where
  "replied v cmd = cmd\<lparr>Q_val := AnyVal v, Q_err := (if v = VNil then Some Nil_error else None)\<rparr>"

lemma NewCmd_simps [simp]:
  "Q_args (NewCmd args) = args" "Q_val (NewCmd args) = AnyVal VNil" "Q_err (NewCmd args) = None"
  by (simp_all add: NewCmd_def base_cmd_def)

lemma parse_Cmd_value:
  assumes "stands rd n (resp_text v @ rest)" "ok_gval v" "32 \<le> n"
  obtains rd' where "parse_Cmd cmd rd = Some ((if v = VNil then Some Nil_error else None, replied v cmd), rd')" "stands rd' n rest"
proof -
  obtain rd' where "parseReply (Some parseSlice) rd = Some (result_of v, rd')" "stands rd' n rest"
    using parseReply_value [OF assms] .
  with that [of rd'] show thesis by (cases v) (simp_all add: parse_Cmd_def replied_def gval_of_def)
qed

text \<open>How a command takes the text \<open>s\<close> for its reply, on any reader.\<close>

definition takes :: "'f floats \<Rightarrow> string \<Rightarrow> 'f cmd \<Rightarrow> redis_error option \<Rightarrow> ('f cmd \<Rightarrow> bool) \<Rightarrow> bool" where
  "takes fl s cmd e P \<longleftrightarrow>
     (\<forall>rd n rest. stands rd n (s @ rest) \<longrightarrow> 4096 \<le> n \<longrightarrow>
        (\<exists>cmd' rd'. cmd_parseReply fl cmd rd = Some ((e, cmd'), rd') \<and> P cmd' \<and> stands rd' n rest))"

lemma takes_value:
  fixes cmd :: "'f cmd"
  assumes "ok_gval v" "Q_val cmd = AnyVal u"
  shows "takes fl (resp_text v) cmd (if v = VNil then Some Nil_error else None) (\<lambda>cmd'. cmd' = replied v cmd)"
  unfolding takes_def
proof (intro allI impI)
  fix rd n rest assume st: "stands rd n (resp_text v @ rest)" "4096 \<le> n"
  obtain rd' where "parse_Cmd cmd rd = Some ((if v = VNil then Some Nil_error else None, replied v cmd), rd')" "stands rd' n rest"
    using parse_Cmd_value [OF st(1) assms(1)] st(2) by auto
  then show "\<exists>cmd' rd'. cmd_parseReply fl cmd rd = Some ((if v = VNil then Some Nil_error else None, cmd'), rd') \<and>
      cmd' = replied v cmd \<and> stands rd' n rest"
    using assms(2) by (simp add: cmd_parseReply_def)
qed

lemma exchange_takes:
  assumes "answers s cn" "takes fl s cmd e P"
  obtains cmd' cn' where "exchange fl cmd cn = Some ((e, cmd'), cn')" "P cmd'" "answers [] cn'"
    "N_out cn' = N_out cn @ appendArgs [] (Q_args cmd)"
proof -
  obtain n where cn: "\<not> N_closed cn" "N_writes cn = []" "4096 \<le> n" "stands (N_rd cn) n (s @ [])"
    using assms(1) by (auto simp: answers_def)
  obtain cmd' rd' where parsed: "cmd_parseReply fl cmd (N_rd cn) = Some ((e, cmd'), rd')" "P cmd'" "stands rd' n []"
    using assms(2) cn(3,4) unfolding takes_def by blast
  show thesis
  proof (rule that)
    let ?cn = "cn\<lparr>N_out := N_out cn @ appendArgs [] (Q_args cmd)\<rparr>"
    show "exchange fl cmd cn = Some ((e, cmd'), ?cn\<lparr>N_rd := rd'\<rparr>)"
      using parsed(1) by (simp add: exchange_def writeCmds_ok [OF cn(1,2)])
    show "answers [] (?cn\<lparr>N_rd := rd'\<rparr>)" using cn parsed(3) by (auto simp: answers_def)
  qed (use parsed in simp_all)
qed

text \<open>The next command on an open pool is sent on the connection that has been free longest.\<close>

definition next_free :: "nat \<Rightarrow> nat list \<Rightarrow> connPool \<times> net \<Rightarrow> bool" where
  "next_free cn free S \<longleftrightarrow> \<not> P_closed (fst S) \<and> P_free (fst S) = cn # free \<and>
     \<not> isIdle (fst S) (M_conns (snd S) cn) (M_now (snd S))"

lemma next_free_get:
  "next_free cn free (p, m) \<Longrightarrow> pool_Get (conn_pool fl) (p, m) = Some (Inr cn, p\<lparr>P_free := free\<rparr>, m)"
  by (simp add: next_free_def conn_pool_def Get_conn_def First_def)

lemma put_back:
  assumes inv: "pool_inv H (p, m)" and nf: "next_free cn free (p, m)" and c: "answers [] c"
    and e: "e = None \<or> (\<exists>s. e = Some (RedisError s))"
  obtains p' m' where "putConn (conn_pool fl) cn e (p\<lparr>P_free := free\<rparr>, set_conn cn c m) = Some ((), p', m')"
    "P_free p' = free @ [cn]" "N_out (M_conns m' cn) = N_out c" "N_rd (M_conns m' cn) = N_rd c"
proof -
  have nil: "Buffered (N_rd c) = 0" using c stands_buffered by (auto simp: answers_def)
  have inv': "cn \<notin> H" "pool_inv (insert cn H) (p\<lparr>P_free := free\<rparr>, m)"
    using pool_inv_take [OF inv] nf by (auto simp: next_free_def)
  obtain p' where p': "send_free cn (p\<lparr>P_free := free\<rparr>) = Some p'" using pool_inv_give [OF inv'(2,1)] by auto
  then have "P_free p' = free @ [cn]" by (auto simp: send_free_def split: if_splits)
  with p' nil e that show thesis
    by (auto simp: putConn_def conn_pool_def Put_conn_def Let_def split: if_splits)
qed

text \<open>A command on a sound connection of the pool, answered with a value or with an error of the server.\<close>

lemma process_once:
  assumes "pool_inv H S" "next_free cn free S" "answers s (M_conns (snd S) cn)" "takes fl s cmd e P"
    and "e = None \<or> (\<exists>t. e = Some (RedisError t))" "0 \<le> O_MaxRetries opt"
  obtains cmd' S' where "process_cmd fl opt cmd S = Some (cmd', S')" "P cmd'" "pool_inv H S'"
    "P_free (fst S') = free @ [cn]" "N_out (M_conns (snd S') cn) = N_out (M_conns (snd S) cn) @ appendArgs [] (Q_args cmd)"
proof -
  obtain p m where S: "S = (p, m)" by force
  let ?c = "set_timeouts opt cmd (M_conns m cn)"
  obtain n where n: "nat (O_MaxRetries opt + 1) = Suc n" using assms(6) by (cases "nat (O_MaxRetries opt + 1)") auto
  have "answers s ?c" using assms(3) by (simp add: S answers_def)
  then obtain cmd' c where c: "exchange fl cmd ?c = Some ((e, cmd'), c)" "P cmd'" "answers [] c"
    "N_out c = N_out ?c @ appendArgs [] (Q_args cmd)" by (rule exchange_takes [OF _ assms(4)])
  from put_back [OF assms(1,2) [unfolded S] c(3) assms(5), of fl] obtain p' m'
    where put: "putConn (conn_pool fl) cn e (p\<lparr>P_free := free\<rparr>, set_conn cn c m) = Some ((), p', m')"
    "P_free p' = free @ [cn]" "N_out (M_conns m' cn) = N_out c" by metis
  have "\<not> shouldRetry e" using assms(5) by (auto simp: shouldRetry_def isNetworkError_def)
  then have run: "process_cmd fl opt cmd S = Some (cmd', p', m')"
    using next_free_get [OF assms(2) [unfolded S], of fl] c(1) put(1)
    by (simp add: S process_cmd_def client_process_def n)
  then have "pool_inv H (p', m')"
    unfolding process_cmd_def by (rule shared.client_process_rest [OF assms(1)])
  with that run put c(2,4) show thesis by (auto simp: S)
qed

text \<open>
  C18. A command is answered: on an open pool whose next free connection is sound, the command is
  written whole, a server that reads what was written finds the arguments, the command ends with
  the value of the reply, whatever it is, and the connection is back in the pool, which is in
  order.
\<close>

theorem command_answered:
  fixes fl :: "'f floats"
  assumes "pool_inv H S" "next_free cn free S" "answers (resp_text v) (M_conns (snd S) cn)"
    and "ok_gval v" "sendable args" "0 \<le> O_MaxRetries opt"
  shows "\<exists>S'. process_cmd fl opt (NewCmd args) S = Some (replied v (NewCmd args), S') \<and> pool_inv H S' \<and>
    P_free (fst S') = free @ [cn] \<and>
    N_out (M_conns (snd S') cn) = N_out (M_conns (snd S) cn) @ appendArgs [] args \<and>
    (\<exists>rd. parseReq (NewReader [(appendArgs [] args, None)]) = Some (Inr args, rd))"
proof -
  let ?e = "if v = VNil then Some Nil_error else None"
  have e: "?e = None \<or> (\<exists>t. ?e = Some (RedisError t))" by (simp add: Nil_error_def)
  have t: "takes fl (resp_text v) (NewCmd args :: 'f cmd) ?e (\<lambda>cmd'. cmd' = replied v (NewCmd args))"
    by (rule takes_value [OF assms(4) NewCmd_simps(2)])
  have "stands (NewReader [(appendArgs [] args, None)]) 4096 (appendArgs [] args @ [])"
    using new_stands [of "[(appendArgs [] args, None)]" 4096]
    by (simp add: NewReader_def defaultBufSize_def appendArgs_text)
  then obtain rd where "parseReq (NewReader [(appendArgs [] args, None)]) = Some (Inr args, rd)"
    by (rule parseReq_stands [OF _ assms(5)]) simp
  then show ?thesis
    by (rule_tac process_once [OF assms(1-3) t e assms(6)]) auto
qed

section \<open>A connection to try things on\<close>

definition default_options :: Options where
  "default_options = \<lparr>O_Network = [], O_Addr = ''localhost:6379'', O_Password = [], O_DB = 0, O_MaxRetries = 5,
     O_DialTimeout = 0, O_ReadTimeout = 0, O_WriteTimeout = 0, O_PoolSize = 0, O_PoolTimeout = 0, O_IdleTimeout = 0\<rparr>"

definition no_floats :: "unit floats" where
  "no_floats = \<lparr>F_zero = (), F_is_zero = (\<lambda>_. True), F_parse = (\<lambda>_. ((), True)), F_format = (\<lambda>_. ''0'')\<rparr>"

definition one_conn :: "source \<Rightarrow> write_script \<Rightarrow> connPool \<times> net" where
  "one_conn src ws =
     (\<lparr>P_rl = New_limiter 0 20 1000000000, P_opt = default_options,
        P_conns = \<lparr>L_cns = [0], L_len = 1, L_size = 10\<rparr>, P_free = [0], P_closed = False, P_lastDialErr = None\<rparr>,
      \<lparr>M_conns = (\<lambda>_. fresh_conn src ws), M_next = 1, M_dials = (\<lambda>_. (0, Inl (ConnError False))), M_now = 0, M_patience = 0\<rparr>)"

lemma one_conn_facts:
  "pool_inv {} (one_conn src ws)" "next_free 0 [] (one_conn src ws)"
  "M_conns (snd (one_conn src ws)) a = fresh_conn src ws"
  by (simp_all add: one_conn_def pool_inv_def fresh_conn_def getPoolSize_def default_options_def next_free_def isIdle_def
      getIdleTimeout_def)

lemma NewReader_stands: "calm src \<Longrightarrow> stands (NewReader src) 4096 (stream_of src)"
  using new_stands [of src 4096] by (simp add: NewReader_def defaultBufSize_def)

lemma fresh_answers: "calm src \<Longrightarrow> stream_of src = s \<Longrightarrow> answers s (fresh_conn src [])"
  using NewReader_stands [of src] by (auto simp: answers_def fresh_conn_def intro!: exI [of _ 4096])

theorem command_answered_witness:
  "\<exists>S'. process_cmd no_floats default_options (NewCmd [''PING'']) (one_conn [(''*0'' @ crlf, None)] []) =
      Some (replied (VSlice []) (NewCmd [''PING'']), S') \<and> pool_inv {} S' \<and> P_free (fst S') = [] @ [0] \<and>
      N_out (M_conns (snd S') 0) =
        N_out (M_conns (snd (one_conn [(''*0'' @ crlf, None)] [])) 0) @ appendArgs [] [''PING''] \<and>
      (\<exists>rd. parseReq (NewReader [(appendArgs [] [''PING''], None)]) = Some (Inr [''PING''], rd))"
proof (rule command_answered)
  have "show_nat 0 = ''0''" by code_simp
  then show "answers (resp_text (VSlice [])) (M_conns (snd (one_conn [(''*0'' @ crlf, None)] [])) 0)"
    by (simp add: one_conn_facts fresh_answers)
qed (simp_all add: one_conn_facts sendable_def default_options_def)

section \<open>The login\<close>

lemma readLine_end:
  assumes "stands rd n []" "0 < n"
  obtains rd' where "readLine rd = Some (Inl (ReadError EOF), rd')" "stands rd' n []"
proof -
  have "line_spec (capacity rd) (pending rd) = (([], False, Some EOF), [])"
    using assms by (simp add: stands_def line_spec_def slice_spec_def)
  with bufio.line_law [of rd] assms(1) obtain rd' where "ReadLine rd = Some (([], False, Some EOF), rd')" "stands rd' n []"
    by (auto simp: stands_def)
  with that [of rd'] show thesis by (simp add: readLine_def)
qed

lemma exchange_cut:
  assumes "N_rd cn = NewReader []" "Q_val cmd = StatusVal v"
  obtains cmd' cn' e where "exchange fl cmd cn = Some ((Some (ReadError e), cmd'), cn')" "Buffered (N_rd cn') = 0"
proof (cases "writeCmds [cmd] cn")
  case (Pair e cn1)
  have rd: "N_rd cn1 = NewReader []"
    using Pair assms(1) by (auto simp: writeCmds_def conn_Write_def split: if_splits list.splits option.splits)
  have stands: "stands (NewReader []) 4096 []" using NewReader_stands [of "[]"] by simp
  show thesis
  proof (cases e)
    case (Some e1)
    with Pair rd stands_buffered [OF stands] show thesis
      by (intro that [of e1 _ cn1]) (simp_all add: exchange_def)
  next
    case None
    obtain rd' where rd': "readLine (NewReader []) = Some (Inl (ReadError EOF), rd')" "stands rd' 4096 []"
      using readLine_end [OF stands] by auto
    with None Pair rd assms(2) stands_buffered [OF rd'(2)] show thesis
      by (intro that [of EOF "cmd\<lparr>Q_err := Some (ReadError EOF)\<rparr>" "cn1\<lparr>N_rd := rd'\<rparr>"])
        (simp_all add: exchange_def cmd_parseReply_def parse_StatusCmd_def take_reply_def parseReply_def)
  qed
qed

lemma login_cut:
  fixes fl :: "'f floats"
  assumes "O_Password opt \<noteq> []" "0 \<le> O_MaxRetries opt" "N_rd (M_conns m cn) = NewReader []"
  shows "init_conn fl opt cn m = None"
proof -
  obtain n where n: "nat (O_MaxRetries opt + 1) = Suc n" using assms(2) by (cases "nat (O_MaxRetries opt + 1)") auto
  let ?cmd = "newKeylessStatusCmd [''AUTH'', O_Password opt] :: 'f cmd"
  obtain cmd' cn' e where "exchange fl ?cmd (set_timeouts opt ?cmd (M_conns m cn)) = Some ((Some (ReadError e), cmd'), cn')"
    "Buffered (N_rd cn') = 0"
    by (rule exchange_cut [of "set_timeouts opt ?cmd (M_conns m cn)" ?cmd "[]"])
      (simp_all add: assms(3) newKeylessStatusCmd_def base_cmd_def)
  then have "client_process fl (singleConnPool nil_pool) opt ?cmd (SetConn cn (newSingleConnPool () False), m) = None"
    by (simp add: client_process_def n singleConnPool_def single_Get_def SetConn_def newSingleConnPool_def putConn_def
        single_Remove_def give_back_def inside_def nil_pool_def Let_def)
  then show ?thesis using assms(1) by (simp add: init_conn_def Auth_def Process_def)
qed

lemma fresh_limiter_passes:
  assumes "1 \<le> rate" "rate * 1000000000 < 2 ^ 64"
  shows "\<not> fst (Limit now (New_limiter now rate 1000000000))"
proof -
  note new = New_limiter_fields [OF assms(1) _ assms(2), of now]
  have "unat (RL_unit (New_limiter now rate 1000000000)) \<le> unat (RL_max (New_limiter now rate 1000000000))"
    using new assms(1) by (simp add: nat_mono)
  with new(3,4) show ?thesis
    by (simp add: Limit_def cap_allowance_def Let_def word_less_nat_alt)
qed

text \<open>
  A connection that is cut during the login takes the process down: with a password, a new
  pool whose first dial gives a connection that ends at once panics in whatever command comes
  first, since init runs AUTH on a pool around no pool and putConn asks that one to remove the
  connection.
\<close>

lemma cut_login_panics:
  assumes "O_Password opt \<noteq> []" "0 \<le> O_MaxRetries opt" "newConnPool opt (M_now m) = Some p"
    and "0 < getPoolSize opt" "getPoolSize opt < 2 ^ 31" "M_dials m 0 = (t, Inr ([], ws))"
  shows "process_cmd fl opt cmd (p, m) = None"
proof -
  obtain n where n: "nat (O_MaxRetries opt + 1) = Suc n" using assms(2) by (cases "nat (O_MaxRetries opt + 1)") auto
  have p: "P_rl p = New_limiter (M_now m) (2 * getPoolSize opt) 1000000000" "P_opt p = opt" "P_free p = []" "\<not> P_closed p"
    "P_conns p = newConnList (getPoolSize opt)"
    using assms(3) by (auto simp: newConnPool_def split: if_splits)
  have size1: "L_size (newConnList (getPoolSize opt)) = getPoolSize opt"
    using assms(4,5) unfolding newConnList_def connList.simps sint_sbintrunc'
    by (intro signed_take_bit_int_eq_self) simp_all
  have res: "Reserve (P_conns p) = (True, (P_conns p)\<lparr>L_len := 1\<rparr>)"
    using size1 assms(4) by (simp add: Reserve_def p(5)) (simp add: newConnList_def)
  obtain rl where lim: "Limit (M_now m) (P_rl p) = (False, rl)"
    using fresh_limiter_passes [of "2 * getPoolSize opt" "M_now m"] assms(4,5) p(1) by (cases "Limit (M_now m) (P_rl p)") auto
  let ?m = "set_conn (M_next m) (fresh_conn [] ws) (m\<lparr>M_dials := \<lambda>k. M_dials m (Suc k), M_now := M_now m + int t, M_next := M_next m + 1\<rparr>)"
  have "init_conn fl opt (M_next m) ?m = None"
    by (rule login_cut [OF assms(1,2)]) (simp add: fresh_conn_def)
  then have "dial_conn fl opt m = None" using assms(6) by (simp add: dial_conn_def net_dial_def Let_def)
  then have "new fl (p\<lparr>P_free := free, P_conns := l\<rparr>, m) = None" for free l using lim p(2) by (simp add: new_def Let_def)
  then have "pool_Get (conn_pool fl) (p, m) = None"
    using p(3,4) res by (simp add: conn_pool_def Get_conn_def First_def)
  then show ?thesis by (simp add: process_cmd_def client_process_def n Let_def)
qed


section \<open>Pipelines\<close>

text \<open>
  A pipeline keeps a broken connection: when its write fails, whatever the error, every command
  has the error and so has Exec, but the connection goes back among the free ones, for the next
  command, and nothing is tried again, however many retries are asked for.
\<close>

lemma pipeline_keeps_broken:
  assumes "pool_inv H S" "next_free cn free S" "Buffered (N_rd (M_conns (snd S) cn)) = 0"
    and "N_writes (M_conns (snd S) cn) = Some (k, e) # ws" "\<not> I_closed c" "I_cmds c \<noteq> []" "0 \<le> O_MaxRetries opt"
  shows "\<exists>S'. pipe_Exec fl (conn_pool fl) opt c S =
      Some (((setCmdsErr (Some (ReadError e)) (I_cmds c), Some (ReadError e)), c\<lparr>I_cmds := []\<rparr>), S') \<and>
    P_free (fst S') = free @ [cn]"
proof -
  obtain p m where S: "S = (p, m)" by force
  obtain n where n: "nat (O_MaxRetries opt + 1) = Suc n" using assms(7) by (cases "nat (O_MaxRetries opt + 1)") auto
  have inv': "cn \<notin> H" "pool_inv (insert cn H) (p\<lparr>P_free := free\<rparr>, m)" "\<not> P_closed p"
    using pool_inv_take [of H p m] assms(1,2) by (auto simp: S next_free_def)
  then have "\<not> N_closed (M_conns m cn)" using assms(1,2) by (auto simp: S pool_inv_def next_free_def)
  then obtain c' where c': "pipe_execCmds fl (I_cmds c) (M_conns m cn) =
      Some ((Some (ReadError e), setCmdsErr (Some (ReadError e)) (I_cmds c)), c')" "N_rd c' = N_rd (M_conns m cn)"
    using assms(4) by (auto simp: S pipe_execCmds_def writeCmds_def conn_Write_def)
  obtain p' where p': "send_free cn (p\<lparr>P_free := free\<rparr>) = Some p'" using pool_inv_give [OF inv'(2,1)] by auto
  then have "P_free p' = free @ [cn]" by (auto simp: send_free_def split: if_splits)
  moreover obtain m' where "putConn (conn_pool fl) cn None (p\<lparr>P_free := free\<rparr>, set_conn cn c' m) = Some ((), p', m')"
    using p' c'(2) assms(3) by (auto simp: S putConn_def conn_pool_def Put_conn_def Let_def)
  ultimately show ?thesis
    using next_free_get [OF assms(2) [unfolded S], of fl] c'(1) assms(5,6)
    by (auto simp: S pipe_Exec_def n Let_def shouldRetry_def intro!: exI [of _ p'] exI [of _ m'])
qed

section \<open>Subscriptions\<close>

fun receive_all :: "'q pool \<Rightarrow> nat \<Rightarrow> 'q pubsub \<Rightarrow> ((redis_error + received_msg) list \<times> 'q pubsub) option" where
  "receive_all pl 0 S = Some ([], S)"
| "receive_all pl (Suc n) S = do {
     (r, S) \<leftarrow> Receive pl S;
     (rs, S) \<leftarrow> receive_all pl n S;
     Some (r # rs, S)
   }"

text \<open>What Redis pushes for a message to subscribers.\<close>

definition push_text :: "string \<times> string \<Rightarrow> string" where
  "push_text cm = resp_text (VSlice [VStr ''message'', VStr (fst cm), VStr (snd cm)])"

definition small_message :: "string \<times> string \<Rightarrow> bool" where
  "small_message cm \<longleftrightarrow> length (fst cm) < 2 ^ 31 \<and> length (snd cm) < 2 ^ 31"

definition subscribed :: "nat \<Rightarrow> string \<Rightarrow> 'q pubsub \<Rightarrow> bool" where
  "subscribed cn s S \<longleftrightarrow> SP_cn (fst S) = Some cn \<and> \<not> SP_closed (fst S) \<and>
     (\<exists>n \<ge> 32. stands (N_rd (M_conns (snd S) cn)) n s)"

lemma Receive_message:
  assumes "subscribed cn (push_text cm @ rest) S" "small_message cm"
  shows "\<exists>m. Receive pl S = Some (Inr (Message (fst cm) (snd cm)), fst S, m) \<and> subscribed cn rest (fst S, m)"
proof -
  obtain p m where S: "S = (p, m)" by force
  let ?vs = "[VStr ''message'', VStr (fst cm), VStr (snd cm)]"
  obtain n where n: "32 \<le> n" "stands (N_rd (M_conns m cn)) n (resp_text (VSlice ?vs) @ rest)"
    using assms(1) by (auto simp: S subscribed_def push_text_def)
  have "ok_gval (VSlice ?vs)" using assms(2) by (auto simp: small_message_def)
  then obtain rd' where rd': "parseReply (Some parseSlice) (N_rd (M_conns m cn)) = Some (result_of (VSlice ?vs), rd')"
    "stands rd' n rest" using parseReply_value [OF n(2) _ n(1)] by blast
  let ?m = "set_conn cn ((M_conns m cn)\<lparr>N_ReadTimeout := 0, N_rd := rd'\<rparr>) m"
  have "Receive pl S = Some (Inr (Message (fst cm) (snd cm)), p, ?m)"
    using assms(1) rd'(1)
    by (simp add: S Receive_def ReceiveTimeout_def subscribed_def single_Get_def Let_def parse_SliceCmd_def take_reply_def
        as_multi_def message_of_def str_at_def)
  moreover have "subscribed cn rest (p, ?m)" using assms(1) rd'(2) n(1) by (auto simp: S subscribed_def)
  ultimately show ?thesis by (auto simp: S)
qed

text \<open>
  C23. A subscriber gets every message once, in order: when the server pushes messages on the
  connection of the subscription, that many calls of Receive give exactly these, each with its
  channel and payload whatever bytes they are, and what comes after them is left.
\<close>

theorem messages_in_order:
  assumes "subscribed cn (concat (List.map push_text cms) @ rest) S" "\<forall>cm \<in> set cms. small_message cm"
  shows "\<exists>m. receive_all pl (length cms) S = Some (List.map (\<lambda>(ch, payload). Inr (Message ch payload)) cms, fst S, m) \<and>
    subscribed cn rest (fst S, m)"
  using assms
proof (induction cms arbitrary: S)
  case Nil
  then show ?case by (cases S) simp
next
  case (Cons cm cms)
  have "subscribed cn (push_text cm @ (concat (List.map push_text cms) @ rest)) S" using Cons.prems(1) by simp
  with Receive_message [of cn cm _ S pl] Cons.prems(2)
  obtain m where m: "Receive pl S = Some (Inr (Message (fst cm) (snd cm)), fst S, m)"
    "subscribed cn (concat (List.map push_text cms) @ rest) (fst S, m)" by auto
  from Cons.IH [OF m(2)] Cons.prems(2) m(1) show ?case by (auto simp: case_prod_unfold)
qed

theorem messages_in_order_witness:
  "\<exists>m. receive_all (conn_pool no_floats) (length [(''ch'', ''hi'')])
      ((newSingleConnPool (fst (one_conn [] [])) False)\<lparr>SP_cn := Some 0\<rparr>, snd (one_conn [(push_text (''ch'', ''hi''), None)] [])) =
      Some (List.map (\<lambda>(ch, payload). Inr (Message ch payload)) [(''ch'', ''hi'')],
        fst ((newSingleConnPool (fst (one_conn [] [])) False)\<lparr>SP_cn := Some 0\<rparr>, snd (one_conn [(push_text (''ch'', ''hi''), None)] [])), m) \<and>
    subscribed 0 [] (fst ((newSingleConnPool (fst (one_conn [] [])) False)\<lparr>SP_cn := Some 0\<rparr>, snd (one_conn [(push_text (''ch'', ''hi''), None)] [])), m)"
proof (rule messages_in_order)
  have "calm [(push_text (''ch'', ''hi''), None)]" by (simp add: push_text_def)
  from NewReader_stands [OF this]
  show "subscribed 0 (concat (List.map push_text [(''ch'', ''hi'')]) @ [])
      ((newSingleConnPool (fst (one_conn [] [])) False)\<lparr>SP_cn := Some 0\<rparr>, snd (one_conn [(push_text (''ch'', ''hi''), None)] []))"
    by (auto simp: subscribed_def newSingleConnPool_def one_conn_facts fresh_conn_def intro!: exI [of _ 4096])
qed (simp add: small_message_def)

section \<open>Transactions\<close>

lemma status_line:
  assumes "stands rd n ((CHR ''+'' # s) @ crlf @ rest)" "CHR 0x0A \<notin> set s" "length s + 3 \<le> n"
  obtains rd' cmd' where "parse_StatusCmd cmd rd = Some ((None, cmd'), rd')" "stands rd' n rest"
proof -
  obtain rd' where "readLine rd = Some (Inr (CHR ''+'' # s), rd')" "stands rd' n rest"
    by (rule readLine_stands [OF assms(1)]) (use assms(2,3) in auto)
  with that [of _ rd'] show thesis
    by (auto simp: parse_StatusCmd_def take_reply_def parseReply_def as_string_def)
qed

definition queued_text :: "nat \<Rightarrow> string" where
  "queued_text k = concat (replicate k (''+QUEUED'' @ crlf))"

lemma queued_stands:
  "stands rd n (queued_text k @ rest) \<Longrightarrow> 32 \<le> n \<Longrightarrow>
     \<exists>rd'. queued_replies cmd k rd = Some (None, rd') \<and> stands rd' n rest"
proof (induction k arbitrary: cmd rd)
  case (Suc k)
  have "stands rd n ((CHR ''+'' # ''QUEUED'') @ crlf @ queued_text k @ rest)"
    using Suc.prems(1) by (simp add: queued_text_def)
  then obtain rd' cmd' where "parse_StatusCmd cmd rd = Some ((None, cmd'), rd')" "stands rd' n (queued_text k @ rest)"
    by (rule status_line) (use Suc.prems(2) in simp_all)
  with Suc.IH [OF _ Suc.prems(2)] show ?case by simp
qed (simp add: queued_text_def)

text \<open>An answer to a command within a transaction: an error of the server or a value.\<close>

type_synonym answer = "string + gval"

definition answer_text :: "answer \<Rightarrow> string" where
  "answer_text r = (case r of Inl t \<Rightarrow> CHR ''-'' # t @ crlf | Inr v \<Rightarrow> resp_text v)"

definition answer_error :: "answer \<Rightarrow> redis_error option" where
  "answer_error r = (case r of Inl t \<Rightarrow> Some (errorf t) | Inr v \<Rightarrow> if v = VNil then Some Nil_error else None)"

definition answered :: "answer \<Rightarrow> 'f cmd \<Rightarrow> 'f cmd" where
  "answered r cmd = (case r of Inl t \<Rightarrow> cmd\<lparr>Q_val := AnyVal VNil, Q_err := Some (errorf t)\<rparr> | Inr v \<Rightarrow> replied v cmd)"

definition ok_answer :: "answer \<Rightarrow> bool" where
  "ok_answer r \<longleftrightarrow> (case r of Inl t \<Rightarrow> CHR 0x0A \<notin> set t \<and> length t + 3 \<le> 4096 | Inr v \<Rightarrow> ok_gval v)"

definition first_error :: "answer list \<Rightarrow> redis_error option" where
  "first_error rs = (case List.filter (\<lambda>r. answer_error r \<noteq> None) rs of [] \<Rightarrow> None | r # _ \<Rightarrow> answer_error r)"

lemma first_error_Cons: "first_error (r # rs) = (if answer_error r \<noteq> None then answer_error r else first_error rs)"
  by (simp add: first_error_def)

lemma answer_error_kind: "answer_error r = None \<or> (\<exists>t. answer_error r = Some (RedisError t))"
  by (auto simp: answer_error_def errorf_def Nil_error_def split: sum.split)

lemma first_error_kind: "first_error rs = None \<or> (\<exists>t. first_error rs = Some (RedisError t))"
  using answer_error_kind by (auto simp: first_error_def split: list.split)

lemma NewCmd_answer:
  fixes fl :: "'f floats"
  assumes "stands rd n (answer_text r @ rest)" "ok_answer r" "4096 \<le> n"
  obtains rd' where "cmd_parseReply fl (NewCmd args) rd = Some ((answer_error r, answered r (NewCmd args)), rd')" "stands rd' n rest"
proof (cases r)
  case (Inl t)
  have "stands rd n ((CHR ''-'' # t) @ crlf @ rest)" using assms(1) by (simp add: Inl answer_text_def)
  then obtain rd' where "readLine rd = Some (Inr (CHR ''-'' # t), rd')" "stands rd' n rest"
    by (rule readLine_stands) (use assms(2,3) in \<open>auto simp: Inl ok_answer_def\<close>)
  with that [of rd'] show thesis
    by (simp add: Inl answer_error_def answered_def cmd_parseReply_def parse_Cmd_def parseReply_def)
next
  case (Inr v)
  have st: "stands rd n (resp_text v @ rest)" "ok_gval v" "32 \<le> n" using assms by (simp_all add: Inr answer_text_def ok_answer_def)
  obtain rd' where "parse_Cmd (NewCmd args :: 'f cmd) rd = Some ((if v = VNil then Some Nil_error else None, replied v (NewCmd args)), rd')"
    "stands rd' n rest" by (rule parse_Cmd_value [OF st])
  with that [of rd'] show thesis by (simp add: Inr answer_error_def answered_def cmd_parseReply_def)
qed

lemma replies_stand:
  fixes fl :: "'f floats"
  assumes "\<forall>r \<in> set rs. ok_answer r" "4096 \<le> n"
  shows "length rs = length argss \<Longrightarrow> stands rd n (concat (List.map answer_text rs) @ rest) \<Longrightarrow>
    \<exists>rd'. parse_replies fl (List.map NewCmd argss) e rd =
        Some ((if e = None then first_error rs else e, map2 answered rs (List.map NewCmd argss)), rd') \<and>
      stands rd' n rest"
  using assms(1)
proof (induction rs argss arbitrary: rd e rule: list_induct2')
  case (4 r rs args argss)
  have "stands rd n (answer_text r @ concat (List.map answer_text rs) @ rest)" "ok_answer r" using 4(3,4) by simp_all
  then obtain rd1 where 1: "cmd_parseReply fl (NewCmd args) rd = Some ((answer_error r, answered r (NewCmd args)), rd1)"
    "stands rd1 n (concat (List.map answer_text rs) @ rest)" using NewCmd_answer [OF _ _ assms(2)] by blast
  let ?e = "if answer_error r \<noteq> None \<and> e = None then answer_error r else e"
  from 4(1) [OF _ 1(2), of ?e] 4(2,4) obtain rd2 where
    "parse_replies fl (List.map NewCmd argss) ?e rd1 =
        Some ((if ?e = None then first_error rs else ?e, map2 answered rs (List.map NewCmd argss)), rd2)"
    "stands rd2 n rest" by auto
  with 1 show ?case by (auto simp: first_error_Cons)
qed (auto simp: first_error_def)

lemma written_text:
  "fold (\<lambda>cmd buf. appendArgs buf (Q_args cmd)) cmds buf = buf @ concat (List.map (\<lambda>cmd. appendArgs [] (Q_args cmd)) cmds)"
  by (induction cmds arbitrary: buf) (simp_all add: appendArgs_text)

text \<open>What EXEC is answered with: nothing when a watched key has changed, else the replies.\<close>

definition exec_text :: "answer list option \<Rightarrow> string" where
  "exec_text res =
     (case res of
        None \<Rightarrow> ''*-1'' @ crlf
      | Some rs \<Rightarrow> ''*'' @ show_nat (length rs) @ crlf @ concat (List.map answer_text rs))"

definition exec_result :: "answer list option \<Rightarrow> 'f cmd list \<Rightarrow> redis_error option \<times> 'f cmd list" where
  "exec_result res cmds =
     (case res of
        None \<Rightarrow> (Some TxFailedErr, setCmdsErr (Some TxFailedErr) cmds)
      | Some rs \<Rightarrow> (first_error rs, map2 answered rs cmds))"

definition replies_fit :: "answer list option \<Rightarrow> nat \<Rightarrow> bool" where
  "replies_fit res k \<longleftrightarrow>
     (case res of None \<Rightarrow> True | Some rs \<Rightarrow> length rs = k \<and> k < 2 ^ 31 \<and> (\<forall>r \<in> set rs. ok_answer r))"

lemma exec_stands:
  fixes fl :: "'f floats" and argss
  defines "cmds \<equiv> List.map NewCmd argss :: 'f cmd list"
  assumes "stands rd n (exec_text res)" "4096 \<le> n" "replies_fit res (length argss)"
  obtains line rd' rd'' where "readLine rd = Some (Inr line, rd')" "stands rd'' n []"
    "res = None \<longrightarrow> exec_line line = Some (Some TxFailedErr) \<and> rd'' = rd'"
    "res \<noteq> None \<longrightarrow> exec_line line = Some None \<and> parse_replies fl cmds None rd' = Some (exec_result res cmds, rd'')"
proof (cases res)
  case None
  then have "stands rd n (''*-1'' @ crlf @ [])" using assms(2) by (simp add: exec_text_def)
  then obtain rd' where "readLine rd = Some (Inr ''*-1'', rd')" "stands rd' n []"
    by (rule readLine_stands) (use assms(3) in simp_all)
  with that [of "''*-1''" rd' rd'] None show thesis by (simp add: exec_line_def is_minus_one_def)
next
  case (Some rs)
  have rs: "length rs = length argss" "length rs < 2 ^ 31" "\<forall>r \<in> set rs. ok_answer r"
    using assms(4) by (auto simp: Some replies_fit_def)
  have "stands rd n ((CHR ''*'' # show_nat (length rs)) @ crlf @ concat (List.map answer_text rs) @ [])"
    using assms(2) by (simp add: Some exec_text_def)
  then obtain rd' where 1: "readLine rd = Some (Inr (CHR ''*'' # show_nat (length rs)), rd')"
    "stands rd' n (concat (List.map answer_text rs) @ [])"
    by (rule readLine_stands [OF _ dollar_no_lf(2)])
      (rule le_trans [OF small_line(1) [OF rs(2)]], use assms(3) in simp)
  have "show_nat (length rs) \<noteq> ''-1''" using show_nat_digits [of "length rs"] by force
  moreover obtain rd'' where "parse_replies fl cmds None rd' = Some ((first_error rs, map2 answered rs cmds), rd'')" "stands rd'' n []"
    using replies_stand [OF rs(3) assms(3) rs(1) 1(2), of fl None] by (auto simp: cmds_def)
  ultimately show thesis
    using that [of _ rd' rd''] 1 Some by (simp add: exec_line_def is_minus_one_def exec_result_def)
qed

text \<open>
  C22. A transaction of untyped commands (NewCmd) ends as the server says, on the connection that the transaction holds after a Watch as on one
  that it takes from the pool now: MULTI, the commands and EXEC are written in one piece, and when the server has queued them all there are three
  outcomes. When a watched key has changed, every command and Exec itself have TxFailedErr. Else every command has its own answer, a value, nil or
  an error of the server, and Exec has the error of the first command that failed, or none when none did. No byte is left over and the transaction
  is closed. (The texts of errors fit the buffer of the reader, the values are no longer than 2^31 bytes, and no write fails.)
\<close>

theorem transaction_ends:
  fixes fl :: "'f floats" and argss
  defines "cmds \<equiv> List.map NewCmd argss :: 'f cmd list"
  assumes "\<not> SP_closed p" "single_Get (Some pl) (p, m) = Some (Inr cn, q, mq)" "argss \<noteq> []" "replies_fit res (length argss)"
    and "f (Some [NewStatusCmd [''MULTI'']], p, m) = Some (None, Some (NewStatusCmd [''MULTI''] # cmds), p, m)"
    and "answers (''+OK'' @ crlf @ queued_text (length argss) @ exec_text res) (M_conns mq cn)"
  shows "\<exists>m'. multi_Exec fl pl f (None, p, m) = Some (prod.swap (exec_result res cmds), None, q, m') \<and>
    answers [] (M_conns m' cn) \<and>
    N_out (M_conns m' cn) = N_out (M_conns mq cn) @ appendArgs [] [''MULTI''] @
      concat (List.map (appendArgs []) argss) @ appendArgs [] [''EXEC'']"
proof -
  let ?all = "NewStatusCmd [''MULTI''] # cmds @ [NewSliceCmd [''EXEC'']]" and ?cn = "M_conns mq cn"
  let ?c = "?cn\<lparr>N_out := N_out ?cn @ appendArgs [] [''MULTI''] @ concat (List.map (appendArgs []) argss) @ appendArgs [] [''EXEC'']\<rparr>"
  have held: "SP_cn q = Some cn" "\<not> SP_closed q"
    using assms(2,3) by (auto simp: single_Get_def inside_def split: option.splits)
  obtain n where cn: "\<not> N_closed ?cn" "N_writes ?cn = []" "4096 \<le> n"
    "stands (N_rd ?cn) n ((CHR ''+'' # ''OK'') @ crlf @ queued_text (length argss) @ exec_text res)"
    using assms(7) by (auto simp: answers_def)
  then have "32 \<le> n" by simp
  have w: "writeCmds ?all ?cn = (None, ?c)"
    using cn(1,2) unfolding writeCmds_def written_text
    by (simp add: conn_Write_def cmds_def NewStatusCmd_def NewSliceCmd_def base_cmd_def comp_def)
  obtain rd1 cmd1 where 1: "parse_StatusCmd (NewStatusCmd [] :: 'f cmd) (N_rd ?cn) = Some ((None, cmd1), rd1)"
    "stands rd1 n (queued_text (length argss) @ exec_text res)"
    by (rule status_line [OF cn(4), of "NewStatusCmd []"]) (use cn(3) in simp_all)
  obtain rd2 where 2: "queued_replies cmd1 (length argss) rd1 = Some (None, rd2)" "stands rd2 n (exec_text res)"
    using queued_stands [OF 1(2) \<open>32 \<le> n\<close>] by blast
  obtain line rd3 rd4 where 3: "readLine rd2 = Some (Inr line, rd3)" "stands rd4 n []"
    "res = None \<longrightarrow> exec_line line = Some (Some TxFailedErr) \<and> rd4 = rd3"
    "res \<noteq> None \<longrightarrow> exec_line line = Some None \<and> parse_replies fl cmds None rd3 = Some (exec_result res cmds, rd4)"
    using exec_stands [OF 2(2) cn(3) assms(5), of fl] unfolding cmds_def by blast
  have len: "length ?all - 1 = Suc (length argss)" by (simp add: cmds_def)
  have ex: "multi_execCmds fl ?all ?cn = Some (exec_result res cmds, ?c\<lparr>N_rd := rd4\<rparr>)"
    unfolding multi_execCmds_def Let_def w len using 1 2 3
    by (cases res) (simp_all add: exec_result_def)
  let ?m = "set_conn cn (?c\<lparr>N_rd := rd4\<rparr>) mq"
  have "fst (exec_result res cmds) = None \<or> (\<exists>t. fst (exec_result res cmds) = Some (RedisError t))"
    using first_error_kind by (cases res) (simp_all add: exec_result_def TxFailedErr_def)
  then have "putConn (singleConnPool (Some pl)) cn (fst (exec_result res cmds)) (q, ?m) = Some ((), q, ?m)"
    using held stands_buffered [OF 3(2)]
    by (auto simp: putConn_def singleConnPool_def single_Put_def)
  then have "multi_Exec fl pl f (None, p, m) = Some (prod.swap (exec_result res cmds), None, q, ?m)"
    using assms(3,4,6) ex
    by (cases "exec_result res cmds") (simp add: multi_Exec_def cmds_def)
  moreover have "answers [] (M_conns ?m cn)" using cn(1-3) 3(2) by (auto simp: answers_def)
  ultimately show ?thesis by (intro exI [of _ ?m]) simp
qed

text \<open>The server answers a transaction of PING and GET with a value and an error, on a connection taken from the pool.\<close>

definition mixed :: "answer list option" where
  "mixed = Some [Inr (VStr ''PONG''), Inl ''ERR'']"

definition mixed_source :: source where
  "mixed_source = [(''+OK'' @ crlf @ queued_text (length [[''PING''], [''GET'', ''k'']]) @ exec_text mixed, None)]"

theorem transaction_ends_witness:
  "\<exists>p1 m'. multi_Exec no_floats (conn_pool no_floats)
      (\<lambda>c. Some (None, Some (NewStatusCmd [''MULTI''] # List.map NewCmd [[''PING''], [''GET'', ''k'']]), snd c))
      (None, newSingleConnPool (fst (one_conn mixed_source [])) True, snd (one_conn mixed_source [])) =
      Some (([replied (VStr ''PONG'') (NewCmd [''PING'']), (NewCmd [''GET'', ''k''])\<lparr>Q_err := Some (RedisError ''ERR'')\<rparr>],
        Some (RedisError ''ERR'')), None, p1, m')"
proof -
  let ?p = "newSingleConnPool (fst (one_conn mixed_source [])) True" and ?m = "snd (one_conn mixed_source [])"
  obtain p1 where get: "single_Get (Some (conn_pool no_floats)) (?p, ?m) = Some (Inr 0, p1, ?m)"
    using next_free_get [of 0 "[]" "fst (one_conn mixed_source [])" ?m no_floats] one_conn_facts(2) [of mixed_source "[]"]
    by (auto simp: single_Get_def newSingleConnPool_def inside_def)
  have fit: "replies_fit mixed (length [[''PING''], [''GET'', ''k'']])"
    by (simp add: replies_fit_def mixed_def ok_answer_def)
  have shown: "prod.swap (exec_result mixed (List.map NewCmd [[''PING''], [''GET'', ''k'']]) :: redis_error option \<times> unit cmd list) =
      ([replied (VStr ''PONG'') (NewCmd [''PING'']), (NewCmd [''GET'', ''k''])\<lparr>Q_err := Some (RedisError ''ERR'')\<rparr>], Some (RedisError ''ERR''))"
    by (simp add: exec_result_def mixed_def first_error_def answer_error_def answered_def errorf_def NewCmd_def base_cmd_def sprintf0.simps)
  show ?thesis
    using transaction_ends [where fl = no_floats and p = ?p and pl = "conn_pool no_floats" and m = ?m and cn = 0 and q = p1 and mq = ?m
      and res = mixed and argss = "[[''PING''], [''GET'', ''k'']]" and f = "\<lambda>c. Some (None, Some (NewStatusCmd [''MULTI''] # List.map NewCmd [[''PING''], [''GET'', ''k'']]), snd c)"]
      get fit unfolding shown
    by (auto simp: newSingleConnPool_def mixed_source_def one_conn_facts fresh_answers)
qed

section \<open>The accounts\<close>

text \<open>
  C19. No connection is lost, shared or given out twice: whatever a command meets on its way, a
  dial that fails, a write that is cut, a reply that makes no sense, the pool is in order
  afterwards: the open connections are those in the hands of others and the free ones, each
  once, and they are at most as many as the pool may have.
\<close>

theorem process_keeps_accounts:
  assumes "pool_inv H S" "process_cmd fl opt cmd S = Some (cmd', S')" "\<not> P_closed (fst S')"
  shows "distinct (P_free (fst S')) \<and> set (P_free (fst S')) \<inter> H = {} \<and>
    set (P_free (fst S')) \<union> H = set (L_cns (P_conns (fst S'))) \<and>
    int (length (P_free (fst S')) + card H) \<le> getPoolSize (P_opt (fst S')) \<and>
    (\<forall>cn \<in> set (P_free (fst S')) \<union> H. \<not> N_closed (M_conns (snd S') cn))"
proof -
  have "pool_inv H S'" using assms(1,2) unfolding process_cmd_def by (rule shared.client_process_rest)
  with assms(3) show ?thesis by (cases S') (auto simp: pool_inv_def)
qed

definition no_server :: "connPool \<times> net" where
  "no_server =
     (\<lparr>P_rl = New_limiter 0 20 1000000000, P_opt = default_options, P_conns = \<lparr>L_cns = [], L_len = 0, L_size = 10\<rparr>,
        P_free = [], P_closed = False, P_lastDialErr = None\<rparr>,
      \<lparr>M_conns = (\<lambda>_. fresh_conn [] []), M_next = 0, M_dials = (\<lambda>_. (0, Inl (ConnError False))), M_now = 0, M_patience = 0\<rparr>)"

lemma refused:
  "\<exists>S'. process_cmd fl default_options cmd no_server = Some (setErr (Some (ReadError (ConnError False))) cmd, S') \<and>
     \<not> P_closed (fst S')"
proof -
  obtain rl where "Limit 0 (New_limiter 0 20 1000000000) = (False, rl)"
    using fresh_limiter_passes [of 20 0] by (cases "Limit 0 (New_limiter 0 20 1000000000)") auto
  then show ?thesis
    by (simp add: no_server_def process_cmd_def client_process_def default_options_def conn_pool_def Get_conn_def First_def
        Reserve_def new_def Let_def dial_conn_def net_dial_def list_Remove_def eval_nat_numeral)
qed

theorem process_keeps_accounts_witness:
  "\<exists>cmd' S'. process_cmd no_floats default_options (NewCmd [''PING'']) no_server = Some (cmd', S') \<and>
    distinct (P_free (fst S')) \<and> set (P_free (fst S')) \<inter> {} = {} \<and>
    set (P_free (fst S')) \<union> {} = set (L_cns (P_conns (fst S'))) \<and>
    int (length (P_free (fst S')) + card ({} :: nat set)) \<le> getPoolSize (P_opt (fst S')) \<and>
    (\<forall>cn \<in> set (P_free (fst S')) \<union> {}. \<not> N_closed (M_conns (snd S') cn))"
proof -
  obtain S' where S': "process_cmd no_floats default_options (NewCmd [''PING'']) no_server =
      Some (setErr (Some (ReadError (ConnError False))) (NewCmd [''PING'']), S')" "\<not> P_closed (fst S')"
    using refused by blast
  have "pool_inv {} no_server" by (simp add: no_server_def pool_inv_def getPoolSize_def default_options_def)
  from process_keeps_accounts [OF this S'] S'(1) show ?thesis by blast
qed

end
