(* ===== verification/RedisKinds.thy ===== *)
theory RedisKinds
  imports RedisRuns
begin

text \<open>
  The type of a command: a command is a value of one of the types of command.go, and whatever is
  done with it, it stays that. How a reply that is an error ends, for all types alike.
\<close>

definition kind_of :: "'f cmd_val \<Rightarrow> string \<times> int" where
  "kind_of v =
     (case v of
        AnyVal _ \<Rightarrow> (''Cmd'', 0)
      | SliceVal _ \<Rightarrow> (''SliceCmd'', 0)
      | StatusVal _ \<Rightarrow> (''StatusCmd'', 0)
      | IntVal _ \<Rightarrow> (''IntCmd'', 0)
      | DurationVal precision _ \<Rightarrow> (''DurationCmd'', precision)
      | BoolVal _ \<Rightarrow> (''BoolCmd'', 0)
      | StringVal _ \<Rightarrow> (''StringCmd'', 0)
      | FloatVal _ \<Rightarrow> (''FloatCmd'', 0)
      | StringSliceVal _ \<Rightarrow> (''StringSliceCmd'', 0)
      | BoolSliceVal _ \<Rightarrow> (''BoolSliceCmd'', 0)
      | StringStringMapVal _ \<Rightarrow> (''StringStringMapCmd'', 0)
      | StringIntMapVal _ \<Rightarrow> (''StringIntMapCmd'', 0)
      | ZSliceVal _ \<Rightarrow> (''ZSliceCmd'', 0)
      | ScanVal _ _ \<Rightarrow> (''ScanCmd'', 0)
      | ClusterSlotVal _ \<Rightarrow> (''ClusterSlotCmd'', 0))"

lemma kind_of_simps [simp]:
  "kind_of (AnyVal a) = (''Cmd'', 0)" "kind_of (SliceVal b) = (''SliceCmd'', 0)" "kind_of (StatusVal s) = (''StatusCmd'', 0)"
  "kind_of (IntVal i) = (''IntCmd'', 0)" "kind_of (DurationVal p i) = (''DurationCmd'', p)" "kind_of (BoolVal t) = (''BoolCmd'', 0)"
  "kind_of (StringVal s) = (''StringCmd'', 0)" "kind_of (FloatVal f) = (''FloatCmd'', 0)"
  "kind_of (StringSliceVal l) = (''StringSliceCmd'', 0)" "kind_of (BoolSliceVal bs) = (''BoolSliceCmd'', 0)"
  "kind_of (StringStringMapVal sm) = (''StringStringMapCmd'', 0)" "kind_of (StringIntMapVal im) = (''StringIntMapCmd'', 0)"
  "kind_of (ZSliceVal z) = (''ZSliceCmd'', 0)" "kind_of (ScanVal i l) = (''ScanCmd'', 0)"
  "kind_of (ClusterSlotVal infos) = (''ClusterSlotCmd'', 0)"
  by (simp_all add: kind_of_def)

text \<open>What does not change on the way of a command: its type, its arguments, its key, its timeouts.\<close>

definition same_cmd :: "'f cmd \<Rightarrow> 'f cmd \<Rightarrow> bool" where
  "same_cmd a b \<longleftrightarrow> Q_args b = Q_args a \<and> Q_clusterKeyPos b = Q_clusterKeyPos a \<and> Q_readTimeout b = Q_readTimeout a \<and>
     Q_writeTimeout b = Q_writeTimeout a \<and> kind_of (Q_val b) = kind_of (Q_val a)"

lemma same_cmd_refl [simp]: "same_cmd a a"
  by (simp add: same_cmd_def)

lemma same_cmd_trans: "same_cmd a b \<Longrightarrow> same_cmd b c \<Longrightarrow> same_cmd a c"
  by (simp add: same_cmd_def)

lemma kind_of_reset [simp]: "kind_of (reset_val fl v) = kind_of v"
  by (cases v) (simp_all add: reset_val_def)

lemma same_cmd_simps [simp]: "same_cmd cmd (reset fl cmd)" "same_cmd cmd (setErr e cmd)"
  by (simp_all add: same_cmd_def reset_def setErr_def)

lemma same_cmd_update [simp]:
  "same_cmd cmd (cmd\<lparr>Q_err := e\<rparr>)" "same_cmd cmd (cmd\<lparr>Q_val := v\<rparr>) \<longleftrightarrow> kind_of v = kind_of (Q_val cmd)"
  "same_cmd cmd (cmd\<lparr>Q_val := v, Q_err := e\<rparr>) \<longleftrightarrow> kind_of v = kind_of (Q_val cmd)"
  by (simp_all add: same_cmd_def)

lemma take_reply_kind:
  assumes "take_reply p assertion cmd rd = Some ((e, cmd'), rd')" "\<And>v x. assertion v = Some x \<Longrightarrow> kind_of x = kind_of (Q_val cmd)"
  shows "same_cmd cmd cmd'"
proof -
  obtain r rd1 where r: "parseReply p rd = Some (r, rd1)" using assms(1) by (auto simp: take_reply_def)
  with assms show ?thesis by (cases r) (auto simp: take_reply_def)
qed

lemma read_kinds:
  "parse_Cmd cmd rd = Some ((e, cmd'), rd') \<Longrightarrow> kind_of (Q_val cmd) = (''Cmd'', 0) \<Longrightarrow> same_cmd cmd cmd'"
  "parse_BoolCmd cmd rd = Some ((e, cmd'), rd') \<Longrightarrow> kind_of (Q_val cmd) = (''BoolCmd'', 0) \<Longrightarrow> same_cmd cmd cmd'"
  "parse_FloatCmd fl cmd rd = Some ((e, cmd'), rd') \<Longrightarrow> kind_of (Q_val cmd) = (''FloatCmd'', 0) \<Longrightarrow> same_cmd cmd cmd'"
  "parse_ScanCmd old cmd rd = Some ((e, cmd'), rd') \<Longrightarrow> kind_of (Q_val cmd) = (''ScanCmd'', 0) \<Longrightarrow> same_cmd cmd cmd'"
proof goal_cases
  case 1
  then obtain r rd1 where "parseReply (Some parseSlice) rd = Some (r, rd1)" by (auto simp: parse_Cmd_def)
  with 1 show ?case by (cases r) (auto simp: parse_Cmd_def)
next
  case 2
  then obtain r rd1 where "parseReply no_bulk rd = Some (r, rd1)" by (auto simp: parse_BoolCmd_def)
  with 2 show ?case by (cases r) (auto simp: parse_BoolCmd_def split: if_splits reply.splits)
next
  case 3
  then obtain r rd1 where "parseReply no_bulk rd = Some (r, rd1)" by (auto simp: parse_FloatCmd_def)
  with 3 show ?case by (cases r) (auto simp: parse_FloatCmd_def Let_def case_prod_beta)
next
  case 4
  then obtain r rd1 where "parseReply (Some parseSlice) rd = Some (r, rd1)" by (auto simp: parse_ScanCmd_def)
  note r = this
  show ?case
  proof (cases r)
    case (Inl x)
    with 4 r show ?thesis by (auto simp: parse_ScanCmd_def)
  next
    case (Inr v)
    with 4 r obtain vs where vs: "as_multi v = Some vs" by (cases "as_multi v") (auto simp: parse_ScanCmd_def)
    with 4 r Inr obtain x rest where x: "vs = x # rest" by (cases vs) (auto simp: parse_ScanCmd_def)
    with 4 r Inr vs obtain cursor where "x = VStr cursor" by (cases x) (auto simp: parse_ScanCmd_def)
    with x vs have v: "as_multi v = Some (VStr cursor # rest)" by simp
    show ?thesis
    proof (cases "parse_int64 cursor")
      case None
      with 4 r Inr v show ?thesis by (auto simp: parse_ScanCmd_def)
    next
      case (Some i)
      with 4 r Inr v obtain y rest' where y: "rest = y # rest'" by (cases rest) (auto simp: parse_ScanCmd_def)
      with 4 r Inr v Some obtain keys where "y = VSlice keys" by (cases y) (auto simp: parse_ScanCmd_def)
      with y 4 r Inr v Some show ?thesis by (auto simp: parse_ScanCmd_def)
    qed
  qed
qed

lemma cmd_parseReply_kind: "cmd_parseReply fl cmd rd = Some ((e, cmd'), rd') \<Longrightarrow> same_cmd cmd cmd'"
  by (cases "Q_val cmd")
    (auto simp: cmd_parseReply_def parse_SliceCmd_def parse_StatusCmd_def parse_IntCmd_def parse_DurationCmd_def
      parse_StringCmd_def parse_StringSliceCmd_def parse_BoolSliceCmd_def parse_StringStringMapCmd_def
      parse_StringIntMapCmd_def parse_ZSliceCmd_def parse_ClusterSlotCmd_def intro: read_kinds dest!: take_reply_kind)

lemma exchange_kind:
  assumes "exchange fl cmd cn = Some ((e, cmd'), cn')"
  shows "same_cmd cmd cmd'"
proof -
  obtain w k where w: "writeCmds [cmd] cn = (w, k)" by force
  with assms show ?thesis by (cases w) (auto simp: exchange_def dest: cmd_parseReply_kind)
qed

lemma process_loop_kind:
  "process_loop fl pl opt again n cmd S = Some (cmd', S') \<Longrightarrow> same_cmd cmd cmd'"
proof (induction n arbitrary: again cmd S)
  case (Suc n)
  let ?cmd = "if again then reset fl cmd else cmd"
  have c: "same_cmd cmd ?cmd" by simp
  from Suc.prems obtain r p m where g: "pool_Get pl S = Some (r, p, m)" by (auto simp: Let_def)
  show ?case
  proof (cases r)
    case (Inl e)
    with Suc.prems g have "cmd' = setErr (Some e) ?cmd" by (simp add: Let_def)
    then show ?thesis using same_cmd_trans [OF c] by simp
  next
    case (Inr cn)
    with Suc.prems g obtain e cmd1 k x S1 where
      x: "exchange fl ?cmd (set_timeouts opt ?cmd (M_conns m cn)) = Some ((e, cmd1), k)"
      and s: "(if shouldRetry e then process_loop fl pl opt True n cmd1 S1 else Some (cmd1, S1)) = Some (cmd', S')"
      by (auto simp: Let_def split: bind_splits)
    have "same_cmd cmd cmd1" using same_cmd_trans [OF c exchange_kind [OF x]] .
    with s show ?thesis by (cases "shouldRetry e") (auto dest: Suc.IH intro: same_cmd_trans)
  qed
qed simp

lemma client_process_kind: "client_process fl pl opt cmd S = Some (cmd', S') \<Longrightarrow> same_cmd cmd cmd'"
  unfolding client_process_def by (rule process_loop_kind)

section \<open>Pipelines\<close>

abbreviation same_cmds :: "'f cmd list \<Rightarrow> 'f cmd list \<Rightarrow> bool" where
  "same_cmds \<equiv> list_all2 same_cmd"

lemma same_cmds_refl [simp]: "same_cmds cmds cmds"
  by (simp add: list_all2_refl)

lemma same_cmds_trans: "same_cmds as bs \<Longrightarrow> same_cmds bs cs \<Longrightarrow> same_cmds as cs"
  by (rule list_all2_trans [of same_cmd same_cmd same_cmd]) (auto intro: same_cmd_trans)

lemma same_cmds_map: "(\<And>cmd. same_cmd cmd (f cmd)) \<Longrightarrow> same_cmds cmds (List.map f cmds)"
  by (simp add: list_all2_map2 list_all2_refl)

lemma parse_replies_kind:
  "parse_replies fl cmds first rd = Some ((e, cmds'), rd') \<Longrightarrow> same_cmds cmds cmds'"
proof (induction cmds arbitrary: first rd e cmds' rd')
  case (Cons cmd cmds)
  then obtain x cmd1 rd1 e1 cmds1 rd2 where "cmd_parseReply fl cmd rd = Some ((x, cmd1), rd1)"
    "parse_replies fl cmds (if x \<noteq> None \<and> first = None then x else first) rd1 = Some ((e1, cmds1), rd2)"
    "cmds' = cmd1 # cmds1"
    by (auto split: bind_splits)
  with Cons.IH cmd_parseReply_kind show ?case by fastforce
qed simp

lemma pipe_execCmds_kind:
  assumes "pipe_execCmds fl cmds cn = Some ((e, cmds'), cn')"
  shows "same_cmds cmds cmds'"
proof -
  obtain w k where w: "writeCmds cmds cn = (w, k)" by force
  with assms show ?thesis
    by (cases w) (auto simp: pipe_execCmds_def setCmdsErr_def intro: same_cmds_map dest: parse_replies_kind)
qed

lemma pipe_loop_kind:
  "pipe_loop fl pl again n retErr cmds S = Some ((cmds', e), S') \<Longrightarrow> same_cmds cmds cmds'"
proof (induction n arbitrary: again retErr cmds S)
  case (Suc n)
  let ?cmds = "if again then resetCmds fl cmds else cmds"
  have c: "same_cmds cmds ?cmds" by (simp add: resetCmds_def same_cmds_map)
  from Suc.prems obtain r p m where g: "pool_Get pl S = Some (r, p, m)" by (auto simp: Let_def)
  show ?case
  proof (cases r)
    case (Inl x)
    with Suc.prems g have "cmds' = setCmdsErr (Some x) ?cmds" by (auto simp: Let_def)
    then show ?thesis using same_cmds_trans [OF c] by (simp add: setCmdsErr_def same_cmds_map)
  next
    case (Inr cn)
    with Suc.prems g obtain x k where "pipe_execCmds fl ?cmds (M_conns m cn) = Some ((x, cmds'), k)"
      by (auto simp: Let_def shouldRetry_def split: bind_splits)
    then show ?thesis using same_cmds_trans [OF c pipe_execCmds_kind] by blast
  qed
qed simp

lemma pipe_Exec_kind:
  "pipe_Exec fl pl opt c S = Some (((cmds, e), c'), S') \<Longrightarrow> \<not> I_closed c \<Longrightarrow> same_cmds (I_cmds c) cmds"
  by (auto simp: pipe_Exec_def split: if_splits dest: pipe_loop_kind)

text \<open>
  A command keeps its type: whatever a single command or the commands of a pipeline meet, when
  they come back they are of the types they were made with, in their order, with a value of that type,
  and their arguments, keys and timeouts are untouched.
\<close>

lemma commands_keep_their_type:
  "(process_cmd fl opt cmd S = Some (cmd', S') \<longrightarrow> same_cmd cmd cmd') \<and>
   (pipe_Exec fl pl opt c P = Some (((cmds, e), c'), P') \<longrightarrow> \<not> I_closed c \<longrightarrow> list_all2 same_cmd (I_cmds c) cmds)"
  by (auto simp: process_cmd_def dest: client_process_kind pipe_Exec_kind)

section \<open>Replies that are errors\<close>

text \<open>An error of the server is kept and returned, and the command is else as it was, up to a reset.\<close>

lemma cmd_parseReply_error:
  assumes "readLine rd = Some (Inr (CHR ''-'' # txt), rd')" "errorf txt \<noteq> Nil_error"
  obtains cmd' where "cmd_parseReply fl cmd rd = Some ((Some (errorf txt), cmd'), rd')"
    "Q_err cmd' = Some (errorf txt)" "reset fl cmd' = reset fl cmd"
proof -
  have e: "parseReply p rd = Some (Inl (errorf txt), rd')" for p :: "'m bulk_parser option"
    using assms(1) by (simp add: parseReply_def)
  have "\<exists>cmd'. cmd_parseReply fl cmd rd = Some ((Some (errorf txt), cmd'), rd') \<and>
      Q_err cmd' = Some (errorf txt) \<and> reset fl cmd' = reset fl cmd"
    using assms(2)
    by (cases "Q_val cmd")
      (simp_all add: cmd_parseReply_def parse_Cmd_def parse_BoolCmd_def parse_FloatCmd_def parse_ScanCmd_def
        parse_SliceCmd_def parse_StatusCmd_def parse_IntCmd_def parse_DurationCmd_def parse_StringCmd_def
        parse_StringSliceCmd_def parse_BoolSliceCmd_def parse_StringStringMapCmd_def parse_StringIntMapCmd_def
        parse_ZSliceCmd_def parse_ClusterSlotCmd_def take_reply_def e reset_def reset_val_def)
  with that show thesis by blast
qed

end
