(* ===== verification/ClusterRuns.thy ===== *)
theory ClusterRuns
  imports RedisCluster RedisKinds
begin

text \<open>
  The cluster client at work: the table of the slots after a reload, a command whose slot has moved,
  and a pipeline that gives up.
\<close>

section \<open>The table of the slots\<close>

lemma set_from_spec:
  "set_from s e addrs slots =
     (if s \<le> e \<and> (s < 0 \<or> int (length slots) \<le> e) then None
      else Some (List.map (\<lambda>k. if s \<le> int k \<and> int k \<le> e then addrs else slots ! k) [0..<length slots]))"
proof (induction s e addrs slots rule: set_from.induct)
  case (1 s e addrs slots)
  show ?case
  proof (cases "s \<le> e \<and> 0 \<le> s \<and> s < int (length slots)")
    case True
    have "set_from s e addrs slots = set_from (s + 1) e addrs (slots[nat s := addrs])"
      using True by (subst set_from.simps) simp
    also have "\<dots> = (if s + 1 \<le> e \<and> (s + 1 < 0 \<or> int (length slots) \<le> e) then None
        else Some (List.map (\<lambda>k. if s + 1 \<le> int k \<and> int k \<le> e then addrs else slots[nat s := addrs] ! k) [0..<length slots]))"
      using 1 True by simp
    also have "\<dots> = (if s \<le> e \<and> (s < 0 \<or> int (length slots) \<le> e) then None
        else Some (List.map (\<lambda>k. if s \<le> int k \<and> int k \<le> e then addrs else slots ! k) [0..<length slots]))"
      using True by (auto simp: nth_list_update)
    finally show ?thesis .
  next
    case False
    then show ?thesis by (subst set_from.simps) (auto intro!: nth_equalityI)
  qed
qed

text \<open>The addresses of a slot by the last of the infos that has it.\<close>

definition owners :: "ClusterSlotInfo list \<Rightarrow> int \<Rightarrow> string list" where
  "owners infos slot =
     (case List.filter (\<lambda>info. Slot_Start info \<le> slot \<and> slot \<le> Slot_End info) (rev infos) of
        info # _ \<Rightarrow> Slot_Addrs info
      | [] \<Rightarrow> [])"

definition in_table :: "nat \<Rightarrow> ClusterSlotInfo \<Rightarrow> bool" where
  "in_table n info \<longleftrightarrow> Slot_Start info \<le> Slot_End info \<longrightarrow> 0 \<le> Slot_Start info \<and> Slot_End info < int n"

lemma set_add_addrs: "set (add_addrs known as) = set known \<union> set as"
  by (induction as arbitrary: known) auto

lemma distinct_add_addrs: "distinct known \<Longrightarrow> distinct (add_addrs known as)"
  by (induction as arbitrary: known) auto

lemma set_infos_spec:
  "set_infos infos (slots, addrs) =
     (if list_all (in_table (length slots)) infos
      then Some (List.map (\<lambda>k. case List.filter (\<lambda>info. Slot_Start info \<le> int k \<and> int k \<le> Slot_End info) (rev infos) of
          info # _ \<Rightarrow> Slot_Addrs info | [] \<Rightarrow> slots ! k) [0..<length slots],
        fold (\<lambda>info known. add_addrs known (Slot_Addrs info)) infos addrs)
      else None)"
proof (induction infos arbitrary: slots addrs)
  case Nil
  show ?case by (auto intro: nth_equalityI)
next
  case (Cons info infos)
  show ?case
  proof (cases "in_table (length slots) info")
    case True
    then have "\<not> (Slot_Start info \<le> Slot_End info \<and> (Slot_Start info < 0 \<or> int (length slots) \<le> Slot_End info))"
      by (auto simp: in_table_def)
    then show ?thesis using True
      by (auto simp: Cons.IH set_from_spec split: list.split intro!: nth_equalityI)
  next
    case False
    then show ?thesis by (auto simp: set_from_spec in_table_def)
  qed
qed

lemma fold_add_addrs:
  "set (fold (\<lambda>info known. add_addrs known (Slot_Addrs info)) infos known) =
     set known \<union> (\<Union>info \<in> set infos. set (Slot_Addrs info))"
  "distinct known \<Longrightarrow> distinct (fold (\<lambda>info known. add_addrs known (Slot_Addrs info)) infos known)"
  by (induction infos arbitrary: known) (auto simp: set_add_addrs distinct_add_addrs)

text \<open>
  After the slots are set, every slot has the addresses of the last info whose range has it, and
  none when there is no such info, whatever it had before; every address of an info is known and none
  is known twice. The only way not to get there is an info with a slot outside the table, and then the
  client panics. (The parser lets the slot 16384 through, which is one.)
\<close>

lemma slots_by_the_last_info:
  assumes "distinct (X_addrs c)"
  shows "(setSlots infos c = None \<longleftrightarrow> \<not> list_all (in_table (length (X_slots c))) infos) \<and>
    (\<forall>c'. setSlots infos c = Some c' \<longrightarrow>
       length (X_slots c') = length (X_slots c) \<and>
       (\<forall>k < length (X_slots c). X_slots c' ! k = owners infos (int k)) \<and>
       set (X_addrs c') = set (X_addrs c) \<union> (\<Union>info \<in> set infos. set (Slot_Addrs info)) \<and> distinct (X_addrs c'))"
proof (intro conjI allI impI)
  fix c' assume "setSlots infos c = Some c'"
  then have c': "c' = c\<lparr>X_slots := List.map (\<lambda>k. owners infos (int k)) [0..<length (X_slots c)],
      X_addrs := fold (\<lambda>info known. add_addrs known (Slot_Addrs info)) infos (X_addrs c)\<rparr>"
    by (auto simp: setSlots_def set_infos_spec owners_def split: if_splits list.splits)
  then show "length (X_slots c') = length (X_slots c)" "distinct (X_addrs c')"
    "set (X_addrs c') = set (X_addrs c) \<union> (\<Union>info \<in> set infos. set (Slot_Addrs info))"
    using assms by (simp_all add: fold_add_addrs)
  fix k assume "k < length (X_slots c)"
  with c' show "X_slots c' ! k = owners infos (int k)" by simp
qed (simp add: setSlots_def set_infos_spec)

section \<open>Redirections\<close>

text \<open>The text of the errors that redirect; the slot is a number.\<close>

definition redirection :: "string \<Rightarrow> string \<Rightarrow> string \<Rightarrow> string" where
  "redirection what slot addr = what @ '' '' @ slot @ '' '' @ addr"

definition redirects :: "string \<Rightarrow> string \<Rightarrow> bool" where
  "redirects slot addr \<longleftrightarrow> CHR '' '' \<notin> set slot \<and> CHR ''%'' \<notin> set slot \<union> set addr \<and>
     CHR 0x0A \<notin> set slot \<union> set addr \<and> addr \<noteq> [] \<and> length slot + length addr < 4000"

lemma first_field:
  "x \<notin> set xs \<Longrightarrow> takeWhile (\<lambda>c. c \<noteq> x) (xs @ x # ys) = xs"
  "x \<notin> set xs \<Longrightarrow> dropWhile (\<lambda>c. c \<noteq> x) (xs @ x # ys) = x # ys"
  by (induction xs) auto

lemma redirection_error:
  assumes "redirects slot addr" "what = ''MOVED'' \<or> what = ''ASK''"
  shows "errorf (redirection what slot addr) = RedisError (redirection what slot addr)"
    and "isMovedError (RedisError (redirection what slot addr)) = (what = ''MOVED'', what = ''ASK'', addr)"
proof -
  have "CHR ''%'' \<notin> set (redirection what slot addr)" using assms by (auto simp: redirects_def redirection_def)
  then show "errorf (redirection what slot addr) = RedisError (redirection what slot addr)"
    by (simp add: errorf_def sprintf0_plain)
  have "CHR '' '' \<notin> set what" "CHR '' '' \<notin> set slot" using assms by (auto simp: redirects_def)
  then have "split3 (redirection what slot addr) = Some (what, slot, addr)"
    by (simp add: split3_def redirection_def first_field)
  then show "isMovedError (RedisError (redirection what slot addr)) = (what = ''MOVED'', what = ''ASK'', addr)"
    using assms(2) by (auto simp: isMovedError_def)
qed

lemma takes_redirection:
  assumes "redirects slot addr" "what = ''MOVED'' \<or> what = ''ASK''"
  shows "takes fl ((CHR ''-'' # redirection what slot addr) @ crlf) cmd (Some (RedisError (redirection what slot addr)))
     (\<lambda>cmd'. Q_err cmd' = Some (RedisError (redirection what slot addr)) \<and> reset fl cmd' = reset fl cmd)"
  unfolding takes_def
proof (intro allI impI)
  let ?e = "RedisError (redirection what slot addr)"
  fix rd n rest assume "stands rd n (((CHR ''-'' # redirection what slot addr) @ crlf) @ rest)" and n: "4096 \<le> n"
  then have st: "stands rd n ((CHR ''-'' # redirection what slot addr) @ crlf @ rest)" by simp
  have "CHR 0x0A \<notin> set (CHR ''-'' # redirection what slot addr)"
    "length (CHR ''-'' # redirection what slot addr) + 2 \<le> n"
    using assms n by (auto simp: redirects_def redirection_def)
  from readLine_stands [OF st this] obtain rd' where
    rd': "readLine rd = Some (Inr (CHR ''-'' # redirection what slot addr), rd')" "stands rd' n rest" .
  have e: "errorf (redirection what slot addr) = ?e" using redirection_error [OF assms] by blast
  have "errorf (redirection what slot addr) \<noteq> Nil_error"
    unfolding e using assms(2) by (auto simp: Nil_error_def redirection_def)
  from cmd_parseReply_error [OF rd'(1) this, of fl cmd] obtain cmd' where
    "cmd_parseReply fl cmd rd = Some ((Some ?e, cmd'), rd')" "Q_err cmd' = Some ?e" "reset fl cmd' = reset fl cmd"
    unfolding e by blast
  with rd'(2) show "\<exists>cmd' rd'. cmd_parseReply fl cmd rd = Some ((Some ?e, cmd'), rd') \<and>
      (Q_err cmd' = Some ?e \<and> reset fl cmd' = reset fl cmd) \<and> stands rd' n rest"
    by blast
qed

lemma takes_bulk:
  assumes "length v < 2 ^ 31" "Q_val cmd = StringVal u" "Q_err cmd = None"
  shows "takes fl (bulk_text v) cmd None (\<lambda>cmd'. cmd' = cmd\<lparr>Q_val := StringVal v\<rparr>)"
  unfolding takes_def
proof (intro allI impI)
  fix rd n rest assume "stands rd n (bulk_text v @ rest)" "4096 \<le> (n :: nat)"
  then obtain rd' where "parseReply no_bulk rd = Some (Inr (StrReply v), rd')" "stands rd' n rest"
    using parseReply_bulk [of rd n v rest no_bulk] assms(1) by auto
  then show "\<exists>cmd' rd'. cmd_parseReply fl cmd rd = Some ((None, cmd'), rd') \<and>
      cmd' = cmd\<lparr>Q_val := StringVal v\<rparr> \<and> stands rd' n rest"
    using assms(2) by (simp add: cmd_parseReply_def parse_StringCmd_def take_reply_def as_string_def)
qed

section \<open>A command whose slot has moved\<close>

lemma getClient_open:
  "map_of (X_clients c) a = Some S \<Longrightarrow> a \<noteq> [] \<Longrightarrow> getClient fl a c = Some ((None, Some a), c)"
  by (simp add: getClient_def client_for.simps open_client_def)

lemma on_client_run:
  "map_of (X_clients c) a = Some S \<Longrightarrow> f S = Some (y, S') \<Longrightarrow>
     on_client a f c = Some (y, c\<lparr>X_clients := AList.update a S' (X_clients c)\<rparr>)"
  by (simp add: on_client_def)

text \<open>A node that is known, with a sound connection that comes next, on which \<open>s\<close> is the answer.\<close>

definition node_answers :: "ClusterClient \<Rightarrow> string \<Rightarrow> nat \<Rightarrow> connPool client_state \<Rightarrow> string \<Rightarrow> bool" where
  "node_answers c a x S s \<longleftrightarrow> a \<noteq> [] \<and> map_of (X_clients c) a = Some S \<and> pool_inv {} S \<and> (\<exists>free. next_free x free S) \<and>
     answers s (M_conns (snd S) x)"

text \<open>Afterwards its pool is in order and the connection has written more.\<close>

definition node_wrote :: "ClusterClient \<Rightarrow> string \<Rightarrow> nat \<Rightarrow> connPool client_state \<Rightarrow> string \<Rightarrow> bool" where
  "node_wrote c a x S out \<longleftrightarrow> (\<exists>S'. map_of (X_clients c) a = Some S' \<and> pool_inv {} S' \<and>
     N_out (M_conns (snd S') x) = N_out (M_conns (snd S) x) @ out)"

lemma attempt_answered:
  assumes "node_answers c a x S s" "takes fl s cmd e P" "e = None \<or> (\<exists>t. e = Some (RedisError t))"
  obtains cmd' S' where "attempt_on fl False a cmd c = Some (cmd', c\<lparr>X_clients := AList.update a S' (X_clients c)\<rparr>)" "P cmd'"
    "pool_inv {} S'" "N_out (M_conns (snd S') x) = N_out (M_conns (snd S) x) @ appendArgs [] (Q_args cmd)"
proof -
  let ?opt = "(clientOptions (X_opt c))\<lparr>O_Addr := a\<rparr>"
  from assms(1) obtain free where S: "map_of (X_clients c) a = Some S" "pool_inv {} S" "next_free x free S"
    "answers s (M_conns (snd S) x)" by (auto simp: node_answers_def)
  have "0 \<le> O_MaxRetries ?opt" by (simp add: clientOptions_def)
  from process_once [OF S(2-4) assms(2,3) this] obtain cmd' S' where r: "process_cmd fl ?opt cmd S = Some (cmd', S')"
    "P cmd'" "pool_inv {} S'" "N_out (M_conns (snd S') x) = N_out (M_conns (snd S) x) @ appendArgs [] (Q_args cmd)" .
  from that [OF _ r(2-4)] show thesis
    using on_client_run [where f = "client_cmd fl a c cmd", OF S(1)] r(1) by (simp add: attempt_on_def client_cmd_def)
qed

lemma master_of_key:
  "hash_tag (clusterKey cmd) \<noteq> [] \<Longrightarrow> slotAddrs (hashSlot 0 (clusterKey cmd)) c = Some (a # as) \<Longrightarrow> master_of cmd c = Some (a, c)"
  by (simp add: master_of_def slot_of_def)

text \<open>
  C37. A redirection is followed: when the master of the slot of a key answers that the slot has
  moved to another node, the GET is sent to that node and ends with the value that this node
  gives, both nodes got exactly the command, on connections that are back in pools in order, and the slots
  are going to be reloaded.
\<close>

theorem moved_command_followed:
  fixes fl :: "'f floats"
  assumes "hash_tag key \<noteq> []" "slotAddrs (hashSlot 0 key) c = Some (a # as)" "a \<noteq> b" "redirects slot b"
    and "node_answers c a x Sa ((CHR ''-'' # redirection ''MOVED'' slot b) @ crlf)"
    and "node_answers c b y Sb (bulk_text v)" "length v < 2 ^ 31" "1 \<le> getMaxRedirects (X_opt c)"
  shows "\<exists>(cmd :: 'f cmd) c'. Get (cluster_process fl) key c = Some (cmd, c') \<and> Q_val cmd = StringVal v \<and> Q_err cmd = None \<and>
    node_wrote c' a x Sa (appendArgs [] [''GET'', key]) \<and> node_wrote c' b y Sb (appendArgs [] [''GET'', key]) \<and>
    X_reloading c' \<and> X_reloads c' = (if X_reloading c then X_reloads c else X_reloads c + 1)"
proof -
  let ?cmd = "NewStringCmd [''GET'', key] :: 'f cmd" and ?e = "RedisError (redirection ''MOVED'' slot b)"
  have cmd: "clusterKey ?cmd = key" "Q_val ?cmd = StringVal []" "Q_args ?cmd = [''GET'', key]" "Q_err ?cmd = None"
    "reset fl ?cmd = ?cmd"
    by (simp_all add: NewStringCmd_def base_cmd_def clusterKey_def reset_def reset_val_def)
  have "nat (getMaxRedirects (X_opt c) + 1) = Suc (Suc (nat (getMaxRedirects (X_opt c) - 1)))" using assms(8) by arith
  then obtain n where n: "nat (getMaxRedirects (X_opt c) + 1) = Suc (Suc n)" ..
  have e: "?e \<noteq> Nil_error" "?e \<noteq> TxFailedErr" "\<not> isNetworkError ?e" "isMovedError ?e = (True, False, b)"
    using redirection_error(2) [OF assms(4), of "''MOVED''"]
    by (auto simp: Nil_error_def TxFailedErr_def redirection_def isNetworkError_def)
  obtain cmd1 S1 where 1: "attempt_on fl False a ?cmd c = Some (cmd1, c\<lparr>X_clients := AList.update a S1 (X_clients c)\<rparr>)"
    "Q_err cmd1 = Some ?e" "reset fl cmd1 = ?cmd" "pool_inv {} S1"
    "N_out (M_conns (snd S1) x) = N_out (M_conns (snd Sa) x) @ appendArgs [] [''GET'', key]"
    by (rule attempt_answered [OF assms(5) takes_redirection [OF assms(4), of "''MOVED''" fl ?cmd]])
      (blast, blast, elim conjE, rule that, assumption, simp_all add: cmd)
  define d where "d = lazyReloadSlots (c\<lparr>X_clients := AList.update a S1 (X_clients c)\<rparr>)"
  have d: "X_clients d = AList.update a S1 (X_clients c)" "X_reloading d"
    "X_reloads d = (if X_reloading c then X_reloads c else X_reloads c + 1)" by (simp_all add: d_def lazyReloadSlots_def)
  have nb: "node_answers d b y Sb (bulk_text v)"
    using assms(3,6) by (simp add: node_answers_def d(1) update_conv)
  obtain cmd2 S2 where 2: "attempt_on fl False b ?cmd d = Some (cmd2, d\<lparr>X_clients := AList.update b S2 (X_clients d)\<rparr>)"
    "cmd2 = ?cmd\<lparr>Q_val := StringVal v\<rparr>" "pool_inv {} S2"
    "N_out (M_conns (snd S2) y) = N_out (M_conns (snd Sb) y) @ appendArgs [] [''GET'', key]"
    by (rule attempt_answered [OF nb takes_bulk [OF assms(7) cmd(2,4), of fl]])
      (blast, rule that, assumption, simp_all add: cmd)
  have g: "getClient fl a c = Some ((None, Some a), c)" "getClient fl b d = Some ((None, Some b), d)"
    using assms(5) nb by (auto simp: node_answers_def getClient_open)
  have "cluster_process fl ?cmd c = Some (cmd2, d\<lparr>X_clients := AList.update b S2 (X_clients d)\<rparr>)"
  proof -
    have m: "master_of ?cmd c = Some (a, c)" using assms(1,2) by (intro master_of_key [where as = as]) (simp_all add: cmd(1))
    have "redirect_loop fl True (Suc n) False b cmd1 d = Some (cmd2, d\<lparr>X_clients := AList.update b S2 (X_clients d)\<rparr>)"
      using 2(1,2) 1(3) cmd(4) by (simp del: bind_Some_iff)
    then have "redirect_loop fl False (Suc (Suc n)) False a ?cmd c = Some (cmd2, d\<lparr>X_clients := AList.update b S2 (X_clients d)\<rparr>)"
      using 1(1,2) e g(2) by (simp add: d_def [symmetric] del: bind_Some_iff redirect_loop.simps(2) add: redirect_loop.simps(2) [of _ False])
    with m g(1) show ?thesis by (simp add: cluster_process_def n del: bind_Some_iff redirect_loop.simps)
  qed
  moreover have "node_wrote (d\<lparr>X_clients := AList.update b S2 (X_clients d)\<rparr>) a x Sa (appendArgs [] [''GET'', key])"
    unfolding node_wrote_def by (rule exI [of _ S1]) (use 1(4,5) assms(3) in \<open>simp add: d(1) update_conv\<close>)
  moreover have "node_wrote (d\<lparr>X_clients := AList.update b S2 (X_clients d)\<rparr>) b y Sb (appendArgs [] [''GET'', key])"
    unfolding node_wrote_def by (rule exI [of _ S2]) (use 2(3,4) in \<open>simp add: update_conv\<close>)
  ultimately show ?thesis using 2(2) d(2,3) cmd(4) by (auto simp: Get_def Process_def)
qed

section \<open>A pipeline that gives up\<close>

lemma group_cmds_one:
  "\<forall>cmd \<in> set cmds. master_of cmd c = Some (a, c) \<Longrightarrow>
     group_cmds i cmds [(a, js)] c = Some ([(a, js @ [i..<i + length cmds])], c)"
proof (induction cmds arbitrary: i js)
  case (Cons cmd cmds)
  then have "group_cmds (i + 1) cmds [(a, js @ [i])] c = Some ([(a, (js @ [i]) @ [i + 1..<i + 1 + length cmds])], c)" by simp
  moreover have "[i..<i + Suc (length cmds)] = i # [i + 1..<i + 1 + length cmds]" by (simp add: upt_conv_Cons del: upt_Suc)
  ultimately show ?case using Cons.prems by (simp add: append_at_def del: upt_Suc)
qed simp

lemma group_cmds_master:
  assumes "cmds \<noteq> []" "\<forall>cmd \<in> set cmds. master_of cmd c = Some (a, c)"
  shows "group_cmds 0 cmds [] c = Some ([(a, [0..<length cmds])], c)"
proof -
  obtain cmd rest where cmds: "cmds = cmd # rest" using assms(1) by (cases cmds) auto
  have "group_cmds 1 rest [(a, [0])] c = Some ([(a, [0] @ [1..<1 + length rest])], c)"
    using assms(2) by (intro group_cmds_one) (simp add: cmds)
  moreover have "[0..<Suc (length rest)] = 0 # [1..<1 + length rest]" by (simp add: upt_conv_Cons del: upt_Suc)
  ultimately show ?thesis using assms(2) by (simp add: cmds append_at_def del: upt_Suc)
qed

definition moved_text :: "string \<times> string \<Rightarrow> string" where
  "moved_text hop = (CHR ''-'' # redirection ''MOVED'' (fst hop) (snd hop)) @ crlf"

lemma exec_replies_moved:
  assumes "stands rd n (concat (List.map moved_text hops))" "4096 \<le> n" "\<forall>hop \<in> set hops. redirects (fst hop) (snd hop)"
    and "length hops = length js" "distinct js" "\<forall>j \<in> set js. j < length store"
  shows "\<exists>failed' reload' store' rd'. exec_replies fl js (failed, None, reload) store rd = Some ((failed', None, reload'), store', rd') \<and>
    stands rd' n [] \<and> length store' = length store \<and>
    (\<forall>k < length store. store' ! k = (if k \<in> set js then reset fl (store ! k) else store ! k))"
  using assms
proof (induction js arbitrary: hops rd store failed reload)
  case (Cons j js)
  then obtain hop hops' where h: "hops = hop # hops'" by (cases hops) auto
  let ?e = "RedisError (redirection ''MOVED'' (fst hop) (snd hop))"
  have r: "redirects (fst hop) (snd hop)" using Cons.prems(3) h by simp
  note takes = takes_redirection [OF r disjI1 [OF refl], of fl "store ! j", unfolded takes_def moved_text_def [symmetric]]
  obtain cmd rd1 where c: "cmd_parseReply fl (store ! j) rd = Some ((Some ?e, cmd), rd1)" "reset fl cmd = reset fl (store ! j)"
    "stands rd1 n (concat (List.map moved_text hops'))"
    using takes Cons.prems(1,2) unfolding h list.map concat.simps by blast
  have e: "\<not> isNetworkError ?e" "isMovedError ?e = (True, False, snd hop)"
    using redirection_error(2) [OF r, of "''MOVED''"] by (auto simp: isNetworkError_def)
  let ?store = "store[j := reset fl (store ! j)]" and ?failed = "append_at (snd hop) [j] failed"
  have "exec_replies fl (j # js) (failed, None, reload) store rd = exec_replies fl js (?failed, None, True) ?store rd1"
    using c(1,2) e by simp
  moreover have "\<forall>hop \<in> set hops'. redirects (fst hop) (snd hop)" "length hops' = length js" "distinct js"
    "\<forall>k \<in> set js. k < length ?store" using Cons.prems(3-6) h by auto
  from Cons.IH [OF c(3) Cons.prems(2) this, of ?failed True] obtain failed' reload' store' rd' where
    "exec_replies fl js (?failed, None, True) ?store rd1 = Some ((failed', None, reload'), store', rd')" "stands rd' n []"
    "length store' = length store" "\<forall>k < length store. store' ! k = (if k \<in> set js then reset fl (?store ! k) else ?store ! k)"
    by auto
  ultimately show ?case using Cons.prems(5,6) by (auto simp: nth_list_update)
qed (use assms in auto)

lemma exec_on_moved:
  fixes fl :: "'f floats"
  assumes "node_answers c a x S (concat (List.map moved_text hops))" "\<forall>hop \<in> set hops. redirects (fst hop) (snd hop)"
    and "length hops = length cmds"
  shows "\<exists>failed' reload' S'. exec_on fl [0..<length cmds] failed cmds S =
      Some (((failed', None, reload'), List.map (reset fl) cmds), S') \<and> pool_inv {} S' \<and>
    N_out (M_conns (snd S') x) = N_out (M_conns (snd S) x) @ concat (List.map (\<lambda>cmd. appendArgs [] (Q_args cmd)) cmds)"
proof -
  obtain p m free where S: "S = (p, m)" "pool_inv {} (p, m)" "next_free x free (p, m)" "answers (concat (List.map moved_text hops)) (M_conns m x)"
    using assms(1) by (cases S) (auto simp: node_answers_def)
  let ?cn = "M_conns m x"
  let ?k = "?cn\<lparr>N_out := N_out ?cn @ concat (List.map (\<lambda>cmd. appendArgs [] (Q_args cmd)) cmds)\<rparr>"
  obtain n where cn: "\<not> N_closed ?cn" "N_writes ?cn = []" "4096 \<le> n" "stands (N_rd ?cn) n (concat (List.map moved_text hops))"
    using S(4) by (auto simp: answers_def)
  have "writeCmds (List.map ((!) cmds) [0..<length cmds]) ?cn = (None, ?k)"
    using cn(1,2) unfolding map_nth writeCmds_def written_text by (simp add: conn_Write_def)
  moreover obtain failed' reload' store' rd' where
    "exec_replies fl [0..<length cmds] (failed, None, False) cmds (N_rd ?cn) = Some ((failed', None, reload'), store', rd')"
    "stands rd' n []" "length store' = length cmds" "\<forall>k < length cmds. store' ! k = reset fl (cmds ! k)"
    using exec_replies_moved [OF cn(4,3) assms(2), of "[0..<length cmds]" cmds fl failed False] assms(3) by auto
  moreover from this(3,4) have "store' = List.map (reset fl) cmds" by (auto intro: nth_equalityI)
  ultimately have run: "execClusterCmds fl [0..<length cmds] failed cmds ?cn =
      Some ((failed', None, reload'), List.map (reset fl) cmds, ?k\<lparr>N_rd := rd'\<rparr>)"
    and rd': "stands rd' n []"
    by (simp_all add: execClusterCmds_def)
  define k where "k = ?k\<lparr>N_rd := rd'\<rparr>"
  have k: "answers [] k" "N_out k = N_out ?k" "N_closed k = N_closed ?cn" using cn rd' by (auto simp: answers_def k_def)
  obtain p' m' where put: "putConn (conn_pool fl) x None (p\<lparr>P_free := free\<rparr>, set_conn x k m) = Some ((), p', m')"
    "N_out (M_conns m' x) = N_out k"
    by (rule put_back [OF S(2,3) k(1), of None fl]) blast+
  have "x \<notin> {} \<and> pool_inv (insert x {}) (p\<lparr>P_free := free\<rparr>, m)"
    using shared.Get_law [OF S(2) next_free_get [OF S(3), of fl]] by simp
  then have "x \<notin> {} \<and> pool_inv (insert x {}) (p\<lparr>P_free := free\<rparr>, set_conn x k m)"
    using k(3) by (rule shared.use_law)
  from shared.putConn_rest [OF this put(1)] have "pool_inv {} (p', m')" .
  moreover have "exec_on fl [0..<length cmds] failed cmds S = Some (((failed', None, reload'), List.map (reset fl) cmds), p', m')"
    using next_free_get [OF S(3), of fl] run put(1) by (simp add: exec_on_def S(1) k_def del: bind_Some_iff)
  ultimately show ?thesis using put(2) k(2) by (auto simp: S(1))
qed

text \<open>
  A pipeline can end without an error though none of its commands has run: when redirections
  are off (or used up) and the node answers every command with one, all of them are reset, so that
  neither the pipeline nor a command has an error, and each has the zero value of its type for a result.
\<close>

lemma pipeline_gives_up_in_silence:
  fixes fl :: "'f floats"
  assumes "cmds \<noteq> []" "\<forall>cmd \<in> set cmds. master_of cmd c = Some (a, c)"
    and "node_answers c a x S (concat (List.map moved_text hops))"
    and "length hops = length cmds" "\<forall>hop \<in> set hops. redirects (fst hop) (snd hop)"
    and "getMaxRedirects (X_opt c) = 0" "order 0 [a] = [a]"
  shows "\<exists>c'. cpipe_Exec fl order \<lparr>Y_cmds = cmds, Y_closed = False\<rparr> c =
      Some ((List.map (reset fl) cmds, None), \<lparr>Y_cmds = [], Y_closed = False\<rparr>, c') \<and>
    node_wrote c' a x S (concat (List.map (\<lambda>cmd. appendArgs [] (Q_args cmd)) cmds))"
proof -
  have c: "map_of (X_clients c) a = Some S" "a \<noteq> []" using assms(3) by (auto simp: node_answers_def)
  obtain failed reload S' where e: "exec_on fl [0..<length cmds] [] cmds S =
      Some (((failed, None, reload), List.map (reset fl) cmds), S')" "pool_inv {} S'"
    "N_out (M_conns (snd S') x) = N_out (M_conns (snd S) x) @ concat (List.map (\<lambda>cmd. appendArgs [] (Q_args cmd)) cmds)"
    using exec_on_moved [OF assms(3,5,4)] by blast
  let ?c = "c\<lparr>X_clients := AList.update a S' (X_clients c)\<rparr>"
  let ?c' = "if reload then lazyReloadSlots ?c else ?c"
  have "exec_addr fl a [0..<length cmds] ([], None) cmds c = Some ((failed, None), List.map (reset fl) cmds, ?c')"
    using getClient_open [OF c, of fl] on_client_run [where f = "exec_on fl [0..<length cmds] [] cmds", OF c(1) e(1)]
    by (simp add: exec_addr_def del: bind_Some_iff)
  then have "cpipe_Exec fl order \<lparr>Y_cmds = cmds, Y_closed = False\<rparr> c =
      Some ((List.map (reset fl) cmds, None), \<lparr>Y_cmds = [], Y_closed = False\<rparr>, ?c')"
    using assms(1,6,7) group_cmds_master [OF assms(1,2)] by (simp add: cpipe_Exec_def del: bind_Some_iff)
  moreover have "X_clients ?c' = AList.update a S' (X_clients c)" by (simp add: lazyReloadSlots_def)
  then have "node_wrote ?c' a x S (concat (List.map (\<lambda>cmd. appendArgs [] (Q_args cmd)) cmds))"
    unfolding node_wrote_def by (intro exI [of _ S']) (use e(2,3) in \<open>simp add: update_conv\<close>)
  ultimately show ?thesis by blast
qed

section \<open>Witnesses\<close>

definition sample_cluster :: "int \<Rightarrow> source \<Rightarrow> source \<Rightarrow> ClusterClient" where
  "sample_cluster redirects_max src_a src_b =
     \<lparr>X_addrs = [''a:1'', ''b:1''], X_slots = replicate 16384 [''a:1''],
       X_clients = [(''a:1'', one_conn src_a []), (''b:1'', one_conn src_b [])], X_closed = False,
       X_opt = \<lparr>OC_Addrs = [''a:1''], OC_MaxRedirects = redirects_max, OC_Password = [], OC_DialTimeout = 0,
         OC_ReadTimeout = 0, OC_WriteTimeout = 0, OC_PoolSize = 0, OC_PoolTimeout = 0, OC_IdleTimeout = 0\<rparr>,
       X_reloading = False, X_reloads = 0, X_net = (\<lambda>_. snd (one_conn [] [])), X_rand = (\<lambda>_. 0), X_draws = 0\<rparr>"

lemma sample_master: "hash_tag key \<noteq> [] \<Longrightarrow> slotAddrs (hashSlot 0 key) (sample_cluster r sa sb) = Some [''a:1'']"
  by (simp add: slotAddrs_def hashSlot_def RedisHash.hashSlots_def sample_cluster_def)

lemma sample_answers:
  assumes "calm src"
  shows "stream_of src = s \<Longrightarrow> node_answers (sample_cluster r src sb) ''a:1'' 0 (one_conn src []) s"
    and "stream_of src = s \<Longrightarrow> node_answers (sample_cluster r sa src) ''b:1'' 0 (one_conn src []) s"
  using assms one_conn_facts [of src "[]"] by (auto simp: node_answers_def sample_cluster_def fresh_answers)

definition sample_infos :: "ClusterSlotInfo list" where
  "sample_infos = [\<lparr>Slot_Start = 0, Slot_End = 100, Slot_Addrs = [''c:1'']\<rparr>, \<lparr>Slot_Start = 50, Slot_End = 60, Slot_Addrs = [''d:1'']\<rparr>]"

lemma sample_tags: "hash_tag ''foo'' = ''foo''" "hash_tag ''bar'' = ''bar''"
  by (simp_all add: hash_tag_def)

theorem moved_command_followed_witness:
  "\<exists>(cmd :: unit cmd) c'. Get (cluster_process no_floats) ''foo''
       (sample_cluster 0 [((CHR ''-'' # redirection ''MOVED'' ''12182'' ''b:1'') @ crlf, None)] [(bulk_text ''bar'', None)]) = Some (cmd, c') \<and>
     Q_val cmd = StringVal ''bar'' \<and> Q_err cmd = None \<and>
     node_wrote c' ''a:1'' 0 (one_conn [((CHR ''-'' # redirection ''MOVED'' ''12182'' ''b:1'') @ crlf, None)] [])
       (appendArgs [] [''GET'', ''foo'']) \<and>
     node_wrote c' ''b:1'' 0 (one_conn [(bulk_text ''bar'', None)] []) (appendArgs [] [''GET'', ''foo'']) \<and>
     X_reloading c' \<and> X_reloads c' = 1"
proof -
  let ?sa = "[((CHR ''-'' # redirection ''MOVED'' ''12182'' ''b:1'') @ crlf, None)]" and ?sb = "[(bulk_text ''bar'', None)]"
  let ?c = "sample_cluster 0 ?sa ?sb"
  have calm: "calm ?sa" "calm ?sb" by (simp_all add: bulk_text_def)
  have "\<exists>(cmd :: unit cmd) c'. Get (cluster_process no_floats) ''foo'' ?c = Some (cmd, c') \<and> Q_val cmd = StringVal ''bar'' \<and>
     Q_err cmd = None \<and> node_wrote c' ''a:1'' 0 (one_conn ?sa []) (appendArgs [] [''GET'', ''foo'']) \<and>
     node_wrote c' ''b:1'' 0 (one_conn ?sb []) (appendArgs [] [''GET'', ''foo'']) \<and>
     X_reloading c' \<and> X_reloads c' = (if X_reloading ?c then X_reloads ?c else X_reloads ?c + 1)"
  proof (rule moved_command_followed)
    show "hash_tag ''foo'' \<noteq> []" by (simp add: sample_tags)
    then show "slotAddrs (hashSlot 0 ''foo'') ?c = Some [''a:1'']" by (rule sample_master)
    show "node_answers ?c ''a:1'' 0 (one_conn ?sa []) ((CHR ''-'' # redirection ''MOVED'' ''12182'' ''b:1'') @ crlf)"
      by (rule sample_answers(1) [OF calm(1)]) (simp add: stream_of_def)
    show "node_answers ?c ''b:1'' 0 (one_conn ?sb []) (bulk_text ''bar'')"
      by (rule sample_answers(2) [OF calm(2)]) (simp add: stream_of_def)
  qed (simp_all add: redirects_def sample_cluster_def getMaxRedirects_def)
  then show ?thesis by (simp add: sample_cluster_def)
qed

end
