(* ===== verification/WsFrame.thy ===== *)
theory WsFrame
  imports BufioStream "HOL-Library.Word"
begin

unbundle bit_operations_syntax

text \<open>
  Frames of the websocket package (gorilla/websocket/conn.go): the constants, the errors, the mask
  and the numbers in a header, with what undoes what.
\<close>

section \<open>Constants\<close>

definition maxFrameHeaderSize :: nat where "maxFrameHeaderSize = 14"
definition maxControlFramePayloadSize :: nat where "maxControlFramePayloadSize = 125"
definition finalBit :: nat where "finalBit = 128"
definition maskBit :: nat where "maskBit = 128"
definition writeWait :: int where "writeWait = 1000000000"

definition continuationFrame :: int where "continuationFrame = 0"
definition noFrame :: int where "noFrame = - 1"
definition TextMessage :: int where "TextMessage = 1"
definition BinaryMessage :: int where "BinaryMessage = 2"
definition CloseMessage :: int where "CloseMessage = 8"
definition PingMessage :: int where "PingMessage = 9"
definition PongMessage :: int where "PongMessage = 10"

definition CloseProtocolError :: nat where "CloseProtocolError = 1002"
definition CloseNoStatusReceived :: nat where "CloseNoStatusReceived = 1005"
definition CloseAbnormalClosure :: nat where "CloseAbnormalClosure = 1006"
definition CloseMessageTooBig :: nat where "CloseMessageTooBig = 1009"

lemmas frame_types = continuationFrame_def noFrame_def TextMessage_def BinaryMessage_def CloseMessage_def
  PingMessage_def PongMessage_def

definition isControl :: "int \<Rightarrow> bool" where
  "isControl frameType \<longleftrightarrow> frameType = CloseMessage \<or> frameType = PingMessage \<or> frameType = PongMessage"

definition isData :: "int \<Rightarrow> bool" where
  "isData frameType \<longleftrightarrow> frameType = TextMessage \<or> frameType = BinaryMessage"

section \<open>Errors\<close>

datatype ws_error =
    IoError io_error
  | HiddenError io_error           \<comment> \<open>a netError made of a temporary one\<close>
  | CloseErr nat string            \<comment> \<open>CloseError: Code, Text\<close>
  | ErrCloseSent
  | ErrReadLimit
  | ErrWriteTimeout
  | ErrBadWriteOpCode
  | ErrWriteClosed
  | ErrInvalidControlFrame
  | ProtocolError string
  | InternalError string

definition errUnexpectedEOF :: ws_error where
  "errUnexpectedEOF = CloseErr CloseAbnormalClosure ''unexpected EOF''"

text \<open>Which errors of the network are temporary is a parameter.\<close>

definition hideTempErr :: "(io_error \<Rightarrow> bool) \<Rightarrow> ws_error option \<Rightarrow> ws_error option" where
  "hideTempErr temporary err =
     (case err of
        Some (IoError (ConnError timeout)) \<Rightarrow>
          if temporary (ConnError timeout) then Some (HiddenError (ConnError timeout)) else err
      | _ \<Rightarrow> err)"

section \<open>Numbers in network order\<close>

fun put_be :: "nat \<Rightarrow> nat \<Rightarrow> string" where
  "put_be 0 n = []"
| "put_be (Suc k) n = put_be k (n div 256) @ [chr (n mod 256)]"

definition get_be :: "string \<Rightarrow> nat" where
  "get_be s = foldl (\<lambda>a c. a * 256 + byte c) 0 s"

text \<open>\<open>int64(binary.BigEndian.Uint64(b))\<close>, which may be negative.\<close>

definition get_int64 :: "string \<Rightarrow> int" where
  "get_int64 b = sint (word_of_nat (get_be b) :: 64 word)"

lemma length_put_be [simp]: "length (put_be k n) = k"
  by (induction k n rule: put_be.induct) auto

lemma get_be_put_be: "n < 256 ^ k \<Longrightarrow> get_be (put_be k n) = n"
proof (induction k n rule: put_be.induct)
  case (2 k n)
  then have "n div 256 < 256 ^ k" by (simp add: less_mult_imp_div_less mult.commute)
  with 2 have "get_be (put_be k (n div 256)) = n div 256" by simp
  then show ?case by (simp add: get_be_def byte_def chr_def)
qed (simp add: get_be_def)

lemma get_int64_put_be:
  assumes "n < 2 ^ 63"
  shows "get_int64 (put_be 8 n) = int n"
proof -
  have "get_be (put_be 8 n) = n" using assms by (intro get_be_put_be) simp
  moreover have "sint (word_of_int (int n) :: 64 word) = int n"
    unfolding sint_sbintrunc' using assms by (intro signed_take_bit_int_eq_self) simp_all
  ultimately show ?thesis by (simp add: get_int64_def)
qed

definition FormatCloseMessage :: "nat \<Rightarrow> string \<Rightarrow> string" where
  "FormatCloseMessage closeCode txt = put_be 2 closeCode @ txt"

section \<open>The mask\<close>

definition xor_byte :: "char \<Rightarrow> char \<Rightarrow> char" where
  "xor_byte a b = chr (byte a XOR byte b)"

fun mask_from :: "string \<Rightarrow> nat \<Rightarrow> string \<Rightarrow> string" where
  "mask_from key pos [] = []"
| "mask_from key pos (c # cs) = xor_byte c (key ! (pos AND 3)) # mask_from key (pos + 1) cs"

definition maskBytes :: "string \<Rightarrow> nat \<Rightarrow> string \<Rightarrow> string \<times> nat" where
  "maskBytes key pos b = (mask_from key pos b, (pos + length b) AND 3)"

definition newMaskKey :: "32 word \<Rightarrow> string" where
  "newMaskKey n =
     [chr (unat n), chr (unat (drop_bit 8 n)), chr (unat (drop_bit 16 n)), chr (unat (drop_bit 24 n))]"

lemma byte_chr_mod: "byte (chr n) = n mod 256"
  by (simp add: byte_def chr_def)

lemma xor_byte_twice [simp]: "xor_byte (xor_byte a b) b = a"
proof -
  have "take_bit 8 (byte a XOR byte b) = byte a XOR byte b"
    by (simp add: take_bit_xor byte_def) (simp add: take_bit_eq_mod)
  then have "byte (chr (byte a XOR byte b)) = byte a XOR byte b"
    by (simp add: byte_chr_mod take_bit_eq_mod)
  then show ?thesis by (simp add: xor_byte_def xor.assoc)
qed

lemma length_mask_from [simp]: "length (mask_from key pos b) = length b"
  by (induction key pos b rule: mask_from.induct) auto

lemma mask_from_twice [simp]: "mask_from key pos (mask_from key pos b) = b"
  by (induction key pos b rule: mask_from.induct) auto

lemma mask_from_append: "mask_from key pos (a @ b) = mask_from key pos a @ mask_from key (pos + length a) b"
  by (induction key pos a rule: mask_from.induct) (auto simp: add.commute add.left_commute)

lemma mask_from_split:
  assumes "mask_from key pos p = bs @ w"
  obtains p1 p2 where "p = p1 @ p2" "length p1 = length bs" "bs = mask_from key pos p1" "w = mask_from key (pos + length bs) p2"
proof (rule that)
  have len: "length p = length bs + length w" using arg_cong [OF assms, of length] by simp
  then have n: "length (take (length bs) p) = length bs" by simp
  have "mask_from key pos p = mask_from key pos (take (length bs) p) @ mask_from key (pos + length bs) (drop (length bs) p)"
    using mask_from_append [of key pos "take (length bs) p" "drop (length bs) p"] n by simp
  with assms have eq: "bs @ w = mask_from key pos (take (length bs) p) @ mask_from key (pos + length bs) (drop (length bs) p)" by simp
  have "length bs = length (mask_from key pos (take (length bs) p))" using n by simp
  with eq show "bs = mask_from key pos (take (length bs) p)" "w = mask_from key (pos + length bs) (drop (length bs) p)"
    by (blast dest: append_eq_append_conv [THEN iffD1, rotated])+
  show "length (take (length bs) p) = length bs" by (rule n)
qed simp

lemma and_3: "n AND (3 :: nat) = n mod 4"
  using take_bit_eq_mask [of 2 n] by (simp add: mask_eq_exp_minus_1 take_bit_eq_mod)

lemma mask_from_mod: "mask_from key (pos AND 3) b = mask_from key pos b"
proof (induction b arbitrary: pos)
  case (Cons c b)
  have "((pos AND 3) + 1) AND 3 = (pos + 1) AND 3" by (simp add: and_3 mod_Suc_eq)
  then have "mask_from key ((pos AND 3) + 1) b = mask_from key (pos + 1) b"
    using Cons.IH [of "(pos AND 3) + 1"] Cons.IH [of "pos + 1"] by simp
  then show ?case by (simp add: and_3)
qed simp

lemma length_newMaskKey [simp]: "length (newMaskKey n) = 4"
  by (simp add: newMaskKey_def)

section \<open>The first two bytes\<close>

definition header0 :: "bool \<Rightarrow> int \<Rightarrow> char" where
  "header0 final frameType = chr (nat (frameType mod 256) OR (if final then finalBit else 0))"

definition known_type :: "int \<Rightarrow> bool" where
  "known_type t \<longleftrightarrow> t = continuationFrame \<or> isControl t \<or> isData t"

lemma known_typeE:
  assumes "known_type t"
  obtains "t = 0" | "t = 1" | "t = 2" | "t = 8" | "t = 9" | "t = 10"
  using assms by (auto simp: known_type_def isControl_def isData_def frame_types)

lemma header0_reads:
  assumes "known_type t"
  shows "int (byte (header0 final t) AND 0xF) = t" "drop_bit 4 (byte (header0 final t)) AND 7 = 0"
    "byte (header0 final t) AND finalBit \<noteq> 0 \<longleftrightarrow> final"
  using assms by (auto elim!: known_typeE simp: header0_def byte_chr_mod finalBit_def)

definition header1 :: "bool \<Rightarrow> nat \<Rightarrow> char" where
  "header1 masked l = chr ((if masked then maskBit else 0) OR l)"

lemma header1_reads:
  assumes "l < 128"
  shows "byte (header1 masked l) AND 0x7F = l" "byte (header1 masked l) AND maskBit \<noteq> 0 \<longleftrightarrow> masked"
proof -
  have l: "take_bit 7 l = l" "take_bit 8 l = l" using assms by (simp_all add: take_bit_nat_eq_self)
  have "byte (header1 masked l) = (if masked then 128 else 0) OR l"
    using l(2) by (simp add: header1_def byte_chr_mod maskBit_def flip: take_bit_eq_mod [of 8, simplified])
  moreover have "n AND 0x7F = take_bit 7 n" for n :: nat by (simp add: take_bit_eq_mask mask_eq_exp_minus_1)
  moreover have "n AND 128 \<noteq> 0 \<longleftrightarrow> bit n 7" for n :: nat using bit_iff_and_push_bit_not_eq_0 [of n 7] by simp
  moreover have "\<not> bit l 7" using bit_take_bit_iff [of 7 l 7] l(1) by simp
  ultimately show "byte (header1 masked l) AND 0x7F = l" "byte (header1 masked l) AND maskBit \<noteq> 0 \<longleftrightarrow> masked"
    using l(1) by (simp_all add: take_bit_or maskBit_def bit_or_iff bit_0)
qed

end
