(* ===== verification/WsConn.thy ===== *)
theory WsConn
  imports WsFrame
begin

text \<open>
  A websocket connection and its writing side (gorilla/websocket/conn.go): the frame buffer,
  flushFrame, the message writer and the control messages. The network connection is what it
  was sent, a script of what its writes return, and whether it is closed; random masks come from
  a sequence of 32 bit draws. The channel that guards a write is free, since one call runs after
  the other. An index out of range is \<open>None\<close>, and so is a loop that does not end.
\<close>

section \<open>The connection\<close>

record Conn =
  K_isServer :: bool
  K_closeSent :: bool
  K_writeErr :: "ws_error option"
  K_writeBuf :: string
  K_writePos :: nat
  K_writeFrameType :: int
  K_writeSeq :: nat
  K_readErr :: "ws_error option"
  K_br :: Reader
  K_readRemaining :: int
  K_readFinal :: bool
  K_readSeq :: nat
  K_readLength :: int
  K_readLimit :: int
  K_readMaskPos :: nat
  K_readMaskKey :: string
  K_sent :: string                                  \<comment> \<open>what the network was given\<close>
  K_writes :: "(nat \<times> io_error) option list"
  K_netClosed :: bool
  K_rand :: "nat \<Rightarrow> 32 word"
  K_draws :: nat
  K_now :: int
  K_subprotocol :: string

definition defaultReadBufferSize :: int where "defaultReadBufferSize = 4096"
definition defaultWriteBufferSize :: int where "defaultWriteBufferSize = 4096"

text \<open>A buffer of a negative length panics.\<close>

definition newConn ::
    "source \<Rightarrow> (nat \<times> io_error) option list \<Rightarrow> (nat \<Rightarrow> 32 word) \<Rightarrow> int \<Rightarrow> bool \<Rightarrow> int \<Rightarrow> int \<Rightarrow> Conn option" where
  "newConn src writes rnd now isServer readBufferSize writeBufferSize =
     (let rs = (if readBufferSize = 0 then defaultReadBufferSize else readBufferSize);
          ws = (if writeBufferSize = 0 then defaultWriteBufferSize else writeBufferSize)
      in if ws + int maxFrameHeaderSize < 0 then None
         else Some \<lparr>K_isServer = isServer, K_closeSent = False, K_writeErr = None,
           K_writeBuf = replicate (nat (ws + int maxFrameHeaderSize)) (CHR 0x00), K_writePos = maxFrameHeaderSize,
           K_writeFrameType = noFrame, K_writeSeq = 0, K_readErr = None, K_br = NewReaderSize src rs,
           K_readRemaining = 0, K_readFinal = True, K_readSeq = 0, K_readLength = 0, K_readLimit = 0,
           K_readMaskPos = 0, K_readMaskKey = replicate 4 (CHR 0x00), K_sent = [], K_writes = writes,
           K_netClosed = False, K_rand = rnd, K_draws = 0, K_now = now, K_subprotocol = []\<rparr>)"

section \<open>The network\<close>

definition net_write :: "string \<Rightarrow> Conn \<Rightarrow> (nat \<times> io_error option) \<times> Conn" where
  "net_write b c =
     (if K_netClosed c then ((0, Some (ConnError False)), c)
      else case K_writes c of
        [] \<Rightarrow> ((length b, None), c\<lparr>K_sent := K_sent c @ b\<rparr>)
      | None # ws \<Rightarrow> ((length b, None), c\<lparr>K_sent := K_sent c @ b, K_writes := ws\<rparr>)
      | Some (k, e) # ws \<Rightarrow> ((min k (length b), Some e), c\<lparr>K_sent := K_sent c @ take k b, K_writes := ws\<rparr>))"

text \<open>After Close the reader has what it had read, and the network gives errors.\<close>

definition net_close :: "Conn \<Rightarrow> io_error option \<times> Conn" where
  "net_close c =
     (if K_netClosed c then (Some (ConnError False), c)
      else (None, c\<lparr>K_netClosed := True, K_br := (K_br c)\<lparr>R_src := [([], Some (ConnError False))]\<rparr>\<rparr>))"

definition Close :: "Conn \<Rightarrow> ws_error option \<times> Conn" where
  "Close c = (case net_close c of (e, c) \<Rightarrow> (map_option IoError e, c))"

definition draw_key :: "Conn \<Rightarrow> string \<times> Conn" where
  "draw_key c = (newMaskKey (K_rand c (K_draws c)), c\<lparr>K_draws := K_draws c + 1\<rparr>)"

section \<open>Frames out\<close>

fun write_bufs :: "string list \<Rightarrow> Conn \<Rightarrow> ws_error option \<times> Conn" where
  "write_bufs [] c = (None, c)"
| "write_bufs (buf # bufs) c =
     (if buf = [] then write_bufs bufs c
      else case net_write buf c of ((n, err), c) \<Rightarrow>
        let c = (if n \<noteq> length buf then snd (net_close c) else c)
        in case err of Some e \<Rightarrow> (Some (IoError e), c) | None \<Rightarrow> write_bufs bufs c)"

definition conn_write :: "int \<Rightarrow> string list \<Rightarrow> Conn \<Rightarrow> ws_error option \<times> Conn" where
  "conn_write frameType bufs c =
     (if K_closeSent c then (Some ErrCloseSent, c)
      else write_bufs bufs (if frameType = CloseMessage then c\<lparr>K_closeSent := True\<rparr> else c))"

text \<open>No deadline is \<open>None\<close>.\<close>

definition WriteControl :: "int \<Rightarrow> string \<Rightarrow> int option \<Rightarrow> Conn \<Rightarrow> ws_error option \<times> Conn" where
  "WriteControl messageType data deadline c =
     (if \<not> isControl messageType then (Some ErrBadWriteOpCode, c)
      else if length data > maxControlFramePayloadSize then (Some ErrInvalidControlFrame, c)
      else
        let head = [header0 True messageType, header1 (\<not> K_isServer c) (length data)];
            (buf, c) = (if K_isServer c then (head @ data, c)
              else case draw_key c of (key, c) \<Rightarrow> (head @ key @ fst (maskBytes key 0 data), c))
        in if (case deadline of None \<Rightarrow> False | Some d \<Rightarrow> d - K_now c < 0) then (Some ErrWriteTimeout, c)
        else if K_closeSent c then (Some ErrCloseSent, c)
        else
          let c = (if messageType = CloseMessage then c\<lparr>K_closeSent := True\<rparr> else c)
          in case net_write buf c of ((n, err), c) \<Rightarrow>
            (map_option IoError err, if n \<noteq> 0 \<and> n \<noteq> length buf then snd (net_close c) else c))"

definition length_header :: "bool \<Rightarrow> int \<Rightarrow> bool \<Rightarrow> nat \<Rightarrow> string" where
  "length_header final frameType masked l =
     (if l \<ge> 65536 then header0 final frameType # header1 masked 127 # put_be 8 l
      else if l > 125 then header0 final frameType # header1 masked 126 # put_be 2 l
      else [header0 final frameType, header1 masked l])"

text \<open>The header ends where the payload begins, before it the key when there is one.\<close>

definition frame_pos :: "bool \<Rightarrow> nat \<Rightarrow> nat" where
  "frame_pos isServer l = (if isServer then 4 else 0) + (if l \<ge> 65536 then 0 else if l > 125 then 6 else 8)"

definition flushFrame :: "bool \<Rightarrow> string \<Rightarrow> Conn \<Rightarrow> (ws_error option \<times> Conn) option" where
  "flushFrame final extra c =
     (let l = K_writePos c - maxFrameHeaderSize + length extra
      in if isControl (K_writeFrameType c) \<and> (\<not> final \<or> l > maxControlFramePayloadSize)
         then Some (Some ErrInvalidControlFrame,
           c\<lparr>K_writeSeq := K_writeSeq c + 1, K_writeFrameType := noFrame, K_writePos := maxFrameHeaderSize\<rparr>)
         else if length (K_writeBuf c) < maxFrameHeaderSize then None
         else
           let head = length_header final (K_writeFrameType c) (\<not> K_isServer c) l;
               framePos = frame_pos (K_isServer c) l;
               c = c\<lparr>K_writeBuf := overwrite framePos head (K_writeBuf c)\<rparr>;
               c = (if K_isServer c then c
                 else case draw_key c of (key, c) \<Rightarrow>
                   let buf = overwrite (maxFrameHeaderSize - 4) key (K_writeBuf c);
                       payload = drop maxFrameHeaderSize (take (K_writePos c) buf)
                   in c\<lparr>K_writeBuf := overwrite maxFrameHeaderSize (fst (maskBytes key 0 payload)) buf\<rparr>)
           in if \<not> K_isServer c \<and> extra \<noteq> []
              then let e = Some (InternalError ''extra used in client mode'') in Some (e, c\<lparr>K_writeErr := e\<rparr>)
              else case conn_write (K_writeFrameType c) [drop framePos (take (K_writePos c) (K_writeBuf c)), extra] c of
                (err, c) \<Rightarrow>
                  Some (err, c\<lparr>K_writeErr := err, K_writePos := maxFrameHeaderSize,
                    K_writeFrameType := (if final then noFrame else continuationFrame),
                    K_writeSeq := (if final then K_writeSeq c + 1 else K_writeSeq c)\<rparr>))"

section \<open>Messages out\<close>

text \<open>A writer is the sequence number it was made with.\<close>

definition NextWriter :: "int \<Rightarrow> Conn \<Rightarrow> ((ws_error + nat) \<times> Conn) option" where
  "NextWriter messageType c =
     (case K_writeErr c of
        Some e \<Rightarrow> Some (Inl e, c)
      | None \<Rightarrow> do {
          (err, c) \<leftarrow> (if K_writeFrameType c \<noteq> noFrame then flushFrame True [] c else Some (None, c));
          Some (case err of
              Some e \<Rightarrow> (Inl e, c)
            | None \<Rightarrow>
                if \<not> isControl messageType \<and> \<not> isData messageType then (Inl ErrBadWriteOpCode, c)
                else (Inr (K_writeSeq c), c\<lparr>K_writeFrameType := messageType\<rparr>))
        })"

definition writer_err :: "nat \<Rightarrow> Conn \<Rightarrow> ws_error option" where
  "writer_err w c = (if K_writeSeq c \<noteq> w then Some ErrWriteClosed else K_writeErr c)"

definition ncopy :: "nat \<Rightarrow> Conn \<Rightarrow> ((ws_error + nat) \<times> Conn) option" where
  "ncopy mx c =
     (if K_writePos c < length (K_writeBuf c)
      then Some (Inr (min mx (length (K_writeBuf c) - K_writePos c)), c)
      else do {
        (err, c) \<leftarrow> flushFrame False [] c;
        Some (case err of
            Some e \<Rightarrow> (Inl e, c)
          | None \<Rightarrow> (Inr (min mx (length (K_writeBuf c) - K_writePos c)), c))
      })"

text \<open>Bytes go to the buffer, a full buffer becomes a frame.\<close>

partial_function (option) write_loop :: "string \<Rightarrow> Conn \<Rightarrow> (ws_error option \<times> Conn) option" where
  [code]: "write_loop p c =
     (if p = [] then Some (None, c)
      else Option.bind (ncopy (length p) c) (\<lambda>(r, c).
        case r of
          Inl e \<Rightarrow> Some (Some e, c)
        | Inr n \<Rightarrow> write_loop (drop n p)
            (c\<lparr>K_writeBuf := overwrite (K_writePos c) (take n p) (K_writeBuf c), K_writePos := K_writePos c + n\<rparr>)))"

text \<open>How many bytes were written is the length, unless there is an error.\<close>

definition writer_write :: "nat \<Rightarrow> bool \<Rightarrow> string \<Rightarrow> Conn \<Rightarrow> (ws_error option \<times> Conn) option" where
  "writer_write w final p c =
     (case writer_err w c of
        Some e \<Rightarrow> Some (Some e, c)
      | None \<Rightarrow>
          if length p > 2 * length (K_writeBuf c) \<and> K_isServer c then flushFrame final p c else write_loop p c)"

definition Write :: "nat \<Rightarrow> string \<Rightarrow> Conn \<Rightarrow> (ws_error option \<times> Conn) option" where
  "Write w p c = writer_write w False p c"

definition WriteString :: "nat \<Rightarrow> string \<Rightarrow> Conn \<Rightarrow> (ws_error option \<times> Conn) option" where
  "WriteString w p c = (case writer_err w c of Some e \<Rightarrow> Some (Some e, c) | None \<Rightarrow> write_loop p c)"

text \<open>From a reader: what it delivers goes straight to the buffer.\<close>

partial_function (option) ReadFrom_loop :: "nat \<Rightarrow> source \<Rightarrow> Conn \<Rightarrow> ((nat \<times> ws_error option) \<times> source \<times> Conn) option" where
  [code]: "ReadFrom_loop nn r c =
     Option.bind (if K_writePos c = length (K_writeBuf c) then flushFrame False [] c else Some (None, c)) (\<lambda>(err, c).
       case err of
         Some e \<Rightarrow> Some ((nn, Some e), r, c)
       | None \<Rightarrow>
           (case src_read (length (K_writeBuf c) - K_writePos c) r of ((bs, e), r) \<Rightarrow>
              let c = c\<lparr>K_writeBuf := overwrite (K_writePos c) bs (K_writeBuf c), K_writePos := K_writePos c + length bs\<rparr>
              in case e of
                None \<Rightarrow> ReadFrom_loop (nn + length bs) r c
              | Some e \<Rightarrow> Some ((nn + length bs, if e = EOF then None else Some (IoError e)), r, c)))"

definition ReadFrom :: "nat \<Rightarrow> source \<Rightarrow> Conn \<Rightarrow> ((nat \<times> ws_error option) \<times> source \<times> Conn) option" where
  "ReadFrom w r c = (case writer_err w c of Some e \<Rightarrow> Some ((0, Some e), r, c) | None \<Rightarrow> ReadFrom_loop 0 r c)"

definition writer_Close :: "nat \<Rightarrow> Conn \<Rightarrow> (ws_error option \<times> Conn) option" where
  "writer_Close w c = (case writer_err w c of Some e \<Rightarrow> Some (Some e, c) | None \<Rightarrow> flushFrame True [] c)"

definition WriteMessage :: "int \<Rightarrow> string \<Rightarrow> Conn \<Rightarrow> (ws_error option \<times> Conn) option" where
  "WriteMessage messageType data c = do {
     (r, c) \<leftarrow> NextWriter messageType c;
     (case r of
        Inl e \<Rightarrow> Some (Some e, c)
      | Inr w \<Rightarrow> do {
          (err, c) \<leftarrow> writer_write w True data c;
          (case err of
             Some e \<Rightarrow> Some (Some e, c)
           | None \<Rightarrow> if K_writeSeq c = w then flushFrame True [] c else Some (None, c))
        })
   }"

definition SetReadLimit :: "int \<Rightarrow> Conn \<Rightarrow> Conn" where
  "SetReadLimit limit c = c\<lparr>K_readLimit := limit\<rparr>"

text \<open>The encoding of the value is a parameter: the text that json gives, with its line end, or an error.\<close>

definition WriteJSON :: "ws_error + string \<Rightarrow> Conn \<Rightarrow> (ws_error option \<times> Conn) option" where
  "WriteJSON v c = do {
     (r, c) \<leftarrow> NextWriter TextMessage c;
     (case r of
        Inl e \<Rightarrow> Some (Some e, c)
      | Inr w \<Rightarrow> do {
          (err1, c) \<leftarrow> (case v of Inl e \<Rightarrow> Some (Some e, c) | Inr txt \<Rightarrow> Write w txt c);
          (err2, c) \<leftarrow> writer_Close w c;
          Some (if err1 \<noteq> None then err1 else err2, c)
        })
   }"

end
