(* ===== verification/WsRead.thy ===== *)
theory WsRead
  imports WsConn "HOL-Library.Monad_Syntax"
begin

text \<open>
  The reading side of a websocket connection (gorilla/websocket/conn.go): advanceFrame step by
  step, NextReader, the message reader and ReadMessage. The Reader of the standard library's bufio
  is the one of \<open>Bufio\<close>, whose vendored package is a copy of it with operations added. What is
  done with a ping or a pong, and which errors are temporary, is a parameter.
\<close>

record ws_env =
  H_temporary :: "io_error \<Rightarrow> bool"
  H_ping :: "string \<Rightarrow> Conn \<Rightarrow> ws_error option \<times> Conn"
  H_pong :: "string \<Rightarrow> Conn \<Rightarrow> ws_error option \<times> Conn"

text \<open>The handlers of a connection for which none were set.\<close>

definition default_ping :: "string \<Rightarrow> Conn \<Rightarrow> ws_error option \<times> Conn" where
  "default_ping message c = (None, snd (WriteControl PongMessage message (Some (K_now c + writeWait)) c))"

definition default_pong :: "string \<Rightarrow> Conn \<Rightarrow> ws_error option \<times> Conn" where
  "default_pong message c = (None, c)"

definition default_env :: "(io_error \<Rightarrow> bool) \<Rightarrow> ws_env" where
  "default_env temporary = \<lparr>H_temporary = temporary, H_ping = default_ping, H_pong = default_pong\<rparr>"

section \<open>Steps that may fail\<close>

type_synonym 'a ws_step = "Conn \<Rightarrow> ((ws_error + 'a) \<times> Conn) option"

definition steps :: "'a ws_step \<Rightarrow> ('a \<Rightarrow> 'b ws_step) \<Rightarrow> 'b ws_step" where
  "steps f g c = do { (r, c) \<leftarrow> f c; (case r of Inl e \<Rightarrow> Some (Inl e, c) | Inr x \<Rightarrow> g x c) }"

lemma steps_simps [simp]:
  "f c = Some (Inr x, c') \<Longrightarrow> steps f g c = g x c'"
  "f c = Some (Inl e, c') \<Longrightarrow> steps f g c = Some (Inl e, c')"
  "f c = None \<Longrightarrow> steps f g c = None"
  by (simp_all add: steps_def)

partial_function (option) readFull_loop :: "nat \<Rightarrow> string \<Rightarrow> Reader \<Rightarrow> ((string \<times> io_error option) \<times> Reader) option" where
  [code]: "readFull_loop k got br =
     (if k = 0 then Some ((got, None), br)
      else Option.bind (Read k br) (\<lambda>((bs, e), br).
        if e = None then readFull_loop (k - length bs) (got @ bs) br else Some ((got @ bs, e), br)))"

text \<open>An end in the middle is unexpected.\<close>

definition readFull :: "nat \<Rightarrow> string ws_step" where
  "readFull k c =
     map_option (\<lambda>((bs, e), br).
       (if length bs = k then Inr bs
        else Inl (case e of Some e \<Rightarrow> if e = EOF then errUnexpectedEOF else IoError e | None \<Rightarrow> errUnexpectedEOF),
        c\<lparr>K_br := br\<rparr>))
     (readFull_loop k [] (K_br c))"

text \<open>\<open>io.CopyN(ioutil.Discard, r, n)\<close>, in blocks of 8192 bytes.\<close>

partial_function (option) discard :: "nat \<Rightarrow> Reader \<Rightarrow> (io_error option \<times> Reader) option" where
  [code]: "discard n br =
     (if n = 0 then Some (None, br)
      else Option.bind (Read (min 8192 n) br) (\<lambda>((bs, e), br).
        if e = None then discard (n - length bs) br
        else Some (if length bs = n then None else e, br)))"

section \<open>advanceFrame\<close>

definition skip_rest :: "unit ws_step" where
  "skip_rest c =
     (if K_readRemaining c > 0
      then map_option (\<lambda>(e, br). (case e of Some e \<Rightarrow> Inl (IoError e) | None \<Rightarrow> Inr (), c\<lparr>K_br := br\<rparr>))
        (discard (nat (K_readRemaining c)) (K_br c))
      else Some (Inr (), c))"

definition handleProtocolError :: "string \<Rightarrow> 'a ws_step" where
  "handleProtocolError message c =
     Some (Inl (ProtocolError message),
       snd (WriteControl CloseMessage (FormatCloseMessage CloseProtocolError message) (Some (K_now c + writeWait)) c))"

definition check_header :: "bool \<Rightarrow> int \<Rightarrow> nat \<Rightarrow> unit ws_step" where
  "check_header final frameType reserved c =
     (if reserved \<noteq> 0 then handleProtocolError (''unexpected reserved bits '' @ show_nat reserved) c
      else if isControl frameType then
        if K_readRemaining c > int maxControlFramePayloadSize then handleProtocolError ''control frame length > 125'' c
        else if \<not> final then handleProtocolError ''control frame not final'' c
        else Some (Inr (), c)
      else if isData frameType then
        if \<not> K_readFinal c then handleProtocolError ''message start before final message frame'' c
        else Some (Inr (), c\<lparr>K_readFinal := final\<rparr>)
      else if frameType = continuationFrame then
        if K_readFinal c then handleProtocolError ''continuation after final message frame'' c
        else Some (Inr (), c\<lparr>K_readFinal := final\<rparr>)
      else handleProtocolError (''unknown opcode '' @ show_int frameType) c)"

definition read_length :: "unit ws_step" where
  "read_length c =
     (if K_readRemaining c = 126
      then steps (readFull 2) (\<lambda>b c. Some (Inr (), c\<lparr>K_readRemaining := int (get_be b)\<rparr>)) c
      else if K_readRemaining c = 127
      then steps (readFull 8) (\<lambda>b c. Some (Inr (), c\<lparr>K_readRemaining := get_int64 b\<rparr>)) c
      else Some (Inr (), c))"

definition read_mask :: "bool \<Rightarrow> unit ws_step" where
  "read_mask masked c =
     (if masked \<noteq> K_isServer c then handleProtocolError ''incorrect mask flag'' c
      else if masked
      then steps (readFull 4) (\<lambda>key c. Some (Inr (), c\<lparr>K_readMaskKey := key\<rparr>)) (c\<lparr>K_readMaskPos := 0\<rparr>)
      else Some (Inr (), c))"

definition wrap_int64 :: "int \<Rightarrow> int" where
  "wrap_int64 i = sint (word_of_int i :: 64 word)"

definition enforce_limit :: "int \<Rightarrow> int ws_step" where
  "enforce_limit frameType c =
     (let c = c\<lparr>K_readLength := wrap_int64 (K_readLength c + K_readRemaining c)\<rparr>
      in if K_readLimit c > 0 \<and> K_readLength c > K_readLimit c
         then Some (Inl ErrReadLimit,
           snd (WriteControl CloseMessage (FormatCloseMessage CloseMessageTooBig []) (Some (K_now c + writeWait)) c))
         else Some (Inr frameType, c))"

definition control_payload :: "string ws_step" where
  "control_payload c =
     (if K_readRemaining c > 0
      then steps (readFull (nat (K_readRemaining c)))
        (\<lambda>payload c. Some (Inr (if K_isServer c then fst (maskBytes (K_readMaskKey c) 0 payload) else payload), c))
        (c\<lparr>K_readRemaining := 0\<rparr>)
      else Some (Inr [], c))"

definition process_control :: "ws_env \<Rightarrow> int \<Rightarrow> string \<Rightarrow> int ws_step" where
  "process_control env frameType payload c =
     (if frameType = PongMessage then
        (case H_pong env payload c of (e, c) \<Rightarrow> Some (case e of Some e \<Rightarrow> Inl e | None \<Rightarrow> Inr frameType, c))
      else if frameType = PingMessage then
        (case H_ping env payload c of (e, c) \<Rightarrow> Some (case e of Some e \<Rightarrow> Inl e | None \<Rightarrow> Inr frameType, c))
      else
        Some (Inl (if length payload \<ge> 2 then CloseErr (get_be (take 2 payload)) (drop 2 payload)
                   else CloseErr CloseNoStatusReceived []),
          snd (WriteControl CloseMessage [] (Some (K_now c + writeWait)) c)))"

definition frame_of_header :: "ws_env \<Rightarrow> string \<Rightarrow> int ws_step" where
  "frame_of_header env b c =
     (let b0 = byte (b ! 0); b1 = byte (b ! 1);
          final = (b0 AND finalBit \<noteq> 0);
          frameType = int (b0 AND 0xF);
          reserved = drop_bit 4 b0 AND 7;
          masked = (b1 AND maskBit \<noteq> 0);
          c = c\<lparr>K_readRemaining := int (b1 AND 0x7F)\<rparr>
      in steps (check_header final frameType reserved) (\<lambda>_.
         steps read_length (\<lambda>_.
         steps (read_mask masked) (\<lambda>_.
           if isControl frameType then steps control_payload (process_control env frameType)
           else enforce_limit frameType))) c)"

definition advanceFrame :: "ws_env \<Rightarrow> int ws_step" where
  "advanceFrame env = steps skip_rest (\<lambda>_. steps (readFull 2) (frame_of_header env))"

section \<open>Messages in\<close>

partial_function (option) NextReader_loop :: "ws_env \<Rightarrow> Conn \<Rightarrow> ((ws_error + int \<times> nat) \<times> Conn) option" where
  [code]: "NextReader_loop env c =
     (case K_readErr c of
        Some e \<Rightarrow> Some (Inl e, c)
      | None \<Rightarrow> Option.bind (advanceFrame env c) (\<lambda>(r, c).
          case r of
            Inl e \<Rightarrow> NextReader_loop env (c\<lparr>K_readErr := hideTempErr (H_temporary env) (Some e)\<rparr>)
          | Inr frameType \<Rightarrow>
              if isData frameType then Some (Inr (frameType, K_readSeq c), c) else NextReader_loop env c))"

definition NextReader :: "ws_env \<Rightarrow> (int \<times> nat) ws_step" where
  "NextReader env c = NextReader_loop env (c\<lparr>K_readSeq := K_readSeq c + 1, K_readLength := 0\<rparr>)"

partial_function (option) Read_loop :: "ws_env \<Rightarrow> nat \<Rightarrow> Conn \<Rightarrow> ((string \<times> ws_error option) \<times> Conn) option" where
  [code]: "Read_loop env k c =
     (case K_readErr c of
        Some e \<Rightarrow> Some (([], Some (if e = IoError EOF then errUnexpectedEOF else e)), c)
      | None \<Rightarrow>
          if K_readRemaining c > 0 then
            map_option (\<lambda>((bs, e), br).
              let c = c\<lparr>K_br := br, K_readErr := hideTempErr (H_temporary env) (map_option IoError e)\<rparr>;
                  (bs, c) = (if K_isServer c
                    then (case maskBytes (K_readMaskKey c) (K_readMaskPos c) bs of (bs, pos) \<Rightarrow> (bs, c\<lparr>K_readMaskPos := pos\<rparr>))
                    else (bs, c));
                  c = c\<lparr>K_readRemaining := K_readRemaining c - int (length bs)\<rparr>
              in ((bs, K_readErr c), c))
            (Read (nat (min (int k) (K_readRemaining c))) (K_br c))
          else if K_readFinal c then Some (([], Some (IoError EOF)), c\<lparr>K_readSeq := K_readSeq c + 1\<rparr>)
          else Option.bind (advanceFrame env c) (\<lambda>(r, c).
            Read_loop env k (case r of
                Inl e \<Rightarrow> c\<lparr>K_readErr := hideTempErr (H_temporary env) (Some e)\<rparr>
              | Inr frameType \<Rightarrow>
                  if isData frameType
                  then c\<lparr>K_readErr := Some (InternalError ''unexpected text or binary in Reader'')\<rparr>
                  else c)))"

text \<open>A reader is the sequence number it was made with; an old one is at its end.\<close>

definition reader_Read :: "ws_env \<Rightarrow> nat \<Rightarrow> nat \<Rightarrow> Conn \<Rightarrow> ((string \<times> ws_error option) \<times> Conn) option" where
  "reader_Read env sq k c =
     (if sq \<noteq> K_readSeq c then Some (([], Some (IoError EOF)), c) else Read_loop env k c)"

text \<open>\<open>ioutil.ReadAll\<close>: a buffer of \<open>capa\<close> bytes that grows when fewer than 512 are free.\<close>

partial_function (option) read_all ::
    "ws_env \<Rightarrow> nat \<Rightarrow> nat \<Rightarrow> string \<Rightarrow> Conn \<Rightarrow> ((string \<times> ws_error option) \<times> Conn) option" where
  [code]: "read_all env sq capa got c =
     (let capa = (if capa - length got < 512 then 2 * capa + 512 else capa)
      in Option.bind (reader_Read env sq (capa - length got) c) (\<lambda>((bs, e), c).
        case e of
          None \<Rightarrow> read_all env sq capa (got @ bs) c
        | Some e \<Rightarrow> Some ((got @ bs, if e = IoError EOF then None else Some e), c)))"

definition ReadMessage :: "ws_env \<Rightarrow> Conn \<Rightarrow> ((int \<times> string \<times> ws_error option) \<times> Conn) option" where
  "ReadMessage env c = do {
     (r, c) \<leftarrow> NextReader env c;
     (case r of
        Inl e \<Rightarrow> Some ((noFrame, [], Some e), c)
      | Inr (messageType, sq) \<Rightarrow>
          map_option (\<lambda>((p, e), c). ((messageType, p, e), c)) (read_all env sq 512 [] c))
   }"

end
