(* ===== verification/WsFacts.thy ===== *)
theory WsFacts
  imports WsRead
begin

text \<open>
  What the two sides of a websocket connection promise. A message on the wire is a sequence of
  frames, of which only the last is final, with pings and pongs of the peer between them. The
  writer makes such a text of every message, whatever its buffer; the reader takes the message out of
  it, whatever the pieces it arrives in.
\<close>

section \<open>Messages on the wire\<close>

definition frame_text :: "string option \<Rightarrow> bool \<Rightarrow> int \<Rightarrow> string \<Rightarrow> string" where
  "frame_text key final t payload =
     length_header final t (key \<noteq> None) (length payload) @
     (case key of None \<Rightarrow> payload | Some k \<Rightarrow> k @ mask_from k 0 payload)"

text \<open>A header announces \<open>l\<close> bytes.\<close>

definition head_text :: "string option \<Rightarrow> bool \<Rightarrow> int \<Rightarrow> nat \<Rightarrow> string" where
  "head_text key final t l = length_header final t (key \<noteq> None) l @ (case key of None \<Rightarrow> [] | Some k \<Rightarrow> k)"

lemma frame_text_split:
  "frame_text key final t payload =
     head_text key final t (length payload) @ (if key = None then payload else mask_from (the key) 0 payload)"
  by (auto simp: frame_text_def head_text_def)

text \<open>A key is of four bytes, and there is one when the sender is a client.\<close>

definition fits_key :: "bool \<Rightarrow> string option \<Rightarrow> bool" where
  "fits_key masked key \<longleftrightarrow> (if masked then \<exists>k. key = Some k \<and> length k = 4 else key = None)"

inductive message_text :: "bool \<Rightarrow> int \<Rightarrow> string \<Rightarrow> string \<Rightarrow> bool" for masked where
  last: "fits_key masked key \<Longrightarrow> length p < 2 ^ 63 \<Longrightarrow> message_text masked t p (frame_text key True t p)"
| more: "fits_key masked key \<Longrightarrow> length p < 2 ^ 63 \<Longrightarrow> message_text masked continuationFrame data wire \<Longrightarrow>
    message_text masked t (p @ data) (frame_text key False t p @ wire)"
| control: "fits_key masked key \<Longrightarrow> length p \<le> 125 \<Longrightarrow> u = PingMessage \<or> u = PongMessage \<Longrightarrow>
    message_text masked t data wire \<Longrightarrow> message_text masked t data (frame_text key True u p @ wire)"

section \<open>Reading bytes\<close>

definition comes :: "Reader \<Rightarrow> string \<Rightarrow> bool" where
  "comes br s \<longleftrightarrow> reader_inv br \<and> pending br = s"

lemma Read_comes:
  assumes "comes br (p @ rest)" "p \<noteq> []" "0 < k" "k \<le> length p"
  obtains bs p' br' where "Read k br = Some ((bs, None), br')" "p = bs @ p'" "bs \<noteq> []" "length bs \<le> k" "comes br' (p' @ rest)"
proof -
  have inv: "reader_inv br" "pending br = p @ rest" using assms(1) by (auto simp: comes_def)
  obtain bs err br' where r: "Read k br = Some ((bs, err), br')" "length bs \<le> k" "pending br = bs @ pending br'"
    "reader_inv br'" "if pending br = [] then bs = [] \<and> err = Some EOF else bs \<noteq> [] \<and> err = None"
    using Read_spec [OF inv(1) assms(3)] by blast
  have bs: "bs \<noteq> []" "err = None" using r(5) inv(2) assms(2) by (simp_all split: if_splits)
  have eq: "p @ rest = bs @ pending br'" using inv(2) r(3) by metis
  have len: "length bs \<le> length p" using r(2) assms(4) by (rule le_trans)
  have "take (length bs) (p @ rest) = bs" "drop (length bs) (p @ rest) = pending br'" using eq by simp_all
  with len have p: "take (length bs) p = bs" "pending br' = drop (length bs) p @ rest" by simp_all
  show thesis
  proof (rule that)
    show "p = bs @ drop (length bs) p" using p(1) append_take_drop_id by metis
    show "comes br' (drop (length bs) p @ rest)" using p(2) r(4) by (simp add: comes_def)
  qed (use r bs in simp_all)
qed

lemma readFull_loop_comes:
  assumes "comes br (p @ rest)"
  shows "\<exists>br'. readFull_loop (length p) got br = Some ((got @ p, None), br') \<and> comes br' rest"
  using assms
proof (induction "length p" arbitrary: p br got rule: less_induct)
  case less
  show ?case
  proof (cases "p = []")
    case True
    with less.prems show ?thesis by (simp add: readFull_loop.simps)
  next
    case False
    then have k: "0 < length p" "length p \<le> length p" by simp_all
    obtain bs p' br1 where r: "Read (length p) br = Some ((bs, None), br1)" "p = bs @ p'" "bs \<noteq> []"
      "comes br1 (p' @ rest)" using Read_comes [OF less.prems False k] by blast
    then obtain br' where "readFull_loop (length p') (got @ bs) br1 = Some (((got @ bs) @ p', None), br')" "comes br' rest"
      using less.hyps [of p' br1 "got @ bs"] by auto
    with r False show ?thesis by (subst readFull_loop.simps) simp
  qed
qed

lemma readFull_comes:
  assumes "comes (K_br c) (p @ rest)"
  obtains br' where "readFull (length p) c = Some (Inr p, c\<lparr>K_br := br'\<rparr>)" "comes br' rest"
  using readFull_loop_comes [OF assms, of "[]"] that by (auto simp: readFull_def)

section \<open>Reading a frame\<close>

text \<open>What the second byte says of the length, and what follows it.\<close>

definition len7 :: "nat \<Rightarrow> nat" where
  "len7 l = (if l \<ge> 65536 then 127 else if l > 125 then 126 else l)"

definition len_ext :: "nat \<Rightarrow> string" where
  "len_ext l = (if l \<ge> 65536 then put_be 8 l else if l > 125 then put_be 2 l else [])"

lemma len7_less: "len7 l < 128"
  by (simp add: len7_def)

lemma length_header_split: "length_header final t masked l = [header0 final t, header1 masked (len7 l)] @ len_ext l"
  by (simp add: length_header_def len7_def len_ext_def)

lemma read_length_comes:
  assumes "comes (K_br c) (len_ext l @ rest)" "l < 2 ^ 63" "K_readRemaining c = int (len7 l)"
  obtains br' where "read_length c = Some (Inr (), c\<lparr>K_br := br', K_readRemaining := int l\<rparr>)" "comes br' rest"
proof -
  consider "l \<le> 125" | "125 < l" "l < 65536" | "65536 \<le> l" by linarith
  then show thesis
  proof cases
    case 1
    with assms that [of "K_br c"] show thesis by (simp add: read_length_def len7_def len_ext_def)
  next
    case 2
    then have "comes (K_br c) (put_be 2 l @ rest)" using assms(1) by (simp add: len_ext_def)
    then obtain br' where "readFull 2 c = Some (Inr (put_be 2 l), c\<lparr>K_br := br'\<rparr>)" "comes br' rest"
      using readFull_comes [of c "put_be 2 l" rest] by (metis length_put_be)
    with 2 assms(3) that [of br'] show thesis by (simp add: read_length_def len7_def get_be_put_be)
  next
    case 3
    then have "comes (K_br c) (put_be 8 l @ rest)" using assms(1) by (simp add: len_ext_def)
    then obtain br' where "readFull 8 c = Some (Inr (put_be 8 l), c\<lparr>K_br := br'\<rparr>)" "comes br' rest"
      using readFull_comes [of c "put_be 8 l" rest] by (metis length_put_be)
    with 3 assms(2,3) that [of br'] show thesis by (simp add: read_length_def len7_def get_int64_put_be)
  qed
qed

text \<open>Of the current frame \<open>p\<close> is still to come, masked for a server, and then \<open>s\<close>.\<close>

definition writes_ok :: "Conn \<Rightarrow> bool" where
  "writes_ok c \<longleftrightarrow> K_writes c = [] \<and> \<not> K_netClosed c"

definition reading :: "Conn \<Rightarrow> string \<Rightarrow> bool \<Rightarrow> string \<Rightarrow> bool" where
  "reading c p final s \<longleftrightarrow> K_readErr c = None \<and> K_readRemaining c = int (length p) \<and> K_readFinal c = final \<and>
     K_readLimit c = 0 \<and> writes_ok c \<and>
     comes (K_br c) ((if K_isServer c then mask_from (K_readMaskKey c) (K_readMaskPos c) p else p) @ s)"

lemma reading_none:
  "reading c [] final s \<longleftrightarrow> K_readErr c = None \<and> K_readRemaining c = 0 \<and> K_readFinal c = final \<and>
     K_readLimit c = 0 \<and> writes_ok c \<and> comes (K_br c) s"
  by (auto simp: reading_def)

definition same_reader :: "Conn \<Rightarrow> Conn \<Rightarrow> bool" where
  "same_reader c c' \<longleftrightarrow> K_isServer c' = K_isServer c \<and> K_readSeq c' = K_readSeq c"

lemma same_reader_trans: "same_reader a b \<Longrightarrow> same_reader b c \<Longrightarrow> same_reader a c"
  by (simp add: same_reader_def)

lemma WriteControl_keeps:
  assumes "writes_ok c"
  shows "reading (snd (WriteControl u data dl c)) p final s = reading c p final s" "same_reader c (snd (WriteControl u data dl c))"
  using assms
  by (auto simp: WriteControl_def net_write_def draw_key_def Let_def reading_def same_reader_def writes_ok_def
      split: option.splits)

lemma skip_nothing [simp]: "K_readRemaining c = 0 \<Longrightarrow> skip_rest c = Some (Inr (), c)"
  by (simp add: skip_rest_def)

text \<open>The parts of a header, with the key if there is one, from the first byte to the payload.\<close>

lemma fits_key_iff: "fits_key m key \<Longrightarrow> key \<noteq> None \<longleftrightarrow> m"
  by (auto simp: fits_key_def split: if_splits)

lemma header_read:
  assumes "reading c [] fin (head_text key final t l @ s)" "fits_key (K_isServer c) key"
    and "l < 2 ^ 63" "known_type t" "isControl t \<Longrightarrow> l \<le> 125 \<and> final"
    and "isData t \<Longrightarrow> fin" "t = continuationFrame \<Longrightarrow> \<not> fin"
  obtains br where
    "advanceFrame env c =
       (if isControl t then steps control_payload (process_control env t) else enforce_limit t)
         (c\<lparr>K_readFinal := (if isControl t then fin else final), K_readRemaining := int l, K_br := br,
            K_readMaskPos := (if K_isServer c then 0 else K_readMaskPos c),
            K_readMaskKey := (if K_isServer c then the key else K_readMaskKey c)\<rparr>)"
    "comes br s"
proof -
  let ?h = "[header0 final t, header1 (key \<noteq> None) (len7 l)]" and ?k = "case key of None \<Rightarrow> [] | Some k \<Rightarrow> k"
  have keyed: "(key \<noteq> None) = K_isServer c" by (rule fits_key_iff [OF assms(2)])
  have c: "comes (K_br c) (?h @ len_ext l @ ?k @ s)" "K_readErr c = None" "K_readRemaining c = 0" "K_readFinal c = fin"
    using assms(1) by (auto simp: reading_none head_text_def length_header_split)
  have two: "length ?h = 2" by simp
  obtain br1 where br1: "readFull 2 c = Some (Inr ?h, c\<lparr>K_br := br1\<rparr>)" "comes br1 (len_ext l @ ?k @ s)"
    using readFull_comes [OF c(1)] unfolding two by blast
  note bits = header0_reads [OF assms(4), of final] header1_reads [OF len7_less, of "key \<noteq> None"]
  let ?c1 = "c\<lparr>K_br := br1, K_readRemaining := int (len7 l)\<rparr>"
  let ?c2 = "?c1\<lparr>K_readFinal := (if isControl t then fin else final)\<rparr>"
  have check: "check_header final t 0 ?c1 = Some (Inr (), ?c2)"
    using assms(4-7) c(4) by (auto simp: check_header_def known_type_def maxControlFramePayloadSize_def len7_def)
  obtain br2 where br2: "read_length ?c2 = Some (Inr (), ?c2\<lparr>K_br := br2, K_readRemaining := int l\<rparr>)" "comes br2 (?k @ s)"
    using read_length_comes [of ?c2 l "?k @ s"] br1(2) assms(3) by auto
  let ?c3 = "?c2\<lparr>K_br := br2, K_readRemaining := int l\<rparr>"
  obtain br3 where br3: "read_mask (key \<noteq> None) ?c3 =
      Some (Inr (), ?c3\<lparr>K_br := br3, K_readMaskPos := (if K_isServer c then 0 else K_readMaskPos c),
        K_readMaskKey := (if K_isServer c then the key else K_readMaskKey c)\<rparr>)" "comes br3 s"
  proof (cases "K_isServer c")
    case True
    then obtain k where k: "key = Some k" "length k = 4" using assms(2) by (auto simp: fits_key_def)
    with br2(2) have "comes (K_br (?c3\<lparr>K_readMaskPos := 0\<rparr>)) (k @ s)" by simp
    then obtain br where "readFull (length k) (?c3\<lparr>K_readMaskPos := 0\<rparr>) = Some (Inr k, ?c3\<lparr>K_readMaskPos := 0, K_br := br\<rparr>)"
      "comes br s" by (rule readFull_comes)
    with True k that [of br] show thesis by (simp add: read_mask_def)
  next
    case False
    with keyed br2(2) that [of br2] show thesis by (simp add: read_mask_def)
  qed
  show thesis
  proof (rule that [of br3])
    have "advanceFrame env c = frame_of_header env ?h (c\<lparr>K_br := br1\<rparr>)"
      using br1(1) c(3) by (simp add: advanceFrame_def)
    also have "\<dots> = (if isControl t then steps control_payload (process_control env t) else enforce_limit t)
        (?c3\<lparr>K_br := br3, K_readMaskPos := (if K_isServer c then 0 else K_readMaskPos c),
          K_readMaskKey := (if K_isServer c then the key else K_readMaskKey c)\<rparr>)"
      using bits check br2(1) br3(1) by (simp add: frame_of_header_def Let_def)
    finally show "advanceFrame env c =
       (if isControl t then steps control_payload (process_control env t) else enforce_limit t)
         (c\<lparr>K_readFinal := (if isControl t then fin else final), K_readRemaining := int l, K_br := br3,
            K_readMaskPos := (if K_isServer c then 0 else K_readMaskPos c),
            K_readMaskKey := (if K_isServer c then the key else K_readMaskKey c)\<rparr>)" by simp
  qed (rule br3(2))
qed

lemma not_control [simp]: "isData t \<Longrightarrow> \<not> isControl t" "\<not> isControl continuationFrame" "\<not> isData continuationFrame"
  by (auto simp: isData_def isControl_def frame_types)

lemma ping_pong: "u = PingMessage \<or> u = PongMessage \<Longrightarrow> isControl u \<and> known_type u \<and> \<not> isData u \<and> u \<noteq> continuationFrame"
  by (auto simp: isData_def isControl_def known_type_def frame_types)

lemma known_data [simp]: "isData t \<Longrightarrow> known_type t" "known_type continuationFrame"
  by (auto simp: known_type_def)

lemma advance_data:
  assumes "reading c [] fin (frame_text key final t payload @ s)" "fits_key (K_isServer c) key"
    and "length payload < 2 ^ 63" "isData t \<and> fin \<or> t = continuationFrame \<and> \<not> fin"
  obtains c' where "advanceFrame env c = Some (Inr t, c')" "reading c' payload final s" "same_reader c c'"
proof -
  have t: "known_type t" "\<not> isControl t" "isData t \<Longrightarrow> fin" "t = continuationFrame \<Longrightarrow> \<not> fin" using assms(4) by auto
  obtain br where br: "advanceFrame env c =
      enforce_limit t (c\<lparr>K_readFinal := final, K_readRemaining := int (length payload), K_br := br,
         K_readMaskPos := (if K_isServer c then 0 else K_readMaskPos c),
         K_readMaskKey := (if K_isServer c then the key else K_readMaskKey c)\<rparr>)"
    "comes br ((if key = None then payload else mask_from (the key) 0 payload) @ s)"
    using header_read [OF assms(1) [unfolded frame_text_split append_assoc] assms(2,3) t(1), of env] t(2-4) by auto
  show thesis
  proof (rule that)
    show "advanceFrame env c = Some (Inr t, c\<lparr>K_readFinal := final, K_readRemaining := int (length payload), K_br := br,
         K_readMaskPos := (if K_isServer c then 0 else K_readMaskPos c),
         K_readMaskKey := (if K_isServer c then the key else K_readMaskKey c),
         K_readLength := wrap_int64 (K_readLength c + int (length payload))\<rparr>)"
      using assms(1) br(1) by (simp add: enforce_limit_def Let_def reading_def)
  qed (use assms(1) br(2) fits_key_iff [OF assms(2)] in \<open>simp_all add: reading_def writes_ok_def same_reader_def split: if_splits\<close>)
qed

lemma control_payload_comes:
  assumes "comes (K_br d) ((if K_isServer d then mask_from (K_readMaskKey d) 0 p else p) @ s)"
    and "K_readRemaining d = int (length p)" "K_readErr d = None" "K_readFinal d = fin" "K_readLimit d = 0" "writes_ok d"
  obtains d' where "control_payload d = Some (Inr p, d')" "reading d' [] fin s" "same_reader d d'"
proof (cases "p = []")
  case True
  with assms that [of d] show thesis by (simp add: control_payload_def reading_none same_reader_def split: if_splits)
next
  case False
  let ?w = "if K_isServer d then mask_from (K_readMaskKey d) 0 p else p" and ?c = "d\<lparr>K_readRemaining := 0\<rparr>"
  have "comes (K_br ?c) (?w @ s)" "length ?w = length p" using assms(1) by simp_all
  then obtain br where br: "readFull (length p) ?c = Some (Inr ?w, ?c\<lparr>K_br := br\<rparr>)" "comes br s"
    using readFull_comes by metis
  show thesis
  proof (rule that)
    show "control_payload d = Some (Inr p, ?c\<lparr>K_br := br\<rparr>)"
      using False br(1) assms(2) by (simp add: control_payload_def maskBytes_def)
  qed (use assms(3-6) br(2) in \<open>simp_all add: reading_none writes_ok_def same_reader_def\<close>)
qed

lemma advance_control:
  assumes "reading c [] fin (frame_text key True u p @ s)" "fits_key (K_isServer c) key"
    and "length p \<le> 125" "u = PingMessage \<or> u = PongMessage"
  obtains c' where "advanceFrame (default_env temporary) c = Some (Inr u, c')" "reading c' [] fin s" "same_reader c c'"
proof -
  note u = ping_pong [OF assms(4)]
  have small: "length p < 2 ^ 63" by (rule le_less_trans [OF assms(3)]) simp
  obtain br where br: "advanceFrame (default_env temporary) c =
      steps control_payload (process_control (default_env temporary) u) (c\<lparr>K_readFinal := fin,
         K_readRemaining := int (length p), K_br := br, K_readMaskPos := (if K_isServer c then 0 else K_readMaskPos c),
         K_readMaskKey := (if K_isServer c then the key else K_readMaskKey c)\<rparr>)" (is "_ = steps _ _ ?d")
    "comes br ((if key = None then p else mask_from (the key) 0 p) @ s)"
    using header_read [OF assms(1) [unfolded frame_text_split append_assoc] assms(2) small, of "default_env temporary"] u assms(3) by auto
  have "K_readErr ?d = None" "K_readFinal ?d = fin" "K_readLimit ?d = 0" "writes_ok ?d"
    "comes (K_br ?d) ((if K_isServer ?d then mask_from (K_readMaskKey ?d) 0 p else p) @ s)"
    using assms(1) br(2) fits_key_iff [OF assms(2)] by (simp_all add: reading_none writes_ok_def split: if_splits)
  then obtain d' where d': "control_payload ?d = Some (Inr p, d')" "reading d' [] fin s" "same_reader ?d d'"
    using control_payload_comes [of ?d p s fin] by auto
  then have same: "same_reader c d'" "writes_ok d'" by (simp_all add: same_reader_def reading_none)
  have "process_control (default_env temporary) u p d' =
      Some (Inr u, if u = PingMessage then snd (WriteControl PongMessage p (Some (K_now d' + writeWait)) d') else d')"
    using assms(4) by (auto simp: process_control_def default_env_def default_ping_def default_pong_def frame_types)
  with that br(1) d'(1,2) same WriteControl_keeps [OF same(2)] same_reader_trans show thesis
    by (cases "u = PingMessage") auto
qed

section \<open>Reading a message\<close>

text \<open>Of the message \<open>data\<close> is still to come, in this frame and those after it; then \<open>rest\<close>.\<close>

definition receiving :: "Conn \<Rightarrow> string \<Rightarrow> string \<Rightarrow> bool" where
  "receiving c data rest \<longleftrightarrow>
     (\<exists>p. data = p \<and> reading c p True rest) \<or>
     (\<exists>p later wire. data = p @ later \<and> message_text (K_isServer c) continuationFrame later wire \<and> reading c p False (wire @ rest))"

lemma read_payload:
  assumes "reading c p final s" "p \<noteq> []" "0 < k"
  obtains bs p' c' where "Read_loop env k c = Some ((bs, None), c')" "p = bs @ p'" "bs \<noteq> []" "length bs \<le> k"
    "reading c' p' final s" "same_reader c c'"
proof -
  let ?w = "if K_isServer c then mask_from (K_readMaskKey c) (K_readMaskPos c) p else p"
  let ?k = "nat (min (int k) (K_readRemaining c))"
  have c: "comes (K_br c) (?w @ s)" "?w \<noteq> []" "0 < ?k" "?k \<le> length ?w" "?k \<le> k"
    using assms by (cases p; auto simp: reading_def)+
  obtain bs w' br where r: "Read ?k (K_br c) = Some ((bs, None), br)" "?w = bs @ w'" "bs \<noteq> []" "length bs \<le> ?k" "comes br (w' @ s)"
    by (rule Read_comes [OF c(1-4)])
  let ?got = "if K_isServer c then mask_from (K_readMaskKey c) (K_readMaskPos c) bs else bs"
  obtain p' where p': "p = ?got @ p'"
    "w' = (if K_isServer c then mask_from (K_readMaskKey c) (K_readMaskPos c + length bs) p' else p')"
  proof (cases "K_isServer c")
    case True
    with r(2) have "mask_from (K_readMaskKey c) (K_readMaskPos c) p = bs @ w'" by simp
    then obtain p1 p2 where "p = p1 @ p2" "bs = mask_from (K_readMaskKey c) (K_readMaskPos c) p1"
      "w' = mask_from (K_readMaskKey c) (K_readMaskPos c + length bs) p2" by (rule mask_from_split)
    with True that [of p2] show thesis by simp
  qed (use r(2) that in simp)
  let ?c = "c\<lparr>K_br := br, K_readErr := None, K_readMaskPos := (if K_isServer c then (K_readMaskPos c + length bs) AND 3 else K_readMaskPos c),
     K_readRemaining := int (length p) - int (length bs)\<rparr>"
  have run: "Read_loop env k c = Some ((?got, None), ?c)"
    using assms r(1) by (subst Read_loop.simps) (auto simp: reading_def hideTempErr_def maskBytes_def Let_def)
  have len: "length ?got = length bs" by simp
  then have lens: "length p = length bs + length p'" using arg_cong [OF p'(1), of length] by simp
  show thesis
  proof (rule that [OF run p'(1)])
    show "?got \<noteq> []" using r(3) len by (metis length_0_conv)
    show "length ?got \<le> k" using r(4) c(5) len by linarith
    show "reading ?c p' final s"
      using assms(1) r(5) p'(2) lens by (auto simp: reading_def writes_ok_def mask_from_mod)
  qed (simp add: same_reader_def)
qed

text \<open>One Read of a message: some more of it, or its end.\<close>

definition read_step :: "(io_error \<Rightarrow> bool) \<Rightarrow> nat \<Rightarrow> Conn \<Rightarrow> string \<Rightarrow> string \<Rightarrow> bool" where
  "read_step temporary k c data rest \<longleftrightarrow>
     (if data = [] then \<exists>c'. Read_loop (default_env temporary) k c = Some (([], Some (IoError EOF)), c') \<and>
        reading c' [] True rest \<and> K_isServer c' = K_isServer c
      else \<exists>bs data' c'. Read_loop (default_env temporary) k c = Some ((bs, None), c') \<and> data = bs @ data' \<and> bs \<noteq> [] \<and>
        length bs \<le> k \<and> receiving c' data' rest \<and> same_reader c c')"

lemma read_step_final:
  assumes "reading c p True rest" "0 < k"
  shows "read_step temporary k c p rest"
proof (cases "p = []")
  case True
  with assms have "Read_loop (default_env temporary) k c = Some (([], Some (IoError EOF)), c\<lparr>K_readSeq := K_readSeq c + 1\<rparr>)"
    by (subst Read_loop.simps) (simp add: reading_none)
  moreover have "reading (c\<lparr>K_readSeq := K_readSeq c + 1\<rparr>) [] True rest" using True assms(1) by (simp add: reading_none writes_ok_def)
  ultimately show ?thesis using True by (auto simp: read_step_def)
next
  case False
  obtain bs p' c' where "Read_loop (default_env temporary) k c = Some ((bs, None), c')" "p = bs @ p'" "bs \<noteq> []" "length bs \<le> k"
    "reading c' p' True rest" "same_reader c c'" by (rule read_payload [OF assms(1) False assms(2)])
  with False show ?thesis unfolding read_step_def receiving_def by (simp; blast)
qed

lemma read_step_more:
  assumes "reading c p False (wire @ rest)" "p \<noteq> []" "message_text (K_isServer c) continuationFrame later wire" "0 < k"
  shows "read_step temporary k c (p @ later) rest"
proof -
  obtain bs p' c' where r: "Read_loop (default_env temporary) k c = Some ((bs, None), c')" "p = bs @ p'" "bs \<noteq> []" "length bs \<le> k"
    "reading c' p' False (wire @ rest)" "same_reader c c'" by (rule read_payload [OF assms(1,2,4)])
  then have "receiving c' (p' @ later) rest" using assms(3) by (auto simp: receiving_def same_reader_def)
  with r show ?thesis by (auto simp: read_step_def)
qed

lemma read_step_trans: "same_reader c c' \<Longrightarrow> Read_loop (default_env temporary) k c = Read_loop (default_env temporary) k c' \<Longrightarrow>
    read_step temporary k c' data rest \<Longrightarrow> read_step temporary k c data rest"
  by (auto simp: read_step_def same_reader_def split: if_splits)

lemma Read_loop_advance:
  assumes "reading c [] False s" "advanceFrame env c = Some (Inr t, c')" "\<not> isData t" "reading c' p final s'"
  shows "Read_loop env k c = Read_loop env k c'"
  using assms by (subst Read_loop.simps) (simp add: reading_none)

lemma read_step_next:
  assumes "message_text m t later wire" "t = continuationFrame" "0 < k"
    and "reading c [] False (wire @ rest)" "K_isServer c = m"
  shows "read_step temporary k c later rest"
  using assms
proof (induction arbitrary: c rule: message_text.induct)
  case (last key p t)
  obtain c' where c': "advanceFrame (default_env temporary) c = Some (Inr t, c')" "reading c' p True rest" "same_reader c c'"
    using advance_data [of c False key True t p rest] last by auto
  with last have "read_step temporary k c' p rest" by (intro read_step_final) auto
  with c' last show ?case by (intro read_step_trans [OF c'(3) Read_loop_advance]) auto
next
  case (more key p data wire t)
  have "reading c [] False (frame_text key False t p @ (wire @ rest))" using more.prems by simp
  then obtain c' where c': "advanceFrame (default_env temporary) c = Some (Inr t, c')" "reading c' p False (wire @ rest)" "same_reader c c'"
    using advance_data [of c False key False t p "wire @ rest"] more.hyps more.prems by auto
  then have m: "K_isServer c' = m" using more.prems by (simp add: same_reader_def)
  have "read_step temporary k c' (p @ data) rest"
  proof (cases "p = []")
    case True
    with c'(2) more.IH [OF refl more.prems(2) _ m] show ?thesis by simp
  next
    case False
    with c'(2) more.hyps more.prems m show ?thesis by (intro read_step_more) auto
  qed
  with c' more.prems show ?case by (intro read_step_trans [OF c'(3) Read_loop_advance]) auto
next
  case (control key p u t data wire)
  have "reading c [] False (frame_text key True u p @ (wire @ rest))" using control.prems by simp
  then obtain c' where c': "advanceFrame (default_env temporary) c = Some (Inr u, c')" "reading c' [] False (wire @ rest)" "same_reader c c'"
    using advance_control [of c False key u p "wire @ rest" temporary] control.hyps control.prems by auto
  then have "read_step temporary k c' data rest" using control.IH control.prems by (simp add: same_reader_def)
  with c' control.prems ping_pong [OF control.hyps(3)] show ?case by (intro read_step_trans [OF c'(3) Read_loop_advance]) auto
qed

lemma read_step_receiving:
  assumes "receiving c data rest" "0 < k"
  shows "read_step temporary k c data rest"
  using assms(1) unfolding receiving_def
proof (elim disjE exE conjE)
  fix p later wire
  assume a: "data = p @ later" "message_text (K_isServer c) continuationFrame later wire" "reading c p False (wire @ rest)"
  show ?thesis
  proof (cases "p = []")
    case True
    with a read_step_next [OF a(2) refl assms(2) _ refl] show ?thesis by simp
  qed (use a assms(2) read_step_more in simp)
qed (use read_step_final assms(2) in simp)

lemma read_all_receiving:
  assumes "receiving c data rest" "sq = K_readSeq c" "length got \<le> capa"
  shows "\<exists>c'. read_all (default_env temporary) sq capa got c = Some ((got @ data, None), c') \<and> reading c' [] True rest \<and>
    K_isServer c' = K_isServer c"
  using assms
proof (induction "length data" arbitrary: data c got capa rule: less_induct)
  case less
  let ?capa = "if capa - length got < 512 then 2 * capa + 512 else capa"
  let ?k = "?capa - length got"
  have k: "0 < ?k" "length got + ?k = ?capa" using less.prems(3) by auto
  have step: "read_step temporary ?k c data rest" by (rule read_step_receiving [OF less.prems(1) k(1)])
  show ?case
  proof (cases "data = []")
    case True
    with step less.prems(2) show ?thesis
      by (subst read_all.simps) (auto simp: read_step_def reader_Read_def Let_def)
  next
    case False
    with step obtain bs data' c' where r: "Read_loop (default_env temporary) ?k c = Some ((bs, None), c')" "data = bs @ data'"
      "bs \<noteq> []" "length bs \<le> ?k" "receiving c' data' rest" "same_reader c c'" by (auto simp: read_step_def)
    have "length data' < length data" "sq = K_readSeq c'" "length (got @ bs) \<le> ?capa"
      using r(2,3,4,6) less.prems(2) k(2) by (auto simp: same_reader_def)
    from less.hyps [OF this(1) r(5) this(2,3)] obtain c'' where
      "read_all (default_env temporary) sq ?capa (got @ bs) c' = Some (((got @ bs) @ data', None), c'')"
      "reading c'' [] True rest" "K_isServer c'' = K_isServer c'" by blast
    with r less.prems(2) show ?thesis
      by (subst read_all.simps) (auto simp: reader_Read_def Let_def same_reader_def)
  qed
qed

lemma NextReader_receives:
  assumes "message_text m t data wire" "isData t" "reading c [] True (wire @ rest)" "K_isServer c = m"
  shows "\<exists>c'. NextReader_loop (default_env temporary) c = Some (Inr (t, K_readSeq c), c') \<and> receiving c' data rest \<and> same_reader c c'"
  using assms
proof (induction arbitrary: c rule: message_text.induct)
  case (last key p t)
  obtain c' where c': "advanceFrame (default_env temporary) c = Some (Inr t, c')" "reading c' p True rest" "same_reader c c'"
    using advance_data [of c True key True t p rest] last by auto
  with last show ?case by (subst NextReader_loop.simps) (auto simp: reading_none receiving_def same_reader_def)
next
  case (more key p data wire t)
  have "reading c [] True (frame_text key False t p @ (wire @ rest))" using more.prems by simp
  then obtain c' where c': "advanceFrame (default_env temporary) c = Some (Inr t, c')" "reading c' p False (wire @ rest)" "same_reader c c'"
    using advance_data [of c True key False t p "wire @ rest"] more.hyps more.prems by auto
  with more show ?case by (subst NextReader_loop.simps) (auto simp: reading_none receiving_def same_reader_def)
next
  case (control key p u t data wire)
  have "reading c [] True (frame_text key True u p @ (wire @ rest))" using control.prems by simp
  then obtain c' where c': "advanceFrame (default_env temporary) c = Some (Inr u, c')" "reading c' [] True (wire @ rest)" "same_reader c c'"
    using advance_control [of c True key u p "wire @ rest" temporary] control.hyps control.prems by auto
  moreover have "NextReader_loop (default_env temporary) c = NextReader_loop (default_env temporary) c'"
    using c' control.prems ping_pong [OF control.hyps(3)] by (subst NextReader_loop.simps) (simp add: reading_none)
  ultimately show ?case using control.IH [of c'] control.prems by (auto simp: same_reader_def)
qed

lemma ReadMessage_receives:
  assumes "message_text (K_isServer c) t data wire" "isData t" "reading c [] True (wire @ rest)"
  obtains c' where "ReadMessage (default_env temporary) c = Some ((t, data, None), c')" "reading c' [] True rest" "K_isServer c' = K_isServer c"
proof -
  let ?c = "c\<lparr>K_readSeq := K_readSeq c + 1, K_readLength := 0\<rparr>"
  have "reading ?c [] True (wire @ rest)" "K_isServer ?c = K_isServer c" using assms(3) by (simp_all add: reading_none writes_ok_def)
  from NextReader_receives [OF assms(1,2) this] obtain c1 where
    c1: "NextReader_loop (default_env temporary) ?c = Some (Inr (t, K_readSeq ?c), c1)" "receiving c1 data rest" "same_reader ?c c1" by blast
  obtain c' where "read_all (default_env temporary) (K_readSeq ?c) 512 [] c1 = Some (([] @ data, None), c')" "reading c' [] True rest"
    "K_isServer c' = K_isServer c1"
    using read_all_receiving [OF c1(2), of "K_readSeq ?c" "[]" 512] c1(3) by (auto simp: same_reader_def)
  with c1 that [of c'] show thesis by (simp add: ReadMessage_def NextReader_def same_reader_def)
qed

section \<open>Writing a message\<close>

text \<open>A frame of type \<open>t\<close> is being filled, with the payload \<open>q\<close> so far.\<close>

definition filling :: "Conn \<Rightarrow> int \<Rightarrow> string \<Rightarrow> bool" where
  "filling c t q \<longleftrightarrow> K_writeErr c = None \<and> \<not> K_closeSent c \<and> writes_ok c \<and> K_writeFrameType c = t \<and>
     K_writePos c = 14 + length q \<and> 14 < length (K_writeBuf c) \<and>
     (\<exists>a r. K_writeBuf c = a @ q @ r \<and> length a = 14)"

lemma filling_empty:
  "filling c t [] \<longleftrightarrow> K_writeErr c = None \<and> \<not> K_closeSent c \<and> writes_ok c \<and> K_writeFrameType c = t \<and>
     K_writePos c = 14 \<and> 14 < length (K_writeBuf c)"
proof -
  have "14 < length (K_writeBuf c) \<Longrightarrow> \<exists>a r. K_writeBuf c = a @ [] @ r \<and> length a = 14"
    by (intro exI [of _ "take 14 (K_writeBuf c)"] exI [of _ "drop 14 (K_writeBuf c)"]) simp
  then show ?thesis by (auto simp: filling_def)
qed

definition same_writer :: "Conn \<Rightarrow> Conn \<Rightarrow> bool" where
  "same_writer c c' \<longleftrightarrow> K_isServer c' = K_isServer c \<and> K_writeSeq c' = K_writeSeq c \<and>
     length (K_writeBuf c') = length (K_writeBuf c)"

lemma write_bufs_ok:
  "writes_ok c \<Longrightarrow> write_bufs bufs c = (None, c\<lparr>K_sent := K_sent c @ concat bufs\<rparr>)"
proof (induction bufs arbitrary: c)
  case (Cons b bufs)
  then have "writes_ok (c\<lparr>K_sent := K_sent c @ b\<rparr>)" by (simp add: writes_ok_def)
  with Cons show ?case by (auto simp: net_write_def writes_ok_def)
qed simp

lemma length_length_header: "length (length_header final t m l) + frame_pos srv l = (if srv then 14 else 10)"
  by (simp add: length_header_def frame_pos_def)

lemma flushFrame_sends:
  assumes "filling c t q" "\<not> isControl t" "K_isServer c \<or> extra = []"
  obtains key c' where "flushFrame final extra c = Some (None, c')" "fits_key (\<not> K_isServer c) key"
    "K_sent c' = K_sent c @ frame_text key final t (q @ extra)"
    "filling c' (if final then noFrame else continuationFrame) []"
    "K_isServer c' = K_isServer c" "length (K_writeBuf c') = length (K_writeBuf c)"
    "K_writeSeq c' = (if final then K_writeSeq c + 1 else K_writeSeq c)"
proof -
  obtain a r where buf: "K_writeBuf c = a @ q @ r" "length a = 14" using assms(1) by (auto simp: filling_def)
  let ?l = "length (q @ extra)" and ?m = "\<not> K_isServer c"
  let ?h = "length_header final t ?m ?l"
  let ?off = "frame_pos (K_isServer c) ?l"
  have h: "length ?h + ?off = (if K_isServer c then 14 else 10)" by (rule length_length_header)
  have c: "K_writeErr c = None" "\<not> K_closeSent c" "writes_ok c" "K_writeFrameType c = t" "K_writePos c = 14 + length q"
    "14 < length (K_writeBuf c)" using assms(1) by (auto simp: filling_def)
  have t: "t \<noteq> CloseMessage" using assms(2) by (auto simp: isControl_def)
  show thesis
  proof (cases "K_isServer c")
    case True
    let ?buf = "take ?off a @ ?h @ q @ r"
    have n: "length ?h + ?off = 14" using h True by simp
    have over: "overwrite ?off ?h (K_writeBuf c) = ?buf" using buf n by (simp add: overwrite_def)
    have sent: "drop ?off (take (14 + length q) ?buf) = ?h @ q" and len: "length ?buf = length (K_writeBuf c)"
      using buf n by simp_all
    show thesis
    proof (rule that [of _ None])
      show "flushFrame final extra c = Some (None, c\<lparr>K_writeBuf := ?buf, K_sent := K_sent c @ ?h @ q @ extra, K_writeErr := None,
          K_writePos := 14, K_writeFrameType := (if final then noFrame else continuationFrame),
          K_writeSeq := (if final then K_writeSeq c + 1 else K_writeSeq c)\<rparr>)"
        using True c t assms(2) over sent
        by (simp add: flushFrame_def Let_def maxFrameHeaderSize_def conn_write_def write_bufs_ok writes_ok_def
            del: write_bufs.simps take_append drop_append)
    qed (use True c buf(2) n len in \<open>simp_all add: fits_key_def frame_text_def filling_empty writes_ok_def\<close>)
  next
    case False
    then have e: "extra = []" and n: "length ?h + ?off = 10" "?off + length ?h = 10" using assms(3) h by simp_all
    let ?k = "newMaskKey (K_rand c (K_draws c))"
    let ?mq = "mask_from ?k 0 q"
    let ?buf = "take ?off a @ ?h @ ?k @ ?mq @ r"
    have over1: "overwrite ?off ?h (K_writeBuf c) = take ?off a @ ?h @ drop 10 a @ q @ r"
      using buf n(1) arg_cong [OF n(2), of "\<lambda>i. drop i a"] by (simp add: overwrite_def)
    have over2: "overwrite 10 ?k (take ?off a @ ?h @ drop 10 a @ q @ r) = take ?off a @ ?h @ ?k @ q @ r"
      using buf n by (simp add: overwrite_def)
    have payload: "drop 14 (take (14 + length q) (take ?off a @ ?h @ ?k @ q @ r)) = q" using buf n by simp
    have over3: "overwrite 14 ?mq (take ?off a @ ?h @ ?k @ q @ r) = ?buf" using buf n by (simp add: overwrite_def)
    have sent: "drop ?off (take (14 + length q) ?buf) = ?h @ ?k @ ?mq" and len: "length ?buf = length (K_writeBuf c)"
      using buf n by simp_all
    show thesis
    proof (rule that [of _ "Some ?k"])
      show "flushFrame final extra c = Some (None, c\<lparr>K_draws := K_draws c + 1, K_writeBuf := ?buf, K_sent := K_sent c @ ?h @ ?k @ ?mq,
          K_writeErr := None, K_writePos := 14, K_writeFrameType := (if final then noFrame else continuationFrame),
          K_writeSeq := (if final then K_writeSeq c + 1 else K_writeSeq c)\<rparr>)"
        using False c t assms(2) over1 over2 over3 payload sent e
        by (simp add: flushFrame_def Let_def maxFrameHeaderSize_def conn_write_def write_bufs_ok writes_ok_def draw_key_def maskBytes_def
            del: write_bufs.simps take_append drop_append)
    qed (use False c buf(2) n e len in \<open>simp_all add: fits_key_def frame_text_def filling_empty writes_ok_def\<close>)
  qed
qed

lemma flushFrame_ex:
  assumes "filling c t q" "\<not> isControl t" "K_isServer c \<or> extra = []"
  shows "\<exists>key c'. flushFrame final extra c = Some (None, c') \<and> fits_key (\<not> K_isServer c) key \<and>
    K_sent c' = K_sent c @ frame_text key final t (q @ extra) \<and> filling c' (if final then noFrame else continuationFrame) [] \<and>
    K_isServer c' = K_isServer c \<and> length (K_writeBuf c') = length (K_writeBuf c) \<and>
    K_writeSeq c' = (if final then K_writeSeq c + 1 else K_writeSeq c)"
  using flushFrame_sends [OF assms, of final] by metis

lemma fill_more:
  assumes "filling c t q" "14 + length q + length b \<le> length (K_writeBuf c)"
  shows "filling (c\<lparr>K_writeBuf := overwrite (K_writePos c) b (K_writeBuf c), K_writePos := K_writePos c + length b\<rparr>) t (q @ b)"
proof -
  obtain a r where buf: "K_writeBuf c = a @ q @ r" "length a = 14" using assms(1) by (auto simp: filling_def)
  have "overwrite (K_writePos c) b (K_writeBuf c) = a @ (q @ b) @ drop (length b) r"
    using assms buf by (simp add: overwrite_def filling_def)
  with assms buf show ?thesis by (auto simp: filling_def writes_ok_def)
qed

text \<open>What was sent begins the message that ends with the frame being filled.\<close>

definition continues :: "Conn \<Rightarrow> int \<Rightarrow> string \<Rightarrow> string \<Rightarrow> Conn \<Rightarrow> bool" where
  "continues c t data s c' \<longleftrightarrow> K_sent c' = K_sent c @ s \<and> same_writer c c' \<and>
     (\<exists>t' q'. filling c' t' q' \<and> \<not> isControl t' \<and> length q' \<le> length data \<and>
       (\<forall>wire. message_text (\<not> K_isServer c) t' q' wire \<longrightarrow> message_text (\<not> K_isServer c) t data (s @ wire)))"

lemma write_loop_sends:
  assumes "filling c t q" "\<not> isControl t" "length (q @ p) < 2 ^ 63"
  shows "\<exists>s c'. write_loop p c = Some (None, c') \<and> continues c t (q @ p) s c'"
  using assms
proof (induction "length p" arbitrary: p q t c rule: less_induct)
  case less
  show ?case
  proof (cases "p = []")
    case True
    with less.prems have "continues c t (q @ p) [] c" by (auto simp: continues_def same_writer_def)
    with True show ?thesis by (subst write_loop.simps) auto
  next
    case False
    have pos: "K_writePos c = 14 + length q" "14 < length (K_writeBuf c)" using less.prems(1) by (auto simp: filling_def)
    show ?thesis
    proof (cases "K_writePos c < length (K_writeBuf c)")
      case True
      let ?n = "min (length p) (length (K_writeBuf c) - K_writePos c)"
      let ?c = "c\<lparr>K_writeBuf := overwrite (K_writePos c) (take ?n p) (K_writeBuf c), K_writePos := K_writePos c + ?n\<rparr>"
      have n: "length (take ?n p) = ?n" "0 < ?n" "q @ p = (q @ take ?n p) @ drop ?n p" using True False by simp_all
      have fits: "14 + length q + length (take ?n p) \<le> length (K_writeBuf c)" using True pos by simp
      have c: "filling ?c t (q @ take ?n p)" using fill_more [OF less.prems(1) fits] unfolding n(1) .
      have "length (drop ?n p) < length p" "length ((q @ take ?n p) @ drop ?n p) < 2 ^ 63" using n less.prems(3) by simp_all
      from less.hyps [OF this(1) c less.prems(2) this(2)] obtain s c' where
        run: "write_loop (drop ?n p) ?c = Some (None, c')" "continues ?c t (q @ p) s c'" unfolding n(3) [symmetric] by blast
      have "continues c t (q @ p) s c'"
        using run(2) fits n(1) pos by (simp add: continues_def same_writer_def)
      moreover have "write_loop p c = write_loop (drop ?n p) ?c"
        using False True by (subst write_loop.simps) (simp add: ncopy_def)
      ultimately show ?thesis using run(1) by auto
    next
      case full: False
      obtain key c1 where c1: "flushFrame False [] c = Some (None, c1)" "fits_key (\<not> K_isServer c) key"
        "K_sent c1 = K_sent c @ frame_text key False t q" "filling c1 continuationFrame []" "same_writer c c1"
        using flushFrame_ex [OF less.prems(1,2), of "[]" False] by (auto simp: same_writer_def)
      have pos1: "K_writePos c1 = 14" "14 < length (K_writeBuf c1)" using c1(4) by (auto simp: filling_empty)
      let ?n = "min (length p) (length (K_writeBuf c1) - K_writePos c1)"
      let ?c = "c1\<lparr>K_writeBuf := overwrite (K_writePos c1) (take ?n p) (K_writeBuf c1), K_writePos := K_writePos c1 + ?n\<rparr>"
      have n: "length (take ?n p) = ?n" "0 < ?n" "p = take ?n p @ drop ?n p" using False pos1 by simp_all
      have fits: "14 + length ([] :: string) + length (take ?n p) \<le> length (K_writeBuf c1)" using pos1 by simp
      have c: "filling ?c continuationFrame (take ?n p)" using fill_more [OF c1(4) fits] unfolding n(1) by simp
      have "length (drop ?n p) < length p" "length (take ?n p @ drop ?n p) < 2 ^ 63" using n less.prems(3) by simp_all
      from less.hyps [OF this(1) c not_control(2) this(2)] obtain s c' where
        run: "write_loop (drop ?n p) ?c = Some (None, c')" "continues ?c continuationFrame p s c'" unfolding n(3) [symmetric] by blast
      obtain t' q' where tq: "filling c' t' q'" "\<not> isControl t'" "length q' \<le> length p" "K_sent c' = K_sent c1 @ s"
        "\<And>wire. message_text (\<not> K_isServer c) t' q' wire \<Longrightarrow> message_text (\<not> K_isServer c) continuationFrame p (s @ wire)"
        "same_writer c c'"
        using run(2) c1(5) fits n(1) pos1 by (auto simp: continues_def same_writer_def)
      have "message_text (\<not> K_isServer c) t (q @ p) ((frame_text key False t q @ s) @ wire)"
        if "message_text (\<not> K_isServer c) t' q' wire" for wire
        using message_text.more [OF c1(2) _ tq(5) [OF that], of q t] less.prems(3) by simp
      moreover have "length q' \<le> length (q @ p)" using tq(3) by simp
      ultimately have "continues c t (q @ p) (frame_text key False t q @ s) c'"
        using tq c1(3) unfolding continues_def by (metis append.assoc)
      moreover have "write_loop p c = write_loop (drop ?n p) ?c"
        using False full c1(1) by (subst write_loop.simps) (simp add: ncopy_def)
      ultimately show ?thesis using run(1) by auto
    qed
  qed
qed

text \<open>Between messages nothing is being filled.\<close>

lemma WriteMessage_sends:
  assumes "filling c noFrame []" "isData t" "length data < 2 ^ 63"
  obtains wire c' where "WriteMessage t data c = Some (None, c')" "message_text (\<not> K_isServer c) t data wire"
    "K_sent c' = K_sent c @ wire" "filling c' noFrame []" "K_isServer c' = K_isServer c" "K_writeSeq c' = K_writeSeq c + 1"
proof -
  let ?c = "c\<lparr>K_writeFrameType := t\<rparr>"
  have nw: "NextWriter t c = Some (Inr (K_writeSeq c), ?c)"
    using assms(1,2) by (simp add: NextWriter_def filling_empty)
  have c: "filling ?c t []" "K_isServer ?c = K_isServer c" "K_sent ?c = K_sent c" "writer_err (K_writeSeq c) ?c = None"
    using assms(1) by (simp_all add: filling_empty writes_ok_def writer_err_def)
  show thesis
  proof (cases "length data > 2 * length (K_writeBuf c) \<and> K_isServer c")
    case True
    then obtain key c' where c': "flushFrame True data ?c = Some (None, c')" "fits_key (\<not> K_isServer c) key"
      "K_sent c' = K_sent c @ frame_text key True t data" "filling c' noFrame []" "K_isServer c' = K_isServer c"
      "K_writeSeq c' = K_writeSeq c + 1"
      using flushFrame_ex [OF c(1) not_control(1) [OF assms(2)], of data True] by auto
    have "WriteMessage t data c = Some (None, c')"
      using nw c(4) c'(1,6) True by (simp add: WriteMessage_def writer_write_def)
    with that c' message_text.last [OF c'(2) assms(3)] show thesis by auto
  next
    case False
    obtain s c1 where c1: "write_loop data ?c = Some (None, c1)" "continues ?c t data s c1"
      using write_loop_sends [OF c(1) not_control(1) [OF assms(2)], of data] assms(3) by auto
    obtain t' q' where q': "filling c1 t' q'" "\<not> isControl t'" "length q' \<le> length data"
      "\<forall>wire. message_text (\<not> K_isServer c) t' q' wire \<longrightarrow> message_text (\<not> K_isServer c) t data (s @ wire)"
      "K_sent c1 = K_sent c @ s" "K_isServer c1 = K_isServer c" "K_writeSeq c1 = K_writeSeq c"
      using c1(2) by (auto simp: continues_def same_writer_def)
    obtain key c' where c': "flushFrame True [] c1 = Some (None, c')" "fits_key (\<not> K_isServer c) key"
      "K_sent c' = K_sent c @ s @ frame_text key True t' q'" "filling c' noFrame []" "K_isServer c' = K_isServer c"
      "K_writeSeq c' = K_writeSeq c + 1"
      using flushFrame_ex [OF q'(1,2), of "[]" True] q'(5-7) by auto
    have "WriteMessage t data c = Some (None, c')"
      using nw c(4) c1(1) q'(7) c'(1) False by (auto simp: WriteMessage_def writer_write_def)
    moreover have "length q' < 2 ^ 63" using q'(3) assms(3) by (rule le_less_trans)
    then have "message_text (\<not> K_isServer c) t data (s @ frame_text key True t' q')"
      using q'(4) message_text.last [OF c'(2)] by blast
    ultimately show thesis using that c'(3-6) by blast
  qed
qed

end
