(* ===== verification/HttpText.thy ===== *)
theory HttpText
  imports WsFacts GoUrl
begin

text \<open>
  The parts of Go's standard library that the websocket handshake uses: headers, the comparison
  and trimming of strings, and how \<open>http.ReadResponse\<close> takes the head of a response from a connection.
  What it makes of the header fields about the body is a parameter of its user.
\<close>

section \<open>Strings\<close>

function runes :: "string \<Rightarrow> (nat \<times> string) list" where
  "runes s = (if s = [] then [] else (fst (decode_rune s), take (snd (decode_rune s)) s) # runes (drop (snd (decode_rune s)) s))"
  by pat_completeness auto
termination by (relation "measure length") (auto simp: drop_rune_less simp del: length_drop)

declare runes.simps [simp del]

text \<open>Simple folding, of use where one side is ASCII: the long s and the Kelvin sign fold to letters.\<close>

definition fold_rune :: "nat \<Rightarrow> nat" where
  "fold_rune r = (if 65 \<le> r \<and> r \<le> 90 then r + 32 else if r = 383 then 115 else if r = 8490 then 107 else r)"

definition EqualFold :: "string \<Rightarrow> string \<Rightarrow> bool" where
  "EqualFold s t \<longleftrightarrow> List.map (\<lambda>(r, _). fold_rune r) (runes s) = List.map (\<lambda>(r, _). fold_rune r) (runes t)"

definition is_space :: "nat \<Rightarrow> bool" where
  "is_space r \<longleftrightarrow> 9 \<le> r \<and> r \<le> 13 \<or> r = 32 \<or> r = 133 \<or> r = 160 \<or> r = 5760 \<or> 8192 \<le> r \<and> r \<le> 8202 \<or>
     r = 8232 \<or> r = 8233 \<or> r = 8239 \<or> r = 8287 \<or> r = 12288"

definition TrimSpace :: "string \<Rightarrow> string" where
  "TrimSpace s =
     concat (List.map snd (rev (dropWhile (\<lambda>(r, _). is_space r) (rev (dropWhile (\<lambda>(r, _). is_space r) (runes s))))))"

fun split_on :: "char \<Rightarrow> string \<Rightarrow> string list" where
  "split_on c [] = [[]]"
| "split_on c (x # xs) = (if x = c then [] # split_on c xs else (case split_on c xs of p # ps \<Rightarrow> (x # p) # ps | [] \<Rightarrow> [[x]]))"

fun join_with :: "string \<Rightarrow> string list \<Rightarrow> string" where
  "join_with sep [] = []"
| "join_with sep [s] = s"
| "join_with sep (s # ss) = s @ sep @ join_with sep ss"

section \<open>Headers\<close>

text \<open>The values of each key, which is in canonical form; the order is the one in which Go ranges over them.\<close>

type_synonym header = "(string \<times> string list) list"

definition header_values :: "string \<Rightarrow> header \<Rightarrow> string list" where
  "header_values k h = (case map_of h k of Some vs \<Rightarrow> vs | None \<Rightarrow> [])"

definition header_Get :: "string \<Rightarrow> header \<Rightarrow> string" where
  "header_Get k h = (case header_values k h of v # _ \<Rightarrow> v | [] \<Rightarrow> [])"

fun header_add :: "string \<Rightarrow> string \<Rightarrow> header \<Rightarrow> header" where
  "header_add k v [] = [(k, [v])]"
| "header_add k v ((k', vs) # h) = (if k' = k then (k', vs @ [v]) # h else (k', vs) # header_add k v h)"

lemma header_values_add [simp]:
  "header_values k (header_add k' v h) = (if k = k' then header_values k h @ [v] else header_values k h)"
  by (induction h) (auto simp: header_values_def)

lemma header_values_Nil [simp]: "header_values k [] = []"
  by (simp add: header_values_def)

definition header_Set :: "string \<Rightarrow> string \<Rightarrow> header \<Rightarrow> header" where
  "header_Set k v h = List.filter (\<lambda>(k', _). k' \<noteq> k) h @ [(k, [v])]"

definition is_token_char :: "char \<Rightarrow> bool" where
  "is_token_char c \<longleftrightarrow> 48 \<le> byte c \<and> byte c \<le> 57 \<or> 65 \<le> byte c \<and> byte c \<le> 90 \<or> 97 \<le> byte c \<and> byte c \<le> 122 \<or>
     c \<in> set ''!#$%&*+-.^_`|~'' \<or> byte c = 39"

fun canonical_from :: "bool \<Rightarrow> string \<Rightarrow> string" where
  "canonical_from up [] = []"
| "canonical_from up (c # s) =
     (let b = byte c;
          b = (if up \<and> 97 \<le> b \<and> b \<le> 122 then b - 32 else if \<not> up \<and> 65 \<le> b \<and> b \<le> 90 then b + 32 else b)
      in chr b # canonical_from (b = 45) s)"

definition canonicalMIMEHeaderKey :: "string \<Rightarrow> string" where
  "canonicalMIMEHeaderKey k = (if list_all is_token_char k then canonical_from True k else k)"

section \<open>The head of a response\<close>

datatype http_error = HttpUnexpectedEOF | HttpNet io_error | Malformed string

definition blank :: "char \<Rightarrow> bool" where
  "blank c \<longleftrightarrow> c = CHR '' '' \<or> byte c = 9"

definition trim_blank :: "string \<Rightarrow> string" where
  "trim_blank s = rev (dropWhile blank (rev (dropWhile blank s)))"

text \<open>\<open>textproto.Reader\<close>: a line is read in the parts that fit the buffer.\<close>

partial_function (option) read_line :: "string \<Rightarrow> Reader \<Rightarrow> ((io_error + string) \<times> Reader) option" where
  [code]: "read_line got br =
     Option.bind (ReadLine br) (\<lambda>((l, more_to_come, e), br).
       case e of
         Some e \<Rightarrow> Some (Inl e, br)
       | None \<Rightarrow> if more_to_come then read_line (got @ l) br else Some (Inr (got @ l), br))"

partial_function (option) skipSpace :: "nat \<Rightarrow> Reader \<Rightarrow> (nat \<times> Reader) option" where
  [code]: "skipSpace n br =
     Option.bind (ReadByte br) (\<lambda>((c, e), br).
       if e \<noteq> None then Some (n, br)
       else if c \<noteq> 32 \<and> c \<noteq> 9 then Some (n, snd (UnreadByte br))
       else skipSpace (n + 1) br)"

partial_function (option) continuation :: "string \<Rightarrow> Reader \<Rightarrow> (string \<times> Reader) option" where
  [code]: "continuation buf br =
     Option.bind (skipSpace 0 br) (\<lambda>(n, br).
       if n = 0 then Some (buf, br)
       else Option.bind (read_line [] br) (\<lambda>(line, br).
         case line of
           Inl e \<Rightarrow> Some (buf, br)
         | Inr l \<Rightarrow> continuation (buf @ [CHR '' ''] @ trim_blank l) br))"

definition ascii_letter :: "char \<Rightarrow> bool" where
  "ascii_letter c \<longleftrightarrow> 65 \<le> byte c \<and> byte c \<le> 90 \<or> 97 \<le> byte c \<and> byte c \<le> 122"

definition readContinuedLine :: "Reader \<Rightarrow> ((io_error + string) \<times> Reader) option" where
  "readContinuedLine br =
     Option.bind (read_line [] br) (\<lambda>(line, br).
       case line of
         Inl e \<Rightarrow> Some (Inl e, br)
       | Inr l \<Rightarrow>
           if l = [] then Some (Inr [], br)
           else Option.bind (if Buffered br > 1 then map_option (\<lambda>((p, e), br). (e = None \<and> ascii_letter (hd p), br)) (Peek 1 br)
               else Some (False, br)) (\<lambda>(quick, br).
             if quick then Some (Inr (trim_blank l), br)
             else map_option (\<lambda>(buf, br). (Inr buf, br)) (continuation (trim_blank l) br)))"

text \<open>A field from its line; the key ends at the first colon.\<close>

definition parse_field :: "string \<Rightarrow> (string \<times> string) option" where
  "parse_field kv =
     (if CHR '':'' \<in> set kv
      then Some (canonicalMIMEHeaderKey (rev (dropWhile (\<lambda>c. c = CHR '' '') (rev (takeWhile (\<lambda>c. c \<noteq> CHR '':'') kv)))),
        dropWhile blank (drop 1 (dropWhile (\<lambda>c. c \<noteq> CHR '':'') kv)))
      else None)"

text \<open>\<open>ReadMIMEHeader\<close>\<close>

partial_function (option) read_fields :: "header \<Rightarrow> Reader \<Rightarrow> ((http_error option \<times> header) \<times> Reader) option" where
  [code]: "read_fields h br =
     Option.bind (readContinuedLine br) (\<lambda>(line, br).
       case line of
         Inl e \<Rightarrow> Some ((Some (if e = EOF then HttpUnexpectedEOF else HttpNet e), h), br)
       | Inr kv \<Rightarrow>
           if kv = [] then Some ((None, h), br)
           else case parse_field kv of
             None \<Rightarrow> Some ((Some (Malformed kv), h), br)
           | Some (k, v) \<Rightarrow> read_fields (if k = [] then h else header_add k v h) br)"

definition http_version :: "string \<Rightarrow> bool" where
  "http_version vers \<longleftrightarrow> take 5 vers = ''HTTP/'' \<and> CHR ''.'' \<in> set vers \<and>
     (let (major, minor) = (takeWhile (\<lambda>c. c \<noteq> CHR ''.'') (drop 5 vers), drop 1 (dropWhile (\<lambda>c. c \<noteq> CHR ''.'') vers))
      in case (parse_int64 major, parse_int64 minor) of
           (Some a, Some b) \<Rightarrow> 0 \<le> a \<and> a \<le> 1000000 \<and> 0 \<le> b \<and> b \<le> 1000000
         | _ \<Rightarrow> False)"

definition status_of :: "string \<Rightarrow> int option" where
  "status_of line =
     (let proto = takeWhile (\<lambda>c. c \<noteq> CHR '' '') line;
          code = takeWhile (\<lambda>c. c \<noteq> CHR '' '') (drop 1 (dropWhile (\<lambda>c. c \<noteq> CHR '' '') line))
      in if CHR '' '' \<in> set line \<and> length code = 3 \<and> http_version proto
         then (case parse_int64 code of Some n \<Rightarrow> if n < 0 then None else Some n | None \<Rightarrow> None)
         else None)"

record response =
  A_StatusCode :: int
  A_Header :: header
  A_Body :: string

text \<open>
  What the fields about the body make of the rest is the parameter \<open>transfer\<close>: an error, or the bytes
  that the body will give.
\<close>

type_synonym transfer = "int \<Rightarrow> header \<Rightarrow> Reader \<Rightarrow> http_error + string"

definition ReadResponse :: "transfer \<Rightarrow> Reader \<Rightarrow> ((http_error + response) \<times> Reader) option" where
  "ReadResponse transfer br =
     Option.bind (read_line [] br) (\<lambda>(line, br).
       case line of
         Inl e \<Rightarrow> Some (Inl (if e = EOF then HttpUnexpectedEOF else HttpNet e), br)
       | Inr l \<Rightarrow> (case status_of l of
           None \<Rightarrow> Some (Inl (Malformed l), br)
         | Some status \<Rightarrow> Option.bind (read_fields [] br) (\<lambda>((e, h), br).
             Some (case e of
                 Some e \<Rightarrow> Inl e
               | None \<Rightarrow> (case transfer status h br of
                   Inl e \<Rightarrow> Inl e
                 | Inr body \<Rightarrow> Inr \<lparr>A_StatusCode = status, A_Header = h, A_Body = body\<rparr>), br))))"

section \<open>The head of a request\<close>

record request =
  Q_Method :: string
  Q_URL :: url
  Q_Header :: header
  Q_Host :: string

definition parseRequestLine :: "string \<Rightarrow> (string \<times> string \<times> string) option" where
  "parseRequestLine line =
     (let (m, r) = split_cut (CHR '' '') line; (u, v) = split_cut (CHR '' '') r
      in if CHR '' '' \<in> set line \<and> CHR '' '' \<in> set r then Some (m, u, v) else None)"

text \<open>As the server reads it; \<open>transfer\<close> is as above, with the checks of the server on the host.\<close>

definition ReadRequest :: "(header \<Rightarrow> Reader \<Rightarrow> http_error option) \<Rightarrow> Reader \<Rightarrow> ((http_error + request) \<times> Reader) option" where
  "ReadRequest transfer br =
     Option.bind (read_line [] br) (\<lambda>(line, br).
       case line of
         Inl e \<Rightarrow> Some (Inl (if e = EOF then HttpUnexpectedEOF else HttpNet e), br)
       | Inr l \<Rightarrow> (case parseRequestLine l of
           None \<Rightarrow> Some (Inl (Malformed l), br)
         | Some (m, u, v) \<Rightarrow>
             if m = [] \<or> \<not> list_all is_token_char m \<or> \<not> http_version v then Some (Inl (Malformed l), br)
             else (case ParseRequestURI u of
               None \<Rightarrow> Some (Inl (Malformed u), br)
             | Some url \<Rightarrow> Option.bind (read_fields [] br) (\<lambda>((e, h), br).
                 Some (case e of
                     Some e \<Rightarrow> Inl e
                   | None \<Rightarrow> (case transfer h br of
                       Some e \<Rightarrow> Inl e
                     | None \<Rightarrow> Inr \<lparr>Q_Method = m, Q_URL = url,
                         Q_Header = List.filter (\<lambda>(k, _). k \<noteq> ''Host'') h,
                         Q_Host = (if U_Host url \<noteq> [] then U_Host url else header_Get ''Host'' h)\<rparr>), br)))))"

end
