(* ===== verification/WsDial.thy ===== *)
theory WsDial
  imports HttpText Datatypes
begin

text \<open>
  The opening handshake of a websocket (gorilla/websocket/client.go, server.go, util.go): the URL,
  the request of a client and the check of the answer, Dial, and the upgrade of a request by a
  server. A network connection is a script of what it delivers and of what its writes return. TLS,
  SHA-1, the source of randomness and what a response makes of its body are parameters.
\<close>

record link =
  L_src :: source
  L_writes :: "(nat \<times> io_error) option list"
  L_SetDeadline :: "io_error option"

record dial_world =
  N_dial :: "int option \<Rightarrow> string \<Rightarrow> string \<Rightarrow> io_error + link"    \<comment> \<open>net.Dialer with its deadline\<close>
  N_Handshake :: "string \<Rightarrow> link \<Rightarrow> io_error + link"                \<comment> \<open>TLS to the named server\<close>
  N_VerifyHostname :: "string \<Rightarrow> link \<Rightarrow> io_error option"
  N_sha1 :: "string \<Rightarrow> string"
  N_random :: "io_error + string"                                 \<comment> \<open>16 bytes of rand.Reader\<close>
  N_masks :: "nat \<Rightarrow> 32 word"
  N_transfer :: transfer
  N_now :: int

datatype handshake_error =
    RandomError io_error | DialError io_error | WriteError io_error | ResponseError http_error
  | ErrBadHandshake response
  | MalformedURL

section \<open>util.go\<close>

definition tokenListContainsValue :: "header \<Rightarrow> string \<Rightarrow> string \<Rightarrow> bool" where
  "tokenListContainsValue h name value \<longleftrightarrow>
     (\<exists>v \<in> set (header_values name h). \<exists>s \<in> set (split_on (CHR '','') v). EqualFold value (TrimSpace s))"

definition keyGUID :: string where
  "keyGUID = ''258EAFA5-E914-47DA-95CA-C5AB0DC85B11''"

definition computeAcceptKey :: "(string \<Rightarrow> string) \<Rightarrow> string \<Rightarrow> string" where
  "computeAcceptKey sha1 challengeKey = base64 (sha1 (challengeKey @ keyGUID))"

definition generateChallengeKey :: "io_error + string \<Rightarrow> io_error + string" where
  "generateChallengeKey random = (case random of Inl e \<Rightarrow> Inl e | Inr p \<Rightarrow> Inr (base64 p))"

section \<open>client.go\<close>

subsection \<open>The URL\<close>

definition parseURL :: "string \<Rightarrow> url option" where
  "parseURL s =
     (let scheme = (if take 5 s = ''ws://'' then Some (''ws'', drop 5 s)
        else if take 6 s = ''wss://'' then Some (''wss'', drop 6 s) else None)
      in case scheme of
           None \<Rightarrow> None
         | Some (scheme, s) \<Rightarrow>
             let (host, path) = (if CHR ''/'' \<in> set s then split_keep (CHR ''/'') s else (s, ''/''))
             in if CHR ''@'' \<in> set host then None
                else Some (zero_url\<lparr>U_Scheme := scheme, U_Host := host, U_Opaque := path\<rparr>))"

text \<open>\<open>LastIndex\<close>, with - 1 for a byte that is not there.\<close>

definition last_index :: "char \<Rightarrow> string \<Rightarrow> int" where
  "last_index c s = (case split_last c s of Some (before, _) \<Rightarrow> int (length before) | None \<Rightarrow> - 1)"

definition hostPortNoPort :: "url \<Rightarrow> string \<times> string" where
  "hostPortNoPort u =
     (let i = last_index (CHR '':'') (U_Host u)
      in if i > last_index (CHR '']'') (U_Host u) then (U_Host u, take (nat i) (U_Host u))
         else (U_Host u @ (if U_Scheme u = ''wss'' then '':443'' else '':80''), U_Host u))"

text \<open>\<open>URL.RequestURI\<close> of net/url.\<close>

definition RequestURI :: "url \<Rightarrow> string" where
  "RequestURI u =
     (if U_Opaque u = [] then (if EscapedPath u = [] then ''/'' else EscapedPath u)
      else if take 2 (U_Opaque u) = ''//'' then U_Scheme u @ '':'' @ U_Opaque u
      else U_Opaque u) @
     (if U_ForceQuery u \<or> U_RawQuery u \<noteq> [] then CHR ''?'' # U_RawQuery u else [])"

subsection \<open>NewClient\<close>

text \<open>
  Appending to \<open>writeBuf[:0]\<close> piece by piece goes into the write buffer until a piece does not fit;
  from then on another array is used.
\<close>

fun append_pieces :: "string \<Rightarrow> string \<Rightarrow> string list \<Rightarrow> string" where
  "append_pieces buf p [] = buf"
| "append_pieces buf p (x # xs) =
     (if length (p @ x) \<le> length buf then append_pieces (overwrite (length p) x buf) (p @ x) xs else buf)"

definition write_head :: "string list \<Rightarrow> Conn \<Rightarrow> (nat \<times> io_error option) \<times> Conn" where
  "write_head pieces c = net_write (concat pieces) (c\<lparr>K_writeBuf := append_pieces (K_writeBuf c) [] pieces\<rparr>)"

definition request_pieces :: "url \<Rightarrow> string \<Rightarrow> header \<Rightarrow> string list" where
  "request_pieces u challengeKey requestHeader =
     [''GET '', RequestURI u, '' HTTP/1.1'' @ [CHR 0x0D, CHR 0x0A] @ ''Host: '', U_Host u,
      [CHR 0x0D, CHR 0x0A] @ ''Upgrade: websocket'' @ [CHR 0x0D, CHR 0x0A] @ ''Connection: Upgrade'' @ [CHR 0x0D, CHR 0x0A] @
        ''Sec-WebSocket-Version: 13'' @ [CHR 0x0D, CHR 0x0A] @ ''Sec-WebSocket-Key: '',
      challengeKey, [CHR 0x0D, CHR 0x0A]] @
     concat (List.map (\<lambda>(k, vs). concat (List.map (\<lambda>v. [k, '': '', v, [CHR 0x0D, CHR 0x0A]]) vs)) requestHeader) @
     [[CHR 0x0D, CHR 0x0A]]"

text \<open>With the connection, when one was made, as the call leaves it.\<close>

definition websocket_NewClient :: "dial_world \<Rightarrow> link \<Rightarrow> url \<Rightarrow> header \<Rightarrow> int \<Rightarrow> int \<Rightarrow>
    ((handshake_error + response) \<times> Conn option) option" where
  "websocket_NewClient W netConn u requestHeader readBufSize writeBufSize =
     (case generateChallengeKey (N_random W) of
        Inl e \<Rightarrow> Some (Inl (RandomError e), None)
      | Inr challengeKey \<Rightarrow> Option.bind (newConn (L_src netConn) (L_writes netConn) (N_masks W) (N_now W) False readBufSize writeBufSize) (\<lambda>c.
          case write_head (request_pieces u challengeKey requestHeader) c of
            ((n, Some e), c) \<Rightarrow> Some (Inl (WriteError e), Some c)
          | ((n, None), c) \<Rightarrow> Option.bind (ReadResponse (N_transfer W) (K_br c)) (\<lambda>(r, br).
              let c = c\<lparr>K_br := br\<rparr>
              in case r of
                   Inl e \<Rightarrow> Some (Inl (ResponseError e), Some c)
                 | Inr resp \<Rightarrow>
                     if A_StatusCode resp \<noteq> 101 \<or> \<not> EqualFold (header_Get ''Upgrade'' (A_Header resp)) ''websocket'' \<or>
                        \<not> EqualFold (header_Get ''Connection'' (A_Header resp)) ''upgrade'' \<or>
                        header_Get ''Sec-Websocket-Accept'' (A_Header resp) \<noteq> computeAcceptKey (N_sha1 W) challengeKey
                     then Some (Inl (ErrBadHandshake resp), Some c)
                     else Some (Inr resp, Some (c\<lparr>K_subprotocol := header_Get ''Sec-Websocket-Protocol'' (A_Header resp)\<rparr>)))))"

subsection \<open>Dial\<close>

record Dialer =
  D_NetDial :: "(string \<Rightarrow> string \<Rightarrow> io_error + link) option"
  D_TLSClientConfig :: "(string \<times> bool) option"                  \<comment> \<open>ServerName, InsecureSkipVerify\<close>
  D_HandshakeTimeout :: int
  D_ReadBufferSize :: int
  D_WriteBufferSize :: int
  D_Subprotocols :: "string list"

definition zero_Dialer :: Dialer where
  "zero_Dialer = \<lparr>D_NetDial = None, D_TLSClientConfig = None, D_HandshakeTimeout = 0, D_ReadBufferSize = 0,
     D_WriteBufferSize = 0, D_Subprotocols = []\<rparr>"

definition DefaultDialer :: "Dialer option" where "DefaultDialer = None"

definition secure :: "dial_world \<Rightarrow> Dialer \<Rightarrow> url \<Rightarrow> string \<Rightarrow> link \<Rightarrow> io_error + link" where
  "secure W d u hostNoPort netConn =
     (if U_Scheme u = ''wss'' then
        (let (name, skip) = (case D_TLSClientConfig d of
               None \<Rightarrow> (hostNoPort, False)
             | Some (n, skip) \<Rightarrow> (if n = [] then hostNoPort else n, skip))
         in case N_Handshake W name netConn of
              Inl e \<Rightarrow> Inl e
            | Inr tlsConn \<Rightarrow>
                if skip then Inr tlsConn
                else (case N_VerifyHostname W name tlsConn of Some e \<Rightarrow> Inl e | None \<Rightarrow> Inr tlsConn))
      else Inr netConn)"

definition with_subprotocols :: "string list \<Rightarrow> header \<Rightarrow> header" where
  "with_subprotocols ps h = (if ps \<noteq> [] then header_Set ''Sec-Websocket-Protocol'' (join_with '', '' ps) h else h)"

definition with_host :: "url \<Rightarrow> header \<Rightarrow> url \<times> header" where
  "with_host u h =
     (if header_values ''Host'' h \<noteq> [] then (u\<lparr>U_Host := header_Get ''Host'' h\<rparr>, List.filter (\<lambda>(k, _). k \<noteq> ''Host'') h)
      else (u, h))"

text \<open>
  The end of Dial: a response that was refused keeps what is read of its body, and on every error the
  connection is closed. The last part says whether the network connection stays open.
\<close>

definition dial_end :: "(handshake_error + response) \<times> Conn option \<Rightarrow> (handshake_error + response) \<times> Conn option \<times> bool" where
  "dial_end rc =
     (let c = map_option (\<lambda>c. snd (net_close c)) (snd rc)
      in case fst rc of
           Inr resp \<Rightarrow> (Inr resp, snd rc, True)
         | Inl (ErrBadHandshake resp) \<Rightarrow> (Inl (ErrBadHandshake (resp\<lparr>A_Body := take 1024 (A_Body resp)\<rparr>)), c, False)
         | Inl e \<Rightarrow> (Inl e, c, False))"

definition Dial :: "dial_world \<Rightarrow> Dialer option \<Rightarrow> string \<Rightarrow> header \<Rightarrow>
    ((handshake_error + response) \<times> Conn option \<times> bool) option" where
  "Dial W dialer urlStr requestHeader =
     (case parseURL urlStr of
        None \<Rightarrow> Some (Inl MalformedURL, None, False)
      | Some u \<Rightarrow>
          let (hostPort, hostNoPort) = hostPortNoPort u;
              d = (case dialer of None \<Rightarrow> zero_Dialer | Some d \<Rightarrow> d);
              deadline = (if D_HandshakeTimeout d \<noteq> 0 then Some (N_now W + D_HandshakeTimeout d) else None);
              netDial = (case D_NetDial d of Some f \<Rightarrow> f | None \<Rightarrow> N_dial W deadline)
          in case netDial ''tcp'' hostPort of
               Inl e \<Rightarrow> Some (Inl (DialError e), None, False)
             | Inr netConn \<Rightarrow>
                 (case L_SetDeadline netConn of
                    Some e \<Rightarrow> Some (Inl (DialError e), None, False)
                  | None \<Rightarrow>
                      (case secure W d u hostNoPort netConn of
                         Inl e \<Rightarrow> Some (Inl (DialError e), None, False)
                       | Inr netConn \<Rightarrow>
                           let (u, h) = with_host u (with_subprotocols (D_Subprotocols d) requestHeader)
                           in map_option dial_end (websocket_NewClient W netConn u h (D_ReadBufferSize d) (D_WriteBufferSize d)))))"

section \<open>server.go\<close>

datatype upgrade_error =
    HandshakeError int string      \<comment> \<open>the status of the reply and the reason\<close>
  | EarlyData                      \<comment> \<open>the connection is closed\<close>
  | UpgradeWrite io_error

record Upgrader =
  G_ReadBufferSize :: int
  G_WriteBufferSize :: int
  G_Subprotocols :: "string list option"
  G_CheckOrigin :: "(request \<Rightarrow> bool) option"

definition checkSameOrigin :: "request \<Rightarrow> bool" where
  "checkSameOrigin r =
     (case header_values ''Origin'' (Q_Header r) of
        [] \<Rightarrow> True
      | origin # _ \<Rightarrow> (case url_Parse origin of None \<Rightarrow> False | Some u \<Rightarrow> U_Host u = Q_Host r))"

definition Subprotocols :: "request \<Rightarrow> string list" where
  "Subprotocols r =
     (let h = TrimSpace (header_Get ''Sec-Websocket-Protocol'' (Q_Header r))
      in if h = [] then [] else List.map TrimSpace (split_on (CHR '','') h))"

definition selectSubprotocol :: "Upgrader \<Rightarrow> request \<Rightarrow> header option \<Rightarrow> string" where
  "selectSubprotocol g r responseHeader =
     (case G_Subprotocols g of
        Some ps \<Rightarrow> (case List.filter (\<lambda>p. p \<in> set (Subprotocols r)) ps of p # _ \<Rightarrow> p | [] \<Rightarrow> [])
      | None \<Rightarrow> (case responseHeader of Some h \<Rightarrow> header_Get ''Sec-Websocket-Protocol'' h | None \<Rightarrow> []))"

text \<open>Control characters become blanks, so that a value does not end its line.\<close>

definition no_control :: "char \<Rightarrow> char" where
  "no_control b = (if byte b \<le> 31 then CHR '' '' else b)"

definition answer_pieces :: "(string \<Rightarrow> string) \<Rightarrow> string \<Rightarrow> string \<Rightarrow> header \<Rightarrow> string list" where
  "answer_pieces sha1 challengeKey subprotocol responseHeader =
     [''HTTP/1.1 101 Switching Protocols'' @ [CHR 0x0D, CHR 0x0A] @ ''Upgrade: websocket'' @ [CHR 0x0D, CHR 0x0A] @
        ''Connection: Upgrade'' @ [CHR 0x0D, CHR 0x0A] @ ''Sec-WebSocket-Accept: '',
      computeAcceptKey sha1 challengeKey, [CHR 0x0D, CHR 0x0A]] @
     (if subprotocol \<noteq> [] then [''Sec-Websocket-Protocol: '', subprotocol, [CHR 0x0D, CHR 0x0A]] else []) @
     concat (List.map (\<lambda>(k, vs). concat (List.map (\<lambda>v. [k, '': ''] @ List.map (\<lambda>b. [no_control b]) v @ [[CHR 0x0D, CHR 0x0A]]) vs))
       (List.filter (\<lambda>(k, _). k \<noteq> ''Sec-Websocket-Protocol'') responseHeader)) @
     [[CHR 0x0D, CHR 0x0A]]"

text \<open>
  \<open>hijack\<close> is what the connection of the request offers: nothing, an error, or the connection with
  the number of bytes that the server has read from it already.
\<close>

definition Upgrader_Upgrade :: "dial_world \<Rightarrow> Upgrader \<Rightarrow> (string + link \<times> nat) option \<Rightarrow> request \<Rightarrow> header option \<Rightarrow>
    ((upgrade_error + unit) \<times> Conn option) option" where
  "Upgrader_Upgrade W g hijack r responseHeader =
     (let refuse = (\<lambda>status reason. Some (Inl (HandshakeError status reason), None)); h = Q_Header r
      in if (case header_values ''Sec-Websocket-Version'' h of [] \<Rightarrow> True | v # _ \<Rightarrow> v \<noteq> ''13'')
         then refuse 400 ''websocket: version != 13''
         else if \<not> tokenListContainsValue h ''Connection'' ''upgrade''
         then refuse 400 (''websocket: could not find connection header with token '' @ [CHR 39] @ ''upgrade'' @ [CHR 39])
         else if \<not> tokenListContainsValue h ''Upgrade'' ''websocket''
         then refuse 400 (''websocket: could not find upgrade header with token '' @ [CHR 39] @ ''websocket'' @ [CHR 39])
         else if \<not> (case G_CheckOrigin g of Some f \<Rightarrow> f r | None \<Rightarrow> checkSameOrigin r)
         then refuse 403 ''websocket: origin not allowed''
         else
           let challengeKey = header_Get ''Sec-Websocket-Key'' h
           in if challengeKey = [] then refuse 400 ''websocket: key missing or blank''
           else
             let subprotocol = selectSubprotocol g r responseHeader
             in case hijack of
                  None \<Rightarrow> refuse 500 ''websocket: response does not implement http.Hijacker''
                | Some (Inl e) \<Rightarrow> refuse 500 e
                | Some (Inr (netConn, buffered)) \<Rightarrow>
                    if buffered > 0 then Some (Inl EarlyData, None)
                    else Option.bind (newConn (L_src netConn) (L_writes netConn) (N_masks W) (N_now W) True (G_ReadBufferSize g) (G_WriteBufferSize g)) (\<lambda>c.
                      case write_head (answer_pieces (N_sha1 W) challengeKey subprotocol (case responseHeader of Some h \<Rightarrow> h | None \<Rightarrow> []))
                          (c\<lparr>K_subprotocol := subprotocol\<rparr>) of
                        ((n, Some e), c) \<Rightarrow> Some (Inl (UpgradeWrite e), Some (snd (net_close c)))
                      | ((n, None), c) \<Rightarrow> Some (Inr (), Some c)))"

text \<open>The older function: every origin is allowed, and no reply is made to a refused request.\<close>

definition Upgrade :: "dial_world \<Rightarrow> (string + link \<times> nat) option \<Rightarrow> request \<Rightarrow> header option \<Rightarrow> int \<Rightarrow> int \<Rightarrow>
    ((upgrade_error + unit) \<times> Conn option) option" where
  "Upgrade W hijack r responseHeader readBufSize writeBufSize =
     Upgrader_Upgrade W \<lparr>G_ReadBufferSize = readBufSize, G_WriteBufferSize = writeBufSize, G_Subprotocols = None,
       G_CheckOrigin = Some (\<lambda>_. True)\<rparr> hijack r responseHeader"

end
