(* ===== verification/HttpFacts.thy ===== *)
theory HttpFacts
  imports HttpText
begin

text \<open>
  Reading the head of a request or a response from a connection that delivers it, in whatever
  pieces: the lines, the fields, and the header they make.
\<close>

section \<open>Bytes and lines\<close>

text \<open>The buffer holds the line end, as every buffer of a Reader does.\<close>

definition gives :: "Reader \<Rightarrow> string \<Rightarrow> bool" where
  "gives br s \<longleftrightarrow> comes br s \<and> 2 \<le> capacity br"

lemma ReadByte_fill_gives:
  "gives br (c # s) \<Longrightarrow> \<exists>br'. ReadByte_fill br = Some (None, br') \<and> gives br' (c # s) \<and> R_r br' < R_w br'"
proof (induction br rule: ReadByte_fill.induct)
  case (1 b)
  have inv: "reader_inv b" "pending b = c # s" "2 \<le> capacity b" using 1(2) by (auto simp: gives_def comes_def)
  show ?case
  proof (cases "R_r b = R_w b")
    case False
    then have "R_r b < R_w b" using inv(1) by (auto simp: reader_inv_def)
    with False 1(2) show ?thesis by (simp add: ReadByte_fill.simps)
  next
    case True
    then have src: "R_src b \<noteq> []" "R_err b = None" using inv by (auto simp: pending_def window_def reader_inv_def)
    obtain b' where b': "fill b = Some b'" "reader_inv b'" "pending b' = pending b" "capacity b' = capacity b"
      using fill_stream [OF inv(1) src(2)] True inv(3) by (auto simp: Buffered_def)
    then have "gives b' (c # s)" using inv by (simp add: gives_def comes_def)
    with 1(1) [OF True _ b'(1)] src(2) True b'(1) show ?thesis by (subst ReadByte_fill.simps) simp
  qed
qed

lemma ReadByte_gives:
  assumes "gives br (c # s)"
  obtains br' br'' where "ReadByte br = Some ((byte c, None), br')" "gives br' s"
    "UnreadByte br' = (None, br'')" "gives br'' (c # s)"
proof -
  have "gives (br\<lparr>R_lastRuneSize := - 1\<rparr>) (c # s)"
    using assms by (simp add: gives_def comes_def reader_inv_def pending_def capacity_def Buffered_def)
  then obtain b where b: "ReadByte_fill (br\<lparr>R_lastRuneSize := - 1\<rparr>) = Some (None, b)" "gives b (c # s)" "R_r b < R_w b"
    using ReadByte_fill_gives by blast
  have inv: "reader_inv b" "window b @ stream_of (R_src b) = c # s" "2 \<le> capacity b"
    using b(2) by (auto simp: gives_def comes_def pending_def)
  have w: "R_w b \<le> length (R_buf b)" using inv(1) by (simp add: reader_inv_def)
  have buf: "drop (R_r b) (R_buf b) = R_buf b ! R_r b # drop (Suc (R_r b)) (R_buf b)"
    using b(3) w by (simp add: Cons_nth_drop_Suc)
  have n: "R_w b - R_r b = Suc (R_w b - Suc (R_r b))" using b(3) by simp
  have win: "window b = R_buf b ! R_r b # take (R_w b - Suc (R_r b)) (drop (Suc (R_r b)) (R_buf b))"
    unfolding window_def buf n by simp
  let ?b' = "b\<lparr>R_r := R_r b + 1, R_lastByte := int (byte c)\<rparr>"
  let ?b'' = "b\<lparr>R_lastByte := - 1, R_lastRuneSize := - 1\<rparr>"
  have c: "R_buf b ! R_r b = c" "take (R_w b - Suc (R_r b)) (drop (Suc (R_r b)) (R_buf b)) @ stream_of (R_src b) = s"
    using win inv(2) by simp_all
  show thesis
  proof (rule that)
    show "ReadByte br = Some ((byte c, None), ?b')" using b(1) c(1) by (simp add: ReadByte_def Let_def)
    show "gives ?b' s" using inv c(2) b(3)
      by (auto simp: gives_def comes_def reader_inv_def pending_def capacity_def window_def Buffered_def)
    have "(R_buf b)[R_r b := chr (byte c)] = R_buf b" using c(1) by (metis chr_byte list_update_id)
    then show "UnreadByte ?b' = (None, ?b'')" by (simp add: UnreadByte_def)
    show "gives ?b'' (c # s)" using inv by (simp add: gives_def comes_def reader_inv_def pending_def capacity_def window_def Buffered_def)
  qed
qed

lemma line_spec_whole:
  assumes "CHR 0x0A \<notin> set l" "length l + 2 \<le> n"
  shows "line_spec n (l @ CHR 0x0D # CHR 0x0A # rest) = ((l, False, None), rest)"
proof -
  have "take n (l @ CHR 0x0D # CHR 0x0A # rest) = (l @ [CHR 0x0D]) @ CHR 0x0A # take (n - (length l + 2)) rest"
    using assms(2) by (simp add: take_Cons' numeral_2_eq_2)
  then have "index_byte (CHR 0x0A) (take n (l @ CHR 0x0D # CHR 0x0A # rest)) = Some (length (l @ [CHR 0x0D]))"
    using index_byte_first [of "CHR 0x0A" "l @ [CHR 0x0D]"] assms(1) by simp
  then show ?thesis by (simp add: line_spec_def slice_spec_def strip_eol_def nth_append)
qed

lemma last_take_nth: "0 < n \<Longrightarrow> n \<le> length s \<Longrightarrow> last (take n s) = s ! (n - 1)"
  by (cases s) (simp_all add: last_conv_nth)

lemma line_spec_part:
  assumes "CHR 0x0A \<notin> set l" "\<not> length l + 2 \<le> n" "2 \<le> n"
  obtains p l' where "line_spec n (l @ CHR 0x0D # CHR 0x0A # rest) = ((p, True, None), l' @ CHR 0x0D # CHR 0x0A # rest)"
    "l = p @ l'" "p \<noteq> []"
proof -
  let ?s = "l @ CHR 0x0D # CHR 0x0A # rest"
  have "take (n - length l) (CHR 0x0D # CHR 0x0A # rest) = take (n - length l) [CHR 0x0D]"
    using assms(2) by (cases "n - length l") auto
  then have t: "take n ?s = take n (l @ [CHR 0x0D])" "n \<le> length ?s" using assms(2) by simp_all
  have "CHR 0x0A \<notin> set (take n ?s)" unfolding t(1) using assms(1) by (auto dest: in_set_takeD)
  then have "index_byte (CHR 0x0A) (take n ?s) = None" by (simp only: index_byte_none not_False_eq_True)
  then have sl: "slice_spec n (CHR 0x0A) ?s = ((take n ?s, Some ErrBufferFull), drop n ?s)"
    using t(2) by (simp only: slice_spec_def option.case if_True)
  show thesis
  proof (cases "last (take n ?s) = CHR 0x0D")
    case False
    then have n: "n \<le> length l" using assms(2) unfolding t by (cases "n = Suc (length l)") auto
    then have "line_spec n ?s = ((take n l, True, None), drop n l @ CHR 0x0D # CHR 0x0A # rest)"
      using sl False by (simp add: line_spec_def)
    with that [of "take n l" "drop n l"] n assms(3) show thesis by (cases l) auto
  next
    case True
    have n: "n - 1 \<le> length l" using assms(2) by simp
    have b: "butlast (take n ?s) = take (n - 1) l"
    proof -
      have "butlast (take n ?s) = take (n - 1) ?s" using t(2) by (simp only: butlast_take)
      with n show ?thesis by simp
    qed
    have d: "drop (n - 1) ?s = CHR 0x0D # drop n ?s"
    proof -
      have lt: "n - 1 < length ?s" using assms(2) by simp
      have "?s ! (n - 1) = last (take n ?s)" by (rule last_take_nth [symmetric]) (use assms(3) t(2) in linarith)+
      with True lt show ?thesis using Cons_nth_drop_Suc [OF lt] assms(3) by simp
    qed
    have "line_spec n ?s = ((take (n - 1) l, True, None), drop (n - 1) l @ CHR 0x0D # CHR 0x0A # rest)"
      using sl True b d n by (simp add: line_spec_def)
    with that [of "take (n - 1) l" "drop (n - 1) l"] n assms(2,3) show thesis by (cases l) auto
  qed
qed

lemma read_line_gives:
  assumes "gives br (l @ CHR 0x0D # CHR 0x0A # rest)" "CHR 0x0A \<notin> set l"
  shows "\<exists>br'. read_line got br = Some (Inr (got @ l), br') \<and> gives br' rest"
  using assms
proof (induction "length l" arbitrary: l br got rule: less_induct)
  case less
  have inv: "reader_inv br" "pending br = l @ CHR 0x0D # CHR 0x0A # rest" "2 \<le> capacity br"
    using less.prems(1) by (auto simp: gives_def comes_def)
  obtain br1 where r: "ReadLine br = Some (fst (line_spec (capacity br) (pending br)), br1)"
    "pending br1 = snd (line_spec (capacity br) (pending br))" "reader_inv br1" "capacity br1 = capacity br"
    using bufio.line_law [OF inv(1)] by blast
  show ?case
  proof (cases "length l + 2 \<le> capacity br")
    case True
    with r inv line_spec_whole [OF less.prems(2) True] show ?thesis
      by (subst read_line.simps) (simp add: gives_def comes_def)
  next
    case False
    obtain p l' where p: "line_spec (capacity br) (l @ CHR 0x0D # CHR 0x0A # rest) = ((p, True, None), l' @ CHR 0x0D # CHR 0x0A # rest)"
      "l = p @ l'" "p \<noteq> []" using line_spec_part [OF less.prems(2) False inv(3)] by blast
    have "gives br1 (l' @ CHR 0x0D # CHR 0x0A # rest)" using r inv p(1) by (simp add: gives_def comes_def)
    then obtain br2 where "read_line (got @ p) br1 = Some (Inr ((got @ p) @ l'), br2)" "gives br2 rest"
      using less.hyps [of l' br1 "got @ p"] p(2,3) less.prems(2) by auto
    with r inv p show ?thesis by (subst read_line.simps) simp
  qed
qed

section \<open>Fields\<close>

lemma blank_code: "blank c \<longleftrightarrow> byte c = 32 \<or> byte c = 9"
proof -
  have "byte c = 32 \<longleftrightarrow> c = CHR '' ''" using byte_eq_iff [of c "CHR '' ''"] by (simp add: byte_def)
  then show ?thesis by (auto simp: blank_def)
qed

lemma skipSpace_gives:
  assumes "gives br (c # s)" "\<not> blank c"
  obtains br' where "skipSpace n br = Some (n, br')" "gives br' (c # s)"
proof -
  obtain b1 b2 where "ReadByte br = Some ((byte c, None), b1)" "UnreadByte b1 = (None, b2)" "gives b2 (c # s)"
    using ReadByte_gives [OF assms(1)] by metis
  with assms(2) that show thesis by (subst (asm) skipSpace.simps) (simp add: blank_code)
qed

lemma Peek_buffered:
  assumes "Buffered br > 1"
  shows "Peek 1 br = Some ((take 1 (window br), None), br) \<or> Peek 1 br = Some (([], Some ErrBufferFull), br)"
  using assms by (simp add: Peek_def Peek_fill.simps)

lemma readContinuedLine_gives:
  assumes "gives br (l @ CHR 0x0D # CHR 0x0A # c # s)" "CHR 0x0A \<notin> set l" "l \<noteq> []" "\<not> blank c"
  obtains br' where "readContinuedLine br = Some (Inr (trim_blank l), br')" "gives br' (c # s)"
proof -
  obtain b where b: "read_line [] br = Some (Inr l, b)" "gives b (c # s)"
    using read_line_gives [OF assms(1,2), of "[]"] by auto
  obtain b1 where b1: "skipSpace 0 b = Some (0, b1)" "gives b1 (c # s)" using skipSpace_gives [OF b(2) assms(4)] by blast
  have rest: "continuation buf b = Some (buf, b1)" for buf using b1(1) by (subst continuation.simps) simp
  consider "Buffered b > 1" "Peek 1 b = Some ((take 1 (window b), None), b)"
    | "Buffered b > 1" "Peek 1 b = Some (([], Some ErrBufferFull), b)" | "\<not> Buffered b > 1"
    using Peek_buffered by blast
  then show thesis
  proof cases
    case 1
    show thesis
    proof (cases "ascii_letter (hd (take 1 (window b)))")
      case True
      with 1 b assms(3) that show thesis by (simp add: readContinuedLine_def)
    next
      case False
      with 1 b assms(3) rest b1(2) that show thesis by (simp add: readContinuedLine_def)
    qed
  qed (use b assms(3) rest b1(2) that in \<open>simp_all add: readContinuedLine_def\<close>)
qed

lemma readContinuedLine_empty:
  assumes "gives br (CHR 0x0D # CHR 0x0A # s)"
  obtains br' where "readContinuedLine br = Some (Inr [], br')" "gives br' s"
  using read_line_gives [of br "[]" s "[]"] assms that by (auto simp: readContinuedLine_def)

definition field_text :: "string \<times> string \<Rightarrow> string" where
  "field_text kv = fst kv @ '': '' @ snd kv @ [CHR 0x0D, CHR 0x0A]"

definition good_field :: "string \<times> string \<Rightarrow> bool" where
  "good_field kv \<longleftrightarrow> fst kv \<noteq> [] \<and> list_all is_token_char (fst kv) \<and> CHR 0x0A \<notin> set (snd kv)"

definition header_of :: "(string \<times> string) list \<Rightarrow> header \<Rightarrow> header" where
  "header_of kvs h = foldl (\<lambda>h (k, v). header_add (canonicalMIMEHeaderKey k) (trim_blank v) h) h kvs"

lemma not_token [simp]: "\<not> is_token_char (CHR '':'')" "\<not> is_token_char (CHR '' '')" "\<not> is_token_char (CHR 0x0A)"
  "\<not> is_token_char (CHR 0x0D)"
  by (simp_all add: is_token_char_def byte_def)

lemma token_not_blank: "is_token_char c \<Longrightarrow> \<not> blank c"
  by (auto simp: is_token_char_def blank_code byte_def)

lemma dropWhile_rev_commute:
  "dropWhile P (rev (dropWhile P (rev s))) = rev (dropWhile P (rev (dropWhile P s)))"
proof (induction s)
  case (Cons a s)
  show ?case
  proof (cases "P a")
    case True
    have "dropWhile P (rev (dropWhile P (rev (a # s)))) = dropWhile P (rev (dropWhile P (rev s)))"
      using True by (cases "\<forall>x \<in> set s. P x") (auto simp: dropWhile_append)
    with Cons True show ?thesis by simp
  next
    case False
    then show ?thesis by (auto simp: dropWhile_append)
  qed
qed simp

lemma trim_blank_field:
  assumes "good_field (k, v)"
  shows "trim_blank (k @ '': '' @ v) = k @ '':'' @ rev (dropWhile blank (rev ('' '' @ v)))"
proof -
  have k: "k \<noteq> []" "\<not> blank (hd k)" using assms by (auto simp: good_field_def neq_Nil_conv token_not_blank)
  have colon: "\<not> blank (CHR '':'')" by (simp add: blank_code byte_def)
  have "dropWhile blank (k @ '': '' @ v) = k @ '': '' @ v" using k by (cases k) simp_all
  with colon show ?thesis by (simp add: trim_blank_def dropWhile_append)
qed

lemma parse_field_text:
  assumes "good_field (k, v)"
  shows "parse_field (trim_blank (k @ '': '' @ v)) = Some (canonicalMIMEHeaderKey k, trim_blank v)"
proof -
  let ?r = "rev (dropWhile blank (rev ('' '' @ v)))"
  have k: "k \<noteq> []" "\<forall>c \<in> set k. is_token_char c" using assms by (simp_all add: good_field_def list_all_iff)
  have t: "takeWhile (\<lambda>c. c \<noteq> CHR '':'') (k @ '':'' @ ?r) = k" "dropWhile (\<lambda>c. c \<noteq> CHR '':'') (k @ '':'' @ ?r) = '':'' @ ?r"
    using k(2) by (auto simp: takeWhile_append dropWhile_append)
  have l: "dropWhile (\<lambda>c. c = CHR '' '') (rev k) = rev k"
  proof -
    have "last k \<noteq> CHR '' ''" using k last_in_set not_token(2) by metis
    with k(1) show ?thesis by (cases "rev k") (auto simp: last_rev [symmetric] dest: arg_cong [of "rev k" _ hd] simp: hd_rev)
  qed
  have "dropWhile blank ?r = trim_blank v"
    unfolding dropWhile_rev_commute by (simp add: trim_blank_def blank_def)
  then show ?thesis unfolding trim_blank_field [OF assms] parse_field_def using t l by simp
qed

lemma canonical_nonempty: "k \<noteq> [] \<Longrightarrow> canonicalMIMEHeaderKey k \<noteq> []"
  by (cases k) (auto simp: canonicalMIMEHeaderKey_def Let_def)

lemma read_fields_gives:
  assumes "gives br (concat (List.map field_text kvs) @ CHR 0x0D # CHR 0x0A # s)" "list_all good_field kvs"
  shows "\<exists>br'. read_fields h br = Some ((None, header_of kvs h), br') \<and> gives br' s"
  using assms
proof (induction kvs arbitrary: br h)
  case Nil
  obtain b where "readContinuedLine br = Some (Inr [], b)" "gives b s" using readContinuedLine_empty Nil(1) by auto
  then show ?case by (subst read_fields.simps) (simp add: header_of_def)
next
  case (Cons kv kvs)
  obtain k v where kv: "kv = (k, v)" "good_field (k, v)" using Cons.prems(2) by (cases kv) auto
  let ?rest = "concat (List.map field_text kvs) @ CHR 0x0D # CHR 0x0A # s"
  have "\<exists>c r. ?rest = c # r \<and> \<not> blank c"
  proof (cases kvs)
    case Nil
    then show ?thesis by (simp add: blank_code byte_def)
  next
    case (Cons kv' kvs')
    then obtain c k' where "fst kv' = c # k'" "is_token_char c"
      using \<open>list_all good_field (kv # kvs)\<close> by (cases "fst kv'") (auto simp: good_field_def)
    with Cons token_not_blank show ?thesis by (simp add: field_text_def)
  qed
  then obtain c r where cr: "?rest = c # r" "\<not> blank c" by blast
  let ?l = "k @ '': '' @ v"
  have l: "?l \<noteq> []" "CHR 0x0A \<notin> set ?l" using kv(2) by (auto simp: good_field_def list_all_iff)
  have "gives br (?l @ CHR 0x0D # CHR 0x0A # c # r)" using Cons.prems(1) kv(1) unfolding cr(1) [symmetric] by (simp add: field_text_def [of "(k, v)"])
  then obtain b where b: "readContinuedLine br = Some (Inr (trim_blank ?l), b)" "gives b (c # r)"
    using readContinuedLine_gives l cr(2) by blast
  have ne: "trim_blank ?l \<noteq> []" "canonicalMIMEHeaderKey k \<noteq> []"
    using trim_blank_field [OF kv(2)] canonical_nonempty kv(2) by (auto simp: good_field_def)
  obtain b' where b': "read_fields (header_add (canonicalMIMEHeaderKey k) (trim_blank v) h) b =
      Some ((None, header_of kvs (header_add (canonicalMIMEHeaderKey k) (trim_blank v) h)), b')" "gives b' s"
    using Cons.IH [of b] b(2) cr(1) Cons.prems(2) by auto
  with b(1) ne parse_field_text [OF kv(2)] kv(1) show ?case
    by (subst read_fields.simps) (simp add: header_of_def)
qed

text \<open>A key has the value of its first field.\<close>

lemma header_of_Nil [simp]: "header_of [] h = h"
  by (simp add: header_of_def)

lemma header_of_Cons [simp]:
  "header_of ((k, v) # kvs) h = header_of kvs (header_add (canonicalMIMEHeaderKey k) (trim_blank v) h)"
  by (simp add: header_of_def)

lemma header_values_of:
  "header_values k (header_of kvs h) =
     header_values k h @ List.map (\<lambda>(_, v). trim_blank v) (List.filter (\<lambda>(k', _). canonicalMIMEHeaderKey k' = k) kvs)"
  by (induction kvs arbitrary: h) auto

end
