(* ===== verification/WsRuns.thy ===== *)
theory WsRuns
  imports WsFacts Lifecycle
begin

text \<open>
  Websocket connections at work, and what the slack client makes of them: messages from one side
  to the other, a connection that ends within a message, an error that is a timeout, and two
  goroutines that write at once.
\<close>

section \<open>From one side to the other\<close>

fun write_msgs :: "(int \<times> string) list \<Rightarrow> Conn \<Rightarrow> Conn option" where
  "write_msgs [] c = Some c"
| "write_msgs ((t, data) # ms) c = do {
     (err, c) \<leftarrow> WriteMessage t data c;
     (if err = None then write_msgs ms c else None)
   }"

fun read_msgs :: "ws_env \<Rightarrow> nat \<Rightarrow> Conn \<Rightarrow> ((int \<times> string) list \<times> Conn) option" where
  "read_msgs env 0 c = Some ([], c)"
| "read_msgs env (Suc n) c = do {
     ((t, data, err), c) \<leftarrow> ReadMessage env c;
     (if err = None then do { (ms, c) \<leftarrow> read_msgs env n c; Some ((t, data) # ms, c) } else None)
   }"

definition sendable_msg :: "int \<times> string \<Rightarrow> bool" where
  "sendable_msg m \<longleftrightarrow> isData (fst m) \<and> length (snd m) < 2 ^ 63"

lemma newConn_writes:
  "newConn src [] rnd now srv rs ws = Some c \<Longrightarrow> 0 \<le> ws \<Longrightarrow>
     filling c noFrame [] \<and> K_isServer c = srv \<and> K_sent c = []"
  by (auto simp: newConn_def filling_empty writes_ok_def maxFrameHeaderSize_def defaultWriteBufferSize_def Let_def split: if_splits)

lemma newConn_reads:
  "newConn src [] rnd now srv rs ws = Some c \<Longrightarrow> calm src \<Longrightarrow> reading c [] True (stream_of src) \<and> K_isServer c = srv"
  by (auto simp: newConn_def reading_none writes_ok_def comes_def Let_def split: if_splits)

lemma write_msgs_sends:
  assumes "filling c noFrame []" "\<forall>m \<in> set ms. sendable_msg m"
  obtains wires c' where "write_msgs ms c = Some c'" "K_sent c' = K_sent c @ concat wires"
    "list_all2 (\<lambda>(t, data) wire. message_text (\<not> K_isServer c) t data wire) ms wires"
proof -
  have "\<exists>wires c'. write_msgs ms c = Some c' \<and> K_sent c' = K_sent c @ concat wires \<and>
      list_all2 (\<lambda>(t, data) wire. message_text (\<not> K_isServer c) t data wire) ms wires"
    using assms
  proof (induction ms arbitrary: c)
    case Nil
    then show ?case by (auto intro: exI [of _ "[]"])
  next
    case (Cons m ms)
    obtain t data where m: "m = (t, data)" by force
    with Cons.prems(2) have "isData t" "length data < 2 ^ 63" by (auto simp: sendable_msg_def)
    from WriteMessage_sends [OF Cons.prems(1) this] obtain wire c1 where
      c1: "WriteMessage t data c = Some (None, c1)" "message_text (\<not> K_isServer c) t data wire"
      "K_sent c1 = K_sent c @ wire" "filling c1 noFrame []" "K_isServer c1 = K_isServer c" "K_writeSeq c1 = K_writeSeq c + 1" .
    from Cons.IH [OF c1(4)] Cons.prems(2) obtain wires c' where
      "write_msgs ms c1 = Some c'" "K_sent c' = K_sent c1 @ concat wires"
      "list_all2 (\<lambda>(t, data) wire. message_text (\<not> K_isServer c1) t data wire) ms wires" by auto
    with c1 m show ?case by (auto intro!: exI [of _ "wire # wires"])
  qed
  with that show thesis by blast
qed

lemma read_msgs_receives:
  assumes "list_all2 (\<lambda>(t, data) wire. message_text b t data wire) ms wires" "\<forall>m \<in> set ms. sendable_msg m"
    and "reading d [] True (concat wires @ rest)" "K_isServer d = b"
  shows "\<exists>d'. read_msgs (default_env temporary) (length ms) d = Some (ms, d') \<and> reading d' [] True rest"
  using assms
proof (induction ms wires arbitrary: d rule: list_all2_induct)
  case (Cons m ms wire wires)
  obtain t data where m: "m = (t, data)" by force
  with Cons have "message_text (K_isServer d) t data wire" "isData t" "reading d [] True (wire @ concat wires @ rest)"
    by (auto simp: sendable_msg_def)
  from ReadMessage_receives [OF this, of temporary] obtain d1 where
    d1: "ReadMessage (default_env temporary) d = Some ((t, data, None), d1)" "reading d1 [] True (concat wires @ rest)"
    "K_isServer d1 = K_isServer d" .
  with Cons m show ?case by auto
qed simp

text \<open>
  C29. What one side writes the other side reads: messages of any content and length, through write
  buffers of any size, which cut them in frames, under any masks, arrive whole and in order,
  whichever side is the server and in whatever pieces the network delivers the bytes.
\<close>

theorem messages_delivered:
  assumes "newConn src0 [] rnd now srv rs ws = Some c" "0 \<le> ws" "\<forall>m \<in> set ms. sendable_msg m"
  shows "\<exists>c'. write_msgs ms c = Some c' \<and>
    (\<forall>src d rnd' now' rs' ws'. calm src \<longrightarrow> stream_of src = K_sent c' \<longrightarrow>
       newConn src [] rnd' now' (\<not> srv) rs' ws' = Some d \<longrightarrow>
       (\<exists>d'. read_msgs (default_env temporary) (length ms) d = Some (ms, d')))"
proof -
  have c: "filling c noFrame []" "K_isServer c = srv" "K_sent c = []" using newConn_writes [OF assms(1,2)] by auto
  obtain wires c' where c': "write_msgs ms c = Some c'" "K_sent c' = concat wires"
    "list_all2 (\<lambda>(t, data) wire. message_text (\<not> srv) t data wire) ms wires"
    using write_msgs_sends [OF c(1) assms(3)] unfolding c(2,3) append_Nil by blast
  have "\<exists>d'. read_msgs (default_env temporary) (length ms) d = Some (ms, d')"
    if "calm src" "stream_of src = K_sent c'" "newConn src [] rnd' now' (\<not> srv) rs' ws' = Some d" for src d rnd' now' rs' ws'
  proof -
    have "reading d [] True (concat wires @ [])" "K_isServer d = (\<not> srv)" using newConn_reads [OF that(3,1)] that(2) c'(2) by auto
    with read_msgs_receives [OF c'(3) assms(3)] show ?thesis by blast
  qed
  with c'(1) show ?thesis by blast
qed

section \<open>A connection that ends within a message\<close>

text \<open>More is announced than comes.\<close>

definition cut_short :: "Conn \<Rightarrow> string \<Rightarrow> bool" where
  "cut_short c p \<longleftrightarrow> K_readErr c = None \<and> \<not> K_isServer c \<and> int (length p) < K_readRemaining c \<and> comes (K_br c) p"

lemma Read_loop_cut:
  assumes "cut_short c p" "0 < k"
  shows "if p = [] then \<exists>c'. Read_loop env k c = Some (([], Some (IoError EOF)), c')
    else \<exists>bs p' c'. Read_loop env k c = Some ((bs, None), c') \<and> p = bs @ p' \<and> bs \<noteq> [] \<and> length bs \<le> k \<and>
      cut_short c' p' \<and> K_readSeq c' = K_readSeq c"
proof -
  let ?k = "nat (min (int k) (K_readRemaining c))"
  have c: "K_readErr c = None" "\<not> K_isServer c" "0 < K_readRemaining c" "int (length p) < K_readRemaining c" "reader_inv (K_br c)"
    "pending (K_br c) = p" "0 < ?k" "?k \<le> k" using assms by (auto simp: cut_short_def comes_def)
  obtain bs e br where r: "Read ?k (K_br c) = Some ((bs, e), br)" "length bs \<le> ?k" "pending (K_br c) = bs @ pending br" "reader_inv br"
    "if pending (K_br c) = [] then bs = [] \<and> e = Some EOF else bs \<noteq> [] \<and> e = None"
    using Read_spec [OF c(5,7)] by blast
  have p: "p = bs @ pending br" using r(3) c(6) by simp
  have run: "Read_loop env k c = Some ((bs, hideTempErr (H_temporary env) (map_option IoError e)),
      c\<lparr>K_br := br, K_readErr := hideTempErr (H_temporary env) (map_option IoError e),
        K_readRemaining := K_readRemaining c - int (length bs)\<rparr>)"
    using c(1-3) r(1) by (subst Read_loop.simps) (simp add: Let_def)
  show ?thesis
  proof (cases "p = []")
    case True
    then have "bs = []" "e = Some EOF" using r(5) c(6) by simp_all
    with run True show ?thesis by (simp add: hideTempErr_def)
  next
    case False
    then have e: "bs \<noteq> []" "e = None" using r(5) c(6) by simp_all
    have "int (length (pending br)) < K_readRemaining c - int (length bs)" using arg_cong [OF p, of length] c(4) by simp
    then show ?thesis
      using False run e p r(2,4) c(2,8)
      by (auto simp: hideTempErr_def cut_short_def comes_def intro!: exI [of _ bs] exI [of _ "pending br"])
  qed
qed

lemma read_all_cut:
  assumes "cut_short c p" "sq = K_readSeq c" "length got \<le> capa"
  shows "\<exists>c'. read_all env sq capa got c = Some ((got @ p, None), c')"
  using assms
proof (induction "length p" arbitrary: p c got capa rule: less_induct)
  case less
  let ?capa = "if capa - length got < 512 then 2 * capa + 512 else capa"
  let ?k = "?capa - length got"
  have k: "0 < ?k" "length got + ?k = ?capa" using less.prems(3) by auto
  note step = Read_loop_cut [OF less.prems(1) k(1), of env]
  show ?case
  proof (cases "p = []")
    case True
    with step less.prems(2) show ?thesis by (subst read_all.simps) (auto simp: reader_Read_def Let_def)
  next
    case False
    with step obtain bs p' c' where r: "Read_loop env ?k c = Some ((bs, None), c')" "p = bs @ p'" "bs \<noteq> []" "length bs \<le> ?k"
      "cut_short c' p'" "K_readSeq c' = K_readSeq c" by auto
    have "length p' < length p" "sq = K_readSeq c'" "length (got @ bs) \<le> ?capa" using r(2-4,6) less.prems(2) k(2) by auto
    from less.hyps [OF this(1) r(5) this(2,3)] obtain c'' where
      "read_all env sq ?capa (got @ bs) c' = Some (((got @ bs) @ p', None), c'')" by blast
    with r less.prems(2) show ?thesis by (subst read_all.simps) (auto simp: reader_Read_def Let_def)
  qed
qed

text \<open>
  C31. A message that is cut off is taken for a whole one: when the connection ends after some bytes of
  a frame that announces more, ReadMessage gives these bytes as the message, without an error.
\<close>

theorem truncated_message_accepted:
  assumes "newConn src [] rnd now False rs ws = Some c" "calm src" "isData t" "l < 2 ^ 63"
    and "stream_of src = head_text None True t l @ p" "length p < l"
  shows "\<exists>c'. ReadMessage (default_env temporary) c = Some ((t, p, None), c')"
proof -
  let ?c = "c\<lparr>K_readSeq := K_readSeq c + 1, K_readLength := 0\<rparr>" and ?env = "default_env temporary"
  have c: "reading ?c [] True (head_text None True t l @ p)" "\<not> K_isServer c" "fits_key (K_isServer ?c) None"
    using newConn_reads [OF assms(1,2)] assms(5) by (auto simp: reading_none writes_ok_def fits_key_def)
  have t: "isData t" "known_type t" "\<not> isControl t" "t \<noteq> continuationFrame"
    using assms(3) by (auto simp: isData_def isControl_def known_type_def frame_types)
  have "\<exists>br. advanceFrame ?env ?c = enforce_limit t (?c\<lparr>K_readFinal := True, K_readRemaining := int l, K_br := br\<rparr>) \<and> comes br p"
  proof (rule header_read [OF c(1,3) assms(4) t(2), of ?env])
    fix br
    assume br: "advanceFrame ?env ?c = (if isControl t then steps control_payload (process_control ?env t) else enforce_limit t)
        (?c\<lparr>K_readFinal := (if isControl t then True else True), K_readRemaining := int l, K_br := br,
          K_readMaskPos := (if K_isServer ?c then 0 else K_readMaskPos ?c),
          K_readMaskKey := (if K_isServer ?c then the None else K_readMaskKey ?c)\<rparr>)" and p: "comes br p"
    have "advanceFrame ?env ?c = enforce_limit t (?c\<lparr>K_readFinal := True, K_readRemaining := int l, K_br := br\<rparr>)"
      unfolding br using t(3) c(2) by simp
    with p show ?thesis by blast
  qed (simp_all add: t(3,4))
  then obtain br where br: "advanceFrame ?env ?c = enforce_limit t (?c\<lparr>K_readFinal := True, K_readRemaining := int l, K_br := br\<rparr>)" "comes br p"
    by blast
  let ?d = "?c\<lparr>K_readFinal := True, K_readRemaining := int l, K_br := br, K_readLength := wrap_int64 (int l)\<rparr>"
  have "NextReader_loop ?env ?c = Some (Inr (t, K_readSeq ?d), ?d)"
    using c(1) br(1) assms(3) by (subst NextReader_loop.simps) (simp add: reading_none enforce_limit_def Let_def)
  moreover have "cut_short ?d p" using c(1,2) br(2) assms(6) by (simp add: cut_short_def reading_none)
  then have "\<exists>c'. read_all ?env (K_readSeq ?d) 512 [] ?d = Some (([] @ p, None), c')" by (rule read_all_cut) simp_all
  ultimately show ?thesis by (auto simp: ReadMessage_def NextReader_def)
qed

section \<open>Timeouts\<close>

text \<open>
  What the read loop of the slack client makes of a result: errors of the network are of type
  net.OpError, and only of those it asks whether they are timeouts.
\<close>

definition frame_of :: "int \<times> string \<times> ws_error option \<Rightarrow> frame" where
  "frame_of res =
     (case res of
        (messageType, msg, None) \<Rightarrow> if messageType = TextMessage then TextFrame msg else OtherFrame
      | (_, _, Some (IoError (ConnError timeout))) \<Rightarrow> if timeout then ReadTimeout else ReadError
      | _ \<Rightarrow> ReadError)"

text \<open>A step that leaves alone the error that the reader has.\<close>

definition steady :: "'a ws_step \<Rightarrow> bool" where
  "steady f \<longleftrightarrow> (\<forall>c r c'. f c = Some (r, c') \<longrightarrow> K_readErr c' = K_readErr c)"

lemma steadyD: "steady f \<Longrightarrow> f c = Some (r, c') \<Longrightarrow> K_readErr c' = K_readErr c"
  by (auto simp: steady_def)

lemma steady_steps:
  assumes "steady f" "\<And>x. steady (g x)"
  shows "steady (steps f g)"
  unfolding steady_def
proof (intro allI impI)
  fix c r c' assume run: "steps f g c = Some (r, c')"
  then obtain q d where f: "f c = Some (q, d)" by (cases "f c") (auto simp: steps_def)
  with run steadyD [OF assms(1) f] show "K_readErr c' = K_readErr c"
    by (cases q) (auto dest: steadyD [OF assms(2)])
qed

lemma net_close_keeps [simp]: "K_readErr (snd (net_close c)) = K_readErr c"
  by (simp add: net_close_def)

lemma net_write_keeps [simp]: "K_readErr (snd (net_write b c)) = K_readErr c"
  by (simp add: net_write_def split: list.split option.split)

lemma draw_key_keeps [simp]: "K_readErr (snd (draw_key c)) = K_readErr c"
  by (simp add: draw_key_def)

lemma WriteControl_readErr [simp]: "K_readErr (snd (WriteControl t data dl c)) = K_readErr c"
  by (simp add: WriteControl_def Let_def case_prod_beta split del: if_split cong: if_cong) simp

lemma steady_primitives:
  "steady (readFull k)" "steady skip_rest" "steady (handleProtocolError m)"
  by (auto simp: steady_def readFull_def skip_rest_def handleProtocolError_def split: if_splits)

lemma steady_if: "steady f \<Longrightarrow> steady g \<Longrightarrow> steady (\<lambda>c. if P c then f c else g c)"
  by (simp add: steady_def)

lemma steady_on: "steady f \<Longrightarrow> (\<And>c. K_readErr (u c) = K_readErr c) \<Longrightarrow> steady (\<lambda>c. f (u c))"
  by (simp add: steady_def)

lemma steady_return: "(\<And>c. K_readErr (u c) = K_readErr c) \<Longrightarrow> steady (\<lambda>c. Some (v c, u c))"
  by (auto simp: steady_def)

lemmas steady_intros = steady_if steady_return steady_steps steady_primitives

lemma steady_check: "steady (check_header final t reserved)"
  unfolding check_header_def [abs_def] by (intro steady_intros) simp_all

lemma steady_read_length: "steady read_length"
  unfolding read_length_def [abs_def] by (intro steady_intros) simp_all

lemma steady_read_mask: "steady (read_mask masked)"
proof -
  have "steady (\<lambda>c. steps (readFull 4) (\<lambda>key c. Some (Inr (), c\<lparr>K_readMaskKey := key\<rparr>)) (c\<lparr>K_readMaskPos := 0\<rparr>))"
    by (rule steady_on, intro steady_intros) simp_all
  then show ?thesis unfolding read_mask_def [abs_def] by (intro steady_if steady_primitives steady_return) simp_all
qed

lemma steady_control_payload: "steady control_payload"
  unfolding steady_def
proof (intro allI impI)
  fix c r c' assume run: "control_payload c = Some (r, c')"
  have "steady (steps (readFull n) (\<lambda>payload c. Some (Inr (f payload c), c)))" for n and f :: "_ \<Rightarrow> _ \<Rightarrow> string"
    by (intro steady_intros) simp
  from steadyD [OF this] run show "K_readErr c' = K_readErr c"
    by (force simp: control_payload_def split: if_splits)
qed

lemma steady_enforce_limit: "steady (enforce_limit t)"
  by (auto simp: steady_def enforce_limit_def Let_def split: if_splits)

definition handlers_steady :: "ws_env \<Rightarrow> bool" where
  "handlers_steady env \<longleftrightarrow>
     (\<forall>p c. K_readErr (snd (H_ping env p c)) = K_readErr c \<and> K_readErr (snd (H_pong env p c)) = K_readErr c)"

lemma steady_process_control: "handlers_steady env \<Longrightarrow> steady (process_control env t p)"
  unfolding process_control_def [abs_def] handlers_steady_def case_prod_beta
  by (intro steady_if steady_return) simp_all

lemma steady_advanceFrame:
  assumes "handlers_steady env"
  shows "steady (advanceFrame env)"
proof -
  have "steady (frame_of_header env b)" for b
  proof -
    have "steady (\<lambda>c. steps (check_header final t res) (\<lambda>_. steps read_length (\<lambda>_. steps (read_mask masked) (\<lambda>_.
        if isControl t then steps control_payload (process_control env t) else enforce_limit t))) (c\<lparr>K_readRemaining := n\<rparr>))"
      for final t res masked n
    proof -
      have "steady (steps (check_header final t res) (\<lambda>_. steps read_length (\<lambda>_. steps (read_mask masked) (\<lambda>_.
          if isControl t then steps control_payload (process_control env t) else enforce_limit t))))"
        using assms
        by (auto intro!: steady_steps steady_check steady_read_length steady_read_mask steady_control_payload
            steady_process_control steady_enforce_limit)
      then show ?thesis by (auto simp: steady_def)
    qed
    then show ?thesis unfolding frame_of_header_def Let_def steady_def by blast
  qed
  then show ?thesis unfolding advanceFrame_def by (intro steady_steps steady_primitives)
qed

text \<open>The reader has not stopped with a bare timeout.\<close>

definition no_timeout :: "ws_error option \<Rightarrow> bool" where
  "no_timeout e \<longleftrightarrow> e \<noteq> Some (IoError (ConnError True))"

definition hides :: "ws_env \<Rightarrow> bool" where
  "hides env \<longleftrightarrow> H_temporary env (ConnError True) \<and> handlers_steady env"

lemma hidden [simp]: "temporary (ConnError True) \<Longrightarrow> no_timeout (hideTempErr temporary e)"
  by (auto simp: no_timeout_def hideTempErr_def split: option.splits ws_error.splits io_error.splits)

lemma no_timeout_None [simp]: "no_timeout None"
  by (simp add: no_timeout_def)

lemma no_timeout_other [simp]:
  "no_timeout (Some (InternalError m))" "no_timeout (Some errUnexpectedEOF)" "no_timeout (Some (IoError EOF))"
  by (simp_all add: no_timeout_def errUnexpectedEOF_def)

lemma advance_keeps: "hides env \<Longrightarrow> advanceFrame env c = Some (r, c') \<Longrightarrow> K_readErr c' = K_readErr c"
  by (auto simp: hides_def dest: steadyD [OF steady_advanceFrame])

lemma advance_hides:
  assumes "advanceFrame env c = Some (r, c')" "hides env" "K_readErr c = None"
  shows "no_timeout (K_readErr c')" "H_temporary env (ConnError True)"
  using assms advance_keeps [OF assms(2,1)] by (simp_all add: hides_def)

lemma NextReader_loop_hides:
  assumes "NextReader_loop env c = Some y" "hides env" "no_timeout (K_readErr c)"
  shows "no_timeout (K_readErr (snd y)) \<and> (\<forall>e. fst y = Inl e \<longrightarrow> no_timeout (Some e))"
proof -
  define ok where "ok y \<longleftrightarrow> no_timeout (K_readErr (snd y)) \<and> (\<forall>e. fst y = Inl e \<longrightarrow> no_timeout (Some e))"
    for y :: "(ws_error + int \<times> nat) \<times> Conn"
  have "hides env \<longrightarrow> no_timeout (K_readErr c) \<longrightarrow> ok y"
  proof (rule NextReader_loop.raw_induct [where P = "\<lambda>env c y. hides env \<longrightarrow> no_timeout (K_readErr c) \<longrightarrow> ok y", OF _ assms(1)],
      intro impI)
    fix loop env c y
    assume IH: "\<And>env c y. loop env c = Some y \<Longrightarrow> hides env \<longrightarrow> no_timeout (K_readErr c) \<longrightarrow> ok y"
      and run: "(case K_readErr c of Some e \<Rightarrow> Some (Inl e, c)
        | None \<Rightarrow> Option.bind (advanceFrame env c) (\<lambda>(r, c). case r of
            Inl e \<Rightarrow> loop env (c\<lparr>K_readErr := hideTempErr (H_temporary env) (Some e)\<rparr>)
          | Inr frameType \<Rightarrow> if isData frameType then Some (Inr (frameType, K_readSeq c), c) else loop env c)) = Some y"
      and env: "hides env" and c: "no_timeout (K_readErr c)"
    show "ok y"
    proof (cases "K_readErr c")
      case None
      with run obtain r d where r: "advanceFrame env c = Some (r, d)" by (auto split: bind_splits)
      note d = advance_hides [OF r env None]
      show ?thesis
      proof (cases r)
        case (Inl e)
        with run None r have "loop env (d\<lparr>K_readErr := hideTempErr (H_temporary env) (Some e)\<rparr>) = Some y" by simp
        from IH [OF this] env d(2) show ?thesis by simp
      next
        case (Inr t)
        then show ?thesis using run None r d(1) env IH [of env d y] by (auto simp: ok_def split: if_splits)
      qed
    qed (use run c in \<open>auto simp: ok_def\<close>)
  qed
  with assms(2,3) show ?thesis by (simp add: ok_def)
qed

lemma Read_loop_hides:
  assumes "Read_loop env k c = Some y" "hides env" "no_timeout (K_readErr c)"
  shows "no_timeout (K_readErr (snd y)) \<and> no_timeout (snd (fst y))"
proof -
  define ok where "ok y \<longleftrightarrow> no_timeout (K_readErr (snd y)) \<and> no_timeout (snd (fst y))"
    for y :: "(string \<times> ws_error option) \<times> Conn"
  have "hides env \<longrightarrow> no_timeout (K_readErr c) \<longrightarrow> ok y"
  proof (rule Read_loop.raw_induct [where P = "\<lambda>env k c y. hides env \<longrightarrow> no_timeout (K_readErr c) \<longrightarrow> ok y", OF _ assms(1)],
      intro impI, goal_cases)
    case (1 loop env k c y)
    note IH = 1(1) and run = 1(2) and env = 1(3)
    consider e where "K_readErr c = Some e" | "K_readErr c = None" "0 < K_readRemaining c"
      | "K_readErr c = None" "\<not> 0 < K_readRemaining c" "K_readFinal c"
      | "K_readErr c = None" "\<not> 0 < K_readRemaining c" "\<not> K_readFinal c" by blast
    then show "ok y"
    proof cases
      case 1
      with run have "y = (([], Some (if e = IoError EOF then errUnexpectedEOF else e)), c)" by simp
      with 1 \<open>no_timeout (K_readErr c)\<close> show ?thesis by (simp add: ok_def)
    next
      case 2
      with run obtain bs e br where r: "Read (nat (min (int k) (K_readRemaining c))) (K_br c) = Some ((bs, e), br)" by auto
      have "no_timeout (hideTempErr (H_temporary env) (map_option IoError e))" using env by (simp add: hides_def)
      with run 2 r show ?thesis by (cases "K_isServer c") (auto simp: ok_def Let_def case_prod_beta)
    next
      case 3
      with run have "y = (([], Some (IoError EOF)), c\<lparr>K_readSeq := K_readSeq c + 1\<rparr>)" by simp
      with 3 show ?thesis by (simp add: ok_def)
    next
      case 4
      with run obtain r d where r: "advanceFrame env c = Some (r, d)" by (auto split: bind_splits)
      then have d: "no_timeout (K_readErr d)" "H_temporary env (ConnError True)" using 4 advance_hides [OF r env] by auto
      from run 4 r have "loop env k (case r of
          Inl e \<Rightarrow> d\<lparr>K_readErr := hideTempErr (H_temporary env) (Some e)\<rparr>
        | Inr t \<Rightarrow> if isData t then d\<lparr>K_readErr := Some (InternalError ''unexpected text or binary in Reader'')\<rparr> else d) = Some y"
        by simp
      from IH [OF this] env d show ?thesis by (cases r) simp_all
    qed
  qed
  with assms(2,3) show ?thesis by (simp add: ok_def)
qed

lemma read_all_hides:
  assumes "read_all env sq capa got c = Some y" "hides env" "no_timeout (K_readErr c)"
  shows "no_timeout (K_readErr (snd y)) \<and> no_timeout (snd (fst y))"
proof -
  define ok where "ok y \<longleftrightarrow> no_timeout (K_readErr (snd y)) \<and> no_timeout (snd (fst y))"
    for y :: "(string \<times> ws_error option) \<times> Conn"
  have "hides env \<longrightarrow> no_timeout (K_readErr c) \<longrightarrow> ok y"
  proof (rule read_all.raw_induct [where P = "\<lambda>env sq capa got c y. hides env \<longrightarrow> no_timeout (K_readErr c) \<longrightarrow> ok y",
        OF _ assms(1)], intro impI, goal_cases)
    case (1 loop env sq capa got c y)
    define k where "k = (if capa - length got < 512 then 2 * capa + 512 else capa) - length got"
    from 1(2) obtain bs e d where r: "reader_Read env sq k c = Some ((bs, e), d)"
      by (auto simp: k_def Let_def split: bind_splits)
    then have d: "no_timeout (K_readErr d)" "no_timeout e"
      using 1(3,4) Read_loop_hides [of env k c] by (auto simp: reader_Read_def split: if_splits)
    show ?case
    proof (cases e)
      case None
      with 1(2) r have "loop env sq (if capa - length got < 512 then 2 * capa + 512 else capa) (got @ bs) d = Some y"
        by (simp add: Let_def k_def)
      from 1(1) [OF this] 1(3) d show ?thesis by simp
    next
      case (Some x)
      with 1(2) r have "y = ((got @ bs, if x = IoError EOF then None else Some x), d)" by (simp add: Let_def k_def)
      with d Some show ?thesis by (simp add: ok_def)
    qed
  qed
  with assms(2,3) show ?thesis by (simp add: ok_def)
qed

lemma ReadMessage_hides:
  assumes "ReadMessage env c = Some ((t, p, e), c')" "hides env" "no_timeout (K_readErr c)"
  shows "no_timeout e" "no_timeout (K_readErr c')"
proof -
  from assms(1) obtain r d where r: "NextReader_loop env (c\<lparr>K_readSeq := K_readSeq c + 1, K_readLength := 0\<rparr>) = Some (r, d)"
    by (auto simp: ReadMessage_def NextReader_def split: bind_splits)
  from NextReader_loop_hides [OF this assms(2)] assms(3)
  have d: "no_timeout (K_readErr d)" "r = Inl x \<Longrightarrow> no_timeout (Some x)" for x by auto
  have "no_timeout e \<and> no_timeout (K_readErr c')"
  proof (cases r)
    case (Inl x)
    with assms(1) r d show ?thesis by (auto simp: ReadMessage_def NextReader_def)
  next
    case (Inr m)
    with assms(1) r show ?thesis
      by (cases m) (auto simp: ReadMessage_def NextReader_def dest: read_all_hides [OF _ assms(2) d(1)])
  qed
  then show "no_timeout e" "no_timeout (K_readErr c')" by simp_all
qed

lemma default_env_hides [simp]: "temporary (ConnError True) \<Longrightarrow> hides (default_env temporary)"
  by (simp add: hides_def handlers_steady_def default_env_def default_ping_def default_pong_def)

text \<open>What the loop of the client gets from one call after the other.\<close>

fun read_results :: "ws_env \<Rightarrow> nat \<Rightarrow> Conn \<Rightarrow> (int \<times> string \<times> ws_error option) list option" where
  "read_results env 0 c = Some []"
| "read_results env (Suc n) c = do {
     (res, c) \<leftarrow> ReadMessage env c;
     rest \<leftarrow> read_results env n c;
     Some (res # rest)
   }"

text \<open>
  C32. A read that times out never gets to the branch that the read loop of the slack client has for
  it: a timeout of the network is temporary, and of temporary errors the websocket connection makes
  an error of its own type, so what ReadMessage returns is no net.OpError with a timeout, now or later.
\<close>

theorem timeouts_are_hidden:
  assumes "temporary (ConnError True)" "newConn src buf rnd now srv rs ws = Some c"
    and "read_results (default_env temporary) n c = Some results"
  shows "ReadTimeout \<notin> frame_of ` set results"
proof -
  have "no_timeout (K_readErr c)" using assms(2) by (auto simp: newConn_def Let_def split: if_splits)
  with assms(3) show ?thesis
  proof (induction n arbitrary: c results)
    case (Suc n)
    from Suc.prems(1) obtain t p e d rest where r: "ReadMessage (default_env temporary) c = Some ((t, p, e), d)"
      "read_results (default_env temporary) n d = Some rest" "results = (t, p, e) # rest"
      by (auto split: bind_splits)
    note h = ReadMessage_hides [OF r(1) default_env_hides [of temporary] Suc.prems(2), OF assms(1)]
    have "frame_of (t, p, e) \<noteq> ReadTimeout"
      using h(1) by (auto simp: frame_of_def no_timeout_def split: option.splits ws_error.splits io_error.splits)
    with Suc.IH [OF r(2) h(2)] r(3) show ?case by auto
  qed simp
qed

section \<open>Two goroutines that write\<close>

text \<open>What is left of WriteMessage once it has its writer.\<close>

definition finish_message :: "nat \<Rightarrow> string \<Rightarrow> Conn \<Rightarrow> (ws_error option \<times> Conn) option" where
  "finish_message w data c = do {
     (err, c) \<leftarrow> writer_write w True data c;
     (case err of
        Some e \<Rightarrow> Some (Some e, c)
      | None \<Rightarrow> if K_writeSeq c = w then flushFrame True [] c else Some (None, c))
   }"

lemma WriteMessage_parts:
  "WriteMessage t data c = do {
     (r, c) \<leftarrow> NextWriter t c;
     (case r of Inl e \<Rightarrow> Some (Some e, c) | Inr w \<Rightarrow> finish_message w data c)
   }"
  unfolding WriteMessage_def finish_message_def ..

text \<open>
  The slack client writes to its connection from two goroutines, the one that pings and the one
  that forwards commands, with nothing that excludes one while the other writes. When one writes a
  message between the two steps of the other, all its calls succeed, but the peer gets an empty message
  that nobody sent before it, and the other's message is lost: its write finds its writer closed.
\<close>

lemma writers_interfere:
  assumes "newConn src [] rnd now srv rs ws = Some c" "0 \<le> ws" "isData t" "sendable_msg (t', data')"
  shows "\<exists>w c1 key wire c2. NextWriter t c = Some (Inr w, c1) \<and> WriteMessage t' data' c1 = Some (None, c2) \<and>
    K_sent c2 = frame_text key True t [] @ wire \<and> message_text (\<not> srv) t [] (frame_text key True t []) \<and>
    message_text (\<not> srv) t' data' wire \<and> finish_message w data c2 = Some (Some ErrWriteClosed, c2)"
proof -
  have c: "filling c noFrame []" "K_isServer c = srv" "K_sent c = []" using newConn_writes [OF assms(1,2)] by auto
  let ?c1 = "c\<lparr>K_writeFrameType := t\<rparr>"
  have 1: "NextWriter t c = Some (Inr (K_writeSeq c), ?c1)" using c(1) assms(3) by (simp add: NextWriter_def filling_empty)
  have c1: "filling ?c1 t []" "t \<noteq> noFrame" using c(1) assms(3) by (auto simp: filling_empty writes_ok_def isData_def frame_types)
  obtain key d where d: "flushFrame True [] ?c1 = Some (None, d)" "fits_key (\<not> srv) key" "K_sent d = frame_text key True t []"
    "filling d noFrame []" "K_isServer d = srv" "K_writeSeq d = K_writeSeq c + 1"
    using flushFrame_ex [OF c1(1) not_control(1) [OF assms(3)], of "[]" True] c(2,3) by auto
  have t': "isData t'" "length data' < 2 ^ 63" using assms(4) by (simp_all add: sendable_msg_def)
  obtain wire c2 where c2: "WriteMessage t' data' d = Some (None, c2)" "message_text (\<not> srv) t' data' wire"
    "K_sent c2 = K_sent d @ wire" "K_writeSeq c2 = K_writeSeq d + 1"
    by (rule WriteMessage_sends [OF d(4) t']) (use d(5) in blast)
  have "NextWriter t' ?c1 = NextWriter t' d"
    using c1 d(1,4) by (simp add: NextWriter_def filling_empty)
  then have "WriteMessage t' data' ?c1 = Some (None, c2)" using c2(1) by (simp add: WriteMessage_def)
  moreover have "finish_message (K_writeSeq c) data c2 = Some (Some ErrWriteClosed, c2)"
    using c2(4) d(6) by (simp add: finish_message_def writer_write_def writer_err_def)
  moreover have "message_text (\<not> srv) t [] (frame_text key True t [])" using message_text.last [OF d(2), of "[]" t] by simp
  ultimately show ?thesis using 1 c2(2,3) d(3) by metis
qed

section \<open>Witnesses\<close>

definition sample_conn :: "source \<Rightarrow> bool \<Rightarrow> int \<Rightarrow> Conn" where
  "sample_conn src srv ws = the (newConn src [] (\<lambda>_. 7) 0 srv 16 ws)"

lemma sample_conn: "0 \<le> ws \<Longrightarrow> newConn src [] (\<lambda>_. 7) 0 srv 16 ws = Some (sample_conn src srv ws)"
  by (simp add: sample_conn_def newConn_def defaultWriteBufferSize_def Let_def)

theorem messages_delivered_witness:
  "\<exists>c' d'. write_msgs [(TextMessage, ''hello''), (BinaryMessage, [])] (sample_conn [] False 1) = Some c' \<and>
     read_msgs (default_env (\<lambda>_. True)) 2 (sample_conn (List.map (\<lambda>b. ([b], None)) (K_sent c')) True 1) =
       Some ([(TextMessage, ''hello''), (BinaryMessage, [])], d')"
proof -
  let ?ms = "[(TextMessage, ''hello''), (BinaryMessage, [])]"
  have 1: "calm (List.map (\<lambda>b. ([b], None)) s)" "stream_of (List.map (\<lambda>b. ([b], None)) s) = s" for s
    by (induction s) (simp_all add: stream_of_def)
  have 2: "\<forall>m \<in> set ?ms. sendable_msg m" by (simp add: sendable_msg_def isData_def)
  from messages_delivered [OF sample_conn [OF zero_le_one, of "[]" False] zero_le_one 2, of "\<lambda>_. True"]
  obtain c' where c': "write_msgs ?ms (sample_conn [] False 1) = Some c'"
    "\<forall>src d rnd' now' rs' ws'. calm src \<longrightarrow> stream_of src = K_sent c' \<longrightarrow>
       newConn src [] rnd' now' (\<not> False) rs' ws' = Some d \<longrightarrow>
       (\<exists>d'. read_msgs (default_env (\<lambda>_. True)) (length ?ms) d = Some (?ms, d'))" by blast
  have "newConn (List.map (\<lambda>b. ([b], None)) (K_sent c')) [] (\<lambda>_. 7) 0 (\<not> False) 16 1 =
      Some (sample_conn (List.map (\<lambda>b. ([b], None)) (K_sent c')) True 1)"
    using sample_conn [of 1 _ True] by simp
  with c'(2) 1 have "\<exists>d'. read_msgs (default_env (\<lambda>_. True)) (length ?ms)
      (sample_conn (List.map (\<lambda>b. ([b], None)) (K_sent c')) True 1) = Some (?ms, d')" by blast
  moreover have "length ?ms = 2" by simp
  ultimately show ?thesis using c'(1) by metis
qed

theorem truncated_message_accepted_witness:
  "\<exists>c'. ReadMessage (default_env (\<lambda>_. True)) (sample_conn [(head_text None True TextMessage 5 @ ''ab'', None)] False 1) =
     Some ((TextMessage, ''ab'', None), c')"
  by (rule truncated_message_accepted [OF sample_conn, where l = 5])
    (simp_all add: stream_of_def isData_def)

theorem timeouts_are_hidden_witness:
  "\<exists>results. read_results (default_env (\<lambda>_. True)) 1 (sample_conn [([], Some (ConnError True))] False 1) = Some results \<and>
     results = [(noFrame, [], Some (HiddenError (ConnError True)))] \<and> ReadTimeout \<notin> frame_of ` set results"
proof -
  have "read_results (default_env (\<lambda>_. True)) 1 (sample_conn [([], Some (ConnError True))] False 1) =
      Some [(noFrame, [], Some (HiddenError (ConnError True)))]"
    by code_simp
  with timeouts_are_hidden [OF _ sample_conn this] show ?thesis by simp
qed

end
