(* ===== verification/WsHandshake.thy ===== *)
theory WsHandshake
  imports WsDial HttpFacts WsRuns
begin

text \<open>
  The two sides of a handshake against each other: what a client writes is a request that the server
  upgrades, and what the server writes is an answer that the client takes, in whatever pieces; then
  the messages of both sides arrive. What Dial leaves open, and what the server lets through.
\<close>

section \<open>Texts\<close>

lemma byte_chr_small: "n < 256 \<Longrightarrow> byte (chr n) = n"
  by (simp add: byte_def chr_def)

lemma byte_letters: "byte (CHR ''+'') = 43" "byte (CHR ''/'') = 47" "byte (CHR ''='') = 61"
  by (simp_all add: byte_def)

lemma base64_char_byte: "43 \<le> byte (base64_char n)"
  by (auto simp: base64_char_def byte_chr_small byte_letters)

lemma base64_byte: "c \<in> set (base64 s) \<Longrightarrow> 43 \<le> byte c"
proof (induction s rule: base64.induct)
qed (auto simp: base64_char_byte byte_letters)

lemma trim_blank_id: "\<forall>c \<in> set s. \<not> blank c \<Longrightarrow> trim_blank s = s"
proof -
  assume s: "\<forall>c \<in> set s. \<not> blank c"
  then have "dropWhile blank s = s" "dropWhile blank (rev s) = rev s" by (cases s, simp_all) (cases "rev s", auto)
  then show ?thesis by (simp add: trim_blank_def)
qed

lemma base64_line [simp]: "trim_blank (base64 s) = base64 s" "CHR 0x0A \<notin> set (base64 s)"
proof -
  show "trim_blank (base64 s) = base64 s" by (rule trim_blank_id) (use base64_byte in \<open>fastforce simp: blank_code\<close>)
  show "CHR 0x0A \<notin> set (base64 s)" using base64_byte by (fastforce simp: byte_def)
qed

lemma base64_empty [simp]: "base64 s = [] \<longleftrightarrow> s = []"
  by (cases s rule: base64.cases) simp_all

text \<open>The fields of a header, in their order.\<close>

definition flat :: "header \<Rightarrow> (string \<times> string) list" where
  "flat h = concat (List.map (\<lambda>(k, vs). List.map (Pair k) vs) h)"

definition head_lines :: "string \<Rightarrow> (string \<times> string) list \<Rightarrow> string" where
  "head_lines first kvs = first @ CHR 0x0D # CHR 0x0A # concat (List.map field_text kvs) @ [CHR 0x0D, CHR 0x0A]"

definition request_fields :: "url \<Rightarrow> string \<Rightarrow> header \<Rightarrow> (string \<times> string) list" where
  "request_fields u key h =
     [(''Host'', U_Host u), (''Upgrade'', ''websocket''), (''Connection'', ''Upgrade''),
      (''Sec-WebSocket-Version'', ''13''), (''Sec-WebSocket-Key'', key)] @ flat h"

definition answer_fields :: "(string \<Rightarrow> string) \<Rightarrow> string \<Rightarrow> string \<Rightarrow> header \<Rightarrow> (string \<times> string) list" where
  "answer_fields sha1 key sub h =
     [(''Upgrade'', ''websocket''), (''Connection'', ''Upgrade''), (''Sec-WebSocket-Accept'', computeAcceptKey sha1 key)] @
     (if sub \<noteq> [] then [(''Sec-Websocket-Protocol'', sub)] else []) @
     List.map (\<lambda>(k, v). (k, List.map no_control v)) (flat (List.filter (\<lambda>(k, _). k \<noteq> ''Sec-Websocket-Protocol'') h))"

lemma flat_pieces:
  "concat (concat (List.map (\<lambda>(k, vs). concat (List.map (\<lambda>v. [k, '': '', v, [CHR 0x0D, CHR 0x0A]]) vs)) h)) =
     concat (List.map field_text (flat h))"
proof (induction h)
  case (Cons x h)
  have "concat (concat (List.map (\<lambda>v. [k, '': '', v, [CHR 0x0D, CHR 0x0A]]) vs)) = concat (List.map field_text (List.map (Pair k) vs))"
    for k vs by (induction vs) (simp_all add: field_text_def)
  with Cons show ?case by (cases x) (simp add: flat_def)
qed (simp add: flat_def)

lemma flat_pieces_clean:
  "concat (concat (List.map (\<lambda>(k, vs). concat (List.map (\<lambda>v. k # '': '' # List.map (\<lambda>b. [no_control b]) v @ [[CHR 0x0D, CHR 0x0A]]) vs)) h)) =
     concat (List.map (field_text \<circ> (\<lambda>(k, v). (k, List.map no_control v))) (flat h))"
proof (induction h)
  case (Cons x h)
  have one: "concat (List.map (\<lambda>b. [no_control b]) v) = List.map no_control v" for v by (induction v) simp_all
  have "concat (concat (List.map (\<lambda>v. k # '': '' # List.map (\<lambda>b. [no_control b]) v @ [[CHR 0x0D, CHR 0x0A]]) vs)) =
      concat (List.map field_text (List.map (\<lambda>v. (k, List.map no_control v)) vs))"
    for k vs by (induction vs) (simp_all add: field_text_def one)
  with Cons show ?case by (cases x) (simp add: flat_def comp_def)
qed (simp add: flat_def)

lemma request_text:
  "concat (request_pieces u key h) = head_lines (''GET '' @ RequestURI u @ '' HTTP/1.1'') (request_fields u key h)"
  by (simp add: request_pieces_def head_lines_def request_fields_def field_text_def [of "(_, _)"] flat_pieces)

lemma answer_text:
  "concat (answer_pieces sha1 key sub h) = head_lines ''HTTP/1.1 101 Switching Protocols'' (answer_fields sha1 key sub h)"
  by (simp add: answer_pieces_def head_lines_def answer_fields_def field_text_def [of "(_, _)"] flat_pieces_clean)

lemma http11: "http_version ''HTTP/1.1''"
  by code_simp

lemma status_101: "status_of ''HTTP/1.1 101 Switching Protocols'' = Some 101"
  by code_simp

lemma canonical_names:
  "canonicalMIMEHeaderKey ''Host'' = ''Host''" "canonicalMIMEHeaderKey ''Upgrade'' = ''Upgrade''"
  "canonicalMIMEHeaderKey ''Connection'' = ''Connection''"
  "canonicalMIMEHeaderKey ''Sec-WebSocket-Version'' = ''Sec-Websocket-Version''"
  "canonicalMIMEHeaderKey ''Sec-WebSocket-Key'' = ''Sec-Websocket-Key''"
  "canonicalMIMEHeaderKey ''Sec-WebSocket-Accept'' = ''Sec-Websocket-Accept''"
  "canonicalMIMEHeaderKey ''Sec-Websocket-Protocol'' = ''Sec-Websocket-Protocol''"
  by code_simp+

section \<open>What each side reads\<close>

lemma ReadRequest_reads:
  assumes "gives br (head_lines (''GET '' @ uri @ '' HTTP/1.1'') kvs @ s)" "list_all good_field kvs"
    "CHR '' '' \<notin> set uri" "CHR 0x0A \<notin> set uri" "ParseRequestURI uri = Some v" "\<And>br. transfer (header_of kvs []) br = None"
  obtains br' where "ReadRequest transfer br = Some (Inr \<lparr>Q_Method = ''GET'', Q_URL = v,
       Q_Header = List.filter (\<lambda>(k, _). k \<noteq> ''Host'') (header_of kvs []),
       Q_Host = (if U_Host v \<noteq> [] then U_Host v else header_Get ''Host'' (header_of kvs []))\<rparr>, br')" "gives br' s"
proof -
  let ?l = "''GET '' @ uri @ '' HTTP/1.1''"
  have "gives br (?l @ CHR 0x0D # CHR 0x0A # (concat (List.map field_text kvs) @ CHR 0x0D # CHR 0x0A # s))"
    using assms(1) by (simp add: head_lines_def)
  moreover have "CHR 0x0A \<notin> set ?l" using assms(4) by simp
  ultimately obtain b where b: "read_line [] br = Some (Inr ?l, b)"
    "gives b (concat (List.map field_text kvs) @ CHR 0x0D # CHR 0x0A # s)"
    using read_line_gives [of br ?l _ "[]"] by auto
  obtain b' where b': "read_fields [] b = Some ((None, header_of kvs []), b')" "gives b' s"
    using read_fields_gives [OF b(2) assms(2)] by blast
  have cut: "takeWhile (\<lambda>x. x \<noteq> CHR '' '') (uri @ '' HTTP/1.1'') = uri"
    "dropWhile (\<lambda>x. x \<noteq> CHR '' '') (uri @ '' HTTP/1.1'') = '' HTTP/1.1''"
    using assms(3) by (auto simp: takeWhile_append dropWhile_append)
  have line: "parseRequestLine ?l = Some (''GET'', uri, ''HTTP/1.1'')"
    using cut by (simp add: parseRequestLine_def split_cut_def)
  have m: "list_all is_token_char ''GET''" by (simp add: is_token_char_def byte_def)
  from b(1) b' line m http11 assms(5,6) that show thesis by (simp add: ReadRequest_def)
qed

lemma ReadResponse_reads:
  assumes "gives br (head_lines ''HTTP/1.1 101 Switching Protocols'' kvs @ s)" "list_all good_field kvs"
    "\<And>br. \<exists>body. transfer 101 (header_of kvs []) br = Inr body"
  obtains br' body where "ReadResponse transfer br = Some (Inr \<lparr>A_StatusCode = 101, A_Header = header_of kvs [], A_Body = body\<rparr>, br')"
    "gives br' s"
proof -
  let ?l = "''HTTP/1.1 101 Switching Protocols''"
  have "gives br (?l @ CHR 0x0D # CHR 0x0A # (concat (List.map field_text kvs) @ CHR 0x0D # CHR 0x0A # s))"
    using assms(1) by (simp add: head_lines_def)
  then obtain b where b: "read_line [] br = Some (Inr ?l, b)"
    "gives b (concat (List.map field_text kvs) @ CHR 0x0D # CHR 0x0A # s)"
    using read_line_gives [of br ?l _ "[]"] by auto
  obtain b' where b': "read_fields [] b = Some ((None, header_of kvs []), b')" "gives b' s"
    using read_fields_gives [OF b(2) assms(2)] by blast
  obtain body where "transfer 101 (header_of kvs []) b' = Inr body" using assms(3) by blast
  with b(1) b' status_101 that show thesis by (simp add: ReadResponse_def)
qed

lemma header_values_Cons [simp]: "header_values k ((k', vs) # h) = (if k' = k then vs else header_values k h)"
  by (simp add: header_values_def)

lemma header_values_filter [simp]:
  "header_values k (List.filter (\<lambda>(k', _). k' \<noteq> n) h) = (if k = n then [] else header_values k h)"
  by (induction h) (auto simp: header_values_def)

lemma runes_Nil [simp]: "runes [] = []"
  by (simp add: runes.simps)

lemma runes_ascii [simp]: "byte c < 128 \<Longrightarrow> runes (c # s) = (byte c, [c]) # runes s"
  by (simp add: runes.simps [of "c # s"])

lemma TrimSpace_ascii: "\<forall>c \<in> set s. 32 < byte c \<and> byte c < 128 \<Longrightarrow> TrimSpace s = s"
proof -
  assume s: "\<forall>c \<in> set s. 32 < byte c \<and> byte c < 128"
  let ?r = "List.map (\<lambda>c. (byte c, [c])) s"
  have r: "runes s = ?r" using s by (induction s) simp_all
  have no: "\<forall>x \<in> set ?r. \<not> (\<lambda>(r, _). is_space r) x" using s by (force simp: is_space_def)
  have "dropWhile (\<lambda>(r, _). is_space r) ?r = ?r" "dropWhile (\<lambda>(r, _). is_space r) (rev ?r) = rev ?r"
    unfolding dropWhile_eq_self_iff using no by (metis hd_in_set, metis hd_in_set set_rev)
  moreover have "concat (List.map snd ?r) = s" by (induction s) simp_all
  ultimately show "TrimSpace s = s" by (simp add: TrimSpace_def r)
qed

lemma trimmed_tokens: "TrimSpace ''Upgrade'' = ''Upgrade''" "TrimSpace ''websocket'' = ''websocket''"
  by (rule TrimSpace_ascii, simp add: byte_def)+

lemma folds: "EqualFold ''upgrade'' ''Upgrade''" "EqualFold ''websocket'' ''websocket''" "EqualFold ''Upgrade'' ''upgrade''"
  by (simp_all add: EqualFold_def fold_rune_def byte_def)

lemma splits: "split_on (CHR '','') ''Upgrade'' = [''Upgrade'']" "split_on (CHR '','') ''websocket'' = [''websocket'']"
  by simp_all

lemma constant_values [simp]: "trim_blank ''websocket'' = ''websocket''" "trim_blank ''Upgrade'' = ''Upgrade''" "trim_blank ''13'' = ''13''"
  by (simp_all add: trim_blank_def blank_def byte_def)

section \<open>Together\<close>

definition body_fields :: "string list" where
  "body_fields = [''Transfer-Encoding'', ''Content-Length'', ''Trailer'']"

definition no_body :: "header \<Rightarrow> bool" where
  "no_body h \<longleftrightarrow> (\<forall>k \<in> set body_fields. header_values k h = [])"

definition answer_ok :: "header \<Rightarrow> bool" where
  "answer_ok rh \<longleftrightarrow> list_all (\<lambda>(k, v). k \<noteq> [] \<and> list_all is_token_char k \<and> canonicalMIMEHeaderKey k \<notin> set body_fields) (flat rh)"

text \<open>A URL and header fields that make a request of one line each.\<close>

definition request_ok :: "url \<Rightarrow> url \<Rightarrow> header \<Rightarrow> bool" where
  "request_ok u v hdr \<longleftrightarrow>
     CHR '' '' \<notin> set (RequestURI u) \<and> CHR 0x0A \<notin> set (RequestURI u) \<and> CHR 0x0A \<notin> set (U_Host u) \<and>
     ParseRequestURI (RequestURI u) = Some v \<and> header_values ''Host'' hdr = [] \<and> list_all good_field (flat hdr) \<and> answer_ok hdr"

definition origin_ok :: "Upgrader \<Rightarrow> header \<Rightarrow> bool" where
  "origin_ok g hdr \<longleftrightarrow>
     (case G_CheckOrigin g of None \<Rightarrow> header_values ''Origin'' (header_of (flat hdr) []) = [] | Some f \<Rightarrow> \<forall>r. f r)"

lemma no_control_line: "CHR 0x0A \<notin> set (List.map no_control v)"
proof
  assume "CHR 0x0A \<in> set (List.map no_control v)"
  then obtain b where "CHR 0x0A = no_control b" by auto
  then show False by (cases "byte b \<le> 31") (auto simp: no_control_def byte_def)
qed

lemma list_all_flat_filter: "list_all P (flat h) \<Longrightarrow> list_all P (flat (List.filter Q h))"
  by (induction h) (auto simp: flat_def)

lemma answer_fields_good:
  assumes "answer_ok rh" "CHR 0x0A \<notin> set sub"
  shows "list_all good_field (answer_fields sha1 key sub rh)"
proof -
  have "list_all (\<lambda>(k, v). k \<noteq> [] \<and> list_all is_token_char k \<and> canonicalMIMEHeaderKey k \<notin> set body_fields)
      (flat (List.filter (\<lambda>(k, _). k \<noteq> ''Sec-Websocket-Protocol'') rh))"
    using assms(1) unfolding answer_ok_def by (rule list_all_flat_filter)
  moreover have good: "good_field (case kv of (k, v) \<Rightarrow> (k, List.map no_control v))"
    if "case kv of (k, v) \<Rightarrow> k \<noteq> [] \<and> list_all is_token_char k \<and> canonicalMIMEHeaderKey k \<notin> set body_fields" for kv
    using that no_control_line [of "snd kv"] by (cases kv) (simp add: good_field_def)
  ultimately have "list_all good_field (List.map (\<lambda>(k, v). (k, List.map no_control v))
      (flat (List.filter (\<lambda>(k, _). k \<noteq> ''Sec-Websocket-Protocol'') rh)))"
    unfolding list.pred_map comp_def by (rule list.pred_mono_strong)
  moreover have "CHR 0x0A \<notin> set (computeAcceptKey sha1 key)" by (simp add: computeAcceptKey_def)
  ultimately show ?thesis using assms(2)
    by (simp add: answer_fields_def good_field_def is_token_char_def byte_def)
qed

lemma answer_fields_no_body:
  assumes "answer_ok rh"
  shows "no_body (header_of (answer_fields sha1 key sub rh) [])"
proof -
  have f: "list_all (\<lambda>(k, v). k \<noteq> [] \<and> list_all is_token_char k \<and> canonicalMIMEHeaderKey k \<notin> set body_fields)
      (flat (List.filter (\<lambda>(k, _). k \<noteq> ''Sec-Websocket-Protocol'') rh))"
    using assms unfolding answer_ok_def by (rule list_all_flat_filter)
  have "List.filter (\<lambda>(k', _). canonicalMIMEHeaderKey k' = k) (answer_fields sha1 key sub rh) = []" if "k \<in> set body_fields" for k
    using f that unfolding filter_empty_conv
    by (auto simp: answer_fields_def list_all_iff canonical_names body_fields_def split: if_splits)
  then show ?thesis by (simp add: no_body_def header_values_of)
qed

lemma newConn_some:
  assumes "0 \<le> ws"
  obtains c where "newConn src writes rnd now srv rs ws = Some c" "K_br c = NewReaderSize src (if rs = 0 then defaultReadBufferSize else rs)"
proof -
  have "\<not> (if ws = 0 then defaultWriteBufferSize else ws) + int maxFrameHeaderSize < 0"
    using assms by (simp add: defaultWriteBufferSize_def)
  then show thesis using that by (simp add: newConn_def Let_def)
qed

lemma write_head_ok:
  assumes "writes_ok c"
  shows "write_head pieces c = ((length (concat pieces), None),
    c\<lparr>K_writeBuf := append_pieces (K_writeBuf c) [] pieces, K_sent := K_sent c @ concat pieces\<rparr>)"
  using assms by (simp add: write_head_def net_write_def writes_ok_def)

lemma length_append_pieces [simp]: "length (append_pieces buf p pieces) = length buf"
  by (induction pieces arbitrary: buf p) simp_all

lemma request_fields_no_body:
  assumes "answer_ok hdr"
  shows "no_body (header_of (request_fields u key hdr) [])"
proof -
  have "List.filter (\<lambda>(k', _). canonicalMIMEHeaderKey k' = k) (request_fields u key hdr) = []" if "k \<in> set body_fields" for k
    using assms that unfolding filter_empty_conv
    by (auto simp: request_fields_def answer_ok_def list_all_iff canonical_names body_fields_def)
  then show ?thesis by (simp add: no_body_def header_values_of)
qed

text \<open>The server takes the request that NewClient writes.\<close>

lemma request_taken:
  assumes ok: "request_ok u v hdr" and key: "rnd \<noteq> []" and br: "gives br (concat (request_pieces u (base64 rnd) hdr) @ s)"
    and t: "\<And>h br. no_body h \<Longrightarrow> server_transfer h br = None"
    and g: "origin_ok g hdr" "0 \<le> G_WriteBufferSize g"
    and sub: "CHR 0x0A \<notin> set (selectSubprotocol g r (Some rh))" and W: "L_writes lk = []"
    and r: "r = \<lparr>Q_Method = ''GET'', Q_URL = v, Q_Header = List.filter (\<lambda>(k, _). k \<noteq> ''Host'') (header_of (request_fields u (base64 rnd) hdr) []),
       Q_Host = (if U_Host v \<noteq> [] then U_Host v else header_Get ''Host'' (header_of (request_fields u (base64 rnd) hdr) []))\<rparr>"
  obtains br' c where "ReadRequest server_transfer br = Some (Inr r, br')" "gives br' s"
    "Upgrader_Upgrade W g (Some (Inr (lk, 0))) r (Some rh) = Some (Inr (), Some c)"
    "K_sent c = concat (answer_pieces (N_sha1 W) (base64 rnd) (selectSubprotocol g r (Some rh)) rh)"
    "filling c noFrame []" "K_isServer c"
proof -
  let ?kvs = "request_fields u (base64 rnd) hdr"
  have good: "list_all good_field ?kvs"
    using ok by (simp add: request_fields_def request_ok_def good_field_def is_token_char_def byte_def)
  obtain br' where br': "ReadRequest server_transfer br = Some (Inr r, br')" "gives br' s"
    unfolding r by (rule ReadRequest_reads [OF br [unfolded request_text] good, of v server_transfer])
      (use ok t [OF request_fields_no_body] in \<open>simp_all add: request_ok_def\<close>)
  have vals: "header_values ''Sec-Websocket-Version'' (Q_Header r) = ''13'' # List.map (\<lambda>(_, v). trim_blank v) (List.filter (\<lambda>(k', _). canonicalMIMEHeaderKey k' = ''Sec-Websocket-Version'') (flat hdr))"
    "header_values ''Connection'' (Q_Header r) = ''Upgrade'' # List.map (\<lambda>(_, v). trim_blank v) (List.filter (\<lambda>(k', _). canonicalMIMEHeaderKey k' = ''Connection'') (flat hdr))"
    "header_values ''Upgrade'' (Q_Header r) = ''websocket'' # List.map (\<lambda>(_, v). trim_blank v) (List.filter (\<lambda>(k', _). canonicalMIMEHeaderKey k' = ''Upgrade'') (flat hdr))"
    "header_Get ''Sec-Websocket-Key'' (Q_Header r) = base64 rnd"
    unfolding r by (simp_all add: header_values_of header_Get_def request_fields_def canonical_names)
  have tokens: "tokenListContainsValue (Q_Header r) ''Connection'' ''upgrade''" "tokenListContainsValue (Q_Header r) ''Upgrade'' ''websocket''"
    unfolding tokenListContainsValue_def vals by (simp_all add: splits trimmed_tokens folds)
  have origin: "case G_CheckOrigin g of Some f \<Rightarrow> f r | None \<Rightarrow> checkSameOrigin r"
  proof (cases "G_CheckOrigin g")
    case None
    then have "header_values ''Origin'' (Q_Header r) = []"
      using g(1) unfolding r origin_ok_def by (simp add: header_values_of request_fields_def canonical_names)
    with None show ?thesis by (simp add: checkSameOrigin_def)
  qed (use g(1) in \<open>simp add: origin_ok_def\<close>)
  define sub where "sub = selectSubprotocol g r (Some rh)"
  obtain c0 where c0: "newConn (L_src lk) [] (N_masks W) (N_now W) True (G_ReadBufferSize g) (G_WriteBufferSize g) = Some c0"
    using newConn_some [OF g(2)] by blast
  note w = newConn_writes [OF c0 g(2)]
  let ?c0 = "c0\<lparr>K_subprotocol := sub\<rparr>"
  have wo: "writes_ok ?c0" using w by (simp add: filling_empty writes_ok_def)
  let ?p = "answer_pieces (N_sha1 W) (base64 rnd) sub rh"
  let ?c = "?c0\<lparr>K_writeBuf := append_pieces (K_writeBuf ?c0) [] ?p, K_sent := K_sent ?c0 @ concat ?p\<rparr>"
  have up: "Upgrader_Upgrade W g (Some (Inr (lk, 0))) r (Some rh) = Some (Inr (), Some ?c)"
    unfolding Upgrader_Upgrade_def Let_def vals(1,4) sub_def [symmetric]
    using tokens key origin W c0 write_head_ok [OF wo] by simp
  show thesis
    by (rule that [OF br' up]) (use w in \<open>auto simp: filling_empty writes_ok_def sub_def\<close>)
qed

text \<open>The client takes the answer of the server.\<close>

lemma answer_taken:
  assumes key: "N_random W = Inr rnd" and rh: "answer_ok rh" "CHR 0x0A \<notin> set sub"
    and t: "\<And>h br. no_body h \<Longrightarrow> \<exists>body. N_transfer W 101 h br = Inr body"
    and lk: "L_writes lk = []" "calm (L_src lk)" "stream_of (L_src lk) = concat (answer_pieces (N_sha1 W) (base64 rnd) sub rh) @ s"
    and ws: "0 \<le> ws"
  obtains resp d where "websocket_NewClient W lk u hdr rs ws = Some (Inr resp, Some d)" "K_sent d = concat (request_pieces u (base64 rnd) hdr)"
    "reading d [] True s" "filling d noFrame []" "\<not> K_isServer d"
proof -
  let ?kvs = "answer_fields (N_sha1 W) (base64 rnd) sub rh"
  obtain c0 where c0: "newConn (L_src lk) [] (N_masks W) (N_now W) False rs ws = Some c0"
    and c0_br: "K_br c0 = NewReaderSize (L_src lk) (if rs = 0 then defaultReadBufferSize else rs)"
    using newConn_some [OF ws] by blast
  note w = newConn_writes [OF c0 ws]
  have wo: "writes_ok c0" using w by (simp add: filling_empty)
  let ?c1 = "c0\<lparr>K_writeBuf := append_pieces (K_writeBuf c0) [] (request_pieces u (base64 rnd) hdr),
    K_sent := K_sent c0 @ concat (request_pieces u (base64 rnd) hdr)\<rparr>"
  have rd: "reading c0 [] True (stream_of (L_src lk))" using newConn_reads [OF c0 lk(2)] by simp
  have "2 \<le> capacity (K_br c0)" using c0_br by (simp add: NewReaderSize_capacity)
  then have "gives (K_br c0) (head_lines ''HTTP/1.1 101 Switching Protocols'' ?kvs @ s)"
    using rd lk(3) by (simp add: gives_def reading_none answer_text)
  then obtain br body where br: "ReadResponse (N_transfer W) (K_br c0) = Some (Inr \<lparr>A_StatusCode = 101, A_Header = header_of ?kvs [], A_Body = body\<rparr>, br)"
    "gives br s"
    using ReadResponse_reads [OF _ answer_fields_good [OF rh]] t answer_fields_no_body [OF rh(1)] by metis
  have vals: "header_Get ''Upgrade'' (header_of ?kvs []) = ''websocket''" "header_Get ''Connection'' (header_of ?kvs []) = ''Upgrade''"
    "header_Get ''Sec-Websocket-Accept'' (header_of ?kvs []) = computeAcceptKey (N_sha1 W) (base64 rnd)"
    by (simp_all add: header_values_of header_Get_def answer_fields_def canonical_names computeAcceptKey_def)
  let ?d = "?c1\<lparr>K_br := br, K_subprotocol := header_Get ''Sec-Websocket-Protocol'' (header_of ?kvs [])\<rparr>"
  have "websocket_NewClient W lk u hdr rs ws = Some (Inr \<lparr>A_StatusCode = 101, A_Header = header_of ?kvs [], A_Body = body\<rparr>, Some ?d)"
    using key lk(1) c0 write_head_ok [OF wo] br(1) vals folds by (simp add: websocket_NewClient_def generateChallengeKey_def Let_def)
  then show thesis
    by (rule that) (use w rd br(2) in \<open>auto simp: filling_empty writes_ok_def reading_none gives_def\<close>)
qed

text \<open>
  C30. A client that dials a server completes the handshake and then reads the messages that the server
  sends: the bytes that Dial writes are, in whatever pieces they arrive, read as a request that
  Upgrade takes, and the answer with everything that the server sends after it is, in whatever
  pieces again, taken by Dial, whose connection then gives these messages, in their order.
\<close>

theorem handshake_completes:
  assumes url: "parseURL urlStr = Some u" "request_ok u v hdr"
    and tls: "U_Scheme u = ''ws'' \<or> (\<forall>name lk. N_Handshake W name lk = Inr lk \<and> N_VerifyHostname W name lk = None)"
    and key: "N_random W = Inr rnd" "rnd \<noteq> []"
    and bodies: "\<And>h br. no_body h \<Longrightarrow> \<exists>body. N_transfer W 101 h br = Inr body"
      "\<And>h br. no_body h \<Longrightarrow> server_transfer h br = None"
    and server: "N_sha1 W' = N_sha1 W" "origin_ok g hdr" "0 \<le> G_WriteBufferSize g" "G_Subprotocols g = None"
      "answer_ok rh" "CHR 0x0A \<notin> set (header_Get ''Sec-Websocket-Protocol'' rh)" "L_writes lk' = []"
    and ms: "\<forall>m \<in> set ms. sendable_msg m"
  shows "\<exists>request r c c'.
    (\<forall>src n s. calm src \<longrightarrow> stream_of src = request @ s \<longrightarrow>
       (\<exists>br. ReadRequest server_transfer (NewReaderSize src n) = Some (Inr r, br) \<and> comes br s)) \<and>
    Upgrader_Upgrade W' g (Some (Inr (lk', 0))) r (Some rh) = Some (Inr (), Some c) \<and> write_msgs ms c = Some c' \<and>
    (\<forall>lk. L_writes lk = [] \<longrightarrow> L_SetDeadline lk = None \<longrightarrow> calm (L_src lk) \<longrightarrow> stream_of (L_src lk) = K_sent c' \<longrightarrow>
       (\<exists>resp d d'. Dial (W\<lparr>N_dial := \<lambda>_ _ _. Inr lk\<rparr>) DefaultDialer urlStr hdr = Some (Inr resp, Some d, True) \<and>
          K_sent d = request \<and> read_msgs (default_env temporary) (length ms) d = Some (ms, d')))"
proof -
  let ?request = "concat (request_pieces u (base64 rnd) hdr)"
  define r where r: "r = \<lparr>Q_Method = ''GET'', Q_URL = v, Q_Header = List.filter (\<lambda>(k, _). k \<noteq> ''Host'') (header_of (request_fields u (base64 rnd) hdr) []),
       Q_Host = (if U_Host v \<noteq> [] then U_Host v else header_Get ''Host'' (header_of (request_fields u (base64 rnd) hdr) []))\<rparr>"
  let ?sub = "header_Get ''Sec-Websocket-Protocol'' rh"
  have sub: "selectSubprotocol g r (Some rh) = ?sub" using server(4) by (simp add: selectSubprotocol_def)
  have nl: "CHR 0x0A \<notin> set (selectSubprotocol g r (Some rh))" using server(6) sub by simp
  have start: "gives (NewReaderSize src n) s" if "calm src" "stream_of src = s" for src n s
    using that by (simp add: gives_def comes_def NewReaderSize_capacity)
  note taken = request_taken [where server_transfer = server_transfer and W = W', OF url(2) key(2) _ bodies(2) server(2,3) nl server(7) r]
  have request: "\<exists>br. ReadRequest server_transfer (NewReaderSize src n) = Some (Inr r, br) \<and> comes br s"
    if "calm src" "stream_of src = ?request @ s" for src n s
    by (rule taken [OF start [OF that, of n]]) (auto simp: gives_def)
  obtain c where c: "Upgrader_Upgrade W' g (Some (Inr (lk', 0))) r (Some rh) = Some (Inr (), Some c)"
    "K_sent c = concat (answer_pieces (N_sha1 W') (base64 rnd) (selectSubprotocol g r (Some rh)) rh)" "filling c noFrame []" "K_isServer c"
  proof -
    have "calm [(?request, None)]" "stream_of [(?request, None)] = ?request @ []" by (simp_all add: request_pieces_def)
    from taken [OF start [OF this, of 16]] that show thesis by blast
  qed
  obtain wires c' where c': "write_msgs ms c = Some c'" "K_sent c' = K_sent c @ concat wires"
    "list_all2 (\<lambda>(t, data) wire. message_text (\<not> K_isServer c) t data wire) ms wires"
    using write_msgs_sends [OF c(3) ms] by blast
  have "\<exists>resp d d'. Dial (W\<lparr>N_dial := \<lambda>_ _ _. Inr lk\<rparr>) DefaultDialer urlStr hdr = Some (Inr resp, Some d, True) \<and>
      K_sent d = ?request \<and> read_msgs (default_env temporary) (length ms) d = Some (ms, d')"
    if lk: "L_writes lk = []" "L_SetDeadline lk = None" "calm (L_src lk)" "stream_of (L_src lk) = K_sent c'" for lk
  proof -
    let ?W = "W\<lparr>N_dial := \<lambda>_ _ _. Inr lk\<rparr>"
    obtain resp d where d: "websocket_NewClient ?W lk u hdr 0 0 = Some (Inr resp, Some d)" "K_sent d = ?request"
      "reading d [] True (concat wires)" "\<not> K_isServer d"
      by (rule answer_taken [of ?W rnd rh ?sub lk "concat wires" 0 u hdr 0])
        (use key bodies(1) server lk c(2) c'(2) sub in simp_all)
    have secure: "secure ?W zero_Dialer u name lk = Inr lk" for name
      using tls by (auto simp: secure_def zero_Dialer_def)
    have "with_host u (with_subprotocols [] hdr) = (u, hdr)"
      using url(2) by (simp add: with_host_def with_subprotocols_def request_ok_def)
    then have "Dial ?W DefaultDialer urlStr hdr = Some (Inr resp, Some d, True)"
      using url(1) lk(2) secure d(1)
      by (simp add: Dial_def dial_end_def DefaultDialer_def zero_Dialer_def split_beta Let_def)
    moreover obtain d' where "read_msgs (default_env temporary) (length ms) d = Some (ms, d')"
      using read_msgs_receives [of False ms wires d "[]"] c'(3) c(4) ms d(3,4) by auto
    ultimately show ?thesis using d(2) by blast
  qed
  with request c(1) c'(1) show ?thesis by blast
qed

text \<open>What Dial opens and cannot use it closes.\<close>

lemma dial_end_closes:
  "dial_end rc = (r, c, left_open) \<Longrightarrow> (left_open \<longleftrightarrow> (\<exists>resp. r = Inr resp)) \<and> (\<not> left_open \<longrightarrow> c = Some c' \<longrightarrow> K_netClosed c')"
  by (cases rc; cases "fst rc") (auto simp: dial_end_def net_close_def Let_def split: handshake_error.splits if_splits)

lemma Dial_closes:
  assumes "Dial W d urlStr hdr = Some (r, c, left_open)"
  shows "(left_open \<longleftrightarrow> (\<exists>resp. r = Inr resp)) \<and> (\<not> left_open \<longrightarrow> c = Some c' \<longrightarrow> K_netClosed c')"
  using assms unfolding Dial_def Let_def split_beta
  by (simp split: option.splits sum.splits) (auto dest: dial_end_closes)

text \<open>A path with two slashes at its start becomes a request for another host.\<close>

lemma double_slash:
  "parseURL ''ws://h//p'' = Some (zero_url\<lparr>U_Scheme := ''ws'', U_Host := ''h'', U_Opaque := ''//p''\<rparr>)"
  "RequestURI (zero_url\<lparr>U_Scheme := ''ws'', U_Host := ''h'', U_Opaque := ''//p''\<rparr>) = ''ws://p''"
  by (simp_all add: parseURL_def split_keep_def RequestURI_def zero_url_def)

section \<open>A handshake\<close>

definition sample_world :: dial_world where
  "sample_world = \<lparr>N_dial = (\<lambda>_ _ _. Inl EOF), N_Handshake = (\<lambda>_ lk. Inr lk), N_VerifyHostname = (\<lambda>_ _. None),
     N_sha1 = take 20, N_random = Inr (replicate 16 (CHR ''r'')), N_masks = (\<lambda>_. 7), N_transfer = (\<lambda>_ _ _. Inr []), N_now = 0\<rparr>"

definition sample_upgrader :: Upgrader where
  "sample_upgrader = \<lparr>G_ReadBufferSize = 0, G_WriteBufferSize = 0, G_Subprotocols = None, G_CheckOrigin = None\<rparr>"

definition byte_by_byte :: "string \<Rightarrow> link" where
  "byte_by_byte s = \<lparr>L_src = List.map (\<lambda>b. ([b], None)) s, L_writes = [], L_SetDeadline = None\<rparr>"

lemma byte_by_byte [simp]: "L_writes (byte_by_byte s) = []" "L_SetDeadline (byte_by_byte s) = None"
  "calm (L_src (byte_by_byte s))" "stream_of (L_src (byte_by_byte s)) = s"
proof -
  show "calm (L_src (byte_by_byte s))" "stream_of (L_src (byte_by_byte s)) = s"
    by (induction s) (simp_all add: byte_by_byte_def stream_of_def)
qed (simp_all add: byte_by_byte_def)

lemma sample_url: "parseURL ''ws://h/p'' = Some (zero_url\<lparr>U_Scheme := ''ws'', U_Host := ''h'', U_Opaque := ''/p''\<rparr>)"
  by (simp add: parseURL_def split_keep_def)

lemma sample_uri: "ParseRequestURI ''/p'' = Some (zero_url\<lparr>U_Path := ''/p''\<rparr>)"
  by code_simp

theorem handshake_completes_witness:
  "\<exists>request r c c' br resp d d'.
     ReadRequest (\<lambda>_ _. None) (NewReaderSize (L_src (byte_by_byte request)) 0) = Some (Inr r, br) \<and>
     Upgrader_Upgrade sample_world sample_upgrader (Some (Inr (byte_by_byte [], 0))) r (Some []) = Some (Inr (), Some c) \<and>
     write_msgs [(TextMessage, ''hello'')] c = Some c' \<and>
     Dial (sample_world\<lparr>N_dial := \<lambda>_ _ _. Inr (byte_by_byte (K_sent c'))\<rparr>) DefaultDialer ''ws://h/p'' [] = Some (Inr resp, Some d, True) \<and>
     K_sent d = request \<and> read_msgs (default_env (\<lambda>_. True)) 1 d = Some ([(TextMessage, ''hello'')], d')"
proof -
  let ?u = "zero_url\<lparr>U_Scheme := ''ws'', U_Host := ''h'', U_Opaque := ''/p''\<rparr>"
  let ?ms = "[(TextMessage, ''hello'')]"
  have ok: "request_ok ?u (zero_url\<lparr>U_Path := ''/p''\<rparr>) []"
    using sample_uri by (simp add: request_ok_def RequestURI_def zero_url_def flat_def answer_ok_def)
  have ms: "\<forall>m \<in> set ?ms. sendable_msg m" by (simp add: sendable_msg_def isData_def)
  have w: "N_random sample_world = Inr (replicate 16 (CHR ''r''))" "replicate 16 (CHR ''r'') \<noteq> []"
    "\<And>h br. \<exists>body. N_transfer sample_world 101 h br = Inr body" "origin_ok sample_upgrader []" "0 \<le> G_WriteBufferSize sample_upgrader"
    "G_Subprotocols sample_upgrader = None" "answer_ok []" "CHR 0x0A \<notin> set (header_Get ''Sec-Websocket-Protocol'' [])"
    by (simp_all add: sample_world_def sample_upgrader_def origin_ok_def answer_ok_def flat_def header_Get_def)
  have "U_Scheme ?u = ''ws''" by simp
  then have tls: "U_Scheme ?u = ''ws'' \<or> (\<forall>name lk. N_Handshake sample_world name lk = Inr lk \<and> N_VerifyHostname sample_world name lk = None)"
    by (rule disjI1)
  obtain request r c c' where
    h: "\<forall>src n s. calm src \<longrightarrow> stream_of src = request @ s \<longrightarrow>
       (\<exists>br. ReadRequest (\<lambda>_ _. None) (NewReaderSize src n) = Some (Inr r, br) \<and> comes br s)"
    "Upgrader_Upgrade sample_world sample_upgrader (Some (Inr (byte_by_byte [], 0))) r (Some []) = Some (Inr (), Some c)"
    "write_msgs ?ms c = Some c'"
    "\<forall>lk. L_writes lk = [] \<longrightarrow> L_SetDeadline lk = None \<longrightarrow> calm (L_src lk) \<longrightarrow> stream_of (L_src lk) = K_sent c' \<longrightarrow>
       (\<exists>resp d d'. Dial (sample_world\<lparr>N_dial := \<lambda>_ _ _. Inr lk\<rparr>) DefaultDialer ''ws://h/p'' [] = Some (Inr resp, Some d, True) \<and>
          K_sent d = request \<and> read_msgs (default_env (\<lambda>_. True)) (length ?ms) d = Some (?ms, d'))"
  proof -
    from handshake_completes [where server_transfer = "\<lambda>_ _. None" and temporary = "\<lambda>_. True",
        OF sample_url ok tls w(1,2,3) refl refl w(4-8) byte_by_byte(1) [of "[]"] ms]
    show thesis by (elim exE conjE) (rule that, assumption+)
  qed
  have "\<exists>br. ReadRequest (\<lambda>_ _. None) (NewReaderSize (L_src (byte_by_byte request)) 0) = Some (Inr r, br)"
    using h(1) [rule_format, of "L_src (byte_by_byte request)" "[]" 0] by simp blast
  moreover have "\<exists>resp d d'. Dial (sample_world\<lparr>N_dial := \<lambda>_ _ _. Inr (byte_by_byte (K_sent c'))\<rparr>) DefaultDialer ''ws://h/p'' [] =
       Some (Inr resp, Some d, True) \<and> K_sent d = request \<and> read_msgs (default_env (\<lambda>_. True)) 1 d = Some (?ms, d')"
    using h(4) [rule_format, of "byte_by_byte (K_sent c')"] by simp
  ultimately show ?thesis using h(2,3) by blast
qed

end
