(* ===== verification/HttpDown.thy ===== *)
theory HttpDown
  imports Prelude "HOL-Library.AList"
begin

text \<open>
  The graceful HTTP server around the health check (facebookgo/httpdown/httpdown.go): the goroutine
  \<open>manage\<close> that keeps the state of every connection, Stop with its two timeouts, and the server's
  goroutines that report to it. The channels have no buffer, so a send and its receipt are one step, which
  is possible only while \<open>manage\<close> receives: it closes connections one by one, each Close may take its time or never end, and
  everybody else waits until all are closed. A send on a channel that \<open>manage\<close> has closed panics. What is reported of a
  connection is what net/http documents of ConnState; that it is new is reported by the serving goroutine, after the
  accept. When a timeout is over is open.
\<close>

section \<open>Configuration and errors\<close>

definition defaultStopTimeout :: int where "defaultStopTimeout = 60 * 1000000000"
definition defaultKillTimeout :: int where "defaultKillTimeout = 60 * 1000000000"

text \<open>What the listener and the operating system answer; \<open>OpError\<close> wraps another error.\<close>

datatype net_error = ClosedConn | OtherNetError string | OpError net_error

fun error_text :: "net_error \<Rightarrow> string" where
  "error_text ClosedConn = ''use of closed network connection''"
| "error_text (OtherNetError s) = s"
| "error_text (OpError e) = error_text e"

definition isUseOfClosedError :: "net_error option \<Rightarrow> bool" where
  "isUseOfClosedError err =
     (case err of
        None \<Rightarrow> False
      | Some (OpError e) \<Rightarrow> error_text e = ''use of closed network connection''
      | Some e \<Rightarrow> error_text e = ''use of closed network connection'')"

section \<open>manage\<close>

datatype conn_state = StateNew | StateActive | StateIdle | StateHijacked | StateClosed

text \<open>The counts are floats in the code, of whole numbers far below the limit of their exactness.\<close>

record manager =
  M_conns :: "(nat \<times> conn_state) list"
  M_countNew :: int
  M_countActive :: int
  M_countIdle :: int
  M_stopping :: bool                   \<comment> \<open>stopDone is not nil\<close>
  M_returned :: bool                   \<comment> \<open>stopDone and the channels are closed\<close>
  M_stats :: bool
  M_bumps :: "(string \<times> int) list"

definition start_manager :: "bool \<Rightarrow> manager" where
  "start_manager st = \<lparr>M_conns = [], M_countNew = 0, M_countActive = 0, M_countIdle = 0, M_stopping = False,
     M_returned = False, M_stats = st, M_bumps = []\<rparr>"

definition bump :: "string \<Rightarrow> int \<Rightarrow> manager \<Rightarrow> manager" where
  "bump key v m = (if M_stats m then m\<lparr>M_bumps := M_bumps m @ [(key, v)]\<rparr> else m)"

text \<open>A connection that is not in the map has the zero value of its state, \<open>StateNew\<close>.\<close>

definition decConn :: "nat \<Rightarrow> manager \<Rightarrow> manager option" where
  "decConn c m =
     (case (case map_of (M_conns m) c of Some s \<Rightarrow> s | None \<Rightarrow> StateNew) of
        StateNew \<Rightarrow> Some (m\<lparr>M_countNew := M_countNew m - 1\<rparr>)
      | StateActive \<Rightarrow> Some (m\<lparr>M_countActive := M_countActive m - 1\<rparr>)
      | StateIdle \<Rightarrow> Some (m\<lparr>M_countIdle := M_countIdle m - 1\<rparr>)
      | _ \<Rightarrow> None)"

datatype report = NewConn nat | ActiveConn nat | IdleConn nat | ClosedConnection nat | StopRequest | KillRequest | Tick

text \<open>One turn of the loop: the state after it and the connections it closes, in any order. A panic is \<open>None\<close>.\<close>

fun manage :: "report \<Rightarrow> manager \<Rightarrow> (manager \<times> nat list) option" where
  "manage Tick m = Some (bump ''http-state.total'' (M_countNew m + M_countActive m + M_countIdle m)
     (bump ''http-state.idle'' (M_countIdle m) (bump ''http-state.active'' (M_countActive m)
       (bump ''http-state.new'' (M_countNew m) m))), [])"
| "manage (NewConn c) m =
     Some (m\<lparr>M_conns := AList.update c StateNew (M_conns m), M_countNew := M_countNew m + 1\<rparr>, [])"
| "manage (ActiveConn c) m = do {
     m \<leftarrow> decConn c m;
     Some (m\<lparr>M_countActive := M_countActive m + 1, M_conns := AList.update c StateActive (M_conns m)\<rparr>, [])
   }"
| "manage (IdleConn c) m = do {
     m \<leftarrow> decConn c m;
     Some (m\<lparr>M_countIdle := M_countIdle m + 1, M_conns := AList.update c StateIdle (M_conns m)\<rparr>,
       if M_stopping m then [c] else [])
   }"
| "manage (ClosedConnection c) m = do {
     m \<leftarrow> decConn c (bump ''conn.closed'' 1 m);
     let m = m\<lparr>M_conns := AList.delete c (M_conns m)\<rparr>;
     Some (if M_stopping m \<and> M_conns m = [] then m\<lparr>M_returned := True\<rparr> else m, [])
   }"
| "manage StopRequest m =
     (let m = m\<lparr>M_stopping := True\<rparr>
      in if M_conns m = [] then Some (m\<lparr>M_returned := True\<rparr>, [])
         else Some (m, List.map fst (List.filter (\<lambda>(_, s). s = StateIdle) (M_conns m))))"
| "manage KillRequest m =
     Some (bump ''kill.conn.count'' (int (length (M_conns m))) m, List.map fst (M_conns m))"

section \<open>The server\<close>

datatype stop_phase =
    NotStopping
  | ClosingListener          \<comment> \<open>keep-alives are disabled, the listener is not closed yet\<close>
  | AwaitServe               \<comment> \<open>waits for serveDone\<close>
  | SendStop
  | AwaitStop                \<comment> \<open>waits for stopDone or the stop timeout\<close>
  | SendKill
  | AwaitKill                \<comment> \<open>waits for killDone or the kill timeout\<close>
  | StopDone

record http_sys =
  W_manager :: manager
  W_live :: "nat \<Rightarrow> conn_state option"         \<comment> \<open>what was reported last of the connections that are not over\<close>
  W_used :: "nat set"                          \<comment> \<open>connections that were accepted\<close>
  W_pending :: "nat option"                    \<comment> \<open>accepted, not reported yet by the serving goroutine\<close>
  W_closing :: "nat set"                       \<comment> \<open>manage has these still to close in its turn\<close>
  W_killing :: bool                            \<comment> \<open>the turn is that of a kill: killDone is closed at its end\<close>
  W_killDone :: bool                           \<comment> \<open>killDone is closed\<close>
  W_gaveUp :: bool                             \<comment> \<open>the kill timeout was over first\<close>
  W_sockClosed :: "nat set"                    \<comment> \<open>closed by manage\<close>
  W_listening :: bool
  W_serving :: bool                            \<comment> \<open>serveDone is open\<close>
  W_phase :: stop_phase
  W_killed :: bool
  W_panicked :: bool

definition Serve :: "bool \<Rightarrow> http_sys" where
  "Serve st = \<lparr>W_manager = start_manager st, W_live = (\<lambda>_. None), W_used = {}, W_pending = None, W_closing = {}, W_killing = False,
     W_killDone = False, W_gaveUp = False, W_sockClosed = {}, W_listening = True,
     W_serving = True, W_phase = NotStopping, W_killed = False, W_panicked = False\<rparr>"

text \<open>\<open>manage\<close> is in its select, and a message to it.\<close>

definition receiving :: "http_sys \<Rightarrow> bool" where
  "receiving w \<longleftrightarrow> W_closing w = {} \<and> \<not> W_killing w"

definition send :: "report \<Rightarrow> http_sys \<Rightarrow> http_sys" where
  "send r w =
     (if M_returned (W_manager w) then w\<lparr>W_panicked := True\<rparr>
      else case manage r (W_manager w) of
        None \<Rightarrow> w\<lparr>W_panicked := True\<rparr>
      | Some (m, cs) \<Rightarrow> w\<lparr>W_manager := m, W_closing := set cs, W_killing := (r = KillRequest)\<rparr>)"

definition report_of :: "nat \<Rightarrow> conn_state \<Rightarrow> report" where
  "report_of c s =
     (case s of StateNew \<Rightarrow> NewConn c | StateActive \<Rightarrow> ActiveConn c | StateIdle \<Rightarrow> IdleConn c | _ \<Rightarrow> ClosedConnection c)"

definition connState :: "nat \<Rightarrow> conn_state \<Rightarrow> http_sys \<Rightarrow> http_sys" where
  "connState c s w =
     send (report_of c s) (w\<lparr>W_live := (W_live w)(c := (if s = StateHijacked \<or> s = StateClosed then None else Some s))\<rparr>)"

text \<open>The transitions that net/http documents.\<close>

inductive conn_moves :: "conn_state \<Rightarrow> conn_state \<Rightarrow> bool" where
  "conn_moves StateNew StateActive"
| "conn_moves StateNew StateClosed"
| "conn_moves StateActive StateIdle"
| "conn_moves StateActive StateHijacked"
| "conn_moves StateActive StateClosed"
| "conn_moves StateIdle StateActive"
| "conn_moves StateIdle StateClosed"

inductive_simps conn_moves_simps [simp]: "conn_moves s t"

inductive http_step :: "http_sys \<Rightarrow> http_sys \<Rightarrow> bool" where
  accept: "W_serving w \<Longrightarrow> W_listening w \<Longrightarrow> W_pending w = None \<Longrightarrow> c \<notin> W_used w \<Longrightarrow>
    http_step w (w\<lparr>W_used := insert c (W_used w), W_pending := Some c\<rparr>)"
| announce: "W_pending w = Some c \<Longrightarrow> receiving w \<Longrightarrow> http_step w (connState c StateNew (w\<lparr>W_pending := None\<rparr>))"
| move: "W_live w c = Some s \<Longrightarrow> conn_moves s t \<Longrightarrow> receiving w \<Longrightarrow> http_step w (connState c t w)"
| tick: "M_stats (W_manager w) \<Longrightarrow> \<not> M_returned (W_manager w) \<Longrightarrow> receiving w \<Longrightarrow> http_step w (send Tick w)"
| close_one: "c \<in> W_closing w \<Longrightarrow> http_step w (w\<lparr>W_closing := W_closing w - {c}, W_sockClosed := insert c (W_sockClosed w)\<rparr>)"
| kill_done: "W_killing w \<Longrightarrow> W_closing w = {} \<Longrightarrow> http_step w (w\<lparr>W_killing := False, W_killDone := True\<rparr>)"
| serve_ends: "W_serving w \<Longrightarrow> W_pending w = None \<Longrightarrow> http_step w (w\<lparr>W_serving := False\<rparr>)"
| stop: "W_phase w = NotStopping \<Longrightarrow> http_step w (w\<lparr>W_phase := ClosingListener\<rparr>)"
| close_listener: "W_phase w = ClosingListener \<Longrightarrow> http_step w (w\<lparr>W_phase := AwaitServe, W_listening := False\<rparr>)"
| serve_done: "W_phase w = AwaitServe \<Longrightarrow> \<not> W_serving w \<Longrightarrow> http_step w (w\<lparr>W_phase := SendStop\<rparr>)"
| send_stop: "W_phase w = SendStop \<Longrightarrow> receiving w \<Longrightarrow> http_step w (send StopRequest (w\<lparr>W_phase := AwaitStop\<rparr>))"
| stopped: "W_phase w = AwaitStop \<Longrightarrow> M_returned (W_manager w) \<Longrightarrow> http_step w (w\<lparr>W_phase := StopDone\<rparr>)"
| stop_timeout: "W_phase w = AwaitStop \<Longrightarrow> http_step w (w\<lparr>W_phase := SendKill\<rparr>)"
| send_kill: "W_phase w = SendKill \<Longrightarrow> receiving w \<Longrightarrow>
    http_step w (send KillRequest (w\<lparr>W_phase := AwaitKill, W_killed := True\<rparr>))"
| killed: "W_phase w = AwaitKill \<Longrightarrow> W_killDone w \<Longrightarrow> http_step w (w\<lparr>W_phase := StopDone\<rparr>)"
| kill_timeout: "W_phase w = AwaitKill \<Longrightarrow> http_step w (w\<lparr>W_phase := StopDone, W_gaveUp := True\<rparr>)"

inductive http_run :: "bool \<Rightarrow> http_sys \<Rightarrow> bool" for st where
  start: "http_run st (Serve st)"
| step: "http_run st w \<Longrightarrow> \<not> W_panicked w \<Longrightarrow> http_step w w' \<Longrightarrow> http_run st w'"

text \<open>What Stop returns when it is over, and Wait when the loop has ended with an error.\<close>

definition Stop_error :: "net_error option \<Rightarrow> net_error option" where
  "Stop_error closeErr = (if closeErr \<noteq> None \<and> \<not> isUseOfClosedError closeErr then closeErr else None)"

definition Wait :: "net_error option \<Rightarrow> net_error option" where
  "Wait serveErr = (if isUseOfClosedError serveErr then None else serveErr)"

text \<open>
  \<open>HTTP.ListenAndServe\<close> up to Serve, and the function \<open>ListenAndServe\<close>: what happens first, the end of
  the loop or a signal, and what Stop and the loop give then.
\<close>

definition listen_addr :: "string \<Rightarrow> bool \<Rightarrow> string" where
  "listen_addr addr tls = (if addr = [] then (if tls then '':https'' else '':http'') else addr)"

definition HTTP_ListenAndServe :: "(string \<Rightarrow> net_error option) \<Rightarrow> bool \<Rightarrow> string \<Rightarrow> bool \<Rightarrow> net_error + http_sys" where
  "HTTP_ListenAndServe listen st addr tls = (case listen (listen_addr addr tls) of Some e \<Rightarrow> Inl e | None \<Rightarrow> Inr (Serve st))"

datatype first_event = LoopEnds "net_error option" | Signal

definition ListenAndServe ::
    "(string \<Rightarrow> net_error option) \<Rightarrow> string \<Rightarrow> bool \<Rightarrow> first_event \<Rightarrow> net_error option \<Rightarrow> net_error option \<Rightarrow> net_error option" where
  "ListenAndServe listen addr tls event closeErr serveErr =
     (case HTTP_ListenAndServe listen False addr tls of
        Inl e \<Rightarrow> Some e
      | Inr _ \<Rightarrow>
          (case event of
             LoopEnds err \<Rightarrow> Wait err
           | Signal \<Rightarrow> (case Stop_error closeErr of Some e \<Rightarrow> Some e | None \<Rightarrow> Wait serveErr)))"

section \<open>Tallies\<close>

definition tally :: "conn_state \<Rightarrow> (nat \<times> conn_state) list \<Rightarrow> int" where
  "tally u al = int (length (List.filter (\<lambda>(_, s). s = u) al))"

lemma tally_simps [simp]: "tally u [] = 0" "tally u ((c, s) # al) = (if s = u then 1 else 0) + tally u al"
  by (simp_all add: tally_def)

lemma tally_update:
  "distinct (List.map fst al) \<Longrightarrow>
     tally u (AList.update c s al) = tally u al - (if map_of al c = Some u then 1 else 0) + (if s = u then 1 else 0)"
proof (induction al)
  case (Cons x al)
  obtain k t where x: "x = (k, t)" by force
  show ?case
  proof (cases "k = c")
    case True
    then show ?thesis by (simp add: x)
  next
    case False
    with Cons x show ?thesis by simp
  qed
qed simp

lemma tally_delete:
  "distinct (List.map fst al) \<Longrightarrow> tally u (AList.delete c al) = tally u al - (if map_of al c = Some u then 1 else 0)"
proof (induction al)
  case (Cons x al)
  obtain k t where x: "x = (k, t)" by force
  show ?case
  proof (cases "k = c")
    case True
    with Cons x have "c \<notin> fst ` set al" by auto
    with True x show ?thesis by (simp add: delete_idem map_of_eq_None_iff [THEN iffD2])
  qed (use Cons x in simp)
qed simp

lemma tally_card:
  assumes "distinct (List.map fst al)"
  shows "tally u al = int (card {c. map_of al c = Some u})"
proof -
  let ?f = "List.filter (\<lambda>(_, s). s = u) al"
  have d: "distinct (List.map fst ?f)" using assms by (rule distinct_map_filter)
  have "fst ` set ?f = {c. map_of al c = Some u}"
    using assms by (force simp: map_of_eq_Some_iff)
  with distinct_card [OF d] show ?thesis by (simp add: tally_def)
qed

section \<open>The accounts of manage\<close>

definition counted :: "manager \<Rightarrow> bool" where
  "counted m \<longleftrightarrow> distinct (List.map fst (M_conns m)) \<and> M_countNew m = tally StateNew (M_conns m) \<and>
     M_countActive m = tally StateActive (M_conns m) \<and> M_countIdle m = tally StateIdle (M_conns m) \<and>
     (\<forall>c s. map_of (M_conns m) c = Some s \<longrightarrow> s = StateNew \<or> s = StateActive \<or> s = StateIdle)"

lemma bump_simps [simp]:
  "M_conns (bump k v m) = M_conns m" "M_countNew (bump k v m) = M_countNew m" "M_countActive (bump k v m) = M_countActive m"
  "M_countIdle (bump k v m) = M_countIdle m" "M_stopping (bump k v m) = M_stopping m" "M_returned (bump k v m) = M_returned m"
  by (simp_all add: bump_def)

lemma M_stats_bump: "M_stats (bump k v m) = M_stats m"
  by (simp add: bump_def)

lemma counted_bump [simp]: "counted (bump k v m) = counted m"
  by (simp add: counted_def)

text \<open>A report that fits what is known of its connection.\<close>

definition fits :: "report \<Rightarrow> manager \<Rightarrow> bool" where
  "fits r m \<longleftrightarrow>
     (case r of
        NewConn c \<Rightarrow> map_of (M_conns m) c = None
      | ActiveConn c \<Rightarrow> map_of (M_conns m) c \<noteq> None
      | IdleConn c \<Rightarrow> map_of (M_conns m) c \<noteq> None
      | ClosedConnection c \<Rightarrow> map_of (M_conns m) c \<noteq> None
      | _ \<Rightarrow> True)"

fun conns_after :: "report \<Rightarrow> (nat \<rightharpoonup> conn_state) \<Rightarrow> (nat \<rightharpoonup> conn_state)" where
  "conns_after (NewConn c) f = f(c \<mapsto> StateNew)"
| "conns_after (ActiveConn c) f = f(c \<mapsto> StateActive)"
| "conns_after (IdleConn c) f = f(c \<mapsto> StateIdle)"
| "conns_after (ClosedConnection c) f = f(c := None)"
| "conns_after _ f = f"

lemma decConn_counted:
  assumes "counted m" "map_of (M_conns m) c = Some s"
  obtains m' where "decConn c m = Some m'" "M_conns m' = M_conns m" "M_stopping m' = M_stopping m" "M_returned m' = M_returned m"
    "M_stats m' = M_stats m"
    "M_countNew m' = tally StateNew (M_conns m) - (if s = StateNew then 1 else 0)"
    "M_countActive m' = tally StateActive (M_conns m) - (if s = StateActive then 1 else 0)"
    "M_countIdle m' = tally StateIdle (M_conns m) - (if s = StateIdle then 1 else 0)"
  using assms that unfolding counted_def decConn_def by (cases s) fastforce+

lemma manage_counted:
  assumes "counted m" "fits r m"
  obtains m' cs where "manage r m = Some (m', cs)" "counted m'" "map_of (M_conns m') = conns_after r (map_of (M_conns m))"
    "M_stopping m' \<longleftrightarrow> M_stopping m \<or> r = StopRequest"
    "M_returned m' \<longleftrightarrow> M_returned m \<or> M_conns m' = [] \<and> (r = StopRequest \<or> M_stopping m \<and> (\<exists>c. r = ClosedConnection c))"
    "set cs = {c. (\<exists>d. r = IdleConn d \<and> M_stopping m \<and> c = d) \<or>
       r = StopRequest \<and> map_of (M_conns m) c = Some StateIdle \<or> r = KillRequest \<and> map_of (M_conns m) c \<noteq> None}"
    "M_stats m' = M_stats m"
proof -
  have d: "distinct (List.map fst (M_conns m))" using assms(1) by (simp add: counted_def)
  have empty: "M_conns m = [] \<longleftrightarrow> (\<forall>c. map_of (M_conns m) c = None)" by (cases "M_conns m") auto
  have up: "counted (m'\<lparr>M_conns := AList.update c s (M_conns m)\<rparr>)"
    if "map_of (M_conns m) c = t" "s = StateNew \<or> s = StateActive \<or> s = StateIdle"
      "M_countNew m' = tally StateNew (M_conns m) - (if t = Some StateNew then 1 else 0) + (if s = StateNew then 1 else 0)"
      "M_countActive m' = tally StateActive (M_conns m) - (if t = Some StateActive then 1 else 0) + (if s = StateActive then 1 else 0)"
      "M_countIdle m' = tally StateIdle (M_conns m) - (if t = Some StateIdle then 1 else 0) + (if s = StateIdle then 1 else 0)"
    for m' :: manager and c s t
    using that assms(1) d by (auto simp: counted_def tally_update distinct_update update_conv' split: if_splits)
  show thesis
  proof (cases r)
    case (NewConn c)
    have "counted (m\<lparr>M_conns := AList.update c StateNew (M_conns m), M_countNew := M_countNew m + 1\<rparr>)"
      using up [of c None StateNew "m\<lparr>M_countNew := M_countNew m + 1\<rparr>"] assms NewConn by (simp add: fits_def counted_def)
    with NewConn show thesis
      by (intro that [of "m\<lparr>M_conns := AList.update c StateNew (M_conns m), M_countNew := M_countNew m + 1\<rparr>" "[]"])
        (simp_all add: update_conv')
  next
    case (ActiveConn c)
    then obtain t where t: "map_of (M_conns m) c = Some t" using assms(2) by (auto simp: fits_def)
    from decConn_counted [OF assms(1) t] obtain m' where m': "decConn c m = Some m'" "M_conns m' = M_conns m"
      "M_stopping m' = M_stopping m" "M_returned m' = M_returned m" "M_stats m' = M_stats m"
      "M_countNew m' = tally StateNew (M_conns m) - (if t = StateNew then 1 else 0)"
      "M_countActive m' = tally StateActive (M_conns m) - (if t = StateActive then 1 else 0)"
      "M_countIdle m' = tally StateIdle (M_conns m) - (if t = StateIdle then 1 else 0)" .
    have "counted (m'\<lparr>M_conns := AList.update c StateActive (M_conns m), M_countActive := M_countActive m' + 1\<rparr>)"
      using up [OF t, of StateActive "m'\<lparr>M_countActive := M_countActive m' + 1\<rparr>"] m' by (simp add: counted_def)
    with ActiveConn m' show thesis
      by (intro that [of "m'\<lparr>M_conns := AList.update c StateActive (M_conns m), M_countActive := M_countActive m' + 1\<rparr>"
            "[]"])
        (auto simp: update_conv')
  next
    case (IdleConn c)
    then obtain t where t: "map_of (M_conns m) c = Some t" using assms(2) by (auto simp: fits_def)
    from decConn_counted [OF assms(1) t] obtain m' where m': "decConn c m = Some m'" "M_conns m' = M_conns m"
      "M_stopping m' = M_stopping m" "M_returned m' = M_returned m" "M_stats m' = M_stats m"
      "M_countNew m' = tally StateNew (M_conns m) - (if t = StateNew then 1 else 0)"
      "M_countActive m' = tally StateActive (M_conns m) - (if t = StateActive then 1 else 0)"
      "M_countIdle m' = tally StateIdle (M_conns m) - (if t = StateIdle then 1 else 0)" .
    have "counted (m'\<lparr>M_conns := AList.update c StateIdle (M_conns m), M_countIdle := M_countIdle m' + 1\<rparr>)"
      using up [OF t, of StateIdle "m'\<lparr>M_countIdle := M_countIdle m' + 1\<rparr>"] m' by (simp add: counted_def)
    with IdleConn m' show thesis
      by (intro that [of "m'\<lparr>M_conns := AList.update c StateIdle (M_conns m), M_countIdle := M_countIdle m' + 1\<rparr>"
            "if M_stopping m then [c] else []"])
        (auto simp: update_conv')
  next
    case (ClosedConnection c)
    then obtain t where t: "map_of (M_conns m) c = Some t" using assms(2) by (auto simp: fits_def)
    have "counted (bump ''conn.closed'' 1 m)" "map_of (M_conns (bump ''conn.closed'' 1 m)) c = Some t" using assms(1) t by simp_all
    from decConn_counted [OF this] obtain m' where m': "decConn c (bump ''conn.closed'' 1 m) = Some m'" "M_conns m' = M_conns m"
      "M_stopping m' = M_stopping m" "M_returned m' = M_returned m" "M_stats m' = M_stats m"
      "M_countNew m' = tally StateNew (M_conns m) - (if t = StateNew then 1 else 0)"
      "M_countActive m' = tally StateActive (M_conns m) - (if t = StateActive then 1 else 0)"
      "M_countIdle m' = tally StateIdle (M_conns m) - (if t = StateIdle then 1 else 0)"
      unfolding bump_simps M_stats_bump by blast
    let ?m = "m'\<lparr>M_conns := AList.delete c (M_conns m)\<rparr>"
    let ?m2 = "if M_stopping ?m \<and> M_conns ?m = [] then ?m\<lparr>M_returned := True\<rparr> else ?m"
    have step: "manage r m = Some (?m2, [])" using ClosedConnection m'(1,2) by (simp add: Let_def)
    have same: "M_conns ?m2 = AList.delete c (M_conns m)" "M_stopping ?m2 = M_stopping m" "M_stats ?m2 = M_stats m"
      "M_returned ?m2 \<longleftrightarrow> M_returned m \<or> AList.delete c (M_conns m) = [] \<and> M_stopping m"
      "M_countNew ?m2 = M_countNew m'" "M_countActive ?m2 = M_countActive m'" "M_countIdle ?m2 = M_countIdle m'"
      using m'(3-5) by auto
    have vals: "\<forall>k s. map_of (AList.delete c (M_conns m)) k = Some s \<longrightarrow> s = StateNew \<or> s = StateActive \<or> s = StateIdle"
      using assms(1) by (simp add: counted_def delete_conv')
    have "counted ?m2" unfolding counted_def same m'(6-8) using vals t d
      by (simp add: tally_delete distinct_delete)
    then show thesis
      by (rule that [OF step]) (use ClosedConnection same in \<open>simp_all add: delete_conv'\<close>)
  next
    case StopRequest
    have "fst ` {x \<in> set (M_conns m). (case x of (_, s) \<Rightarrow> s = StateIdle)} = {c. map_of (M_conns m) c = Some StateIdle}"
      using d by (force simp: map_of_eq_Some_iff)
    with StopRequest assms(1) show thesis
      by (intro that [of "if M_conns m = [] then m\<lparr>M_stopping := True, M_returned := True\<rparr> else m\<lparr>M_stopping := True\<rparr>"
            "List.map fst (List.filter (\<lambda>(_, s). s = StateIdle) (M_conns m))"])
        (auto simp: counted_def)
  next
    case KillRequest
    have "fst ` set (M_conns m) = {c. map_of (M_conns m) c \<noteq> None}" by (force simp: map_of_eq_None_iff dom_map_of_conv_image_fst [symmetric])
    with KillRequest assms(1) show thesis
      by (intro that [of "bump ''kill.conn.count'' (int (length (M_conns m))) m" "List.map fst (M_conns m)"])
        (auto simp: M_stats_bump)
  next
    case Tick
    then obtain m' where "manage r m = Some (m', [])" "m' = bump ''http-state.total'' (M_countNew m + M_countActive m + M_countIdle m)
     (bump ''http-state.idle'' (M_countIdle m) (bump ''http-state.active'' (M_countActive m)
       (bump ''http-state.new'' (M_countNew m) m)))" by simp
    with assms(1) Tick show thesis by (intro that [of m' "[]"]) (auto simp: M_stats_bump)
  qed
qed

section \<open>The accounts of the server\<close>

definition accounts_inv :: "http_sys \<Rightarrow> bool" where
  "accounts_inv w \<longleftrightarrow>
     counted (W_manager w) \<and> map_of (M_conns (W_manager w)) = W_live w \<and> dom (W_live w) \<subseteq> W_used w \<and>
     (\<forall>c. W_pending w = Some c \<longrightarrow> c \<in> W_used w \<and> W_live w c = None \<and> W_serving w) \<and>
     (M_stopping (W_manager w) \<longleftrightarrow> W_phase w \<in> {AwaitStop, SendKill, AwaitKill, StopDone}) \<and>
     (W_phase w \<in> {SendStop, AwaitStop, SendKill, AwaitKill, StopDone} \<longrightarrow> \<not> W_serving w) \<and>
     (M_returned (W_manager w) \<longleftrightarrow> M_stopping (W_manager w) \<and> M_conns (W_manager w) = [])"

definition closing_inv :: "http_sys \<Rightarrow> bool" where
  "closing_inv w \<longleftrightarrow>
     (\<forall>c. M_stopping (W_manager w) \<longrightarrow> W_live w c = Some StateIdle \<longrightarrow> c \<in> W_sockClosed w \<union> W_closing w) \<and>
     (\<forall>c. W_killed w \<longrightarrow> W_live w c \<noteq> None \<longrightarrow> c \<in> W_sockClosed w \<or> W_killing w \<and> c \<in> W_closing w) \<and>
     (W_killed w \<longrightarrow> W_phase w \<in> {AwaitKill, StopDone}) \<and> (W_phase w = AwaitKill \<longrightarrow> W_killed w) \<and>
     (W_killing w \<longrightarrow> W_killed w \<and> \<not> W_killDone w) \<and> (W_killDone w \<longrightarrow> W_killed w) \<and>
     (W_gaveUp w \<longrightarrow> W_killed w \<and> W_phase w = StopDone) \<and>
     (W_phase w = StopDone \<longrightarrow> (if W_killed w then W_killDone w \<or> W_gaveUp w else M_returned (W_manager w))) \<and>
     (W_panicked w \<longrightarrow> W_phase w = AwaitKill \<and> M_returned (W_manager w))"

lemma send_inv:
  assumes "counted (W_manager w)" "fits r (W_manager w)" "\<not> M_returned (W_manager w)"
  obtains m cs where "send r w = w\<lparr>W_manager := m, W_closing := set cs, W_killing := (r = KillRequest)\<rparr>" "counted m"
    "map_of (M_conns m) = conns_after r (map_of (M_conns (W_manager w)))"
    "M_stopping m \<longleftrightarrow> M_stopping (W_manager w) \<or> r = StopRequest"
    "M_returned m \<longleftrightarrow> M_conns m = [] \<and> (r = StopRequest \<or> M_stopping (W_manager w) \<and> (\<exists>c. r = ClosedConnection c))"
    "set cs = {c. (\<exists>d. r = IdleConn d \<and> M_stopping (W_manager w) \<and> c = d) \<or>
       r = StopRequest \<and> map_of (M_conns (W_manager w)) c = Some StateIdle \<or> r = KillRequest \<and> map_of (M_conns (W_manager w)) c \<noteq> None}"
  by (rule manage_counted [OF assms(1,2)]) (use assms(3) that in \<open>auto simp: send_def\<close>)

lemma map_of_empty_iff: "map_of al = (\<lambda>_. None) \<longleftrightarrow> al = []"
  by (cases al) (auto simp: fun_eq_iff)

text \<open>What a message of each kind does to a server whose accounts are right.\<close>

lemma announce_does:
  assumes inv: "accounts_inv w" and c: "W_pending w = Some c" "receiving w"
  obtains m where "connState c StateNew (w\<lparr>W_pending := None\<rparr>) = w\<lparr>W_pending := None, W_live := (W_live w)(c \<mapsto> StateNew), W_manager := m\<rparr>"
    "counted m" "map_of (M_conns m) = (W_live w)(c \<mapsto> StateNew)" "\<not> M_stopping m" "\<not> M_returned m" "\<not> M_stopping (W_manager w)"
proof -
  have w: "counted (W_manager w)" "map_of (M_conns (W_manager w)) = W_live w" "W_live w c = None" "\<not> M_stopping (W_manager w)"
    "\<not> M_returned (W_manager w)" using inv c(1) unfolding accounts_inv_def by auto
  let ?w = "w\<lparr>W_pending := None, W_live := (W_live w)(c \<mapsto> StateNew)\<rparr>"
  obtain m cs where m: "send (NewConn c) ?w = ?w\<lparr>W_manager := m, W_closing := set cs, W_killing := (NewConn c = KillRequest)\<rparr>" "counted m"
    "map_of (M_conns m) = conns_after (NewConn c) (map_of (M_conns (W_manager ?w)))"
    "M_stopping m \<longleftrightarrow> M_stopping (W_manager ?w) \<or> NewConn c = StopRequest"
    "M_returned m \<longleftrightarrow> M_conns m = [] \<and> (NewConn c = StopRequest \<or> M_stopping (W_manager ?w) \<and> (\<exists>d. NewConn c = ClosedConnection d))"
    "set cs = {k. (\<exists>d. NewConn c = IdleConn d \<and> M_stopping (W_manager ?w) \<and> k = d) \<or>
       NewConn c = StopRequest \<and> map_of (M_conns (W_manager ?w)) k = Some StateIdle \<or> NewConn c = KillRequest \<and> map_of (M_conns (W_manager ?w)) k \<noteq> None}"
    by (rule send_inv [of ?w "NewConn c"]) (insert w, simp, simp add: fits_def, simp, rule that, assumption+)
  have "connState c StateNew (w\<lparr>W_pending := None\<rparr>) = ?w\<lparr>W_manager := m\<rparr>"
    using m(1,6) c(2) by (simp add: connState_def report_of_def receiving_def)
  with m(2-5) w show thesis by (intro that) simp_all
qed

lemma move_does:
  assumes inv: "accounts_inv w" and move: "W_live w c = Some s" "conn_moves s t"
  obtains m where "connState c t w = w\<lparr>W_live := (W_live w)(c := (if t = StateHijacked \<or> t = StateClosed then None else Some t)), W_manager := m,
      W_closing := (if t = StateIdle \<and> M_stopping (W_manager w) then {c} else {}), W_killing := False\<rparr>"
    "counted m" "map_of (M_conns m) = (W_live w)(c := (if t = StateHijacked \<or> t = StateClosed then None else Some t))"
    "M_stopping m = M_stopping (W_manager w)" "M_returned m \<longleftrightarrow> M_stopping (W_manager w) \<and> M_conns m = []"
    "\<not> M_returned (W_manager w)"
proof -
  have w: "counted (W_manager w)" "map_of (M_conns (W_manager w)) = W_live w" using inv by (simp_all add: accounts_inv_def)
  have "M_conns (W_manager w) \<noteq> []"
  proof
    assume "M_conns (W_manager w) = []"
    then have "W_live w c = None" using w(2) by (metis map_of.simps(1))
    with move(1) show False by simp
  qed
  then have nr: "\<not> M_returned (W_manager w)" using inv by (simp add: accounts_inv_def)
  let ?r = "report_of c t"
  let ?w = "w\<lparr>W_live := (W_live w)(c := (if t = StateHijacked \<or> t = StateClosed then None else Some t))\<rparr>"
  have t: "t = StateActive \<or> t = StateIdle \<or> t = StateHijacked \<or> t = StateClosed" using move(2) by auto
  have after: "conns_after ?r (W_live w) = W_live ?w" using t by (auto simp: report_of_def)
  have fit: "fits ?r (W_manager w)" using t w(2) move(1) by (auto simp: fits_def report_of_def)
  obtain m cs where m: "send ?r ?w = ?w\<lparr>W_manager := m, W_closing := set cs, W_killing := (?r = KillRequest)\<rparr>" "counted m"
    "map_of (M_conns m) = conns_after ?r (map_of (M_conns (W_manager ?w)))"
    "M_stopping m \<longleftrightarrow> M_stopping (W_manager ?w) \<or> ?r = StopRequest"
    "M_returned m \<longleftrightarrow> M_conns m = [] \<and> (?r = StopRequest \<or> M_stopping (W_manager ?w) \<and> (\<exists>d. ?r = ClosedConnection d))"
    "set cs = {k. (\<exists>d. ?r = IdleConn d \<and> M_stopping (W_manager ?w) \<and> k = d) \<or>
       ?r = StopRequest \<and> map_of (M_conns (W_manager ?w)) k = Some StateIdle \<or> ?r = KillRequest \<and> map_of (M_conns (W_manager ?w)) k \<noteq> None}"
    by (rule send_inv [of ?w ?r]) (simp add: w(1), simp add: fit, simp add: nr, rule that, assumption+)
  have ns: "?r \<noteq> StopRequest" "?r \<noteq> KillRequest" using t by (auto simp: report_of_def)
  have live: "map_of (M_conns m) = W_live ?w" using m(3) w(2) after by simp
  have ret: "M_returned m \<longleftrightarrow> M_stopping (W_manager w) \<and> M_conns m = []"
  proof (cases "\<exists>d. ?r = ClosedConnection d")
    case False
    then have "W_live ?w c \<noteq> None" using t by (auto simp: report_of_def)
    then have "M_conns m \<noteq> []" using live by (metis map_of.simps(1))
    with m(5) show ?thesis by simp
  qed (use m(5) ns in auto)
  have "set cs = (if t = StateIdle \<and> M_stopping (W_manager w) then {c} else {})"
    unfolding m(6) using t by (auto simp: report_of_def)
  with m(1) ns have "connState c t w = ?w\<lparr>W_manager := m, W_closing := (if t = StateIdle \<and> M_stopping (W_manager w) then {c} else {}), W_killing := False\<rparr>"
    by (simp add: connState_def)
  with m(2,4) ns live ret nr show thesis by (intro that) simp_all
qed

lemma request_does:
  assumes inv: "accounts_inv w" and r: "r = StopRequest \<or> r = KillRequest \<and> M_stopping (W_manager w)" and nr: "\<not> M_returned (W_manager w)"
  obtains m where "send r w = w\<lparr>W_manager := m, W_closing := {c. W_live w c \<noteq> None \<and> (r = StopRequest \<longrightarrow> W_live w c = Some StateIdle)},
      W_killing := (r = KillRequest)\<rparr>"
    "counted m" "map_of (M_conns m) = W_live w" "M_stopping m" "M_returned m \<longleftrightarrow> M_conns m = []"
proof -
  have w: "counted (W_manager w)" "map_of (M_conns (W_manager w)) = W_live w" using inv by (simp_all add: accounts_inv_def)
  obtain m cs where m: "send r w = w\<lparr>W_manager := m, W_closing := set cs, W_killing := (r = KillRequest)\<rparr>" "counted m"
    "map_of (M_conns m) = conns_after r (map_of (M_conns (W_manager w)))"
    "M_stopping m \<longleftrightarrow> M_stopping (W_manager w) \<or> r = StopRequest"
    "M_returned m \<longleftrightarrow> M_conns m = [] \<and> (r = StopRequest \<or> M_stopping (W_manager w) \<and> (\<exists>d. r = ClosedConnection d))"
    "set cs = {k. (\<exists>d. r = IdleConn d \<and> M_stopping (W_manager w) \<and> k = d) \<or>
       r = StopRequest \<and> map_of (M_conns (W_manager w)) k = Some StateIdle \<or> r = KillRequest \<and> map_of (M_conns (W_manager w)) k \<noteq> None}"
    by (rule send_inv [of w r]) (use w r nr in \<open>auto simp: fits_def\<close>)
  have live: "map_of (M_conns m) = W_live w" using m(3) w(2) r by auto
  have "M_conns (W_manager w) \<noteq> []" if "r = KillRequest" using that nr r inv by (auto simp: accounts_inv_def)
  then have "M_returned m \<longleftrightarrow> M_conns m = []" using m(5) r live w(2) map_of_empty_iff by metis
  moreover have "set cs = {c. W_live w c \<noteq> None \<and> (r = StopRequest \<longrightarrow> W_live w c = Some StateIdle)}"
    unfolding m(6) w(2) using r by auto
  ultimately show thesis using m(1,2,4) live r by (intro that [of m]) auto
qed

lemma accounts_step:
  assumes "http_step w w'" "accounts_inv w" "closing_inv w" "\<not> W_panicked w"
  shows "accounts_inv w'"
  using assms(1)
proof cases
  case (announce c)
  obtain m where "w' = w\<lparr>W_pending := None, W_live := (W_live w)(c \<mapsto> StateNew), W_manager := m\<rparr>"
    "counted m" "map_of (M_conns m) = (W_live w)(c \<mapsto> StateNew)" "\<not> M_stopping m" "\<not> M_returned m" "\<not> M_stopping (W_manager w)"
    by (rule announce_does [OF assms(2) announce(2,3)]) (use announce(1) in blast)
  then show ?thesis using assms(2) announce(2) by (auto simp: accounts_inv_def)
next
  case (move c s t)
  obtain m where m: "w' = w\<lparr>W_live := (W_live w)(c := (if t = StateHijacked \<or> t = StateClosed then None else Some t)), W_manager := m,
      W_closing := (if t = StateIdle \<and> M_stopping (W_manager w) then {c} else {}), W_killing := False\<rparr>"
    "counted m" "map_of (M_conns m) = (W_live w)(c := (if t = StateHijacked \<or> t = StateClosed then None else Some t))"
    "M_stopping m = M_stopping (W_manager w)" "M_returned m \<longleftrightarrow> M_stopping (W_manager w) \<and> M_conns m = []"
    by (rule move_does [OF assms(2) move(2,3)]) (use move(1) in blast)
  have "c \<in> W_used w" "W_pending w \<noteq> Some c" "dom (W_live w) \<subseteq> W_used w"
    "\<forall>d. W_pending w = Some d \<longrightarrow> d \<in> W_used w \<and> W_live w d = None \<and> W_serving w"
    using assms(2) move(2) by (auto simp: accounts_inv_def)
  then have "dom (W_live w') \<subseteq> W_used w'" "\<And>d. W_pending w' = Some d \<Longrightarrow> d \<in> W_used w' \<and> W_live w' d = None \<and> W_serving w'"
    unfolding m(1) by auto
  then show ?thesis using assms(2) m(2-5) unfolding accounts_inv_def m(1) by simp
next
  case send_stop
  have nr: "\<not> M_returned (W_manager w)" using assms(2) send_stop(2) by (simp add: accounts_inv_def)
  let ?w = "w\<lparr>W_phase := AwaitStop\<rparr>"
  obtain m where "send StopRequest w = w\<lparr>W_manager := m, W_closing := {c. W_live w c \<noteq> None \<and> (StopRequest = StopRequest \<longrightarrow> W_live w c = Some StateIdle)},
      W_killing := (StopRequest = KillRequest)\<rparr>" "counted m" "map_of (M_conns m) = W_live w" "M_stopping m" "M_returned m \<longleftrightarrow> M_conns m = []"
    by (rule request_does [OF assms(2) _ nr, where r = StopRequest]) auto
  moreover have "send StopRequest ?w = (send StopRequest w)\<lparr>W_phase := AwaitStop\<rparr>"
    by (simp add: send_def split: option.splits)
  moreover have "W_pending w = None" using assms(2) send_stop(2) by (auto simp: accounts_inv_def)
  ultimately show ?thesis using assms(2) send_stop(1,2) by (simp add: accounts_inv_def)
next
  case send_kill
  let ?w = "w\<lparr>W_phase := AwaitKill, W_killed := True\<rparr>"
  have st: "M_stopping (W_manager w)" "\<not> W_serving w" using assms(2) send_kill(2) by (auto simp: accounts_inv_def)
  have sent: "send KillRequest ?w = (send KillRequest w)\<lparr>W_phase := AwaitKill, W_killed := True\<rparr>"
    by (simp add: send_def split: option.splits)
  show ?thesis
  proof (cases "M_returned (W_manager w)")
    case True
    have "map_of (M_conns (W_manager w)) = W_live w" using assms(2) by (simp add: accounts_inv_def)
    with True show ?thesis using assms(2) send_kill(1) st unfolding accounts_inv_def by (simp add: send_def)
  next
    case False
    obtain m where "send KillRequest w = w\<lparr>W_manager := m, W_closing := {c. W_live w c \<noteq> None \<and> (KillRequest = StopRequest \<longrightarrow> W_live w c = Some StateIdle)},
        W_killing := (KillRequest = KillRequest)\<rparr>" "counted m" "map_of (M_conns m) = W_live w" "M_stopping m" "M_returned m \<longleftrightarrow> M_conns m = []"
      by (rule request_does [OF assms(2) _ False, where r = KillRequest]) (use st in auto)
    then show ?thesis using assms(2) send_kill(1) sent st by (simp add: accounts_inv_def)
  qed
next
  case tick
  let ?m = "fst (the (manage Tick (W_manager w)))"
  have "send Tick w = w\<lparr>W_manager := ?m, W_closing := {}, W_killing := False\<rparr>" "counted ?m" "M_conns ?m = M_conns (W_manager w)"
    "M_stopping ?m = M_stopping (W_manager w)" "M_returned ?m = M_returned (W_manager w)"
    using tick(3) assms(2) by (simp_all add: send_def accounts_inv_def)
  then show ?thesis using assms(2) tick(1) unfolding accounts_inv_def by (simp del: manage.simps)
qed (use assms(2) in \<open>auto simp: accounts_inv_def\<close>)

lemma closing_step:
  assumes "http_step w w'" "accounts_inv w" "closing_inv w" "\<not> W_panicked w"
  shows "closing_inv w'"
  using assms(1)
proof cases
  case (announce c)
  obtain m where m: "w' = w\<lparr>W_pending := None, W_live := (W_live w)(c \<mapsto> StateNew), W_manager := m\<rparr>" "\<not> M_stopping m" "\<not> M_stopping (W_manager w)"
    by (rule announce_does [OF assms(2) announce(2,3)]) (use announce(1) in blast)
  then have "W_phase w \<notin> {AwaitStop, SendKill, AwaitKill, StopDone}" using assms(2) by (simp add: accounts_inv_def)
  then show ?thesis using assms(3,4) m by (auto simp: closing_inv_def)
next
  case (move c s t)
  obtain m where m: "w' = w\<lparr>W_live := (W_live w)(c := (if t = StateHijacked \<or> t = StateClosed then None else Some t)), W_manager := m,
      W_closing := (if t = StateIdle \<and> M_stopping (W_manager w) then {c} else {}), W_killing := False\<rparr>"
    "M_stopping m = M_stopping (W_manager w)" "\<not> M_returned (W_manager w)"
    by (rule move_does [OF assms(2) move(2,3)]) (use move(1) in blast)
  have w: "W_closing w = {}" "\<not> W_killing w" using move(4) by (simp_all add: receiving_def)
  have old: "W_phase w = StopDone \<longrightarrow> W_killed w \<and> (W_killDone w \<or> W_gaveUp w)"
    "\<forall>k. W_killed w \<longrightarrow> W_live w k \<noteq> None \<longrightarrow> k \<in> W_sockClosed w"
    "\<forall>k. M_stopping (W_manager w) \<longrightarrow> W_live w k = Some StateIdle \<longrightarrow> k \<in> W_sockClosed w"
    using assms(3) m(3) w by (auto simp: closing_inv_def split: if_splits)
  have new: "\<forall>k. M_stopping m \<longrightarrow> W_live w' k = Some StateIdle \<longrightarrow> k \<in> W_sockClosed w' \<union> W_closing w'"
    "\<forall>k. W_killed w' \<longrightarrow> W_live w' k \<noteq> None \<longrightarrow> k \<in> W_sockClosed w'"
    using old move(2) unfolding m(1,2) by auto
  have rest: "W_killed w \<longrightarrow> W_phase w \<in> {AwaitKill, StopDone}" "W_phase w = AwaitKill \<longrightarrow> W_killed w" "W_killDone w \<longrightarrow> W_killed w"
    "W_gaveUp w \<longrightarrow> W_killed w \<and> W_phase w = StopDone" using assms(3) by (auto simp: closing_inv_def)
  show ?thesis unfolding closing_inv_def using new rest old(1) assms(4) unfolding m(1) by simp
next
  case send_stop
  have nr: "\<not> M_returned (W_manager w)" using assms(2) send_stop(2) by (simp add: accounts_inv_def)
  obtain m where "send StopRequest w = w\<lparr>W_manager := m, W_closing := {c. W_live w c \<noteq> None \<and> (StopRequest = StopRequest \<longrightarrow> W_live w c = Some StateIdle)},
      W_killing := (StopRequest = KillRequest)\<rparr>"
    by (rule request_does [OF assms(2) _ nr, where r = StopRequest]) auto
  moreover have "send StopRequest (w\<lparr>W_phase := AwaitStop\<rparr>) = (send StopRequest w)\<lparr>W_phase := AwaitStop\<rparr>"
    by (simp add: send_def split: option.splits)
  ultimately show ?thesis using assms(3,4) send_stop(1,2) by (auto simp: closing_inv_def)
next
  case send_kill
  have st: "M_stopping (W_manager w)" using assms(2) send_kill(2) by (auto simp: accounts_inv_def)
  have sent: "send KillRequest (w\<lparr>W_phase := AwaitKill, W_killed := True\<rparr>) = (send KillRequest w)\<lparr>W_phase := AwaitKill, W_killed := True\<rparr>"
    by (simp add: send_def split: option.splits)
  have fresh: "\<not> W_killed w" "\<not> W_killDone w" "\<not> W_gaveUp w" using assms(3) send_kill(2) by (auto simp: closing_inv_def)
  show ?thesis
  proof (cases "M_returned (W_manager w)")
    case True
    then have "W_live w = (\<lambda>_. None)" using assms(2) by (auto simp: accounts_inv_def)
    with True show ?thesis using send_kill fresh by (simp add: closing_inv_def send_def receiving_def)
  next
    case False
    obtain m where "send KillRequest w = w\<lparr>W_manager := m, W_closing := {c. W_live w c \<noteq> None \<and> (KillRequest = StopRequest \<longrightarrow> W_live w c = Some StateIdle)},
        W_killing := (KillRequest = KillRequest)\<rparr>"
      by (rule request_does [OF assms(2) _ False, where r = KillRequest]) (use st in auto)
    then show ?thesis using send_kill(1) sent fresh assms(4) by (auto simp: closing_inv_def)
  qed
next
  case tick
  let ?m = "fst (the (manage Tick (W_manager w)))"
  have "send Tick w = w\<lparr>W_manager := ?m, W_closing := {}, W_killing := False\<rparr>" 
    "M_stopping ?m = M_stopping (W_manager w)" "M_returned ?m = M_returned (W_manager w)"
    using tick(3) by (simp_all add: send_def)
  then show ?thesis using assms(3) tick(1,4) unfolding closing_inv_def receiving_def by (simp del: manage.simps)
qed (use assms(3,4) in \<open>auto simp: closing_inv_def split: if_splits\<close>)

lemma http_run_inv: "http_run st w \<Longrightarrow> accounts_inv w \<and> closing_inv w"
proof (induction rule: http_run.induct)
  case start
  show ?case by (auto simp: accounts_inv_def closing_inv_def Serve_def start_manager_def counted_def)
qed (use accounts_step closing_step in blast)

section \<open>What is promised, and what happens\<close>

text \<open>
  C33. In every run of the server, whatever the order in which its connections report, in which the timeouts end and however long
  the closing of a connection takes, manage knows exactly the connections that are not over and counts them by state. While
  Stop waits, it is told that all are gone as soon as they are, and every idle one is closed or being closed. When Stop has ended,
  nothing is accepted any more; when it ended within its stop timeout no connection is left; when manage answered its kill
  every connection left has been closed by force; and when the kill timeout was over first, nothing is promised of the
  connections that are left (see kill_timeout_gives_up). And no report of a connection panics: a panic is one of Stop, with no connection left.
\<close>

theorem stop_waits_for_connections:
  assumes "http_run st w"
  shows "map_of (M_conns (W_manager w)) = W_live w \<and>
    M_countNew (W_manager w) = int (card {c. W_live w c = Some StateNew}) \<and>
    M_countActive (W_manager w) = int (card {c. W_live w c = Some StateActive}) \<and>
    M_countIdle (W_manager w) = int (card {c. W_live w c = Some StateIdle}) \<and>
    (W_phase w = AwaitStop \<longrightarrow> (M_returned (W_manager w) \<longleftrightarrow> W_live w = (\<lambda>_. None))) \<and>
    (W_phase w = AwaitStop \<longrightarrow> (\<forall>c. W_live w c = Some StateIdle \<longrightarrow> c \<in> W_sockClosed w \<union> W_closing w)) \<and>
    (W_phase w = StopDone \<longrightarrow> \<not> W_serving w \<and> W_pending w = None \<and>
       (\<not> W_killed w \<longrightarrow> W_live w = (\<lambda>_. None)) \<and>
       (W_killed w \<and> \<not> W_gaveUp w \<longrightarrow> (\<forall>c. W_live w c \<noteq> None \<longrightarrow> c \<in> W_sockClosed w))) \<and>
    (W_panicked w \<longrightarrow> W_phase w = AwaitKill \<and> W_live w = (\<lambda>_. None))"
proof -
  let ?m = "W_manager w"
  have inv: "accounts_inv w" "closing_inv w" using http_run_inv [OF assms] by simp_all
  then have m: "counted ?m" "map_of (M_conns ?m) = W_live w" "M_returned ?m \<longleftrightarrow> M_stopping ?m \<and> M_conns ?m = []"
    by (simp_all add: accounts_inv_def)
  have none: "W_live w = (\<lambda>_. None) \<longleftrightarrow> M_conns ?m = []" unfolding m(2) [symmetric] by (rule map_of_empty_iff)
  have "M_countNew ?m = int (card {c. W_live w c = Some StateNew})" "M_countActive ?m = int (card {c. W_live w c = Some StateActive})"
    "M_countIdle ?m = int (card {c. W_live w c = Some StateIdle})"
    using m(1) unfolding m(2) [symmetric] by (simp_all add: counted_def tally_card)
  moreover have "W_phase w = AwaitStop \<longrightarrow> M_stopping ?m"
    "W_phase w = StopDone \<longrightarrow> \<not> W_serving w \<and> W_pending w = None"
    using inv(1) by (auto simp: accounts_inv_def)
  moreover have "W_phase w = StopDone \<longrightarrow> \<not> W_killed w \<longrightarrow> M_conns ?m = []"
    "W_phase w = StopDone \<longrightarrow> W_killed w \<and> \<not> W_gaveUp w \<longrightarrow> (\<forall>c. W_live w c \<noteq> None \<longrightarrow> c \<in> W_sockClosed w)"
    "W_panicked w \<longrightarrow> W_phase w = AwaitKill \<and> M_conns ?m = []"
    "\<forall>c. M_stopping ?m \<longrightarrow> W_live w c = Some StateIdle \<longrightarrow> c \<in> W_sockClosed w \<union> W_closing w"
    using inv(2) m(3) unfolding closing_inv_def by auto
  ultimately show ?thesis using m(2,3) none by simp
qed

text \<open>A run with one connection up to the point where Stop waits for it; \<open>s\<close> is what was reported of it last.\<close>

definition waiting :: "bool \<Rightarrow> conn_state \<Rightarrow> http_sys" where
  "waiting st s = send StopRequest ((if s = StateNew then connState 0 StateNew ((Serve st)\<lparr>W_used := {0}\<rparr>)
     else connState 0 StateIdle (connState 0 StateActive (connState 0 StateNew ((Serve st)\<lparr>W_used := {0}\<rparr>))))
     \<lparr>W_listening := False, W_serving := False, W_phase := AwaitStop\<rparr>)"

lemma serving_one:
  "http_run st (connState 0 StateNew ((Serve st)\<lparr>W_used := {0}\<rparr>))"
  "http_run st (connState 0 StateIdle (connState 0 StateActive (connState 0 StateNew ((Serve st)\<lparr>W_used := {0}\<rparr>))))"
proof -
  let ?w1 = "connState 0 StateNew ((Serve st)\<lparr>W_used := {0}\<rparr>)"
  have "http_run st ((Serve st)\<lparr>W_used := {0}, W_pending := Some 0\<rparr>)"
    using http_run.step [OF http_run.start _ http_step.accept, of st 0] by (simp add: Serve_def)
  from http_run.step [OF this _ http_step.announce, of 0]
  show 1: "http_run st ?w1" by (simp add: Serve_def receiving_def)
  have at: "W_live ?w1 0 = Some StateNew" "receiving ?w1" "\<not> W_panicked ?w1"
    by (simp_all add: connState_def report_of_def send_def Serve_def start_manager_def receiving_def)
  then have 2: "http_run st (connState 0 StateActive ?w1)"
    by (intro http_run.step [OF 1 _ http_step.move [of _ 0 StateNew]]) simp_all
  have "W_live (connState 0 StateActive ?w1) 0 = Some StateActive" "receiving (connState 0 StateActive ?w1)"
    "\<not> W_panicked (connState 0 StateActive ?w1)"
    by (simp_all add: connState_def report_of_def send_def Serve_def start_manager_def receiving_def decConn_def)
  then show "http_run st (connState 0 StateIdle (connState 0 StateActive ?w1))"
    by (intro http_run.step [OF 2 _ http_step.move [of _ 0 StateActive]]) simp_all
qed

lemma run_to_stop:
  assumes "http_run st w" "W_phase w = NotStopping" "W_serving w" "W_pending w = None" "receiving w" "\<not> W_panicked w"
  shows "http_run st (send StopRequest (w\<lparr>W_listening := False, W_serving := False, W_phase := AwaitStop\<rparr>))"
proof -
  have 2: "http_run st (w\<lparr>W_phase := ClosingListener\<rparr>)" by (rule http_run.step [OF assms(1,6)]) (simp add: http_step.stop assms(2))
  have 3: "http_run st (w\<lparr>W_phase := AwaitServe, W_listening := False\<rparr>)"
    using http_run.step [OF 2 _ http_step.close_listener] assms(6) by simp
  have 4: "http_run st (w\<lparr>W_phase := AwaitServe, W_listening := False, W_serving := False\<rparr>)"
    using http_run.step [OF 3 _ http_step.serve_ends] assms by simp
  have 5: "http_run st (w\<lparr>W_listening := False, W_serving := False, W_phase := SendStop\<rparr>)"
    using http_run.step [OF 4 _ http_step.serve_done] assms(6) by simp
  show ?thesis using http_run.step [OF 5 _ http_step.send_stop] assms(5,6) by (simp add: receiving_def)
qed

lemma waiting_run: "s = StateNew \<or> s = StateIdle \<Longrightarrow> http_run st (waiting st s)"
  unfolding waiting_def using serving_one [of st]
  by (auto intro!: run_to_stop) (simp_all add: connState_def report_of_def send_def Serve_def start_manager_def receiving_def decConn_def)

lemma waiting_fields [simp]:
  assumes "s = StateNew \<or> s = StateIdle"
  shows "W_phase (waiting st s) = AwaitStop" "W_live (waiting st s) = [0 \<mapsto> s]" "W_used (waiting st s) = {0}"
    "W_closing (waiting st s) = (if s = StateIdle then {0} else {})" "\<not> W_killing (waiting st s)" "W_sockClosed (waiting st s) = {}"
    "\<not> W_panicked (waiting st s)" "\<not> W_serving (waiting st s)" "\<not> M_returned (W_manager (waiting st s))" "\<not> W_gaveUp (waiting st s)"
    "W_pending (waiting st s) = None"
  using assms
  by (auto simp: waiting_def connState_def report_of_def send_def Serve_def start_manager_def decConn_def Let_def fun_eq_iff)

text \<open>
  The kill timeout makes Stop give up: it returns while a connection is neither over nor closed, because manage has not got to
  its Close or is still in it.
\<close>

lemma kill_timeout_gives_up:
  "\<exists>w. http_run st w \<and> W_phase w = StopDone \<and> W_gaveUp w \<and> W_live w = [0 \<mapsto> StateNew] \<and> W_sockClosed w = {}"
proof -
  let ?w = "waiting st StateNew"
  have 1: "http_run st (?w\<lparr>W_phase := SendKill\<rparr>)"
    by (rule http_run.step [OF waiting_run [of StateNew]]) (simp_all add: http_step.stop_timeout)
  let ?k = "send KillRequest (?w\<lparr>W_phase := AwaitKill, W_killed := True\<rparr>)"
  have 2: "http_run st ?k" using http_run.step [OF 1 _ http_step.send_kill] by (simp add: receiving_def)
  have k: "W_phase ?k = AwaitKill" "\<not> W_panicked ?k" "W_live ?k = [0 \<mapsto> StateNew]" "W_sockClosed ?k = {}"
    by (simp_all add: send_def)
  from http_run.step [OF 2 k(2) http_step.kill_timeout [OF k(1)]] k show ?thesis
    by (intro exI [of _ "?k\<lparr>W_phase := StopDone, W_gaveUp := True\<rparr>"]) simp
qed

lemma nothing_but_close:
  assumes "http_step w w'" "W_phase w = SendKill" "W_closing w = {c}" "\<not> W_serving w" "W_pending w = None"
  shows "w' = w\<lparr>W_closing := {}, W_sockClosed := insert c (W_sockClosed w)\<rparr>"
  using assms(1) by cases (use assms(2-) in \<open>simp_all add: receiving_def\<close>)

text \<open>
  The two timeouts do not bound Stop. While manage closes an idle connection it receives nothing, so when the stop timeout is over
  Stop cannot ask for the kill, and its kill timeout has not begun: in such a state nothing at all can happen in the server until
  that one Close ends.
\<close>

lemma stop_hangs_on_a_close:
  "\<exists>w. http_run st w \<and> W_phase w = SendKill \<and> W_live w = [0 \<mapsto> StateIdle] \<and> W_closing w = {0} \<and>
     (\<forall>w'. http_step w w' \<longleftrightarrow> w' = w\<lparr>W_closing := {}, W_sockClosed := {0}\<rparr>)"
proof -
  let ?w = "(waiting st StateIdle)\<lparr>W_phase := SendKill\<rparr>"
  have run: "http_run st ?w"
    by (rule http_run.step [OF waiting_run [of StateIdle]]) (simp_all add: http_step.stop_timeout)
  have only: "w' = ?w\<lparr>W_closing := {}, W_sockClosed := {0}\<rparr>" if "http_step ?w w'" for w'
    using nothing_but_close [OF that, of 0] by simp
  have "http_step ?w (?w\<lparr>W_closing := {}, W_sockClosed := {0}\<rparr>)"
    using http_step.close_one [of 0 ?w] by simp
  then have "\<forall>w'. http_step ?w w' \<longleftrightarrow> w' = ?w\<lparr>W_closing := {}, W_sockClosed := {0}\<rparr>" using only by blast
  moreover have "W_phase ?w = SendKill \<and> W_live ?w = [0 \<mapsto> StateIdle] \<and> W_closing ?w = {0}" by simp
  ultimately show ?thesis using run by blast
qed

lemma send_returned: "M_returned (W_manager w) \<Longrightarrow> send r w = w\<lparr>W_panicked := True\<rparr>"
  by (simp add: send_def)

text \<open>
  Stop can panic: when its timeout ends while the last connection is being closed, manage has
  closed the channel on which Stop then asks it to kill the connections.
\<close>

lemma stop_can_panic:
  "\<exists>w. http_run st w \<and> W_panicked w \<and> W_phase w = AwaitKill \<and> W_used w = {0} \<and> W_live w = (\<lambda>_. None)"
proof -
  let ?w = "waiting st StateNew"
  have 1: "http_run st (?w\<lparr>W_phase := SendKill\<rparr>)"
    by (rule http_run.step [OF waiting_run [of StateNew]]) (simp_all add: http_step.stop_timeout)
  let ?c = "connState 0 StateClosed (?w\<lparr>W_phase := SendKill\<rparr>)"
  have 2: "http_run st ?c"
    using http_run.step [OF 1 _ http_step.move [of _ 0 StateNew StateClosed]] by (simp add: receiving_def)
  have c: "W_panicked ?c = False" "W_phase ?c = SendKill" "M_returned (W_manager ?c)" "W_used ?c = {0}" "W_live ?c = (\<lambda>_. None)" "receiving ?c"
    by (simp_all add: waiting_def connState_def report_of_def send_def Serve_def start_manager_def decConn_def bump_def Let_def fun_eq_iff receiving_def)
  have 3: "http_run st (send KillRequest (?c\<lparr>W_phase := AwaitKill, W_killed := True\<rparr>))"
    using http_run.step [OF 2 _ http_step.send_kill] c by simp
  have "send KillRequest (?c\<lparr>W_phase := AwaitKill, W_killed := True\<rparr>) = ?c\<lparr>W_phase := AwaitKill, W_killed := True, W_panicked := True\<rparr>"
    by (rule trans [OF send_returned]) (simp_all add: c)
  with 3 c show ?thesis
    by (intro exI [of _ "?c\<lparr>W_phase := AwaitKill, W_killed := True, W_panicked := True\<rparr>"]) simp
qed

theorem stop_waits_for_connections_witness:
  "map_of (M_conns (W_manager (waiting True StateIdle))) = [0 \<mapsto> StateIdle] \<and> M_countIdle (W_manager (waiting True StateIdle)) = 1 \<and>
   M_countActive (W_manager (waiting True StateIdle)) = 0"
proof -
  let ?w = "waiting True StateIdle"
  note all = stop_waits_for_connections [OF waiting_run [of StateIdle True, OF disjI2 [OF refl]]]
  have live: "W_live ?w = [0 \<mapsto> StateIdle]" by simp
  have sets: "{c. W_live ?w c = Some StateIdle} = {0}" "{c. W_live ?w c = Some StateActive} = {}" unfolding live by auto
  show ?thesis
    using all [THEN conjunct1] all [THEN conjunct2, THEN conjunct2, THEN conjunct1]
      all [THEN conjunct2, THEN conjunct2, THEN conjunct2, THEN conjunct1]
    unfolding sets live by simp
qed

end
