(* ===== verification/GraceNet.thy ===== *)
theory GraceNet
  imports HttpDown GoLib
begin

text \<open>
  Graceful restarts of the HTTP server (facebookgo/grace): the listeners that a process hands to the
  one that takes over (gracenet/net.go), and serving until a signal ends it (gracehttp/http.go). The
  sockets, the environment and the starting of a process are parameters. A failed type assertion is
  \<open>None\<close>.
\<close>

section \<open>Listeners\<close>

datatype socket_kind = TCP | Unix

record listener =
  I_socket :: nat                    \<comment> \<open>which socket it is\<close>
  I_kind :: socket_kind
  I_network :: string
  I_addr :: string

record Net =
  T_inherited :: "listener option list"
  T_active :: "listener list"
  T_once :: bool                     \<comment> \<open>inherit has run\<close>
  T_fdStart :: nat

definition fresh_Net :: Net where
  "fresh_Net = \<lparr>T_inherited = [], T_active = [], T_once = False, T_fdStart = 0\<rparr>"

datatype grace_error =
    InvalidCount string | InheritError nat net_error | CloseError nat net_error
  | UnknownNetwork string | ResolveError net_error | ListenError net_error | ProcessError net_error

record grace_world =
  E_listen_fds :: string                                          \<comment> \<open>the variable LISTEN_FDS\<close>
  E_FileListener :: "nat \<Rightarrow> net_error + listener"
  E_close_fd :: "nat \<Rightarrow> net_error option"
  E_resolve :: "socket_kind \<Rightarrow> string \<Rightarrow> string \<Rightarrow> net_error + string \<times> string"
  E_listen :: "socket_kind \<Rightarrow> string \<times> string \<Rightarrow> net_error + listener"

fun inherit_fds :: "grace_world \<Rightarrow> nat \<Rightarrow> nat \<Rightarrow> Net \<Rightarrow> grace_error option \<times> Net" where
  "inherit_fds E i 0 n = (None, n)"
| "inherit_fds E i (Suc k) n =
     (case E_FileListener E i of
        Inl e \<Rightarrow> (Some (InheritError i e), n)
      | Inr l \<Rightarrow>
          (case E_close_fd E i of
             Some e \<Rightarrow> (Some (CloseError i e), n)
           | None \<Rightarrow> inherit_fds E (i + 1) k (n\<lparr>T_inherited := T_inherited n @ [Some l]\<rparr>)))"

text \<open>Once per process: a later call is told of no error.\<close>

definition inherit :: "grace_world \<Rightarrow> Net \<Rightarrow> grace_error option \<times> Net" where
  "inherit E n =
     (if T_once n then (None, n)
      else
        let n = n\<lparr>T_once := True\<rparr>
        in if E_listen_fds E = [] then (None, n)
           else case parse_int64 (E_listen_fds E) of
             None \<Rightarrow> (Some (InvalidCount (E_listen_fds E)), n)
           | Some count \<Rightarrow> inherit_fds E (if T_fdStart n = 0 then 3 else T_fdStart n) (nat count) n)"

definition trim_prefix :: "string \<Rightarrow> string \<Rightarrow> string" where
  "trim_prefix s p = (if take (length p) s = p then drop (length p) s else s)"

definition isSameAddr :: "string \<times> string \<Rightarrow> string \<times> string \<Rightarrow> bool" where
  "isSameAddr a1 a2 \<longleftrightarrow>
     fst a1 = fst a2 \<and>
     (snd a1 = snd a2 \<or>
      trim_prefix (trim_prefix (snd a1) ''[::]'') ''0.0.0.0'' = trim_prefix (trim_prefix (snd a2) ''[::]'') ''0.0.0.0'')"

text \<open>The first inherited listener of an address.\<close>

fun find_inherited :: "string \<times> string \<Rightarrow> listener option list \<Rightarrow> (listener \<times> listener option list) option" where
  "find_inherited a [] = None"
| "find_inherited a (None # ls) = map_option (\<lambda>(l, ls). (l, None # ls)) (find_inherited a ls)"
| "find_inherited a (Some l # ls) =
     (if isSameAddr (I_network l, I_addr l) a then Some (l, None # ls)
      else map_option (\<lambda>(l', ls). (l', Some l # ls)) (find_inherited a ls))"

definition listen_kind :: "socket_kind \<Rightarrow> grace_world \<Rightarrow> string \<times> string \<Rightarrow> Net \<Rightarrow> ((grace_error + listener) \<times> Net) option" where
  "listen_kind kind E a n =
     (case inherit E n of
        (Some e, n) \<Rightarrow> Some (Inl e, n)
      | (None, n) \<Rightarrow>
          (case find_inherited a (T_inherited n) of
             Some (l, ls) \<Rightarrow>
               if I_kind l = kind then Some (Inr l, n\<lparr>T_inherited := ls, T_active := T_active n @ [l]\<rparr>) else None
           | None \<Rightarrow>
               Some (case E_listen E kind a of
                   Inl e \<Rightarrow> (Inl (ListenError e), n)
                 | Inr l \<Rightarrow> (Inr l, n\<lparr>T_active := T_active n @ [l]\<rparr>))))"

definition ListenTCP :: "grace_world \<Rightarrow> string \<times> string \<Rightarrow> Net \<Rightarrow> ((grace_error + listener) \<times> Net) option" where
  "ListenTCP = listen_kind TCP"

definition ListenUnix :: "grace_world \<Rightarrow> string \<times> string \<Rightarrow> Net \<Rightarrow> ((grace_error + listener) \<times> Net) option" where
  "ListenUnix = listen_kind Unix"

definition Listen :: "grace_world \<Rightarrow> string \<Rightarrow> string \<Rightarrow> Net \<Rightarrow> ((grace_error + listener) \<times> Net) option" where
  "Listen E nett laddr n =
     (let go = (\<lambda>kind. case E_resolve E kind nett laddr of Inl e \<Rightarrow> Some (Inl (ResolveError e), n) | Inr a \<Rightarrow> listen_kind kind E a n)
      in if nett \<in> {''tcp'', ''tcp4'', ''tcp6''} then go TCP
         else if nett \<in> {''unix'', ''unixpacket'', ''invalid_unix_net_for_test''} then go Unix
         else Some (Inl (UnknownNetwork nett), n))"

section \<open>Starting the next process\<close>

definition envCountKey :: string where "envCountKey = ''LISTEN_FDS''"
definition envCountKeyPrefix :: string where "envCountKeyPrefix = envCountKey @ ''=''"

record process =
  B_path :: string
  B_env :: "string list"
  B_files :: "nat list"              \<comment> \<open>the sockets behind the files from 3 on\<close>

definition child_env :: "string list \<Rightarrow> nat \<Rightarrow> string list" where
  "child_env environ k =
     List.filter (\<lambda>v. take (length envCountKeyPrefix) v \<noteq> envCountKeyPrefix) environ @ [envCountKeyPrefix @ show_nat k]"

fun files_of :: "(listener \<Rightarrow> net_error option) \<Rightarrow> listener list \<Rightarrow> net_error + nat list" where
  "files_of file [] = Inr []"
| "files_of file (l # ls) =
     (case file l of
        Some e \<Rightarrow> Inl e
      | None \<Rightarrow> (case files_of file ls of Inl e \<Rightarrow> Inl e | Inr fs \<Rightarrow> Inr (I_socket l # fs)))"

definition StartProcess ::
    "(listener \<Rightarrow> net_error option) \<Rightarrow> (string \<Rightarrow> net_error + string) \<Rightarrow> (process \<Rightarrow> net_error option) \<Rightarrow> string list \<Rightarrow> string \<Rightarrow> Net \<Rightarrow>
     grace_error + process" where
  "StartProcess file look_path start environ arg0 n =
     (case files_of file (T_active n) of
        Inl e \<Rightarrow> Inl (ProcessError e)
      | Inr fs \<Rightarrow>
          (case look_path arg0 of
             Inl e \<Rightarrow> Inl (ProcessError e)
           | Inr argv0 \<Rightarrow>
               let p = \<lparr>B_path = argv0, B_env = child_env environ (length (T_active n)), B_files = fs\<rparr>
               in case start p of Some e \<Rightarrow> Inl (ProcessError e) | None \<Rightarrow> Inr p))"

section \<open>Handing over\<close>

definition getenv :: "string list \<Rightarrow> string \<Rightarrow> string" where
  "getenv environ key =
     (case List.filter (\<lambda>v. take (length key + 1) v = key @ ''='') environ of v # _ \<Rightarrow> drop (length key + 1) v | [] \<Rightarrow> [])"

lemma getenv_child: "getenv (child_env environ k) envCountKey = show_nat k"
proof -
  have "length envCountKey + 1 = length envCountKeyPrefix" "envCountKey @ ''='' = envCountKeyPrefix"
    by (simp_all add: envCountKeyPrefix_def)
  then show ?thesis unfolding getenv_def child_env_def by (simp add: filter_empty_conv)
qed

lemma isSameAddr_iff:
  "isSameAddr a b \<longleftrightarrow> fst a = fst b \<and>
     trim_prefix (trim_prefix (snd a) ''[::]'') ''0.0.0.0'' = trim_prefix (trim_prefix (snd b) ''[::]'') ''0.0.0.0''"
  by (auto simp: isSameAddr_def)

abbreviation addr :: "listener \<Rightarrow> string \<times> string" where
  "addr l \<equiv> (I_network l, I_addr l)"

lemma find_inherited_at:
  assumes "i < length ls" "ls ! i = Some l" "isSameAddr (addr l) a"
    "\<And>j l'. j < i \<Longrightarrow> ls ! j = Some l' \<Longrightarrow> \<not> isSameAddr (addr l') a"
  shows "find_inherited a ls = Some (l, ls[i := None])"
  using assms
proof (induction ls arbitrary: i)
  case (Cons x ls)
  show ?case
  proof (cases i)
    case 0
    with Cons.prems show ?thesis by simp
  next
    case (Suc k)
    have "find_inherited a ls = Some (l, ls[k := None])"
      by (rule Cons.IH) (use Cons.prems(1-3) Cons.prems(4) [of "Suc _"] Suc in auto)
    with Suc Cons.prems(4) [of 0] show ?thesis by (cases x) auto
  qed
qed simp

lemma inherit_fds_all:
  assumes "\<And>j. j < length ls \<Longrightarrow> E_FileListener E (i + j) = Inr (ls ! j)" "\<And>j. E_close_fd E j = None"
  shows "inherit_fds E i (length ls) n = (None, n\<lparr>T_inherited := T_inherited n @ List.map Some ls\<rparr>)"
  using assms(1)
proof (induction ls arbitrary: i n)
  case (Cons l ls)
  have "E_FileListener E i = Inr l" using Cons.prems [of 0] by simp
  moreover have "E_FileListener E (Suc i + j) = Inr (ls ! j)" if "j < length ls" for j using Cons.prems [of "Suc j"] that by simp
  ultimately show ?case using Cons.IH [of "Suc i"] assms(2) by simp
qed simp

fun listen_all :: "grace_world \<Rightarrow> (socket_kind \<times> string \<times> string) list \<Rightarrow> Net \<Rightarrow> ((grace_error + listener list) \<times> Net) option" where
  "listen_all E [] n = Some (Inr [], n)"
| "listen_all E ((kind, a) # as) n = do {
     (r, n) \<leftarrow> listen_kind kind E a n;
     (case r of
        Inl e \<Rightarrow> Some (Inl e, n)
      | Inr l \<Rightarrow> do { (r, n) \<leftarrow> listen_all E as n; Some (map_sum id (\<lambda>ls. l # ls) r, n) })
   }"

definition remaining :: "listener list \<Rightarrow> nat set \<Rightarrow> listener option list" where
  "remaining ls used = List.map (\<lambda>i. if i \<in> used then None else Some (ls ! i)) [0..<length ls]"

lemma listen_remaining:
  assumes "T_once n" "T_inherited n = remaining ls used" "\<forall>i < length ls. \<forall>j < length ls. isSameAddr (addr (ls ! i)) (addr (ls ! j)) \<longrightarrow> i = j"
    "set is \<subseteq> {..<length ls} - used" "distinct is"
  shows "\<exists>n'. listen_all E (List.map (\<lambda>i. (I_kind (ls ! i), addr (ls ! i))) is) n = Some (Inr (List.map ((!) ls) is), n') \<and>
    T_active n' = T_active n @ List.map ((!) ls) is"
  using assms(1,2,4,5)
proof (induction "is" arbitrary: n used)
  case (Cons i "is")
  have i: "i < length ls" "i \<notin> used" using Cons.prems(3) by auto
  have f: "find_inherited (addr (ls ! i)) (remaining ls used) = Some (ls ! i, (remaining ls used)[i := None])"
  proof (rule find_inherited_at)
    fix j l' assume j: "j < i" "remaining ls used ! j = Some l'"
    then have "l' = ls ! j" using i by (simp add: remaining_def split: if_splits)
    with j(1) i assms(3) show "\<not> isSameAddr (addr l') (addr (ls ! i))" by (metis less_trans nat_neq_iff)
  qed (use i in \<open>simp_all add: remaining_def isSameAddr_def\<close>)
  have u: "(remaining ls used)[i := None] = remaining ls (insert i used)"
    using i by (auto simp: remaining_def nth_list_update intro!: nth_equalityI)
  let ?n = "n\<lparr>T_inherited := remaining ls (insert i used), T_active := T_active n @ [ls ! i]\<rparr>"
  have "listen_kind (I_kind (ls ! i)) E (addr (ls ! i)) n = Some (Inr (ls ! i), ?n)"
    using Cons.prems(1,2) f u by (simp add: listen_kind_def inherit_def)
  moreover obtain n' where "listen_all E (List.map (\<lambda>i. (I_kind (ls ! i), addr (ls ! i))) is) ?n = Some (Inr (List.map ((!) ls) is), n')"
    "T_active n' = T_active ?n @ List.map ((!) ls) is"
    using Cons.IH [of ?n "insert i used"] Cons.prems by auto
  ultimately show ?case by simp
qed simp

text \<open>
  C34. A restart hands every listener over. When a process with the listeners ls starts the next one, and
  that one finds the sockets behind its files from 3 on, it gets, listening at the addresses of any of
  them in any order, exactly these listeners, and opens no socket of its own.
\<close>

theorem listeners_handed_over:
  assumes start: "StartProcess file look_path start environ arg0 n = Inr p" "T_active n = ls" "length ls < 2 ^ 63"
    and child: "E_listen_fds E = getenv (B_env p) envCountKey" "\<And>j. j < length ls \<Longrightarrow> E_FileListener E (3 + j) = Inr (ls ! j)"
      "\<And>j. E_close_fd E j = None"
    and addrs: "\<forall>i < length ls. \<forall>j < length ls. isSameAddr (addr (ls ! i)) (addr (ls ! j)) \<longrightarrow> i = j"
    and "is": "set is \<subseteq> {..<length ls}" "distinct is" "is \<noteq> []"
  shows "B_files p = List.map I_socket ls \<and>
    (\<exists>n'. listen_all E (List.map (\<lambda>i. (I_kind (ls ! i), addr (ls ! i))) is) fresh_Net = Some (Inr (List.map ((!) ls) is), n') \<and>
       T_active n' = List.map ((!) ls) is)"
proof -
  have files: "files_of file ls = Inr fs \<Longrightarrow> fs = List.map I_socket ls" for fs
    by (induction ls arbitrary: fs) (auto split: option.splits sum.splits)
  have p: "B_env p = child_env environ (length ls)" "B_files p = List.map I_socket ls"
    using start(1,2) files by (auto simp: StartProcess_def Let_def split: sum.splits option.splits)
  have fds: "E_listen_fds E = show_nat (length ls)" using child(1) p(1) getenv_child by simp
  have count: "parse_int64 (show_nat (length ls)) = Some (int (length ls))" "show_nat (length ls) \<noteq> []"
    using parse_int64_show_int [of "int (length ls)"] start(3)
    by (simp_all add: show_int_def int64_min_def int64_max_def)
  let ?n = "fresh_Net\<lparr>T_once := True, T_inherited := List.map Some ls\<rparr>"
  have inh: "inherit E fresh_Net = (None, ?n)"
    using inherit_fds_all [of ls E 3 "fresh_Net\<lparr>T_once := True\<rparr>"] child(2,3) count
    by (simp add: inherit_def fresh_Net_def fds)
  have rest: "remaining ls {} = List.map Some ls" by (auto simp: remaining_def intro!: nth_equalityI)
  have same: "listen_kind k E a fresh_Net = listen_kind k E a ?n" for k a
    unfolding listen_kind_def inh by (simp add: inherit_def)
  obtain i "is'" where "is": "is = i # is'" using \<open>is \<noteq> []\<close> by (cases "is") auto
  have "listen_all E as fresh_Net = listen_all E as ?n" if "as \<noteq> []" for as
    using that same by (cases as) auto
  moreover obtain n' where "listen_all E (List.map (\<lambda>i. (I_kind (ls ! i), addr (ls ! i))) is) ?n = Some (Inr (List.map ((!) ls) is), n')"
    "T_active n' = List.map ((!) ls) is"
    using listen_remaining [of ?n ls "{}" "is" E] addrs assms(8,9) rest by (auto simp: fresh_Net_def)
  ultimately show ?thesis using p(2) \<open>is \<noteq> []\<close> by simp
qed

section \<open>Serving until a signal\<close>

text \<open>
  gracehttp/http.go: the servers of an application are known by their number. The goroutine that
  waits for a server, the one that stops it and the handler of signals report on the channel of
  errors, which has room for all of them but for those of SIGUSR2, and count down the wait group.
\<close>

datatype app_phase = Running | Returned "net_error option"

record app =
  J_count :: nat                          \<comment> \<open>len(a.sds)\<close>
  J_waiting :: "nat set"                  \<comment> \<open>servers whose Wait has not returned\<close>
  J_stopping :: "nat set"                 \<comment> \<open>servers whose Stop has been called and has not returned\<close>
  J_handler :: bool                       \<comment> \<open>the signal handler runs\<close>
  J_wg :: int
  J_errors :: "net_error list"
  J_phase :: app_phase

definition newApp :: "nat \<Rightarrow> app" where
  "newApp k = \<lparr>J_count = k, J_waiting = {..<k}, J_stopping = {}, J_handler = True, J_wg = 2 * int k, J_errors = [],
     J_phase = Running\<rparr>"

definition errors_room :: "app \<Rightarrow> nat" where
  "errors_room a = 1 + 2 * J_count a"

definition report_error :: "net_error option \<Rightarrow> app \<Rightarrow> app" where
  "report_error e a = (case e of None \<Rightarrow> a | Some e \<Rightarrow> a\<lparr>J_errors := J_errors a @ [e]\<rparr>)"

inductive app_step :: "app \<Rightarrow> app \<Rightarrow> bool" where
  wait_returns: "i \<in> J_waiting a \<Longrightarrow> length (J_errors a) < errors_room a \<Longrightarrow>
    app_step a (report_error e (a\<lparr>J_waiting := J_waiting a - {i}, J_wg := J_wg a - 1\<rparr>))"
| sigterm: "J_handler a \<Longrightarrow> app_step a (a\<lparr>J_handler := False, J_stopping := {..<J_count a}\<rparr>)"
| sigusr2: "J_handler a \<Longrightarrow> length (J_errors a) < errors_room a \<Longrightarrow> app_step a (report_error e a)"
| stop_returns: "i \<in> J_stopping a \<Longrightarrow> length (J_errors a) < errors_room a \<Longrightarrow>
    app_step a (report_error e (a\<lparr>J_stopping := J_stopping a - {i}, J_wg := J_wg a - 1\<rparr>))"
| error: "J_phase a = Running \<Longrightarrow> J_errors a = e # es \<Longrightarrow> app_step a (a\<lparr>J_errors := es, J_phase := Returned (Some e)\<rparr>)"
| waitdone: "J_phase a = Running \<Longrightarrow> J_wg a = 0 \<Longrightarrow> app_step a (a\<lparr>J_phase := Returned None\<rparr>)"

inductive app_run :: "nat \<Rightarrow> app \<Rightarrow> bool" for k where
  start: "app_run k (newApp k)"
| step: "app_run k a \<Longrightarrow> app_step a a' \<Longrightarrow> app_run k a'"

definition app_inv :: "nat \<Rightarrow> app \<Rightarrow> bool" where
  "app_inv k a \<longleftrightarrow> J_count a = k \<and> finite (J_waiting a) \<and> finite (J_stopping a) \<and>
     (J_handler a \<longrightarrow> J_stopping a = {}) \<and> J_wg a = int (card (J_waiting a)) + (if J_handler a then int k else int (card (J_stopping a))) \<and>
     (J_phase a = Returned None \<longrightarrow> J_wg a = 0)"

lemma report_error_simps [simp]:
  "J_count (report_error e a) = J_count a" "J_waiting (report_error e a) = J_waiting a" "J_stopping (report_error e a) = J_stopping a"
  "J_handler (report_error e a) = J_handler a" "J_wg (report_error e a) = J_wg a" "J_phase (report_error e a) = J_phase a"
  by (simp_all add: report_error_def split: option.split)

lemma app_run_inv: "app_run k a \<Longrightarrow> app_inv k a"
proof (induction rule: app_run.induct)
  case start
  show ?case by (simp add: app_inv_def newApp_def)
next
  case (step a a')
  from step(2,3) show ?case
  proof cases
    case (wait_returns i e)
    then have "finite (J_waiting a)" "0 < card (J_waiting a)" using step(3) by (auto simp: app_inv_def card_gt_0_iff)
    with wait_returns step(3) show ?thesis by (auto simp: app_inv_def)
  next
    case (stop_returns i e)
    then have "finite (J_stopping a)" "0 < card (J_stopping a)" using step(3) by (auto simp: app_inv_def card_gt_0_iff)
    with stop_returns step(3) show ?thesis by (auto simp: app_inv_def)
  qed (auto simp: app_inv_def)
qed

text \<open>
  Serve returns without an error only when a SIGTERM has come and every server has been stopped and
  its loop has ended.
\<close>

lemma Serve_returns_when_all_stopped:
  assumes "app_run k a" "J_phase a = Returned None" "0 < k"
  shows "\<not> J_handler a \<and> J_waiting a = {} \<and> J_stopping a = {}"
proof -
  have inv: "finite (J_waiting a)" "finite (J_stopping a)"
    "int (card (J_waiting a)) + (if J_handler a then int k else int (card (J_stopping a))) = 0"
    using app_run_inv [OF assms(1)] assms(2) by (auto simp: app_inv_def)
  then have "\<not> J_handler a" using assms(3) by (auto split: if_splits)
  with inv(3) have "int (card (J_waiting a)) + int (card (J_stopping a)) = 0" by simp
  then have "card (J_waiting a) = 0" "card (J_stopping a) = 0" by linarith+
  with \<open>\<not> J_handler a\<close> inv(1,2) show ?thesis by simp
qed

text \<open>The start of Serve: the listeners of all servers, then the parent that handed them over is ended.\<close>

fun listen_servers :: "grace_world \<Rightarrow> string list \<Rightarrow> Net \<Rightarrow> ((grace_error + listener list) \<times> Net) option" where
  "listen_servers E [] n = Some (Inr [], n)"
| "listen_servers E (a # as) n = do {
     (r, n) \<leftarrow> Listen E ''tcp'' a n;
     (case r of
        Inl e \<Rightarrow> Some (Inl e, n)
      | Inr l \<Rightarrow> do { (r, n) \<leftarrow> listen_servers E as n; Some (map_sum id (\<lambda>ls. l # ls) r, n) })
   }"

datatype serve_start = ListenFails grace_error | ParentNotClosed net_error | Serving app

definition start_Serve :: "grace_world \<Rightarrow> int \<Rightarrow> (int \<Rightarrow> net_error option) \<Rightarrow> string list \<Rightarrow> (serve_start \<times> Net) option" where
  "start_Serve E ppid kill addrs =
     map_option (\<lambda>(r, n).
       (case r of
          Inl e \<Rightarrow> ListenFails e
        | Inr ls \<Rightarrow>
            (case (if E_listen_fds E \<noteq> [] \<and> ppid \<noteq> 1 then kill ppid else None) of
               Some e \<Rightarrow> ParentNotClosed e
             | None \<Rightarrow> Serving (newApp (length ls))), n))
     (listen_servers E addrs fresh_Net)"

section \<open>A restart\<close>

definition sample_listeners :: "listener list" where
  "sample_listeners =
     [\<lparr>I_socket = 7, I_kind = TCP, I_network = ''tcp'', I_addr = ''[::]:8080''\<rparr>,
      \<lparr>I_socket = 9, I_kind = TCP, I_network = ''tcp'', I_addr = ''127.0.0.1:8081''\<rparr>]"

definition sample_child :: grace_world where
  "sample_child = \<lparr>E_listen_fds = ''2'', E_FileListener = (\<lambda>fd. Inr (sample_listeners ! (fd - 3))), E_close_fd = (\<lambda>_. None),
     E_resolve = (\<lambda>_ n a. Inr (n, a)), E_listen = (\<lambda>_ _. Inl ClosedConn)\<rparr>"

theorem listeners_handed_over_witness:
  "\<exists>p n'. StartProcess (\<lambda>_. None) Inr (\<lambda>_. None) [''LISTEN_FDS=1'', ''PORT=8080''] ''relax'' (fresh_Net\<lparr>T_active := sample_listeners\<rparr>) = Inr p \<and>
     B_files p = [7, 9] \<and>
     listen_all sample_child [(TCP, ''tcp'', ''127.0.0.1:8081''), (TCP, ''tcp'', ''[::]:8080'')] fresh_Net =
       Some (Inr [sample_listeners ! 1, sample_listeners ! 0], n')"
proof -
  let ?n = "fresh_Net\<lparr>T_active := sample_listeners\<rparr>"
  let ?p = "\<lparr>B_path = ''relax'', B_env = child_env [''LISTEN_FDS=1'', ''PORT=8080''] 2, B_files = [7, 9]\<rparr>"
  have start: "StartProcess (\<lambda>_. None) Inr (\<lambda>_. None) [''LISTEN_FDS=1'', ''PORT=8080''] ''relax'' ?n = Inr ?p"
    by (simp add: StartProcess_def sample_listeners_def Let_def numeral_2_eq_2)
  have "show_nat 2 = ''2''" by code_simp
  then have fds: "E_listen_fds sample_child = getenv (B_env ?p) envCountKey"
    by (simp add: getenv_child sample_child_def)
  have "length sample_listeners = 2" by (simp add: sample_listeners_def)
  moreover have "\<forall>i < length sample_listeners. \<forall>j < length sample_listeners.
      isSameAddr (addr (sample_listeners ! i)) (addr (sample_listeners ! j)) \<longrightarrow> i = j"
    by (auto simp: sample_listeners_def isSameAddr_def trim_prefix_def less_Suc_eq)
  ultimately obtain n' where "B_files ?p = List.map I_socket sample_listeners"
    "listen_all sample_child (List.map (\<lambda>i. (I_kind (sample_listeners ! i), addr (sample_listeners ! i))) [1, 0]) fresh_Net =
       Some (Inr (List.map ((!) sample_listeners) [1, 0]), n')"
    using listeners_handed_over [OF start _ _ fds, of sample_listeners "[1, 0]"] by (auto simp: sample_child_def)
  then show ?thesis using start by (auto simp: sample_listeners_def)
qed

end
