(* ===== verification/BufWriter.thy ===== *)
theory BufWriter
  imports BufioStream
begin

text \<open>
  The rest of the vendored package bufio.v1 (bufio.go): the operations of Reader that copy what they
  give, and the Writer. What is written to is a sink: the bytes it took and a script of what its writes
  return, how many bytes are taken and with which error; after the script it takes everything.
\<close>

section \<open>Sinks\<close>

record sink =
  Z_out :: string
  Z_script :: "(nat \<times> io_error option) option list"

definition sink_Write :: "string \<Rightarrow> sink \<Rightarrow> (nat \<times> io_error option) \<times> sink" where
  "sink_Write p z =
     (case Z_script z of
        [] \<Rightarrow> ((length p, None), z\<lparr>Z_out := Z_out z @ p\<rparr>)
      | None # rest \<Rightarrow> ((length p, None), z\<lparr>Z_out := Z_out z @ p, Z_script := rest\<rparr>)
      | Some (k, e) # rest \<Rightarrow> ((min k (length p), e), z\<lparr>Z_out := Z_out z @ take k p, Z_script := rest\<rparr>))"

section \<open>Reader\<close>

partial_function (option) ReadBytes_loop :: "char \<Rightarrow> string \<Rightarrow> Reader \<Rightarrow> ((string \<times> io_error option) \<times> Reader) option" where
  [code]: "ReadBytes_loop delim full b =
     Option.bind (ReadSlice delim b) (\<lambda>((frag, e), b).
       if e = Some ErrBufferFull then ReadBytes_loop delim (full @ frag) b
       else Some ((full @ frag, e), b))"

definition ReadBytes :: "char \<Rightarrow> Reader \<Rightarrow> ((string \<times> io_error option) \<times> Reader) option" where
  "ReadBytes delim b = ReadBytes_loop delim [] b"

definition ReadString :: "char \<Rightarrow> Reader \<Rightarrow> ((string \<times> io_error option) \<times> Reader) option" where
  "ReadString = ReadBytes"

text \<open>
  The check for a short write compares with \<open>b.r - b.w\<close>, which is not positive, so it never panics. A
  panic of fill is \<open>None\<close>; the error of the first fill is looked at by \<open>readErr\<close> at the end.
\<close>

definition writeBuf :: "sink \<Rightarrow> Reader \<Rightarrow> (nat \<times> io_error option) \<times> sink \<times> Reader" where
  "writeBuf z b = (case sink_Write (window b) z of ((n, err), z) \<Rightarrow> ((n, err), z, b\<lparr>R_r := R_r b + n\<rparr>))"

partial_function (option) WriteTo_loop :: "nat \<Rightarrow> sink \<Rightarrow> Reader \<Rightarrow> ((nat \<times> io_error option) \<times> sink \<times> Reader) option" where
  [code]: "WriteTo_loop n z b =
     (if R_r b < R_w b then
        (case writeBuf z b of ((m, err), z, b) \<Rightarrow>
           if err \<noteq> None then Some ((n + m, err), z, b)
           else Option.bind (fill b) (\<lambda>b. WriteTo_loop (n + m) z b))
      else
        (case readErr (if R_err b = Some EOF then b\<lparr>R_err := None\<rparr> else b) of (err, b) \<Rightarrow> Some ((n, err), z, b)))"

definition WriteTo :: "sink \<Rightarrow> Reader \<Rightarrow> ((nat \<times> io_error option) \<times> sink \<times> Reader) option" where
  "WriteTo z b =
     (case writeBuf z b of ((n, err), z, b) \<Rightarrow>
        if err \<noteq> None then Some ((n, err), z, b)
        else Option.bind (if Buffered b < length (R_buf b) then fill b else Some b) (\<lambda>b. WriteTo_loop n z b))"

section \<open>Writer\<close>

record Writer =
  V_err :: "io_error option"
  V_buf :: string
  V_n :: nat
  V_wr :: sink

definition NewWriterSize :: "sink \<Rightarrow> int \<Rightarrow> Writer" where
  "NewWriterSize z k = \<lparr>V_err = None, V_buf = replicate (if k \<le> 0 then defaultBufSize else nat k) (CHR 0x00), V_n = 0, V_wr = z\<rparr>"

definition NewWriter :: "sink \<Rightarrow> Writer" where
  "NewWriter z = NewWriterSize z (int defaultBufSize)"

definition writer_Reset :: "sink \<Rightarrow> Writer \<Rightarrow> Writer" where
  "writer_Reset z w = w\<lparr>V_err := None, V_n := 0, V_wr := z\<rparr>"

definition Available :: "Writer \<Rightarrow> nat" where
  "Available w = length (V_buf w) - V_n w"

definition flush :: "Writer \<Rightarrow> io_error option \<times> Writer" where
  "flush w =
     (if V_err w \<noteq> None then (V_err w, w)
      else if V_n w = 0 then (None, w)
      else case sink_Write (take (V_n w) (V_buf w)) (V_wr w) of ((n, err), z) \<Rightarrow>
        let w = w\<lparr>V_wr := z\<rparr>;
            err = (if n < V_n w \<and> err = None then Some ErrShortWrite else err)
        in if err \<noteq> None then
             (err, w\<lparr>V_buf := (if n > 0 \<and> n < V_n w then overwrite 0 (drop n (take (V_n w) (V_buf w))) (V_buf w) else V_buf w),
               V_n := V_n w - n, V_err := err\<rparr>)
           else (None, w\<lparr>V_n := 0\<rparr>))"

text \<open>\<open>copy(b.buf[b.n:], p)\<close>: as much of \<open>p\<close> as fits.\<close>

definition put :: "string \<Rightarrow> Writer \<Rightarrow> nat \<times> Writer" where
  "put p w = (let bs = take (Available w) p in (length bs, w\<lparr>V_buf := overwrite (V_n w) bs (V_buf w), V_n := V_n w + length bs\<rparr>))"

text \<open>The loop of Write need not end with a sink that takes nothing and gives no error.\<close>

partial_function (option) bufio_Write_loop :: "nat \<Rightarrow> string \<Rightarrow> Writer \<Rightarrow> ((nat \<times> io_error option) \<times> Writer) option" where
  [code]: "bufio_Write_loop nn p w =
     (if length p > Available w \<and> V_err w = None then
        (if V_n w = 0 then
           (case sink_Write p (V_wr w) of ((n, err), z) \<Rightarrow> bufio_Write_loop (nn + n) (drop n p) (w\<lparr>V_wr := z, V_err := err\<rparr>))
         else
           (case put p w of (n, w) \<Rightarrow> bufio_Write_loop (nn + n) (drop n p) (snd (flush w))))
      else if V_err w \<noteq> None then Some ((nn, V_err w), w)
      else (case put p w of (n, w) \<Rightarrow> Some ((nn + n, None), w)))"

definition bufio_Write :: "string \<Rightarrow> Writer \<Rightarrow> ((nat \<times> io_error option) \<times> Writer) option" where
  "bufio_Write p w = bufio_Write_loop 0 p w"

partial_function (option) bufio_WriteString_loop :: "nat \<Rightarrow> string \<Rightarrow> Writer \<Rightarrow> ((nat \<times> io_error option) \<times> Writer) option" where
  [code]: "bufio_WriteString_loop nn s w =
     (if length s > Available w \<and> V_err w = None then
        (case put s w of (n, w) \<Rightarrow> bufio_WriteString_loop (nn + n) (drop n s) (snd (flush w)))
      else if V_err w \<noteq> None then Some ((nn, V_err w), w)
      else (case put s w of (n, w) \<Rightarrow> Some ((nn + n, None), w)))"

definition bufio_WriteString :: "string \<Rightarrow> Writer \<Rightarrow> ((nat \<times> io_error option) \<times> Writer) option" where
  "bufio_WriteString s w = bufio_WriteString_loop 0 s w"

text \<open>An index out of range is \<open>None\<close>.\<close>

definition bufio_WriteByte :: "char \<Rightarrow> Writer \<Rightarrow> (io_error option \<times> Writer) option" where
  "bufio_WriteByte c w =
     (if V_err w \<noteq> None then Some (V_err w, w)
      else
        let (failed, w) = (if Available w = 0 then (case flush w of (e, w) \<Rightarrow> (e \<noteq> None, w)) else (False, w))
        in if failed then Some (V_err w, w)
           else if V_n w < length (V_buf w) then Some (None, w\<lparr>V_buf := (V_buf w)[V_n w := c], V_n := V_n w + 1\<rparr>)
           else None)"

definition bufio_WriteRune :: "int \<Rightarrow> Writer \<Rightarrow> ((nat \<times> io_error option) \<times> Writer) option" where
  "bufio_WriteRune r w =
     (if r < 128 then map_option (\<lambda>(e, w). ((if e = None then 1 else 0, e), w)) (bufio_WriteByte (chr (nat (r mod 256))) w)
      else if V_err w \<noteq> None then Some ((0, V_err w), w)
      else
        let w = (if Available w < 4 then snd (flush w) else w)
        in if V_err w \<noteq> None then Some ((0, V_err w), w)
           else if Available w < 4 then bufio_WriteString (encode_rune (nat r)) w
           else (case put (encode_rune (nat r)) w of (n, w) \<Rightarrow> Some ((n, None), w)))"

text \<open>Reads into the free part of the buffer, at most 100 empty ones in a row.\<close>

fun read_tries :: "nat \<Rightarrow> nat \<Rightarrow> source \<Rightarrow> (string \<times> io_error option \<times> bool) \<times> source" where
  "read_tries 0 k src = (([], None, True), src)"
| "read_tries (Suc i) k src =
     (case src_read k src of ((bs, e), src) \<Rightarrow>
        if bs \<noteq> [] \<or> e \<noteq> None then ((bs, e, False), src) else read_tries i k src)"

partial_function (option) bufio_ReadFrom_loop :: "nat \<Rightarrow> source \<Rightarrow> Writer \<Rightarrow> ((nat \<times> io_error option) \<times> source \<times> Writer) option" where
  [code]: "bufio_ReadFrom_loop n src w =
     (case (if Available w = 0 then flush w else (None, w)) of
        (Some e, w) \<Rightarrow> Some ((n, Some e), src, w)
      | (None, w) \<Rightarrow>
          (case read_tries maxConsecutiveEmptyReads (Available w) src of
             ((bs, e, gave_up), src) \<Rightarrow>
               if gave_up then Some ((n, Some ErrNoProgress), src, w)
               else
                 let w = snd (put bs w); n = n + length bs
                 in if e = None then bufio_ReadFrom_loop n src w
                    else if e = Some EOF then
                      (if Available w = 0 then (case flush w of (e, w) \<Rightarrow> Some ((n, e), src, w)) else Some ((n, None), src, w))
                    else Some ((n, e), src, w)))"

definition bufio_ReadFrom :: "source \<Rightarrow> Writer \<Rightarrow> ((nat \<times> io_error option) \<times> source \<times> Writer) option" where
  "bufio_ReadFrom src w = bufio_ReadFrom_loop 0 src w"

section \<open>What was written\<close>

text \<open>The bytes that went out and those that wait in the buffer.\<close>

definition wtext :: "Writer \<Rightarrow> string" where
  "wtext w = Z_out (V_wr w) @ take (V_n w) (V_buf w)"

definition writer_inv :: "Writer \<Rightarrow> bool" where
  "writer_inv w \<longleftrightarrow> V_n w \<le> length (V_buf w) \<and> 0 < length (V_buf w)"

text \<open>The contract of io.Writer: less than everything is taken only with an error.\<close>

definition lawful :: "sink \<Rightarrow> bool" where
  "lawful z \<longleftrightarrow> (\<forall>k. Some (k, None) \<notin> set (Z_script z))"

lemma take_min_length [simp]: "take (min (length p) n) p = take n p" "take (min n (length p)) p = take n p"
  by (simp_all add: min_def)

lemma sink_Write_cases:
  obtains n e z' where "sink_Write p z = ((n, e), z')" "n \<le> length p" "Z_out z' = Z_out z @ take n p"
    "lawful z \<Longrightarrow> lawful z' \<and> (e = None \<longrightarrow> n = length p)"
proof (cases "Z_script z")
  case Nil
  with that [of "length p" None "z\<lparr>Z_out := Z_out z @ p\<rparr>"] show thesis by (simp add: sink_Write_def lawful_def)
next
  case (Cons x rest)
  show thesis
  proof (cases x)
    case None
    with Cons that [of "length p" None "z\<lparr>Z_out := Z_out z @ p, Z_script := rest\<rparr>"] show thesis by (simp add: sink_Write_def lawful_def)
  next
    case (Some ke)
    obtain k e where "ke = (k, e)" by force
    with Cons Some that [of "min k (length p)" e "z\<lparr>Z_out := Z_out z @ take k p, Z_script := rest\<rparr>"] show thesis
      by (force simp: sink_Write_def lawful_def)
  qed
qed

lemma flush_cases:
  assumes "writer_inv w"
  obtains e w' where "flush w = (e, w')" "writer_inv w'" "wtext w' = wtext w" "length (V_buf w') = length (V_buf w)" "V_err w' = e"
    "e = None \<Longrightarrow> V_n w' = 0" "lawful (V_wr w) \<Longrightarrow> lawful (V_wr w')"
proof (cases "V_err w = None \<and> V_n w \<noteq> 0")
  case False
  with assms that [of "V_err w" w] show thesis by (auto simp: flush_def)
next
  case True
  obtain n e z' where z: "sink_Write (take (V_n w) (V_buf w)) (V_wr w) = ((n, e), z')" "n \<le> length (take (V_n w) (V_buf w))"
    "Z_out z' = Z_out (V_wr w) @ take n (take (V_n w) (V_buf w))" "lawful (V_wr w) \<Longrightarrow> lawful z' \<and> (e = None \<longrightarrow> n = length (take (V_n w) (V_buf w)))"
    using sink_Write_cases by blast
  have n: "n \<le> V_n w" "V_n w \<le> length (V_buf w)" using z(2) assms by (simp_all add: writer_inv_def)
  let ?e = "if n < V_n w \<and> e = None then Some ErrShortWrite else e"
  show thesis
  proof (cases "?e = None")
    case True
    then have "n = V_n w" using n by (auto split: if_splits)
    with True \<open>V_err w = None \<and> V_n w \<noteq> 0\<close> z n assms show thesis
      by (intro that [of None "w\<lparr>V_wr := z', V_n := 0\<rparr>"]) (simp_all add: flush_def Let_def wtext_def writer_inv_def)
  next
    case False
    let ?w = "w\<lparr>V_wr := z', V_buf := (if n > 0 \<and> n < V_n w then overwrite 0 (drop n (take (V_n w) (V_buf w))) (V_buf w) else V_buf w),
        V_n := V_n w - n, V_err := ?e\<rparr>"
    have f: "flush w = (?e, ?w)" using \<open>V_err w = None \<and> V_n w \<noteq> 0\<close> z(1) False by (simp add: flush_def Let_def)
    have t: "take (V_n w - n) (V_buf ?w) = drop n (take (V_n w) (V_buf w))"
      using n by (cases "n = 0"; cases "n = V_n w") (simp_all add: overwrite_def drop_take)
    have "take n (V_buf w) @ drop n (take (V_n w) (V_buf w)) = take (V_n w) (V_buf w)"
      using n append_take_drop_id [of n "take (V_n w) (V_buf w)"] by (simp add: min_def)
    with z(3) t n have tx: "wtext ?w = wtext w" by (simp add: wtext_def min_def)
    have l: "length (V_buf ?w) = length (V_buf w)" using n by (auto simp: overwrite_def)
    show thesis
      by (rule that [OF f _ tx l]) (use l n assms z(4) False in \<open>auto simp: writer_inv_def\<close>)
  qed
qed

lemma put_cases:
  assumes "writer_inv w"
  obtains w' where "put p w = (min (length p) (Available w), w')" "writer_inv w'" "wtext w' = wtext w @ take (Available w) p"
    "V_err w' = V_err w" "V_wr w' = V_wr w" "length (V_buf w') = length (V_buf w)" "V_n w' = V_n w + min (length p) (Available w)"
proof -
  have n: "V_n w + length (take (Available w) p) \<le> length (V_buf w)" using assms by (auto simp: writer_inv_def Available_def)
  let ?w = "w\<lparr>V_buf := overwrite (V_n w) (take (Available w) p) (V_buf w), V_n := V_n w + length (take (Available w) p)\<rparr>"
  have "wtext ?w = wtext w @ take (Available w) p"
    using n by (simp add: wtext_def overwrite_def)
  with assms n show thesis by (intro that [of ?w]) (simp_all add: put_def Let_def writer_inv_def)
qed

text \<open>What a call promises: it took a part of its text, all of it when it gives no error.\<close>

definition took :: "string \<Rightarrow> nat \<Rightarrow> Writer \<Rightarrow> nat \<times> io_error option \<Rightarrow> Writer \<Rightarrow> bool" where
  "took s nn w r w' \<longleftrightarrow> writer_inv w' \<and> lawful (V_wr w') \<and> nn \<le> fst r \<and> fst r - nn \<le> length s \<and>
     wtext w' = wtext w @ take (fst r - nn) s \<and> V_err w' = snd r \<and> (snd r = None \<longrightarrow> fst r = nn + length s)"

lemma took_step:
  assumes "took (drop n s) (nn + n) w1 r w'" and n: "n \<le> length s" and t: "wtext w1 = wtext w @ take n s"
  shows "took s nn w r w'"
proof -
  have a: "writer_inv w'" "lawful (V_wr w')" "nn + n \<le> fst r" "fst r - (nn + n) \<le> length s - n" "V_err w' = snd r"
    "wtext w' = wtext w1 @ take (fst r - (nn + n)) (drop n s)" "snd r = None \<longrightarrow> fst r = nn + n + (length s - n)"
    using assms(1) by (simp_all add: took_def)
  have "take (fst r - nn) s = take n s @ take (fst r - (nn + n)) (drop n s)"
    using take_add [of n "fst r - (nn + n)" s] a(3) by simp
  with a t have "wtext w' = wtext w @ take (fst r - nn) s" by simp
  with a n show ?thesis by (auto simp: took_def)
qed

lemma took_nothing:
  "writer_inv w' \<Longrightarrow> lawful (V_wr w') \<Longrightarrow> wtext w' = wtext w \<Longrightarrow> V_err w' = Some e \<Longrightarrow> took s nn w (nn, Some e) w'"
  by (simp add: took_def)

lemma put_all:
  assumes "writer_inv w" "lawful (V_wr w)" "V_err w = None" "length s \<le> Available w"
  obtains w' where "put s w = (length s, w')" "took s nn w (nn + length s, None) w'"
proof -
  obtain w' where "put s w = (min (length s) (Available w), w')" "writer_inv w'" "wtext w' = wtext w @ take (Available w) s"
    "V_err w' = V_err w" "V_wr w' = V_wr w"
    by (rule put_cases [OF assms(1)])
  with assms that [of w'] show thesis by (simp add: took_def min_def)
qed

text \<open>The step both loops share: what fits goes into the buffer, which is then flushed.\<close>

lemma put_flush:
  assumes "writer_inv w" "lawful (V_wr w)" "V_err w = None" "Available w < length s"
  obtains w' where "fst (put s w) = Available w" "snd (flush (snd (put s w))) = w'" "writer_inv w'" "lawful (V_wr w')"
    "wtext w' = wtext w @ take (Available w) s" "V_err w' = None \<Longrightarrow> V_n w' = 0"
proof -
  obtain w1 where 1: "put s w = (min (length s) (Available w), w1)" "writer_inv w1" "wtext w1 = wtext w @ take (Available w) s"
    "V_err w1 = V_err w" "V_wr w1 = V_wr w"
    by (rule put_cases [OF assms(1)])
  obtain e w2 where 2: "flush w1 = (e, w2)" "writer_inv w2" "wtext w2 = wtext w1" "V_err w2 = e" "e = None \<Longrightarrow> V_n w2 = 0"
    "lawful (V_wr w1) \<Longrightarrow> lawful (V_wr w2)"
    by (rule flush_cases [OF 1(2)]) (rule that, assumption+)
  from that [of w2] 1 2 assms show thesis by simp
qed

lemma WriteString_loop_spec:
  assumes "writer_inv w" "lawful (V_wr w)"
  shows "\<exists>r w'. bufio_WriteString_loop nn s w = Some (r, w') \<and> took s nn w r w'"
  using assms
proof (induction "if V_err w = None then Suc (2 * length s + (if V_n w = 0 then 0 else 1)) else 0" arbitrary: nn s w rule: less_induct)
  case less
  note inv = less.prems
  show ?case
  proof (cases "V_err w")
    case (Some e)
    with took_nothing [OF inv, of w e s nn] show ?thesis by (subst bufio_WriteString_loop.simps) simp
  next
    case None
    show ?thesis
    proof (cases "length s \<le> Available w")
      case True
      obtain w' where "put s w = (length s, w')" "took s nn w (nn + length s, None) w'"
        by (rule put_all [OF inv None True])
      with True None show ?thesis by (subst bufio_WriteString_loop.simps) simp
    next
      case False
      let ?n = "Available w"
      obtain w' where p: "fst (put s w) = ?n" "snd (flush (snd (put s w))) = w'" "writer_inv w'" "lawful (V_wr w')"
        "wtext w' = wtext w @ take ?n s" "V_err w' = None \<Longrightarrow> V_n w' = 0"
        by (rule put_flush [OF inv None, of s]) (use False in auto)
      have l: "V_n w = 0 \<Longrightarrow> 0 < ?n" using inv by (simp add: writer_inv_def Available_def)
      have "\<exists>r w''. bufio_WriteString_loop (nn + ?n) (drop ?n s) w' = Some (r, w'') \<and> took (drop ?n s) (nn + ?n) w' r w''"
        by (rule less.hyps [OF _ p(3,4)]) (use None False l p(6) in \<open>auto split: if_splits\<close>)
      then obtain r w'' where r: "bufio_WriteString_loop (nn + ?n) (drop ?n s) w' = Some (r, w'')" "took (drop ?n s) (nn + ?n) w' r w''"
        by blast
      have "bufio_WriteString_loop nn s w = Some (r, w'')"
        using False None p(1,2) r(1) by (subst bufio_WriteString_loop.simps) (simp add: case_prod_beta)
      with took_step [OF r(2) _ p(5)] False show ?thesis by auto
    qed
  qed
qed

lemma Write_loop_spec:
  assumes "writer_inv w" "lawful (V_wr w)"
  shows "\<exists>r w'. bufio_Write_loop nn s w = Some (r, w') \<and> took s nn w r w'"
  using assms
proof (induction "if V_err w = None then Suc (2 * length s + (if V_n w = 0 then 0 else 1)) else 0" arbitrary: nn s w rule: less_induct)
  case less
  note inv = less.prems
  show ?case
  proof (cases "V_err w")
    case (Some e)
    with took_nothing [OF inv, of w e s nn] show ?thesis by (subst bufio_Write_loop.simps) simp
  next
    case None
    show ?thesis
    proof (cases "length s \<le> Available w")
      case True
      obtain w' where "put s w = (length s, w')" "took s nn w (nn + length s, None) w'"
        by (rule put_all [OF inv None True])
      with True None show ?thesis by (subst bufio_Write_loop.simps) simp
    next
      case False
      define n where "n = (if V_n w = 0 then fst (fst (sink_Write s (V_wr w))) else Available w)"
      obtain w' where p: "bufio_Write_loop nn s w = bufio_Write_loop (nn + n) (drop n s) w'" "writer_inv w'" "lawful (V_wr w')"
        "wtext w' = wtext w @ take n s" "n \<le> length s"
        "V_err w' = None \<Longrightarrow> V_n w' = 0 \<and> (V_n w = 0 \<longrightarrow> n = length s)"
      proof (cases "V_n w = 0")
        case True
        obtain k e z where z: "sink_Write s (V_wr w) = ((k, e), z)" "k \<le> length s" "Z_out z = Z_out (V_wr w) @ take k s"
          "lawful (V_wr w) \<Longrightarrow> lawful z \<and> (e = None \<longrightarrow> k = length s)"
          by (rule sink_Write_cases [of s "V_wr w"]) (rule that, assumption+)
        have "bufio_Write_loop nn s w = bufio_Write_loop (nn + k) (drop k s) (w\<lparr>V_wr := z, V_err := e\<rparr>)"
          using False None True z(1) by (subst bufio_Write_loop.simps) simp
        with that [of "w\<lparr>V_wr := z, V_err := e\<rparr>"] True z inv show thesis by (simp add: n_def wtext_def writer_inv_def)
      next
        case n0: False
        obtain w' where w': "fst (put s w) = Available w" "snd (flush (snd (put s w))) = w'" "writer_inv w'" "lawful (V_wr w')"
          "wtext w' = wtext w @ take (Available w) s" "V_err w' = None \<Longrightarrow> V_n w' = 0"
          by (rule put_flush [OF inv None, of s]) (use False in auto)
        have "bufio_Write_loop nn s w = bufio_Write_loop (nn + Available w) (drop (Available w) s) w'"
          using False None n0 w'(1,2) by (subst bufio_Write_loop.simps) (simp add: case_prod_beta)
        with that [of w'] n0 w' False show thesis by (simp add: n_def)
      qed
      have "\<exists>r w''. bufio_Write_loop (nn + n) (drop n s) w' = Some (r, w'') \<and> took (drop n s) (nn + n) w' r w''"
        by (rule less.hyps [OF _ p(2,3)]) (use None False p(5,6) in \<open>auto split: if_splits\<close>)
      with p(1) took_step [OF _ p(5,4)] show ?thesis by auto
    qed
  qed
qed

lemma Write_spec:
  "writer_inv w \<Longrightarrow> lawful (V_wr w) \<Longrightarrow> \<exists>r w'. bufio_Write s w = Some (r, w') \<and> took s 0 w r w'"
  unfolding bufio_Write_def by (rule Write_loop_spec)

lemma WriteString_spec:
  "writer_inv w \<Longrightarrow> lawful (V_wr w) \<Longrightarrow> \<exists>r w'. bufio_WriteString s w = Some (r, w') \<and> took s 0 w r w'"
  unfolding bufio_WriteString_def by (rule WriteString_loop_spec)

lemma flush_spec:
  assumes "writer_inv w" "lawful (V_wr w)"
  shows "took [] 0 w (0, fst (flush w)) (snd (flush w))" "fst (flush w) = None \<longrightarrow> V_n (snd (flush w)) = 0"
    "length (V_buf (snd (flush w))) = length (V_buf w)"
  by (rule flush_cases [OF assms(1)]; use assms(2) in \<open>simp add: took_def\<close>)+

lemma WriteByte_spec:
  assumes "writer_inv w" "lawful (V_wr w)"
  shows "\<exists>e w'. bufio_WriteByte c w = Some (e, w') \<and> took [c] 0 w (if e = None then 1 else 0, e) w'"
proof (cases "V_err w")
  case (Some e)
  with took_nothing [OF assms, of w e "[c]" 0] show ?thesis by (simp add: bufio_WriteByte_def)
next
  case None
  let ?w = "if Available w = 0 then snd (flush w) else w"
  have f: "took [] 0 w (0, V_err ?w) ?w" "Available w = 0 \<longrightarrow> fst (flush w) = V_err ?w" "V_err ?w = None \<longrightarrow> V_n ?w < length (V_buf ?w)"
    using flush_spec [OF assms] assms None by (auto simp: took_def writer_inv_def Available_def simp del: length_greater_0_conv)
  show ?thesis
  proof (cases "V_err ?w")
    case (Some e)
    have "bufio_WriteByte c w = Some (Some e, ?w)"
      using f(2) None Some by (auto simp: bufio_WriteByte_def case_prod_beta split: if_splits)
    with f(1) Some show ?thesis by (auto simp: took_def)
  next
    case w: None
    let ?w' = "?w\<lparr>V_buf := (V_buf ?w)[V_n ?w := c], V_n := V_n ?w + 1\<rparr>"
    have n: "V_n ?w < length (V_buf ?w)" using f(3) w by blast
    have "bufio_WriteByte c w = Some (None, ?w')"
      using f(2) None w n by (auto simp: bufio_WriteByte_def case_prod_beta Let_def split: if_splits)
    moreover have "wtext ?w' = wtext ?w @ [c]"
      using n by (simp add: wtext_def take_Suc_conv_app_nth)
    ultimately show ?thesis using f(1) w n by (auto simp: took_def writer_inv_def)
  qed
qed

lemma length_encode_rune: "length (encode_rune r) \<le> 4"
  by (simp add: encode_rune_def Let_def)

definition rune_text :: "int \<Rightarrow> string" where
  "rune_text r = (if r < 128 then [chr (nat (r mod 256))] else encode_rune (nat r))"

lemma WriteRune_spec:
  assumes "writer_inv w" "lawful (V_wr w)"
  shows "\<exists>k w'. bufio_WriteRune r w = Some (k, w') \<and> took (rune_text r) 0 w k w'"
proof (cases "r < 128 \<or> V_err w \<noteq> None")
  case True
  with WriteByte_spec [OF assms, of "chr (nat (r mod 256))"] took_nothing [OF assms, of w _ "rune_text r" 0]
  show ?thesis by (cases "r < 128") (auto simp: bufio_WriteRune_def rune_text_def)
next
  case r: False
  let ?s = "encode_rune (nat r)" let ?w = "if Available w < 4 then snd (flush w) else w"
  have f: "took [] 0 w (0, V_err ?w) ?w" using flush_spec [OF assms] assms r by (auto simp: took_def)
  then have inv: "writer_inv ?w" "lawful (V_wr ?w)" and t: "wtext ?w = wtext w" by (simp_all add: took_def)
  have e: "rune_text r = ?s" using r by (simp add: rune_text_def)
  have "\<exists>k w'. bufio_WriteRune r w = Some (k, w') \<and> took ?s 0 ?w k w'"
  proof (cases "V_err ?w = None \<and> 4 \<le> Available ?w")
    case True
    obtain w' where "put ?s ?w = (length ?s, w')" "took ?s 0 ?w (0 + length ?s, None) w'"
      by (rule put_all [OF inv, of ?s 0]) (use True length_encode_rune [of "nat r"] in auto)
    with True r show ?thesis by (simp add: bufio_WriteRune_def Let_def)
  next
    case False
    then show ?thesis
      using r WriteString_spec [OF inv, of ?s] took_nothing [OF inv, of ?w _ ?s 0]
      by (cases "V_err ?w") (simp_all add: bufio_WriteRune_def Let_def)
  qed
  then show ?thesis using t e by (simp add: took_def)
qed

section \<open>Sequences of calls\<close>

datatype write_call = CallWrite string | CallWriteString string | CallWriteByte char | CallWriteRune int | CallFlush

primrec call_text :: "write_call \<Rightarrow> string" where
  "call_text (CallWrite p) = p"
| "call_text (CallWriteString s) = s"
| "call_text (CallWriteByte c) = [c]"
| "call_text (CallWriteRune r) = rune_text r"
| "call_text CallFlush = []"

text \<open>The number of bytes and the error a call returns; WriteByte and Flush return the error only.\<close>

primrec call :: "write_call \<Rightarrow> Writer \<Rightarrow> ((nat \<times> io_error option) \<times> Writer) option" where
  "call (CallWrite p) w = bufio_Write p w"
| "call (CallWriteString s) w = bufio_WriteString s w"
| "call (CallWriteByte c) w = map_option (\<lambda>(e, w). ((if e = None then 1 else 0, e), w)) (bufio_WriteByte c w)"
| "call (CallWriteRune r) w = bufio_WriteRune r w"
| "call CallFlush w = (case flush w of (e, w) \<Rightarrow> Some ((0, e), w))"

fun calls :: "write_call list \<Rightarrow> Writer \<Rightarrow> ((nat \<times> io_error option) list \<times> Writer) option" where
  "calls [] w = Some ([], w)"
| "calls (c # cs) w = Option.bind (call c w) (\<lambda>(r, w). map_option (\<lambda>(rs, w). (r # rs, w)) (calls cs w))"

lemma call_spec:
  assumes "writer_inv w" "lawful (V_wr w)"
  shows "\<exists>r w'. call c w = Some (r, w') \<and> took (call_text c) 0 w r w'"
proof (cases c)
  case (CallWriteByte b)
  with WriteByte_spec [OF assms, of b] show ?thesis by auto
next
  case CallFlush
  with flush_spec(1) [OF assms] show ?thesis by (simp add: case_prod_beta)
qed (use Write_spec [OF assms] WriteString_spec [OF assms] WriteRune_spec [OF assms] in \<open>simp_all del: split_paired_Ex\<close>)

text \<open>What the results say was accepted.\<close>

definition accepted :: "write_call list \<Rightarrow> (nat \<times> io_error option) list \<Rightarrow> string" where
  "accepted cs rs = concat (map2 (\<lambda>c r. take (fst r) (call_text c)) cs rs)"

lemma calls_spec:
  assumes "writer_inv w" "lawful (V_wr w)"
  shows "\<exists>rs w'. calls cs w = Some (rs, w') \<and> length rs = length cs \<and> writer_inv w' \<and> lawful (V_wr w') \<and>
    wtext w' = wtext w @ accepted cs rs \<and> list_all2 (\<lambda>c r. snd r = None \<longrightarrow> fst r = length (call_text c)) cs rs"
  using assms
proof (induction cs arbitrary: w)
  case Nil
  then show ?case by (simp add: accepted_def)
next
  case (Cons c cs)
  obtain r w1 where 1: "call c w = Some (r, w1)" "took (call_text c) 0 w r w1" using call_spec [OF Cons.prems, of c] by blast
  then obtain rs w' where 2: "calls cs w1 = Some (rs, w')" "length rs = length cs" "writer_inv w'" "lawful (V_wr w')"
    "wtext w' = wtext w1 @ accepted cs rs" "list_all2 (\<lambda>c r. snd r = None \<longrightarrow> fst r = length (call_text c)) cs rs"
    using Cons.IH [of w1] by (auto simp: took_def)
  with 1 show ?case by (simp add: took_def accepted_def)
qed

text \<open>An error stays: the calls after it take nothing and return it.\<close>

lemma call_sticky: "V_err w = Some e \<Longrightarrow> call c w = Some ((0, Some e), w)"
  by (cases c) (auto simp: bufio_Write_def bufio_WriteString_def bufio_WriteByte_def bufio_WriteRune_def flush_def
    bufio_Write_loop.simps bufio_WriteString_loop.simps)

lemma calls_sticky: "V_err w = Some e \<Longrightarrow> calls cs w = Some (replicate (length cs) (0, Some e), w)"
  by (induction cs) (simp_all add: call_sticky)

lemma calls_errors:
  assumes "writer_inv w" "lawful (V_wr w)" "calls cs w = Some (rs, w')" "i < j" "j < length rs" "snd (rs ! i) = Some e"
  shows "rs ! j = (0, Some e)"
  using assms
proof (induction cs arbitrary: w rs i j)
  case (Cons c cs)
  obtain r w1 where 1: "call c w = Some (r, w1)" "took (call_text c) 0 w r w1" using call_spec [OF Cons.prems(1,2), of c] by blast
  then obtain rs1 where rs: "calls cs w1 = Some (rs1, w')" "rs = r # rs1" using Cons.prems(3) by auto
  obtain k where j: "j = Suc k" "k < length rs1" using Cons.prems(4,5) rs(2) by (cases j) auto
  show ?case
  proof (cases i)
    case 0
    then have "V_err w1 = Some e" using 1(2) rs(2) Cons.prems(6) by (simp add: took_def)
    then have "rs1 = replicate (length cs) (0, Some e)" using rs(1) calls_sticky [of w1 e cs] by simp
    then show ?thesis using rs(2) j by simp
  next
    case (Suc i')
    have "writer_inv w1" "lawful (V_wr w1)" using 1(2) by (simp_all add: took_def)
    from Cons.IH [OF this rs(1), of i' k] show ?thesis using Suc j rs(2) Cons.prems(4,6) by simp
  qed
qed simp

lemma calls_snoc:
  "calls (cs @ [c]) w = Option.bind (calls cs w) (\<lambda>(rs, w). map_option (\<lambda>(r, w). (rs @ [r], w)) (call c w))"
  by (induction cs arbitrary: w) (auto split: bind_splits option.splits simp: map_option_case)

lemma accepted_all:
  "list_all2 (\<lambda>c r. snd r = None \<longrightarrow> fst r = length (call_text c)) cs rs \<Longrightarrow> \<forall>r\<in>set rs. snd r = None \<Longrightarrow>
   accepted cs rs = concat (map call_text cs)"
  by (induction rule: list_all2_induct) (simp_all add: accepted_def)

lemma last_call_fine:
  assumes "writer_inv w" "lawful (V_wr w)" "calls cs w = Some (rs, w')" "rs \<noteq> []" "snd (last rs) = None" "r \<in> set rs"
  shows "snd r = None"
proof (rule ccontr)
  assume r: "snd r \<noteq> None"
  obtain i where i: "i < length rs" "r = rs ! i" using assms(6) by (auto simp: in_set_conv_nth)
  with r obtain e where e: "snd (rs ! i) = Some e" by auto
  with assms(4,5) i have "i \<noteq> length rs - 1" by (auto simp: last_conv_nth)
  with i calls_errors [OF assms(1-3), of i "length rs - 1" e] e assms(4,5) show False by (simp add: last_conv_nth)
qed

text \<open>A Flush without an error at the end: everything is with the sink.\<close>

lemma flushed_all:
  assumes "writer_inv w" "lawful (V_wr w)" "calls cs w = Some (rs, w')" "cs \<noteq> []" "last cs = CallFlush" "snd (last rs) = None"
  shows "Z_out (V_wr w') = wtext w @ concat (map call_text cs)"
proof -
  have spec: "length rs = length cs" "wtext w' = wtext w @ accepted cs rs"
    "list_all2 (\<lambda>c r. snd r = None \<longrightarrow> fst r = length (call_text c)) cs rs"
    using calls_spec [OF assms(1,2), of cs] assms(3) by auto
  then have "rs \<noteq> []" using assms(4) by auto
  note none = last_call_fine [OF assms(1-3) this assms(6)]
  obtain cs' where cs: "cs = cs' @ [CallFlush]" using assms(4,5) by (metis append_butlast_last_id)
  obtain rs1 w1 where 2: "calls cs' w = Some (rs1, w1)" "writer_inv w1" "lawful (V_wr w1)" using calls_spec [OF assms(1,2), of cs'] by blast
  have "rs = rs1 @ [(0, fst (flush w1))]" "w' = snd (flush w1)"
    using assms(3) 2(1) cs by (simp_all add: calls_snoc case_prod_beta)
  with flush_spec(2) [OF 2(2,3)] assms(6) have "V_n w' = 0" by simp
  then show ?thesis using spec(2) accepted_all [OF spec(3)] none by (simp add: wtext_def)
qed

lemma NewWriterSize_inv: "writer_inv (NewWriterSize z k)"
  by (simp add: NewWriterSize_def writer_inv_def defaultBufSize_def)

section \<open>A whole stream\<close>

lemma index_byte_skip:
  "index_byte c (take n s) = None \<Longrightarrow> n \<le> length s \<Longrightarrow> index_byte c s = map_option ((+) n) (index_byte c (drop n s))"
proof (induction n arbitrary: s)
  case (Suc n)
  then show ?case by (cases s) (auto simp: option.map_comp o_def split: if_splits)
qed (simp add: option.map_ident [unfolded id_def] cong: option.map_cong)

definition bytes_spec :: "char \<Rightarrow> string \<Rightarrow> (string \<times> io_error option) \<times> string" where
  "bytes_spec delim s = (case index_byte delim s of Some i \<Rightarrow> ((take (Suc i) s, None), drop (Suc i) s) | None \<Rightarrow> ((s, Some EOF), []))"

lemma bytes_spec_skip:
  assumes "index_byte c (take n s) = None" "n \<le> length s"
  shows "bytes_spec c s = ((take n s @ fst (fst (bytes_spec c (drop n s))), snd (fst (bytes_spec c (drop n s)))), snd (bytes_spec c (drop n s)))"
proof (cases "index_byte c (drop n s)")
  case None
  with index_byte_skip [OF assms] show ?thesis by (simp add: bytes_spec_def)
next
  case (Some a)
  with index_byte_skip [OF assms] have "bytes_spec c s = ((take (n + Suc a) s, None), drop (n + Suc a) s)" by (simp add: bytes_spec_def)
  with Some show ?thesis by (simp only: take_add bytes_spec_def option.case fst_conv snd_conv drop_drop add.commute)
qed

text \<open>ReadBytes is not limited by the buffer: it gives the bytes through the first delimiter, or all with the end.\<close>

lemma ReadBytes_loop_spec:
  "reader_inv b \<Longrightarrow> implements ((full @ fst (fst (bytes_spec delim (pending b))), snd (fst (bytes_spec delim (pending b)))), snd (bytes_spec delim (pending b)))
     b (ReadBytes_loop delim full b)"
proof (induction "length (pending b)" arbitrary: full b rule: less_induct)
  case less
  let ?s = "pending b" and ?n = "capacity b"
  obtain c where c: "ReadSlice_loop delim b = Some (fst (slice_spec ?n delim ?s), c)" "pending c = snd (slice_spec ?n delim ?s)"
    "reader_inv c" "capacity c = ?n"
    using ReadSlice_loop_spec [OF less.prems, of delim] by (auto simp: implements_def)
  let ?c = "note_last (fst (fst (slice_spec ?n delim ?s))) c"
  have r: "ReadSlice delim b = Some (fst (slice_spec ?n delim ?s), ?c)"
    using c(1) by (simp add: ReadSlice_def case_prod_beta)
  have n: "0 < ?n" using less.prems by (simp add: reader_inv_def capacity_def)
  consider (hit) i where "index_byte delim (take ?n ?s) = Some i"
    | (full) "index_byte delim (take ?n ?s) = None" "?n \<le> length ?s"
    | (ended) "index_byte delim (take ?n ?s) = None" "length ?s < ?n"
    by force
  then show ?case
  proof cases
    case hit
    with index_byte_take [OF hit] r c show ?thesis
      by (subst ReadBytes_loop.simps) (auto simp: slice_spec_def bytes_spec_def implements_def)
  next
    case full
    have p: "pending ?c = drop ?n ?s" using full c(2) by (simp add: slice_spec_def)
    have step: "ReadBytes_loop delim full b = ReadBytes_loop delim (full @ take ?n ?s) ?c"
      using full r by (subst ReadBytes_loop.simps) (simp add: slice_spec_def)
    have "length (pending ?c) < length ?s" using p full(2) n by simp
    from less.hyps [OF this, of "full @ take ?n ?s"] c(3,4) p step bytes_spec_skip [OF full] show ?thesis
      by (simp add: implements_def)
  next
    case ended
    then have "index_byte delim ?s = None" by simp
    with ended r c show ?thesis
      by (subst ReadBytes_loop.simps) (auto simp: slice_spec_def bytes_spec_def implements_def)
  qed
qed

lemma ReadBytes_spec:
  assumes "reader_inv b"
  shows "implements (bytes_spec delim (pending b)) b (ReadBytes delim b)"
  using ReadBytes_loop_spec [OF assms, of "[]" delim] by (simp add: ReadBytes_def)

text \<open>A sink that takes everything.\<close>

lemma sink_Write_all [simp]: "Z_script z = [] \<Longrightarrow> sink_Write p z = ((length p, None), z\<lparr>Z_out := Z_out z @ p\<rparr>)"
  by (simp add: sink_Write_def)

lemma flush_all:
  assumes "writer_inv w" "V_err w = None" "Z_script (V_wr w) = []"
  obtains w' where "flush w = (None, w')" "writer_inv w'" "V_err w' = None" "Z_script (V_wr w') = []" "wtext w' = wtext w" "V_n w' = 0"
proof (cases "V_n w = 0")
  case True
  with assms that [of w] show thesis by (simp add: flush_def)
next
  case False
  let ?z = "(V_wr w)\<lparr>Z_out := Z_out (V_wr w) @ take (V_n w) (V_buf w)\<rparr>"
  have "V_n w \<le> length (V_buf w)" using assms by (simp add: writer_inv_def)
  with False assms that [of "w\<lparr>V_wr := ?z, V_n := 0\<rparr>"] show thesis by (simp add: flush_def wtext_def writer_inv_def)
qed

text \<open>The loop of WriteTo goes on as long as a fill brings bytes; it brings none only at the end.\<close>

definition filled :: "Reader \<Rightarrow> bool" where
  "filled b \<longleftrightarrow> R_r b < R_w b \<or> R_err b = Some EOF \<and> R_src b = []"

lemma fill_filled:
  assumes inv: "reader_inv b" and "Buffered b < capacity b"
  obtains b' where "fill b = Some b'" "reader_inv b'" "pending b' = pending b" "capacity b' = capacity b" "filled b'"
proof (cases "R_err b")
  case None
  obtain b' where b': "fill b = Some b'" "reader_inv b'" "pending b' = pending b" "capacity b' = capacity b"
    "R_src b = [] \<Longrightarrow> R_err b' = Some EOF \<and> window b' = window b" "R_src b \<noteq> [] \<Longrightarrow> R_err b' = None \<and> R_r b' < R_w b'"
    by (rule fill_stream [OF inv None assms(2)]) (rule that, assumption+)
  have "filled b'" using b'(2,5,6) by (cases "R_src b = []") (auto simp: filled_def reader_inv_def)
  with that b'(1-4) show thesis .
next
  case (Some e)
  then have e: "e = EOF" "R_src b = []" using inv by (auto simp: reader_inv_def)
  let ?s = "slide b"
  have w: "R_w ?s = R_w b - R_r b" by (simp add: slide_def)
  have s: "R_w ?s < length (R_buf ?s)" "window ?s = window b"
    using assms by (auto simp: reader_inv_def Buffered_def capacity_def w)
  have "fill b = Some (?s\<lparr>R_err := Some EOF\<rparr>)"
    using s(1) e fill_reads_end [of ?s maxConsecutiveEmptyReads]
    by (simp add: fill_def Let_def maxConsecutiveEmptyReads_def del: fill_reads.simps)
  moreover have "?s\<lparr>R_err := Some EOF\<rparr> = ?s" using Some e by (cases b) (simp add: slide_def)
  ultimately have "fill b = Some ?s" by simp
  with that [of ?s] s w e Some inv show thesis
    by (auto simp: filled_def reader_inv_def pending_def capacity_def Buffered_def)
qed

lemma writeBuf_all:
  assumes "reader_inv b" "Z_script z = []"
  obtains b' where "writeBuf z b = ((length (window b), None), z\<lparr>Z_out := Z_out z @ window b\<rparr>, b')" "reader_inv b'"
    "pending b = window b @ pending b'" "window b' = []" "Buffered b' < capacity b'"
proof -
  let ?b = "b\<lparr>R_r := R_r b + length (window b)\<rparr>"
  have "reader_inv ?b" "pending ?b = drop (length (window b)) (pending b)" using advance_inv [OF assms(1) order_refl] by auto
  moreover have "R_r ?b = R_w b" using window_bounds [OF assms(1)] assms(1) by (simp add: Buffered_def reader_inv_def)
  ultimately show thesis
    using that [of ?b] assms window_bounds [OF assms(1)] by (auto simp: writeBuf_def pending_def window_def Buffered_def capacity_def reader_inv_def)
qed

lemma WriteTo_loop_spec:
  assumes "reader_inv b" "filled b" "Z_script z = []"
  shows "\<exists>b'. WriteTo_loop n z b = Some ((n + length (pending b), None), z\<lparr>Z_out := Z_out z @ pending b\<rparr>, b') \<and> pending b' = [] \<and> reader_inv b'"
  using assms
proof (induction "length (pending b)" arbitrary: n z b rule: less_induct)
  case less
  note inv = less.prems(1) and script = less.prems(3)
  show ?case
  proof (cases "R_r b < R_w b")
    case False
    then have e: "R_err b = Some EOF" "R_src b = []" "window b = []" "R_r b = R_w b" using less.prems by (auto simp: filled_def window_def reader_inv_def)
    then have "WriteTo_loop n z b = Some ((n, None), z, b\<lparr>R_err := None\<rparr>)" by (subst WriteTo_loop.simps) (simp add: readErr_def)
    with e inv show ?thesis by (auto simp: pending_def reader_inv_def)
  next
    case True
    obtain b1 where 1: "writeBuf z b = ((length (window b), None), z\<lparr>Z_out := Z_out z @ window b\<rparr>, b1)" "reader_inv b1"
      "pending b = window b @ pending b1" "window b1 = []" "Buffered b1 < capacity b1"
      by (rule writeBuf_all [OF inv script])
    obtain b2 where 2: "fill b1 = Some b2" "reader_inv b2" "pending b2 = pending b1" "filled b2"
      by (rule fill_filled [OF 1(2,5)])
    have "window b \<noteq> []" using True window_bounds [OF inv] by (auto simp: Buffered_def)
    then have "length (pending b2) < length (pending b)" using 1(3) 2(3) by simp
    from less.hyps [OF this 2(2,4), of "z\<lparr>Z_out := Z_out z @ window b\<rparr>" "n + length (window b)"]
    obtain b' where "WriteTo_loop (n + length (window b)) (z\<lparr>Z_out := Z_out z @ window b\<rparr>) b2 =
        Some ((n + length (window b) + length (pending b2), None), z\<lparr>Z_out := Z_out z @ window b @ pending b2\<rparr>, b')" "pending b' = []" "reader_inv b'"
      using script by auto
    moreover have "WriteTo_loop n z b = WriteTo_loop (n + length (window b)) (z\<lparr>Z_out := Z_out z @ window b\<rparr>) b2"
      using True 1(1) 2(1) by (subst WriteTo_loop.simps) simp
    ultimately show ?thesis using 1(3) 2(3) by (simp add: add.assoc)
  qed
qed

lemma WriteTo_spec:
  assumes inv: "reader_inv b" and script: "Z_script z = []"
  shows "\<exists>b'. WriteTo z b = Some ((length (pending b), None), z\<lparr>Z_out := Z_out z @ pending b\<rparr>, b') \<and> pending b' = [] \<and> reader_inv b'"
proof -
  obtain b1 where 1: "writeBuf z b = ((length (window b), None), z\<lparr>Z_out := Z_out z @ window b\<rparr>, b1)" "reader_inv b1"
    "pending b = window b @ pending b1" "window b1 = []" "Buffered b1 < capacity b1"
    by (rule writeBuf_all [OF inv script])
  obtain b2 where 2: "fill b1 = Some b2" "reader_inv b2" "pending b2 = pending b1" "filled b2"
    by (rule fill_filled [OF 1(2,5)])
  with 1 WriteTo_loop_spec [OF 2(2,4), of "z\<lparr>Z_out := Z_out z @ window b\<rparr>" "length (window b)"] script show ?thesis
    by (auto simp: WriteTo_def capacity_def)
qed

lemma read_tries_simps:
  "0 < i \<Longrightarrow> read_tries i k [] = (([], Some EOF, False), [])"
  "0 < i \<Longrightarrow> src_read k src = ((bs, e), src') \<Longrightarrow> bs \<noteq> [] \<Longrightarrow> read_tries i k src = ((bs, e, False), src')"
  by (cases i; simp)+

lemma ReadFrom_loop_spec:
  assumes "calm src" "writer_inv w" "V_err w = None" "Z_script (V_wr w) = []"
  shows "\<exists>w'. bufio_ReadFrom_loop n src w = Some ((n + length (stream_of src), None), [], w') \<and> wtext w' = wtext w @ stream_of src \<and>
    writer_inv w' \<and> V_err w' = None"
  using assms
proof (induction "length (stream_of src)" arbitrary: n src w rule: less_induct)
  case less
  obtain w1 where 1: "(if Available w = 0 then flush w else (None, w)) = (None, w1)" "writer_inv w1" "V_err w1 = None" "Z_script (V_wr w1) = []"
    "wtext w1 = wtext w" "0 < Available w1"
  proof (cases "Available w = 0")
    case True
    obtain w1 where w1: "flush w = (None, w1)" "writer_inv w1" "V_err w1 = None" "Z_script (V_wr w1) = []" "wtext w1 = wtext w" "V_n w1 = 0"
      by (rule flush_all [OF less.prems(2-4)])
    with True that [of w1] show thesis by (simp add: writer_inv_def Available_def)
  next
    case False
    with that [of w] less.prems show thesis by simp
  qed
  have tries: "0 < maxConsecutiveEmptyReads" by (simp add: maxConsecutiveEmptyReads_def)
  show ?case
  proof (cases "src = []")
    case True
    have "put [] w1 = (0, w1)" by (simp add: put_def overwrite_def)
    with True 1 show ?thesis by (subst bufio_ReadFrom_loop.simps) (simp add: read_tries_simps(1) [OF tries])
  next
    case False
    obtain bs src' where r: "src_read (Available w1) src = ((bs, None), src')" "bs \<noteq> []" "length bs \<le> Available w1" "calm src'"
      "stream_of src = bs @ stream_of src'"
      by (rule src_read_calm [OF less.prems(1) 1(6) False])
    obtain w2 where 2: "put bs w1 = (min (length bs) (Available w1), w2)" "writer_inv w2" "wtext w2 = wtext w1 @ take (Available w1) bs"
      "V_err w2 = V_err w1" "V_wr w2 = V_wr w1"
      by (rule put_cases [OF 1(2), of bs])
    have "bufio_ReadFrom_loop n src w = bufio_ReadFrom_loop (n + length bs) src' w2"
      using 1(1) r(1,2) 2(1) by (subst bufio_ReadFrom_loop.simps) (simp add: read_tries_simps(2) [OF tries] Let_def)
    moreover have "length (stream_of src') < length (stream_of src)" using r(2,5) by simp
    note less.hyps [OF this r(4) 2(2), of "n + length bs"]
    ultimately show ?thesis using 1 2 r(3,5) by (auto simp: add.assoc)
  qed
qed

lemma ReadFrom_spec:
  assumes "calm src" "writer_inv w" "V_err w = None" "Z_script (V_wr w) = []"
  shows "\<exists>w'. bufio_ReadFrom src w = Some ((length (stream_of src), None), [], w') \<and> wtext w' = wtext w @ stream_of src \<and> writer_inv w' \<and> V_err w' = None"
  using ReadFrom_loop_spec [OF assms, of 0] by (simp add: bufio_ReadFrom_def)

section \<open>Appending\<close>

text \<open>
  C27. A Writer on a sink that keeps the contract of io.Writer, with a buffer of any size: a sequence of
  calls of Write, WriteString, WriteByte, WriteRune and Flush returns from each of them. What the sink
  got and what waits in the buffer are, one after the other, the bytes the calls say they took, in the
  order of the calls; a call without an error took all of its text; after a call with an error every
  later one takes nothing and gives the same error; and when the last call is a Flush that gives no
  error, the sink got the text of all calls and nothing else.
\<close>

theorem writer_appends:
  assumes "lawful z"
  shows "\<exists>rs w. calls cs (NewWriterSize z k) = Some (rs, w) \<and> length rs = length cs \<and>
    Z_out (V_wr w) @ take (V_n w) (V_buf w) = Z_out z @ concat (map2 (\<lambda>c r. take (fst r) (call_text c)) cs rs) \<and>
    (\<forall>i<length rs. snd (rs ! i) = None \<longrightarrow> fst (rs ! i) = length (call_text (cs ! i))) \<and>
    (\<forall>i j e. i < j \<and> j < length rs \<and> snd (rs ! i) = Some e \<longrightarrow> rs ! j = (0, Some e)) \<and>
    (cs \<noteq> [] \<and> last cs = CallFlush \<and> snd (last rs) = None \<longrightarrow> Z_out (V_wr w) = Z_out z @ concat (map call_text cs))"
proof -
  let ?w = "NewWriterSize z k"
  have inv: "writer_inv ?w" "lawful (V_wr ?w)" and t: "wtext ?w = Z_out z"
    using assms NewWriterSize_inv by (simp_all add: NewWriterSize_def wtext_def)
  obtain rs w where 1: "calls cs ?w = Some (rs, w)" "length rs = length cs" "writer_inv w" "lawful (V_wr w)"
    "wtext w = wtext ?w @ accepted cs rs" "list_all2 (\<lambda>c r. snd r = None \<longrightarrow> fst r = length (call_text c)) cs rs"
    using calls_spec [OF inv, of cs] by blast
  show ?thesis
  proof (intro exI conjI)
    show "calls cs ?w = Some (rs, w)" "length rs = length cs" by (fact 1)+
    show "Z_out (V_wr w) @ take (V_n w) (V_buf w) = Z_out z @ concat (map2 (\<lambda>c r. take (fst r) (call_text c)) cs rs)"
      using 1(5) t by (simp add: wtext_def accepted_def)
    show "\<forall>i<length rs. snd (rs ! i) = None \<longrightarrow> fst (rs ! i) = length (call_text (cs ! i))"
      using 1(6) by (simp add: list_all2_conv_all_nth)
    show "\<forall>i j e. i < j \<and> j < length rs \<and> snd (rs ! i) = Some e \<longrightarrow> rs ! j = (0, Some e)"
      using calls_errors [OF inv 1(1)] by blast
    show "cs \<noteq> [] \<and> last cs = CallFlush \<and> snd (last rs) = None \<longrightarrow> Z_out (V_wr w) = Z_out z @ concat (map call_text cs)"
      using flushed_all [OF inv 1(1)] t by simp
  qed
qed

theorem writer_appends_witness:
  "\<exists>rs w. calls [CallWrite ''abcdef'', CallWriteRune 233, CallFlush] (NewWriterSize \<lparr>Z_out = [], Z_script = [Some (2, Some EOF)]\<rparr> 4) = Some (rs, w) \<and>
    length rs = 3"
proof -
  have "lawful \<lparr>Z_out = [], Z_script = [Some (2, Some EOF)]\<rparr>" by (simp add: lawful_def)
  from writer_appends [OF this, of "[CallWrite ''abcdef'', CallWriteRune 233, CallFlush]" 4]
  show ?thesis by (elim exE conjE) (intro exI conjI, assumption, simp)
qed

end
