(* ===== verification/ByteBuffer.thy ===== *)
theory ByteBuffer
  imports BufWriter
begin

text \<open>
  The Buffer of the vendored package bufio.v1 (buffer.go), in which the redis client writes its commands:
  a byte slice that grows, read at an offset. The slice is the memory behind it up to its capacity, and its
  length. A memory that cannot be allocated (ErrTooLarge) is not modelled; the other panics are \<open>None\<close>.
\<close>

section \<open>State\<close>

datatype readOp = opInvalid | opReadRune | opRead

record Buffer =
  D_mem :: string
  D_len :: nat
  D_off :: nat
  D_nil :: bool
  D_lastRead :: readOp


text \<open>The caller's slice, and the memory behind it up to its capacity.\<close>

definition NewBuffer :: "string \<Rightarrow> string \<Rightarrow> Buffer" where
  "NewBuffer buf spare = \<lparr>D_mem = buf @ spare, D_len = length buf, D_off = 0, D_nil = False, D_lastRead = opInvalid\<rparr>"

definition NewBufferString :: "string \<Rightarrow> string \<Rightarrow> Buffer" where
  "NewBufferString s spare = NewBuffer s spare"

definition Bytes :: "Buffer \<Rightarrow> string" where
  "Bytes b = drop (D_off b) (take (D_len b) (D_mem b))"

definition Len :: "Buffer \<Rightarrow> nat" where
  "Len b = D_len b - D_off b"

section \<open>Growing\<close>


text \<open>\<open>Truncate(0)\<close>, which never panics.\<close>

definition buffer_Reset :: "Buffer \<Rightarrow> Buffer" where
  "buffer_Reset b = b\<lparr>D_lastRead := opInvalid, D_off := 0, D_len := 0\<rparr>"

definition bootstrap_size :: nat where "bootstrap_size = 64"

definition makeSlice :: "nat \<Rightarrow> string" where
  "makeSlice n = replicate n (CHR 0x00)"

definition grow :: "nat \<Rightarrow> Buffer \<Rightarrow> nat \<times> Buffer" where
  "grow n b =
     (let m = Len b;
          b = (if m = 0 \<and> D_off b \<noteq> 0 then buffer_Reset b else b);
          cap = length (D_mem b);
          b = (if D_len b + n > cap then
                 let mem = (if D_nil b \<and> n \<le> bootstrap_size then makeSlice bootstrap_size
                            else if m + n \<le> cap div 2 then overwrite 0 (Bytes b) (D_mem b)
                            else overwrite 0 (Bytes b) (makeSlice (2 * cap + n)))
                 in b\<lparr>D_mem := mem, D_nil := False, D_off := 0\<rparr>
               else b)
      in (D_off b + m, b\<lparr>D_len := D_off b + m + n\<rparr>))"

definition Grow :: "int \<Rightarrow> Buffer \<Rightarrow> Buffer option" where
  "Grow n b = (if n < 0 then None else case grow (nat n) b of (m, b) \<Rightarrow> Some (b\<lparr>D_len := m\<rparr>))"

section \<open>Writing\<close>








section \<open>Reading\<close>




definition buffer_ReadByte :: "Buffer \<Rightarrow> (nat \<times> io_error option) \<times> Buffer" where
  "buffer_ReadByte b =
     (let b = b\<lparr>D_lastRead := opInvalid\<rparr>
      in if D_off b \<ge> D_len b then ((0, Some EOF), buffer_Reset b)
         else ((byte (D_mem b ! D_off b), None), b\<lparr>D_off := D_off b + 1, D_lastRead := opRead\<rparr>))"

definition buffer_ReadRune :: "Buffer \<Rightarrow> (nat \<times> nat \<times> io_error option) \<times> Buffer" where
  "buffer_ReadRune b =
     (let b = b\<lparr>D_lastRead := opInvalid\<rparr>
      in if D_off b \<ge> D_len b then ((0, 0, Some EOF), buffer_Reset b)
         else
           let b = b\<lparr>D_lastRead := opReadRune\<rparr>; c = D_mem b ! D_off b
           in if byte c < 128 then ((byte c, 1, None), b\<lparr>D_off := D_off b + 1\<rparr>)
              else case decode_rune (Bytes b) of (r, n) \<Rightarrow> ((r, n, None), b\<lparr>D_off := D_off b + n\<rparr>))"




section \<open>Giving back\<close>

text \<open>The standard library's DecodeLastRune: back to the last byte that starts a rune, three steps at most.\<close>

fun back_to_start :: "nat \<Rightarrow> string \<Rightarrow> nat \<Rightarrow> nat" where
  "back_to_start 0 p i = i - 1"
| "back_to_start (Suc k) p i = (if i = 0 then 0 else if \<not> cont (p ! (i - 1)) then i - 1 else back_to_start k p (i - 1))"

definition decode_last_rune :: "string \<Rightarrow> nat \<times> nat" where
  "decode_last_rune p =
     (if p = [] then (RuneError, 0)
      else if byte (last p) < 128 then (byte (last p), 1)
      else
        let start = back_to_start 3 p (length p - 1); (r, n) = decode_rune (drop start p)
        in if start + n \<noteq> length p then (RuneError, 1) else (r, n))"

definition buffer_UnreadRune :: "Buffer \<Rightarrow> io_error option \<times> Buffer" where
  "buffer_UnreadRune b =
     (if D_lastRead b \<noteq> opReadRune then (Some (OtherError ''bytes.Buffer: UnreadRune: previous operation was not ReadRune''), b)
      else
        let b = b\<lparr>D_lastRead := opInvalid\<rparr>
        in (None, if D_off b > 0 then b\<lparr>D_off := D_off b - snd (decode_last_rune (take (D_off b) (D_mem b)))\<rparr> else b))"

definition buffer_UnreadByte :: "Buffer \<Rightarrow> io_error option \<times> Buffer" where
  "buffer_UnreadByte b =
     (if D_lastRead b \<noteq> opReadRune \<and> D_lastRead b \<noteq> opRead
      then (Some (OtherError ''bytes.Buffer: UnreadByte: previous operation was not a read''), b)
      else
        let b = b\<lparr>D_lastRead := opInvalid\<rparr>
        in (None, if D_off b > 0 then b\<lparr>D_off := D_off b - 1\<rparr> else b))"

section \<open>A queue of bytes\<close>

definition buffer_inv :: "Buffer \<Rightarrow> bool" where
  "buffer_inv b \<longleftrightarrow> D_off b \<le> D_len b \<and> D_len b \<le> length (D_mem b) \<and> (D_nil b \<longrightarrow> D_mem b = [])"



lemma length_Bytes: "buffer_inv b \<Longrightarrow> length (Bytes b) = Len b"
  by (simp add: buffer_inv_def Bytes_def Len_def)

lemma Bytes_lastRead [simp]: "Bytes (b\<lparr>D_lastRead := l\<rparr>) = Bytes b" "buffer_inv (b\<lparr>D_lastRead := l\<rparr>) = buffer_inv b"
  by (simp_all add: Bytes_def buffer_inv_def)

lemma Bytes_Reset [simp]: "Bytes (buffer_Reset b) = []" "buffer_inv b \<Longrightarrow> buffer_inv (buffer_Reset b)"
  by (simp_all add: buffer_Reset_def Bytes_def buffer_inv_def)

lemma Bytes_advance:
  "buffer_inv b \<Longrightarrow> n \<le> Len b \<Longrightarrow> Bytes (b\<lparr>D_off := D_off b + n\<rparr>) = drop n (Bytes b) \<and> buffer_inv (b\<lparr>D_off := D_off b + n\<rparr>)"
  by (auto simp: Bytes_def buffer_inv_def Len_def add.commute)

lemma Bytes_empty: "buffer_inv b \<Longrightarrow> D_len b \<le> D_off b \<longleftrightarrow> Bytes b = []"
  by (auto simp: Bytes_def buffer_inv_def)





section \<open>Calls on the queue\<close>


















lemma nth_Bytes: "buffer_inv b \<Longrightarrow> D_off b < D_len b \<Longrightarrow> Bytes b = (D_mem b ! D_off b) # drop 1 (Bytes b)"
  by (simp add: Bytes_def buffer_inv_def Cons_nth_drop_Suc [of "D_off b" "take (D_len b) (D_mem b)", symmetric])

lemma decode_rune_le: "snd (decode_rune s) \<le> length s"
  by (auto simp: decode_rune_def Let_def split: list.splits)

text \<open>The part the reading calls share.\<close>

lemma reading [consumes 1, case_names none more]:
  assumes "buffer_inv b"
  obtains (none) "D_len b \<le> D_off b" "Bytes b = []" "Len b = 0"
    | (more) c t where "D_off b < D_len b" "Bytes b = c # t" "D_mem b ! D_off b = c" "Len b = Suc (length t)"
proof (cases "D_len b \<le> D_off b")
  case True
  with none Bytes_empty [OF assms] show thesis by (simp add: Len_def)
next
  case False
  with more [of "D_mem b ! D_off b" "drop 1 (Bytes b)"] nth_Bytes [OF assms] length_Bytes [OF assms] show thesis by (simp add: Len_def)
qed








section \<open>Giving back what was read\<close>

lemma back_here: "i \<noteq> 0 \<Longrightarrow> \<not> cont (p ! (i - 1)) \<Longrightarrow> back_to_start (Suc k) p i = i - 1"
  by simp

lemma back_further: "i \<noteq> 0 \<Longrightarrow> cont (p ! (i - 1)) \<Longrightarrow> back_to_start (Suc k) p i = back_to_start k p (i - 1)"
  by simp

lemma decode_last_tail:
  assumes "decode_rune (a # t) = (r, Suc (length t))" "128 \<le> byte a" "\<not> cont a" "t \<noteq> []" "length t \<le> 3" "\<forall>c\<in>set t. cont c"
  shows "decode_last_rune (p @ a # t) = (r, Suc (length t))"
proof -
  have "back_to_start 3 (p @ a # t) (length p + length t) = length p"
  proof -
    obtain c1 t1 where t: "t = c1 # t1" using assms(4) by (cases t) auto
    show ?thesis
    proof (cases t1)
      case Nil
      with t assms(3) show ?thesis by (simp add: eval_nat_numeral nth_append)
    next
      case (Cons c2 t2)
      show ?thesis
      proof (cases t2)
        case Nil
        with t Cons assms(3,6) show ?thesis by (simp add: eval_nat_numeral nth_append)
      next
        case (Cons c3 t3)
        then have "t = [c1, c2, c3]" using t \<open>t1 = c2 # t2\<close> assms(5) by simp
        with assms(3,6) show ?thesis by (simp add: eval_nat_numeral nth_append)
      qed
    qed
  qed
  moreover have "128 \<le> byte (last (p @ a # t))" using assms(4,6) last_in_set [of t] by (auto simp: cont_def)
  ultimately show ?thesis using assms(1) by (simp add: decode_last_rune_def)
qed

lemma decode_last_of_decoded:
  assumes "decode_rune s = (r, n)" "s \<noteq> []" "\<not> bad_rune s"
  shows "decode_last_rune (p @ take n s) = (r, n)"
  using assms(2,3)
proof (cases rule: decode_rune_split)
  case (one a t)
  with assms(1) show ?thesis by (auto simp: decode_last_rune_def)
next
  case (two a c1 t)
  have "n = 2" "decode_rune [a, c1] = (r, 2)" using two assms(1) by (auto simp: decode_rune_def)
  with decode_last_tail [of a "[c1]" r p] two show ?thesis by (simp add: cont_def)
next
  case (three a c1 c2 t)
  have "n = 3" "decode_rune [a, c1, c2] = (r, 3)" using three assms(1) by (auto simp: decode_rune_def)
  with decode_last_tail [of a "[c1, c2]" r p] three show ?thesis by (simp add: cont_def)
next
  case (four a c1 c2 c3 t)
  have "n = 4" "decode_rune [a, c1, c2, c3] = (r, 4)" using four assms(1) by (auto simp: decode_rune_def)
  with decode_last_tail [of a "[c1, c2, c3]" r p] four show ?thesis by (simp add: cont_def)
qed

lemma Bytes_forward:
  assumes "buffer_inv b" "n \<le> Len b"
  shows "Bytes (b\<lparr>D_off := D_off b + n, D_lastRead := l\<rparr>) = drop n (Bytes b)" "buffer_inv (b\<lparr>D_off := D_off b + n, D_lastRead := l\<rparr>)"
  using Bytes_advance [OF assms] by (simp_all add: Bytes_def buffer_inv_def)

lemma Bytes_back:
  "buffer_inv b \<Longrightarrow> n \<le> Len b \<Longrightarrow> Bytes (b\<lparr>D_off := D_off b + n - n, D_lastRead := l\<rparr>) = Bytes b"
  by (simp add: Bytes_def)

lemma read_part: "n \<le> Len b \<Longrightarrow> take (D_off b + n) (D_mem b) = take (D_off b) (D_mem b) @ take n (Bytes b)"
  by (simp add: take_add Bytes_def Len_def drop_take min_absorb1)

lemma ReadRune_unfold:
  assumes "buffer_inv b" "Bytes b \<noteq> []" "decode_rune (Bytes b) = (r, n)"
  shows "buffer_ReadRune b = ((r, n, None), b\<lparr>D_off := D_off b + n, D_lastRead := opReadRune\<rparr>)"
  using assms(1)
proof (cases rule: reading)
  case (more c t)
  with assms(3) show ?thesis by (auto simp: buffer_ReadRune_def Let_def)
qed (use assms(2) in simp)

lemma ReadByte_unfold:
  assumes "buffer_inv b" "Bytes b = c # t"
  shows "buffer_ReadByte b = ((byte c, None), b\<lparr>D_off := D_off b + 1, D_lastRead := opRead\<rparr>)"
  using assms(1)
proof (cases rule: reading)
  case more
  with assms(2) show ?thesis by (simp add: buffer_ReadByte_def)
qed (use assms(2) in simp)

lemma width_Len: "buffer_inv b \<Longrightarrow> decode_rune (Bytes b) = (r, n) \<Longrightarrow> Bytes b \<noteq> [] \<Longrightarrow> n \<le> Len b"
  using decode_rune_le [of "Bytes b"] length_Bytes [of b] by simp


text \<open>
  Giving back what a Buffer has read. UnreadByte after ReadByte, and UnreadRune after a ReadRune that
  read a well-formed rune, restore the unread bytes. But UnreadRune decodes backwards instead of
  remembering how much was read: when a ReadByte has taken the first byte of a two-byte rune, the ReadRune
  after it reads the second one as an invalid rune of one byte, and UnreadRune then gives back both bytes.
\<close>

lemma unread_rune_may_give_more:
  assumes "buffer_inv b" "Bytes b \<noteq> []" "buffer_inv d" "Bytes d = a # c # t" "194 \<le> byte a" "byte a \<le> 223" "cont c"
  shows "(case buffer_UnreadByte (snd (buffer_ReadByte b)) of (e, b') \<Rightarrow> e = None \<and> Bytes b' = Bytes b) \<and>
    (\<not> bad_rune (Bytes b) \<longrightarrow> (case buffer_UnreadRune (snd (buffer_ReadRune b)) of (e, b') \<Rightarrow> e = None \<and> Bytes b' = Bytes b)) \<and>
    (\<exists>d1 d2 d3. buffer_ReadByte d = ((byte a, None), d1) \<and> buffer_ReadRune d1 = ((RuneError, 1, None), d2) \<and>
       Bytes d2 = t \<and> buffer_UnreadRune d2 = (None, d3) \<and> Bytes d3 = a # c # t)"
proof (intro conjI impI)
  obtain x u where x: "Bytes b = x # u" using assms(2) by (cases "Bytes b") auto
  show "case buffer_UnreadByte (snd (buffer_ReadByte b)) of (e, b') \<Rightarrow> e = None \<and> Bytes b' = Bytes b"
    using Bytes_back [OF assms(1), of 0] by (simp add: ReadByte_unfold [OF assms(1) x] buffer_UnreadByte_def)
  obtain r n where rn: "decode_rune (Bytes b) = (r, n)" by (metis surj_pair)
  show "case buffer_UnreadRune (snd (buffer_ReadRune b)) of (e, b') \<Rightarrow> e = None \<and> Bytes b' = Bytes b" if "\<not> bad_rune (Bytes b)"
  proof -
    note n = width_Len [OF assms(1) rn assms(2)]
    have "decode_last_rune (take (D_off b + n) (D_mem b)) = (r, n)"
      unfolding read_part [OF n] by (rule decode_last_of_decoded [OF rn assms(2) that])
    then show ?thesis using Bytes_back [OF assms(1) n] ReadRune_unfold [OF assms(1,2) rn] decode_rune_width [OF rn [symmetric] assms(2)]
      by (simp add: buffer_UnreadRune_def Let_def)
  qed
  let ?d1 = "d\<lparr>D_off := D_off d + 1, D_lastRead := opRead\<rparr>" let ?d2 = "?d1\<lparr>D_off := D_off ?d1 + 1, D_lastRead := opReadRune\<rparr>"
  let ?d3 = "d\<lparr>D_off := D_off d + 2 - 2, D_lastRead := opInvalid\<rparr>"
  have l: "2 \<le> Len d" using length_Bytes [OF assms(3)] assms(4) by simp
  have 1: "buffer_inv ?d1" "Bytes ?d1 = c # t" using Bytes_forward [OF assms(3), of 1] l assms(4) by simp_all
  have 2: "Bytes ?d2 = t" using Bytes_forward [OF assms(3), of 2] l assms(4) by simp
  have "decode_rune (c # t) = (RuneError, 1)" using assms(7) by (simp add: decode_rune_def cont_def Let_def)
  then have r: "buffer_ReadRune ?d1 = ((RuneError, 1, None), ?d2)" using ReadRune_unfold [OF 1(1)] 1(2) by simp
  have "decode_rune (a # c # t) = ((byte a - 192) * 64 + (byte c - 128), 2)" "\<not> bad_rune (a # c # t)"
    using assms(5-7) by (simp_all add: decode_rune_def Let_def)
  from decode_last_of_decoded [OF this(1) _ this(2), of "take (D_off d) (D_mem d)"]
  have "snd (decode_last_rune (take (D_off d + 2) (D_mem d))) = 2" using read_part [OF l] assms(4) by simp
  then have u: "buffer_UnreadRune ?d2 = (None, ?d3)" by (simp add: buffer_UnreadRune_def Let_def)
  show "\<exists>d1 d2 d3. buffer_ReadByte d = ((byte a, None), d1) \<and> buffer_ReadRune d1 = ((RuneError, 1, None), d2) \<and>
       Bytes d2 = t \<and> buffer_UnreadRune d2 = (None, d3) \<and> Bytes d3 = a # c # t"
    by (intro exI conjI, rule ReadByte_unfold [OF assms(3,4)], rule r, rule 2, rule u)
      (simp only: Bytes_back [OF assms(3) l] assms(4))
qed

text \<open>
  UnreadByte does not notice that Grow has moved the unread bytes to the start of the memory: it gives
  nothing back and returns no error.
\<close>

lemma UnreadByte_after_Grow:
  "(case Grow 10 (snd (buffer_ReadByte (NewBuffer ''ab'' []))) of None \<Rightarrow> False
    | Some b \<Rightarrow> fst (buffer_UnreadByte b) = None \<and> Bytes (snd (buffer_UnreadByte b)) = ''b'')"
  by (simp add: Grow_def grow_def buffer_ReadByte_def buffer_UnreadByte_def NewBuffer_def Len_def Bytes_def Let_def makeSlice_def
    bootstrap_size_def overwrite_def)

end
