(* ===== verification/Sentinel.thy ===== *)
theory Sentinel
  imports RedisRuns HttpText
begin

text \<open>
  Failover through sentinels (sentinel.go of redis.v3): the address of the master is asked of the
  sentinels, the one that answers is kept, and for each sentinel that is kept a goroutine listens to its
  notices and closes the connections to an old master. A sentinel client is known by its number; what the
  network gives it depends on the number and its address. MasterAddr has the lock from start to end, so it
  is one step; the steps of a listener are the stretches between its calls that may wait.
\<close>

section \<open>Options\<close>

record FailoverOptions =
  OF_MasterName :: string
  OF_SentinelAddrs :: "string list"
  OF_Password :: string
  OF_DB :: int
  OF_DialTimeout :: int
  OF_ReadTimeout :: int
  OF_WriteTimeout :: int
  OF_PoolSize :: int
  OF_PoolTimeout :: int
  OF_IdleTimeout :: int

definition failover_options :: "FailoverOptions \<Rightarrow> Options" where
  "failover_options opt = \<lparr>O_Network = [], O_Addr = ''FailoverClient'', O_Password = OF_Password opt, O_DB = OF_DB opt, O_MaxRetries = 0,
     O_DialTimeout = OF_DialTimeout opt, O_ReadTimeout = OF_ReadTimeout opt, O_WriteTimeout = OF_WriteTimeout opt,
     O_PoolSize = OF_PoolSize opt, O_PoolTimeout = OF_PoolTimeout opt, O_IdleTimeout = OF_IdleTimeout opt\<rparr>"

text \<open>The options of a sentinel are those of the client without password and database.\<close>

definition sentinel_options :: "Options \<Rightarrow> string \<Rightarrow> Options" where
  "sentinel_options opt addr = \<lparr>O_Network = [], O_Addr = addr, O_Password = [], O_DB = 0, O_MaxRetries = 0,
     O_DialTimeout = O_DialTimeout opt, O_ReadTimeout = O_ReadTimeout opt, O_WriteTimeout = O_WriteTimeout opt,
     O_PoolSize = O_PoolSize opt, O_PoolTimeout = O_PoolTimeout opt, O_IdleTimeout = O_IdleTimeout opt\<rparr>"

section \<open>State\<close>

text \<open>
  Where a listener is: before it makes its subscription, before it sends it, before it takes the lock to
  drop the sentinel, and before it waits for a message; with the client and the connection it has.
\<close>

datatype listener =
    Starting
  | Subscribing nat "connPool single"
  | Failing
  | Receiving nat "connPool single"
  | Ended

record sentinelFailover =
  F_masterName :: string
  F_sentinelAddrs :: "string list"
  F_opt :: Options
  F_pool :: "connPool client_state"
  F_sentinel :: "nat option"
  F_clients :: "(string \<times> connPool client_state) list"
  F_listeners :: "listener list"
  F_nets :: "nat \<Rightarrow> string \<Rightarrow> net"
  F_remote :: "nat \<Rightarrow> string"      \<comment> \<open>the remote address of a connection\<close>

text \<open>The pool is made once; a size it cannot have is a panic.\<close>

definition NewFailoverClient :: "FailoverOptions \<Rightarrow> net \<Rightarrow> (nat \<Rightarrow> string \<Rightarrow> net) \<Rightarrow> (nat \<Rightarrow> string) \<Rightarrow> sentinelFailover option" where
  "NewFailoverClient fo m nets remote =
     map_option (\<lambda>p. \<lparr>F_masterName = OF_MasterName fo, F_sentinelAddrs = OF_SentinelAddrs fo, F_opt = failover_options fo,
       F_pool = (p, m), F_sentinel = None, F_clients = [], F_listeners = [], F_nets = nets, F_remote = remote\<rparr>)
       (newConnPool (failover_options fo) (M_now m))"

definition newSentinel :: "string \<Rightarrow> sentinelFailover \<Rightarrow> (nat \<times> sentinelFailover) option" where
  "newSentinel addr d =
     (let k = length (F_clients d); m = F_nets d k addr
      in map_option (\<lambda>p. (k, d\<lparr>F_clients := F_clients d @ [(addr, p, m)]\<rparr>)) (newConnPool (sentinel_options (F_opt d) addr) (M_now m)))"

definition on_sentinel :: "nat \<Rightarrow> (connPool client_state \<Rightarrow> ('a \<times> connPool client_state) option) \<Rightarrow> sentinelFailover \<Rightarrow>
    ('a \<times> sentinelFailover) option" where
  "on_sentinel i f d =
     (case F_clients d ! i of (addr, S) \<Rightarrow>
        map_option (\<lambda>(x, S). (x, d\<lparr>F_clients := (F_clients d)[i := (addr, S)]\<rparr>)) (f S))"

definition sentinel_cmd :: "'f floats \<Rightarrow> nat \<Rightarrow> sentinelFailover \<Rightarrow> ('f, connPool client_state, 'f cmd) commandable" where
  "sentinel_cmd fl i d = process_cmd fl (sentinel_options (F_opt d) (fst (F_clients d ! i)))"

definition GetMasterAddrByName :: "('f, 's, 'r) commandable \<Rightarrow> string \<Rightarrow> ('s, 'r) run" where
  "GetMasterAddrByName c name = Process c (NewStringSliceCmd [''SENTINEL'', ''get-master-addr-by-name'', name])"

definition Sentinels :: "('f, 's, 'r) commandable \<Rightarrow> string \<Rightarrow> ('s, 'r) run" where
  "Sentinels c name = Process c (NewSliceCmd [''SENTINEL'', ''sentinels'', name])"

definition close_sentinel :: "'f floats \<Rightarrow> nat \<Rightarrow> sentinelFailover \<Rightarrow> sentinelFailover option" where
  "close_sentinel fl i d = map_option snd (on_sentinel i (pool_close fl) d)"

text \<open>Without a sentinel this is a method of nil.\<close>

definition resetSentinel :: "'f floats \<Rightarrow> sentinelFailover \<Rightarrow> sentinelFailover option" where
  "resetSentinel fl d =
     (case F_sentinel d of
        None \<Rightarrow> None
      | Some i \<Rightarrow> map_option (\<lambda>d. d\<lparr>F_sentinel := None\<rparr>) (close_sentinel fl i d))"

section \<open>The address of the master\<close>

text \<open>\<open>addr[0]\<close> and \<open>addr[1]\<close> of an answer.\<close>

definition answered_addr :: "'f cmd \<Rightarrow> string option" where
  "answered_addr cmd = (case Q_val cmd of StringSliceVal (host # port # _) \<Rightarrow> Some (JoinHostPort host port) | _ \<Rightarrow> None)"

text \<open>The fields of one sentinel, names and values in turn; every assertion and index may panic.\<close>

fun discover_fields :: "gval list \<Rightarrow> string list \<Rightarrow> string list option" where
  "discover_fields [] addrs = Some addrs"
| "discover_fields (VStr key # vals) addrs =
     (if key = ''name'' then
        (case vals of
           VStr addr # vals \<Rightarrow> discover_fields vals (if addr \<in> set addrs then addrs else addrs @ [addr])
         | _ \<Rightarrow> None)
      else (case vals of [] \<Rightarrow> Some addrs | _ # vals \<Rightarrow> discover_fields vals addrs))"
| "discover_fields (_ # vals) addrs = None"

fun discover_all :: "gval list \<Rightarrow> string list \<Rightarrow> string list option" where
  "discover_all [] addrs = Some addrs"
| "discover_all (VSlice vals # sentinels) addrs = Option.bind (discover_fields vals addrs) (discover_all sentinels)"
| "discover_all (_ # sentinels) addrs = None"

definition discoverSentinels :: "'f floats \<Rightarrow> nat \<Rightarrow> sentinelFailover \<Rightarrow> sentinelFailover option" where
  "discoverSentinels fl i d = do {
     (cmd, d) \<leftarrow> on_sentinel i (Sentinels (sentinel_cmd fl i d) (F_masterName d)) d;
     (case (Q_err cmd, Q_val cmd) of
        (None, SliceVal sentinels) \<Rightarrow> map_option (\<lambda>addrs. d\<lparr>F_sentinelAddrs := addrs\<rparr>) (discover_all sentinels (F_sentinelAddrs d))
      | _ \<Rightarrow> Some d)
   }"

definition setSentinel :: "'f floats \<Rightarrow> nat \<Rightarrow> sentinelFailover \<Rightarrow> sentinelFailover option" where
  "setSentinel fl i d = do {
     d \<leftarrow> discoverSentinels fl i d;
     Some (d\<lparr>F_sentinel := Some i, F_listeners := F_listeners d @ [Starting]\<rparr>)
   }"

text \<open>\<open>s[0], s[i] = s[i], s[0]\<close>\<close>

definition to_top :: "nat \<Rightarrow> string list \<Rightarrow> string list" where
  "to_top i as = as[0 := as ! i, i := as ! 0]"

fun try_sentinels :: "'f floats \<Rightarrow> nat \<Rightarrow> string list \<Rightarrow> sentinelFailover \<Rightarrow> ((redis_error + string) \<times> sentinelFailover) option" where
  "try_sentinels fl n [] d = Some (Inl (ClientError ''redis: all sentinels are unreachable''), d)"
| "try_sentinels fl n (addr # addrs) d = do {
     (i, d) \<leftarrow> newSentinel addr d;
     (cmd, d) \<leftarrow> on_sentinel i (GetMasterAddrByName (sentinel_cmd fl i d) (F_masterName d)) d;
     (if Q_err cmd \<noteq> None then do {
        d \<leftarrow> close_sentinel fl i d;
        try_sentinels fl (n + 1) addrs d
      }
      else do {
        d \<leftarrow> setSentinel fl i (d\<lparr>F_sentinelAddrs := to_top n (F_sentinelAddrs d)\<rparr>);
        map_option (\<lambda>a. (Inr a, d)) (answered_addr cmd)
      })
   }"

definition MasterAddr :: "'f floats \<Rightarrow> sentinelFailover \<Rightarrow> ((redis_error + string) \<times> sentinelFailover) option" where
  "MasterAddr fl d =
     (case F_sentinel d of
        None \<Rightarrow> try_sentinels fl 0 (F_sentinelAddrs d) d
      | Some i \<Rightarrow> do {
          (cmd, d) \<leftarrow> on_sentinel i (GetMasterAddrByName (sentinel_cmd fl i d) (F_masterName d)) d;
          (if Q_err cmd \<noteq> None then do {
             d \<leftarrow> resetSentinel fl d;
             try_sentinels fl 0 (F_sentinelAddrs d) d
           }
           else map_option (\<lambda>a. (Inr a, d)) (answered_addr cmd))
        })"

text \<open>The dialer of the client's pool; the network of the pool says what comes of a dial.\<close>

definition failover_dial :: "'f floats \<Rightarrow> sentinelFailover \<Rightarrow> ((redis_error + nat) \<times> sentinelFailover) option" where
  "failover_dial fl d = do {
     (r, d) \<leftarrow> MasterAddr fl d;
     Some (case r of
         Inl e \<Rightarrow> (Inl e, d)
       | Inr addr \<Rightarrow>
           (case F_pool d of (p, m) \<Rightarrow>
              case net_dial m of
                (Inl e, m) \<Rightarrow> (Inl (ReadError e), d\<lparr>F_pool := (p, m)\<rparr>)
              | (Inr cn, m) \<Rightarrow> (Inr cn, d\<lparr>F_pool := (p, m), F_remote := (F_remote d)(cn := addr)\<rparr>)))
   }"

section \<open>The old master\<close>

text \<open>The good connections are put back when all have been looked at.\<close>

partial_function (option) close_loop :: "'f floats \<Rightarrow> (nat \<Rightarrow> string) \<Rightarrow> string \<Rightarrow> nat list \<Rightarrow> (connPool, nat list) pooled" where
  [code]: "close_loop fl remote newMaster cnsToPut S =
     Option.bind (First S) (\<lambda>(cn, S).
       case cn of
         None \<Rightarrow> Some (cnsToPut, S)
       | Some cn \<Rightarrow>
           if remote cn \<noteq> newMaster then Option.bind (pool_remove fl cn S) (\<lambda>(_, S). close_loop fl remote newMaster cnsToPut S)
           else close_loop fl remote newMaster (cnsToPut @ [cn]) S)"

fun put_all :: "'f floats \<Rightarrow> nat list \<Rightarrow> connPool client_state \<Rightarrow> connPool client_state option" where
  "put_all fl [] S = Some S"
| "put_all fl (cn # cns) S = Option.bind (Put_conn fl cn S) (\<lambda>(_, S). put_all fl cns S)"

definition closeOldConns :: "'f floats \<Rightarrow> (nat \<Rightarrow> string) \<Rightarrow> string \<Rightarrow> connPool client_state \<Rightarrow> connPool client_state option" where
  "closeOldConns fl remote newMaster S = Option.bind (close_loop fl remote newMaster [] S) (\<lambda>(cns, S). put_all fl cns S)"

section \<open>Listening\<close>

text \<open>An operation of a subscription on the pool of its client.\<close>

definition on_pubsub :: "nat \<Rightarrow> connPool single \<Rightarrow> (connPool pubsub \<Rightarrow> ('a \<times> connPool pubsub) option) \<Rightarrow> sentinelFailover \<Rightarrow>
    (('a \<times> connPool single) \<times> sentinelFailover) option" where
  "on_pubsub i p f d =
     on_sentinel i (\<lambda>(q, m). map_option (\<lambda>(x, p, m). ((x, p), SP_inner p, m)) (f (p\<lparr>SP_inner := q\<rparr>, m))) d"

text \<open>A notice with its payload; \<open>parts[3]\<close> and \<open>parts[4]\<close> may be out of range.\<close>

definition switch_master :: "'f floats \<Rightarrow> string \<Rightarrow> sentinelFailover \<Rightarrow> sentinelFailover option" where
  "switch_master fl payload d =
     (let parts = split_on (CHR '' '') payload
      in if parts ! 0 \<noteq> F_masterName d then Some d
         else if length parts < 5 then None
         else map_option (\<lambda>S. d\<lparr>F_pool := S\<rparr>)
           (closeOldConns fl (F_remote d) (JoinHostPort (parts ! 3) (parts ! 4)) (F_pool d)))"

definition set_listener :: "nat \<Rightarrow> listener \<Rightarrow> sentinelFailover \<Rightarrow> sentinelFailover" where
  "set_listener k l d = d\<lparr>F_listeners := (F_listeners d)[k := l]\<rparr>"

definition listen_step :: "'f floats \<Rightarrow> nat \<Rightarrow> sentinelFailover \<Rightarrow> sentinelFailover option" where
  "listen_step fl k d =
     (case F_listeners d ! k of
        Starting \<Rightarrow>
          (case F_sentinel d of
             None \<Rightarrow> None
           | Some i \<Rightarrow> Some (set_listener k (Subscribing i (newSingleConnPool (fst (snd (F_clients d ! i))) False)) d))
      | Subscribing i p \<Rightarrow>
          map_option (\<lambda>((e, p), d). set_listener k (if e \<noteq> None then Failing else Receiving i p) d)
            (on_pubsub i p (Subscribe (conn_pool fl) [''+switch-master'']) d)
      | Failing \<Rightarrow> map_option (set_listener k Ended) (resetSentinel fl d)
      | Receiving i p \<Rightarrow> do {
          ((r, p), d) \<leftarrow> on_pubsub i p (Receive (conn_pool fl)) d;
          (case r of
             Inl e \<Rightarrow> map_option (\<lambda>(_, d). set_listener k Ended d) (on_pubsub i p (single_Close (Some (conn_pool fl))) d)
           | Inr (Message channel payload) \<Rightarrow>
               map_option (set_listener k (Receiving i p)) (if channel = ''+switch-master'' then switch_master fl payload d else Some d)
           | Inr _ \<Rightarrow> Some (set_listener k (Receiving i p) d))
        }
      | Ended \<Rightarrow> Some d)"

section \<open>Asking for the master\<close>

definition known :: "nat \<Rightarrow> sentinelFailover \<Rightarrow> bool" where
  "known i d \<longleftrightarrow> i < length (F_clients d)"

text \<open>The parts of the state that only a kept sentinel changes.\<close>

definition same_view :: "sentinelFailover \<Rightarrow> sentinelFailover \<Rightarrow> bool" where
  "same_view d d' \<longleftrightarrow> F_sentinelAddrs d' = F_sentinelAddrs d \<and> F_listeners d' = F_listeners d \<and>
     length (F_clients d) \<le> length (F_clients d')"

lemma on_sentinel_view:
  "on_sentinel i f d = Some (x, d') \<Longrightarrow>
     same_view d d' \<and> F_sentinel d' = F_sentinel d \<and> length (F_clients d') = length (F_clients d) \<and>
     (\<forall>j < length (F_clients d). fst (F_clients d' ! j) = fst (F_clients d ! j))"
  by (auto simp: on_sentinel_def same_view_def nth_update_any split: prod.splits)

lemma close_sentinel_view: "close_sentinel fl i d = Some d' \<Longrightarrow> same_view d d' \<and> F_sentinel d' = F_sentinel d"
  using on_sentinel_view by (fastforce simp: close_sentinel_def)

lemma resetSentinel_view: "resetSentinel fl d = Some d' \<Longrightarrow> same_view d d' \<and> F_sentinel d' = None"
  using close_sentinel_view by (fastforce simp: resetSentinel_def same_view_def split: option.splits)

lemma newSentinel_view:
  "newSentinel addr d = Some (i, d') \<Longrightarrow>
     same_view d d' \<and> F_sentinel d' = F_sentinel d \<and> i = length (F_clients d) \<and> known i d' \<and> fst (F_clients d' ! i) = addr"
  by (auto simp: newSentinel_def same_view_def known_def Let_def nth_append)

lemma discover_fields_grow:
  "discover_fields vals addrs = Some addrs' \<Longrightarrow> distinct addrs \<Longrightarrow> distinct addrs' \<and> (\<exists>more. addrs' = addrs @ more)"
proof (induction vals addrs arbitrary: addrs' rule: discover_fields.induct)
  case (2 key vals addrs)
  then show ?case by (fastforce split: if_splits list.splits gval.splits)
qed simp_all

lemma discover_all_grow:
  "discover_all sentinels addrs = Some addrs' \<Longrightarrow> distinct addrs \<Longrightarrow> distinct addrs' \<and> (\<exists>more. addrs' = addrs @ more)"
proof (induction sentinels addrs arbitrary: addrs' rule: discover_all.induct)
  case (2 vals sentinels addrs)
  then obtain a1 where "discover_fields vals addrs = Some a1" "discover_all sentinels a1 = Some addrs'" by (auto split: bind_splits)
  with 2 discover_fields_grow [of vals addrs a1] show ?case by fastforce
qed simp_all

lemma setSentinel_view:
  assumes "setSentinel fl i d = Some d'" "distinct (F_sentinelAddrs d)"
  shows "F_sentinel d' = Some i \<and> F_listeners d' = F_listeners d @ [Starting] \<and> length (F_clients d') = length (F_clients d) \<and>
    (\<forall>j < length (F_clients d). fst (F_clients d' ! j) = fst (F_clients d ! j)) \<and>
    distinct (F_sentinelAddrs d') \<and> (\<exists>more. F_sentinelAddrs d' = F_sentinelAddrs d @ more)"
proof -
  obtain cmd d1 d2 where 1: "on_sentinel i (Sentinels (sentinel_cmd fl i d) (F_masterName d)) d = Some (cmd, d1)"
    "(case (Q_err cmd, Q_val cmd) of
        (None, SliceVal sentinels) \<Rightarrow> map_option (\<lambda>addrs. d1\<lparr>F_sentinelAddrs := addrs\<rparr>) (discover_all sentinels (F_sentinelAddrs d1))
      | _ \<Rightarrow> Some d1) = Some d2" "d' = d2\<lparr>F_sentinel := Some i, F_listeners := F_listeners d2 @ [Starting]\<rparr>"
    using assms(1) by (auto simp: setSentinel_def discoverSentinels_def split: bind_splits)
  note v = on_sentinel_view [OF 1(1)]
  have "F_listeners d2 = F_listeners d1 \<and> F_clients d2 = F_clients d1 \<and> distinct (F_sentinelAddrs d2) \<and> (\<exists>more. F_sentinelAddrs d2 = F_sentinelAddrs d1 @ more)"
    using 1(2) v assms(2) discover_all_grow by (fastforce simp: same_view_def split: option.splits cmd_val.splits)
  with v 1(3) show ?thesis by (auto simp: same_view_def)
qed

lemma to_top_facts:
  assumes "i < length as"
  shows "distinct as \<Longrightarrow> set (to_top i as) = set as" "distinct as \<Longrightarrow> distinct (to_top i as)" "hd (to_top i as) = as ! i" "to_top i as \<noteq> []"
proof -
  have "0 < length as" using assms by (cases as) simp_all
  then show "set (to_top i as) = set as" "distinct (to_top i as)" if "distinct as"
    using assms that set_swap [of 0 as i] distinct_swap [of 0 as i] unfolding to_top_def by blast+
  show ne: "to_top i as \<noteq> []" using assms by (auto simp: to_top_def)
  then show "hd (to_top i as) = as ! i" using assms by (cases i) (auto simp: hd_conv_nth to_top_def nth_list_update)
qed

definition new_keeper :: "sentinelFailover \<Rightarrow> sentinelFailover \<Rightarrow> bool" where
  "new_keeper d d' \<longleftrightarrow> (\<exists>i. F_sentinel d' = Some i \<and> length (F_clients d) \<le> i \<and> known i d' \<and>
     F_listeners d' = F_listeners d @ [Starting] \<and> distinct (F_sentinelAddrs d') \<and> set (F_sentinelAddrs d) \<subseteq> set (F_sentinelAddrs d') \<and>
     F_sentinelAddrs d' \<noteq> [] \<and> hd (F_sentinelAddrs d') = fst (F_clients d' ! i))"

definition unreachable :: redis_error where
  "unreachable = ClientError ''redis: all sentinels are unreachable''"

lemma try_sentinels_view:
  assumes "try_sentinels fl n addrs d = Some (r, d')" "distinct (F_sentinelAddrs d)" "drop n (F_sentinelAddrs d) = addrs" "F_sentinel d = None"
  shows "case r of Inl e \<Rightarrow> e = unreachable \<and> F_sentinel d' = None \<and> same_view d d' | Inr a \<Rightarrow> new_keeper d d'"
  using assms
proof (induction addrs arbitrary: n d)
  case Nil
  then show ?case by (auto simp: same_view_def unreachable_def)
next
  case (Cons addr addrs)
  obtain i d1 where 1: "newSentinel addr d = Some (i, d1)" using Cons.prems(1) by (auto split: bind_splits)
  obtain cmd d2 where 2: "on_sentinel i (GetMasterAddrByName (sentinel_cmd fl i d1) (F_masterName d1)) d1 = Some (cmd, d2)"
    using Cons.prems(1) 1 by (auto split: bind_splits)
  note v1 = newSentinel_view [OF 1] and v2 = on_sentinel_view [OF 2]
  have n: "n < length (F_sentinelAddrs d)" "F_sentinelAddrs d ! n = addr" "drop (n + 1) (F_sentinelAddrs d) = addrs"
  proof -
    show "n < length (F_sentinelAddrs d)" using Cons.prems(3) by (cases "n < length (F_sentinelAddrs d)") simp_all
    show "F_sentinelAddrs d ! n = addr" by (rule nth_via_drop [OF Cons.prems(3)])
    have "drop 1 (drop n (F_sentinelAddrs d)) = addrs" by (simp only: Cons.prems(3) drop_Suc drop_0 list.sel One_nat_def)
    then show "drop (n + 1) (F_sentinelAddrs d) = addrs" by (simp only: drop_drop add.commute)
  qed
  have s: "same_view d d2" "F_sentinel d2 = None" using v1 v2 Cons.prems(4) by (auto simp: same_view_def)
  show ?case
  proof (cases "Q_err cmd")
    case (Some e)
    then obtain d3 where 3: "close_sentinel fl i d2 = Some d3" "try_sentinels fl (n + 1) addrs d3 = Some (r, d')"
      using Cons.prems(1) 1 2 by (auto split: bind_splits)
    note v3 = close_sentinel_view [OF 3(1)]
    have s3: "same_view d d3" "F_sentinel d3 = None" using s v3 by (auto simp: same_view_def)
    from Cons.IH [OF 3(2)] s3 Cons.prems(2) n(3) show ?thesis
      by (auto simp: same_view_def new_keeper_def split: sum.splits)
  next
    case None
    let ?d = "d2\<lparr>F_sentinelAddrs := to_top n (F_sentinelAddrs d2)\<rparr>"
    obtain d3 a where 3: "setSentinel fl i ?d = Some d3" "r = Inr a" "d' = d3"
      using None Cons.prems(1) 1 2 by (auto split: bind_splits)
    have a: "F_sentinelAddrs d2 = F_sentinelAddrs d" using s by (simp add: same_view_def)
    note top = to_top_facts [OF n(1)]
    have "distinct (F_sentinelAddrs ?d)" using top(2) [OF Cons.prems(2)] a by simp
    from setSentinel_view [OF 3(1) this] obtain more where v3: "F_sentinel d3 = Some i" "F_listeners d3 = F_listeners d2 @ [Starting]"
      "length (F_clients d3) = length (F_clients d2)" "\<forall>j < length (F_clients d2). fst (F_clients d3 ! j) = fst (F_clients d2 ! j)"
      "distinct (F_sentinelAddrs d3)" "F_sentinelAddrs d3 = to_top n (F_sentinelAddrs d) @ more" by (auto simp: a)
    have "fst (F_clients d3 ! i) = addr" "known i d3" using v1 v2 v3(3,4) by (auto simp: known_def)
    then have "new_keeper d d3" using v1 v3 s(1) top(1) [OF Cons.prems(2)] top(3,4) n(2) by (auto simp: new_keeper_def same_view_def)
    with 3 show ?thesis by simp
  qed
qed

text \<open>
  MasterAddr, when it returns, has a sentinel if and only if it has an address. Without an answer the
  error says that all sentinels are unreachable, none is kept and no listener is started. With one, either
  the sentinel that was kept before has answered and nothing has changed: no listener is started, even
  when the listener of that sentinel has ended. Or another sentinel is kept, a new client, with one listener
  more; its address is the first of the known ones, which are still without duplicates, and none is lost.
\<close>

lemma master_address:
  assumes "MasterAddr fl d = Some (r, d')" "distinct (F_sentinelAddrs d)"
  shows "case r of
      Inl e \<Rightarrow> e = unreachable \<and> F_sentinel d' = None \<and> F_listeners d' = F_listeners d \<and> F_sentinelAddrs d' = F_sentinelAddrs d
    | Inr a \<Rightarrow> (F_sentinel d' \<noteq> None \<and> F_sentinel d' = F_sentinel d \<and> F_listeners d' = F_listeners d \<and> F_sentinelAddrs d' = F_sentinelAddrs d) \<or>
        new_keeper d d'"
proof (cases "F_sentinel d")
  case None
  with assms(1) have t: "try_sentinels fl 0 (F_sentinelAddrs d) d = Some (r, d')" by (simp add: MasterAddr_def)
  from try_sentinels_view [OF t assms(2) _ None] show ?thesis by (auto simp: same_view_def split: sum.splits)
next
  case (Some i)
  obtain cmd d1 where 1: "on_sentinel i (GetMasterAddrByName (sentinel_cmd fl i d) (F_masterName d)) d = Some (cmd, d1)"
    using assms(1) Some by (auto simp: MasterAddr_def split: bind_splits)
  note v1 = on_sentinel_view [OF 1]
  show ?thesis
  proof (cases "Q_err cmd")
    case None
    with assms(1) Some 1 obtain a where "r = Inr a" "d' = d1" by (auto simp: MasterAddr_def)
    with v1 Some show ?thesis by (simp add: same_view_def)
  next
    case e: (Some e)
    with assms(1) Some 1 obtain d2 where 2: "resetSentinel fl d1 = Some d2" "try_sentinels fl 0 (F_sentinelAddrs d2) d2 = Some (r, d')"
      by (auto simp: MasterAddr_def split: bind_splits)
    note v2 = resetSentinel_view [OF 2(1)]
    have s: "same_view d d2" using v1 v2 by (auto simp: same_view_def)
    then have "distinct (F_sentinelAddrs d2)" using assms(2) by (simp add: same_view_def)
    from try_sentinels_view [OF 2(2) this _ conjunct2 [OF v2]] s show ?thesis
      by (auto simp: same_view_def new_keeper_def split: sum.splits)
  qed
qed

section \<open>Closing the connections to the old master\<close>

lemma close_conn_simps [simp]:
  "M_dials (snd (close_conn a m)) = M_dials m" "M_next (snd (close_conn a m)) = M_next m"
  "N_closed (M_conns (snd (close_conn a m)) a)" "b \<noteq> a \<Longrightarrow> M_conns (snd (close_conn a m)) b = M_conns m b"
  by (auto simp: close_conn_def conn_Close_def split: prod.split)

lemma list_Remove_some:
  "a \<in> set (L_cns l) \<Longrightarrow> \<exists>e l'. list_Remove (Some a) l m = Some (e, l', snd (close_conn a m))"
  by (simp add: list_Remove_def case_prod_beta)

lemma list_Replace_some:
  "a \<in> set (L_cns l) \<Longrightarrow> \<exists>e l'. list_Replace a b l m = Some (e, l', snd (close_conn a m))"
  by (simp add: list_Replace_def case_prod_beta)

lemma First_from_total:
  "pool_inv H (p\<lparr>P_free := free\<rparr>, m) \<Longrightarrow> \<not> P_closed p \<Longrightarrow>
   \<exists>r p' m' gone. First_from free (p, m) = Some (r, p', m') \<and>
     (case r of None \<Rightarrow> free = gone \<and> P_free p' = [] | Some a \<Rightarrow> free = gone @ a # P_free p') \<and>
     (\<forall>a\<in>set gone. N_closed (M_conns m' a)) \<and> (\<forall>a. a \<notin> set gone \<longrightarrow> M_conns m' a = M_conns m a) \<and>
     M_dials m' = M_dials m \<and> M_next m' = M_next m \<and> P_opt p' = P_opt p"
proof (induction free arbitrary: p m)
  case (Cons cn free)
  have take: "cn \<notin> H" "pool_inv (insert cn H) (p\<lparr>P_free := free\<rparr>, m)"
    using pool_inv_take [OF Cons.prems(1), of cn free] by simp_all
  show ?case
  proof (cases "isIdle p (M_conns m cn) (M_now m)")
    case True
    have "cn \<in> set (L_cns (P_conns p))" using take(2) Cons.prems(2) by (auto simp: pool_inv_def)
    then obtain e l where l: "list_Remove (Some cn) (P_conns p) m = Some (e, l, snd (close_conn cn m))"
      using list_Remove_some by blast
    have "pool_inv H (p\<lparr>P_free := free\<rparr>\<lparr>P_conns := l\<rparr>, snd (close_conn cn m))"
      by (rule pool_inv_drop [OF take(2,1)]) (use l Cons.prems(2) in simp_all)
    moreover have "p\<lparr>P_free := free\<rparr>\<lparr>P_conns := l\<rparr> = p\<lparr>P_conns := l\<rparr>\<lparr>P_free := free\<rparr>" by simp
    ultimately have i: "pool_inv H (p\<lparr>P_conns := l\<rparr>\<lparr>P_free := free\<rparr>, snd (close_conn cn m))" by (simp only:)
    from Cons.IH [OF i] Cons.prems(2) obtain r p' m' gone where IH:
      "First_from free (p\<lparr>P_conns := l\<rparr>, snd (close_conn cn m)) = Some (r, p', m')"
      "case r of None \<Rightarrow> free = gone \<and> P_free p' = [] | Some a \<Rightarrow> free = gone @ a # P_free p'"
      "\<forall>a\<in>set gone. N_closed (M_conns m' a)" "\<forall>a. a \<notin> set gone \<longrightarrow> M_conns m' a = M_conns (snd (close_conn cn m)) a"
      "M_dials m' = M_dials m" "M_next m' = M_next m" "P_opt p' = P_opt p" by auto
    have "N_closed (M_conns m' cn)" using IH(3,4) by (cases "cn \<in> set gone") simp_all
    with IH True l show ?thesis
      by (intro exI [of _ r] exI [of _ p'] exI [of _ m'] exI [of _ "cn # gone"]) (auto split: option.splits)
  next
    case False
    then show ?thesis by (intro exI [of _ "Some cn"] exI [of _ "p\<lparr>P_free := free\<rparr>"] exI [of _ m] exI [of _ "[]"]) simp
  qed
qed (auto intro!: exI [of _ "[]"])

text \<open>Without a password and a database the login of a new connection does nothing.\<close>

definition no_login :: "connPool \<Rightarrow> bool" where
  "no_login p \<longleftrightarrow> O_Password (P_opt p) = [] \<and> O_DB (P_opt p) = 0"

lemma init_no_login: "O_Password opt = [] \<Longrightarrow> O_DB opt = 0 \<Longrightarrow> init_conn fl opt cn m = Some (None, m)"
  by (simp add: init_conn_def)

lemma new_total:
  assumes "no_login p"
  obtains r p' m' where "new fl (p, m) = Some (r, p', m')" "\<And>cn. r = Inr cn \<Longrightarrow> Buffered (N_rd (M_conns m' cn)) = 0"
proof (cases "Limit (M_now m) (P_rl p)")
  case (Pair limited rl)
  show thesis
  proof (cases limited)
    case True
    with Pair that show thesis by (simp add: new_def)
  next
    case False
    obtain r m' where d: "dial_conn fl (P_opt p) m = Some (r, m')" "\<And>cn. r = Inr cn \<Longrightarrow> Buffered (N_rd (M_conns m' cn)) = 0"
    proof (cases "snd (M_dials m 0)")
      case (Inl e)
      with that show thesis by (cases "M_dials m 0") (simp add: dial_conn_def net_dial_def Let_def)
    next
      case (Inr sw)
      obtain src ws where "sw = (src, ws)" by force
      with Inr assms that show thesis
        by (cases "M_dials m 0") (simp add: dial_conn_def net_dial_def Let_def init_no_login no_login_def set_conn_def fresh_conn_def
          NewReader_def NewReaderSize_def reset_reader_def Buffered_def)
    qed
    from d Pair False show thesis by (intro that) (auto simp: new_def Let_def)
  qed
qed

text \<open>Remove on an open pool: what new gives takes the place of the connection that is closed.\<close>

lemma pool_remove_total:
  assumes inv: "pool_inv (insert cn H) (p, m)" and cn: "cn \<notin> H" and "\<not> P_closed p" "no_login p"
  obtains r p1 m1 e l where "new fl (p, m) = Some (r, p1, m1)"
    "pool_remove fl cn (p, m) = Some (e, p1\<lparr>P_free := P_free p @ (case r of Inl _ \<Rightarrow> [] | Inr c \<Rightarrow> [c]), P_conns := l\<rparr>, snd (close_conn cn m1))"
    "same_pool p p1" "M_next m \<le> M_next m1" "\<forall>a. a < M_next m \<and> a \<noteq> cn \<longrightarrow> M_conns (snd (close_conn cn m1)) a = M_conns m a"
    "\<And>c. r = Inr c \<Longrightarrow> M_next m \<le> c \<and> Buffered (N_rd (M_conns (snd (close_conn cn m1)) c)) = 0"
proof -
  obtain r p1 m1 where new: "new fl (p, m) = Some (r, p1, m1)" "\<And>cn. r = Inr cn \<Longrightarrow> Buffered (N_rd (M_conns m1 cn)) = 0"
    by (rule new_total [OF assms(4), of fl m]) (rule that, assumption+)
  have law: "same_pool p p1" "M_next m \<le> M_next m1" "\<forall>a. a < M_next m \<longrightarrow> M_conns m1 a = M_conns m a"
    "\<forall>c. r = Inr c \<longrightarrow> M_next m \<le> c \<and> c < M_next m1" using new_law [OF inv new(1)] by blast+
  have mem: "cn \<in> set (L_cns (P_conns p1))" "cn < M_next m" using inv law(1) assms(3) by (auto simp: pool_inv_def same_pool_def)
  have free: "P_free p1 = P_free p" using law(1) by (simp add: same_pool_def)
  have same: "\<forall>a. a < M_next m \<and> a \<noteq> cn \<longrightarrow> M_conns (snd (close_conn cn m1)) a = M_conns m a" using law(3) by simp
  show thesis
  proof (cases r)
    case (Inl e1)
    obtain e l where l: "list_Remove (Some cn) (P_conns p1) m1 = Some (e, l, snd (close_conn cn m1))"
      using mem(1) list_Remove_some by blast
    have "p1\<lparr>P_conns := l\<rparr> = p1\<lparr>P_free := P_free p @ [], P_conns := l\<rparr>" using free by (intro connPool.equality) simp_all
    with new Inl assms(3) l have "pool_remove fl cn (p, m) = Some (e, p1\<lparr>P_free := P_free p @ [], P_conns := l\<rparr>, snd (close_conn cn m1))"
      by (simp add: pool_remove_def)
    with new(1) law(1,2) same Inl show thesis by (intro that [of r p1 m1 e l]) simp_all
  next
    case (Inr c)
    have "card (insert cn H) = Suc (card H)" using inv cn by (simp add: pool_inv_def)
    then have "int (length (P_free p1)) < getPoolSize (P_opt p1)" using inv law(1) by (auto simp: pool_inv_def same_pool_def)
    then have s: "send_free c p1 = Some (p1\<lparr>P_free := P_free p @ [c]\<rparr>)" using free by (simp add: send_free_def)
    obtain e l where l: "list_Replace cn c (P_conns p1) m1 = Some (e, l, snd (close_conn cn m1))"
      using mem(1) list_Replace_some by blast
    have "c \<noteq> cn" using law(4) Inr mem(2) by auto
    from s l new Inr assms(3)
    have "pool_remove fl cn (p, m) = Some (e, p1\<lparr>P_free := P_free p @ [c], P_conns := l\<rparr>, snd (close_conn cn m1))" by (simp add: pool_remove_def)
    with new law(1,2,4) same Inr \<open>c \<noteq> cn\<close> show thesis by (intro that [of r p1 m1 e l]) simp_all
  qed
qed

text \<open>What holds of a pool from which the connections \<open>keep\<close> were taken.\<close>

definition sorted_out :: "(nat \<Rightarrow> string) \<Rightarrow> string \<Rightarrow> nat set \<Rightarrow> nat list \<Rightarrow> connPool client_state \<Rightarrow> bool" where
  "sorted_out remote newMaster H keep S \<longleftrightarrow>
     pool_inv (H \<union> set keep) S \<and> \<not> P_closed (fst S) \<and> no_login (fst S) \<and> distinct keep \<and> set keep \<inter> H = {} \<and>
     (\<forall>a \<in> set keep. remote a = newMaster) \<and>
     (\<forall>a \<in> set keep \<union> set (P_free (fst S)). Buffered (N_rd (M_conns (snd S) a)) = 0)"

text \<open>What has changed: connections in hand are left alone, what is closed stays so.\<close>

definition only_closed :: "nat set \<Rightarrow> nat list \<Rightarrow> net \<Rightarrow> net \<Rightarrow> bool" where
  "only_closed H keep m m' \<longleftrightarrow> (\<forall>a\<in>H \<union> set keep. M_conns m' a = M_conns m a) \<and>
     (\<forall>a. a < M_next m \<and> N_closed (M_conns m a) \<longrightarrow> N_closed (M_conns m' a)) \<and> M_next m \<le> M_next m'"

lemma First_sorted:
  assumes "sorted_out remote newMaster H keep (p, m)"
  obtains (none) p' m' where "First (p, m) = Some (None, p', m')" "sorted_out remote newMaster H keep (p', m')" "only_closed H keep m m'"
      "P_free p' = []" "\<forall>a\<in>set (P_free p). N_closed (M_conns m' a)"
  | (some) cn p' m' where "First (p, m) = Some (Some cn, p', m')" "cn \<notin> H \<union> set keep" "pool_inv (insert cn (H \<union> set keep)) (p', m')"
      "\<not> P_closed p'" "no_login p'" "only_closed H keep m m'" "cn \<in> set (P_free p)"
      "\<forall>a\<in>set (P_free p). a = cn \<or> a \<in> set (P_free p') \<or> N_closed (M_conns m' a)"
      "\<forall>a\<in>set keep \<union> insert cn (set (P_free p')). Buffered (N_rd (M_conns m' a)) = 0"
      "\<exists>gone. P_free p = gone @ cn # P_free p'"
proof -
  have inv: "pool_inv (H \<union> set keep) (p, m)" "\<not> P_closed p" "no_login p"
    and quiet: "\<forall>a \<in> set keep \<union> set (P_free p). Buffered (N_rd (M_conns m a)) = 0"
    using assms by (auto simp: sorted_out_def)
  obtain r p' m' gone where f: "First (p, m) = Some (r, p', m')"
    "case r of None \<Rightarrow> P_free p = gone \<and> P_free p' = [] | Some a \<Rightarrow> P_free p = gone @ a # P_free p'"
    "\<forall>a\<in>set gone. N_closed (M_conns m' a)" "\<forall>a. a \<notin> set gone \<longrightarrow> M_conns m' a = M_conns m a"
    "M_dials m' = M_dials m" "M_next m' = M_next m" "P_opt p' = P_opt p"
    using First_from_total [where H = "H \<union> set keep" and p = p and free = "P_free p" and m = m] inv by (auto simp: First_def)
  have law: "got (H \<union> set keep) r (p', m')" "\<not> P_closed p'" using First_law [OF inv(1,2) f(1)] by simp_all
  have gone: "set gone \<subseteq> set (P_free p)" using f(2) by (auto split: option.splits)
  have free: "distinct (P_free p)" "set (P_free p) \<inter> (H \<union> set keep) = {}" using inv(1) by (auto simp: pool_inv_def)
  have c: "only_closed H keep m m'"
    unfolding only_closed_def using gone free(2) f(3,4,6) by (metis Un_iff disjoint_iff order_refl subsetD)
  have n: "no_login p'" using inv(3) f(7) by (simp add: no_login_def)
  show thesis
  proof (cases r)
    case None
    have "\<forall>a \<in> set keep. Buffered (N_rd (M_conns m' a)) = 0" using quiet gone free(2) f(4) by (metis UnCI disjoint_iff subsetD)
    with none [OF _ _ c] f law n None assms show thesis by (simp add: sorted_out_def got_def)
  next
    case (Some cn)
    have d: "distinct (gone @ cn # P_free p')" using f(2) Some free(1) by simp
    have "\<forall>a \<in> set keep \<union> insert cn (set (P_free p')). a \<notin> set gone"
      using d gone free(2) by auto
    then have "\<forall>a\<in>set keep \<union> insert cn (set (P_free p')). Buffered (N_rd (M_conns m' a)) = 0"
      using quiet f(2,4) Some by auto
    with some [OF _ _ _ law(2) n c] f law Some show thesis by (simp add: got_def) blast
  qed
qed

lemma only_closed_refl: "only_closed H keep m m"
  by (simp add: only_closed_def)

lemma only_closed_trans:
  "only_closed H keep m m1 \<Longrightarrow> only_closed H keep1 m1 m' \<Longrightarrow> set keep \<subseteq> set keep1 \<Longrightarrow> only_closed H keep m m'"
  by (auto simp: only_closed_def)

text \<open>
  When the connections that are dialled from now on go to the new master the loop ends: each turn takes a connection out of the
  free ones, and puts one back only in exchange for one to the old master.
\<close>

definition turns :: "(nat \<Rightarrow> string) \<Rightarrow> string \<Rightarrow> nat list \<Rightarrow> nat" where
  "turns remote newMaster cns = length cns + length (List.filter (\<lambda>a. remote a \<noteq> newMaster) cns)"

lemma close_turn:
  assumes sorted: "sorted_out remote newMaster H keep (p, m)" and goes: "\<forall>a\<ge>M_next m. remote a = newMaster"
    and first: "First (p, m) = Some (Some cn, p1, m1)" "cn \<notin> H \<union> set keep" "pool_inv (insert cn (H \<union> set keep)) (p1, m1)"
      "\<not> P_closed p1" "no_login p1" "only_closed H keep m m1" "\<forall>a\<in>set keep \<union> insert cn (set (P_free p1)). Buffered (N_rd (M_conns m1 a)) = 0"
      "\<exists>gone. P_free p = gone @ cn # P_free p1"
  obtains keep1 p2 m2 where "close_loop fl remote newMaster keep (p, m) = close_loop fl remote newMaster keep1 (p2, m2)"
    "sorted_out remote newMaster H keep1 (p2, m2)" "turns remote newMaster (P_free p2) < turns remote newMaster (P_free p)"
    "only_closed H keep m1 m2" "set keep \<subseteq> set keep1" "set (P_free p1) \<subseteq> set (P_free p2)" "cn \<in> set keep1 \<or> N_closed (M_conns m2 cn)"
proof (cases "remote cn = newMaster")
  case True
  have "sorted_out remote newMaster H (keep @ [cn]) (p1, m1)" using sorted first True by (auto simp: sorted_out_def)
  moreover have "close_loop fl remote newMaster keep (p, m) = close_loop fl remote newMaster (keep @ [cn]) (p1, m1)"
    using first(1) True by (subst close_loop.simps) simp
  moreover have "turns remote newMaster (P_free p1) < turns remote newMaster (P_free p)" using first(8) by (auto simp: turns_def)
  ultimately show thesis by (intro that [of "keep @ [cn]" p1 m1]) (auto simp: only_closed_refl)
next
  case False
  obtain r p2 m2 e l where "new fl (p1, m1) = Some (r, p2, m2)" and rm: "pool_remove fl cn (p1, m1) =
      Some (e, p2\<lparr>P_free := P_free p1 @ (case r of Inl _ \<Rightarrow> [] | Inr c \<Rightarrow> [c]), P_conns := l\<rparr>, snd (close_conn cn m2))"
    "same_pool p1 p2" "M_next m1 \<le> M_next m2" "\<forall>a. a < M_next m1 \<and> a \<noteq> cn \<longrightarrow> M_conns (snd (close_conn cn m2)) a = M_conns m1 a"
    "\<And>c. r = Inr c \<Longrightarrow> M_next m1 \<le> c \<and> Buffered (N_rd (M_conns (snd (close_conn cn m2)) c)) = 0"
    by (rule pool_remove_total [OF first(3,2,4,5), of fl]) (rule that, assumption+)
  let ?p = "p2\<lparr>P_free := P_free p1 @ (case r of Inl _ \<Rightarrow> [] | Inr c \<Rightarrow> [c]), P_conns := l\<rparr>" and ?m = "snd (close_conn cn m2)"
  have inv2: "pool_inv (H \<union> set keep) (?p, ?m)" by (rule pool_remove_law [OF first(3,2) rm(1)])
  have cn: "cn \<notin> set (P_free p1)" "\<forall>a \<in> H \<union> set keep \<union> set (P_free p1). a < M_next m1" using first(3) by (auto simp: pool_inv_def)
  have same: "M_conns ?m a = M_conns m1 a" if "a \<in> H \<union> set keep \<union> set (P_free p1)" for a
    using that cn first(2) rm(4) by blast
  have "\<forall>a \<in> set keep \<union> set (P_free ?p). Buffered (N_rd (M_conns ?m a)) = 0"
    using first(7) same rm(5) by (auto split: sum.splits)
  then have sorted1: "sorted_out remote newMaster H keep (?p, ?m)"
    using sorted inv2 rm(2) first(4,5) by (simp add: sorted_out_def no_login_def same_pool_def)
  have kept: "only_closed H keep m1 ?m"
    unfolding only_closed_def using same rm(3,4) by (metis UnI1 close_conn_simps(2,3))
  have loop: "close_loop fl remote newMaster keep (p, m) = close_loop fl remote newMaster keep (?p, ?m)"
    using first(1) False rm(1) by (subst close_loop.simps) simp
  have "M_next m \<le> M_next m1" using first(6) by (simp add: only_closed_def)
  then have "remote c = newMaster" if "r = Inr c" for c using rm(5) [OF that] goes by simp
  then have "turns remote newMaster (P_free ?p) < turns remote newMaster (P_free p)"
    using first(8) False by (auto simp: turns_def split: sum.splits)
  with loop sorted1 kept show thesis by (intro that [of keep ?p ?m]) simp_all
qed

lemma close_loop_ends:
  assumes "sorted_out remote newMaster H keep (p, m)" "\<forall>a\<ge>M_next m. remote a = newMaster"
  shows "\<exists>keep' p' m'. close_loop fl remote newMaster keep (p, m) = Some (keep', p', m') \<and>
    sorted_out remote newMaster H keep' (p', m') \<and> P_free p' = [] \<and> only_closed H keep m m' \<and> set keep \<subseteq> set keep' \<and>
    (\<forall>a\<in>set (P_free p). a \<in> set keep' \<or> N_closed (M_conns m' a))"
  using assms
proof (induction "turns remote newMaster (P_free p)" arbitrary: keep p m rule: less_induct)
  case less
  have below: "\<forall>a\<in>set (P_free p). a < M_next m" using less.prems(1) by (auto simp: sorted_out_def pool_inv_def)
  from less.prems(1) show ?case
  proof (cases rule: First_sorted)
    case (none p' m')
    then have "close_loop fl remote newMaster keep (p, m) = Some (keep, p', m')" by (subst close_loop.simps) simp
    with none show ?thesis by auto
  next
    case (some cn p1 m1)
    have older: "M_next m \<le> M_next m1" using some(6) by (simp add: only_closed_def)
    obtain keep1 p2 m2 where step: "close_loop fl remote newMaster keep (p, m) = close_loop fl remote newMaster keep1 (p2, m2)"
      "sorted_out remote newMaster H keep1 (p2, m2)" "turns remote newMaster (P_free p2) < turns remote newMaster (P_free p)"
      "only_closed H keep m1 m2" "set keep \<subseteq> set keep1" "set (P_free p1) \<subseteq> set (P_free p2)" "cn \<in> set keep1 \<or> N_closed (M_conns m2 cn)"
      by (rule close_turn [OF less.prems some(1-6,9,10)]) (rule that, assumption+)
    have newer: "M_next m \<le> M_next m2" using older step(4) by (simp add: only_closed_def)
    then have "\<forall>a\<ge>M_next m2. remote a = newMaster" using less.prems(2) by simp
    from less.hyps [OF step(3,2) this] obtain keep' p' m' where IH: "close_loop fl remote newMaster keep1 (p2, m2) = Some (keep', p', m')"
      "sorted_out remote newMaster H keep' (p', m')" "P_free p' = []" "only_closed H keep1 m2 m'" "set keep1 \<subseteq> set keep'"
      "\<forall>a\<in>set (P_free p2). a \<in> set keep' \<or> N_closed (M_conns m' a)" by blast
    have later: "N_closed (M_conns m' a)" if "a < M_next m" "N_closed (M_conns m1 a)" for a
      using that older step(4) IH(4) by (auto simp: only_closed_def)
    have "a \<in> set keep' \<or> N_closed (M_conns m' a)" if a: "a \<in> set (P_free p)" for a
    proof -
      consider "a = cn" | "a \<in> set (P_free p1)" | "N_closed (M_conns m1 a)" using some(8) a by blast
      then show ?thesis
      proof cases
        case 1
        with newer below a step(7) IH(4,5) show ?thesis by (auto simp: only_closed_def)
      qed (use IH(6) step(6) later below a in blast)+
    qed
    moreover have "only_closed H keep m m'"
      by (rule only_closed_trans [OF only_closed_trans [OF some(6) step(4)] IH(4) step(5)]) simp
    ultimately show ?thesis using step(1,5) IH by auto
  qed
qed

lemma put_all_keeps:
  assumes "sorted_out remote newMaster H keep (p, m)"
  shows "\<exists>p' m'. put_all fl keep (p, m) = Some (p', m') \<and> pool_inv H (p', m') \<and> \<not> P_closed p' \<and> P_free p' = P_free p @ keep \<and>
    (\<forall>a. N_closed (M_conns m' a) = N_closed (M_conns m a)) \<and> (\<forall>a. a \<notin> set keep \<longrightarrow> M_conns m' a = M_conns m a)"
  using assms
proof (induction keep arbitrary: p m)
  case Nil
  then show ?case by (simp add: sorted_out_def)
next
  case (Cons cn keep)
  have i: "pool_inv (insert cn (H \<union> set keep)) (p, m)" "cn \<notin> H \<union> set keep" "\<not> P_closed p" "no_login p" "Buffered (N_rd (M_conns m cn)) = 0"
    using Cons.prems by (auto simp: sorted_out_def)
  define m1 where "m1 = (if getIdleTimeout (P_opt p) > 0 then set_conn cn ((M_conns m cn)\<lparr>N_usedAt := Some (M_now m)\<rparr>) m else m)"
  have m1: "N_closed (M_conns m1 a) = N_closed (M_conns m a)" "N_rd (M_conns m1 a) = N_rd (M_conns m a)" "a \<noteq> cn \<Longrightarrow> M_conns m1 a = M_conns m a" for a
    by (auto simp: m1_def set_conn_def)
  have "pool_inv (insert cn (H \<union> set keep)) (p, m1)"
    using i(1) pool_inv_use [OF i(1), of "(M_conns m cn)\<lparr>N_usedAt := Some (M_now m)\<rparr>" cn] by (simp add: m1_def)
  then obtain p1 where p1: "send_free cn p = Some p1" "pool_inv (H \<union> set keep) (p1, m1)" using pool_inv_give i(2) by blast
  then have e: "p1 = p\<lparr>P_free := P_free p @ [cn]\<rparr>" by (simp add: send_free_def split: if_splits)
  have put: "Put_conn fl cn (p, m) = Some (None, p1, m1)" using i(5) p1(1) by (simp add: Put_conn_def m1_def)
  have "sorted_out remote newMaster H keep (p1, m1)"
    using Cons.prems p1(2) i(3,4) m1(2) by (auto simp: sorted_out_def e no_login_def)
  from Cons.IH [OF this] put show ?case by (auto simp: e m1)
qed

text \<open>
  C35. When a sentinel says that the master has moved, closeOldConns does its work, if the connections that are dialled from then on
  go to the new master. On an open pool whose accounts are in order, which asks for no login and which nobody else uses meanwhile, it then ends,
  whichever dials fail, and leaves the accounts in order: every connection that is free afterwards goes to the new master; of those that
  were free before, the ones to another address are closed, and the ones to the new master are free again (or closed because they
  were idle for too long); connections in the hands of clients are left alone. (The two conditions are needed: when the dials still
  reach the old master the loop goes on, see below, and a connection that is cut while it logs in panics, cut_login_panics.)
\<close>

theorem old_master_dropped:
  assumes "pool_inv H (p, m)" "\<not> P_closed p" "no_login p" "\<forall>a\<in>set (P_free p). Buffered (N_rd (M_conns m a)) = 0"
    and "\<forall>a\<ge>M_next m. remote a = newMaster"
  shows "\<exists>p' m'. closeOldConns fl remote newMaster (p, m) = Some (p', m') \<and> pool_inv H (p', m') \<and>
    (\<forall>a\<in>set (P_free p'). remote a = newMaster) \<and>
    (\<forall>a\<in>set (P_free p). if remote a = newMaster then a \<in> set (P_free p') \<or> N_closed (M_conns m' a) else N_closed (M_conns m' a)) \<and>
    (\<forall>a\<in>H. M_conns m' a = M_conns m a)"
proof -
  have "sorted_out remote newMaster H [] (p, m)" using assms by (simp add: sorted_out_def)
  from close_loop_ends [OF this assms(5), of fl] obtain keep p1 m1 where 1: "close_loop fl remote newMaster [] (p, m) = Some (keep, p1, m1)"
    "sorted_out remote newMaster H keep (p1, m1)" "P_free p1 = []" "only_closed H [] m m1"
    "\<forall>a\<in>set (P_free p). a \<in> set keep \<or> N_closed (M_conns m1 a)" by auto
  from put_all_keeps [OF 1(2), of fl] obtain p' m' where 2: "put_all fl keep (p1, m1) = Some (p', m')" "pool_inv H (p', m')" "P_free p' = P_free p1 @ keep"
    "\<forall>a. N_closed (M_conns m' a) = N_closed (M_conns m1 a)" "\<forall>a. a \<notin> set keep \<longrightarrow> M_conns m' a = M_conns m1 a" by blast
  have "closeOldConns fl remote newMaster (p, m) = Some (p', m')" using 1(1) 2(1) by (simp add: closeOldConns_def)
  moreover have "\<forall>a\<in>set keep. remote a = newMaster" "set keep \<inter> H = {}" using 1(2) by (simp_all add: sorted_out_def)
  ultimately show ?thesis using 1(3-5) 2(2-5) by (auto simp: only_closed_def)
qed

text \<open>One free connection to the old master, and dials that work for ever, each a second apart.\<close>

definition working_dials :: "nat \<Rightarrow> nat \<times> (io_error + source \<times> write_script)" where
  "working_dials = (\<lambda>_. (1000000000, Inr ([], [])))"

definition one_old :: "connPool client_state" where
  "one_old = (fst (one_conn [] []), (snd (one_conn [] []))\<lparr>M_dials := working_dials\<rparr>)"

lemma one_old_facts:
  obtains p m where "one_old = (p, m)" "pool_inv {} (p, m)" "\<not> P_closed p" "no_login p" "P_free p = [0]" "M_next m = 1"
    "M_conns m = (\<lambda>_. fresh_conn [] [])" "M_dials m = working_dials" "getIdleTimeout (P_opt p) \<le> 0" "P_rl p = New_limiter 0 20 1000000000" "M_now m = 0"
proof -
  have "pool_inv {} (one_conn [] [])" by (rule one_conn_facts)
  then have "pool_inv {} one_old" by (simp add: one_old_def one_conn_def pool_inv_def)
  then show thesis
    by (intro that [of "fst one_old" "snd one_old"])
      (simp_all add: one_old_def one_conn_def no_login_def default_options_def getIdleTimeout_def)
qed

lemma fresh_quiet: "Buffered (N_rd (fresh_conn [] [])) = 0"
  by (simp add: fresh_conn_def NewReader_def NewReaderSize_def reset_reader_def Buffered_def)

theorem old_master_dropped_witness:
  "\<exists>p' m'. closeOldConns no_floats (\<lambda>a. if a = 0 then ''old:1'' else ''new:1'') ''new:1'' one_old = Some (p', m') \<and>
    (\<forall>a\<in>set (P_free p'). a \<noteq> 0) \<and> N_closed (M_conns m' 0)"
proof -
  obtain p m where S: "one_old = (p, m)" "pool_inv {} (p, m)" "\<not> P_closed p" "no_login p" "P_free p = [0]" "M_next m = 1"
    "M_conns m = (\<lambda>_. fresh_conn [] [])" by (rule one_old_facts)
  show ?thesis
    using old_master_dropped [of "{}" p m "\<lambda>a. if a = 0 then ''old:1'' else ''new:1''" "''new:1''" no_floats] S fresh_quiet
    by (auto split: if_splits)
qed

text \<open>A pool whose limiter lets the next dial pass, whenever the dials take as long as a unit.\<close>

definition ready :: "RateLimiter \<Rightarrow> int \<Rightarrow> bool" where
  "ready rl now \<longleftrightarrow> full_at_most rl \<and> (\<exists>t. 0 \<le> now - t \<and> int (unat (RL_max rl)) + (now - t) < 2 ^ 64 \<and> RL_lastCheck rl = word_of_int t \<and>
     int (unat (RL_unit rl)) \<le> int (unat (RL_allowance rl)) + (now - t)) \<and> RL_unit rl \<le> RL_max rl"

lemma ready_passes:
  assumes "ready rl now" "int (unat (RL_unit rl)) \<le> int d" "int (unat (RL_max rl)) + int d < 2 ^ 64"
  obtains rl' where "Limit now rl = (False, rl')" "ready rl' (now + int d)" "RL_unit rl' = RL_unit rl" "RL_max rl' = RL_max rl"
proof -
  obtain t where t: "full_at_most rl" "0 \<le> now - t" "int (unat (RL_max rl)) + (now - t) < 2 ^ 64" "RL_lastCheck rl = word_of_int t"
    "int (unat (RL_unit rl)) \<le> int (unat (RL_allowance rl)) + (now - t)" "RL_unit rl \<le> RL_max rl" using assms(1) by (auto simp: ready_def)
  obtain l rl' where lim: "Limit now rl = (l, rl')" by force
  have small: "now - t < 2 ^ 64" using t(3) by linarith
  have "(word_of_int now - RL_lastCheck rl) = (word_of_int (now - t) :: uint64)" using t(4) by simp
  then have p: "nat (now - t) = unat (word_of_int now - RL_lastCheck rl)"
    using t(2) small by (simp add: unsigned_of_int take_bit_int_eq_self del: of_int_diff)
  have "int (unat (RL_max rl) + nat (now - t)) < 2 ^ 64" using t(2,3) by simp
  then have "unat (RL_max rl) + nat (now - t) < 2 ^ 64" by (simp only: of_nat_less_numeral_power_cancel_iff)
  note step = Limit_bucket [OF t(1) p this lim]
  have "unat (RL_unit rl) \<le> unat (RL_max rl)" using t(6) by (simp add: word_le_nat_alt)
  moreover have "unat (RL_unit rl) \<le> unat (RL_allowance rl) + nat (now - t)" using t(2,5) by linarith
  ultimately have "\<not> l" using step by (auto simp: bucket_def Let_def split: if_splits)
  moreover have "int (unat (RL_unit rl)) \<le> int (unat (RL_allowance rl')) + int d" using assms(2) by linarith
  then have "ready rl' (now + int d)"
    using step assms(3) t(6) unfolding ready_def by (intro conjI exI [of _ now]) simp_all
  ultimately show thesis using that [of rl'] lim step by simp
qed

definition stale :: "(nat \<Rightarrow> string) \<Rightarrow> string \<Rightarrow> connPool client_state \<Rightarrow> bool" where
  "stale remote newMaster S \<longleftrightarrow>
     (case S of (p, m) \<Rightarrow> pool_inv {} (p, m) \<and> \<not> P_closed p \<and> no_login p \<and> getIdleTimeout (P_opt p) \<le> 0 \<and> P_free p \<noteq> [] \<and>
        ready (P_rl p) (M_now m) \<and> (\<forall>a. remote a \<noteq> newMaster) \<and>
        (\<forall>k. \<exists>d src ws. M_dials m k = (d, Inr (src, ws)) \<and> int (unat (RL_unit (P_rl p))) \<le> int d \<and> int (unat (RL_max (P_rl p))) + int d < 2 ^ 64))"

lemma stale_turn:
  assumes "stale remote newMaster S"
  obtains cn S1 e S2 where "First S = Some (Some cn, S1)" "remote cn \<noteq> newMaster" "pool_remove fl cn S1 = Some (e, S2)" "stale remote newMaster S2"
proof -
  obtain p m where S: "S = (p, m)" by force
  have inv: "pool_inv {} (p, m)" "\<not> P_closed p" "no_login p" "getIdleTimeout (P_opt p) \<le> 0" "ready (P_rl p) (M_now m)" "\<forall>a. remote a \<noteq> newMaster"
    using assms by (auto simp: S stale_def)
  obtain cn free where free: "P_free p = cn # free" using assms by (auto simp: S stale_def neq_Nil_conv)
  have first: "First S = Some (Some cn, p\<lparr>P_free := free\<rparr>, m)" using inv(4) by (simp add: S First_def free isIdle_def)
  note take = pool_inv_take [OF inv(1) free]
  obtain d src ws where dial: "M_dials m 0 = (d, Inr (src, ws))" "int (unat (RL_unit (P_rl p))) \<le> int d" "int (unat (RL_max (P_rl p))) + int d < 2 ^ 64"
    using assms unfolding S stale_def prod.case by blast
  obtain rl where rl: "Limit (M_now m) (P_rl p) = (False, rl)" "ready rl (M_now m + int d)" "RL_unit rl = RL_unit (P_rl p)" "RL_max rl = RL_max (P_rl p)"
    by (rule ready_passes [OF inv(5) dial(2,3)])
  let ?p = "p\<lparr>P_free := free\<rparr>"
  have pre: "pool_inv (insert cn {}) (?p, m)" "cn \<notin> {}" "\<not> P_closed ?p" "no_login ?p" using take inv(2,3) by (simp_all add: no_login_def)
  obtain r p1 m1 e l where rm: "new fl (?p, m) = Some (r, p1, m1)" "pool_remove fl cn (?p, m) =
      Some (e, p1\<lparr>P_free := P_free ?p @ (case r of Inl _ \<Rightarrow> [] | Inr c \<Rightarrow> [c]), P_conns := l\<rparr>, snd (close_conn cn m1))" "same_pool ?p p1"
    by (rule pool_remove_total [OF pre, of fl]) (rule that, assumption+)
  let ?p2 = "p1\<lparr>P_free := P_free ?p @ (case r of Inl _ \<Rightarrow> [] | Inr c \<Rightarrow> [c]), P_conns := l\<rparr>" and ?m2 = "snd (close_conn cn m1)"
  have new: "r = Inr (M_next m)" "P_rl p1 = rl" "M_now m1 = M_now m + int d" "M_dials m1 = (\<lambda>k. M_dials m (Suc k))"
    using rm(1) rl(1) dial(1) inv(3) by (auto simp: new_def Let_def dial_conn_def net_dial_def init_no_login no_login_def)
  have "pool_inv {} (?p2, ?m2)" using pool_remove_law [OF _ _ rm(2), of "{}"] take by simp
  moreover have "M_now ?m2 = M_now m1" "M_dials ?m2 = M_dials m1" by (auto simp: close_conn_def split: prod.split)
  ultimately have "stale remote newMaster (?p2, ?m2)"
    using inv rm(3) new rl(2-4) assms by (auto simp: S stale_def same_pool_def no_login_def)
  with first inv(6) rm(2) show thesis by (intro that) auto
qed

lemma stale_never_ends:
  assumes "close_loop fl remote newMaster cns S = Some y"
  shows "\<not> stale remote newMaster S"
proof (rule close_loop.raw_induct [of "\<lambda>fl remote newMaster cns S y. \<not> stale remote newMaster S", OF _ assms])
  fix loop :: "'f floats \<Rightarrow> (nat \<Rightarrow> string) \<Rightarrow> string \<Rightarrow> nat list \<Rightarrow> (connPool, nat list) pooled" and fl :: "'f floats" and remote newMaster cns S y
  assume IH: "\<And>fl remote newMaster cns S y. loop fl remote newMaster cns S = Some y \<Longrightarrow> \<not> stale remote newMaster S"
    and body: "Option.bind (First S) (\<lambda>(cn, S). case cn of None \<Rightarrow> Some (cns, S)
      | Some cn \<Rightarrow> if remote cn \<noteq> newMaster then Option.bind (pool_remove fl cn S) (\<lambda>(_, S). loop fl remote newMaster cns S)
                  else loop fl remote newMaster (cns @ [cn]) S) = Some y"
  show "\<not> stale remote newMaster S"
  proof
    assume "stale remote newMaster S"
    from stale_turn [OF this, of fl] obtain cn S1 e S2 where turn: "First S = Some (Some cn, S1)" "remote cn \<noteq> newMaster"
      "pool_remove fl cn S1 = Some (e, S2)" "stale remote newMaster S2" .
    with body have "loop fl remote newMaster cns S2 = Some y" by simp
    with IH turn(4) show False by blast
  qed
qed

text \<open>The first turns of the loop by themselves; \<open>None\<close> when it ends before, or panics.\<close>

primrec close_turns :: "'f floats \<Rightarrow> (nat \<Rightarrow> string) \<Rightarrow> string \<Rightarrow> nat \<Rightarrow> connPool client_state \<Rightarrow> connPool client_state option" where
  "close_turns fl remote newMaster 0 S = Some S"
| "close_turns fl remote newMaster (Suc k) S =
     Option.bind (First S) (\<lambda>(cn, S).
       case cn of
         None \<Rightarrow> None
       | Some cn \<Rightarrow>
           if remote cn \<noteq> newMaster then Option.bind (pool_remove fl cn S) (\<lambda>(_, S). close_turns fl remote newMaster k S)
           else close_turns fl remote newMaster k S)"

lemma stale_turns: "stale remote newMaster S \<Longrightarrow> \<exists>p m. close_turns fl remote newMaster k S = Some (p, m) \<and> P_free p \<noteq> []"
proof (induction k arbitrary: S)
  case 0
  then show ?case by (cases S) (simp add: stale_def)
next
  case (Suc k)
  from stale_turn [OF Suc.prems, of fl] obtain cn S1 e S2 where turn: "First S = Some (Some cn, S1)" "remote cn \<noteq> newMaster"
    "pool_remove fl cn S1 = Some (e, S2)" "stale remote newMaster S2" .
  from Suc.IH [OF turn(4)] show ?case by (simp add: turn(1-3))
qed

text \<open>
  C36. While the dials still reach the old master, closeOldConns does not return: each connection that it closes is replaced by a new one to
  the same address, which is among the free ones for the next turn. So it is with one free connection and dials that work and take
  a second each, which the limiter never refuses. It is the loop that goes on, not a panic: any number of its turns are made, and
  after each there is a free connection.
\<close>

theorem close_goes_on_for_ever:
  assumes "\<forall>a. remote a \<noteq> newMaster"
  shows "closeOldConns fl remote newMaster one_old = None \<and>
    (\<forall>k. \<exists>p m. close_turns fl remote newMaster k one_old = Some (p, m) \<and> P_free p \<noteq> [])"
proof -
  obtain p m where S: "one_old = (p, m)" "pool_inv {} (p, m)" "\<not> P_closed p" "no_login p" "P_free p = [0]" "M_dials m = working_dials"
    "getIdleTimeout (P_opt p) \<le> 0" "P_rl p = New_limiter 0 20 1000000000" "M_now m = 0" by (rule one_old_facts)
  note new = New_limiter_fields [of 20 1000000000 0, simplified]
  have "RL_unit (P_rl p) \<le> RL_max (P_rl p)" using new by (simp add: S(8) word_le_nat_alt)
  then have "ready (P_rl p) (M_now m)"
    using new unfolding ready_def S(8,9) full_at_most_def by (auto intro!: exI [of _ 0])
  moreover have "int (unat (RL_unit (P_rl p))) = 1000000000" "int (unat (RL_max (P_rl p))) = 20000000000" unfolding S(8) new by simp_all
  ultimately have "stale remote newMaster (p, m)"
    using S(2-7) assms by (simp add: stale_def working_dials_def)
  then have "stale remote newMaster one_old" unfolding S(1) .
  then have "close_loop fl remote newMaster [] one_old = None" using stale_never_ends by (metis not_None_eq)
  moreover have "\<forall>k. \<exists>p m. close_turns fl remote newMaster k one_old = Some (p, m) \<and> P_free p \<noteq> []"
    by (intro allI stale_turns) fact
  ultimately show ?thesis unfolding closeOldConns_def by simp
qed

theorem close_goes_on_for_ever_witness:
  "closeOldConns no_floats (\<lambda>_. ''old:1'') ''new:1'' one_old = None \<and>
    (\<forall>k. \<exists>p m. close_turns no_floats (\<lambda>_. ''old:1'') ''new:1'' k one_old = Some (p, m) \<and> P_free p \<noteq> [])"
  by (rule close_goes_on_for_ever) simp

section \<open>Sentinels that cannot be reached\<close>

definition no_network :: net where
  "no_network = \<lparr>M_conns = (\<lambda>_. fresh_conn [] []), M_next = 0, M_dials = (\<lambda>_. (0, Inl (ConnError False))), M_now = 0, M_patience = 0\<rparr>"

definition lonely :: sentinelFailover where
  "lonely = \<lparr>F_masterName = ''m'', F_sentinelAddrs = [''s:1''], F_opt = default_options, F_pool = (fst no_server, no_network),
     F_sentinel = None, F_clients = [], F_listeners = [], F_nets = (\<lambda>_ _. no_network), F_remote = (\<lambda>_. [])\<rparr>"

lemma sentinel_refused:
  assumes "newConnPool (sentinel_options default_options a) 0 = Some p"
  shows "\<exists>S'. process_cmd fl (sentinel_options default_options a) cmd (p, no_network) = Some (setErr (Some (ReadError (ConnError False))) cmd, S') \<and>
     pool_close fl S' \<noteq> None"
proof -
  obtain rl where "Limit 0 (New_limiter 0 20 1000000000) = (False, rl)"
    using fresh_limiter_passes [of 20 0] by (cases "Limit 0 (New_limiter 0 20 1000000000)") auto
  moreover have "p = \<lparr>P_rl = New_limiter 0 20 1000000000, P_opt = sentinel_options default_options a, P_conns = newConnList 10, P_free = [],
      P_closed = False, P_lastDialErr = None\<rparr>"
    using assms by (simp add: newConnPool_def sentinel_options_def default_options_def getPoolSize_def)
  ultimately show ?thesis
    by (simp add: process_cmd_def client_process_def sentinel_options_def default_options_def conn_pool_def Get_conn_def First_def no_network_def
        Reserve_def newConnList_def new_def Let_def dial_conn_def net_dial_def list_Remove_def pool_close_def pool_len_def close_free.simps list_Close_def)
qed

lemma lonely_fails: "\<exists>d'. MasterAddr fl lonely = Some (Inl unreachable, d')"
proof -
  let ?opt = "sentinel_options default_options ''s:1''"
  obtain p where p: "newConnPool ?opt 0 = Some p" by (simp add: newConnPool_def sentinel_options_def default_options_def getPoolSize_def)
  obtain S' where S': "process_cmd fl ?opt (NewStringSliceCmd [''SENTINEL'', ''get-master-addr-by-name'', ''m'']) (p, no_network) =
      Some (setErr (Some (ReadError (ConnError False))) (NewStringSliceCmd [''SENTINEL'', ''get-master-addr-by-name'', ''m'']), S')"
    "pool_close fl S' \<noteq> None"
    using sentinel_refused [OF p] by blast
  have now: "M_now no_network = 0" by (simp add: no_network_def)
  from p S' show ?thesis
    by (auto simp: MasterAddr_def lonely_def newSentinel_def on_sentinel_def GetMasterAddrByName_def Process_def sentinel_cmd_def now
        close_sentinel_def setErr_def unreachable_def Let_def)
qed

text \<open>A listener that ends, because Receive failed, leaves the sentinel in place: nobody listens to it any more.\<close>

lemma listener_gone:
  assumes "F_listeners d ! k = Receiving i p" "listen_step fl k d = Some d'" "F_listeners d' ! k = Ended" "k < length (F_listeners d)"
  shows "F_sentinel d' = F_sentinel d \<and> F_listeners d' = (F_listeners d)[k := Ended]"
proof -
  obtain r q d1 where 1: "on_pubsub i p (Receive (conn_pool fl)) d = Some ((r, q), d1)"
    using assms(1,2) by (auto simp: listen_step_def split: bind_splits)
  then have v1: "F_listeners d1 = F_listeners d" "F_sentinel d1 = F_sentinel d"
    using on_sentinel_view by (fastforce simp: on_pubsub_def same_view_def)+
  show ?thesis
  proof (cases r)
    case (Inl e)
    then obtain x d2 where 2: "on_pubsub i q (single_Close (Some (conn_pool fl))) d1 = Some (x, d2)" "d' = set_listener k Ended d2"
      using assms(1,2) 1 by (auto simp: listen_step_def)
    then have "F_listeners d2 = F_listeners d1" "F_sentinel d2 = F_sentinel d1"
      using on_sentinel_view by (fastforce simp: on_pubsub_def same_view_def)+
    with 2(2) v1 show ?thesis by (simp add: set_listener_def)
  next
    case (Inr msg)
    obtain d2 where "d' = set_listener k (Receiving i q) d2" "F_listeners d2 = F_listeners d1"
      using assms(1,2) 1 Inr by (fastforce simp: listen_step_def switch_master_def Let_def split: received_msg.splits if_splits)
    with v1 assms(3,4) show ?thesis by (simp add: set_listener_def)
  qed
qed

end
