(* ===== verification/CmapIter.thy ===== *)
theory CmapIter
  imports Cmap
begin

text \<open>
  The iterators of the concurrent map (Iter, IterBuffered, Items, Keys of concurrent_map.go): a goroutine
  for each shard sends what the shard has through one channel while it holds the shard's lock for reading.
  Everything that runs at the same time, writers of the map included, is a step relation.
\<close>

section \<open>Steps\<close>

text \<open>A goroutine before it has its lock, while it sends, and after it has given the lock back.\<close>

datatype 'v task = NotYet | Sending "(string \<times> 'v) list" | Over

text \<open>
  \<open>I_want\<close> is how many values the receiver takes, None when it takes all until the channel is closed;
  a value received is None when the channel is closed and the zero value comes.
\<close>

record 'v iteration =
  I_map :: "'v cmap"
  I_tasks :: "'v task list"
  I_chan :: "(string \<times> 'v) list"
  I_cap :: nat
  I_got :: "(string \<times> 'v) option list"
  I_want :: "nat option"

definition start_iteration :: "nat \<Rightarrow> nat option \<Rightarrow> 'v cmap \<Rightarrow> 'v iteration" where
  "start_iteration cap want m =
     \<lparr>I_map = m, I_tasks = replicate SHARD_COUNT NotYet, I_chan = [], I_cap = cap, I_got = [], I_want = want\<rparr>"

definition Iter :: "'v cmap \<Rightarrow> 'v iteration" where
  "Iter m = start_iteration 0 None m"

definition IterBuffered :: "'v cmap \<Rightarrow> 'v iteration" where
  "IterBuffered m = start_iteration (Count m) None m"

definition Keys :: "'v cmap \<Rightarrow> 'v iteration" where
  "Keys m = start_iteration (Count m) (Some (Count m)) m"

text \<open>The order in which Go ranges over a map is not fixed.\<close>

definition enumerates :: "(string \<times> 'v) list \<Rightarrow> (string, 'v) mapping \<Rightarrow> bool" where
  "enumerates xs s \<longleftrightarrow> distinct (map fst xs) \<and> Mapping.of_alist xs = s"

definition wants :: "'v iteration \<Rightarrow> bool" where
  "wants s \<longleftrightarrow> (case I_want s of None \<Rightarrow> True | Some n \<Rightarrow> length (I_got s) < n)"

definition over :: "'v iteration \<Rightarrow> bool" where
  "over s \<longleftrightarrow> list_all (\<lambda>t. case t of Over \<Rightarrow> True | _ \<Rightarrow> False) (I_tasks s)"

definition locked :: "nat \<Rightarrow> 'v iteration \<Rightarrow> bool" where
  "locked i s \<longleftrightarrow> (case I_tasks s ! i of Sending _ \<Rightarrow> True | _ \<Rightarrow> False)"

inductive iter_step :: "'v iteration \<Rightarrow> 'v iteration \<Rightarrow> bool" where
  lock: "i < SHARD_COUNT \<Longrightarrow> I_tasks s ! i = NotYet \<Longrightarrow> enumerates xs (I_map s ! i) \<Longrightarrow>
    iter_step s (s\<lparr>I_tasks := (I_tasks s)[i := Sending xs]\<rparr>)"
| send: "i < SHARD_COUNT \<Longrightarrow> I_tasks s ! i = Sending (x # xs) \<Longrightarrow> length (I_chan s) < I_cap s \<Longrightarrow>
    iter_step s (s\<lparr>I_tasks := (I_tasks s)[i := Sending xs], I_chan := I_chan s @ [x]\<rparr>)"
| hand: "i < SHARD_COUNT \<Longrightarrow> I_tasks s ! i = Sending (x # xs) \<Longrightarrow> I_chan s = [] \<Longrightarrow> wants s \<Longrightarrow>
    iter_step s (s\<lparr>I_tasks := (I_tasks s)[i := Sending xs], I_got := I_got s @ [Some x]\<rparr>)"
| unlock: "i < SHARD_COUNT \<Longrightarrow> I_tasks s ! i = Sending [] \<Longrightarrow> iter_step s (s\<lparr>I_tasks := (I_tasks s)[i := Over]\<rparr>)"
| receive: "I_chan s = x # ch \<Longrightarrow> wants s \<Longrightarrow> iter_step s (s\<lparr>I_chan := ch, I_got := I_got s @ [Some x]\<rparr>)"
| zero: "over s \<Longrightarrow> I_chan s = [] \<Longrightarrow> I_want s \<noteq> None \<Longrightarrow> wants s \<Longrightarrow> iter_step s (s\<lparr>I_got := I_got s @ [None]\<rparr>)"

text \<open>A writer waits for the lock of the shard of its key.\<close>

inductive write_step :: "'v iteration \<Rightarrow> 'v iteration \<Rightarrow> bool" where
  set_key: "\<not> locked (shard_index k) s \<Longrightarrow> write_step s (s\<lparr>I_map := Set (I_map s) k v\<rparr>)"
| remove_key: "\<not> locked (shard_index k) s \<Longrightarrow> write_step s (s\<lparr>I_map := Remove (I_map s) k\<rparr>)"

definition any_step :: "'v iteration \<Rightarrow> 'v iteration \<Rightarrow> bool" where
  "any_step s s' \<longleftrightarrow> iter_step s s' \<or> write_step s s'"

inductive_cases iter_stepE: "iter_step s s'"
inductive_cases write_stepE: "write_step s s'"

text \<open>What the loop of Items has when the channel is closed and empty, and what Keys returns.\<close>

definition finished :: "'v iteration \<Rightarrow> bool" where
  "finished s \<longleftrightarrow> over s \<and> I_chan s = []"

definition Items :: "'v iteration \<Rightarrow> (string, 'v) mapping" where
  "Items s = foldl (\<lambda>tmp x. case x of Some (k, v) \<Rightarrow> Mapping.update k v tmp | None \<Rightarrow> tmp) Mapping.empty (I_got s)"

definition keys_returned :: "'v iteration \<Rightarrow> string list" where
  "keys_returned s = map (\<lambda>x. case x of Some (k, _) \<Rightarrow> k | None \<Rightarrow> []) (I_got s)"

section \<open>Without writers an iteration gives the map\<close>

definition sent :: "'v iteration \<Rightarrow> (string \<times> 'v) list" where
  "sent s = List.map_filter id (I_got s) @ I_chan s"

lemma sent_tasks [simp]: "sent (s\<lparr>I_tasks := t\<rparr>) = sent s"
  by (simp add: sent_def)

definition of_shard :: "nat \<Rightarrow> (string \<times> 'v) list \<Rightarrow> (string \<times> 'v) list" where
  "of_shard i xs = filter (\<lambda>(k, _). shard_index k = i) xs"

lemma of_shard_append [simp]: "of_shard i (xs @ ys) = of_shard i xs @ of_shard i ys" "of_shard i [] = []"
  by (simp_all add: of_shard_def)

lemma of_shard_one [simp]: "of_shard i [x] = (if shard_index (fst x) = i then [x] else [])"
  by (cases x) (simp add: of_shard_def)

text \<open>What a goroutine has sent and what it has still to send are its shard.\<close>

primrec fits :: "(string \<times> 'v) list \<Rightarrow> (string, 'v) mapping \<Rightarrow> 'v task \<Rightarrow> bool" where
  "fits ys shard NotYet \<longleftrightarrow> ys = []"
| "fits ys shard (Sending xs) \<longleftrightarrow> enumerates (ys @ xs) shard"
| "fits ys shard Over \<longleftrightarrow> enumerates ys shard"

definition gives :: "'v cmap \<Rightarrow> 'v iteration \<Rightarrow> bool" where
  "gives m s \<longleftrightarrow> I_map s = m \<and> length (I_tasks s) = SHARD_COUNT \<and> I_want s = None \<and>
     (\<forall>i < SHARD_COUNT. fits (of_shard i (sent s)) (m ! i) (I_tasks s ! i))"

lemma start_gives: "gives m (start_iteration cap None m)"
  by (simp add: gives_def start_iteration_def sent_def map_filter_def)

lemma enumerated_here:
  assumes "cmap_inv m" "i < SHARD_COUNT" "enumerates xs (m ! i)" "x \<in> set xs"
  shows "shard_index (fst x) = i"
proof -
  have "Mapping.keys (m ! i) = set (map fst xs)" using assms(3) by (metis enumerates_def keys_of_alist)
  with assms(4) have "fst x \<in> Mapping.keys (m ! i)" by simp
  then show ?thesis by (rule cmap_invD(2) [OF assms(1,2)])
qed

lemma gives_move:
  assumes "cmap_inv m" "gives m s" "i < SHARD_COUNT" "I_tasks s ! i = Sending (x # xs)"
    and "sent s' = sent s @ [x]" "I_tasks s' = (I_tasks s)[i := Sending xs]" "I_map s' = I_map s" "I_want s' = I_want s"
  shows "gives m s'"
proof -
  have e: "enumerates (of_shard i (sent s) @ x # xs) (m ! i)" using assms(2-4) by (auto simp: gives_def dest!: spec [of _ i])
  then have "shard_index (fst x) = i" by (rule enumerated_here [OF assms(1,3)]) simp
  then have f: "of_shard j (sent s') = (if j = i then of_shard i (sent s) @ [x] else of_shard j (sent s))" for j
    using assms(5) by simp
  with e assms(2,3,6-8) show ?thesis by (auto simp: gives_def nth_list_update f)
qed

lemma gives_task:
  assumes "gives m s" "i < SHARD_COUNT"
    and "fits (of_shard i (sent s)) (m ! i) t"
  shows "gives m (s\<lparr>I_tasks := (I_tasks s)[i := t]\<rparr>)"
  using assms by (auto simp: gives_def nth_list_update)

lemma map_filter_snoc: "List.map_filter id (xs @ [Some x]) = List.map_filter id xs @ [x]"
  by (simp add: map_filter_def)

lemma gives_step:
  assumes "cmap_inv m" "gives m s" "iter_step s s'"
  shows "gives m s'"
  using assms(3)
proof cases
  case (lock i xs)
  then show ?thesis using assms(2) gives_task [of m s i "Sending xs"] by (auto simp: gives_def dest!: spec [of _ i])
next
  case (send i x xs)
  then show ?thesis using assms(1,2) by (intro gives_move [of m s i x xs s']) (simp_all add: sent_def)
next
  case (hand i x xs)
  then show ?thesis using assms(1,2) by (intro gives_move [of m s i x xs s']) (simp_all add: sent_def map_filter_snoc)
next
  case (unlock i)
  then show ?thesis using assms(2) gives_task [of m s i Over] by (auto simp: gives_def dest!: spec [of _ i])
next
  case (receive x ch)
  then show ?thesis using assms(2) by (simp add: gives_def sent_def map_filter_snoc)
next
  case zero
  then show ?thesis using assms(2) by (simp add: gives_def)
qed

lemma gives_steps: "iter_step\<^sup>*\<^sup>* s s' \<Longrightarrow> cmap_inv m \<Longrightarrow> gives m s \<Longrightarrow> gives m s'"
  by (induction rule: rtranclp_induct) (auto intro: gives_step)

lemma Items_lookup: "Mapping.lookup (Items s) = map_of (rev (List.map_filter id (I_got s)))"
proof -
  have f: "Mapping.lookup (foldl (\<lambda>tmp x. case x of Some (k, v) \<Rightarrow> Mapping.update k v tmp | None \<Rightarrow> tmp) t xs) k =
      (case map_of (rev (List.map_filter id xs)) k of Some v \<Rightarrow> Some v | None \<Rightarrow> Mapping.lookup t k)" for t xs k
    by (induction xs arbitrary: t)
      (auto simp: map_filter_def lookup_update' map_add_def split: option.splits)
  from f [of Mapping.empty "I_got s"] show ?thesis by (intro ext) (auto simp: Items_def Mapping.lookup_empty split: option.splits)
qed

lemma map_of_shard: "map_of xs k = map_of (of_shard (shard_index k) xs) k"
  by (induction xs) (auto simp: of_shard_def)

lemma distinct_shards:
  assumes "\<forall>i < SHARD_COUNT. distinct (map fst (of_shard i xs))"
  shows "distinct (map fst xs)"
  using assms
proof (induction xs)
  case (Cons x xs)
  have d: "distinct (map fst (of_shard i (x # xs)))" if "i < SHARD_COUNT" for i using Cons.prems that by blast
  have "distinct (map fst (of_shard i xs))" if "i < SHARD_COUNT" for i
    using d [OF that] by (cases x) (auto simp: of_shard_def split: if_splits)
  moreover have "fst x \<notin> fst ` set xs"
    using d [OF shard_index_less [of "fst x"]] by (cases x) (force simp: of_shard_def)
  ultimately show ?case using Cons.IH by auto
qed simp

text \<open>
  The map that Items collects is the concurrent map, each key came once, whatever the goroutines and the
  receiver do in whatever order, when nobody writes.
\<close>

lemma items_are_the_map:
  assumes "cmap_inv m" "iter_step\<^sup>*\<^sup>* s0 s" "finished s" "s0 = IterBuffered m \<or> s0 = Iter m"
  shows "Mapping.lookup (Items s) k = Get m k \<and> distinct (map fst (List.map_filter id (I_got s)))"
proof -
  have "gives m s0" using assms(4) start_gives by (auto simp: IterBuffered_def Iter_def)
  then have g: "gives m s" by (rule gives_steps [OF assms(2,1)])
  have e: "enumerates (of_shard i (sent s)) (m ! i)" if "i < SHARD_COUNT" for i
  proof -
    have "(case I_tasks s ! i of Over \<Rightarrow> True | _ \<Rightarrow> False)"
      using assms(3) that g by (auto simp: finished_def over_def list_all_length gives_def)
    with g that show ?thesis by (auto simp: gives_def dest!: spec [of _ i] split: task.splits)
  qed
  have s: "sent s = List.map_filter id (I_got s)" using assms(3) by (simp add: sent_def finished_def)
  have d: "distinct (map fst (sent s))" by (rule distinct_shards) (use e in \<open>simp add: enumerates_def\<close>)
  have "map_of (rev (sent s)) k = map_of (sent s) k" using d map_of_inject_set [of "rev (sent s)" "sent s"] by (simp add: rev_map [symmetric])
  also have "\<dots> = map_of (of_shard (shard_index k) (sent s)) k" by (rule map_of_shard)
  also have "\<dots> = Mapping.lookup (Mapping.of_alist (of_shard (shard_index k) (sent s))) k" by (simp add: Mapping.lookup_of_alist)
  also have "\<dots> = Get m k"
    using e [OF shard_index_less [of k]] by (simp add: Get_def GetShard_def enumerates_def)
  finally show ?thesis using d s by (simp add: Items_lookup)
qed

text \<open>The iteration comes to its end: as long as it is not finished a step is possible, and each step brings it nearer.\<close>

lemma iteration_goes_on:
  assumes "cmap_inv m" "gives m s" "\<not> finished s"
  shows "\<exists>s'. iter_step s s'"
proof (cases "I_chan s")
  case (Cons x ch)
  have "wants s" using assms(2) by (simp add: gives_def wants_def)
  with Cons show ?thesis by (blast intro: iter_step.receive)
next
  case Nil
  have "\<not> (\<forall>i < SHARD_COUNT. I_tasks s ! i = Over)"
  proof
    assume "\<forall>i < SHARD_COUNT. I_tasks s ! i = Over"
    then have "over s" using assms(2) by (simp add: over_def list_all_length gives_def)
    with Nil assms(3) show False by (simp add: finished_def)
  qed
  then obtain i where i: "i < SHARD_COUNT" "I_tasks s ! i \<noteq> Over" by blast
  show ?thesis
  proof (cases "I_tasks s ! i")
    case NotYet
    have "finite (Mapping.keys (m ! i))" using cmap_invD(1) [OF assms(1) i(1)] .
    then obtain ks where ks: "set ks = Mapping.keys (m ! i)" "distinct ks" by (metis finite_distinct_list)
    let ?xs = "map (\<lambda>k. (k, the (Mapping.lookup (m ! i) k))) ks"
    have "Mapping.of_alist ?xs = m ! i"
    proof (rule mapping_eqI)
      fix k
      show "Mapping.lookup (Mapping.of_alist ?xs) k = Mapping.lookup (m ! i) k"
        using ks in_keys [of k "m ! i"] by (auto simp: Mapping.lookup_of_alist map_of_map_restrict restrict_map_def)
    qed
    then have "enumerates ?xs (I_map s ! i)" using ks(2) assms(2) by (simp add: enumerates_def gives_def o_def)
    with i(1) NotYet show ?thesis by (blast intro: iter_step.lock)
  next
    case (Sending xs)
    have "wants s" using assms(2) by (simp add: gives_def wants_def)
    with i(1) Sending Nil show ?thesis by (cases xs) (blast intro: iter_step.unlock iter_step.hand)+
  qed (use i(2) in simp)
qed

definition to_do :: "'v cmap \<Rightarrow> 'v iteration \<Rightarrow> nat" where
  "to_do m s = length (I_chan s) +
     (\<Sum>i < SHARD_COUNT. case I_tasks s ! i of NotYet \<Rightarrow> 2 * Mapping.size (m ! i) + 2 | Sending xs \<Rightarrow> 2 * length xs + 1 | Over \<Rightarrow> 0)"

lemma sum_update_less:
  fixes f :: "nat \<Rightarrow> 'a \<Rightarrow> nat"
  assumes "i < n" "n = length ts" "f i t + k \<le> f i (ts ! i)"
  shows "(\<Sum>j < n. f j (ts[i := t] ! j)) + k \<le> (\<Sum>j < n. f j (ts ! j))"
proof -
  have "(\<Sum>j < n. f j (ts[i := t] ! j)) = f i t + (\<Sum>j \<in> {..<n} - {i}. f j (ts ! j))"
    using assms(1,2) by (subst sum.remove [of _ i]) (auto intro!: sum.cong)
  moreover have "(\<Sum>j < n. f j (ts ! j)) = f i (ts ! i) + (\<Sum>j \<in> {..<n} - {i}. f j (ts ! j))"
    using assms(1) by (subst sum.remove [of _ i]) auto
  ultimately show ?thesis using assms(3) by simp
qed

lemma size_enumerated:
  assumes "enumerates xs shard"
  shows "Mapping.size shard = length xs"
proof -
  have "Mapping.keys shard = set (map fst xs)" using assms by (metis enumerates_def keys_of_alist)
  moreover have "card (set (map fst xs)) = length (map fst xs)" using assms by (intro distinct_card) (simp add: enumerates_def)
  ultimately show ?thesis by (simp add: Mapping.size_def)
qed

lemma iteration_nears_its_end:
  assumes "gives m s" "iter_step s s'"
  shows "to_do m s' < to_do m s"
proof -
  have l: "SHARD_COUNT = length (I_tasks s)" "I_map s = m" "I_want s = None" using assms(1) by (simp_all add: gives_def)
  note less = sum_update_less [OF _ l(1), where f = "\<lambda>i t. case t of NotYet \<Rightarrow> 2 * Mapping.size (m ! i) + 2 | Sending xs \<Rightarrow> 2 * length xs + 1 | Over \<Rightarrow> 0"]
  from assms(2) show ?thesis
  proof cases
    case (lock i xs)
    with less [of i "Sending xs" 1] size_enumerated [of xs "m ! i"] l(2) show ?thesis by (simp add: to_do_def)
  next
    case (send i x xs)
    with less [of i "Sending xs" 2] show ?thesis by (simp add: to_do_def)
  next
    case (hand i x xs)
    with less [of i "Sending xs" 2] show ?thesis by (simp add: to_do_def)
  next
    case (unlock i)
    with less [of i Over 1] show ?thesis by (simp add: to_do_def)
  qed (use l(3) in \<open>simp_all add: to_do_def\<close>)
qed

section \<open>Keys and a writer\<close>

text \<open>
  Keys counts first and then takes that many keys. When a key comes in between, a goroutine has one more to
  send than is ever taken: it keeps the lock of its shard for ever, and so no key of the shard can be set or
  removed any more, whatever else happens.
\<close>

definition stuck :: "nat \<Rightarrow> 'v iteration \<Rightarrow> bool" where
  "stuck i s \<longleftrightarrow> i < length (I_tasks s) \<and> (\<exists>x xs. I_tasks s ! i = Sending (x # xs)) \<and> I_cap s \<le> length (I_chan s) \<and> \<not> wants s"

lemma stuck_step:
  assumes "stuck i s" "any_step s s'"
  shows "stuck i s'"
proof -
  obtain x xs where i: "i < length (I_tasks s)" "I_tasks s ! i = Sending (x # xs)" "I_cap s \<le> length (I_chan s)" "\<not> wants s"
    using assms(1) by (auto simp: stuck_def)
  from assms(2) i show ?thesis
    by (auto simp: stuck_def any_step_def wants_def nth_update_any elim!: iter_stepE write_stepE split: option.splits)
qed

lemma stuck_for_ever:
  assumes "any_step\<^sup>*\<^sup>* s s'" "stuck i s"
  shows "stuck i s' \<and> locked i s'"
proof -
  from assms have "stuck i s'" by (induction rule: rtranclp_induct) (auto intro: stuck_step)
  then show ?thesis by (auto simp: stuck_def locked_def)
qed

lemma stuck_keeps_shard:
  assumes "any_step\<^sup>*\<^sup>* s s'" "stuck (shard_index k) s"
  shows "Get (I_map s') k = Get (I_map s) k"
proof -
  have "Get (I_map s') k = Get (I_map s) k \<and> stuck (shard_index k) s'"
    using assms
  proof (induction rule: rtranclp_induct)
    case (step t u)
    then have st: "stuck (shard_index k) t" "Get (I_map t) k = Get (I_map s) k" by simp_all
    then have l: "locked (shard_index k) t" by (auto simp: stuck_def locked_def)
    have "Get (I_map u) k = Get (I_map t) k"
      using step.hyps(2) l by (auto simp: any_step_def Get_def GetShard_def Set_def Remove_def nth_update_any elim!: iter_stepE write_stepE)
        (metis nth_list_update_neq)+
    with st stuck_step [OF st(1) step.hyps(2)] show ?case by simp
  qed simp
  then show ?thesis by blast
qed

lemma keys_and_a_writer:
  "\<exists>s :: 'v iteration. any_step\<^sup>*\<^sup>* (Keys New) s \<and> stuck (shard_index k) s"
proof -
  have e: "Mapping.of_alist [(k, v)] = Mapping.update k v Mapping.empty" for v :: 'v
    by (rule mapping_eqI) (simp add: Mapping.lookup_of_alist lookup_update')
  let ?s0 = "Keys New :: 'v iteration" and ?i = "shard_index k"
  obtain v :: 'v where True by simp
  let ?s1 = "?s0\<lparr>I_map := Set New k v\<rparr>" let ?s2 = "?s1\<lparr>I_tasks := (replicate SHARD_COUNT NotYet)[?i := Sending [(k, v)]]\<rparr>"
  have "\<not> locked ?i ?s0" by (simp add: Keys_def start_iteration_def locked_def)
  from write_step.set_key [OF this, of v] have "any_step ?s0 ?s1" by (simp add: any_step_def Keys_def start_iteration_def)
  moreover have "iter_step ?s1 (?s1\<lparr>I_tasks := (I_tasks ?s1)[?i := Sending [(k, v)]]\<rparr>)"
    by (rule iter_step.lock) (simp_all add: Keys_def start_iteration_def enumerates_def Set_def GetShard_def New_def e)
  then have "any_step ?s1 ?s2" by (simp add: any_step_def Keys_def start_iteration_def)
  moreover have "stuck ?i ?s2" by (simp add: stuck_def wants_def Keys_def start_iteration_def Count_def New_def Mapping.size_def)
  ultimately show ?thesis by (meson converse_rtranclp_into_rtranclp rtranclp.rtrancl_refl)
qed

end
