(* ===== verification/Ticker.thy ===== *)
theory Ticker
  imports Backoff
begin

text \<open>
  The rest of the backoff package: the fixed policies (backoff.go), RetryNotify with any policy and with a
  notify function (retry.go), and the Ticker (ticker.go) as a step relation between its goroutine, the
  receiver of its channel and a caller of Stop.
\<close>

section \<open>Policies\<close>

record ('b, 'w) BackOff =
  next_backoff :: "'b \<Rightarrow> 'w \<Rightarrow> (int \<times> 'b) \<times> 'w"
  reset_backoff :: "'b \<Rightarrow> 'w \<Rightarrow> 'b \<times> 'w"

definition ZeroBackOff :: "(unit, 'w) BackOff" where
  "ZeroBackOff = \<lparr>next_backoff = (\<lambda>b w. ((0, b), w)), reset_backoff = Pair\<rparr>"

definition StopBackOff :: "(unit, 'w) BackOff" where
  "StopBackOff = \<lparr>next_backoff = (\<lambda>b w. ((Stop_backoff, b), w)), reset_backoff = Pair\<rparr>"

text \<open>The state of a constant policy is its interval.\<close>

definition NewConstantBackOff :: "int \<Rightarrow> int" where
  "NewConstantBackOff d = d"

definition ConstantBackOff :: "(int, 'w) BackOff" where
  "ConstantBackOff = \<lparr>next_backoff = (\<lambda>b w. ((b, b), w)), reset_backoff = Pair\<rparr>"

definition ExponentialBackOff :: "'w svc \<Rightarrow> (backoff, 'w) BackOff" where
  "ExponentialBackOff svc = \<lparr>next_backoff = NextBackOff svc, reset_backoff = (\<lambda>b w. case now_nanos svc w of (now, w) \<Rightarrow> (Reset now b, w))\<rparr>"

section \<open>RetryNotify\<close>

partial_function (option) notify_loop ::
    "('c \<Rightarrow> 'w \<Rightarrow> (('e option \<times> 'c) \<times> 'w) option) \<Rightarrow> 'w svc \<Rightarrow> ('b, 'w) BackOff \<Rightarrow> ('e \<Rightarrow> int \<Rightarrow> 'w \<Rightarrow> 'w) option \<Rightarrow> 'b \<Rightarrow> 'c \<Rightarrow> 'w
      \<Rightarrow> (('e option \<times> 'c) \<times> 'w) option" where
  [code]: "notify_loop operation svc pol notify b c w =
     Option.bind (operation c w) (\<lambda>((err, c'), w').
       case err of
         None \<Rightarrow> Some ((None, c'), w')
       | Some e \<Rightarrow>
           (case next_backoff pol b w' of ((next, b'), w'') \<Rightarrow>
              if next = Stop_backoff then Some ((Some e, c'), w'')
              else notify_loop operation svc pol notify b' c'
                (sleep svc (case notify of None \<Rightarrow> w'' | Some f \<Rightarrow> f e next w'') next)))"

definition RetryNotify ::
    "('c \<Rightarrow> 'w \<Rightarrow> (('e option \<times> 'c) \<times> 'w) option) \<Rightarrow> 'w svc \<Rightarrow> ('b, 'w) BackOff \<Rightarrow> ('e \<Rightarrow> int \<Rightarrow> 'w \<Rightarrow> 'w) option \<Rightarrow> 'b \<Rightarrow> 'c \<Rightarrow> 'w
      \<Rightarrow> (('e option \<times> 'c) \<times> 'w) option" where
  "RetryNotify operation svc pol notify b c w =
     (case reset_backoff pol b w of (b, w) \<Rightarrow> notify_loop operation svc pol notify b c w)"

text \<open>Retry is RetryNotify with the exponential policy and nobody to notify.\<close>

lemma retry_is_notify:
  fixes svc :: "'w svc" and operation :: "'c \<Rightarrow> 'w \<Rightarrow> (('e option \<times> 'c) \<times> 'w) option"
  shows "retry_loop operation svc b c w = notify_loop operation svc (ExponentialBackOff svc) None b c w"
proof -
  have 1: "notify_loop operation svc (ExponentialBackOff svc) None b c w = Some res" if "retry_loop operation svc b c w = Some res" for res
  proof (rule retry_loop.raw_induct [of "\<lambda>operation svc b c w res. notify_loop operation svc (ExponentialBackOff svc) None b c w = Some res", OF _ that])
    fix loop b c w res and svc :: "'w svc" and operation :: "'c \<Rightarrow> 'w \<Rightarrow> (('e option \<times> 'c) \<times> 'w) option"
    assume IH: "\<And>operation svc b c w res. loop operation svc b c w = Some res \<Longrightarrow> notify_loop operation svc (ExponentialBackOff svc) None b c w = Some res"
      and eq: "Option.bind (operation c w) (\<lambda>((err, c'), w').
         case err of None \<Rightarrow> Some ((None, c'), w')
         | Some e \<Rightarrow> (case NextBackOff svc b w' of ((next, b'), w'') \<Rightarrow>
              if next = Stop_backoff then Some ((Some e, c'), w'') else loop operation svc b' c' (sleep svc w'' next))) = Some res"
    obtain e c1 w1 where o: "operation c w = Some ((e, c1), w1)" using eq by auto
    obtain d b1 w2 where n: "NextBackOff svc b w1 = ((d, b1), w2)" by (metis surj_pair)
    have step: "next_backoff (ExponentialBackOff svc) = NextBackOff svc" by (simp add: ExponentialBackOff_def)
    show "notify_loop operation svc (ExponentialBackOff svc) None b c w = Some res"
      using eq o n IH [of operation svc b1 c1 "sleep svc w2 d"]
      by (subst notify_loop.simps) (cases e; cases "d = Stop_backoff"; auto simp: step)
  qed
  have 2: "retry_loop operation svc b c w = Some res" if "notify_loop operation svc (ExponentialBackOff svc) None b c w = Some res" for res
  proof -
    have "pol = ExponentialBackOff svc \<longrightarrow> notify = None \<longrightarrow> retry_loop operation svc b c w = Some res"
      if "notify_loop operation svc pol notify b c w = Some res" for svc :: "'w svc" and operation :: "'c \<Rightarrow> 'w \<Rightarrow> (('e option \<times> 'c) \<times> 'w) option" and pol notify b c w res
    proof (rule notify_loop.raw_induct [of "\<lambda>operation svc pol notify b c w res. pol = ExponentialBackOff svc \<longrightarrow> notify = None \<longrightarrow>
        retry_loop operation svc b c w = Some res", OF _ that])
      fix loop pol notify b c w res and svc :: "'w svc" and operation :: "'c \<Rightarrow> 'w \<Rightarrow> (('e option \<times> 'c) \<times> 'w) option"
      assume IH: "\<And>operation svc pol notify b c w res. loop operation svc pol notify b c w = Some res \<Longrightarrow>
            pol = ExponentialBackOff svc \<longrightarrow> notify = None \<longrightarrow> retry_loop operation svc b c w = Some res"
        and eq: "Option.bind (operation c w) (\<lambda>((err, c'), w').
           case err of None \<Rightarrow> Some ((None, c'), w')
           | Some e \<Rightarrow> (case next_backoff pol b w' of ((next, b'), w'') \<Rightarrow>
                if next = Stop_backoff then Some ((Some e, c'), w'')
                else loop operation svc pol notify b' c' (sleep svc (case notify of None \<Rightarrow> w'' | Some f \<Rightarrow> f e next w'') next))) = Some res"
      obtain e c1 w1 where o: "operation c w = Some ((e, c1), w1)" using eq by auto
      obtain d b1 w2 where n: "NextBackOff svc b w1 = ((d, b1), w2)" by (metis surj_pair)
      have step: "next_backoff (ExponentialBackOff svc) = NextBackOff svc" by (simp add: ExponentialBackOff_def)
      show "pol = ExponentialBackOff svc \<longrightarrow> notify = None \<longrightarrow> retry_loop operation svc b c w = Some res"
        using eq o n IH [of operation svc pol notify b1 c1 "sleep svc w2 d"]
        by (intro impI, subst retry_loop.simps) (cases e; cases "d = Stop_backoff"; auto simp: step)
    qed
    from this [OF that] show ?thesis by simp
  qed
  show ?thesis
  proof (cases "retry_loop operation svc b c w")
    case None
    then show ?thesis using 2 by (metis not_None_eq)
  next
    case (Some res)
    with 1 [OF Some] show ?thesis by simp
  qed
qed

lemma Retry_is_RetryNotify: "Retry operation svc b c w = RetryNotify operation svc (ExponentialBackOff svc) None b c w"
  by (simp add: Retry_def RetryNotify_def ExponentialBackOff_def retry_is_notify [unfolded ExponentialBackOff_def] split: prod.split)

text \<open>With StopBackOff the operation runs once.\<close>

lemma stop_runs_once: "RetryNotify operation svc StopBackOff notify b c w = operation c w"
  by (auto simp: RetryNotify_def StopBackOff_def notify_loop.simps split: option.split prod.split bind_splits intro!: option.expand)

text \<open>The fixed policies that go on never give an operation up: what comes back is a success.\<close>

lemma fixed_never_gives_up:
  assumes "RetryNotify operation svc pol notify b c w = Some ((err, c'), w')"
    and "\<And>b w. fst (fst (next_backoff pol b w)) \<noteq> Stop_backoff"
  shows "err = None"
proof -
  obtain b1 w1 where "reset_backoff pol b w = (b1, w1)" by force
  with assms(1) have "notify_loop operation svc pol notify b1 c w1 = Some ((err, c'), w')" by (simp add: RetryNotify_def)
  then have "(\<forall>b w. fst (fst (next_backoff pol b w)) \<noteq> Stop_backoff) \<longrightarrow> fst (fst ((err, c'), w')) = None"
  proof (rule notify_loop.raw_induct [of "\<lambda>operation svc pol notify b c w res. (\<forall>b w. fst (fst (next_backoff pol b w)) \<noteq> Stop_backoff) \<longrightarrow> fst (fst res) = None", rotated])
    fix loop operation svc pol notify b c w res
    assume IH: "\<And>operation svc pol notify b c w res. loop operation svc pol notify b c w = Some res \<Longrightarrow>
          (\<forall>b w. fst (fst (next_backoff pol b w)) \<noteq> Stop_backoff) \<longrightarrow> fst (fst res) = None"
      and eq: "Option.bind (operation c w) (\<lambda>((err, c'), w').
         case err of None \<Rightarrow> Some ((None, c'), w')
         | Some e \<Rightarrow> (case next_backoff pol b w' of ((next, b'), w'') \<Rightarrow>
              if next = Stop_backoff then Some ((Some e, c'), w'')
              else loop operation svc pol notify b' c' (sleep svc (case notify of None \<Rightarrow> w'' | Some f \<Rightarrow> f e next w'') next))) = Some res"
    show "(\<forall>b w. fst (fst (next_backoff pol b w)) \<noteq> Stop_backoff) \<longrightarrow> fst (fst res) = None"
    proof
      assume go: "\<forall>b w. fst (fst (next_backoff pol b w)) \<noteq> Stop_backoff"
      obtain e c1 w1 where o: "operation c w = Some ((e, c1), w1)" using eq by auto
      show "fst (fst res) = None"
      proof (cases e)
        case None
        with eq o show ?thesis by auto
      next
        case (Some e1)
        obtain d b1 w2 where n: "next_backoff pol b w1 = ((d, b1), w2)" by (metis surj_pair)
        then have "d \<noteq> Stop_backoff" using go by (metis fst_conv)
        with eq o Some n IH go show ?thesis by auto
      qed
    qed
  qed
  with assms(2) show ?thesis by simp
qed

section \<open>Ticker\<close>

text \<open>Where the goroutine is: offering a tick, waiting for the next one, or gone with its channel closed.\<close>

datatype ticker_phase = Offering int | Waiting int | Gone

record ('b, 'w) ticker =
  T_phase :: ticker_phase
  T_stop :: bool                 \<comment> \<open>the channel stop is closed\<close>
  T_ticks :: "int list"
  T_policy :: 'b
  T_world :: 'w

definition NewTicker :: "('b, 'w) BackOff \<Rightarrow> int \<Rightarrow> 'b \<Rightarrow> 'w \<Rightarrow> ('b, 'w) ticker" where
  "NewTicker pol now b w =
     (case reset_backoff pol b w of (b, w) \<Rightarrow> \<lparr>T_phase = Offering now, T_stop = False, T_ticks = [], T_policy = b, T_world = w\<rparr>)"

definition ticker_Stop :: "('b, 'w) ticker \<Rightarrow> ('b, 'w) ticker" where
  "ticker_Stop t = t\<lparr>T_stop := True\<rparr>"

text \<open>What send does when its tick has been taken: the policy says how long to wait, or that it is over.\<close>

definition tick_taken :: "('b, 'w) BackOff \<Rightarrow> int \<Rightarrow> ('b, 'w) ticker \<Rightarrow> ('b, 'w) ticker" where
  "tick_taken pol tick t =
     (case next_backoff pol (T_policy t) (T_world t) of ((next, b), w) \<Rightarrow>
        let t = t\<lparr>T_ticks := T_ticks t @ [tick], T_policy := b, T_world := w\<rparr>
        in if next = Stop_backoff then ticker_Stop (t\<lparr>T_phase := Gone\<rparr>) else t\<lparr>T_phase := Waiting next\<rparr>)"

text \<open>Of two cases of a select that are both ready, Go takes either.\<close>

inductive ticker_step :: "('b, 'w) BackOff \<Rightarrow> ('b, 'w) ticker \<Rightarrow> ('b, 'w) ticker \<Rightarrow> bool" for pol where
  taken: "T_phase t = Offering tick \<Longrightarrow> ticker_step pol t (tick_taken pol tick t)"
| not_taken: "T_phase t = Offering tick \<Longrightarrow> T_stop t \<Longrightarrow> ticker_step pol t (t\<lparr>T_phase := Gone\<rparr>)"
| fires: "T_phase t = Waiting d \<Longrightarrow> ticker_step pol t (t\<lparr>T_phase := Offering tick\<rparr>)"
| stopped: "T_phase t = Waiting d \<Longrightarrow> T_stop t \<Longrightarrow> ticker_step pol t (t\<lparr>T_phase := Gone\<rparr>)"
| stop: "ticker_step pol t (ticker_Stop t)"

inductive_cases ticker_stepE: "ticker_step pol t t'"

text \<open>\<open>Ticks\<close> until \<open>Stop\<close>: unless somebody calls Stop, the goroutine goes away only after a tick.\<close>

lemma ticks_at_least_once:
  assumes "(\<lambda>t t'. ticker_step pol t t' \<and> t' \<noteq> ticker_Stop t)\<^sup>*\<^sup>* (NewTicker pol now b w) t" "T_phase t = Gone"
  shows "T_ticks t \<noteq> []"
proof -
  have "(T_ticks t = [] \<longrightarrow> \<not> T_stop t) \<and> (T_ticks t = [] \<longrightarrow> T_phase t \<noteq> Gone)"
    using assms(1)
  proof (induction rule: rtranclp_induct)
    case base
    then show ?case by (simp add: NewTicker_def split: prod.split)
  next
    case (step t u)
    from step.hyps(2) have "ticker_step pol t u" "u \<noteq> ticker_Stop t" by simp_all
    from this(1) show ?case
    proof cases
      case (taken tick)
      then show ?thesis by (simp add: tick_taken_def ticker_Stop_def Let_def split: prod.split)
    qed (use step.IH \<open>u \<noteq> ticker_Stop t\<close> in auto)
  qed
  with assms(2) show ?thesis by blast
qed

text \<open>
  The comment on Stop says that no more ticks are sent after it. But when the receiver is ready too, the
  goroutine may take the receiver's case each time: any number of ticks can follow.
\<close>

lemma ticks_after_Stop:
  assumes "\<And>b w. fst (fst (next_backoff pol b w)) \<noteq> Stop_backoff" "T_phase t = Offering tick"
  shows "\<exists>t'. (ticker_step pol)\<^sup>*\<^sup>* (ticker_Stop t) t' \<and> length (T_ticks t') = length (T_ticks t) + n"
proof -
  have "\<exists>t' tick'. (ticker_step pol)\<^sup>*\<^sup>* (ticker_Stop t) t' \<and> T_phase t' = Offering tick' \<and> length (T_ticks t') = length (T_ticks t) + n"
  proof (induction n)
    case 0
    have "T_phase (ticker_Stop t) = Offering tick" "length (T_ticks (ticker_Stop t)) = length (T_ticks t) + 0"
      using assms(2) by (simp_all add: ticker_Stop_def)
    then show ?case by blast
  next
    case (Suc n)
    then obtain u x where u: "(ticker_step pol)\<^sup>*\<^sup>* (ticker_Stop t) u" "T_phase u = Offering x" "length (T_ticks u) = length (T_ticks t) + n" by blast
    obtain d b w where n: "next_backoff pol (T_policy u) (T_world u) = ((d, b), w)" by (metis surj_pair)
    have "d \<noteq> Stop_backoff" using assms(1) n by (metis fst_conv)
    then have v: "T_phase (tick_taken pol x u) = Waiting d" "length (T_ticks (tick_taken pol x u)) = length (T_ticks t) + Suc n"
      using n u(3) by (simp_all add: tick_taken_def Let_def)
    let ?v = "(tick_taken pol x u)\<lparr>T_phase := Offering 0\<rparr>"
    have "ticker_step pol u (tick_taken pol x u)" "ticker_step pol (tick_taken pol x u) ?v"
      using u(2) v(1) by (auto intro: ticker_step.intros)
    then have "(ticker_step pol)\<^sup>*\<^sup>* (ticker_Stop t) ?v" using u(1) by (meson rtranclp.rtrancl_into_rtrancl)
    then show ?case using v(2) by (intro exI [of _ ?v] exI [of _ 0]) simp
  qed
  then show ?thesis by blast
qed

end
