(* ===== verification/LogText.thy ===== *)
theory LogText
  imports Boot "HOL-Library.Char_ord" "HOL-Library.List_Lexorder"
begin

text \<open>
  What logrus makes of an entry: the values a field can hold and how \<open>fmt\<close> and \<open>strconv\<close> of Go 1.7
  print them, the JSON formatter (json\_formatter.go) and the text formatter (text\_formatter.go).
  Values of types that the program itself defines print and encode as a parameter says; none of them is
  of a string kind. Formats with arguments are a parameter too, as are the tables of printable
  characters beyond ASCII. A time is known by the text it has in each layout.
\<close>

section \<open>The order of the levels\<close>

fun level_num :: "Level \<Rightarrow> nat" where
  "level_num PanicLevel = 0"
| "level_num FatalLevel = 1"
| "level_num ErrorLevel = 2"
| "level_num WarnLevel = 3"
| "level_num InfoLevel = 4"
| "level_num DebugLevel = 5"

lemma level_num_inject [simp]: "level_num a = level_num b \<longleftrightarrow> a = b"
  by (cases a; cases b) simp_all

instantiation Level :: linorder
begin
definition less_eq_Level :: "Level \<Rightarrow> Level \<Rightarrow> bool" where "less_eq_Level a b \<longleftrightarrow> level_num a \<le> level_num b"
definition less_Level :: "Level \<Rightarrow> Level \<Rightarrow> bool" where "less_Level a b \<longleftrightarrow> level_num a < level_num b"
instance by standard (auto simp: less_eq_Level_def less_Level_def)
end

lemma PanicLevel_least [simp]: "PanicLevel \<le> level" "level \<le> PanicLevel \<longleftrightarrow> level = PanicLevel"
  by (cases level; simp add: less_eq_Level_def)+

section \<open>Values and their texts\<close>

datatype 'x val =
    VStr string
  | VErr string           \<comment> \<open>an error, by its text\<close>
  | VInt int64
  | VBool bool
  | VNil
  | VOther 'x             \<comment> \<open>a value of a type of the program\<close>

type_synonym 'x Fields = "string \<rightharpoonup> 'x val"

record 'x fmtlib =
  FL_print :: "'x \<Rightarrow> string"
  FL_json :: "'x \<Rightarrow> string + string"                 \<comment> \<open>the error of Marshal, or the text\<close>
  FL_Sprintf :: "string \<Rightarrow> 'x val list \<Rightarrow> string"
  FL_IsPrint :: "nat \<Rightarrow> bool"                       \<comment> \<open>for runes beyond ASCII\<close>

fun val_text :: "('x, 'm) fmtlib_scheme \<Rightarrow> 'x val \<Rightarrow> string" where
  "val_text P (VStr s) = s"
| "val_text P (VErr s) = s"
| "val_text P (VInt i) = show_int (sint i)"
| "val_text P (VBool b) = enc_bool b"
| "val_text P VNil = ''<nil>''"
| "val_text P (VOther x) = FL_print P x"

fun is_VStr :: "'x val \<Rightarrow> bool" where
  "is_VStr (VStr s) = True"
| "is_VStr _ = False"

text \<open>Sprint puts a blank between two operands when neither is a string, Sprintln between any two.\<close>

fun sprint_after :: "('x, 'm) fmtlib_scheme \<Rightarrow> bool \<Rightarrow> 'x val list \<Rightarrow> string" where
  "sprint_after P prevString [] = []"
| "sprint_after P prevString (v # vs) =
     (if is_VStr v \<or> prevString then [] else '' '') @ val_text P v @ sprint_after P (is_VStr v) vs"

definition Sprint :: "('x, 'm) fmtlib_scheme \<Rightarrow> 'x val list \<Rightarrow> string" where
  "Sprint P vs = sprint_after P True vs"

fun join_blank :: "string list \<Rightarrow> string" where
  "join_blank [] = []"
| "join_blank [t] = t"
| "join_blank (t # u # ts) = t @ '' '' @ join_blank (u # ts)"

definition Sprintln :: "('x, 'm) fmtlib_scheme \<Rightarrow> 'x val list \<Rightarrow> string" where
  "Sprintln P vs = join_blank (map (val_text P) vs) @ [CHR 0x0A]"

definition sprintlnn :: "('x, 'm) fmtlib_scheme \<Rightarrow> 'x val list \<Rightarrow> string" where
  "sprintlnn P args = (let msg = Sprintln P args in take (length msg - 1) msg)"

lemma sprintlnn_is_join: "sprintlnn P args = join_blank (map (val_text P) args)"
  by (simp add: sprintlnn_def Sprintln_def Let_def)

text \<open>\<open>strconv.Quote\<close>, which is what the verb q writes for a string.\<close>

fun hex_digits :: "nat \<Rightarrow> nat \<Rightarrow> string" where
  "hex_digits 0 r = []"
| "hex_digits (Suc n) r = hex_digits n (r div 16) @ [hex_digit (r mod 16)]"

definition quoted_rune :: "(nat \<Rightarrow> bool) \<Rightarrow> nat \<Rightarrow> string" where
  "quoted_rune pr r =
     (if r = 34 \<or> r = 92 then [bslash, chr r]
      else if (if r < 128 then 32 \<le> r \<and> r \<le> 126 else pr r) then encode_rune r
      else if r = 7 then bslash # ''a''
      else if r = 8 then bslash # ''b''
      else if r = 12 then bslash # ''f''
      else if r = 10 then bslash # ''n''
      else if r = 13 then bslash # ''r''
      else if r = 9 then bslash # ''t''
      else if r = 11 then bslash # ''v''
      else if r < 32 then bslash # CHR ''x'' # hex_digits 2 r
      else if r < 65536 then bslash # CHR ''u'' # hex_digits 4 r
      else bslash # CHR ''U'' # hex_digits 8 r)"

function quoted :: "(nat \<Rightarrow> bool) \<Rightarrow> string \<Rightarrow> string" where
  "quoted pr [] = []"
| "quoted pr (c # s) =
     (let (r, n) = decode_rune (c # s) in
      if r = RuneError \<and> n = 1 then bslash # CHR ''x'' # hex_digits 2 (byte c) @ quoted pr s
      else quoted_rune pr r @ quoted pr (drop n (c # s)))"
  by pat_completeness auto
termination
  by (relation "measure (length \<circ> snd)") (auto dest: decode_rune_width)

declare quoted.simps(2) [simp del]

definition Quote :: "(nat \<Rightarrow> bool) \<Rightarrow> string \<Rightarrow> string" where
  "Quote pr s = dquote # quoted pr s @ [dquote]"

section \<open>The fields that both formatters protect\<close>

text \<open>The three fields of the formatter's own: what the user has under these names goes under another.\<close>

definition prefix_clash :: "string \<Rightarrow> 'x Fields \<Rightarrow> 'x Fields" where
  "prefix_clash k data = (case data k of None \<Rightarrow> data | Some v \<Rightarrow> data(''fields.'' @ k \<mapsto> v))"

definition prefixFieldClashes :: "'x Fields \<Rightarrow> 'x Fields" where
  "prefixFieldClashes data = prefix_clash ''level'' (prefix_clash ''msg'' (prefix_clash ''time'' data))"

lemma prefixFieldClashes_moves:
  "prefixFieldClashes data k =
     (if k = ''fields.time'' \<and> data ''time'' \<noteq> None then data ''time''
      else if k = ''fields.msg'' \<and> data ''msg'' \<noteq> None then data ''msg''
      else if k = ''fields.level'' \<and> data ''level'' \<noteq> None then data ''level''
      else data k)"
  by (auto simp: prefixFieldClashes_def prefix_clash_def split: option.splits)

lemma dom_prefixFieldClashes:
  "dom data \<subseteq> dom (prefixFieldClashes data)"
  "dom (prefixFieldClashes data) \<subseteq> dom data \<union> {''fields.time'', ''fields.msg'', ''fields.level''}"
  by (auto simp: prefixFieldClashes_moves split: if_splits)

lemma finite_prefixFieldClashes: "finite (dom data) \<Longrightarrow> finite (dom (prefixFieldClashes data))"
  by (rule finite_subset [OF dom_prefixFieldClashes(2)]) simp

section \<open>Entries\<close>

text \<open>An entry names its logger and the map of its fields; both are shared by the copies of the entry.\<close>

record 'x Entry =
  LE_Logger :: nat
  LE_Data :: nat
  LE_Time :: "string \<Rightarrow> string"
  LE_Level :: Level
  LE_Message :: string

definition DefaultTimestampFormat :: string where
  "DefaultTimestampFormat = ''2006-01-02T15:04:05Z07:00''"

definition timestamp_format :: "string \<Rightarrow> string" where
  "timestamp_format own = (if own = [] then DefaultTimestampFormat else own)"

section \<open>The JSON formatter\<close>

record JSONFormatter =
  JF_TimestampFormat :: string

fun error_text :: "'x val \<Rightarrow> 'x val" where
  "error_text (VErr s) = VStr s"
| "error_text v = v"

fun marshal_val :: "('x, 'm) fmtlib_scheme \<Rightarrow> 'x val \<Rightarrow> string + string" where
  "marshal_val P (VStr s) = Inr (quote_string s)"
| "marshal_val P (VErr s) = Inr ''{}''"
| "marshal_val P (VInt i) = Inr (show_int (sint i))"
| "marshal_val P (VBool b) = Inr (enc_bool b)"
| "marshal_val P VNil = Inr ''null''"
| "marshal_val P (VOther x) = FL_json P x"

text \<open>Marshal of a map writes the members in the order of their keys and stops at the first error.\<close>

fun marshal_members :: "('x, 'm) fmtlib_scheme \<Rightarrow> 'x Fields \<Rightarrow> string list \<Rightarrow> string + (string \<times> string) list" where
  "marshal_members P data [] = Inr []"
| "marshal_members P data (k # ks) =
     (case marshal_val P (the (data k)) of
        Inl err \<Rightarrow> Inl err
      | Inr t \<Rightarrow> (case marshal_members P data ks of Inl err \<Rightarrow> Inl err | Inr ms \<Rightarrow> Inr ((k, t) # ms)))"

definition Marshal_Fields :: "('x, 'm) fmtlib_scheme \<Rightarrow> 'x Fields \<Rightarrow> string + string" where
  "Marshal_Fields P data = map_sum id enc_object (marshal_members P data (sorted_list_of_set (dom data)))"

definition json_fields :: "JSONFormatter \<Rightarrow> 'x Entry \<Rightarrow> 'x Fields \<Rightarrow> 'x Fields" where
  "json_fields f entry given =
     (let data = prefixFieldClashes (map_option error_text \<circ> given)
      in data(''time'' \<mapsto> VStr (LE_Time entry (timestamp_format (JF_TimestampFormat f))),
              ''msg'' \<mapsto> VStr (LE_Message entry), ''level'' \<mapsto> VStr (Level_String (LE_Level entry))))"

text \<open>The bytes and the error, from the entry and the fields its map has.\<close>

definition JSON_Format :: "('x, 'm) fmtlib_scheme \<Rightarrow> JSONFormatter \<Rightarrow> 'x Entry \<Rightarrow> 'x Fields \<Rightarrow> string \<times> string option" where
  "JSON_Format P f entry given =
     (case Marshal_Fields P (json_fields f entry given) of
        Inl err \<Rightarrow> ([], Some (''Failed to marshal fields to JSON, '' @ err))
      | Inr serialized \<Rightarrow> (serialized @ [CHR 0x0A], None))"

section \<open>The text formatter\<close>

record TextFormatter =
  TF_ForceColors :: bool
  TF_DisableColors :: bool
  TF_DisableTimestamp :: bool
  TF_FullTimestamp :: bool
  TF_TimestampFormat :: string
  TF_DisableSorting :: bool

text \<open>True of a text that can stand without quotes: every other rune, and every byte of it, is refused.\<close>

definition needsQuoting :: "string \<Rightarrow> bool" where
  "needsQuoting text \<longleftrightarrow>
     (\<forall>ch\<in>set text. 97 \<le> byte ch \<and> byte ch \<le> 122 \<or> 65 \<le> byte ch \<and> byte ch \<le> 90 \<or> is_digit ch \<or>
        ch = CHR ''-'' \<or> ch = CHR ''.'')"

definition quote_if_needed :: "('x, 'm) fmtlib_scheme \<Rightarrow> string \<Rightarrow> string" where
  "quote_if_needed P s = (if needsQuoting s then s else Quote (FL_IsPrint P) s)"

definition appendKeyValue :: "('x, 'm) fmtlib_scheme \<Rightarrow> string \<Rightarrow> string \<Rightarrow> 'x val \<Rightarrow> string" where
  "appendKeyValue P b key v =
     b @ key @ ''='' @
     (case v of
        VStr s \<Rightarrow> quote_if_needed P s
      | VErr errmsg \<Rightarrow> quote_if_needed P errmsg
      | _ \<Rightarrow> Sprint P [v]) @ '' ''"

function rune_count :: "string \<Rightarrow> nat" where
  "rune_count [] = 0"
| "rune_count (c # s) = Suc (rune_count (drop (snd (decode_rune (c # s))) (c # s)))"
  by pat_completeness auto
termination
proof (relation "measure length")
  fix c s
  show "(drop (snd (decode_rune (c # s))) (c # s), c # s) \<in> measure length"
    using drop_rune_less [of "c # s"] by (simp del: length_drop)
qed simp

declare rune_count.simps(2) [simp del]

definition pad_right :: "nat \<Rightarrow> string \<Rightarrow> string" where
  "pad_right w s = s @ replicate (w - rune_count s) CHR '' ''"

definition zero_padded :: "nat \<Rightarrow> int \<Rightarrow> string" where
  "zero_padded w i =
     (let digits = show_nat (nat \<bar>i\<bar>)
      in if i < 0 then CHR ''-'' # replicate (w - 1 - length digits) CHR ''0'' @ digits
         else replicate (w - length digits) CHR ''0'' @ digits)"

definition to_upper :: "char \<Rightarrow> char" where
  "to_upper c = (if 97 \<le> byte c \<and> byte c \<le> 122 then chr (byte c - 32) else c)"

fun levelColor :: "Level \<Rightarrow> nat" where
  "levelColor DebugLevel = 37"
| "levelColor WarnLevel = 33"
| "levelColor ErrorLevel = 31"
| "levelColor FatalLevel = 31"
| "levelColor PanicLevel = 31"
| "levelColor InfoLevel = 34"

definition colored :: "nat \<Rightarrow> string \<Rightarrow> string" where
  "colored color text = [CHR 0x1B] @ ''['' @ show_nat color @ ''m'' @ text @ [CHR 0x1B] @ ''[0m''"

definition printColored ::
  "('x, 'm) fmtlib_scheme \<Rightarrow> TextFormatter \<Rightarrow> int \<Rightarrow> string \<Rightarrow> 'x Entry \<Rightarrow> 'x Fields \<Rightarrow> string list \<Rightarrow> string \<Rightarrow> string" where
  "printColored P f miniTS b entry data keys timestampFormat =
     (let color = levelColor (LE_Level entry);
          levelText = take 4 (map to_upper (Level_String (LE_Level entry)));
          stamp = (if \<not> TF_FullTimestamp f then zero_padded 4 miniTS else LE_Time entry timestampFormat)
      in b @ colored color levelText @ ''['' @ stamp @ ''] '' @ pad_right 44 (LE_Message entry) @ '' '' @
         concat (map (\<lambda>k. '' '' @ colored color k @ ''='' @ val_text P (the (data k))) keys))"

text \<open>
  Format, from whether the output is a terminal, the seconds since the start, and the order in which
  the range over the map gives its keys. The map of the entry itself is changed: the new one is the second result.
\<close>

definition isColored :: "TextFormatter \<Rightarrow> bool \<Rightarrow> bool" where
  "isColored f isColorTerminal \<longleftrightarrow> (TF_ForceColors f \<or> isColorTerminal) \<and> \<not> TF_DisableColors f"

definition sorted_keys :: "TextFormatter \<Rightarrow> string list \<Rightarrow> string list" where
  "sorted_keys f keys = (if \<not> TF_DisableSorting f then sort keys else keys)"

definition plain_text ::
  "('x, 'm) fmtlib_scheme \<Rightarrow> TextFormatter \<Rightarrow> 'x Entry \<Rightarrow> 'x Fields \<Rightarrow> string list \<Rightarrow> string \<Rightarrow> string \<Rightarrow> string" where
  "plain_text P f entry data keys timestampFormat b =
     (let b = (if \<not> TF_DisableTimestamp f then appendKeyValue P b ''time'' (VStr (LE_Time entry timestampFormat)) else b);
          b = appendKeyValue P b ''level'' (VStr (Level_String (LE_Level entry)));
          b = (if LE_Message entry \<noteq> [] then appendKeyValue P b ''msg'' (VStr (LE_Message entry)) else b)
      in fold (\<lambda>key b. appendKeyValue P b key (the (data key))) keys b)"

definition Text_Format ::
  "('x, 'm) fmtlib_scheme \<Rightarrow> TextFormatter \<Rightarrow> bool \<Rightarrow> int \<Rightarrow> string list \<Rightarrow> 'x Entry \<Rightarrow> 'x Fields \<Rightarrow> string \<times> 'x Fields" where
  "Text_Format P f isColorTerminal miniTS order entry given =
     (let keys = sorted_keys f order;
          data = prefixFieldClashes given;
          timestampFormat = timestamp_format (TF_TimestampFormat f);
          b = (if isColored f isColorTerminal then printColored P f miniTS [] entry data keys timestampFormat
               else plain_text P f entry data keys timestampFormat [])
      in (b @ [CHR 0x0A], data))"

section \<open>A line stays a line\<close>

lemma byte_newline [simp]: "byte CHR 0x0A = 10"
  by simp

lemma hex_digits_printable: "\<forall>c\<in>set (hex_digits n r). 32 \<le> byte c"
proof (induction n arbitrary: r)
  case (Suc n)
  have "32 \<le> byte (hex_digit (r mod 16))" by (simp add: hex_digit_def)
  with Suc show ?case by auto
qed simp

lemma encode_rune_printable: "32 \<le> r \<Longrightarrow> \<forall>c\<in>set (encode_rune r). 32 \<le> byte c"
proof -
  assume r: "32 \<le> r"
  have "x \<le> 1114111 \<Longrightarrow> 240 + x div 262144 < (256 :: nat)" for x by simp
  moreover have "x < 65536 \<Longrightarrow> 224 + x div 4096 < (256 :: nat)" for x by simp
  moreover have "x < 2048 \<Longrightarrow> 192 + x div 64 < (256 :: nat)" for x by simp
  moreover have "128 + x mod 64 < (256 :: nat)" for x by simp
  ultimately show ?thesis using r by (auto simp: encode_rune_def Let_def RuneError_def)
qed

lemma quoted_rune_printable: "\<forall>c\<in>set (quoted_rune pr r). 32 \<le> byte c"
proof (cases "32 \<le> r")
  case True
  then show ?thesis using encode_rune_printable [OF True] hex_digits_printable
    by (auto simp: quoted_rune_def byte_chr)
next
  case False
  then show ?thesis using hex_digits_printable by (auto simp: quoted_rune_def)
qed

lemma quoted_printable: "\<forall>c\<in>set (quoted pr s). 32 \<le> byte c"
proof (induction pr s rule: quoted.induct)
  case (2 pr c s)
  obtain r n where rn: "decode_rune (c # s) = (r, n)" by fastforce
  show ?case
  proof (cases "r = RuneError \<and> n = 1")
    case True
    with 2(1) rn have "\<forall>c\<in>set (quoted pr s). 32 \<le> byte c" by simp
    then show ?thesis using True rn hex_digits_printable by (auto simp: quoted.simps(2))
  next
    case False
    then have "\<forall>c\<in>set (quoted pr (drop n (c # s))). 32 \<le> byte c" using 2(2) rn by simp
    then show ?thesis using False rn quoted_rune_printable by (auto simp: quoted.simps(2))
  qed
qed simp

lemma Quote_no_newline: "CHR 0x0A \<notin> set (Quote pr s)"
  using quoted_printable [of pr s] by (auto simp: Quote_def)

lemma quote_if_needed_no_newline [simp]: "CHR 0x0A \<notin> set (quote_if_needed P s)"
  using Quote_no_newline by (auto simp: quote_if_needed_def needsQuoting_def is_digit_def)

lemma show_int_no_newline [simp]: "CHR 0x0A \<notin> set (show_int i)"
proof
  assume "CHR 0x0A \<in> set (show_int i)"
  then have "is_digit CHR 0x0A" using show_nat_digits by (auto simp: show_int_def split: if_splits)
  then show False by (simp add: is_digit_def)
qed

text \<open>What a value of the program's own may print so that a line stays a line.\<close>

fun one_line_val :: "('x, 'm) fmtlib_scheme \<Rightarrow> 'x val \<Rightarrow> bool" where
  "one_line_val P (VOther x) \<longleftrightarrow> CHR 0x0A \<notin> set (FL_print P x)"
| "one_line_val P v \<longleftrightarrow> True"

lemma appendKeyValue_no_newline:
  "CHR 0x0A \<notin> set b \<Longrightarrow> CHR 0x0A \<notin> set key \<Longrightarrow> one_line_val P v \<Longrightarrow> CHR 0x0A \<notin> set (appendKeyValue P b key v)"
  by (cases v) (auto simp: appendKeyValue_def Sprint_def enc_bool_def)

lemma appendKeyValue_fold_no_newline:
  "CHR 0x0A \<notin> set b \<Longrightarrow> \<forall>key\<in>set keys. CHR 0x0A \<notin> set key \<and> one_line_val P (the (data key)) \<Longrightarrow>
     CHR 0x0A \<notin> set (fold (\<lambda>key b. appendKeyValue P b key (the (data key))) keys b)"
  by (induction keys arbitrary: b) (simp_all add: appendKeyValue_no_newline)

lemma plain_text_no_newline:
  assumes "CHR 0x0A \<notin> set b" and "\<forall>key\<in>set keys. CHR 0x0A \<notin> set key \<and> one_line_val P (the (data key))"
  shows "CHR 0x0A \<notin> set (plain_text P f entry data keys stamp b)"
  unfolding plain_text_def Let_def using assms(1)
  by (intro appendKeyValue_fold_no_newline assms(2)) (simp add: appendKeyValue_no_newline)

section \<open>Reading a JSON line back\<close>

fun val_utf8 :: "'x val \<Rightarrow> bool" where
  "val_utf8 (VStr s) = valid_utf8 s"
| "val_utf8 (VErr s) = valid_utf8 s"
| "val_utf8 (VOther x) = False"
| "val_utf8 _ = True"

fun val_json :: "'x val \<Rightarrow> jval" where
  "val_json (VStr s) = JStr (enc_body s)"
| "val_json (VInt i) = JNum (show_int (sint i))"
| "val_json (VBool b) = JBool b"
| "val_json _ = JNull"

definition read_val :: "jval \<Rightarrow> 'x val" where
  "read_val j =
     (case j of
        JStr b \<Rightarrow> VStr (unquote b)
      | JNum t \<Rightarrow> (case parse_int64 t of Some i \<Rightarrow> VInt (word_of_int i) | None \<Rightarrow> VNil)
      | JBool b \<Rightarrow> VBool b
      | _ \<Rightarrow> VNil)"

definition read_line :: "string \<Rightarrow> 'x Fields option" where
  "read_line line =
     (case parse_json line of
        Some (JObj raw ms) \<Rightarrow> Some (map_of (map (\<lambda>(b, j). (unquote b, read_val j)) ms))
      | _ \<Rightarrow> None)"

lemma read_val_json: "val_utf8 v \<Longrightarrow> \<nexists>s. v = VErr s \<Longrightarrow> read_val (val_json v) = v"
proof (cases v)
  case (VInt i)
  have "int64_min \<le> sint i" "sint i \<le> int64_max"
    using sint_greater_eq [of i] sint_less [of i] by (simp_all add: int64_min_def int64_max_def)
  then show ?thesis by (simp add: VInt read_val_def parse_int64_show_int)
qed (simp_all add: read_val_def unquote_enc_body)

lemma marshal_members_reads:
  assumes "\<forall>k\<in>set ks. val_utf8 (the (data k)) \<and> (\<nexists>s. data k = Some (VErr s)) \<and> data k \<noteq> None"
  shows "\<exists>ms. marshal_members P data ks = Inr ms \<and>
    list_all2 field_reads ms (map (\<lambda>k. (enc_body k, val_json (the (data k)))) ks)"
  using assms
proof (induction ks)
  case (Cons k ks)
  obtain v where v: "data k = Some v" using Cons.prems by auto
  then have "\<exists>t. marshal_val P v = Inr t \<and> reads_as t (val_json v)"
    using Cons.prems by (cases v) (auto intro: json_parse)
  with Cons v show ?case by auto
qed simp

lemma parse_json_newline: "reads_as t v \<Longrightarrow> parse_json (t @ [CHR 0x0A]) = Some v"
  using reads_asD [of t v "[CHR 0x0A]"] skip_ws_reads [of t v "[CHR 0x0A]"]
  by (simp add: parse_json_def ends_value_def is_digit_def skip_ws_def is_ws_def del: parse_value.simps)

lemma map_of_keys: "map_of (map (\<lambda>k. (k, g (the (data k)))) ks) k =
    (if k \<in> set ks then Some (g (the (data k))) else None)"
  by (induction ks) auto

lemma JSON_Format_reads:
  assumes fin: "finite (dom data)" and "data = json_fields f entry given"
    and ok: "\<And>k v. data k = Some v \<Longrightarrow> valid_utf8 k \<and> val_utf8 v \<and> (\<nexists>s. v = VErr s)"
  shows "\<exists>line. JSON_Format P f entry given = (line, None) \<and> read_line line = Some data"
proof -
  let ?ks = "sorted_list_of_set (dom data)"
  have ks: "set ?ks = dom data" using fin by simp
  then obtain ms where ms: "marshal_members P data ?ks = Inr ms"
      "list_all2 field_reads ms (map (\<lambda>k. (enc_body k, val_json (the (data k)))) ?ks)"
    using marshal_members_reads [of ?ks data P] ok by fastforce
  let ?line = "enc_object ms @ [CHR 0x0A]"
  have "map (\<lambda>k. (unquote (enc_body k), read_val (val_json (the (data k))))) ?ks = map (\<lambda>k. (k, id (the (data k)))) ?ks"
    using ks ok by (fastforce simp: unquote_enc_body read_val_json)
  moreover have "map_of (map (\<lambda>k. (k, id (the (data k)))) ?ks) = data"
    unfolding fun_eq_iff map_of_keys ks by (auto simp: domIff)
  ultimately have "map_of (map (\<lambda>k. (unquote (enc_body k), read_val (val_json (the (data k))))) ?ks) = data"
    by metis
  then have "read_line ?line = Some data"
    by (simp add: read_line_def parse_json_newline [OF reads_object [OF ms(2)]] comp_def)
  with assms(2) ms(1) show ?thesis by (auto simp: JSON_Format_def Marshal_Fields_def)
qed

section \<open>The two formatters\<close>

text \<open>
  C39. Nobody forges a line of the log: without colours the text of an entry is one line, whatever its message, its
  strings and the texts of its errors hold, as long as no key and no value of the program's own prints a newline.
\<close>

theorem text_entry_is_one_line:
  assumes "\<not> isColored f isColorTerminal" and keys: "set order = dom given"
    and own: "\<forall>k\<in>dom given. CHR 0x0A \<notin> set k \<and> one_line_val P (the (given k))"
  shows "\<exists>line. fst (Text_Format P f isColorTerminal miniTS order entry given) = line @ [CHR 0x0A] \<and> CHR 0x0A \<notin> set line"
proof -
  have "one_line_val P (the (prefixFieldClashes given k))" if "k \<in> dom given" for k
    using own that by (force simp: prefixFieldClashes_moves)
  then have "\<forall>key\<in>set (sorted_keys f order). CHR 0x0A \<notin> set key \<and> one_line_val P (the (prefixFieldClashes given key))"
    using own keys by (simp add: sorted_keys_def)
  then show ?thesis using assms(1) plain_text_no_newline [of "[]"] by (simp add: Text_Format_def Let_def)
qed

definition sample_fmtlib :: "unit fmtlib" where
  "sample_fmtlib = \<lparr>FL_print = \<lambda>_. ''{}'', FL_json = \<lambda>_. Inr ''{}'', FL_Sprintf = \<lambda>s _. s, FL_IsPrint = \<lambda>_. True\<rparr>"

definition sample_entry :: "unit Entry" where
  "sample_entry = \<lparr>LE_Logger = 0, LE_Data = 0, LE_Time = \<lambda>_. ''2016-05-01'', LE_Level = InfoLevel,
     LE_Message = ''a'' @ [CHR 0x0A] @ ''level=fatal''\<rparr>"

definition sample_text :: TextFormatter where
  "sample_text = \<lparr>TF_ForceColors = False, TF_DisableColors = False, TF_DisableTimestamp = False, TF_FullTimestamp = False,
     TF_TimestampFormat = [], TF_DisableSorting = False\<rparr>"

theorem text_entry_is_one_line_witness:
  "\<exists>line. fst (Text_Format sample_fmtlib sample_text False 7 [''time''] sample_entry [''time'' \<mapsto> VStr ''noon'']) = line @ [CHR 0x0A] \<and>
     CHR 0x0A \<notin> set line"
  by (rule text_entry_is_one_line) (simp_all add: isColored_def sample_text_def)

text \<open>With colours the message stands as it is, and a newline in it begins a line of its own.\<close>

lemma colored_entry_may_be_two_lines:
  "isColored f isColorTerminal \<Longrightarrow>
     \<exists>before after. fst (Text_Format P f isColorTerminal miniTS order entry given) = before @ LE_Message entry @ after"
proof -
  assume c: "isColored f isColorTerminal"
  let ?data = "prefixFieldClashes given" and ?color = "levelColor (LE_Level entry)"
  let ?stamp = "if \<not> TF_FullTimestamp f then zero_padded 4 miniTS else LE_Time entry (timestamp_format (TF_TimestampFormat f))"
  have "fst (Text_Format P f isColorTerminal miniTS order entry given) =
    (colored ?color (take 4 (map to_upper (Level_String (LE_Level entry)))) @ ''['' @ ?stamp @ ''] '') @ LE_Message entry @
    (replicate (44 - rune_count (LE_Message entry)) CHR '' '' @ '' '' @
     concat (map (\<lambda>k. '' '' @ colored ?color k @ ''='' @ val_text P (the (?data k))) (sorted_keys f order)) @ [CHR 0x0A])"
    using c by (simp add: Text_Format_def printColored_def pad_right_def Let_def)
  then show ?thesis by blast
qed

text \<open>
  C40. A line of the JSON formatter is read back as a map that has, under time, msg and level, the entry's own time
  (in the format asked for, RFC 3339 without one), message and level; under fields.time what the user gave as
  time, if he gave one, and the same for msg and level; and under every other key what was given there, an
  error as its text. So one thing is lost: a field that the user named fields.time himself, when he gave a field time
  too (and the same for fields.msg and fields.level). The texts are valid UTF-8 and no value is of a type of the program's own.
\<close>

theorem json_line_reads_back:
  assumes "finite (dom given)" and utf8: "\<forall>k v. given k = Some v \<longrightarrow> valid_utf8 k \<and> val_utf8 v"
    and "valid_utf8 (LE_Time entry (timestamp_format (JF_TimestampFormat f)))" and "valid_utf8 (LE_Message entry)"
  shows "\<exists>line. JSON_Format P f entry given = (line, None) \<and>
    read_line line = Some (\<lambda>k.
      if k = ''time'' then Some (VStr (LE_Time entry
        (if JF_TimestampFormat f = [] then ''2006-01-02T15:04:05Z07:00'' else JF_TimestampFormat f)))
      else if k = ''msg'' then Some (VStr (LE_Message entry))
      else if k = ''level'' then Some (VStr (Level_String (LE_Level entry)))
      else map_option (\<lambda>v. case v of VErr err \<Rightarrow> VStr err | _ \<Rightarrow> v) (given
        (if k = ''fields.time'' \<and> given ''time'' \<noteq> None then ''time''
         else if k = ''fields.msg'' \<and> given ''msg'' \<noteq> None then ''msg''
         else if k = ''fields.level'' \<and> given ''level'' \<noteq> None then ''level''
         else k)))"
proof -
  let ?data = "json_fields f entry given"
  have moved: "prefixFieldClashes (map_option error_text \<circ> given) = map_option error_text \<circ> prefixFieldClashes given"
    by (auto simp: fun_eq_iff prefixFieldClashes_moves)
  have error_utf8: "val_utf8 (error_text v) = val_utf8 v" "error_text v \<noteq> VErr s" for v :: "'a val" and s
    by (cases v; simp)+
  have as_text: "error_text = (\<lambda>v :: 'a val. case v of VErr err \<Rightarrow> VStr err | _ \<Rightarrow> v)"
    by (rule ext) (simp split: val.splits)
  have "valid_utf8 (Level_String l)" for l by (cases l) (simp_all add: Level_String_def)
  moreover have "valid_utf8 k \<and> val_utf8 v" if "prefixFieldClashes given k = Some v" for k v
    using that utf8 by (auto simp: prefixFieldClashes_moves split: if_splits)
  ultimately have "\<And>k v. ?data k = Some v \<Longrightarrow> valid_utf8 k \<and> val_utf8 v \<and> (\<nexists>s. v = VErr s)"
    using assms(3,4) by (auto simp: json_fields_def moved error_utf8 Let_def split: if_splits)
  moreover have "finite (dom ?data)"
    using finite_prefixFieldClashes [OF assms(1)] by (simp add: json_fields_def moved Let_def dom_map_option_comp)
  ultimately obtain line where "JSON_Format P f entry given = (line, None)" "read_line line = Some ?data"
    using JSON_Format_reads by blast
  moreover have "?data = (\<lambda>k.
      if k = ''time'' then Some (VStr (LE_Time entry (timestamp_format (JF_TimestampFormat f))))
      else if k = ''msg'' then Some (VStr (LE_Message entry))
      else if k = ''level'' then Some (VStr (Level_String (LE_Level entry)))
      else map_option error_text (prefixFieldClashes given k))"
    by (auto simp: json_fields_def moved Let_def fun_eq_iff)
  ultimately show ?thesis
    unfolding as_text prefixFieldClashes_moves timestamp_format_def DefaultTimestampFormat_def
    by (auto simp: if_distrib [of given] cong: if_cong)
qed

definition sample_fields :: "unit Fields" where
  "sample_fields = [''time'' \<mapsto> VErr ''late'', ''n'' \<mapsto> VInt (- 1)]"

theorem json_line_reads_back_witness:
  "\<exists>line (m :: unit Fields). JSON_Format sample_fmtlib \<lparr>JF_TimestampFormat = []\<rparr> sample_entry sample_fields = (line, None) \<and>
     read_line line = Some m \<and> m ''fields.time'' = Some (VStr ''late'') \<and> m ''time'' = Some (VStr ''2016-05-01'') \<and>
     m ''n'' = Some (VInt (- 1))"
proof -
  have f: "finite (dom sample_fields)" by (simp add: sample_fields_def)
  have u: "\<forall>k v. sample_fields k = Some v \<longrightarrow> valid_utf8 k \<and> val_utf8 v" by (auto simp: sample_fields_def)
  have t: "valid_utf8 (LE_Time sample_entry x)" "valid_utf8 (LE_Message sample_entry)" for x
    by (simp_all add: sample_entry_def)
  show ?thesis
    by (insert json_line_reads_back [OF f u t(1) t(2), of sample_fmtlib "\<lparr>JF_TimestampFormat = []\<rparr>"], elim exE conjE,
      intro exI conjI, assumption, assumption) (simp_all add: sample_entry_def sample_fields_def)
qed

text \<open>
  The text formatter moves the fields in the map of the entry itself, after it has collected the keys: the
  field that was moved is missing in this line and stands in the next one of the same entry, which is longer.
\<close>

lemma length_appendKeyValue: "length (appendKeyValue P b k v) = length b + length (appendKeyValue P [] k v)"
  by (simp add: appendKeyValue_def)

lemma length_fold_appendKeyValue:
  "length (fold (\<lambda>key b. appendKeyValue P b key (the (data key))) keys b) =
     length b + sum_list (map (\<lambda>key. length (appendKeyValue P [] key (the (data key)))) keys)"
proof (induction keys arbitrary: b)
  case (Cons k keys)
  then show ?case using length_appendKeyValue [of P b k "the (data k)"] by simp
qed simp

lemma second_line_is_longer:
  assumes "\<not> isColored f isColorTerminal" and v: "given ''time'' = Some v" and new: "given ''fields.time'' = None"
    and others: "given ''msg'' = None" "given ''level'' = None"
    and first: "Text_Format P f isColorTerminal miniTS order entry given = (line, data)"
    and order: "distinct order" "set order = dom given" "distinct order'" "set order' = dom data"
  shows "data = given(''fields.time'' \<mapsto> v) \<and>
    length (fst (Text_Format P f isColorTerminal miniTS' order' entry data)) =
      length line + length (appendKeyValue P [] ''fields.time'' v)"
proof -
  have data: "data = given(''fields.time'' \<mapsto> v)"
    using first v new others by (auto simp: Text_Format_def Let_def prefixFieldClashes_moves)
  then have again: "prefixFieldClashes data = data"
    using v new others by (auto simp: fun_eq_iff prefixFieldClashes_moves)
  have given: "prefixFieldClashes given = data" using first by (auto simp: Text_Format_def Let_def)
  let ?l = "\<lambda>key. length (appendKeyValue P [] key (the (data key)))" and ?stamp = "timestamp_format (TF_TimestampFormat f)"
  have len: "length (plain_text P f entry data (sorted_keys f ks) ?stamp []) =
      length (plain_text P f entry data [] ?stamp []) + sum ?l (set ks)" if "distinct ks" for ks
    using that by (simp add: plain_text_def Let_def length_fold_appendKeyValue sorted_keys_def sum_list_distinct_conv_sum_set)
  have "finite (dom given)" using order(2) by (metis List.finite_set)
  moreover have "''fields.time'' \<notin> dom given" "dom data = insert ''fields.time'' (dom given)" using new data by auto
  ultimately have sum: "sum ?l (dom data) = ?l ''fields.time'' + sum ?l (dom given)" by simp
  have "line = plain_text P f entry data (sorted_keys f order) ?stamp [] @ [CHR 0x0A]"
    using first assms(1) by (auto simp: Text_Format_def Let_def given)
  moreover have "fst (Text_Format P f isColorTerminal miniTS' order' entry data) =
      plain_text P f entry data (sorted_keys f order') ?stamp [] @ [CHR 0x0A]"
    using assms(1) by (simp add: Text_Format_def Let_def again)
  ultimately have "length (fst (Text_Format P f isColorTerminal miniTS' order' entry data)) = length line + ?l ''fields.time''"
    using len [OF order(1)] len [OF order(3)] sum order(2,4) by simp
  then show ?thesis by (simp add: data)
qed

end
