(* ===== verification/Logrus.thy ===== *)
theory Logrus
  imports LogText
begin

text \<open>
  The loggers of logrus: hooks.go, entry.go, logger.go, exported.go and writer.go of the package. Loggers and the maps
  of the entries are shared and live in a store; the hooks, formatters and writers of the program are
  functions on the whole state, so they may log themselves. The mutex of a logger is part of the state: locking
  it again in the same goroutine never returns (\<open>Stuck\<close>). A panic leaves the call as a value, and so does the exit
  of the process. Every logger has a map of hooks of its own, every entry has a logger, and the key of
  an error is the one the package starts with.
\<close>

section \<open>State\<close>

datatype 'x Formatter = TextF TextFormatter | JSONF JSONFormatter | OwnF 'x

datatype 'x Writer = Os_Stderr | OwnW 'x

record 'x Logger =
  LG_Out :: "'x Writer"
  LG_Hooks :: "(Level \<Rightarrow> 'x list option) option"    \<comment> \<open>a nil map is None\<close>
  LG_Formatter :: "'x Formatter"
  LG_Level :: Level
  LG_mu :: bool                                   \<comment> \<open>whether the mutex is locked\<close>

record ('x, 'w) logs =
  LS_loggers :: "nat \<Rightarrow> 'x Logger"
  LS_data :: "nat \<Rightarrow> 'x Fields"
  LS_next :: nat
  LS_stderr :: string
  LS_world :: 'w

text \<open>What is not logrus: the clock, the terminal, the order of a range, and the program's hooks, formatters and writers.\<close>

record ('x, 'w) prog = "'x fmtlib" +
  LP_now :: "'w \<Rightarrow> string \<Rightarrow> string"
  LP_seconds :: "'w \<Rightarrow> int"
  LP_tty :: bool
  LP_range :: "'w \<Rightarrow> 'x Fields \<Rightarrow> string list"
  LP_Levels :: "'x \<Rightarrow> Level list"
  LP_Fire :: "'x \<Rightarrow> 'x Entry \<Rightarrow> ('x, 'w) logs \<Rightarrow> string option \<times> 'x Entry \<times> ('x, 'w) logs"
  LP_Format :: "'x \<Rightarrow> 'x Entry \<Rightarrow> ('x, 'w) logs \<Rightarrow> (string \<times> string option) \<times> 'x Entry \<times> ('x, 'w) logs"
  LP_Write :: "'x \<Rightarrow> string \<Rightarrow> ('x, 'w) logs \<Rightarrow> (nat \<times> string option) \<times> ('x, 'w) logs"

datatype 'x panic = PEntry "'x Entry" | PText string

datatype 'x ended =
    Returned
  | Panicked "'x panic"
  | Exited                \<comment> \<open>os.Exit(1)\<close>
  | Stuck                 \<comment> \<open>waits for ever for the mutex\<close>

type_synonym ('x, 'w) act = "('x, 'w) logs \<Rightarrow> 'x ended \<times> ('x, 'w) logs"

definition andThen :: "('x, 'w) act \<Rightarrow> ('x, 'w) act \<Rightarrow> ('x, 'w) act" where
  "andThen m k s = (case m s of (r, s') \<Rightarrow> if r = Returned then k s' else (r, s'))"

definition nop :: "('x, 'w) act" where
  "nop s = (Returned, s)"

definition exit1 :: "('x, 'w) act" where
  "exit1 s = (Exited, s)"

definition panic :: "'x panic \<Rightarrow> ('x, 'w) act" where
  "panic v s = (Panicked v, s)"

definition put_logger :: "nat \<Rightarrow> 'x Logger \<Rightarrow> ('x, 'w) logs \<Rightarrow> ('x, 'w) logs" where
  "put_logger l g s = s\<lparr>LS_loggers := (LS_loggers s)(l := g)\<rparr>"

definition set_mu :: "nat \<Rightarrow> bool \<Rightarrow> ('x, 'w) logs \<Rightarrow> ('x, 'w) logs" where
  "set_mu l b s = put_logger l ((LS_loggers s l)\<lparr>LG_mu := b\<rparr>) s"

text \<open>Lock, the steps, and the unlock that also runs when they panic.\<close>

definition with_mu :: "nat \<Rightarrow> ('x, 'w) act \<Rightarrow> ('x, 'w) act" where
  "with_mu l m s =
     (if LG_mu (LS_loggers s l) then (Stuck, s)
      else case m (set_mu l True s) of (r, s') \<Rightarrow> (r, set_mu l False s'))"

definition to_stderr :: "string \<Rightarrow> ('x, 'w) act" where
  "to_stderr t s = (Returned, s\<lparr>LS_stderr := LS_stderr s @ t\<rparr>)"

section \<open>Hooks\<close>

definition Hooks_Add :: "('x, 'w) prog \<Rightarrow> nat \<Rightarrow> 'x \<Rightarrow> ('x, 'w) act" where
  "Hooks_Add P l hook s =
     (case LG_Hooks (LS_loggers s l) of
        None \<Rightarrow> if LP_Levels P hook = [] then nop s else panic (PText ''assignment to entry in nil map'') s
      | Some hooks \<Rightarrow>
          nop (put_logger l ((LS_loggers s l)\<lparr>LG_Hooks :=
            Some (fold (\<lambda>level hooks. hooks(level \<mapsto> (case hooks level of None \<Rightarrow> [] | Some hs \<Rightarrow> hs) @ [hook]))
              (LP_Levels P hook) hooks)\<rparr>) s))"

fun fire_each :: "('x, 'w) prog \<Rightarrow> 'x list \<Rightarrow> 'x Entry \<Rightarrow> ('x, 'w) logs \<Rightarrow> string option \<times> 'x Entry \<times> ('x, 'w) logs" where
  "fire_each P [] entry s = (None, entry, s)"
| "fire_each P (hook # hooks) entry s =
     (case LP_Fire P hook entry s of (err, entry, s) \<Rightarrow>
        if err \<noteq> None then (err, entry, s) else fire_each P hooks entry s)"

definition hooks_of :: "'x Logger \<Rightarrow> Level \<Rightarrow> 'x list" where
  "hooks_of g level = (case LG_Hooks g of None \<Rightarrow> [] | Some hooks \<Rightarrow> (case hooks level of None \<Rightarrow> [] | Some hs \<Rightarrow> hs))"

definition Hooks_Fire :: "('x, 'w) prog \<Rightarrow> 'x Logger \<Rightarrow> Level \<Rightarrow> 'x Entry \<Rightarrow> ('x, 'w) logs \<Rightarrow> string option \<times> 'x Entry \<times> ('x, 'w) logs" where
  "Hooks_Fire P g level entry s = fire_each P (hooks_of g level) entry s"

section \<open>Entries\<close>

definition ErrorKey :: string where
  "ErrorKey = ''error''"

definition new_entry :: "nat \<Rightarrow> 'x Fields \<Rightarrow> ('x, 'w) logs \<Rightarrow> 'x Entry \<times> ('x, 'w) logs" where
  "new_entry l data s =
     (\<lparr>LE_Logger = l, LE_Data = LS_next s, LE_Time = (\<lambda>_. []), LE_Level = PanicLevel, LE_Message = []\<rparr>,
      s\<lparr>LS_data := (LS_data s)(LS_next s := data), LS_next := Suc (LS_next s)\<rparr>)"

definition NewEntry :: "nat \<Rightarrow> ('x, 'w) logs \<Rightarrow> 'x Entry \<times> ('x, 'w) logs" where
  "NewEntry logger s = new_entry logger Map.empty s"

definition Entry_WithFields :: "'x Entry \<Rightarrow> 'x Fields \<Rightarrow> ('x, 'w) logs \<Rightarrow> 'x Entry \<times> ('x, 'w) logs" where
  "Entry_WithFields entry given s = new_entry (LE_Logger entry) (LS_data s (LE_Data entry) ++ given) s"

definition Entry_WithField :: "'x Entry \<Rightarrow> string \<Rightarrow> 'x val \<Rightarrow> ('x, 'w) logs \<Rightarrow> 'x Entry \<times> ('x, 'w) logs" where
  "Entry_WithField entry key v s = Entry_WithFields entry [key \<mapsto> v] s"

definition Entry_WithError :: "'x Entry \<Rightarrow> 'x val \<Rightarrow> ('x, 'w) logs \<Rightarrow> 'x Entry \<times> ('x, 'w) logs" where
  "Entry_WithError entry err s = Entry_WithField entry ErrorKey err s"

text \<open>The bytes and the error of the formatter of the entry's logger.\<close>

definition Entry_Reader :: "('x, 'w) prog \<Rightarrow> 'x Entry \<Rightarrow> ('x, 'w) logs \<Rightarrow> (string \<times> string option) \<times> 'x Entry \<times> ('x, 'w) logs" where
  "Entry_Reader P entry s =
     (case LG_Formatter (LS_loggers s (LE_Logger entry)) of
        TextF f \<Rightarrow>
          (case Text_Format P f (LP_tty P) (LP_seconds P (LS_world s)) (LP_range P (LS_world s) (LS_data s (LE_Data entry)))
              entry (LS_data s (LE_Data entry)) of
             (serialized, data) \<Rightarrow> ((serialized, None), entry, s\<lparr>LS_data := (LS_data s)(LE_Data entry := data)\<rparr>))
      | JSONF f \<Rightarrow> (JSON_Format P f entry (LS_data s (LE_Data entry)), entry, s)
      | OwnF x \<Rightarrow> LP_Format P x entry s)"

definition Entry_String :: "('x, 'w) prog \<Rightarrow> 'x Entry \<Rightarrow> ('x, 'w) logs \<Rightarrow> (string \<times> string option) \<times> 'x Entry \<times> ('x, 'w) logs" where
  "Entry_String P entry s =
     (case Entry_Reader P entry s of ((serialized, err), entry, s) \<Rightarrow>
        if err \<noteq> None then (([], err), entry, s) else ((serialized, None), entry, s))"

text \<open>\<open>io.Copy\<close> from a buffer: one Write of all its bytes, none when there are no bytes.\<close>

definition write_out :: "('x, 'w) prog \<Rightarrow> 'x Writer \<Rightarrow> string \<Rightarrow> ('x, 'w) logs \<Rightarrow> (nat \<times> string option) \<times> ('x, 'w) logs" where
  "write_out P out p s =
     (case out of
        Os_Stderr \<Rightarrow> ((length p, None), s\<lparr>LS_stderr := LS_stderr s @ p\<rparr>)
      | OwnW x \<Rightarrow> LP_Write P x p s)"

definition copy_out :: "('x, 'w) prog \<Rightarrow> nat \<Rightarrow> string \<Rightarrow> ('x, 'w) act" where
  "copy_out P l p s =
     (if p = [] then nop s
      else case write_out P (LG_Out (LS_loggers s l)) p s of ((n, err), s) \<Rightarrow>
        if length p < n then panic (PText ''bytes.Buffer.WriteTo: invalid Write count'') s
        else case (if err = None \<and> n \<noteq> length p then Some ''short write'' else err) of
          None \<Rightarrow> nop s
        | Some e \<Rightarrow> to_stderr (''Failed to write to log, '' @ e @ [CHR 0x0A]) s)"

definition report :: "nat \<Rightarrow> string \<Rightarrow> string option \<Rightarrow> ('x, 'w) act" where
  "report l what err =
     (case err of None \<Rightarrow> nop | Some e \<Rightarrow> with_mu l (to_stderr (what @ e @ [CHR 0x0A])))"

definition Entry_log :: "('x, 'w) prog \<Rightarrow> 'x Entry \<Rightarrow> Level \<Rightarrow> string \<Rightarrow> ('x, 'w) act" where
  "Entry_log P entry level msg s =
     (let entry = entry\<lparr>LE_Time := LP_now P (LS_world s), LE_Level := level, LE_Message := msg\<rparr>
      in case Hooks_Fire P (LS_loggers s (LE_Logger entry)) level entry s of (err, entry, s) \<Rightarrow>
         andThen (report (LE_Logger entry) ''Failed to fire hook: '' err)
           (\<lambda>s. case Entry_Reader P entry s of ((serialized, err), entry, s) \<Rightarrow>
              andThen (report (LE_Logger entry) ''Failed to obtain reader, '' err)
                (with_mu (LE_Logger entry)
                  (andThen (copy_out P (LE_Logger entry) serialized)
                    (if level \<le> PanicLevel then panic (PEntry entry) else nop))) s) s)"

text \<open>\<open>if logger.Level >= level\<close>, and a call on a fresh entry of a logger.\<close>

definition at_level :: "nat \<Rightarrow> Level \<Rightarrow> ('x, 'w) act \<Rightarrow> ('x, 'w) act" where
  "at_level l level m s = (if level \<le> LG_Level (LS_loggers s l) then m s else nop s)"

definition on_new_entry :: "nat \<Rightarrow> ('x Entry \<Rightarrow> ('x, 'w) act) \<Rightarrow> ('x, 'w) act" where
  "on_new_entry logger m s = (case NewEntry logger s of (entry, s) \<Rightarrow> m entry s)"

section \<open>Logging through an entry\<close>

definition Entry_Debug :: "('x, 'w) prog \<Rightarrow> 'x Entry \<Rightarrow> 'x val list \<Rightarrow> ('x, 'w) act" where
  "Entry_Debug P entry args = at_level (LE_Logger entry) DebugLevel (Entry_log P entry DebugLevel (Sprint P args))"

definition Entry_Info :: "('x, 'w) prog \<Rightarrow> 'x Entry \<Rightarrow> 'x val list \<Rightarrow> ('x, 'w) act" where
  "Entry_Info P entry args = at_level (LE_Logger entry) InfoLevel (Entry_log P entry InfoLevel (Sprint P args))"

definition Entry_Print :: "('x, 'w) prog \<Rightarrow> 'x Entry \<Rightarrow> 'x val list \<Rightarrow> ('x, 'w) act" where
  "Entry_Print P entry args = Entry_Info P entry args"

definition Entry_Warn :: "('x, 'w) prog \<Rightarrow> 'x Entry \<Rightarrow> 'x val list \<Rightarrow> ('x, 'w) act" where
  "Entry_Warn P entry args = at_level (LE_Logger entry) WarnLevel (Entry_log P entry WarnLevel (Sprint P args))"

definition Entry_Warning :: "('x, 'w) prog \<Rightarrow> 'x Entry \<Rightarrow> 'x val list \<Rightarrow> ('x, 'w) act" where
  "Entry_Warning P entry args = Entry_Warn P entry args"

definition Entry_Error :: "('x, 'w) prog \<Rightarrow> 'x Entry \<Rightarrow> 'x val list \<Rightarrow> ('x, 'w) act" where
  "Entry_Error P entry args = at_level (LE_Logger entry) ErrorLevel (Entry_log P entry ErrorLevel (Sprint P args))"

definition Entry_Fatal :: "('x, 'w) prog \<Rightarrow> 'x Entry \<Rightarrow> 'x val list \<Rightarrow> ('x, 'w) act" where
  "Entry_Fatal P entry args = andThen (at_level (LE_Logger entry) FatalLevel (Entry_log P entry FatalLevel (Sprint P args))) exit1"

definition Entry_Panic :: "('x, 'w) prog \<Rightarrow> 'x Entry \<Rightarrow> 'x val list \<Rightarrow> ('x, 'w) act" where
  "Entry_Panic P entry args = andThen (at_level (LE_Logger entry) PanicLevel (Entry_log P entry PanicLevel (Sprint P args))) (panic (PText (Sprint P args)))"

text \<open>The Printf family.\<close>

definition Entry_Debugf :: "('x, 'w) prog \<Rightarrow> 'x Entry \<Rightarrow> string \<Rightarrow> 'x val list \<Rightarrow> ('x, 'w) act" where
  "Entry_Debugf P entry format args = at_level (LE_Logger entry) DebugLevel (Entry_Debug P entry [VStr (FL_Sprintf P format args)])"

definition Entry_Infof :: "('x, 'w) prog \<Rightarrow> 'x Entry \<Rightarrow> string \<Rightarrow> 'x val list \<Rightarrow> ('x, 'w) act" where
  "Entry_Infof P entry format args = at_level (LE_Logger entry) InfoLevel (Entry_Info P entry [VStr (FL_Sprintf P format args)])"

definition Entry_Printf :: "('x, 'w) prog \<Rightarrow> 'x Entry \<Rightarrow> string \<Rightarrow> 'x val list \<Rightarrow> ('x, 'w) act" where
  "Entry_Printf P entry format args = Entry_Infof P entry format args"

definition Entry_Warnf :: "('x, 'w) prog \<Rightarrow> 'x Entry \<Rightarrow> string \<Rightarrow> 'x val list \<Rightarrow> ('x, 'w) act" where
  "Entry_Warnf P entry format args = at_level (LE_Logger entry) WarnLevel (Entry_Warn P entry [VStr (FL_Sprintf P format args)])"

definition Entry_Warningf :: "('x, 'w) prog \<Rightarrow> 'x Entry \<Rightarrow> string \<Rightarrow> 'x val list \<Rightarrow> ('x, 'w) act" where
  "Entry_Warningf P entry format args = Entry_Warnf P entry format args"

definition Entry_Errorf :: "('x, 'w) prog \<Rightarrow> 'x Entry \<Rightarrow> string \<Rightarrow> 'x val list \<Rightarrow> ('x, 'w) act" where
  "Entry_Errorf P entry format args = at_level (LE_Logger entry) ErrorLevel (Entry_Error P entry [VStr (FL_Sprintf P format args)])"

definition Entry_Fatalf :: "('x, 'w) prog \<Rightarrow> 'x Entry \<Rightarrow> string \<Rightarrow> 'x val list \<Rightarrow> ('x, 'w) act" where
  "Entry_Fatalf P entry format args = andThen (at_level (LE_Logger entry) FatalLevel (Entry_Fatal P entry [VStr (FL_Sprintf P format args)])) exit1"

definition Entry_Panicf :: "('x, 'w) prog \<Rightarrow> 'x Entry \<Rightarrow> string \<Rightarrow> 'x val list \<Rightarrow> ('x, 'w) act" where
  "Entry_Panicf P entry format args = at_level (LE_Logger entry) PanicLevel (Entry_Panic P entry [VStr (FL_Sprintf P format args)])"

text \<open>The Println family.\<close>

definition Entry_Debugln :: "('x, 'w) prog \<Rightarrow> 'x Entry \<Rightarrow> 'x val list \<Rightarrow> ('x, 'w) act" where
  "Entry_Debugln P entry args = at_level (LE_Logger entry) DebugLevel (Entry_Debug P entry [VStr (sprintlnn P args)])"

definition Entry_Infoln :: "('x, 'w) prog \<Rightarrow> 'x Entry \<Rightarrow> 'x val list \<Rightarrow> ('x, 'w) act" where
  "Entry_Infoln P entry args = at_level (LE_Logger entry) InfoLevel (Entry_Info P entry [VStr (sprintlnn P args)])"

definition Entry_Println :: "('x, 'w) prog \<Rightarrow> 'x Entry \<Rightarrow> 'x val list \<Rightarrow> ('x, 'w) act" where
  "Entry_Println P entry args = Entry_Infoln P entry args"

definition Entry_Warnln :: "('x, 'w) prog \<Rightarrow> 'x Entry \<Rightarrow> 'x val list \<Rightarrow> ('x, 'w) act" where
  "Entry_Warnln P entry args = at_level (LE_Logger entry) WarnLevel (Entry_Warn P entry [VStr (sprintlnn P args)])"

definition Entry_Warningln :: "('x, 'w) prog \<Rightarrow> 'x Entry \<Rightarrow> 'x val list \<Rightarrow> ('x, 'w) act" where
  "Entry_Warningln P entry args = Entry_Warnln P entry args"

definition Entry_Errorln :: "('x, 'w) prog \<Rightarrow> 'x Entry \<Rightarrow> 'x val list \<Rightarrow> ('x, 'w) act" where
  "Entry_Errorln P entry args = at_level (LE_Logger entry) ErrorLevel (Entry_Error P entry [VStr (sprintlnn P args)])"

definition Entry_Fatalln :: "('x, 'w) prog \<Rightarrow> 'x Entry \<Rightarrow> 'x val list \<Rightarrow> ('x, 'w) act" where
  "Entry_Fatalln P entry args = andThen (at_level (LE_Logger entry) FatalLevel (Entry_Fatal P entry [VStr (sprintlnn P args)])) exit1"

definition Entry_Panicln :: "('x, 'w) prog \<Rightarrow> 'x Entry \<Rightarrow> 'x val list \<Rightarrow> ('x, 'w) act" where
  "Entry_Panicln P entry args = at_level (LE_Logger entry) PanicLevel (Entry_Panic P entry [VStr (sprintlnn P args)])"

section \<open>Logging through a logger\<close>

definition New_Logger :: "'x Logger" where
  "New_Logger = \<lparr>LG_Out = Os_Stderr, LG_Hooks = Some Map.empty,
     LG_Formatter = TextF \<lparr>TF_ForceColors = False, TF_DisableColors = False, TF_DisableTimestamp = False,
       TF_FullTimestamp = False, TF_TimestampFormat = [], TF_DisableSorting = False\<rparr>,
     LG_Level = InfoLevel, LG_mu = False\<rparr>"

definition Logger_WithField :: "nat \<Rightarrow> string \<Rightarrow> 'x val \<Rightarrow> ('x, 'w) logs \<Rightarrow> 'x Entry \<times> ('x, 'w) logs" where
  "Logger_WithField logger key v s = (case NewEntry logger s of (entry, s) \<Rightarrow> Entry_WithField entry key v s)"

definition Logger_WithFields :: "nat \<Rightarrow> 'x Fields \<Rightarrow> ('x, 'w) logs \<Rightarrow> 'x Entry \<times> ('x, 'w) logs" where
  "Logger_WithFields logger given s = (case NewEntry logger s of (entry, s) \<Rightarrow> Entry_WithFields entry given s)"

definition Logger_Debugf :: "('x, 'w) prog \<Rightarrow> nat \<Rightarrow> string \<Rightarrow> 'x val list \<Rightarrow> ('x, 'w) act" where
  "Logger_Debugf P logger format args = at_level logger DebugLevel (on_new_entry logger (\<lambda>entry. Entry_Debugf P entry format args))"

definition Logger_Printf :: "('x, 'w) prog \<Rightarrow> nat \<Rightarrow> string \<Rightarrow> 'x val list \<Rightarrow> ('x, 'w) act" where
  "Logger_Printf P logger format args = on_new_entry logger (\<lambda>entry. Entry_Printf P entry format args)"

definition Logger_Infof :: "('x, 'w) prog \<Rightarrow> nat \<Rightarrow> string \<Rightarrow> 'x val list \<Rightarrow> ('x, 'w) act" where
  "Logger_Infof P logger format args = at_level logger InfoLevel (on_new_entry logger (\<lambda>entry. Entry_Infof P entry format args))"

definition Logger_Warnf :: "('x, 'w) prog \<Rightarrow> nat \<Rightarrow> string \<Rightarrow> 'x val list \<Rightarrow> ('x, 'w) act" where
  "Logger_Warnf P logger format args = at_level logger WarnLevel (on_new_entry logger (\<lambda>entry. Entry_Warnf P entry format args))"

definition Logger_Warningf :: "('x, 'w) prog \<Rightarrow> nat \<Rightarrow> string \<Rightarrow> 'x val list \<Rightarrow> ('x, 'w) act" where
  "Logger_Warningf P logger format args = at_level logger WarnLevel (on_new_entry logger (\<lambda>entry. Entry_Warnf P entry format args))"

definition Logger_Errorf :: "('x, 'w) prog \<Rightarrow> nat \<Rightarrow> string \<Rightarrow> 'x val list \<Rightarrow> ('x, 'w) act" where
  "Logger_Errorf P logger format args = at_level logger ErrorLevel (on_new_entry logger (\<lambda>entry. Entry_Errorf P entry format args))"

definition Logger_Fatalf :: "('x, 'w) prog \<Rightarrow> nat \<Rightarrow> string \<Rightarrow> 'x val list \<Rightarrow> ('x, 'w) act" where
  "Logger_Fatalf P logger format args = andThen (at_level logger FatalLevel (on_new_entry logger (\<lambda>entry. Entry_Fatalf P entry format args))) exit1"

definition Logger_Panicf :: "('x, 'w) prog \<Rightarrow> nat \<Rightarrow> string \<Rightarrow> 'x val list \<Rightarrow> ('x, 'w) act" where
  "Logger_Panicf P logger format args = at_level logger PanicLevel (on_new_entry logger (\<lambda>entry. Entry_Panicf P entry format args))"

definition Logger_Debug :: "('x, 'w) prog \<Rightarrow> nat \<Rightarrow> 'x val list \<Rightarrow> ('x, 'w) act" where
  "Logger_Debug P logger args = at_level logger DebugLevel (on_new_entry logger (\<lambda>entry. Entry_Debug P entry args))"

definition Logger_Print :: "('x, 'w) prog \<Rightarrow> nat \<Rightarrow> 'x val list \<Rightarrow> ('x, 'w) act" where
  "Logger_Print P logger args = on_new_entry logger (\<lambda>entry. Entry_Info P entry args)"

definition Logger_Info :: "('x, 'w) prog \<Rightarrow> nat \<Rightarrow> 'x val list \<Rightarrow> ('x, 'w) act" where
  "Logger_Info P logger args = at_level logger InfoLevel (on_new_entry logger (\<lambda>entry. Entry_Info P entry args))"

definition Logger_Warn :: "('x, 'w) prog \<Rightarrow> nat \<Rightarrow> 'x val list \<Rightarrow> ('x, 'w) act" where
  "Logger_Warn P logger args = at_level logger WarnLevel (on_new_entry logger (\<lambda>entry. Entry_Warn P entry args))"

definition Logger_Warning :: "('x, 'w) prog \<Rightarrow> nat \<Rightarrow> 'x val list \<Rightarrow> ('x, 'w) act" where
  "Logger_Warning P logger args = at_level logger WarnLevel (on_new_entry logger (\<lambda>entry. Entry_Warn P entry args))"

definition Logger_Error :: "('x, 'w) prog \<Rightarrow> nat \<Rightarrow> 'x val list \<Rightarrow> ('x, 'w) act" where
  "Logger_Error P logger args = at_level logger ErrorLevel (on_new_entry logger (\<lambda>entry. Entry_Error P entry args))"

definition Logger_Fatal :: "('x, 'w) prog \<Rightarrow> nat \<Rightarrow> 'x val list \<Rightarrow> ('x, 'w) act" where
  "Logger_Fatal P logger args = andThen (at_level logger FatalLevel (on_new_entry logger (\<lambda>entry. Entry_Fatal P entry args))) exit1"

definition Logger_Panic :: "('x, 'w) prog \<Rightarrow> nat \<Rightarrow> 'x val list \<Rightarrow> ('x, 'w) act" where
  "Logger_Panic P logger args = at_level logger PanicLevel (on_new_entry logger (\<lambda>entry. Entry_Panic P entry args))"

definition Logger_Debugln :: "('x, 'w) prog \<Rightarrow> nat \<Rightarrow> 'x val list \<Rightarrow> ('x, 'w) act" where
  "Logger_Debugln P logger args = at_level logger DebugLevel (on_new_entry logger (\<lambda>entry. Entry_Debugln P entry args))"

definition Logger_Println :: "('x, 'w) prog \<Rightarrow> nat \<Rightarrow> 'x val list \<Rightarrow> ('x, 'w) act" where
  "Logger_Println P logger args = on_new_entry logger (\<lambda>entry. Entry_Println P entry args)"

definition Logger_Infoln :: "('x, 'w) prog \<Rightarrow> nat \<Rightarrow> 'x val list \<Rightarrow> ('x, 'w) act" where
  "Logger_Infoln P logger args = at_level logger InfoLevel (on_new_entry logger (\<lambda>entry. Entry_Infoln P entry args))"

definition Logger_Warnln :: "('x, 'w) prog \<Rightarrow> nat \<Rightarrow> 'x val list \<Rightarrow> ('x, 'w) act" where
  "Logger_Warnln P logger args = at_level logger WarnLevel (on_new_entry logger (\<lambda>entry. Entry_Warnln P entry args))"

definition Logger_Warningln :: "('x, 'w) prog \<Rightarrow> nat \<Rightarrow> 'x val list \<Rightarrow> ('x, 'w) act" where
  "Logger_Warningln P logger args = at_level logger WarnLevel (on_new_entry logger (\<lambda>entry. Entry_Warnln P entry args))"

definition Logger_Errorln :: "('x, 'w) prog \<Rightarrow> nat \<Rightarrow> 'x val list \<Rightarrow> ('x, 'w) act" where
  "Logger_Errorln P logger args = at_level logger ErrorLevel (on_new_entry logger (\<lambda>entry. Entry_Errorln P entry args))"

definition Logger_Fatalln :: "('x, 'w) prog \<Rightarrow> nat \<Rightarrow> 'x val list \<Rightarrow> ('x, 'w) act" where
  "Logger_Fatalln P logger args = andThen (at_level logger FatalLevel (on_new_entry logger (\<lambda>entry. Entry_Fatalln P entry args))) exit1"

definition Logger_Panicln :: "('x, 'w) prog \<Rightarrow> nat \<Rightarrow> 'x val list \<Rightarrow> ('x, 'w) act" where
  "Logger_Panicln P logger args = at_level logger PanicLevel (on_new_entry logger (\<lambda>entry. Entry_Panicln P entry args))"

section \<open>The standard logger\<close>

definition std :: nat where
  "std = 0"

definition set_std :: "('x Logger \<Rightarrow> 'x Logger) \<Rightarrow> ('x, 'w) act" where
  "set_std f = with_mu std (\<lambda>s. nop (put_logger std (f (LS_loggers s std)) s))"

definition SetOutput :: "'x Writer \<Rightarrow> ('x, 'w) act" where
  "SetOutput out = set_std (\<lambda>g. g\<lparr>LG_Out := out\<rparr>)"

definition SetFormatter :: "'x Formatter \<Rightarrow> ('x, 'w) act" where
  "SetFormatter formatter = set_std (\<lambda>g. g\<lparr>LG_Formatter := formatter\<rparr>)"

definition SetLevel :: "Level \<Rightarrow> ('x, 'w) act" where
  "SetLevel level = set_std (\<lambda>g. g\<lparr>LG_Level := level\<rparr>)"

definition GetLevel :: "('x, 'w) logs \<Rightarrow> ('x ended \<times> Level) \<times> ('x, 'w) logs" where
  "GetLevel s = (case with_mu std nop s of (r, s') \<Rightarrow> ((r, LG_Level (LS_loggers s std)), s'))"

definition AddHook :: "('x, 'w) prog \<Rightarrow> 'x \<Rightarrow> ('x, 'w) act" where
  "AddHook P hook = with_mu std (Hooks_Add P std hook)"

definition log_WithError :: "'x val \<Rightarrow> ('x, 'w) logs \<Rightarrow> 'x Entry \<times> ('x, 'w) logs" where
  "log_WithError err = Logger_WithField std ErrorKey err"

definition log_WithField :: "string \<Rightarrow> 'x val \<Rightarrow> ('x, 'w) logs \<Rightarrow> 'x Entry \<times> ('x, 'w) logs" where
  "log_WithField key v = Logger_WithField std key v"

definition log_WithFields :: "'x Fields \<Rightarrow> ('x, 'w) logs \<Rightarrow> 'x Entry \<times> ('x, 'w) logs" where
  "log_WithFields given = Logger_WithFields std given"

definition log_Debug :: "('x, 'w) prog \<Rightarrow> 'x val list \<Rightarrow> ('x, 'w) act" where
  "log_Debug P args = Logger_Debug P std args"

definition log_Print :: "('x, 'w) prog \<Rightarrow> 'x val list \<Rightarrow> ('x, 'w) act" where
  "log_Print P args = Logger_Print P std args"

definition log_Info :: "('x, 'w) prog \<Rightarrow> 'x val list \<Rightarrow> ('x, 'w) act" where
  "log_Info P args = Logger_Info P std args"

definition log_Warn :: "('x, 'w) prog \<Rightarrow> 'x val list \<Rightarrow> ('x, 'w) act" where
  "log_Warn P args = Logger_Warn P std args"

definition log_Warning :: "('x, 'w) prog \<Rightarrow> 'x val list \<Rightarrow> ('x, 'w) act" where
  "log_Warning P args = Logger_Warning P std args"

definition log_Error :: "('x, 'w) prog \<Rightarrow> 'x val list \<Rightarrow> ('x, 'w) act" where
  "log_Error P args = Logger_Error P std args"

definition log_Fatal :: "('x, 'w) prog \<Rightarrow> 'x val list \<Rightarrow> ('x, 'w) act" where
  "log_Fatal P args = Logger_Fatal P std args"

definition log_Panic :: "('x, 'w) prog \<Rightarrow> 'x val list \<Rightarrow> ('x, 'w) act" where
  "log_Panic P args = Logger_Panic P std args"

definition log_Debugf :: "('x, 'w) prog \<Rightarrow> string \<Rightarrow> 'x val list \<Rightarrow> ('x, 'w) act" where
  "log_Debugf P format args = Logger_Debugf P std format args"

definition log_Printf :: "('x, 'w) prog \<Rightarrow> string \<Rightarrow> 'x val list \<Rightarrow> ('x, 'w) act" where
  "log_Printf P format args = Logger_Printf P std format args"

definition log_Infof :: "('x, 'w) prog \<Rightarrow> string \<Rightarrow> 'x val list \<Rightarrow> ('x, 'w) act" where
  "log_Infof P format args = Logger_Infof P std format args"

definition log_Warnf :: "('x, 'w) prog \<Rightarrow> string \<Rightarrow> 'x val list \<Rightarrow> ('x, 'w) act" where
  "log_Warnf P format args = Logger_Warnf P std format args"

definition log_Warningf :: "('x, 'w) prog \<Rightarrow> string \<Rightarrow> 'x val list \<Rightarrow> ('x, 'w) act" where
  "log_Warningf P format args = Logger_Warningf P std format args"

definition log_Errorf :: "('x, 'w) prog \<Rightarrow> string \<Rightarrow> 'x val list \<Rightarrow> ('x, 'w) act" where
  "log_Errorf P format args = Logger_Errorf P std format args"

definition log_Fatalf :: "('x, 'w) prog \<Rightarrow> string \<Rightarrow> 'x val list \<Rightarrow> ('x, 'w) act" where
  "log_Fatalf P format args = Logger_Fatalf P std format args"

definition log_Panicf :: "('x, 'w) prog \<Rightarrow> string \<Rightarrow> 'x val list \<Rightarrow> ('x, 'w) act" where
  "log_Panicf P format args = Logger_Panicf P std format args"

definition log_Debugln :: "('x, 'w) prog \<Rightarrow> 'x val list \<Rightarrow> ('x, 'w) act" where
  "log_Debugln P args = Logger_Debugln P std args"

definition log_Println :: "('x, 'w) prog \<Rightarrow> 'x val list \<Rightarrow> ('x, 'w) act" where
  "log_Println P args = Logger_Println P std args"

definition log_Infoln :: "('x, 'w) prog \<Rightarrow> 'x val list \<Rightarrow> ('x, 'w) act" where
  "log_Infoln P args = Logger_Infoln P std args"

definition log_Warnln :: "('x, 'w) prog \<Rightarrow> 'x val list \<Rightarrow> ('x, 'w) act" where
  "log_Warnln P args = Logger_Warnln P std args"

definition log_Warningln :: "('x, 'w) prog \<Rightarrow> 'x val list \<Rightarrow> ('x, 'w) act" where
  "log_Warningln P args = Logger_Warningln P std args"

definition log_Errorln :: "('x, 'w) prog \<Rightarrow> 'x val list \<Rightarrow> ('x, 'w) act" where
  "log_Errorln P args = Logger_Errorln P std args"

definition log_Fatalln :: "('x, 'w) prog \<Rightarrow> 'x val list \<Rightarrow> ('x, 'w) act" where
  "log_Fatalln P args = Logger_Fatalln P std args"

definition log_Panicln :: "('x, 'w) prog \<Rightarrow> 'x val list \<Rightarrow> ('x, 'w) act" where
  "log_Panicln P args = Logger_Panicln P std args"

section \<open>A logger as a writer\<close>

text \<open>
  \<open>bufio.Scanner\<close> on all that is written before the pipe is closed: the lines, and the error that ends the scan at a
  line of 64K or more.
\<close>

definition drop_cr :: "string \<Rightarrow> string" where
  "drop_cr line = (if line \<noteq> [] \<and> last line = CHR 0x0D then butlast line else line)"

function scan_lines :: "string \<Rightarrow> string list \<times> string option" where
  "scan_lines input =
     (let line = takeWhile (\<lambda>c. c \<noteq> CHR 0x0A) input
      in if input = [] then ([], None)
         else if 65536 \<le> length line then ([], Some ''bufio.Scanner: token too long'')
         else case scan_lines (drop (Suc (length line)) input) of (lines, err) \<Rightarrow> (drop_cr line # lines, err))"
  by pat_completeness auto
termination
  by (relation "measure length") simp_all

declare scan_lines.simps [simp del]

definition writerScanner :: "('x, 'w) prog \<Rightarrow> nat \<Rightarrow> string \<Rightarrow> ('x, 'w) act" where
  "writerScanner P logger input =
     (case scan_lines input of (lines, err) \<Rightarrow>
        andThen (fold (\<lambda>line k. andThen k (Logger_Print P logger [VStr line])) lines nop)
          (case err of
             None \<Rightarrow> nop
           | Some e \<Rightarrow> Logger_Errorf P logger ''Error while reading from Writer: %s'' [VErr e]))"

section \<open>Sequencing\<close>

lemma andThen_simps [simp]:
  "m s = (Returned, s') \<Longrightarrow> andThen m k s = k s'"
  "m s = (Panicked v, s') \<Longrightarrow> andThen m k s = (Panicked v, s')"
  "m s = (Exited, s') \<Longrightarrow> andThen m k s = (Exited, s')"
  "m s = (Stuck, s') \<Longrightarrow> andThen m k s = (Stuck, s')"
  by (simp_all add: andThen_def)

lemma andThen_nop [simp]: "andThen nop k = k"
  by (simp add: fun_eq_iff nop_def)

lemma LS_loggers_put [simp]:
  "LS_loggers (put_logger l g s) = (LS_loggers s)(l := g)" "LS_data (put_logger l g s) = LS_data s"
  "LS_world (put_logger l g s) = LS_world s" "LS_stderr (put_logger l g s) = LS_stderr s"
  by (simp_all add: put_logger_def)

section \<open>The families of calls\<close>

text \<open>The check of the level is made twice, by the logger and by the entry, with one outcome.\<close>

lemma at_level_again [simp]:
  "at_level l level (on_new_entry l (\<lambda>entry. at_level (LE_Logger entry) level (m entry))) = at_level l level (on_new_entry l m)"
  by (auto simp: fun_eq_iff at_level_def on_new_entry_def NewEntry_def new_entry_def)

lemma at_level_twice [simp]: "at_level l level (at_level l level m) = at_level l level m"
  by (auto simp: fun_eq_iff at_level_def)

lemma at_level_on_new_entry:
  "on_new_entry l (\<lambda>entry. at_level (LE_Logger entry) level (m entry)) s =
     (if level \<le> LG_Level (LS_loggers s l) then on_new_entry l m s else nop (snd (NewEntry l s)))"
  by (auto simp: at_level_def on_new_entry_def NewEntry_def new_entry_def)

lemmas entry_calls =
  Entry_Debug_def Entry_Info_def Entry_Print_def Entry_Warn_def Entry_Warning_def Entry_Error_def Entry_Fatal_def Entry_Panic_def

lemmas logger_calls =
  Logger_Debug_def Logger_Info_def Logger_Print_def Logger_Warn_def Logger_Warning_def Logger_Error_def Logger_Fatal_def
  Logger_Panic_def

text \<open>A call of the Printf or Println family is the plain call with the text as its one argument.\<close>

lemma Entry_f_is_plain:
  "Entry_Debugf P entry format args = Entry_Debug P entry [VStr (FL_Sprintf P format args)]"
  "Entry_Infof P entry format args = Entry_Info P entry [VStr (FL_Sprintf P format args)]"
  "Entry_Warnf P entry format args = Entry_Warn P entry [VStr (FL_Sprintf P format args)]"
  "Entry_Errorf P entry format args = Entry_Error P entry [VStr (FL_Sprintf P format args)]"
  "Entry_Panicf P entry format args = Entry_Panic P entry [VStr (FL_Sprintf P format args)]"
  by (auto simp: Entry_Debugf_def Entry_Infof_def Entry_Warnf_def Entry_Errorf_def Entry_Panicf_def entry_calls
      at_level_def fun_eq_iff)

lemma Entry_ln_is_plain:
  "Entry_Debugln P entry args = Entry_Debug P entry [VStr (sprintlnn P args)]"
  "Entry_Infoln P entry args = Entry_Info P entry [VStr (sprintlnn P args)]"
  "Entry_Warnln P entry args = Entry_Warn P entry [VStr (sprintlnn P args)]"
  "Entry_Errorln P entry args = Entry_Error P entry [VStr (sprintlnn P args)]"
  "Entry_Panicln P entry args = Entry_Panic P entry [VStr (sprintlnn P args)]"
  by (auto simp: Entry_Debugln_def Entry_Infoln_def Entry_Warnln_def Entry_Errorln_def Entry_Panicln_def entry_calls
      at_level_def fun_eq_iff)

lemma Logger_f_is_plain:
  "Logger_Debugf P l format args = Logger_Debug P l [VStr (FL_Sprintf P format args)]"
  "Logger_Infof P l format args = Logger_Info P l [VStr (FL_Sprintf P format args)]"
  "Logger_Printf P l format args = Logger_Print P l [VStr (FL_Sprintf P format args)]"
  "Logger_Warnf P l format args = Logger_Warn P l [VStr (FL_Sprintf P format args)]"
  "Logger_Errorf P l format args = Logger_Error P l [VStr (FL_Sprintf P format args)]"
  "Logger_Panicf P l format args = Logger_Panic P l [VStr (FL_Sprintf P format args)]"
  by (simp_all add: Logger_Debugf_def Logger_Infof_def Logger_Printf_def Logger_Warnf_def Logger_Errorf_def Logger_Panicf_def
      logger_calls Entry_f_is_plain Entry_Printf_def)

section \<open>What a call writes\<close>

lemma unlocked_again: "\<not> LG_mu g \<Longrightarrow> g\<lparr>LG_mu := True, LG_mu := False\<rparr> = g" "\<not> LG_mu g \<Longrightarrow> g\<lparr>LG_mu := False\<rparr> = g"
  by (cases g; simp)+

lemma set_mu_stderr: "set_mu l b (s\<lparr>LS_stderr := x\<rparr>) = (set_mu l b s)\<lparr>LS_stderr := x\<rparr>"
  by (simp add: set_mu_def put_logger_def)

lemma set_mu_back: "\<not> LG_mu (LS_loggers s l) \<Longrightarrow> set_mu l False (set_mu l True s) = s"
  by (cases s) (simp add: set_mu_def put_logger_def unlocked_again)

text \<open>An entry of a logger on the standard error, without hooks of its level, in a format that does not fail.\<close>

lemma Entry_log_plain:
  fixes s :: "('x, 'w) logs" and P :: "('x, 'w) prog" and entry and level and msg
  defines "g \<equiv> LS_loggers s (LE_Logger entry)"
    and "stamped \<equiv> entry\<lparr>LE_Time := LP_now P (LS_world s), LE_Level := level, LE_Message := msg\<rparr>"
  assumes quiet: "hooks_of g level = []" "\<not> LG_mu g" "LG_Out g = Os_Stderr"
    and reads: "Entry_Reader P stamped s = ((t, None), stamped, s1)" "LS_loggers s1 = LS_loggers s"
  shows "Entry_log P entry level msg s =
    (if level = PanicLevel then Panicked (PEntry stamped) else Returned, s1\<lparr>LS_stderr := LS_stderr s1 @ t\<rparr>)"
proof -
  let ?l = "LE_Logger entry"
  have fire: "Hooks_Fire P g level stamped s = (None, stamped, s)" by (simp add: Hooks_Fire_def quiet(1))
  have st: "LE_Logger stamped = ?l" by (simp add: stamped_def)
  have mu: "LS_loggers s1 ?l = g" by (simp add: reads(2) g_def)
  have copied: "copy_out P ?l t (set_mu ?l True s1) =
      (Returned, (set_mu ?l True s1)\<lparr>LS_stderr := LS_stderr s1 @ t\<rparr>)"
    using quiet(3) mu by (simp add: copy_out_def nop_def write_out_def set_mu_def put_logger_def)
  have restored: "set_mu ?l False ((set_mu ?l True s1)\<lparr>LS_stderr := x\<rparr>) = s1\<lparr>LS_stderr := x\<rparr>" for x
    using mu quiet(2) by (simp add: set_mu_stderr set_mu_back)
  have "with_mu ?l (andThen (copy_out P ?l t) (if level \<le> PanicLevel then panic (PEntry stamped) else nop)) s1 =
    (if level = PanicLevel then Panicked (PEntry stamped) else Returned, s1\<lparr>LS_stderr := LS_stderr s1 @ t\<rparr>)"
    using mu quiet(2) copied restored by (simp add: with_mu_def panic_def nop_def)
  then show ?thesis
    unfolding Entry_log_def Let_def stamped_def [symmetric]
    using fire [unfolded g_def] reads(1) st by (simp add: report_def)
qed

fun Entry_at :: "Level \<Rightarrow> ('x, 'w) prog \<Rightarrow> 'x Entry \<Rightarrow> 'x val list \<Rightarrow> ('x, 'w) act" where
  "Entry_at DebugLevel = Entry_Debug"
| "Entry_at InfoLevel = Entry_Info"
| "Entry_at WarnLevel = Entry_Warn"
| "Entry_at ErrorLevel = Entry_Error"
| "Entry_at FatalLevel = Entry_Fatal"
| "Entry_at PanicLevel = Entry_Panic"

fun Logger_at :: "Level \<Rightarrow> ('x, 'w) prog \<Rightarrow> nat \<Rightarrow> 'x val list \<Rightarrow> ('x, 'w) act" where
  "Logger_at DebugLevel = Logger_Debug"
| "Logger_at InfoLevel = Logger_Info"
| "Logger_at WarnLevel = Logger_Warn"
| "Logger_at ErrorLevel = Logger_Error"
| "Logger_at FatalLevel = Logger_Fatal"
| "Logger_at PanicLevel = Logger_Panic"

text \<open>A call on a logger is the call on an entry without fields, except that a level that is off makes no entry.\<close>

lemma Logger_is_Entry_call:
  assumes "level \<le> LG_Level (LS_loggers s l)"
  shows "Logger_at level P l args s = on_new_entry l (\<lambda>entry. Entry_at level P entry args) s"
  using assms
  by (cases level) (auto simp: logger_calls entry_calls at_level_def on_new_entry_def NewEntry_def new_entry_def andThen_def
      exit1_def split: prod.splits)

text \<open>What the entry of a call holds, and what the formatters of logrus make of it and of its map.\<close>

definition stamp :: "('x, 'w) prog \<Rightarrow> Level \<Rightarrow> string \<Rightarrow> 'x Entry \<Rightarrow> ('x, 'w) logs \<Rightarrow> 'x Entry" where
  "stamp P level msg entry s = entry\<lparr>LE_Time := LP_now P (LS_world s), LE_Level := level, LE_Message := msg\<rparr>"

definition formatted :: "('x, 'w) prog \<Rightarrow> 'x Formatter \<Rightarrow> 'x Entry \<Rightarrow> ('x, 'w) logs \<Rightarrow> string \<times> 'x Fields" where
  "formatted P f entry s =
     (let data = LS_data s (LE_Data entry) in
      case f of
        TextF t \<Rightarrow> Text_Format P t (LP_tty P) (LP_seconds P (LS_world s)) (LP_range P (LS_world s) data) entry data
      | JSONF j \<Rightarrow> (fst (JSON_Format P j entry data), data)
      | OwnF x \<Rightarrow> ([], data))"

lemma Entry_Reader_formatted:
  assumes "LG_Formatter (LS_loggers s (LE_Logger entry)) = f" "\<forall>x. f \<noteq> OwnF x"
    and "\<forall>j. f = JSONF j \<longrightarrow> snd (JSON_Format P j entry (LS_data s (LE_Data entry))) = None"
  shows "Entry_Reader P entry s = ((fst (formatted P f entry s), None), entry,
    s\<lparr>LS_data := (LS_data s)(LE_Data entry := snd (formatted P f entry s))\<rparr>)"
  using assms
  by (cases f) (auto simp: Entry_Reader_def formatted_def Let_def split: prod.splits intro: prod_eqI)

text \<open>
  C38. A call appends its formatted entry once, and only when its level is on. The logger writes to the standard error, has
  no hook for the level, its mutex is free, and its formatter is one of the package's two and does not fail on the entry: then
  exactly the text that the formatter makes of the entry, stamped with the time, the level and the text of the arguments, is
  appended to the standard error, and the mutex is free again; when the level is off nothing changes. (The text is one line
  without colours, C39; with colours it may be more, see colored_entry_may_be_two_lines.) Whether the level was on or off, Fatal
  ends the process; Panic is always on and panics with the entry. The one other trace in the state is the map of the
  entry, where the text formatter moves fields.
\<close>

theorem call_logs_once:
  assumes "hooks_of (LS_loggers s (LE_Logger entry)) level = []" and "\<not> LG_mu (LS_loggers s (LE_Logger entry))"
    and "LG_Out (LS_loggers s (LE_Logger entry)) = Os_Stderr" and f: "LG_Formatter (LS_loggers s (LE_Logger entry)) = f"
    and own: "\<forall>x. f \<noteq> OwnF x"
    and json: "\<forall>j. f = JSONF j \<longrightarrow>
      snd (JSON_Format P j (stamp P level (Sprint P args) entry s) (LS_data s (LE_Data entry))) = None"
  shows "Entry_at level P entry args s =
    (case level of PanicLevel \<Rightarrow> Panicked (PEntry (stamp P level (Sprint P args) entry s)) | FatalLevel \<Rightarrow> Exited | _ \<Rightarrow> Returned,
     if level \<le> LG_Level (LS_loggers s (LE_Logger entry))
     then (case formatted P f (stamp P level (Sprint P args) entry s) s of (text, data) \<Rightarrow>
       s\<lparr>LS_data := (LS_data s)(LE_Data entry := data), LS_stderr := LS_stderr s @ text\<rparr>)
     else s)"
proof -
  let ?e = "stamp P level (Sprint P args) entry s"
  have e: "LE_Logger ?e = LE_Logger entry" "LE_Data ?e = LE_Data entry" by (simp_all add: stamp_def)
  have "Entry_Reader P ?e s = ((fst (formatted P f ?e s), None), ?e,
      s\<lparr>LS_data := (LS_data s)(LE_Data entry := snd (formatted P f ?e s))\<rparr>)"
    using Entry_Reader_formatted [of s ?e f P] f own json by (simp add: e)
  from Entry_log_plain [OF assms(1-3) this [unfolded stamp_def], folded stamp_def]
  have "Entry_log P entry level (Sprint P args) s =
    (if level = PanicLevel then Panicked (PEntry ?e) else Returned,
     s\<lparr>LS_data := (LS_data s)(LE_Data entry := snd (formatted P f ?e s)), LS_stderr := LS_stderr s @ fst (formatted P f ?e s)\<rparr>)"
    by simp
  then show ?thesis
    by (cases level) (auto simp: entry_calls at_level_def andThen_def exit1_def nop_def split: prod.splits)
qed

definition sample_prog :: "(unit, unit) prog" where
  "sample_prog = fmtlib.extend sample_fmtlib
     \<lparr>LP_now = \<lambda>_ _. ''2016-05-01'', LP_seconds = \<lambda>_. 7, LP_tty = False, LP_range = \<lambda>_ _. [], LP_Levels = \<lambda>_. [],
      LP_Fire = \<lambda>_ e s. (None, e, s), LP_Format = \<lambda>_ e s. (([], None), e, s), LP_Write = \<lambda>_ p s. ((length p, None), s)\<rparr>"

definition sample_logs :: "(unit, unit) logs" where
  "sample_logs = \<lparr>LS_loggers = \<lambda>_. New_Logger, LS_data = \<lambda>_. Map.empty, LS_next = 1, LS_stderr = ''started'' @ [CHR 0x0A], LS_world = ()\<rparr>"

theorem call_logs_once_witness:
  "Entry_at InfoLevel sample_prog sample_entry [VStr ''hi there''] sample_logs =
     (Returned, sample_logs\<lparr>LS_stderr := ''started'' @ [CHR 0x0A] @
        ''time=2016-05-01 level=info msg='' @ dquote # ''hi there'' @ [dquote, CHR '' '', CHR 0x0A]\<rparr>) \<and>
   Entry_at DebugLevel sample_prog sample_entry [] sample_logs = (Returned, sample_logs)"
proof -
  have g: "LS_loggers sample_logs (LE_Logger sample_entry) = New_Logger" "LS_data sample_logs = (\<lambda>_. Map.empty)"
    by (simp_all add: sample_logs_def)
  have hi: "formatted sample_prog (LG_Formatter New_Logger) (stamp sample_prog InfoLevel (Sprint sample_prog [VStr ''hi there'']) sample_entry
      sample_logs) sample_logs =
    (''time=2016-05-01 level=info msg='' @ dquote # ''hi there'' @ [dquote, CHR '' '', CHR 0x0A], Map.empty)"
    by (simp add: formatted_def New_Logger_def Text_Format_def isColored_def plain_text_def appendKeyValue_def quote_if_needed_def
      needsQuoting_def Quote_def quoted.simps(2) quoted_rune_def encode_rune_def sorted_keys_def stamp_def Sprint_def
      prefixFieldClashes_def prefix_clash_def sample_prog_def sample_fmtlib_def sample_logs_def fmtlib.defs Level_String_def
      is_digit_def RuneError_def chr_def Let_def) (simp add: char_of_def bit_0)
  have quiet: "hooks_of New_Logger level = []" "\<not> LG_mu New_Logger" "LG_Out New_Logger = Os_Stderr"
    "\<forall>x. LG_Formatter New_Logger \<noteq> OwnF x" "\<forall>j. LG_Formatter New_Logger = JSONF j \<longrightarrow> Q j" for level and Q :: "JSONFormatter \<Rightarrow> bool"
    by (simp_all add: New_Logger_def hooks_of_def)
  note call = call_logs_once [of sample_logs sample_entry, unfolded g, OF quiet(1-3) refl quiet(4,5)]
  have "LG_Level (New_Logger :: unit Logger) = InfoLevel" by (simp add: New_Logger_def)
  with call [of InfoLevel sample_prog "[VStr ''hi there'']"] call [of DebugLevel sample_prog "[]"]
  show ?thesis by (simp add: hi less_eq_Level_def) (simp add: sample_logs_def fun_eq_iff)
qed

section \<open>Hooks, formatters and writers of the program\<close>

text \<open>A writer that logs on its own logger never returns: the mutex is locked while it writes.\<close>

lemma logging_while_writing_is_stuck:
  assumes "LG_mu (LS_loggers s (LE_Logger entry))" and "hooks_of (LS_loggers s (LE_Logger entry)) level = []"
    and "LG_Formatter (LS_loggers s (LE_Logger entry)) = TextF f"
  shows "fst (Entry_log P entry level msg s) = Stuck"
  using assms by (auto simp: Entry_log_def Hooks_Fire_def report_def Entry_Reader_def with_mu_def Let_def split: prod.splits)

text \<open>
  When the program's own code leaves the mutexes alone, every entry that is logged with all mutexes free ends
  with all mutexes free, also when it ends in a panic.
\<close>

definition locks :: "('x, 'w) logs \<Rightarrow> nat \<Rightarrow> bool" where
  "locks s l = LG_mu (LS_loggers s l)"

definition leaves_locks :: "('x, 'w) prog \<Rightarrow> bool" where
  "leaves_locks P \<longleftrightarrow>
     (\<forall>x e s. locks (snd (snd (LP_Fire P x e s))) = locks s) \<and> (\<forall>x e s. locks (snd (snd (LP_Format P x e s))) = locks s) \<and>
     (\<forall>x p s. locks (snd (LP_Write P x p s)) = locks s)"

lemma locks_simps [simp]:
  "locks (s\<lparr>LS_data := d\<rparr>) = locks s" "locks (s\<lparr>LS_stderr := t\<rparr>) = locks s" "locks (set_mu l b s) = (locks s)(l := b)"
  by (simp_all add: locks_def fun_eq_iff set_mu_def)

lemma locks_fire: "leaves_locks P \<Longrightarrow> locks (snd (snd (fire_each P hooks entry s))) = locks s"
proof (induction hooks arbitrary: entry s)
  case (Cons hook hooks)
  have "locks (snd (snd (LP_Fire P hook entry s))) = locks s" using Cons.prems by (simp add: leaves_locks_def)
  with Cons show ?case by (auto split: prod.splits)
qed simp

lemma locks_reader: "leaves_locks P \<Longrightarrow> locks (snd (snd (Entry_Reader P entry s))) = locks s"
  by (simp add: Entry_Reader_def leaves_locks_def split: Formatter.splits prod.splits)

lemma locks_copy: "leaves_locks P \<Longrightarrow> locks (snd (copy_out P l p s)) = locks s"
proof -
  assume "leaves_locks P"
  then have "locks (snd (write_out P w p s)) = locks s" for w
    by (cases w) (simp_all add: write_out_def leaves_locks_def)
  from this [of "LG_Out (LS_loggers s l)"] show ?thesis
    by (auto simp: copy_out_def nop_def panic_def to_stderr_def split: prod.splits option.splits)
qed

lemma copy_not_stuck: "fst (copy_out P l p s) \<noteq> Stuck"
  by (auto simp: copy_out_def nop_def panic_def to_stderr_def split: prod.splits option.splits)

lemma report_free: "\<not> locks s l \<Longrightarrow> \<exists>s'. report l what err s = (Returned, s') \<and> locks s' = locks s"
  by (auto simp: report_def nop_def with_mu_def to_stderr_def locks_def [symmetric] fun_eq_iff split: option.splits)

lemma with_mu_free:
  assumes "\<And>s. locks (snd (m s)) = locks s" and "\<And>s. fst (m s) \<noteq> Stuck" and free: "\<forall>k. \<not> locks s k"
  shows "fst (with_mu l m s) \<noteq> Stuck \<and> (\<forall>k. \<not> locks (snd (with_mu l m s)) k)"
proof -
  obtain r s' where m: "m (set_mu l True s) = (r, s')" by fastforce
  then have "locks s' = (locks s)(l := True)" "r \<noteq> Stuck" using assms(1,2) by (metis snd_conv locks_simps(3), metis fst_conv)
  then show ?thesis using m free by (simp add: with_mu_def locks_def [symmetric])
qed

lemma Entry_log_unlocked:
  assumes P: "leaves_locks P" and free: "\<forall>l. \<not> locks s l"
  shows "fst (Entry_log P entry level msg s) \<noteq> Stuck \<and> (\<forall>l. \<not> locks (snd (Entry_log P entry level msg s)) l)"
proof -
  let ?e = "entry\<lparr>LE_Time := LP_now P (LS_world s), LE_Level := level, LE_Message := msg\<rparr>"
  obtain err e1 s1 where fire: "Hooks_Fire P (LS_loggers s (LE_Logger ?e)) level ?e s = (err, e1, s1)" by (metis surj_pair)
  then have "locks s1 = locks s" using locks_fire [OF P] by (metis Hooks_Fire_def snd_conv)
  with free obtain s2 where r1: "report (LE_Logger e1) ''Failed to fire hook: '' err s1 = (Returned, s2)" "locks s2 = locks s"
    using report_free by metis
  obtain t err2 e2 s3 where read: "Entry_Reader P e1 s2 = ((t, err2), e2, s3)" by (metis surj_pair)
  then have "locks s3 = locks s" using locks_reader [OF P] r1(2) by (metis snd_conv)
  with free obtain s4 where r2: "report (LE_Logger e2) ''Failed to obtain reader, '' err2 s3 = (Returned, s4)" "locks s4 = locks s"
    using report_free by metis
  let ?m = "andThen (copy_out P (LE_Logger e2) t) (if level \<le> PanicLevel then panic (PEntry e2) else nop)"
  have "locks (snd (?m s)) = locks s" "fst (?m s) \<noteq> Stuck" for s
    using locks_copy [OF P, of "LE_Logger e2" t s] copy_not_stuck [of P "LE_Logger e2" t s]
    by (auto simp: andThen_def panic_def nop_def split: prod.splits)
  then have "fst (with_mu (LE_Logger e2) ?m s4) \<noteq> Stuck \<and> (\<forall>l. \<not> locks (snd (with_mu (LE_Logger e2) ?m s4)) l)"
    using free r2(2) by (intro with_mu_free) simp_all
  then show ?thesis
    using fire r1(1) read r2(1) by (simp add: Entry_log_def Let_def)
qed

section \<open>The lines of a writer\<close>

text \<open>Every line that is written is logged, without its line end, as long as none has 64K.\<close>

lemma scan_lines_each:
  assumes "\<forall>line\<in>set lines. CHR 0x0A \<notin> set line \<and> length line < 65536"
  shows "scan_lines (concat (map (\<lambda>line. line @ [CHR 0x0A]) lines)) = (map drop_cr lines, None)"
  using assms
proof (induction lines)
  case Nil
  then show ?case by (simp add: scan_lines.simps)
next
  case (Cons line lines)
  have "takeWhile (\<lambda>c. c \<noteq> CHR 0x0A) (line @ CHR 0x0A # r) = line" for r
    using Cons.prems by (intro takeWhile_append_stop) auto
  with Cons show ?case by (subst scan_lines.simps) (simp add: Let_def)
qed

text \<open>A longer line ends the scan, and what comes after it is lost.\<close>

lemma scan_lines_too_long:
  "CHR 0x0A \<notin> set line \<Longrightarrow> 65536 \<le> length line \<Longrightarrow>
     scan_lines (line @ CHR 0x0A # rest) = ([], Some ''bufio.Scanner: token too long'')"
  by (subst scan_lines.simps) (auto simp: Let_def takeWhile_append)

end
