(* ===== verification/Spec2Isabelle.thy ===== *)
theory Spec2Isabelle
  imports Boot Dedupe PoolRace ClusterRuns WsHandshake GraceNet ByteBuffer Sentinel CmapIter Ticker Logrus
begin

text \<open>
  Relax (package \<open>slack\<close> of the repository and the packages it uses): a bot server that keeps
  one websocket per Slack team, turns what Slack sends into events on a Redis queue and sends
  what the owner publishes in Redis to Slack.

  \<^bold>\<open>The program.\<close> main.go checks the environment, sets up the log level, starts a client for every
  team in the Redis hash of the bots (\<open>InitClients\<close>) and serves a health check. A client
  (slack/client.go) logs in through \<open>rtm.start\<close>, opens the websocket, registers itself in the
  concurrent map \<open>Clients\<close> and runs two goroutines: the read loop, whose frames become events, and
  the ping pump, which starts the client anew when pongs are missing. One more goroutine receives
  the commands of the owner by pubsub. An event is pushed on a Redis list after HSETNX on its key,
  so that of several instances of the program only one pushes it. All of Redis is reached through
  the vendored client redis.v3, a pool of connections whose bytes are read by bufio.v1, and Slack
  through gorilla/websocket; these packages are under Godeps in the repository.

  \<^bold>\<open>Conventions.\<close> A Go function that may panic, or not return, has an \<open>option\<close> result with \<open>None\<close> for
  either; a Go error is a value of type \<open>'e option\<close>, nil being \<open>None\<close>. Strings are lists of bytes.
  Widths are kept where they matter: int64 and uint64 as 64 bit words in the rate limiter and the
  time arithmetic of the HTTP client, masks and CRC16 as 32 and 16 bit words. Objects that are
  shared through pointers (clients, connections) live in stores, and are known by their address.
  The world (Redis server, HTTP, peers, clock, network) is a parameter, \<open>Outside\<close>, \<open>RedisNet\<close> and
  the scripts of \<open>Bufio\<close>, of which \<open>Server\<close> has concrete instances. The dials of a network are an
  endless sequence, each of which takes its time on the clock; what is read is a finite text in pieces.

  \<^bold>\<open>Theories.\<close> The ground:
  \<^item> \<open>Prelude\<close>, \<open>GoLib\<close>, \<open>Utf8\<close>, \<open>GoFmt\<close>, \<open>GoUrl\<close>: the parts of Go 1.7's standard library that are
    used: strconv, unicode/utf8, fmt without arguments, net/url.
  \<^item> \<open>Json\<close>, \<open>JsonText\<close>, \<open>JsonCodec\<close>: encoding/json, with the contract of a codec as a locale;
    \<open>Datatypes\<close> has the structs of slack/datatypes.go and interprets it for each.
  \<^item> \<open>Outside\<close>, \<open>Server\<close>: the world's operations, what Redis documents of them (\<open>redis_lawful\<close>),
    and a server that keeps hashes and lists.

  The bot server:
  \<^item> \<open>Cmap\<close>: the concurrent map, 32 shards by FNV-1, behind the contract \<open>team_registry\<close>; \<open>CmapIter\<close>: its
    iterators, with the writers beside them.
  \<^item> \<open>ClientBase\<close>, \<open>SlackApi\<close>, \<open>Events\<close>, \<open>Lifecycle\<close>, \<open>PubSub\<close>: slack/client.go in its order: making a
    client, calls of Slack's API and Login, the cases of handleMessage with sendEvent, Start, Stop,
    the pump and the loops, and the commands of the owner. \<open>Backoff\<close> is the retrying of Login, \<open>Ticker\<close> the rest of that package,
    \<open>RedisClient\<close> is redisclient/client.go.
  \<^item> \<open>RedisV3\<close>: the commands that these issue, over replies already parsed, with the retries. A command may
    also end in a panic of the redis client (\<open>Crashed\<close>), which \<open>RedisPool\<close> and \<open>PoolRace\<close> show to be possible; a
    service without one is \<open>redis_sound\<close>.
  \<^item> \<open>System\<close>: the process as a step relation over its goroutines, and the invariant of its states. A step is one frame,
    tick, start or published message as a whole;
    \<open>Boot\<close>: main.go, the log level, the health check; \<open>Dedupe\<close>: any number of instances, their Redis
    commands interleaved.

  The Redis client, redis.v3:
  \<^item> \<open>Bufio\<close>, \<open>BufioStream\<close>: the Reader of bufio.v1, and what it promises (locale \<open>line_source\<close>);
    \<open>BufWriter\<close>, \<open>ByteBuffer\<close>: its Writer and its Buffer, each against a list of bytes.
  \<^item> \<open>Resp\<close>, \<open>RespFacts\<close>, \<open>RespReplies\<close>: parser.go and error.go, with the round trips.
  \<^item> \<open>RedisCmd\<close>, \<open>RedisCommands\<close>, \<open>RedisKinds\<close>: command.go, every method of commands.go, and the type
    of a command.
  \<^item> \<open>RateLimit\<close>, \<open>RedisNet\<close>, \<open>RedisPool\<close>, \<open>PoolFacts\<close>, \<open>PoolRace\<close>: ratelimit.v1, conn.go, pool.go
    run by one goroutine and by many, and the contract of a pool (locale in \<open>PoolFacts\<close>, interpreted
    on the three pools of the code).
  \<^item> \<open>RedisSessions\<close>, \<open>RedisRuns\<close>: redis.go, pipeline.go, multi.go, pubsub.go, script.go, and what
    these do down to the bytes.
  \<^item> \<open>RedisHash\<close>, \<open>RedisCluster\<close>, \<open>ClusterRuns\<close>: crc16.go, cluster.go and cluster_pipeline.go; \<open>Sentinel\<close>:
    sentinel.go, the failover and its listeners.

  The websocket package:
  \<^item> \<open>WsFrame\<close>, \<open>WsConn\<close>, \<open>WsRead\<close>, \<open>WsFacts\<close>, \<open>WsRuns\<close>: gorilla/websocket/conn.go and json.go.
  \<^item> \<open>HttpText\<close>, \<open>HttpFacts\<close>: how net/http reads the head of a request or response; \<open>WsDial\<close>,
    \<open>WsHandshake\<close>: client.go, server.go and util.go.

  The HTTP server of the health check:
  \<^item> \<open>HttpDown\<close>: facebookgo/httpdown, the goroutine that knows all connections and closes them one by one, their
    reports, and Stop with its two timeouts, as a step relation; \<open>GraceNet\<close>: facebookgo/grace, the listeners handed to the next process and the
    waiting of gracehttp.Serve.

  The logs:
  \<^item> \<open>LogText\<close>: the JSON and the text formatter of Sirupsen/logrus, with the parts of fmt and strconv that they
    use; \<open>Logrus\<close>: hooks, entries, loggers, the standard logger, and the writer of a logger.

  \<^bold>\<open>What is shown.\<close> Of the whole process: the states that can be reached are in order, a registered
  client is filed under its key, and main serves with one client for every
  stored team. Of events: handleMessage does what its specification by cases says with Redis working; with Redis
  failing it sends no more than that and panics only where the redis client does; and of many instances exactly one pushes an event unless a reply is lost. Of the data:
  what is pushed can be read back; replies, requests and websocket messages survive their protocol
  whatever the pieces they arrive in. Of the Redis client: a command from its call down to its bytes,
  the accounts of the pool in every interleaving, transactions, subscriptions, the redirections of a
  cluster, the sentinels and the closing of the connections to an old master, when it ends and
  when it does not; how many dials the rate limiter lets through, one after the other and at once; below
  it, that a Writer appends and that a Buffer is a queue of bytes, but for its two methods that unread. Of websockets: a handshake of both sides
  and the messages after it. Of the HTTP server: what has become of the connections when Stop ends, by its stop
  timeout, its kill or its kill timeout, and listeners survive a
  restart. Of the logs: a call appends its formatted entry once when its level is on and ends as its level says, without colours no
  message forges a line, and a JSON line is read back. Several properties state what goes wrong, in the cases in which the code lets it.

  \<^bold>\<open>Bounds and fuel.\<close> parseSlice has a bound on its nesting, the number of bytes to come, and
  \<open>RespReplies\<close> shows the recursion without it. A command is tried \<open>MaxRetries + 1\<close> times, the number
  in the code; a fill of a buffer gives up after the 100 empty reads of the code; a wait for a
  connection has the patience of its caller, given in turns. Loops that need not end (the rate limit of
  the HTTP client, the frames and messages of a websocket, redirections of a cluster, header lines) are
  partial functions, whose value \<open>None\<close> is not returning, and the properties show that they return.

  \<^bold>\<open>Not modelled.\<close> What happens within a step of \<open>System\<close> while another goroutine runs: a client that is started
  twice has two read loops on the same maps without a lock, and a data race between them (which Go may end with a fatal error) is no
  behaviour of the model; that it is started twice is a property. The same holds of the goroutines that share a
  command or a formatter. The end of the memory: \<open>make\<close> panics at a count that Go refuses, but what it accepts is there.
  What is only called: TCP and TLS, net/http but for the heads of messages, the Redis
  server, SHA-1, float formatting. The terminal, and the hooks and formatters that logrus has in
  packages of their own. What only prints: the String methods of the modelled packages. The clock that
  tests replace (facebookgo/clock), the metrics (facebookgo/stats) and the test frameworks (ginkgo,
  gomega), which the server does not run. Of the modelled packages the
  accessors that only read a field, and the deadlines of sockets: a read or write that runs into one is an
  error of the script of its connection.
\<close>

text \<open>
  C5. An event read back from the JSON that sendEvent pushes on the queue is that event, when
  its strings are valid UTF-8.
\<close>

theorem event_round_trip:
  assumes "ok_Event e"
  shows "unmarshal dec_Event (enc_Event e) zero_Event = (e, None)"
  using assms by (rule Event_codec.unmarshal_enc)

theorem event_round_trip_witness:
  "unmarshal dec_Event (enc_Event (zero_Event\<lparr>Ev_Type := ''disable_bot''\<rparr>)) zero_Event =
     (zero_Event\<lparr>Ev_Type := ''disable_bot''\<rparr>, None)"
  by (rule event_round_trip) (simp add: ok_Event_def zero_Event_def ok_slice_def valid_utf8_ascii byte_def)

end
